(* ===== verification/Py_Base.thy ===== *)
theory Py_Base
  imports Main "HOL-Library.Word"
begin

unbundle bit_operations_syntax

text \<open>
  The prelude of the development: what every modelled converter of \<^verbatim>\<open>scripts/\<close> uses of
  Python. Bytes objects are lists of 8-bit words, Python integers are \<open>int\<close>, offsets and
  lengths (never negative in the modelled code) are \<open>nat\<close>, and every \<^verbatim>\<open>raise\<close> is an
  \<open>Inl\<close> of a result. The file holds slices, the byte-order readings of \<^verbatim>\<open>struct\<close> and
  \<^verbatim>\<open>int.from_bytes\<close>, hexadecimal and decimal text, the consumption of a generator by a
  \<^verbatim>\<open>for\<close> loop, and the lemmas about them that the component theories share.
\<close>

named_theorems byte_bounds \<open>bounds of the values read out of byte strings\<close>
named_theorems result_simps \<open>inversion of successful results\<close>

section \<open>Values, errors and results\<close>

type_synonym byte = "8 word"
type_synonym bytes = "8 word list"

datatype py_error =
    ValueError string
  | IndexError
  | KeyError
  | StructError
  | CsvError
  | UnpackError
  | UnicodeError

type_synonym 'a result = "py_error + 'a"

abbreviation fail :: "string \<Rightarrow> 'a result" where
  "fail msg \<equiv> Inl (ValueError msg)"

definition rbind :: "'a result \<Rightarrow> ('a \<Rightarrow> 'b result) \<Rightarrow> 'b result" where
  "rbind m f = (case m of Inl e \<Rightarrow> Inl e | Inr x \<Rightarrow> f x)"

lemma rbind_simps [simp]:
  "rbind (Inl e) f = Inl e"
  "rbind (Inr x) f = f x"
  by (simp_all add: rbind_def)

lemma rbind_Inr_iff [result_simps]: "(rbind m f = Inr out) = (\<exists>mid. m = Inr mid \<and> f mid = Inr out)"
  by (cases m) auto

lemma rbind_Inl_iff [result_simps]:
  "rbind m f = Inl e \<longleftrightarrow> m = Inl e \<or> (\<exists>x. m = Inr x \<and> f x = Inl e)"
  by (cases m) auto

lemma rbind_InrE:
  assumes "rbind m f = Inr y" obtains x where "m = Inr x" and "f x = Inr y"
  using assms by (cases m) auto

lemma rbind_pairE:
  assumes "rbind m f = Inr y" obtains a b where "m = Inr (a, b)" and "f (a, b) = Inr y"
  using assms by (cases m) auto

lemma if_failE:
  assumes "(if b then Inl e else k) = Inr y" obtains "\<not> b" and "k = Inr y"
  using assms by (cases b) auto

lemma rbind_cong [fundef_cong]:
  "m = m' \<Longrightarrow> (\<And>x. m' = Inr x \<Longrightarrow> f x = g x) \<Longrightarrow> rbind m f = rbind m' g"
  by (cases m') auto

lemma if_fail_Inr [result_simps]:
  "(if b then Inl e else k) = Inr y \<longleftrightarrow> \<not> b \<and> k = Inr y"
  by simp

section \<open>Slices\<close>

text \<open>\<^verbatim>\<open>xs[a:b]\<close> for non-negative indices: Python clamps both ends to the length.\<close>

definition bslice :: "'a list \<Rightarrow> nat \<Rightarrow> nat \<Rightarrow> 'a list" where
  "bslice xs a b = take (b - a) (drop a xs)"

lemma length_bslice: "length (bslice xs a b) = min (b - a) (length xs - a)"
  by (simp add: bslice_def min.commute)

lemma length_bslice_in [simp]: "b \<le> length xs \<Longrightarrow> length (bslice xs a b) = b - a"
  by (simp add: bslice_def)

lemma bslice_empty [simp]: "bslice xs a a = []"
  by (simp add: bslice_def)

lemma bslice_all [simp]: "bslice xs 0 (length xs) = xs"
  by (simp add: bslice_def)

lemma bslice_Nil [simp]: "bslice [] a b = []"
  by (simp add: bslice_def)

lemma bslice_append_bslice:
  "a \<le> b \<Longrightarrow> b \<le> c \<Longrightarrow> bslice xs a b @ bslice xs b c = bslice xs a c"
proof -
  assume ab: "a \<le> b" and bc: "b \<le> c"
  have "bslice xs a c = take ((b - a) + (c - b)) (drop a xs)"
    using ab bc by (simp add: bslice_def)
  also have "\<dots> = bslice xs a b @ take (c - b) (drop (b - a) (drop a xs))"
    by (simp add: bslice_def take_add)
  also have "drop (b - a) (drop a xs) = drop b xs"
    using ab by simp
  finally show ?thesis by (simp add: bslice_def)
qed

lemma bslice_append_drop: "a \<le> b \<Longrightarrow> bslice xs a b @ drop b xs = drop a xs"
  by (metis append_take_drop_id bslice_def drop_drop le_add_diff_inverse2)

lemma nth_bslice: "i < b - a \<Longrightarrow> b \<le> length xs \<Longrightarrow> bslice xs a b ! i = xs ! (a + i)"
  by (simp add: bslice_def)

lemma bslice_cut: "bslice xs a (a + length (bslice xs a b)) = bslice xs a b"
proof -
  have "take (min (length ys) k) ys = take k ys" for k and ys :: "'a list"
    by (cases "k \<le> length ys") simp_all
  from this [of "drop a xs" "b - a"] show ?thesis by (simp add: bslice_def)
qed

lemma bslice_append_left: "b \<le> length xs \<Longrightarrow> bslice (xs @ ys) a b = bslice xs a b"
  by (simp add: bslice_def)

lemma bslice_append_right:
  "bslice (xs @ ys) (length xs + a) (length xs + b) = bslice ys a b"
  by (simp add: bslice_def)

lemma bslice_bslice:
  "d \<le> b - a \<Longrightarrow> bslice (bslice xs a b) c d = bslice xs (a + c) (a + d)"
  by (simp add: bslice_def drop_take add.commute)

lemma set_bslice_subset: "set (bslice xs a b) \<subseteq> set xs"
  unfolding bslice_def by (meson set_drop_subset set_take_subset subset_trans)

text \<open>\<^verbatim>\<open>data.find(bytes([b]), cursor)\<close>.\<close>

definition find_byte :: "byte \<Rightarrow> bytes \<Rightarrow> nat \<Rightarrow> nat option" where
  "find_byte b data cursor = find (\<lambda>i. data ! i = b) [cursor..<length data]"

lemma find_byte_Some:
  "find_byte b data cursor = Some i \<Longrightarrow> cursor \<le> i \<and> i < length data \<and> data ! i = b \<and> (\<forall>j. cursor \<le> j \<longrightarrow> j < i \<longrightarrow> data ! j \<noteq> b)"
  by (auto simp: find_byte_def find_Some_iff) (metis le_add_diff_inverse nat_add_left_cancel_less)

lemma find_byte_rec:
  "find_byte b data cursor = (if cursor < length data then if data ! cursor = b then Some cursor
     else find_byte b data (Suc cursor) else None)"
  by (simp add: find_byte_def upt_conv_Cons)

text \<open>\<^verbatim>\<open>xs[i]\<close> for a non-negative index.\<close>

definition item_at :: "'a list \<Rightarrow> nat \<Rightarrow> 'a result" where
  "item_at xs i = (if i < length xs then Inr (xs ! i) else Inl IndexError)"

lemma item_at_Inr [result_simps]: "item_at xs i = Inr x \<longleftrightarrow> i < length xs \<and> x = xs ! i"
  by (auto simp: item_at_def)

section \<open>Integers in byte strings\<close>

text \<open>A byte as a Python integer, and \<^verbatim>\<open>int.from_bytes\<close> in both orders.\<close>

definition bval :: "byte \<Rightarrow> int" where
  "bval b = uint b"

definition be_int :: "bytes \<Rightarrow> int" where
  "be_int bs = foldl (\<lambda>acc b. acc * 256 + bval b) 0 bs"

fun le_int :: "bytes \<Rightarrow> int" where
  "le_int [] = 0"
| "le_int (b # bs) = bval b + 256 * le_int bs"

text \<open>\<^verbatim>\<open>struct.unpack_from\<close> of one unsigned big- or little-endian field at an offset.\<close>

definition u16be :: "bytes \<Rightarrow> nat \<Rightarrow> int" where "u16be d o1 = be_int (bslice d o1 (o1 + 2))"
definition u32be :: "bytes \<Rightarrow> nat \<Rightarrow> int" where "u32be d o1 = be_int (bslice d o1 (o1 + 4))"
definition u16le :: "bytes \<Rightarrow> nat \<Rightarrow> int" where "u16le d o1 = le_int (bslice d o1 (o1 + 2))"
definition u32le :: "bytes \<Rightarrow> nat \<Rightarrow> int" where "u32le d o1 = le_int (bslice d o1 (o1 + 4))"

text \<open>The byte-order prefix of a \<^verbatim>\<open>struct\<close> format.\<close>

datatype byte_order = LittleEndian | BigEndian

fun u16 :: "byte_order \<Rightarrow> bytes \<Rightarrow> nat \<Rightarrow> int" where
  "u16 LittleEndian d i = u16le d i"
| "u16 BigEndian d i = u16be d i"

fun u32 :: "byte_order \<Rightarrow> bytes \<Rightarrow> nat \<Rightarrow> int" where
  "u32 LittleEndian d i = u32le d i"
| "u32 BigEndian d i = u32be d i"

text \<open>\<^verbatim>\<open>signed=True\<close>: two's complement over the whole length.\<close>

definition be_sint :: "bytes \<Rightarrow> int" where
  "be_sint bs =
     (let n = be_int bs in if 2 * n \<ge> 256 ^ length bs then n - 256 ^ length bs else n)"

text \<open>\<^verbatim>\<open>struct.pack(">H", n)\<close> for a value in range.\<close>

definition pack_u16be :: "int \<Rightarrow> bytes" where
  "pack_u16be n = [word_of_int (n div 256), word_of_int n]"

definition pack_u32be :: "int \<Rightarrow> bytes" where
  "pack_u32be n = [word_of_int (n div 16777216), word_of_int (n div 65536), word_of_int (n div 256),
     word_of_int n]"

lemma bval_bounds [byte_bounds, simp]: "0 \<le> bval b" "bval b < 256"
  using uint_lt2p [of b] by (simp_all add: bval_def)

lemma bval_inject [simp]: "bval a = bval b \<longleftrightarrow> a = b"
  unfolding bval_def by (rule word_uint_eq_iff [symmetric])

lemma bval_0_iff [simp]: "bval b = 0 \<longleftrightarrow> b = 0"
  unfolding bval_def by (rule uint_0_iff)

lemma be_int_Nil [simp]: "be_int [] = 0"
  by (simp add: be_int_def)

lemma be_int_foldl:
  "foldl (\<lambda>acc b. acc * 256 + bval b) a bs = a * 256 ^ length bs + be_int bs"
proof (induction bs arbitrary: a)
  case Nil
  then show ?case by (simp add: be_int_def)
next
  case (Cons b bs)
  have "foldl (\<lambda>acc b. acc * 256 + bval b) a (b # bs)
      = (a * 256 + bval b) * 256 ^ length bs + be_int bs"
    using Cons.IH [of "a * 256 + bval b"] by simp
  moreover have "be_int (b # bs) = bval b * 256 ^ length bs + be_int bs"
    using Cons.IH [of "bval b"] by (simp add: be_int_def)
  ultimately show ?case by (simp add: algebra_simps)
qed

lemma be_int_Cons: "be_int (b # bs) = bval b * 256 ^ length bs + be_int bs"
proof -
  have "be_int (b # bs) = foldl (\<lambda>acc b. acc * 256 + bval b) (bval b) bs"
    by (simp add: be_int_def)
  then show ?thesis by (simp only: be_int_foldl)
qed

lemma be_int_snoc: "be_int (bs @ [b]) = be_int bs * 256 + bval b"
  by (simp add: be_int_def)

lemma be_int_nonneg [byte_bounds, simp]: "0 \<le> be_int bs"
  by (induction bs) (simp_all add: be_int_Cons)

lemma le_int_nonneg [byte_bounds, simp]: "0 \<le> le_int bs"
  by (induction bs) simp_all

lemma be_int_bound: "be_int bs < 256 ^ length bs"
proof (induction bs)
  case (Cons b bs)
  have "bval b \<le> 255" using bval_bounds(2) [of b] by linarith
  then have "bval b * 256 ^ length bs \<le> 255 * 256 ^ length bs"
    by (intro mult_right_mono) simp_all
  with Cons have "bval b * 256 ^ length bs + be_int bs < 255 * 256 ^ length bs + 256 ^ length bs"
    by linarith
  then show ?case by (simp add: be_int_Cons)
qed simp

lemma le_int_bound: "le_int bs < 256 ^ length bs"
proof (induction bs)
  case (Cons b bs)
  have "bval b \<le> 255" using bval_bounds(2) [of b] by linarith
  with Cons show ?case by simp
qed simp

lemma be_int_bslice_bound: "be_int (bslice d a (a + n)) < 256 ^ n"
proof -
  have "length (bslice d a (a + n)) \<le> n" by (simp add: length_bslice)
  then have "(256::int) ^ length (bslice d a (a + n)) \<le> 256 ^ n"
    by (intro power_increasing) simp_all
  with be_int_bound show ?thesis by (rule less_le_trans)
qed

lemma le_int_bslice_bound: "le_int (bslice d a (a + n)) < 256 ^ n"
proof -
  have "length (bslice d a (a + n)) \<le> n" by (simp add: length_bslice)
  then have "(256::int) ^ length (bslice d a (a + n)) \<le> 256 ^ n"
    by (intro power_increasing) simp_all
  with le_int_bound show ?thesis by (rule less_le_trans)
qed

lemma u16be_bounds [byte_bounds, simp]: "0 \<le> u16be d i" "u16be d i < 65536"
  using be_int_bslice_bound [of d i 2] by (simp_all add: u16be_def)

lemma u32be_bounds [byte_bounds, simp]: "0 \<le> u32be d i" "u32be d i < 4294967296"
  using be_int_bslice_bound [of d i 4] by (simp_all add: u32be_def)

lemma u16le_bounds [byte_bounds, simp]: "0 \<le> u16le d i" "u16le d i < 65536"
  using le_int_bslice_bound [of d i 2] by (simp_all add: u16le_def)

lemma u32le_bounds [byte_bounds, simp]: "0 \<le> u32le d i" "u32le d i < 4294967296"
  using le_int_bslice_bound [of d i 4] by (simp_all add: u32le_def)

lemma u16_bounds [byte_bounds, simp]: "0 \<le> u16 ord d i" "u16 ord d i < 65536"
  by (cases ord; simp)+

lemma u32_bounds [byte_bounds, simp]: "0 \<le> u32 ord d i" "u32 ord d i < 4294967296"
  by (cases ord; simp)+

lemma u32_cong: "bslice d i (i + 4) = bslice d' j (j + 4) \<Longrightarrow> u32 ord d i = u32 ord d' j"
  by (cases ord) (simp_all add: u32le_def u32be_def)

lemma be_sint_bounds:
  "- (256 ^ length bs) \<le> 2 * be_sint bs" "2 * be_sint bs < 256 ^ length bs"
proof -
  have "(0::int) < 256 ^ length bs" by simp
  with be_int_bound [of bs] be_int_nonneg [of bs]
  show "- (256 ^ length bs) \<le> 2 * be_sint bs" "2 * be_sint bs < 256 ^ length bs"
    unfolding be_sint_def Let_def by (smt (verit))+
qed

section \<open>Fields written and read back\<close>

lemma bslice_2: "i + 2 \<le> length d \<Longrightarrow> bslice d i (i + 2) = [d ! i, d ! (i + 1)]"
  by (simp add: bslice_def numeral_2_eq_2 take_Suc_conv_app_nth nth_drop Cons_nth_drop_Suc [symmetric])

lemma bslice_4: "i + 4 \<le> length d \<Longrightarrow> bslice d i (i + 4) = [d ! i, d ! (i + 1), d ! (i + 2), d ! (i + 3)]"
  by (simp add: bslice_def numeral_eq_Suc Cons_nth_drop_Suc [symmetric])

lemma word_of_bval [simp]: "word_of_int (bval b) = b"
  by (simp add: bval_def)

lemma word_of_step: "(word_of_int (n * 256 + bval b) :: byte) = b"
proof -
  have "(word_of_int (n * 256 + bval b) :: byte) = word_of_int (bval b)"
    unfolding word_of_int_eq_iff by (simp add: take_bit_eq_mod)
  then show ?thesis by simp
qed

lemma step_div: "(n * 256 + bval b) div 256 = n"
  by simp

lemma bval_word_of_int: "bval (word_of_int n) = n mod 256"
  by (simp add: bval_def uint_word_of_int)

lemma pack_u16be_length [simp]: "length (pack_u16be n) = 2"
  by (simp add: pack_u16be_def)

lemma pack_u32be_length [simp]: "length (pack_u32be n) = 4"
  by (simp add: pack_u32be_def)

lemma pack_u16be_be_int: "pack_u16be (be_int [a, b]) = [a, b]"
proof -
  have "be_int [a, b] = bval a * 256 + bval b" by (simp add: be_int_def)
  then show ?thesis unfolding pack_u16be_def by (simp only: step_div word_of_step word_of_bval)
qed

lemma div_256_chain: "n div 65536 = n div 256 div (256 :: int)"
  "n div 16777216 = n div 256 div 256 div (256 :: int)"
  by (simp_all add: zdiv_zmult2_eq [symmetric])

lemma pack_u32be_be_int: "pack_u32be (be_int [a, b, c, d]) = [a, b, c, d]"
proof -
  have "be_int [a, b, c, d] = ((bval a * 256 + bval b) * 256 + bval c) * 256 + bval d"
    by (simp add: be_int_def)
  then show ?thesis unfolding pack_u32be_def div_256_chain by (simp only: step_div word_of_step word_of_bval)
qed

lemma pack_u16be_read: "i + 2 \<le> length d \<Longrightarrow> pack_u16be (u16be d i) = bslice d i (i + 2)"
  unfolding u16be_def by (simp only: bslice_2 pack_u16be_be_int)

lemma pack_u32be_read: "i + 4 \<le> length d \<Longrightarrow> pack_u32be (u32be d i) = bslice d i (i + 4)"
  unfolding u32be_def by (simp only: bslice_4 pack_u32be_be_int)

lemma be_int_pack_u16be: "0 \<le> n \<Longrightarrow> n < 65536 \<Longrightarrow> be_int (pack_u16be n) = n"
  by (simp add: pack_u16be_def be_int_def bval_word_of_int)

lemma div_mod_join: "(n div 256) * 256 + n mod 256 = (n :: int)"
  by simp

lemma be_int_pack_u32be: "0 \<le> n \<Longrightarrow> n < 4294967296 \<Longrightarrow> be_int (pack_u32be n) = n"
proof -
  assume n: "0 \<le> n" "n < 4294967296"
  then have "n div 256 div 256 div 256 mod 256 = n div 256 div 256 div 256"
    by (intro mod_pos_pos_trivial) (auto simp: zdiv_zmult2_eq [symmetric])
  moreover have "be_int (pack_u32be n) = ((n div 256 div 256 div 256 mod 256 * 256
      + n div 256 div 256 mod 256) * 256 + n div 256 mod 256) * 256 + n mod 256"
    unfolding pack_u32be_def be_int_def div_256_chain by (simp only: foldl.simps bval_word_of_int) simp
  ultimately show ?thesis by (simp only: div_mod_join)
qed

lemma u16be_pack:
  "0 \<le> n \<Longrightarrow> n < 65536 \<Longrightarrow> i = length xs \<Longrightarrow> u16be (xs @ pack_u16be n @ ys) i = n"
  unfolding u16be_def by (simp add: bslice_def be_int_pack_u16be)

lemma u32be_pack:
  "0 \<le> n \<Longrightarrow> n < 4294967296 \<Longrightarrow> i = length xs \<Longrightarrow> u32be (xs @ pack_u32be n @ ys) i = n"
  unfolding u32be_def by (simp add: bslice_def be_int_pack_u32be)

lemma u16be_bslice: "a + i + 2 \<le> b \<Longrightarrow> u16be (bslice d a b) i = u16be d (a + i)"
  by (simp add: u16be_def bslice_def drop_take add.commute min_def)

lemma u32be_bslice: "a + i + 4 \<le> b \<Longrightarrow> u32be (bslice d a b) i = u32be d (a + i)"
  by (simp add: u32be_def bslice_def drop_take add.commute min_def)

lemma u16be_append_right: "u16be (xs @ ys) (length xs + i) = u16be ys i"
  by (simp add: u16be_def bslice_def)

lemma u32be_append_right: "u32be (xs @ ys) (length xs + i) = u32be ys i"
  by (simp add: u32be_def bslice_def)

lemma u16be_append_left: "i + 2 \<le> length xs \<Longrightarrow> u16be (xs @ ys) i = u16be xs i"
  by (simp add: u16be_def bslice_def)

lemma u32be_append_left: "i + 4 \<le> length xs \<Longrightarrow> u32be (xs @ ys) i = u32be xs i"
  by (simp add: u32be_def bslice_def)

lemma all_bytes:
  assumes "list_all P (map word_of_nat [0..<256])" shows "P (b :: byte)"
proof -
  have "unat b < 256" by (rule order_less_le_trans [OF unsigned_less]) simp
  then have "unat b \<in> set [0..<256]" by simp
  with assms have "P (word_of_nat (unat b))" unfolding list_all_iff set_map by (blast intro: imageI)
  then show ?thesis by simp
qed

section \<open>Hexadecimal and decimal text\<close>

text \<open>\<^verbatim>\<open>bytes.hex()\<close>, and \<^verbatim>\<open>str(int)\<close>.\<close>

definition hex_digit :: "nat \<Rightarrow> char" where
  "hex_digit n = (if n < 10 then char_of (48 + n) else char_of (87 + n))"

definition hex_byte :: "byte \<Rightarrow> string" where
  "hex_byte b = [hex_digit (unat b div 16), hex_digit (unat b mod 16)]"

definition hex_of :: "bytes \<Rightarrow> string" where
  "hex_of bs = concat (map hex_byte bs)"

fun nat_digits :: "nat \<Rightarrow> string" where
  "nat_digits n = (if n < 10 then [char_of (48 + n)] else nat_digits (n div 10) @ [char_of (48 + n mod 10)])"

declare nat_digits.simps [simp del]

definition int_text :: "int \<Rightarrow> string" where
  "int_text i = (if i < 0 then CHR ''-'' # nat_digits (nat (- i)) else nat_digits (nat i))"

lemma of_char_hex_digit: "n < 16 \<Longrightarrow> of_char (hex_digit n) = (if n < 10 then 48 + n else 87 + n)"
  by (simp add: hex_digit_def of_char_of)

lemma hex_digit_inject: "m < 16 \<Longrightarrow> n < 16 \<Longrightarrow> hex_digit m = hex_digit n \<longleftrightarrow> m = n"
proof -
  assume m: "m < 16" and n: "n < 16"
  have "of_char (hex_digit m) = (of_char (hex_digit n) :: nat) \<Longrightarrow> m = n"
    using of_char_hex_digit [OF m] of_char_hex_digit [OF n] m n by (auto split: if_splits)
  then show ?thesis by auto
qed

lemma hex_byte_inject: "hex_byte a = hex_byte b \<longleftrightarrow> a = b"
proof
  have a: "unat a < 256" and b: "unat b < 256"
    by (rule order_less_le_trans [OF unsigned_less], simp)+
  assume "hex_byte a = hex_byte b"
  then have "unat a div 16 = unat b div 16" "unat a mod 16 = unat b mod 16"
    using a b by (simp_all add: hex_byte_def hex_digit_inject less_mult_imp_div_less)
  then have "unat a = unat b" by (metis div_mult_mod_eq)
  then show "a = b" by (simp add: word_unat_eq_iff)
qed simp

lemma length_hex_byte [simp]: "length (hex_byte b) = 2"
  by (simp add: hex_byte_def)

lemma hex_of_simps [simp]:
  "hex_of [] = []" "hex_of (b # bs) = hex_byte b @ hex_of bs"
  by (simp_all add: hex_of_def)

lemma length_hex_of [simp]: "length (hex_of bs) = 2 * length bs"
  by (induction bs) simp_all

text \<open>The digits used.\<close>

lemma hex_digit_set: "n < 16 \<Longrightarrow> hex_digit n \<in> set ''0123456789abcdef''"
proof -
  have "list_all (\<lambda>n. hex_digit n \<in> set ''0123456789abcdef'') [0..<16]" by code_simp
  moreover assume "n < 16"
  ultimately show ?thesis by (simp only: list_all_iff set_upt) simp
qed

lemma hex_of_chars: "set (hex_of bs) \<subseteq> set ''0123456789abcdef''"
proof -
  have "unat b < 256" for b :: byte by (rule order_less_le_trans [OF unsigned_less]) simp
  then have "set (hex_byte b) \<subseteq> set ''0123456789abcdef''" for b
    unfolding hex_byte_def using hex_digit_set [of "unat b div 16"] hex_digit_set [of "unat b mod 16"]
    by (simp add: less_mult_imp_div_less)
  then show ?thesis by (induction bs) (simp_all only: hex_of_simps set_append Un_subset_iff
      list.set(1) empty_subsetI simp_thms)
qed

text \<open>The hexadecimal text of a byte string determines the byte string.\<close>

lemma hex_of_inject: "hex_of xs = hex_of ys \<longleftrightarrow> xs = ys"
proof
  assume eq: "hex_of xs = hex_of ys"
  then have "2 * length xs = 2 * length ys" by (metis length_hex_of)
  then have "length xs = length ys" by simp
  then show "xs = ys" using eq
    by (induction xs ys rule: list_induct2) (auto simp: hex_byte_inject)
qed simp

section \<open>Generators and for loops\<close>

text \<open>
  A Python generator is the list of what it yields together with the exception that ends it,
  if one does: a consumer sees every item yielded before the exception. \<open>run_gen\<close> is the
  \<^verbatim>\<open>for\<close> loop over a generator whose body is a step on the loop's state.
\<close>

type_synonym 'a gen = "'a list \<times> py_error option"

definition yield_then :: "'a \<Rightarrow> 'a gen \<Rightarrow> 'a gen" where
  "yield_then x g = (x # fst g, snd g)"

text \<open>A function that collects a list and raises on the way: the exception discards the list.\<close>

definition gen_list :: "'a gen \<Rightarrow> 'a list result" where
  "gen_list g = (case snd g of None \<Rightarrow> Inr (fst g) | Some e \<Rightarrow> Inl e)"

lemma gen_list_Inr [result_simps]: "gen_list g = Inr xs \<longleftrightarrow> g = (xs, None)"
  by (cases g) (auto simp: gen_list_def split: option.splits)

abbreviation gen_fail :: "string \<Rightarrow> 'a gen" where
  "gen_fail msg \<equiv> ([], Some (ValueError msg))"

lemma yield_then_simps [simp]:
  "fst (yield_then x g) = x # fst g" "snd (yield_then x g) = snd g"
  "yield_then x (xs, e) = (x # xs, e)"
  by (simp_all add: yield_then_def)

fun run_items :: "('s \<Rightarrow> 'a \<Rightarrow> 's result) \<Rightarrow> 's \<Rightarrow> 'a list \<Rightarrow> 's result" where
  "run_items f s [] = Inr s"
| "run_items f s (x # xs) = rbind (f s x) (\<lambda>s'. run_items f s' xs)"

definition run_gen :: "('s \<Rightarrow> 'a \<Rightarrow> 's result) \<Rightarrow> 's \<Rightarrow> 'a gen \<Rightarrow> 's result" where
  "run_gen f s g = rbind (run_items f s (fst g))
     (\<lambda>s'. case snd g of None \<Rightarrow> Inr s' | Some e \<Rightarrow> Inl e)"

lemma run_items_cong [fundef_cong]:
  "s = s' \<Longrightarrow> xs = xs' \<Longrightarrow> (\<And>x t. x \<in> set xs' \<Longrightarrow> f t x = g t x) \<Longrightarrow>
    run_items f s xs = run_items g s' xs'"
proof (induction xs arbitrary: s s' xs')
  case Nil
  then show ?case by auto
next
  case (Cons x xs)
  then have step: "f s' x = g s' x" and eq: "xs' = x # xs" "s = s'"
    and rest: "\<And>y t. y \<in> set xs \<Longrightarrow> f t y = g t y" by auto
  have "run_items f t xs = run_items g t xs" for t
    using rest Cons.IH [of t t xs] by blast
  then show ?case by (simp add: step eq)
qed

lemma run_items_append:
  "run_items f s (xs @ ys) = rbind (run_items f s xs) (\<lambda>t. run_items f t ys)"
  by (induction xs arbitrary: s) (auto simp: rbind_def split: sum.splits)

lemma run_items_invariant:
  assumes "run_items f s xs = Inr t" and "I s"
    and "\<And>s x s'. x \<in> set xs \<Longrightarrow> I s \<Longrightarrow> f s x = Inr s' \<Longrightarrow> I s'"
  shows "I t"
  using assms
proof (induction xs arbitrary: s)
  case (Cons x xs)
  from Cons.prems(1) obtain u where u: "f s x = Inr u" "run_items f u xs = Inr t"
    by (auto simp: result_simps)
  have "I u" using Cons.prems(2,3) u(1) by auto
  then show ?case using Cons.IH [OF u(2)] Cons.prems(3) by auto
qed simp

text \<open>The invariant may relate the state to the items consumed so far.\<close>

lemma run_items_trace:
  assumes "run_items f s xs = Inr t" and "I done s"
    and "\<And>s ys x s'. x \<in> set xs \<Longrightarrow> I ys s \<Longrightarrow> f s x = Inr s' \<Longrightarrow> I (ys @ [x]) s'"
  shows "I (done @ xs) t"
  using assms
proof (induction xs arbitrary: s "done")
  case (Cons x xs)
  from Cons.prems(1) obtain u where u: "f s x = Inr u" "run_items f u xs = Inr t"
    by (auto simp: result_simps)
  have "I (done @ [x]) u" using Cons.prems(2,3) u(1) by auto
  then have "I ((done @ [x]) @ xs) t"
    using Cons.prems(3) by (intro Cons.IH [OF u(2)]) auto
  then show ?case by simp
qed simp

lemma run_items_prefix:
  assumes "run_items f s xs = Inr t" and "I [] s"
    and "\<And>s ys x zs s'. xs = ys @ x # zs \<Longrightarrow> I ys s \<Longrightarrow> f s x = Inr s' \<Longrightarrow> I (ys @ [x]) s'"
  shows "I xs t"
proof -
  have "I (ys @ zs) t" if "xs = ys @ zs" "I ys u" "run_items f u zs = Inr t" for ys zs u
    using that
  proof (induction zs arbitrary: ys u)
    case (Cons z zs)
    then obtain v where v: "f u z = Inr v" "run_items f v zs = Inr t" by (auto simp: result_simps)
    with Cons.prems assms(3) have "I (ys @ [z]) v" by blast
    with Cons.IH [of "ys @ [z]" v] Cons.prems v show ?case by simp
  qed simp
  from this [of "[]" xs s] assms show ?thesis by simp
qed

lemma run_gen_Inr_iff [result_simps]:
  "run_gen f s g = Inr t \<longleftrightarrow> snd g = None \<and> run_items f s (fst g) = Inr t"
  by (cases "snd g") (auto simp: run_gen_def result_simps)

lemma run_gen_InrE:
  assumes "run_gen f s g = Inr t" obtains xs where "g = (xs, None)" and "run_items f s xs = Inr t"
  using assms by (cases g) (auto simp: run_gen_Inr_iff)

end
