(* ===== verification/Framing.thy ===== *)
theory Framing
  imports Py_Base
begin

text \<open>
  The interface that the frame readers share. A reader walks a saved byte string from an
  offset: while bytes are left it reads one frame there or raises, and goes on at the first
  byte past that frame. The contract says that a frame begins where the walk stands, is not
  empty and stays inside the string; what the clients get is that the frames tile the bytes:
  nothing is skipped between two frames, nothing is read twice, and the walk ends.
\<close>

locale contiguous_frames =
  fixes step :: "bytes \<Rightarrow> nat \<Rightarrow> 's \<Rightarrow> 'f result"
    and next_state :: "'s \<Rightarrow> 'f \<Rightarrow> 's"
    and start :: "'f \<Rightarrow> nat"
    and stop :: "'f \<Rightarrow> nat"
    and walk :: "bytes \<Rightarrow> nat \<Rightarrow> 's \<Rightarrow> 'f gen"
  assumes step_extent:
      "off < length raw \<Longrightarrow> step raw off s = Inr f \<Longrightarrow>
        start f = off \<and> off < stop f \<and> stop f \<le> length raw"
    and walk_step:
      "off < length raw \<Longrightarrow> step raw off s = Inr f \<Longrightarrow>
        walk raw off s = yield_then f (walk raw (stop f) (next_state s f))"
    and walk_error:
      "off < length raw \<Longrightarrow> step raw off s = Inl e \<Longrightarrow> walk raw off s = ([], Some e)"
    and walk_end: "\<not> off < length raw \<Longrightarrow> walk raw off s = ([], None)"
begin

lemma walk_induct [case_names End Error Step]:
  assumes "\<And>off s. \<not> off < length raw \<Longrightarrow> P off s"
    and "\<And>off s e. off < length raw \<Longrightarrow> step raw off s = Inl e \<Longrightarrow> P off s"
    and "\<And>off s f. off < length raw \<Longrightarrow> step raw off s = Inr f \<Longrightarrow>
          start f = off \<Longrightarrow> off < stop f \<Longrightarrow> stop f \<le> length raw \<Longrightarrow>
          P (stop f) (next_state s f) \<Longrightarrow> P off s"
  shows "P off s"
proof (induction "length raw - off" arbitrary: off s rule: less_induct)
  case (less off s)
  show ?case
  proof (cases "off < length raw")
    case True
    show ?thesis
    proof (cases "step raw off s")
      case (Inl e)
      with True assms(2) show ?thesis by blast
    next
      case (Inr f)
      from step_extent [OF True Inr]
      have ext: "start f = off" "off < stop f" "stop f \<le> length raw" by auto
      then have "P (stop f) (next_state s f)" using less True by simp
      with assms(3) [OF True Inr ext] show ?thesis .
    qed
  qed (simp add: assms(1))
qed

text \<open>The frames read before the walk ended cover one interval, in order and without a gap.\<close>

lemma walk_prefix:
  "off \<le> length raw \<Longrightarrow>
    \<exists>p. off \<le> p \<and> p \<le> length raw \<and>
      concat (map (\<lambda>f. bslice raw (start f) (stop f)) (fst (walk raw off s))) = bslice raw off p \<and>
      (snd (walk raw off s) = None \<longrightarrow> p = length raw)"
proof (induction off s rule: walk_induct [where raw = raw])
  case (End off s)
  then show ?case by (auto simp: walk_end)
next
  case (Error off s e)
  then show ?case by (auto simp: walk_error intro!: exI [of _ off])
next
  case (Step off s f)
  then obtain p where "stop f \<le> p" "p \<le> length raw"
    and "concat (map (\<lambda>g. bslice raw (start g) (stop g)) (fst (walk raw (stop f) (next_state s f))))
      = bslice raw (stop f) p"
    and "snd (walk raw (stop f) (next_state s f)) = None \<longrightarrow> p = length raw"
    by auto
  with Step show ?case
    by (intro exI [of _ p]) (auto simp: walk_step bslice_append_bslice)
qed

lemma walk_tiles:
  assumes "snd (walk raw off s) = None" and "off \<le> length raw"
  shows "concat (map (\<lambda>f. bslice raw (start f) (stop f)) (fst (walk raw off s))) = drop off raw"
  using walk_prefix [OF assms(2), of s] assms(1) by (auto simp: bslice_def)

lemma walk_extents:
  "f \<in> set (fst (walk raw off s)) \<Longrightarrow> off \<le> start f \<and> start f < stop f \<and> stop f \<le> length raw"
proof (induction off s rule: walk_induct [where raw = raw])
  case (Step off s g)
  then show ?case by (auto simp: walk_step)
qed (auto simp: walk_end walk_error)

lemma walk_ordered: "sorted_wrt (\<lambda>f g. stop f \<le> start g) (fst (walk raw off s))"
proof (induction off s rule: walk_induct [where raw = raw])
  case (Step off s g)
  then show ?case by (auto simp: walk_step dest!: walk_extents)
qed (auto simp: walk_end walk_error)

lemma walk_count: "length (fst (walk raw off s)) \<le> length raw - off"
proof (induction off s rule: walk_induct [where raw = raw])
  case (Step off s g)
  then show ?case by (simp add: walk_step)
qed (auto simp: walk_end walk_error)

lemma walk_sizes:
  assumes "snd (walk raw off s) = None" and "off \<le> length raw"
  shows "sum_list (map (\<lambda>f. stop f - start f) (fst (walk raw off s))) = length raw - off"
  using assms
proof (induction off s rule: walk_induct [where raw = raw])
  case (Step off s g)
  then show ?case by (simp add: walk_step)
qed (auto simp: walk_end walk_error)

text \<open>Every frame yielded was read by the step at its own offset.\<close>

lemma walk_read:
  "f \<in> set (fst (walk raw off s)) \<Longrightarrow> \<exists>s'. step raw (start f) s' = Inr f"
proof (induction off s rule: walk_induct [where raw = raw])
  case (Step off s g)
  then show ?case by (auto simp: walk_step)
qed (auto simp: walk_end walk_error)

end

end
