(* ===== verification/Pcap.thy ===== *)
theory Pcap
  imports Framing Py_Sha256
begin

text \<open>
  The classic PCAP container of \<^verbatim>\<open>scripts/convert_imc_sensors.py\<close>: the global header, the
  record headers, \<^verbatim>\<open>read_pcap_records\<close> over bytes and \<^verbatim>\<open>read_pcap_window\<close>, which
  streams a file and extracts the records of an interval. A saved file is modelled by the size
  its \<^verbatim>\<open>stat\<close> reported and the bytes its stream delivers; they may differ, as the code
  allows for.
\<close>

section \<open>Headers\<close>

definition LIMIT :: nat where "LIMIT = 16 * 1024 * 1024"

definition pcap_magic :: "(bytes \<times> byte_order \<times> int) list" where
  "pcap_magic =
    [([0xd4, 0xc3, 0xb2, 0xa1], LittleEndian, 1), ([0xa1, 0xb2, 0xc3, 0xd4], BigEndian, 1),
     ([0x4d, 0x3c, 0xb2, 0xa1], LittleEndian, 1000), ([0xa1, 0xb2, 0x3c, 0x4d], BigEndian, 1000)]"

record pcap_format =
  pf_order :: byte_order
  pf_divisor :: int
  pf_snaplen :: int
  pf_linktype :: int

definition pcap_header :: "bytes \<Rightarrow> pcap_format result" where
  "pcap_header header =
     (if length header \<noteq> 24 then fail ''bounded classic PCAP required''
      else case map_of pcap_magic (bslice header 0 4) of
        None \<Rightarrow> fail ''bounded classic PCAP required''
      | Some (order, divisor) \<Rightarrow>
          let major = u16 order header 4; minor = u16 order header 6;
              snaplen = u32 order header 16; linktype = u32 order header 20
          in if (major, minor) \<noteq> (2, 4) \<or> linktype \<notin> {1, 105}
                \<or> \<not> (0 < snaplen \<and> snaplen \<le> int LIMIT)
             then fail ''PCAP2.4 Ethernet or plain IEEE802.11 layout required''
             else Inr \<lparr>pf_order = order, pf_divisor = divisor, pf_snaplen = snaplen,
                       pf_linktype = linktype\<rparr>)"

definition pcap_record_header :: "bytes \<Rightarrow> pcap_format \<Rightarrow> int \<Rightarrow> (int \<times> nat) result" where
  "pcap_record_header header fmt available =
     (if length header \<noteq> 16 then fail ''truncated PCAP record header''
      else let order = pf_order fmt; sec = u32 order header 0; frac = u32 order header 4;
               captured = u32 order header 8; original = u32 order header 12
           in if frac \<ge> 1000000 * pf_divisor fmt \<or> captured > pf_snaplen fmt
                 \<or> captured \<noteq> original \<or> captured > available
              then fail ''truncated capture or invalid packet timestamp/length''
              else Inr (sec * 1000000000 + frac * (1000 div pf_divisor fmt), nat captured))"

section \<open>The records of a capture held in memory\<close>

record pcap_entry =
  entry_start :: nat
  entry_stop :: nat
  entry_ns :: int

definition pcap_step :: "pcap_format \<Rightarrow> bytes \<Rightarrow> nat \<Rightarrow> unit \<Rightarrow> pcap_entry result" where
  "pcap_step fmt data offset _ =
     rbind (pcap_record_header (bslice data offset (offset + 16)) fmt
              (int (length data) - int offset - 16))
       (\<lambda>(capture_ns, captured). Inr \<lparr>entry_start = offset,
          entry_stop = offset + (16 + captured), entry_ns = capture_ns\<rparr>)"

lemma pcap_record_header_Inr:
  assumes "pcap_record_header h fmt av = Inr (ns, n)"
  shows "length h = 16" "int n \<le> av" "int n \<le> pf_snaplen fmt" "int n = u32 (pf_order fmt) h 8"
  using assms by (auto simp: pcap_record_header_def Let_def split: if_splits)

lemma pcap_step_extent:
  assumes "pcap_step fmt data offset s = Inr e"
  shows "entry_start e = offset \<and> offset < entry_stop e \<and> entry_stop e \<le> length data"
proof -
  from assms obtain ns n where h: "pcap_record_header (bslice data offset (offset + 16)) fmt
      (int (length data) - int offset - 16) = Inr (ns, n)"
    and e: "e = \<lparr>entry_start = offset, entry_stop = offset + (16 + n), entry_ns = ns\<rparr>"
    by (auto simp: pcap_step_def result_simps)
  from pcap_record_header_Inr(2) [OF h] e show ?thesis by simp
qed

function pcap_walk :: "pcap_format \<Rightarrow> bytes \<Rightarrow> nat \<Rightarrow> pcap_entry gen" where
  "pcap_walk fmt data offset =
     (if offset < length data
      then case pcap_step fmt data offset () of
          Inl e \<Rightarrow> ([], Some e)
        | Inr entry \<Rightarrow> yield_then entry (pcap_walk fmt data (entry_stop entry))
      else ([], None))"
  by pat_completeness auto
termination
  by (relation "measure (\<lambda>(fmt, data, offset). length data - offset)")
     (auto dest!: pcap_step_extent)

declare pcap_walk.simps [simp del]

interpretation pcap_frames: contiguous_frames "pcap_step fmt" "\<lambda>s f. ()" entry_start entry_stop
    "\<lambda>data off s. pcap_walk fmt data off" for fmt
proof
  show "pcap_walk fmt raw off = yield_then f (pcap_walk fmt raw (entry_stop f))"
    if "off < length raw" "pcap_step fmt raw off s = Inr f" for raw off f s
    using that by (subst pcap_walk.simps) simp
qed (auto dest: pcap_step_extent simp: pcap_walk.simps)

definition read_pcap_records :: "bytes \<Rightarrow> (int \<times> int list) result" where
  "read_pcap_records data =
     (if \<not> (24 \<le> length data \<and> length data \<le> LIMIT)
      then fail ''bounded classic PCAP required''
      else rbind (pcap_header (bslice data 0 24)) (\<lambda>fmt.
           rbind (gen_list (pcap_walk fmt data 24)) (\<lambda>entries.
             Inr (pf_linktype fmt, map (\<lambda>e. entry_ns e div 1000) entries))))"

section \<open>The interval extractor\<close>

definition PCAP_WINDOW_INPUT_LIMIT :: nat where "PCAP_WINDOW_INPUT_LIMIT = 2 * 1024 ^ 3"
definition PCAP_WINDOW_SELECTED_LIMIT :: nat where "PCAP_WINDOW_SELECTED_LIMIT = LIMIT"
definition PCAP_WINDOW_RECORD_LIMIT :: nat where "PCAP_WINDOW_RECORD_LIMIT = 1000000"

record window_state =
  w_previous :: "int option"
  w_count :: nat
  w_selected :: bytes
  w_indexes :: "nat list"
  w_hashed :: bytes

text \<open>The body of a record is read in blocks of 64 KiB; an empty read is the end of the stream.\<close>

function read_blocks :: "bytes \<Rightarrow> nat \<Rightarrow> nat \<Rightarrow> bytes result" where
  "read_blocks content pos remaining =
     (if remaining = 0 then Inr []
      else let block = bslice content pos (pos + min remaining (64 * 1024))
           in if block = [] then fail ''truncated PCAP packet''
              else rbind (read_blocks content (pos + length block) (remaining - length block))
                     (\<lambda>rest. Inr (block @ rest)))"
  by pat_completeness auto
termination
  by (relation "measure (\<lambda>(content, pos, remaining). remaining)") auto

declare read_blocks.simps [simp del]

definition window_record ::
  "pcap_format \<Rightarrow> int \<Rightarrow> int \<Rightarrow> nat \<Rightarrow> bytes \<Rightarrow> nat \<Rightarrow> window_state \<Rightarrow> (window_state \<times> nat) result" where
  "window_record fmt start_us stop_us fsize content offset st =
     (let record_header = bslice content offset (offset + min 16 (fsize - offset)) in
      rbind (pcap_record_header record_header fmt (int fsize - int offset - 16)) (\<lambda>(capture_ns, captured).
        if (case w_previous st of None \<Rightarrow> False | Some previous \<Rightarrow> capture_ns < previous)
        then fail ''decreasing packet clock''
        else if w_count st \<ge> PCAP_WINDOW_RECORD_LIMIT
        then fail ''PCAP window record count exceeds bound''
        else let chosen = (start_us * 1000 \<le> capture_ns \<and> capture_ns < stop_us * 1000) in
          if chosen \<and> capture_ns mod 1000 \<noteq> 0
          then fail ''selected PCAP timestamp is not exact microseconds''
          else if chosen \<and> length (w_selected st) + 16 + captured > PCAP_WINDOW_SELECTED_LIMIT
          then fail ''PCAP selected capture exceeds bound''
          else rbind (read_blocks content (offset + 16) captured) (\<lambda>body.
            Inr (\<lparr>w_previous = Some capture_ns, w_count = w_count st + 1,
                  w_selected = (if chosen then w_selected st @ record_header @ body
                                else w_selected st),
                  w_indexes = (if chosen then w_indexes st @ [w_count st] else w_indexes st),
                  w_hashed = w_hashed st @ record_header @ body\<rparr>,
                 offset + (16 + captured)))))"

lemma window_record_progress: "window_record fmt a b fsize content offset st = Inr (st', off') \<Longrightarrow> offset < off'"
  by (auto simp: window_record_def Let_def result_simps split: if_splits)

function window_walk ::
  "pcap_format \<Rightarrow> int \<Rightarrow> int \<Rightarrow> nat \<Rightarrow> bytes \<Rightarrow> nat \<Rightarrow> window_state \<Rightarrow> (window_state \<times> nat) result" where
  "window_walk fmt start_us stop_us fsize content offset st =
     (if offset < fsize
      then case window_record fmt start_us stop_us fsize content offset st of
          Inl e \<Rightarrow> Inl e
        | Inr (st', offset') \<Rightarrow> window_walk fmt start_us stop_us fsize content offset' st'
      else Inr (st, offset))"
  by pat_completeness auto
termination
  by (relation "measure (\<lambda>(fmt, a, b, fsize, content, offset, st). fsize - offset)")
     (auto dest!: window_record_progress)

declare window_walk.simps [simp del]

record window_report =
  wr_start_us :: int
  wr_stop_us_exclusive :: int
  wr_source_packets :: nat
  wr_selected_packets :: nat
  wr_outside_window_packets :: nat
  wr_selected_capture_bytes :: nat
  wr_source_sha256 :: string

definition read_pcap_window ::
  "nat \<Rightarrow> bytes \<Rightarrow> int \<Rightarrow> int \<Rightarrow> (bytes \<times> nat list \<times> window_report) result" where
  "read_pcap_window fsize content start_us stop_us =
     (if \<not> (0 \<le> start_us \<and> start_us < stop_us \<and> stop_us \<le> 2 ^ 63 - 1)
      then fail ''explicit nonempty microsecond interval required''
      else if \<not> (24 \<le> fsize \<and> fsize \<le> PCAP_WINDOW_INPUT_LIMIT)
      then fail ''PCAP window input exceeds bound''
      else let header = bslice content 0 24 in
        rbind (pcap_header header) (\<lambda>fmt.
        rbind (window_walk fmt start_us stop_us fsize content 24
                 \<lparr>w_previous = None, w_count = 0, w_selected = header, w_indexes = [],
                  w_hashed = header\<rparr>) (\<lambda>(st, offset).
          if bslice content offset (offset + 1) \<noteq> []
          then fail ''PCAP source changed during interval read''
          else Inr (w_selected st, w_indexes st,
            \<lparr>wr_start_us = start_us, wr_stop_us_exclusive = stop_us,
             wr_source_packets = w_count st, wr_selected_packets = length (w_indexes st),
             wr_outside_window_packets = w_count st - length (w_indexes st),
             wr_selected_capture_bytes = length (w_selected st),
             wr_source_sha256 = sha256_ref (w_hashed st)\<rparr>))))"

section \<open>What the reader and the extractor promise\<close>

text \<open>
  The abstract content of a capture: its records in order. A record is in the interval by its
  capture clock alone, and its extent is its header and its packet.
\<close>

definition in_window :: "int \<Rightarrow> int \<Rightarrow> pcap_entry \<Rightarrow> bool" where
  "in_window a b e \<longleftrightarrow> a * 1000 \<le> entry_ns e \<and> entry_ns e < b * 1000"

definition extent :: "bytes \<Rightarrow> pcap_entry \<Rightarrow> bytes" where
  "extent data e = bslice data (entry_start e) (entry_stop e)"

definition window_indexes :: "int \<Rightarrow> int \<Rightarrow> nat \<Rightarrow> pcap_entry list \<Rightarrow> nat list" where
  "window_indexes a b n es = map fst (filter (\<lambda>ie. in_window a b (snd ie)) (enumerate n es))"

lemma window_indexes_simps [simp]:
  "window_indexes a b n [] = []"
  "window_indexes a b n (e # es) =
     (if in_window a b e then n # window_indexes a b (Suc n) es else window_indexes a b (Suc n) es)"
  by (simp_all add: window_indexes_def)

lemma length_window_indexes [simp]:
  "length (window_indexes a b n es) = length (filter (in_window a b) es)"
  by (induction es arbitrary: n) auto

lemma window_indexes_nth:
  "i \<in> set (window_indexes a b n es) \<Longrightarrow> n \<le> i \<and> i < n + length es"
proof (induction es arbitrary: n)
  case (Cons e es)
  then have "i = n \<or> i \<in> set (window_indexes a b (Suc n) es)" by (auto split: if_splits)
  then show ?case using Cons.IH [of "Suc n"] by auto
qed simp

lemma window_indexes_select:
  "map (\<lambda>i. f (es ! (i - n))) (window_indexes a b n es) = map f (filter (in_window a b) es)"
proof (induction es arbitrary: n)
  case (Cons e es)
  have "map (\<lambda>i. f ((e # es) ! (i - n))) (window_indexes a b (Suc n) es)
      = map (\<lambda>i. f (es ! (i - Suc n))) (window_indexes a b (Suc n) es)"
    by (rule map_cong) (auto dest!: window_indexes_nth simp: nth_Cons' Suc_diff_le)
  with Cons show ?case by simp
qed simp

lemma sorted_window_indexes: "sorted_wrt (<) (window_indexes a b n es)"
  by (induction es arbitrary: n) (auto dest: window_indexes_nth)

lemma read_blocks_Inr:
  "read_blocks content pos n = Inr b \<Longrightarrow> b = bslice content pos (pos + n) \<and> length b = n"
proof (induction content pos n arbitrary: b rule: read_blocks.induct)
  case (1 content pos n)
  define block where "block = bslice content pos (pos + min n (64 * 1024))"
  show ?case
  proof (cases "n = 0")
    case False
    with "1.prems" obtain rest where ne: "block \<noteq> []"
      and rest: "read_blocks content (pos + length block) (n - length block) = Inr rest"
      and b: "b = block @ rest"
      by (subst (asm) read_blocks.simps) (auto simp: Let_def block_def result_simps split: if_splits)
    have le: "length block \<le> n" by (simp add: block_def length_bslice)
    have block: "block = bslice content pos (pos + length block)"
      unfolding block_def by (rule bslice_cut [symmetric])
    have eq: "pos + length block + (n - length block) = pos + n" using le by simp
    note both = "1.IH" [OF False block_def ne rest, unfolded eq]
    note rest = conjunct1 [OF both] and len = conjunct2 [OF both]
    have "block @ rest = bslice content pos (pos + n)"
      using bslice_append_bslice [of pos "pos + length block" "pos + n" content] block rest le by simp
    then have "b = bslice content pos (pos + n)" using b by simp
    moreover have "length b = n" using b len le by simp
    ultimately show ?thesis by blast
  qed (use "1.prems" in \<open>simp add: read_blocks.simps\<close>)
qed

text \<open>The block loop delivers the packet, whatever the block size, when the stream holds it.\<close>

lemma read_blocks_complete:
  "pos + n \<le> length content \<Longrightarrow> read_blocks content pos n = Inr (bslice content pos (pos + n))"
proof (induction content pos n rule: read_blocks.induct)
  case (1 content pos n)
  define block where "block = bslice content pos (pos + min n (64 * 1024))"
  show ?case
  proof (cases "n = 0")
    case False
    have len: "length block = min n (64 * 1024)"
      using "1.prems" by (simp add: block_def)
    then have ne: "block \<noteq> []" using False by auto
    have "read_blocks content (pos + length block) (n - length block)
        = Inr (bslice content (pos + length block) (pos + length block + (n - length block)))"
      using "1.prems" len by (intro "1.IH" [OF False block_def ne]) simp
    then show ?thesis
      using False ne len bslice_append_bslice [of pos "pos + length block" "pos + n" content]
      by (subst read_blocks.simps) (simp add: Let_def block_def [symmetric], simp add: block_def)
  qed (simp add: read_blocks.simps)
qed

lemma window_record_spec:
  assumes "window_record fmt a b (length c) c off st = Inr (st', off')" and "off < length c"
  obtains e where "pcap_step fmt c off () = Inr e" "off' = entry_stop e"
    "entry_start e = off" "off < entry_stop e" "entry_stop e \<le> length c"
    "w_previous st' = Some (entry_ns e)" "w_count st' = Suc (w_count st)"
    "w_selected st' = w_selected st @ (if in_window a b e then extent c e else [])"
    "w_indexes st' = w_indexes st @ (if in_window a b e then [w_count st] else [])"
    "w_hashed st' = w_hashed st @ extent c e"
    "in_window a b e \<Longrightarrow> entry_ns e mod 1000 = 0"
    "in_window a b e \<Longrightarrow> length (w_selected st') \<le> LIMIT"
    "\<forall>p. w_previous st = Some p \<longrightarrow> p \<le> entry_ns e"
proof -
  have rh: "bslice c off (off + min 16 (length c - off)) = bslice c off (off + 16)"
    by (simp add: bslice_def min_def)
  from assms(1) obtain ns n body where
    h: "pcap_record_header (bslice c off (off + 16)) fmt (int (length c) - int off - 16) = Inr (ns, n)"
    and body: "read_blocks c (off + 16) n = Inr body" and off': "off' = off + (16 + n)"
    and prev: "\<forall>p. w_previous st = Some p \<longrightarrow> p \<le> ns"
    and us: "a * 1000 \<le> ns \<and> ns < b * 1000 \<Longrightarrow> ns mod 1000 = 0"
    and lim: "a * 1000 \<le> ns \<and> ns < b * 1000 \<Longrightarrow> length (w_selected st) + 16 + n \<le> LIMIT"
    and st': "st' = \<lparr>w_previous = Some ns, w_count = w_count st + 1,
        w_selected = (if a * 1000 \<le> ns \<and> ns < b * 1000
                      then w_selected st @ bslice c off (off + 16) @ body else w_selected st),
        w_indexes = (if a * 1000 \<le> ns \<and> ns < b * 1000 then w_indexes st @ [w_count st]
                     else w_indexes st),
        w_hashed = w_hashed st @ bslice c off (off + 16) @ body\<rparr>"
    unfolding window_record_def rh Let_def PCAP_WINDOW_SELECTED_LIMIT_def
    by (auto simp: result_simps split: if_splits option.splits)
  let ?e = "\<lparr>entry_start = off, entry_stop = off + (16 + n), entry_ns = ns\<rparr>"
  have step: "pcap_step fmt c off () = Inr ?e" using h by (simp add: pcap_step_def)
  have ext: "extent c ?e = bslice c off (off + 16) @ body"
    using read_blocks_Inr [OF body] bslice_append_bslice [of off "off + 16" "off + (16 + n)" c]
    by (simp add: extent_def add.assoc)
  have len: "length (extent c ?e) = 16 + n"
    using pcap_step_extent [OF step] by (simp add: extent_def)
  show ?thesis
    by (rule that [of ?e])
      (use step off' st' prev us lim ext len pcap_step_extent [OF step] in
        \<open>auto simp: in_window_def\<close>)
qed

text \<open>
  Over a file that does not change while it is read, the extractor is a filter on the
  records: the selected bytes are the extents of the records in the interval, the indexes
  are their positions in the whole capture, and every byte is hashed.
\<close>

lemma window_walk_spec:
  assumes "window_walk fmt a b (length c) c off st = Inr (st', off')" and "off \<le> length c"
  shows "\<exists>es. pcap_walk fmt c off = (es, None) \<and> off' = length c \<and>
    w_count st' = w_count st + length es \<and>
    w_selected st' = w_selected st @ concat (map (extent c) (filter (in_window a b) es)) \<and>
    w_indexes st' = w_indexes st @ window_indexes a b (w_count st) es \<and>
    w_hashed st' = w_hashed st @ drop off c \<and>
    (\<forall>e \<in> set es. in_window a b e \<longrightarrow> entry_ns e mod 1000 = 0) \<and>
    (\<forall>e \<in> set es. \<forall>p. w_previous st = Some p \<longrightarrow> p \<le> entry_ns e) \<and>
    sorted (map entry_ns es) \<and>
    (length (w_selected st) \<le> LIMIT \<longrightarrow> length (w_selected st') \<le> LIMIT)"
  using assms
proof (induction "length c - off" arbitrary: off st rule: less_induct)
  case (less off st)
  show ?case
  proof (cases "off < length c")
    case True
    with less.prems(1) obtain st1 off1
      where step: "window_record fmt a b (length c) c off st = Inr (st1, off1)"
        and rest: "window_walk fmt a b (length c) c off1 st1 = Inr (st', off')"
      by (subst (asm) window_walk.simps) (auto split: sum.splits)
    from window_record_spec [OF step True] obtain e where
      e: "pcap_step fmt c off () = Inr e" "off1 = entry_stop e" "entry_start e = off"
        "off < entry_stop e" "entry_stop e \<le> length c" "w_previous st1 = Some (entry_ns e)"
        "w_count st1 = Suc (w_count st)"
        "w_selected st1 = w_selected st @ (if in_window a b e then extent c e else [])"
        "w_indexes st1 = w_indexes st @ (if in_window a b e then [w_count st] else [])"
        "w_hashed st1 = w_hashed st @ extent c e"
        "in_window a b e \<Longrightarrow> entry_ns e mod 1000 = 0"
        "in_window a b e \<Longrightarrow> length (w_selected st1) \<le> LIMIT"
        "\<forall>p. w_previous st = Some p \<longrightarrow> p \<le> entry_ns e" by metis
    from less.hyps [OF _ rest] e(2,4,5) True obtain es where
      es: "pcap_walk fmt c off1 = (es, None)" "off' = length c"
        "w_count st' = w_count st1 + length es"
        "w_selected st' = w_selected st1 @ concat (map (extent c) (filter (in_window a b) es))"
        "w_indexes st' = w_indexes st1 @ window_indexes a b (w_count st1) es"
        "w_hashed st' = w_hashed st1 @ drop off1 c"
        "\<forall>e \<in> set es. in_window a b e \<longrightarrow> entry_ns e mod 1000 = 0"
        "\<forall>x \<in> set es. \<forall>p. w_previous st1 = Some p \<longrightarrow> p \<le> entry_ns x"
        "sorted (map entry_ns es)"
        "length (w_selected st1) \<le> LIMIT \<longrightarrow> length (w_selected st') \<le> LIMIT"
      by (metis diff_less_mono2)
    have "pcap_walk fmt c off = (e # es, None)"
      using True e(1,2) es(1) by (subst pcap_walk.simps) simp
    moreover have "w_hashed st' = w_hashed st @ drop off c"
      using es(6) e(2,3,4,10) bslice_append_drop [of off "entry_stop e" c]
      by (simp add: extent_def)
    ultimately show ?thesis
      using e es by (intro exI [of _ "e # es"]) (auto intro: order_trans)
  next
    case False
    then have "st' = st" "off' = length c" "pcap_walk fmt c off = ([], None)"
      using less.prems by (auto simp: window_walk.simps pcap_walk.simps)
    then show ?thesis using False by (intro exI [of _ "[]"]) auto
  qed
qed

text \<open>
  Reading a string made of whole records gives those records again: the record at a position
  of the string depends on its own bytes only.
\<close>

lemma pcap_step_extent_only:
  assumes "pcap_step fmt c off () = Inr e"
  shows "pcap_step fmt (pre @ extent c e @ post) (length pre) () =
    Inr \<lparr>entry_start = length pre, entry_stop = length pre + length (extent c e), entry_ns = entry_ns e\<rparr>"
proof -
  from assms obtain ns n
    where h: "pcap_record_header (bslice c off (off + 16)) fmt (int (length c) - int off - 16) = Inr (ns, n)"
      and e: "e = \<lparr>entry_start = off, entry_stop = off + (16 + n), entry_ns = ns\<rparr>"
    by (auto simp: pcap_step_def result_simps)
  have len: "length (extent c e) = 16 + n"
    using pcap_step_extent [OF assms] e by (simp add: extent_def)
  have hd: "bslice (pre @ extent c e @ post) (length pre) (length pre + 16) = bslice c off (off + 16)"
  proof -
    have "bslice (pre @ extent c e @ post) (length pre) (length pre + 16) = bslice (extent c e) 0 16"
      using bslice_append_right [of pre "extent c e @ post" 0 16] len
      by (simp add: bslice_append_left)
    also have "\<dots> = bslice c off (off + 16)"
      using bslice_bslice [of 16 "off + (16 + n)" off c 0] e by (simp add: extent_def)
    finally show ?thesis .
  qed
  have "pcap_record_header (bslice c off (off + 16)) fmt
      (int (length (pre @ extent c e @ post)) - int (length pre) - 16) = Inr (ns, n)"
    using h len unfolding pcap_record_header_def by (auto simp: Let_def split: if_splits)
  moreover have "entry_ns e = ns" using e by simp
  ultimately show ?thesis unfolding pcap_step_def hd using len by simp
qed

lemma pcap_walk_extents:
  assumes "\<And>e. e \<in> set es \<Longrightarrow> pcap_step fmt c (entry_start e) () = Inr e"
  shows "\<exists>es'. pcap_walk fmt (pre @ concat (map (extent c) es)) (length pre) = (es', None) \<and>
    map entry_ns es' = map entry_ns es"
  using assms
proof (induction es arbitrary: pre)
  case Nil
  then show ?case by (simp add: pcap_walk.simps)
next
  case (Cons e es)
  have step: "pcap_step fmt c (entry_start e) () = Inr e" using Cons.prems by simp
  let ?rest = "concat (map (extent c) es)"
  obtain es' where es': "pcap_walk fmt ((pre @ extent c e) @ ?rest) (length (pre @ extent c e)) = (es', None)"
    "map entry_ns es' = map entry_ns es" using Cons.IH Cons.prems by (metis list.set_intros(2))
  have "0 < length (extent c e)" using pcap_step_extent [OF step] by (simp add: extent_def)
  then have "length pre < length (pre @ extent c e @ ?rest)" by simp
  then have "pcap_walk fmt (pre @ extent c e @ ?rest) (length pre) =
      yield_then \<lparr>entry_start = length pre, entry_stop = length pre + length (extent c e),
        entry_ns = entry_ns e\<rparr> (es', None)"
    using pcap_step_extent_only [OF step, of pre ?rest] es'(1) by (subst pcap_walk.simps) simp
  then show ?case using es'(2) by simp
qed

lemma read_pcap_window_Inr:
  assumes "read_pcap_window (length c) c a b = Inr (sel, idx, rep)"
  obtains fmt es where "pcap_header (bslice c 0 24) = Inr fmt" "24 \<le> length c"
    "pcap_walk fmt c 24 = (es, None)"
    "sel = bslice c 0 24 @ concat (map (extent c) (filter (in_window a b) es))"
    "idx = window_indexes a b 0 es" "wr_source_packets rep = length es"
    "wr_selected_packets rep = length idx"
    "wr_outside_window_packets rep = length es - length idx"
    "wr_source_sha256 rep = sha256_ref c" "length sel \<le> LIMIT"
    "\<forall>e \<in> set es. in_window a b e \<longrightarrow> entry_ns e mod 1000 = 0" "sorted (map entry_ns es)"
proof -
  from assms obtain fmt st off where hdr: "pcap_header (bslice c 0 24) = Inr fmt"
    and len: "24 \<le> length c"
    and walk: "window_walk fmt a b (length c) c 24 \<lparr>w_previous = None, w_count = 0,
        w_selected = bslice c 0 24, w_indexes = [], w_hashed = bslice c 0 24\<rparr> = Inr (st, off)"
    and res: "sel = w_selected st" "idx = w_indexes st" "wr_source_packets rep = w_count st"
      "wr_selected_packets rep = length (w_indexes st)"
      "wr_outside_window_packets rep = w_count st - length (w_indexes st)"
      "wr_source_sha256 rep = sha256_ref (w_hashed st)"
    by (auto simp: read_pcap_window_def Let_def result_simps split: if_splits)
  have h24: "length (bslice c 0 24) = 24" using len by simp
  have hash: "bslice c 0 24 @ drop 24 c = c" using bslice_append_drop [of 0 24 c] by simp
  from window_walk_spec [OF walk len] h24 hash res show ?thesis
    by (auto simp: LIMIT_def intro!: that [OF hdr len])
qed

text \<open>C1. The interval extractor selects exactly the records whose capture clock lies in the
  half-open interval: over a file that does not change while it is read, the selected bytes are
  the global header followed by the extents of those records in order, the indexes are their
  positions in the whole capture, the counts add up, and the digest is taken over the whole
  file.\<close>

theorem read_pcap_window_selects:
  assumes "read_pcap_window (length c) c a b = Inr (sel, idx, rep)"
  shows "\<exists>fmt es. pcap_header (bslice c 0 24) = Inr fmt \<and> pcap_walk fmt c 24 = (es, None) \<and>
    sel = bslice c 0 24 @ concat (map (extent c) (filter (in_window a b) es)) \<and>
    idx = window_indexes a b 0 es \<and> sorted_wrt (<) idx \<and>
    wr_selected_packets rep = length (filter (in_window a b) es) \<and>
    wr_selected_packets rep + wr_outside_window_packets rep = wr_source_packets rep \<and>
    wr_source_packets rep = length es \<and> wr_source_sha256 rep = sha256_ref c"
  by (rule read_pcap_window_Inr [OF assms])
    (auto simp: sorted_window_indexes intro!: exI)

lemma walk_entries_read:
  "pcap_walk fmt c off = (es, None) \<Longrightarrow> e \<in> set es \<Longrightarrow> pcap_step fmt c (entry_start e) () = Inr e"
  using pcap_frames.walk_read [of e fmt c off] by simp

lemma reread_selected:
  assumes "pcap_header (bslice c 0 24) = Inr fmt" and "24 \<le> length c"
    and "pcap_walk fmt c 24 = (es, None)"
    and "length (bslice c 0 24 @ concat (map (extent c) (filter P es))) \<le> LIMIT"
  shows "read_pcap_records (bslice c 0 24 @ concat (map (extent c) (filter P es)))
    = Inr (pf_linktype fmt, map (\<lambda>e. entry_ns e div 1000) (filter P es))"
proof -
  let ?h = "bslice c 0 24"
  let ?s = "?h @ concat (map (extent c) (filter P es))"
  have h: "length ?h = 24" using assms(2) by simp
  then have hd: "bslice ?s 0 24 = ?h" by (simp add: bslice_def)
  obtain es' where es': "pcap_walk fmt ?s 24 = (es', None)"
    "map entry_ns es' = map entry_ns (filter P es)"
    using pcap_walk_extents [of "filter P es" fmt c ?h] walk_entries_read [OF assms(3)] h by auto
  from es'(2) have "map (\<lambda>n. n div 1000) (map entry_ns es')
      = map (\<lambda>n. n div 1000) (map entry_ns (filter P es))" by simp
  then have "map (\<lambda>e. entry_ns e div 1000) es' = map (\<lambda>e. entry_ns e div 1000) (filter P es)"
    by (simp add: comp_def)
  then show ?thesis
    using assms(1,4) h hd es'(1) by (simp add: read_pcap_records_def gen_list_def)
qed

text \<open>C2. What the extractor derives is itself a capture that the byte reader accepts, with the
  same link type, in non-decreasing time, every record inside the interval and as many records
  as indexes; and when the original is small enough to be read whole, those are the records of
  the original at the selected indexes.\<close>

theorem read_pcap_window_rereads:
  assumes "read_pcap_window (length c) c a b = Inr (sel, idx, rep)"
  shows "\<exists>linktype ts. read_pcap_records sel = Inr (linktype, ts) \<and> length ts = length idx \<and>
    sorted ts \<and> list_all (\<lambda>t. a \<le> t \<and> t < b) ts \<and>
    (length c \<le> LIMIT \<longrightarrow> (\<exists>all. read_pcap_records c = Inr (linktype, all) \<and>
       ts = map (\<lambda>i. all ! i) idx))"
proof (rule read_pcap_window_Inr [OF assms])
  fix fmt es
  assume hdr: "pcap_header (bslice c 0 24) = Inr fmt" "24 \<le> length c"
    and es: "pcap_walk fmt c 24 = (es, None)"
    and sel: "sel = bslice c 0 24 @ concat (map (extent c) (filter (in_window a b) es))"
    and idx: "idx = window_indexes a b 0 es" and lim: "length sel \<le> LIMIT"
    and us: "\<forall>e \<in> set es. in_window a b e \<longrightarrow> entry_ns e mod 1000 = 0"
    and srt: "sorted (map entry_ns es)"
  let ?us = "\<lambda>e. entry_ns e div 1000"
  let ?ts = "map ?us (filter (in_window a b) es)"
  have read: "read_pcap_records sel = Inr (pf_linktype fmt, ?ts)"
    using reread_selected [OF hdr es] lim sel by blast
  have "sorted (map entry_ns (filter (in_window a b) es))"
    using srt by (simp add: sorted_filter)
  then have srt_ts: "sorted ?ts"
    by (simp add: sorted_map) (rule sorted_wrt_mono_rel, auto intro: zdiv_mono1)
  have "a \<le> ?us e \<and> ?us e < b" if "e \<in> set es" "in_window a b e" for e
    using that us by (auto simp: in_window_def)
  then have inside: "list_all (\<lambda>t. a \<le> t \<and> t < b) ?ts"
    by (auto simp: list_all_iff)
  have orig: "read_pcap_records c = Inr (pf_linktype fmt, map ?us es)" if "length c \<le> LIMIT"
    using that hdr es by (simp add: read_pcap_records_def gen_list_def)
  have "map (\<lambda>i. map ?us es ! i) idx = map (\<lambda>i. ?us (es ! (i - 0))) idx"
    using idx window_indexes_nth [of _ a b 0 es] by (intro map_cong) auto
  also have "\<dots> = ?ts" unfolding idx by (rule window_indexes_select)
  finally have at_idx: "map (\<lambda>i. map ?us es ! i) idx = ?ts" .
  show ?thesis
    using read srt_ts inside orig at_idx idx
    by (intro exI [of _ "pf_linktype fmt"] exI [of _ ?ts]) auto
qed

text \<open>The byte reader of a capture accounts for every byte: the global header and the
  records it returns, each a record header and the packet it declares, tile the input.\<close>

theorem read_pcap_records_tiles:
  assumes "read_pcap_records data = Inr (linktype, ts)"
  shows "\<exists>fmt es. pcap_header (bslice data 0 24) = Inr fmt \<and> linktype = pf_linktype fmt \<and>
    pcap_walk fmt data 24 = (es, None) \<and> ts = map (\<lambda>e. entry_ns e div 1000) es \<and>
    bslice data 0 24 @ concat (map (extent data) es) = data"
proof -
  from assms obtain fmt es where h: "pcap_header (bslice data 0 24) = Inr fmt"
    "pcap_walk fmt data 24 = (es, None)" "linktype = pf_linktype fmt"
    "ts = map (\<lambda>e. entry_ns e div 1000) es" and len: "24 \<le> length data"
    by (auto simp: read_pcap_records_def result_simps split: if_splits)
  have "concat (map (extent data) es) = drop 24 data"
    using pcap_frames.walk_tiles [of fmt data 24] h(2) len by (simp add: extent_def [abs_def])
  then have "bslice data 0 24 @ concat (map (extent data) es) = data"
    using bslice_append_drop [of 0 24 data] by simp
  with h show ?thesis by blast
qed

section \<open>A capture with two records\<close>

definition sample_capture :: bytes where
  "sample_capture =
    [0xd4, 0xc3, 0xb2, 0xa1, 2, 0, 4, 0, 0, 0, 0, 0, 0, 0, 0, 0, 64, 0, 0, 0, 1, 0, 0, 0,
     1, 0, 0, 0, 5, 0, 0, 0, 1, 0, 0, 0, 1, 0, 0, 0, 0xAA,
     2, 0, 0, 0, 7, 0, 0, 0, 2, 0, 0, 0, 2, 0, 0, 0, 0xBB, 0xCC]"

lemmas pcap_eval = read_pcap_window_def window_walk.simps window_record_def pcap_header_def
  pcap_magic_def read_blocks.simps pcap_record_header_def read_pcap_records_def pcap_walk.simps
  pcap_step_def gen_list_def u16le_def u32le_def bslice_def Let_def bval_def LIMIT_def
  PCAP_WINDOW_INPUT_LIMIT_def PCAP_WINDOW_SELECTED_LIMIT_def PCAP_WINDOW_RECORD_LIMIT_def

lemma sample_window:
  "\<exists>sel rep. read_pcap_window (length sample_capture) sample_capture 2000000 3000000 = Inr (sel, [1], rep)"
  unfolding sample_capture_def by (simp add: pcap_eval)

lemma sample_records: "read_pcap_records sample_capture = Inr (1, [1000005, 2000007])"
  unfolding sample_capture_def by (simp add: pcap_eval)

theorem read_pcap_window_selects_witness:
  "\<exists>sel rep fmt es. read_pcap_window (length sample_capture) sample_capture 2000000 3000000
      = Inr (sel, [1], rep) \<and> pcap_walk fmt sample_capture 24 = (es, None) \<and>
    [1] = window_indexes 2000000 3000000 0 es \<and> wr_source_packets rep = length es \<and>
    wr_selected_packets rep + wr_outside_window_packets rep = wr_source_packets rep"
proof -
  obtain sel rep where r: "read_pcap_window (length sample_capture) sample_capture 2000000 3000000
      = Inr (sel, [1], rep)" using sample_window by blast
  from r read_pcap_window_selects [OF r] show ?thesis by blast
qed

theorem read_pcap_window_rereads_witness:
  "\<exists>sel rep linktype ts. read_pcap_window (length sample_capture) sample_capture 2000000 3000000
      = Inr (sel, [1], rep) \<and> read_pcap_records sel = Inr (linktype, ts) \<and> length ts = 1 \<and>
    list_all (\<lambda>t. 2000000 \<le> t \<and> t < 3000000) ts"
proof -
  obtain sel rep where r: "read_pcap_window (length sample_capture) sample_capture 2000000 3000000
      = Inr (sel, [1], rep)" using sample_window by blast
  from r read_pcap_window_rereads [OF r] show ?thesis by auto
qed

theorem read_pcap_records_tiles_witness:
  "\<exists>fmt es. read_pcap_records sample_capture = Inr (1, [1000005, 2000007]) \<and>
    pcap_walk fmt sample_capture 24 = (es, None) \<and>
    bslice sample_capture 0 24 @ concat (map (extent sample_capture) es) = sample_capture"
  using read_pcap_records_tiles [OF sample_records] sample_records by blast

end
