(* ===== verification/Py_Float.thy ===== *)
theory Py_Float
  imports Py_Base
begin

text \<open>
  The text of a Python float that is the true division of two integers, as \<^verbatim>\<open>str\<close> and
  \<^verbatim>\<open>csv\<close> give it: the binary64 number nearest to the quotient (ties to even), then the
  shortest decimal that reads back as that number. Quotients that occur in the modelled code
  are zero or in the normal range.
\<close>

fun bit_len :: "nat \<Rightarrow> nat" where
  "bit_len n = (if n = 0 then 0 else Suc (bit_len (n div 2)))"

declare bit_len.simps [simp del]

definition round_half_even :: "nat \<Rightarrow> nat \<Rightarrow> nat" where
  "round_half_even n d =
     (let q = n div d; r = n mod d
      in if 2 * r < d then q else if d < 2 * r then q + 1 else if even q then q else q + 1)"

text \<open>A number \<open>n * 2 ^ e\<close> as a fraction of naturals.\<close>

definition scale2 :: "nat \<Rightarrow> nat \<Rightarrow> int \<Rightarrow> nat \<times> nat" where
  "scale2 n d e = (if e \<ge> 0 then (n * 2 ^ nat e, d) else (n, d * 2 ^ nat (- e)))"

definition scale10 :: "nat \<Rightarrow> nat \<Rightarrow> int \<Rightarrow> nat \<times> nat" where
  "scale10 n d e = (if e \<ge> 0 then (n * 10 ^ nat e, d) else (n, d * 10 ^ nat (- e)))"

definition to_double :: "nat \<Rightarrow> nat \<Rightarrow> nat \<times> int" where
  "to_double n d =
     (let s0 = 52 - (int (bit_len n) - int (bit_len d));
          (n0, d0) = scale2 n d s0;
          s = (if n0 < d0 * 2 ^ 52 then s0 + 1 else s0);
          (n1, d1) = scale2 n d s;
          q = round_half_even n1 d1
      in if q = 2 ^ 53 then (2 ^ 52, 1 - s) else (q, - s))"

definition decimal_point :: "nat \<Rightarrow> nat \<Rightarrow> int" where
  "decimal_point n d =
     (if d \<le> n then int (length (nat_digits (n div d)))
      else 1 - int (length (nat_digits ((d - 1) div n))))"

text \<open>
  The candidates with \<open>k\<close> digits on both sides of the number; the closer one that reads back.
\<close>

definition shortest_at :: "nat \<times> int \<Rightarrow> nat \<Rightarrow> nat \<Rightarrow> int \<Rightarrow> nat \<Rightarrow> nat option" where
  "shortest_at dbl n d p k =
     (let (n1, d1) = scale10 n d (int k - p); f = n1 div d1; r = n1 mod d1;
          back = (\<lambda>c. c \<noteq> 0 \<and> (let (cn, cd) = scale10 c 1 (p - int k) in to_double cn cd = dbl));
          lo = back f; hi = back (f + 1)
      in if lo \<and> hi then Some (if 2 * r \<le> d1 then f else f + 1)
         else if lo then Some f else if hi then Some (f + 1) else None)"

fun first_some :: "('a \<Rightarrow> 'b option) \<Rightarrow> 'a list \<Rightarrow> ('a \<times> 'b) option" where
  "first_some f [] = None"
| "first_some f (x # xs) = (case f x of Some y \<Rightarrow> Some (x, y) | None \<Rightarrow> first_some f xs)"

definition strip_zeros :: "string \<Rightarrow> string" where
  "strip_zeros s = rev (dropWhile (\<lambda>c. c = CHR ''0'') (rev s))"

definition exponent_text :: "int \<Rightarrow> string" where
  "exponent_text e =
     (let s = nat_digits (nat \<bar>e\<bar>)
      in (if e < 0 then ''-'' else ''+'') @ (if length s < 2 then CHR ''0'' # s else s))"

definition format_repr :: "string \<Rightarrow> int \<Rightarrow> string" where
  "format_repr ds p =
     (let m = int (length ds)
      in if - 4 < p \<and> p \<le> 16
         then if p \<le> 0 then ''0.'' @ replicate (nat (- p)) CHR ''0'' @ ds
              else if m \<le> p then ds @ replicate (nat (p - m)) CHR ''0'' @ ''.0''
              else take (nat p) ds @ ''.'' @ drop (nat p) ds
         else take 1 ds @ (if m = 1 then '''' else ''.'' @ drop 1 ds) @ ''e'' @ exponent_text (p - 1))"

definition pos_float_text :: "nat \<Rightarrow> nat \<Rightarrow> string" where
  "pos_float_text a b =
     (let dbl = to_double a b; (n, d) = scale2 (fst dbl) 1 (snd dbl); p = decimal_point n d
      in case first_some (shortest_at dbl n d p) [1..<18] of
           None \<Rightarrow> ''''
         | Some (k, c) \<Rightarrow>
             (let ds = nat_digits c in format_repr (strip_zeros ds) (p + int (length ds) - int k)))"

definition ratio_text :: "int \<Rightarrow> int \<Rightarrow> string" where
  "ratio_text a b =
     (if a = 0 then ''0.0''
      else (if (a < 0) \<noteq> (b < 0) then ''-'' else '''') @ pos_float_text (nat \<bar>a\<bar>) (nat \<bar>b\<bar>))"

text \<open>Evaluation on concrete quotients.\<close>

lemma digit_counts:
  "[Suc 0..<18] = Suc 0 # [2..<18]" "[2..<18] = 2 # [3..<18]" "[3..<18] = 3 # [4..<18]"
  "[4..<18] = 4 # [5..<18]" "[5..<18] = 5 # [6..<18]" "[6..<18] = 6 # [7..<18]"
  by (simp_all add: upt_conv_Cons)

lemma replicate_numeral_Cons:
  "replicate (numeral k) x = x # replicate (pred_numeral k) x"
  by (simp add: numeral_eq_Suc)

lemmas ratio_eval = ratio_text_def pos_float_text_def to_double_def scale2_def scale10_def
  round_half_even_def decimal_point_def shortest_at_def strip_zeros_def format_repr_def
  exponent_text_def bit_len.simps nat_digits.simps Let_def char_of_def digit_counts
  replicate_numeral_Cons bit_0

end
