(* ===== verification/Py_Double.thy ===== *)
theory Py_Double
  imports Py_Float
begin

text \<open>
  Python floats as IEEE 754 binary64 numbers: the value is a sign, a natural significand and a
  power of two, or an infinity, or not a number. The theory holds the rounding of an exact
  fraction, the decoding of the \<^verbatim>\<open>d\<close> and \<^verbatim>\<open>f\<close> fields of \<^verbatim>\<open>struct\<close>, the operations the converters
  apply (product, sum, comparison, \<^verbatim>\<open>int\<close>), and the shortest text \<^verbatim>\<open>repr\<close> gives.
\<close>

section \<open>Values and rounding\<close>

text \<open>\<open>Fin s m e\<close> is \<open>m * 2 ^ e\<close>, negative when \<open>s\<close>; zero has a sign.\<close>

datatype pyfloat = Fin bool nat int | Infinite bool | NotANumber

text \<open>A format: the bits of the significand, the smallest and the largest power of its last bit.\<close>

datatype float_format = Float_Format (ff_bits: nat) (ff_low: int) (ff_high: int)

definition binary64 :: float_format where "binary64 = Float_Format 53 (- 1074) 971"
definition binary32 :: float_format where "binary32 = Float_Format 24 (- 149) 104"

text \<open>
  The number of the format nearest to \<open>n / d\<close>, ties to the even significand; subnormal when the
  last bit would fall below the format, infinite when it would rise above it.
\<close>

definition last_bit :: "float_format \<Rightarrow> nat \<Rightarrow> nat \<Rightarrow> int" where
  "last_bit fmt n d =
     (let s0 = int (ff_bits fmt) - 1 - (int (bit_len n) - int (bit_len d)); (n0, d0) = scale2 n d s0
      in max (ff_low fmt) (- (if n0 < d0 * 2 ^ (ff_bits fmt - 1) then s0 + 1 else s0)))"

definition round_to :: "float_format \<Rightarrow> bool \<Rightarrow> nat \<Rightarrow> nat \<Rightarrow> pyfloat" where
  "round_to fmt s n d =
     (if n = 0 then Fin s 0 (ff_low fmt)
      else let e = last_bit fmt n d; (n1, d1) = scale2 n d (- e); q = round_half_even n1 d1;
               (m, e') = (if q = 2 ^ ff_bits fmt then (2 ^ (ff_bits fmt - 1), e + 1) else (q, e))
           in if ff_high fmt < e' then Infinite s else Fin s m e')"

abbreviation fl_round :: "bool \<Rightarrow> nat \<Rightarrow> nat \<Rightarrow> pyfloat" where
  "fl_round \<equiv> round_to binary64"

section \<open>Fields of a byte string\<close>

definition float_of_bits :: "nat \<Rightarrow> nat \<Rightarrow> int \<Rightarrow> int \<Rightarrow> pyfloat" where
  "float_of_bits ebits mbits low n =
     (let s = n div 2 ^ (ebits + mbits) mod 2 = 1; ex = n div 2 ^ mbits mod 2 ^ ebits;
          fr = nat (n mod 2 ^ mbits)
      in if ex = 2 ^ ebits - 1 then if fr = 0 then Infinite s else NotANumber
         else if ex = 0 then Fin s fr low else Fin s (2 ^ mbits + fr) (low + ex - 1))"

definition order_int :: "byte_order \<Rightarrow> bytes \<Rightarrow> int" where
  "order_int order bs = (case order of LittleEndian \<Rightarrow> le_int bs | BigEndian \<Rightarrow> be_int bs)"

text \<open>\<^verbatim>\<open>struct.unpack_from(order + "d", data, i)\<close> and the same with \<^verbatim>\<open>"f"\<close>.\<close>

definition f64 :: "byte_order \<Rightarrow> bytes \<Rightarrow> nat \<Rightarrow> pyfloat" where
  "f64 order data i = float_of_bits 11 52 (- 1074) (order_int order (bslice data i (i + 8)))"

definition f32 :: "byte_order \<Rightarrow> bytes \<Rightarrow> nat \<Rightarrow> pyfloat" where
  "f32 order data i = float_of_bits 8 23 (- 149) (order_int order (bslice data i (i + 4)))"

section \<open>Operations\<close>

fun is_finite :: "pyfloat \<Rightarrow> bool" where
  "is_finite (Fin s m e) = True"
| "is_finite x = False"

text \<open>An \<^verbatim>\<open>int\<close> in a float expression; the ones the code uses are exact.\<close>

definition fl_int :: "int \<Rightarrow> pyfloat" where
  "fl_int i = Fin (i < 0) (nat \<bar>i\<bar>) 0"

text \<open>The integer \<open>x / 2 ^ b\<close> of a finite number whose power is at least \<open>b\<close>.\<close>

definition fl_units :: "int \<Rightarrow> bool \<Rightarrow> nat \<Rightarrow> int \<Rightarrow> int" where
  "fl_units b s m e = (if s then - 1 else 1) * int m * 2 ^ nat (e - b)"

fun fl_less :: "pyfloat \<Rightarrow> pyfloat \<Rightarrow> bool" where
  "fl_less (Fin s m e) (Fin t n f) = (let b = min e f in fl_units b s m e < fl_units b t n f)"
| "fl_less (Fin s m e) (Infinite t) = (\<not> t)"
| "fl_less (Infinite s) (Fin t n f) = s"
| "fl_less (Infinite s) (Infinite t) = (s \<and> \<not> t)"
| "fl_less NotANumber y = False"
| "fl_less x NotANumber = False"

fun fl_mul :: "pyfloat \<Rightarrow> pyfloat \<Rightarrow> pyfloat" where
  "fl_mul (Fin s m e) (Fin t n f) = (case scale2 (m * n) 1 (e + f) of (a, b) \<Rightarrow> fl_round (s \<noteq> t) a b)"
| "fl_mul (Fin s m e) (Infinite t) = (if m = 0 then NotANumber else Infinite (s \<noteq> t))"
| "fl_mul (Infinite s) (Fin t n f) = (if n = 0 then NotANumber else Infinite (s \<noteq> t))"
| "fl_mul (Infinite s) (Infinite t) = Infinite (s \<noteq> t)"
| "fl_mul NotANumber y = NotANumber"
| "fl_mul x NotANumber = NotANumber"

fun fl_add :: "pyfloat \<Rightarrow> pyfloat \<Rightarrow> pyfloat" where
  "fl_add (Fin s m e) (Fin t n f) =
     (let b = min e f; i = fl_units b s m e + fl_units b t n f
      in if i = 0 then Fin (s \<and> t) 0 (ff_low binary64)
         else case scale2 (nat \<bar>i\<bar>) 1 b of (a, d) \<Rightarrow> fl_round (i < 0) a d)"
| "fl_add (Fin s m e) (Infinite t) = Infinite t"
| "fl_add (Infinite s) (Fin t n f) = Infinite s"
| "fl_add (Infinite s) (Infinite t) = (if s = t then Infinite s else NotANumber)"
| "fl_add NotANumber y = NotANumber"
| "fl_add x NotANumber = NotANumber"

fun fl_abs :: "pyfloat \<Rightarrow> pyfloat" where
  "fl_abs (Fin s m e) = Fin False m e"
| "fl_abs (Infinite s) = Infinite False"
| "fl_abs NotANumber = NotANumber"

text \<open>\<^verbatim>\<open>int(x)\<close> of a finite number: towards zero.\<close>

fun fl_trunc :: "pyfloat \<Rightarrow> int" where
  "fl_trunc (Fin s m e) =
     (if s then - 1 else 1) * (if e \<ge> 0 then int m * 2 ^ nat e else int m div 2 ^ nat (- e))"
| "fl_trunc x = 0"

section \<open>The text of a float\<close>

text \<open>As in \<open>shortest_at\<close>, for every finite number: the closer candidate of \<open>k\<close> digits that reads back.\<close>

definition repr_at :: "pyfloat \<Rightarrow> nat \<Rightarrow> nat \<Rightarrow> int \<Rightarrow> nat \<Rightarrow> nat option" where
  "repr_at x n d p k =
     (let (n1, d1) = scale10 n d (int k - p); f = n1 div d1; r = n1 mod d1;
          reads = (\<lambda>c. c \<noteq> 0 \<and> (case scale10 c 1 (p - int k) of (cn, cd) \<Rightarrow> fl_round False cn cd = x));
          lo = reads f; hi = reads (f + 1)
      in if lo \<and> hi then Some (if 2 * r \<le> d1 then f else f + 1)
         else if lo then Some f else if hi then Some (f + 1) else None)"

definition positive_repr :: "nat \<Rightarrow> int \<Rightarrow> string" where
  "positive_repr m e =
     (let (n, d) = scale2 m 1 e; p = decimal_point n d
      in case first_some (repr_at (fl_round False n d) n d p) [1..<18] of
           None \<Rightarrow> ''''
         | Some (k, c) \<Rightarrow>
             (let ds = nat_digits c in format_repr (strip_zeros ds) (p + int (length ds) - int k)))"

fun float_repr :: "pyfloat \<Rightarrow> string" where
  "float_repr (Fin s m e) =
     (if s then ''-'' else '''') @ (if m = 0 then ''0.0'' else positive_repr m e)"
| "float_repr (Infinite s) = (if s then ''-inf'' else ''inf'')"
| "float_repr NotANumber = ''nan''"

end
