(* ===== verification/Py_Text.thy ===== *)
theory Py_Text
  imports Py_Double Py_Sha256 "HOL-Library.List_Lexorder" "HOL-Library.Char_ord"
begin

text \<open>
  The two text formats the converters write: rows of \<^verbatim>\<open>csv.DictWriter\<close> with
  \<^verbatim>\<open>lineterminator="\n"\<close> and minimal quoting, and \<^verbatim>\<open>json.dumps\<close> with ASCII
  escapes. A row is the dictionary handed to \<^verbatim>\<open>writerow\<close>, the output buffer
  \<^verbatim>\<open>io.StringIO\<close> is the list of the rows written so far, and \<^verbatim>\<open>output.tell()\<close> is
  the length of the text those rows give.
\<close>

section \<open>CSV rows\<close>

text \<open>\<^verbatim>\<open>CRatio a b\<close> is the float \<^verbatim>\<open>a / b\<close> of two integers, \<^verbatim>\<open>CFloat x\<close> any float.\<close>

datatype cell =
    CNone
  | CInt int
  | CStr string
  | CBool bool
  | CRatio int int
  | CFloat pyfloat

type_synonym row = "(string \<times> cell) list"

fun cell_text :: "cell \<Rightarrow> string" where
  "cell_text CNone = []"
| "cell_text (CInt i) = int_text i"
| "cell_text (CStr s) = s"
| "cell_text (CBool b) = (if b then ''True'' else ''False'')"
| "cell_text (CRatio a b) = ratio_text a b"
| "cell_text (CFloat x) = float_repr x"

definition csv_special :: "char \<Rightarrow> bool" where
  "csv_special c \<longleftrightarrow> c = CHR '','' \<or> c = CHR 0x22 \<or> c = CHR 0x0A \<or> c = CHR 0x0D"

definition csv_field :: "string \<Rightarrow> string" where
  "csv_field s =
     (if \<exists>c \<in> set s. csv_special c
      then CHR 0x22 # concat (map (\<lambda>c. if c = CHR 0x22 then [c, c] else [c]) s) @ [CHR 0x22]
      else s)"

fun join_with :: "string \<Rightarrow> string list \<Rightarrow> string" where
  "join_with sep [] = []"
| "join_with sep [x] = x"
| "join_with sep (x # y # zs) = x @ sep @ join_with sep (y # zs)"

definition csv_line :: "string list \<Rightarrow> string" where
  "csv_line fs =
     (if fs = [''''] then [CHR 0x22, CHR 0x22] else join_with '','' (map csv_field fs)) @ [CHR 0x0A]"

definition row_get :: "row \<Rightarrow> string \<Rightarrow> cell" where
  "row_get r k = (case map_of r k of None \<Rightarrow> CNone | Some c \<Rightarrow> c)"

definition row_line :: "string list \<Rightarrow> row \<Rightarrow> string" where
  "row_line cols r = csv_line (map (\<lambda>k. cell_text (row_get r k)) cols)"

definition csv_text :: "string list \<Rightarrow> row list \<Rightarrow> string" where
  "csv_text cols rs = csv_line cols @ concat (map (row_line cols) rs)"

text \<open>\<^verbatim>\<open>dict(base, **more)\<close>: the later bindings win.\<close>

definition row_update :: "row \<Rightarrow> row \<Rightarrow> row" where
  "row_update base more = more @ base"

definition row_keys :: "row \<Rightarrow> string set" where
  "row_keys r = fst ` set r"

text \<open>
  \<^verbatim>\<open>writer.writerow(r)\<close> refuses a key outside \<^verbatim>\<open>fieldnames\<close>; the rows written grow by
  one otherwise.
\<close>

definition write_row :: "string list \<Rightarrow> row \<Rightarrow> row list \<Rightarrow> row list result" where
  "write_row cols r out =
     (if \<exists>kv \<in> set r. fst kv \<notin> set cols
      then fail ''dict contains fields not in fieldnames'' else Inr (out @ [r]))"

lemma write_row_Inr [result_simps]:
  "write_row cols r out = Inr out' \<longleftrightarrow> row_keys r \<subseteq> set cols \<and> out' = out @ [r]"
  by (auto simp: write_row_def row_keys_def)

lemma row_get_update:
  "row_get (row_update base more) k =
     (case map_of more k of None \<Rightarrow> row_get base k | Some c \<Rightarrow> c)"
  by (simp add: row_get_def row_update_def map_add_def split: option.splits)

lemma row_keys_update [simp]: "row_keys (row_update a b) = row_keys a \<union> row_keys b"
  by (auto simp: row_keys_def row_update_def)

lemma row_keys_Cons [simp]: "row_keys ((k, c) # r) = insert k (row_keys r)"
  by (simp add: row_keys_def)

lemma row_keys_Nil [simp]: "row_keys [] = {}"
  by (simp add: row_keys_def)

lemma csv_text_snoc: "csv_text cols (rs @ [r]) = csv_text cols rs @ row_line cols r"
  by (simp add: csv_text_def)

lemma csv_field_plain: "\<forall>c \<in> set s. \<not> csv_special c \<Longrightarrow> csv_field s = s"
  by (simp add: csv_field_def)

lemma csv_field_hex [simp]: "csv_field (hex_of bs) = hex_of bs"
  using hex_of_chars [of bs] by (intro csv_field_plain) (auto simp: csv_special_def)

lemma csv_field_sha256_hex [simp]: "csv_field (sha256_hex m) = sha256_hex m"
  by (simp add: sha256_hex_def)

lemma csv_field_sha256_ref [simp]: "csv_field (sha256_ref m) = sha256_ref m"
  using hex_of_chars [of "sha256 m"]
  by (intro csv_field_plain) (auto simp: csv_special_def sha256_ref_def sha256_hex_def)

lemma csv_field_literal:
  "csv_field [] = []"
  "csv_field (c # cs) = (if \<exists>x \<in> set (c # cs). csv_special x
     then CHR 0x22 # concat (map (\<lambda>x. if x = CHR 0x22 then [x, x] else [x]) (c # cs)) @ [CHR 0x22]
     else c # cs)"
  by (simp_all add: csv_field_def)

lemmas csv_eval = csv_field_literal csv_text_def csv_line_def row_line_def row_get_def
  csv_special_def write_row_def int_text_def nat_digits.simps char_of_def bit_0

lemma csv_text_length_mono: "length (csv_text cols rs) \<le> length (csv_text cols (rs @ rs'))"
  by (simp add: csv_text_def)

text \<open>A bound on the text of one row, from the sizes of its columns and cells.\<close>

lemma csv_field_bound: "length (csv_field s) \<le> 2 * length s + 2"
proof -
  have "length (concat (map (\<lambda>x. if x = CHR 0x22 then [x, x] else [x]) t)) \<le> 2 * length t" for t
    by (induction t) auto
  then show ?thesis by (simp add: csv_field_def)
qed


lemma csv_line_bound: "length (csv_line fs) \<le> sum_list (map (\<lambda>f. 2 * length f + 3) fs) + 2"
proof -
  have "length (join_with '','' (map csv_field gs)) \<le> sum_list (map (\<lambda>f. 2 * length f + 3) gs)" for gs
  proof (induction gs rule: induct_list012)
    case (2 x)
    show ?case using csv_field_bound [of x] by simp
  next
    case (3 x y zs)
    then show ?case using csv_field_bound [of x] by simp
  qed simp
  from this [of fs] show ?thesis by (auto simp: csv_line_def)
qed

definition row_size :: "row \<Rightarrow> nat" where
  "row_size r = sum_list (map (\<lambda>kv. 2 * length (fst kv) + 2 * length (cell_text (snd kv)) + 6) r) + 4"

lemma one_row_bound:
  assumes "distinct (map fst r)"
  shows "length (csv_text (map fst r) [r]) \<le> row_size r"
proof -
  have own: "map (\<lambda>k. cell_text (row_get r k)) (map fst r) = map (\<lambda>kv. cell_text (snd kv)) r"
    using assms by (auto simp: row_get_def)
  have "row_line (map fst r) r = csv_line (map (\<lambda>kv. cell_text (snd kv)) r)"
    unfolding row_line_def own ..
  then have "length (csv_text (map fst r) [r]) \<le>
      (sum_list (map (\<lambda>f. 2 * length f + 3) (map fst r)) + 2)
      + (sum_list (map (\<lambda>f. 2 * length f + 3) (map (\<lambda>kv. cell_text (snd kv)) r)) + 2)"
    using csv_line_bound [of "map fst r"] csv_line_bound [of "map (\<lambda>kv. cell_text (snd kv)) r"]
    by (simp add: csv_text_def)
  also have "\<dots> = row_size r"
    by (simp add: row_size_def sum_list_addf comp_def sum_list_triv)
  finally show ?thesis .
qed

text \<open>A bound on the text of a table, from a bound on its cells.\<close>

lemma row_get_cap:
  assumes "\<forall>kv \<in> set r. length (cell_text (snd kv)) \<le> m"
  shows "length (cell_text (row_get r k)) \<le> m"
  using assms by (auto simp: row_get_def dest!: map_of_SomeD split: option.split)

lemma csv_text_cap:
  assumes "\<forall>r \<in> set rs. \<forall>kv \<in> set r. length (cell_text (snd kv)) \<le> m"
  shows "length (csv_text cols rs) \<le> sum_list (map (\<lambda>k. 2 * length k + 3) cols) + 2
    + length rs * (length cols * (2 * m + 3) + 2)"
  using assms
proof (induction rs rule: rev_induct)
  case Nil
  show ?case using csv_line_bound [of cols] by (simp add: csv_text_def)
next
  case (snoc r rs)
  let ?f = "\<lambda>k. 2 * length (cell_text (row_get r k)) + 3"
  have "length (row_line cols r) \<le> sum_list (map ?f cols) + 2"
    using csv_line_bound [of "map (\<lambda>k. cell_text (row_get r k)) cols"] by (simp add: row_line_def comp_def)
  also have "sum_list (map ?f cols) \<le> sum_list (map (\<lambda>k. 2 * m + 3) cols)"
    using snoc.prems row_get_cap [of r m] by (intro sum_list_mono) auto
  finally have "length (row_line cols r) \<le> length cols * (2 * m + 3) + 2" by (simp add: sum_list_triv)
  with snoc show ?case by (simp add: csv_text_snoc)
qed

text \<open>A row that the writer takes, with bounded cells.\<close>

definition fits :: "string list \<Rightarrow> nat \<Rightarrow> row \<Rightarrow> bool" where
  "fits cols m r \<longleftrightarrow> list_all (\<lambda>kv. fst kv \<in> set cols \<and> length (cell_text (snd kv)) \<le> m) r"

lemma fits_update [simp]: "fits cols m (row_update a b) \<longleftrightarrow> fits cols m a \<and> fits cols m b"
  by (auto simp: fits_def row_update_def)

lemmas fits_eval = fits_def list.pred_inject simp_thms fst_conv snd_conv cell_text.simps list.set insert_iff refl

lemma fits_written:
  assumes "fits cols m r" "list_all (fits cols m) out"
  shows "write_row cols r out = Inr (out @ [r]) \<and> length (csv_text cols (out @ [r])) \<le>
    sum_list (map (\<lambda>k. 2 * length k + 3) cols) + 2 + (length out + 1) * (length cols * (2 * m + 3) + 2)"
proof -
  have "\<forall>r \<in> set (out @ [r]). \<forall>kv \<in> set r. length (cell_text (snd kv)) \<le> m"
    using assms by (auto simp: fits_def list_all_iff)
  from csv_text_cap [OF this] show ?thesis
    using assms(1) by (auto simp: fits_def list_all_iff write_row_def)
qed

lemma fits_empty_cells: "fits cols m (map (\<lambda>k. (k, CStr '''')) cols)"
  by (auto simp: fits_def list_all_iff)

lemmas row_size_eval = row_size_def int_text_def nat_digits.simps char_of_def bit_0

section \<open>JSON text\<close>

datatype json =
    JNull
  | JBool bool
  | JInt int
  | JStr string
  | JUni "nat list"
  | JArr "json list"
  | JObj "(string \<times> json) list"

definition json_u :: "nat \<Rightarrow> string" where
  "json_u n = [CHR 0x5C, CHR ''u'', hex_digit (n div 4096 mod 16), hex_digit (n div 256 mod 16),
     hex_digit (n div 16 mod 16), hex_digit (n mod 16)]"

definition json_char :: "nat \<Rightarrow> string" where
  "json_char n =
     (if n = 34 then [CHR 0x5C, CHR 0x22]
      else if n = 92 then [CHR 0x5C, CHR 0x5C]
      else if n = 10 then [CHR 0x5C, CHR ''n'']
      else if n = 13 then [CHR 0x5C, CHR ''r'']
      else if n = 9 then [CHR 0x5C, CHR ''t'']
      else if n = 8 then [CHR 0x5C, CHR ''b'']
      else if n = 12 then [CHR 0x5C, CHR ''f'']
      else if 32 \<le> n \<and> n \<le> 126 then [char_of n]
      else if n < 65536 then json_u n
      else json_u (55296 + (n - 65536) div 1024 mod 1024) @ json_u (56320 + (n - 65536) mod 1024))"

definition json_string :: "nat list \<Rightarrow> string" where
  "json_string cs = CHR 0x22 # concat (map json_char cs) @ [CHR 0x22]"

text \<open>
  \<^verbatim>\<open>json.dumps(value, separators=(isep, ksep))\<close>; the default separators are
  \<^verbatim>\<open>", "\<close> and \<^verbatim>\<open>": "\<close>.
\<close>

fun dumps_with :: "string \<Rightarrow> string \<Rightarrow> json \<Rightarrow> string" where
  "dumps_with isep ksep JNull = ''null''"
| "dumps_with isep ksep (JBool b) = (if b then ''true'' else ''false'')"
| "dumps_with isep ksep (JInt i) = int_text i"
| "dumps_with isep ksep (JStr s) = json_string (map of_char s)"
| "dumps_with isep ksep (JUni cs) = json_string cs"
| "dumps_with isep ksep (JArr js) =
     ''['' @ join_with isep (map (dumps_with isep ksep) js) @ '']''"
| "dumps_with isep ksep (JObj kvs) =
     CHR 0x7B # join_with isep (map (\<lambda>kv. json_string (map of_char (fst kv)) @ ksep
       @ dumps_with isep ksep (snd kv)) kvs) @ [CHR 0x7D]"

definition dumps :: "json \<Rightarrow> string" where
  "dumps = dumps_with '', '' '': ''"

text \<open>A bound on the text of a document, from the sizes of its leaves.\<close>

lemma length_join: "length (join_with sep xs) \<le> sum_list (map (\<lambda>x. length x + length sep) xs)"
  by (induction sep xs rule: join_with.induct) auto

fun json_size :: "json \<Rightarrow> nat" where
  "json_size JNull = 4"
| "json_size (JBool b) = 5"
| "json_size (JInt i) = length (int_text i)"
| "json_size (JStr s) = 12 * length s + 2"
| "json_size (JUni cs) = 12 * length cs + 2"
| "json_size (JArr js) = sum_list (map (\<lambda>j. json_size j + 2) js) + 2"
| "json_size (JObj kvs) = sum_list (map (\<lambda>kv. 12 * length (fst kv) + json_size (snd kv) + 6) kvs) + 2"

lemma json_string_size: "length (json_string cs) \<le> 12 * length cs + 2"
proof -
  have "length (json_char c) \<le> 12" for c by (simp add: json_char_def json_u_def)
  then have "length (concat (map json_char cs)) \<le> 12 * length cs"
    by (induction cs) (auto intro: add_mono)
  then show ?thesis by (simp add: json_string_def)
qed

lemma dumps_size: "length (dumps j) \<le> json_size j"
proof -
  have "length (dumps_with '', '' '': '' j) \<le> json_size j" for j
  proof (induction "'', ''" "'': ''" j rule: dumps_with.induct)
    case (4 s)
    show ?case using json_string_size [of "map of_char s"] by simp
  next
    case (5 cs)
    show ?case using json_string_size by simp
  next
    case (6 js)
    have "sum_list (map (\<lambda>x. length x + 2) (map (dumps_with '', '' '': '') js)) \<le> sum_list (map (\<lambda>j. json_size j + 2) js)"
      unfolding map_map by (rule sum_list_mono) (use 6 in auto)
    with length_join [of "'', ''" "map (dumps_with '', '' '': '') js"] show ?case by simp
  next
    case (7 kvs)
    let ?f = "\<lambda>kv. json_string (map of_char (fst kv)) @ '': '' @ dumps_with '', '' '': '' (snd kv)"
    have "length (?f kv) + 2 \<le> 12 * length (fst kv) + json_size (snd kv) + 6" if "kv \<in> set kvs" for kv
      using 7 [OF that] json_string_size [of "map of_char (fst kv)"] by simp
    then have "sum_list (map (\<lambda>x. length x + 2) (map ?f kvs)) \<le>
        sum_list (map (\<lambda>kv. 12 * length (fst kv) + json_size (snd kv) + 6) kvs)"
      unfolding map_map comp_def by (rule sum_list_mono)
    with length_join [of "'', ''" "map ?f kvs"] show ?case by simp
  qed simp_all
  then show ?thesis by (simp add: dumps_def)
qed

lemmas json_size_eval = json_size.simps int_text_def nat_digits.simps char_of_def bit_0

text \<open>\<^verbatim>\<open>sort_keys=True\<close>, at every level.\<close>

fun sort_keys :: "json \<Rightarrow> json" where
  "sort_keys (JArr js) = JArr (map sort_keys js)"
| "sort_keys (JObj kvs) = JObj (sort_key fst (map (\<lambda>kv. (fst kv, sort_keys (snd kv))) kvs))"
| "sort_keys j = j"

section \<open>Reading a document\<close>

text \<open>
  \<^verbatim>\<open>key in d\<close> and \<^verbatim>\<open>d.get(key)\<close> on a parsed object, whose keys are distinct, and the code points
  of a string.
\<close>

definition json_has :: "json \<Rightarrow> string \<Rightarrow> bool" where
  "json_has j key = (case j of JObj kvs \<Rightarrow> key \<in> fst ` set kvs | _ \<Rightarrow> False)"

definition json_get :: "json \<Rightarrow> string \<Rightarrow> json" where
  "json_get j key = (case j of JObj kvs \<Rightarrow> (case map_of kvs key of None \<Rightarrow> JNull | Some v \<Rightarrow> v) | _ \<Rightarrow> JNull)"

definition is_object :: "json \<Rightarrow> bool" where
  "is_object j = (case j of JObj _ \<Rightarrow> True | _ \<Rightarrow> False)"

definition code_points :: "json \<Rightarrow> nat list option" where
  "code_points j = (case j of JStr s \<Rightarrow> Some (map of_char s) | JUni cs \<Rightarrow> Some cs | _ \<Rightarrow> None)"

definition json_is :: "json \<Rightarrow> string \<Rightarrow> bool" where
  "json_is j s \<longleftrightarrow> code_points j = Some (map of_char s)"

section \<open>Counters held in a dictionary\<close>

text \<open>
  \<^verbatim>\<open>d[key] = d.get(key, 0) + 1\<close> on a dictionary that keeps insertion order.
\<close>

fun bump :: "'k \<Rightarrow> ('k \<times> int) list \<Rightarrow> ('k \<times> int) list" where
  "bump k [] = [(k, 1)]"
| "bump k ((k', n) # d) = (if k = k' then (k', n + 1) # d else (k', n) # bump k d)"

definition total :: "('k \<times> int) list \<Rightarrow> int" where
  "total d = sum_list (map snd d)"

definition count_of :: "('k \<times> int) list \<Rightarrow> 'k \<Rightarrow> int" where
  "count_of d k = (case map_of d k of None \<Rightarrow> 0 | Some n \<Rightarrow> n)"

lemma total_Nil [simp]: "total [] = 0"
  by (simp add: total_def)

lemma total_bump [simp]: "total (bump k d) = total d + 1"
  by (induction d rule: bump.induct) (auto simp: total_def)

lemma count_of_bump: "count_of (bump k d) j = count_of d j + (if j = k then 1 else 0)"
  by (induction k d rule: bump.induct) (auto simp: count_of_def)

lemma keys_bump: "fst ` set (bump k d) = insert k (fst ` set d)"
  by (induction k d rule: bump.induct) auto

lemma distinct_bump: "distinct (map fst d) \<Longrightarrow> distinct (map fst (bump k d))"
proof (induction k d rule: bump.induct)
  case (2 k k' n d)
  then show ?case using keys_bump [of k d] by auto
qed simp

end
