(* ===== verification/Datagrams.thy ===== *)
theory Datagrams
  imports Pcap Py_Text
begin

text \<open>
  From saved link frames to datagrams: the VLAN envelope, the link envelope, and the two walkers
  \<^verbatim>\<open>iter_udp_datagrams\<close> and \<^verbatim>\<open>iter_icmp_echoes\<close> of
  \<^verbatim>\<open>scripts/convert_imc_sensors.py\<close>. The packet iterator, the IPv4 and UDP header
  classes and the Internet checksum of the third-party package \<^verbatim>\<open>dpkt\<close> are the
  parameter \<open>dpkt\<close> of the walkers.
\<close>

section \<open>Bounded output\<close>

text \<open>One row of a converter's CSV, refused once the text exceeds \<^verbatim>\<open>OUTPUT_LIMIT\<close>.\<close>

definition OUTPUT_LIMIT :: nat where "OUTPUT_LIMIT = 128 * 1024 * 1024"

definition write_bounded :: "string list \<Rightarrow> row list \<Rightarrow> row \<Rightarrow> row list result" where
  "write_bounded cols out r =
     rbind (write_row cols r out) (\<lambda>out'.
       if length (csv_text cols out') > OUTPUT_LIMIT then fail ''packet CSV exceeds bound''
       else Inr out')"

lemma write_bounded_rows:
  assumes "run_items (write_bounded cols) out rows = Inr out'"
  shows "out' = out @ rows"
  using assms
  by (induction rows arbitrary: out) (fastforce simp: write_bounded_def result_simps)+

section \<open>The third-party decoder as a parameter\<close>

text \<open>
  \<^verbatim>\<open>dpkt.ip.IP(network)\<close> and \<^verbatim>\<open>dpkt.udp.UDP(raw)\<close> either raise
  \<^verbatim>\<open>dpkt.UnpackError\<close> (\<open>None\<close>) or give the attributes the code reads.
\<close>

record dpkt_ip =
  ip_v :: int
  ip_hl :: nat
  ip_len :: nat
  ip_p :: int
  ip_offset :: int
  ip_mf :: int
  ip_src :: bytes
  ip_dst :: bytes

record dpkt_udp =
  udp_sport :: int
  udp_dport :: int
  udp_ulen :: nat
  udp_sum :: int
  udp_data :: bytes

record dpkt =
  dk_version :: string
  dk_reader :: "bytes \<Rightarrow> bytes gen"
  dk_ip :: "bytes \<Rightarrow> dpkt_ip option"
  dk_udp :: "bytes \<Rightarrow> dpkt_udp option"
  dk_in_cksum :: "bytes \<Rightarrow> int"

section \<open>The link envelope\<close>

definition single_vlan_envelope :: "bytes \<Rightarrow> (int \<times> int) option result" where
  "single_vlan_envelope packet =
     (if length packet < 14 then fail ''truncated Ethernet header''
      else let outer = be_int (bslice packet 12 14) in
        if outer \<in> {0x88A8, 0x9100, 0x9200}
        then fail ''alternate VLAN tag outside single 802.1Q path''
        else if outer \<noteq> 0x8100 then Inr None
        else if length packet < 18 then fail ''truncated 802.1Q header''
        else let tci = u16be packet 14; inner = u16be packet 16 in
          if inner \<in> {0x8100, 0x88A8, 0x9100, 0x9200}
          then fail ''nested VLAN tags outside single 802.1Q path''
          else Inr (Some (tci, inner)))"

definition ethernet_ipv4 :: "bytes \<Rightarrow> bytes option result" where
  "ethernet_ipv4 packet =
     (if length packet < 14 then fail ''truncated Ethernet header''
      else Inr (if bslice packet 12 14 = [0x08, 0x00] then Some (drop 14 packet) else None))"

definition wifi_ipv4 :: "bytes \<Rightarrow> bytes option result" where
  "wifi_ipv4 packet =
     (if length packet < 2 then fail ''truncated Wi-Fi frame control''
      else let control = le_int (bslice packet 0 2) in
        if control AND 3 \<noteq> 0 then fail ''unsupported Wi-Fi protocol version''
        else if drop_bit 2 control AND 3 \<noteq> 2 then Inr None
        else if control AND 0xF0 \<noteq> 0 \<or> control AND (0x400 OR 0x4000 OR 0x8000) \<noteq> 0
        then fail ''only unprotected unfragmented non-QoS Wi-Fi data supported''
        else let header = (if control AND 0x300 = 0x300 then 30 else 24) in
          if length packet < header + 8 \<or> bval (packet ! 22) AND 15 \<noteq> 0
          then fail ''truncated or fragmented Wi-Fi data''
          else if bslice packet header (header + 6) \<noteq> [0xaa, 0xaa, 0x03, 0, 0, 0]
          then fail ''RFC1042 LLC/SNAP required''
          else Inr (if bslice packet (header + 6) (header + 8) = [0x08, 0x00]
                    then Some (drop (header + 8) packet) else None))"

definition packet_ipv4 :: "bytes \<Rightarrow> int \<Rightarrow> bool \<Rightarrow> bytes option result" where
  "packet_ipv4 packet linktype single_vlan =
     (if linktype = 1
      then if single_vlan
           then rbind (single_vlan_envelope packet) (\<lambda>tag. case tag of
                    Some (tci, inner) \<Rightarrow> Inr (if inner = 0x0800 then Some (drop 18 packet) else None)
                  | None \<Rightarrow> ethernet_ipv4 packet)
           else ethernet_ipv4 packet
      else wifi_ipv4 packet)"

section \<open>UDP datagrams\<close>

record udp_fields =
  uf_payload :: bytes
  uf_checksum :: string
  uf_source_address :: string
  uf_source_port :: int
  uf_destination_address :: string
  uf_destination_port :: int

text \<open>A saved datagram; an unselected record has none of the decoded fields.\<close>

record saved_datagram =
  sd_index :: nat
  sd_capture :: int
  sd_frame :: bytes
  sd_udp :: "udp_fields option"

definition dotted :: "bytes \<Rightarrow> string" where
  "dotted raw = join_with ''.'' (map (\<lambda>b. int_text (bval b)) raw)"

definition udp_datagram :: "dpkt \<Rightarrow> int \<Rightarrow> bool \<Rightarrow> int \<Rightarrow> bytes \<Rightarrow> udp_fields option result" where
  "udp_datagram dk linktype single_vlan destination_port packet =
     rbind (packet_ipv4 packet linktype single_vlan) (\<lambda>found. case found of
       None \<Rightarrow> Inr None
     | Some network \<Rightarrow> (case dk_ip dk network of
         None \<Rightarrow> fail ''invalid saved IPv4 packet''
       | Some ip \<Rightarrow>
           if ip_v ip \<noteq> 4 \<or> ip_hl ip < 5 \<or> ip_len ip < ip_hl ip * 4 \<or> ip_len ip > length network
           then fail ''invalid IPv4 length''
           else if linktype = 105 \<and> ip_len ip \<noteq> length network
           then fail ''Wi-Fi trailing bytes or FCS not supported''
           else if ip_p ip \<noteq> 17 then Inr None
           else if ip_offset ip \<noteq> 0 \<or> ip_mf ip \<noteq> 0
           then fail ''fragmented UDP is outside selected path''
           else let raw_udp = bslice network (ip_hl ip * 4) (ip_len ip) in
             (case dk_udp dk raw_udp of
               None \<Rightarrow> fail ''invalid saved UDP packet''
             | Some udp \<Rightarrow>
                 if udp_dport udp \<noteq> destination_port then Inr None
                 else if udp_ulen udp \<noteq> length raw_udp \<or> udp_ulen udp < 8
                   \<or> dk_in_cksum dk (bslice network 0 (ip_hl ip * 4)) \<noteq> 0
                 then fail ''invalid selected IP/UDP length or checksum''
                 else if udp_sum udp \<noteq> 0 \<and> dk_in_cksum dk (ip_src ip @ ip_dst ip @ [0, 17]
                     @ pack_u16be (int (udp_ulen udp)) @ raw_udp) \<noteq> 0
                 then fail ''invalid selected UDP checksum''
                 else Inr (Some \<lparr>uf_payload = udp_data udp,
                   uf_checksum = (if udp_sum udp \<noteq> 0 then ''CHECKED'' else ''NOT_PROVIDED''),
                   uf_source_address = dotted (ip_src ip), uf_source_port = udp_sport udp,
                   uf_destination_address = dotted (ip_dst ip),
                   uf_destination_port = udp_dport udp\<rparr>))))"

text \<open>
  The walk over the packets of the capture, with the loop variable \<^verbatim>\<open>previous\<close> and the
  exception that ends the packet iterator, if one does. A record decoder gives what is yielded.
\<close>

fun packet_walk ::
  "(nat \<Rightarrow> int \<Rightarrow> bytes \<Rightarrow> 'a result) \<Rightarrow> int list \<Rightarrow> py_error option
    \<Rightarrow> int option \<Rightarrow> nat \<Rightarrow> bytes list \<Rightarrow> 'a gen" where
  "packet_walk decode entries ending previous index [] = ([], ending)"
| "packet_walk decode entries ending previous index (packet # packets) =
     (case item_at entries index of
        Inl e \<Rightarrow> ([], Some e)
      | Inr capture \<Rightarrow>
          if (case previous of None \<Rightarrow> False | Some p \<Rightarrow> capture < p)
          then gen_fail ''decreasing packet clock''
          else case decode index capture packet of
              Inl e \<Rightarrow> ([], Some e)
            | Inr saved \<Rightarrow> yield_then saved
                (packet_walk decode entries ending (Some capture) (Suc index) packets))"

definition save_datagram ::
  "dpkt \<Rightarrow> int \<Rightarrow> bool \<Rightarrow> int \<Rightarrow> nat \<Rightarrow> int \<Rightarrow> bytes \<Rightarrow> saved_datagram result" where
  "save_datagram dk linktype single_vlan destination_port index capture packet =
     rbind (udp_datagram dk linktype single_vlan destination_port packet) (\<lambda>fields.
       Inr \<lparr>sd_index = index, sd_capture = capture, sd_frame = packet, sd_udp = fields\<rparr>)"

definition iter_udp_datagrams ::
  "dpkt \<Rightarrow> bytes \<Rightarrow> int \<Rightarrow> (int \<times> int list) option \<Rightarrow> bool \<Rightarrow> saved_datagram gen" where
  "iter_udp_datagrams dk data destination_port records single_vlan =
     (if dk_version dk \<noteq> ''1.9.8'' then gen_fail ''qualified dpkt1.9.8 required''
      else if \<not> (1 \<le> destination_port \<and> destination_port \<le> 65535)
      then gen_fail ''explicit UDP destination port required''
      else case (case records of Some r \<Rightarrow> Inr r | None \<Rightarrow> read_pcap_records data) of
          Inl e \<Rightarrow> ([], Some e)
        | Inr (linktype, entries) \<Rightarrow>
            if single_vlan \<and> linktype \<noteq> 1
            then gen_fail ''single VLAN selection requires Ethernet linktype''
            else packet_walk (save_datagram dk linktype single_vlan destination_port) entries
                   (snd (dk_reader dk data)) None 0 (fst (dk_reader dk data)))"

section \<open>ICMP echoes\<close>

record echo_fields =
  ef_kind :: int
  ef_identifier :: int
  ef_sequence :: int
  ef_payload :: bytes
  ef_source_address :: string
  ef_destination_address :: string

record saved_echo =
  se_index :: nat
  se_capture :: int
  se_frame :: bytes
  se_echo :: "echo_fields option"

definition icmp_echo :: "dpkt \<Rightarrow> int \<Rightarrow> bytes \<Rightarrow> echo_fields option result" where
  "icmp_echo dk linktype packet =
     rbind (packet_ipv4 packet linktype False) (\<lambda>found. case found of
       None \<Rightarrow> Inr None
     | Some network \<Rightarrow> (case dk_ip dk network of
         None \<Rightarrow> fail ''invalid saved IPv4 packet''
       | Some ip \<Rightarrow>
           if ip_v ip \<noteq> 4 \<or> ip_hl ip < 5 \<or> ip_len ip < ip_hl ip * 4 \<or> ip_len ip > length network
           then fail ''invalid IPv4 length''
           else if linktype = 105 \<and> ip_len ip \<noteq> length network
           then fail ''Wi-Fi trailing bytes or FCS not supported''
           else if ip_p ip \<noteq> 1 then Inr None
           else if ip_offset ip \<noteq> 0 \<or> ip_mf ip \<noteq> 0
           then fail ''fragmented ICMP is outside selected path''
           else if dk_in_cksum dk (bslice network 0 (ip_hl ip * 4)) \<noteq> 0
           then fail ''invalid selected IPv4 header checksum''
           else let message = bslice network (ip_hl ip * 4) (ip_len ip) in
             if length message < 8 then fail ''truncated selected ICMP message''
             else let kind = bval (message ! 0); code = bval (message ! 1) in
               if kind \<notin> {0, 8} \<or> code \<noteq> 0 then Inr None
               else if dk_in_cksum dk message \<noteq> 0 then fail ''invalid selected ICMP echo checksum''
               else Inr (Some \<lparr>ef_kind = kind, ef_identifier = u16be message 4,
                 ef_sequence = u16be message 6, ef_payload = drop 8 message,
                 ef_source_address = dotted (ip_src ip),
                 ef_destination_address = dotted (ip_dst ip)\<rparr>)))"

definition save_echo :: "dpkt \<Rightarrow> int \<Rightarrow> nat \<Rightarrow> int \<Rightarrow> bytes \<Rightarrow> saved_echo result" where
  "save_echo dk linktype index capture packet =
     rbind (icmp_echo dk linktype packet) (\<lambda>fields.
       Inr \<lparr>se_index = index, se_capture = capture, se_frame = packet, se_echo = fields\<rparr>)"

definition iter_icmp_echoes :: "dpkt \<Rightarrow> bytes \<Rightarrow> (int \<times> int list) option \<Rightarrow> saved_echo gen" where
  "iter_icmp_echoes dk data records =
     (if dk_version dk \<noteq> ''1.9.8'' then gen_fail ''qualified dpkt1.9.8 required''
      else case (case records of Some r \<Rightarrow> Inr r | None \<Rightarrow> read_pcap_records data) of
          Inl e \<Rightarrow> ([], Some e)
        | Inr (linktype, entries) \<Rightarrow>
            packet_walk (save_echo dk linktype) entries (snd (dk_reader dk data)) None 0
              (fst (dk_reader dk data)))"

section \<open>What a walk yields\<close>

text \<open>
  Packets are yielded in recording order under consecutive indexes, each with the capture time
  of its own record, and the capture clock never goes back.
\<close>

lemma packet_walk_yields:
  assumes "fst (packet_walk decode entries ending previous n packets) = out"
  shows "list_all2 (\<lambda>(i, p) saved. i < length entries \<and> decode i (entries ! i) p = Inr saved)
      (enumerate n (take (length out) packets)) out \<and> length out \<le> length packets \<and>
    sorted (map (\<lambda>i. entries ! i) [n..<n + length out]) \<and>
    (out \<noteq> [] \<longrightarrow> (case previous of None \<Rightarrow> True | Some p \<Rightarrow> p \<le> entries ! n))"
  using assms
proof (induction packets arbitrary: previous n out)
  case (Cons packet packets)
  show ?case
  proof (cases out)
    case (Cons saved rest)
    with Cons.prems have i: "n < length entries" "decode n (entries ! n) packet = Inr saved"
      and prev: "case previous of None \<Rightarrow> True | Some p \<Rightarrow> p \<le> entries ! n"
      and rest: "fst (packet_walk decode entries ending (Some (entries ! n)) (Suc n) packets) = rest"
      by (auto simp: item_at_def split: if_splits sum.splits option.splits)
    have "sorted (map (\<lambda>i. entries ! i) [n..<n + Suc (length rest)])"
      using Cons.IH [OF rest]
      by (cases rest) (auto simp: upt_conv_Cons simp del: upt_Suc)
    with Cons.IH [OF rest] i prev \<open>out = saved # rest\<close> show ?thesis
      by (simp del: upt_Suc)
  qed simp
qed auto

lemma packet_walk_indexes:
  assumes "\<And>i c p x. decode i c p = Inr x \<Longrightarrow> g x = i"
  shows "map g (fst (packet_walk decode entries ending previous n packets)) =
    [n..<n + length (fst (packet_walk decode entries ending previous n packets))]"
proof (induction packets arbitrary: previous n)
  case (Cons packet packets)
  then show ?case
    by (auto simp: upt_conv_Cons assms simp del: upt_Suc split: sum.splits)
qed simp

lemma packet_walk_complete:
  assumes "packet_walk decode entries ending previous n packets = (out, None)"
  shows "length out = length packets \<and> ending = None"
  using assms
  by (induction packets arbitrary: previous n out)
    (force split: if_splits sum.splits option.splits simp: yield_then_def prod_eq_iff)+

section \<open>A decoder for concrete captures\<close>

text \<open>
  The fields of an IPv4 and a UDP header as their standards lay them out, and the Internet
  checksum: an instance of the parameter for the concrete runs.
\<close>

fun sum16 :: "bytes \<Rightarrow> int" where
  "sum16 [] = 0"
| "sum16 [a] = bval a * 256"
| "sum16 (a # b # bs) = bval a * 256 + bval b + sum16 bs"

definition internet_checksum :: "bytes \<Rightarrow> int" where
  "internet_checksum bs =
     (let s = sum16 bs; t = s mod 65536 + s div 65536 in 65535 - (t mod 65536 + t div 65536))"

definition ipv4_fields :: "bytes \<Rightarrow> dpkt_ip option" where
  "ipv4_fields n =
     (if length n < 20 then None
      else Some \<lparr>ip_v = bval (n ! 0) div 16, ip_hl = nat (bval (n ! 0) mod 16),
        ip_len = nat (u16be n 2), ip_p = bval (n ! 9), ip_offset = u16be n 6 mod 8192,
        ip_mf = u16be n 6 div 8192 mod 2, ip_src = bslice n 12 16, ip_dst = bslice n 16 20\<rparr>)"

definition udp_fields_of :: "bytes \<Rightarrow> dpkt_udp option" where
  "udp_fields_of u =
     (if length u < 8 then None
      else Some \<lparr>udp_sport = u16be u 0, udp_dport = u16be u 2, udp_ulen = nat (u16be u 4),
        udp_sum = u16be u 6, udp_data = drop 8 u\<rparr>)"

definition packet_bodies :: "bytes \<Rightarrow> bytes gen" where
  "packet_bodies data =
     (case pcap_header (bslice data 0 24) of
        Inl e \<Rightarrow> ([], Some e)
      | Inr fmt \<Rightarrow> (map (\<lambda>e. bslice data (entry_start e + 16) (entry_stop e)) (fst (pcap_walk fmt data 24)),
          snd (pcap_walk fmt data 24)))"

definition standard_decoder :: dpkt where
  "standard_decoder = \<lparr>dk_version = ''1.9.8'', dk_reader = packet_bodies, dk_ip = ipv4_fields,
     dk_udp = udp_fields_of, dk_in_cksum = internet_checksum\<rparr>"

lemmas packet_eval = packet_bodies_def standard_decoder_def ipv4_fields_def udp_fields_of_def
  internet_checksum_def packet_ipv4_def ethernet_ipv4_def item_at_def u16be_def be_int_def bslice_def
  Let_def bval_def

end
