(* ===== verification/Icmp.thy ===== *)
theory Icmp
  imports Datagrams "HOL-Library.Multiset" "HOL-Library.Product_Lexorder"
begin

text \<open>
  \<^verbatim>\<open>convert_icmp_echo\<close> of \<^verbatim>\<open>scripts/convert_imc_sensors.py\<close>: saved echo
  requests are held until the reply on the same key arrives, a key seen twice is poisoned for the
  rest of the capture, and every selected packet ends in exactly one row.
\<close>

section \<open>State and rows\<close>

definition MAX_OUTSTANDING :: nat where "MAX_OUTSTANDING = 65536"

type_synonym live_echo = "saved_echo \<times> echo_fields"
type_synonym echo_key = "string \<times> string \<times> int \<times> int"

datatype pair_status = Paired | Ambiguous | NoReply | NoRequest | Mismatch

fun status_text :: "pair_status \<Rightarrow> string" where
  "status_text Paired = ''PAIRED''"
| "status_text Ambiguous = ''AMBIGUOUS_DUPLICATE_KEY''"
| "status_text NoReply = ''NO_REPLY_IN_CAPTURE''"
| "status_text NoRequest = ''REPLY_WITHOUT_REQUEST_IN_CAPTURE''"
| "status_text Mismatch = ''RETURNED_DATA_MISMATCH''"

text \<open>What \<^verbatim>\<open>emit\<close> is called with; its row is built from this.\<close>

record exchange =
  ex_status :: pair_status
  ex_request :: "live_echo option"
  ex_reply :: "live_echo option"
  ex_rtt :: "int option"

record icmp_state =
  ic_selected :: int
  ic_unselected :: int
  ic_paired :: int
  ic_unmatched :: int
  ic_ambiguous :: int
  ic_without_request :: int
  ic_mismatches :: int
  ic_outstanding :: "(echo_key \<times> live_echo list) list"
  ic_poisoned :: "echo_key set"
  ic_resolved :: "echo_key set"
  ic_accounted :: "nat set"
  ic_rows :: "exchange list"

definition icmp_init :: icmp_state where
  "icmp_init = \<lparr>ic_selected = 0, ic_unselected = 0, ic_paired = 0, ic_unmatched = 0,
     ic_ambiguous = 0, ic_without_request = 0, ic_mismatches = 0, ic_outstanding = [],
     ic_poisoned = {}, ic_resolved = {}, ic_accounted = {}, ic_rows = []\<rparr>"

definition request_key :: "live_echo \<Rightarrow> echo_key" where
  "request_key e = (ef_source_address (snd e), ef_destination_address (snd e),
     ef_identifier (snd e), ef_sequence (snd e))"

definition reply_key :: "live_echo \<Rightarrow> echo_key" where
  "reply_key e = (ef_destination_address (snd e), ef_source_address (snd e),
     ef_identifier (snd e), ef_sequence (snd e))"

definition ex_parts :: "exchange \<Rightarrow> live_echo list" where
  "ex_parts x = (case ex_request x of None \<Rightarrow> [] | Some e \<Rightarrow> [e]) @
     (case ex_reply x of None \<Rightarrow> [] | Some e \<Rightarrow> [e])"

definition emit :: "pair_status \<Rightarrow> live_echo option \<Rightarrow> live_echo option \<Rightarrow> int option \<Rightarrow> icmp_state \<Rightarrow> icmp_state" where
  "emit status request reply rtt s =
     (let x = \<lparr>ex_status = status, ex_request = request, ex_reply = reply, ex_rtt = rtt\<rparr>
      in s\<lparr>ic_accounted := ic_accounted s \<union> set (map (se_index \<circ> fst) (ex_parts x)),
           ic_rows := ic_rows s @ [x]\<rparr>)"

definition exchange_row :: "string \<Rightarrow> exchange \<Rightarrow> row" where
  "exchange_row digest x =
     (let e = (case ex_request x of Some r \<Rightarrow> r | None \<Rightarrow> the (ex_reply x));
          index_cell = (\<lambda>p. case p of None \<Rightarrow> CStr '''' | Some q \<Rightarrow> CInt (int (se_index (fst q))));
          time_cell = (\<lambda>p. case p of None \<Rightarrow> CStr '''' | Some q \<Rightarrow> CInt (se_capture (fst q)))
      in [(''record_time_us'', CInt (se_capture (fst e))),
          (''icmp_pair_status'', CStr (status_text (ex_status x))),
          (''icmp_rtt_us'', case ex_rtt x of None \<Rightarrow> CStr '''' | Some t \<Rightarrow> CInt t),
          (''icmp_rtt_s'', case ex_rtt x of None \<Rightarrow> CStr '''' | Some t \<Rightarrow> CRatio t 1000000),
          (''icmp_source_ip'', CStr (ef_source_address (snd e))),
          (''icmp_destination_ip'', CStr (ef_destination_address (snd e))),
          (''icmp_identifier'', CInt (ef_identifier (snd e))),
          (''icmp_sequence'', CInt (ef_sequence (snd e))),
          (''icmp_request_packet_index'', index_cell (ex_request x)),
          (''icmp_reply_packet_index'', index_cell (ex_reply x)),
          (''icmp_request_capture_us'', time_cell (ex_request x)),
          (''icmp_reply_capture_us'', time_cell (ex_reply x)),
          (''icmp_payload_bytes'', CInt (int (length (ef_payload (snd e))))),
          (''icmp_payload_sha256'', CStr (sha256_ref (ef_payload (snd e)))),
          (''pcap_packet_index'', CInt (int (se_index (fst e)))),
          (''pcap_source_sha256'', CStr digest),
          (''pcap_clock_basis'', CStr ''CAPTURE_REPORTED_NOT_AUTHENTICATED''),
          (''icmp_rtt_basis'', CStr ''CAPTURE_LOCATION_ELAPSED_INCLUDING_REMOTE_PROCESSING'')])"

section \<open>The pairing loop\<close>

fun emit_ambiguous :: "live_echo list \<Rightarrow> icmp_state \<Rightarrow> icmp_state" where
  "emit_ambiguous [] s = s"
| "emit_ambiguous (e # es) s =
     emit_ambiguous es (emit Ambiguous (Some e) None None (s\<lparr>ic_ambiguous := ic_ambiguous s + 1\<rparr>))"

definition drop_key :: "'k \<Rightarrow> ('k \<times> 'v) list \<Rightarrow> ('k \<times> 'v) list" where
  "drop_key k d = filter (\<lambda>e. fst e \<noteq> k) d"

definition take_request :: "live_echo \<Rightarrow> icmp_state \<Rightarrow> icmp_state result" where
  "take_request e s =
     (let key = request_key e in
      if key \<in> ic_poisoned s
      then Inr (emit Ambiguous (Some e) None None (s\<lparr>ic_ambiguous := ic_ambiguous s + 1\<rparr>))
      else if key \<in> ic_resolved s then fail ''selected capture reuses an ICMP echo key''
      else case map_of (ic_outstanding s) key of
          Some held \<Rightarrow> Inr (emit_ambiguous (held @ [e])
            (s\<lparr>ic_poisoned := insert key (ic_poisoned s),
               ic_outstanding := drop_key key (ic_outstanding s)\<rparr>))
        | None \<Rightarrow>
            if length (ic_outstanding s) \<ge> MAX_OUTSTANDING
            then fail ''outstanding ICMP echo requests exceed bound''
            else Inr (s\<lparr>ic_outstanding := ic_outstanding s @ [(key, [e])]\<rparr>))"

definition take_reply :: "live_echo \<Rightarrow> icmp_state \<Rightarrow> icmp_state result" where
  "take_reply e s =
     (let key = reply_key e in
      if key \<in> ic_poisoned s
      then Inr (emit Ambiguous None (Some e) None (s\<lparr>ic_ambiguous := ic_ambiguous s + 1\<rparr>))
      else case map_of (ic_outstanding s) key of
          None \<Rightarrow> Inr (emit NoRequest None (Some e) None
            (s\<lparr>ic_without_request := ic_without_request s + 1\<rparr>))
        | Some held \<Rightarrow> rbind (item_at held 0) (\<lambda>request.
            let s1 = s\<lparr>ic_outstanding := drop_key key (ic_outstanding s)\<rparr> in
            if ef_payload (snd e) \<noteq> ef_payload (snd request)
            then Inr (emit Mismatch (Some request) (Some e) None
              (s1\<lparr>ic_poisoned := insert key (ic_poisoned s),
                  ic_mismatches := ic_mismatches s + 1\<rparr>))
            else Inr (emit Paired (Some request) (Some e)
              (Some (se_capture (fst e) - se_capture (fst request)))
              (s1\<lparr>ic_resolved := insert key (ic_resolved s), ic_paired := ic_paired s + 1\<rparr>))))"

definition take_echo :: "icmp_state \<Rightarrow> saved_echo \<Rightarrow> icmp_state result" where
  "take_echo s saved =
     (case se_echo saved of
        None \<Rightarrow> Inr (s\<lparr>ic_unselected := ic_unselected s + 1\<rparr>)
      | Some f \<Rightarrow>
          let s1 = s\<lparr>ic_selected := ic_selected s + 1\<rparr> in
          if ef_kind f = 8 then take_request (saved, f) s1 else take_reply (saved, f) s1)"

fun emit_unmatched :: "live_echo list \<Rightarrow> icmp_state \<Rightarrow> icmp_state" where
  "emit_unmatched [] s = s"
| "emit_unmatched (e # es) s =
     emit_unmatched es (emit NoReply (Some e) None None (s\<lparr>ic_unmatched := ic_unmatched s + 1\<rparr>))"

record icmp_report =
  ir_source_sha256 :: string
  ir_packets :: nat
  ir_linktype :: int
  ir_state :: icmp_state
  ir_decoded_records :: nat
  ir_accounted_selected_packets :: nat

definition exchange_order :: "exchange \<Rightarrow> int \<times> nat" where
  "exchange_order x =
     (let e = (case ex_request x of Some r \<Rightarrow> r | None \<Rightarrow> the (ex_reply x))
      in (se_capture (fst e), se_index (fst e)))"

text \<open>What follows the loop: the requests still held, the rows in capture order, the text.\<close>

definition icmp_finish :: "string \<Rightarrow> int \<Rightarrow> nat \<Rightarrow> icmp_state \<Rightarrow> (string \<times> icmp_report) result" where
  "icmp_finish digest linktype packets s =
     (let t = emit_unmatched (concat (map snd (ic_outstanding s))) s in
      if ic_rows t = [] then fail ''no selected ICMP echo observations''
      else let rows = map (exchange_row digest) (sort_key exchange_order (ic_rows t));
               cols = map fst (hd rows)
        in rbind (run_items (write_bounded cols) [] rows) (\<lambda>out.
           Inr (csv_text cols out,
                \<lparr>ir_source_sha256 = digest, ir_packets = packets, ir_linktype = linktype,
                 ir_state = t, ir_decoded_records = length out,
                 ir_accounted_selected_packets = card (ic_accounted t)\<rparr>)))"

definition convert_icmp_echo :: "dpkt \<Rightarrow> bytes \<Rightarrow> (string \<times> icmp_report) result" where
  "convert_icmp_echo dk data =
     rbind (read_pcap_records data) (\<lambda>(linktype, entries).
     rbind (run_gen take_echo icmp_init (iter_icmp_echoes dk data (Some (linktype, entries))))
       (icmp_finish (sha256_ref data) linktype (length entries)))"

section \<open>Invariants of the pairing loop\<close>

definition live_of :: "saved_echo list \<Rightarrow> live_echo list" where
  "live_of items = List.map_filter (\<lambda>s. map_option (Pair s) (se_echo s)) items"

definition is_request :: "live_echo \<Rightarrow> bool" where
  "is_request e \<longleftrightarrow> ef_kind (snd e) = 8"

definition requests_on :: "echo_key \<Rightarrow> live_echo list \<Rightarrow> live_echo list" where
  "requests_on k es = filter (\<lambda>e. is_request e \<and> request_key e = k) es"

definition status_count :: "pair_status \<Rightarrow> exchange list \<Rightarrow> int" where
  "status_count st xs = int (length (filter (\<lambda>x. ex_status x = st) xs))"

lemma live_of_simps [simp]:
  "live_of [] = []"
  "live_of (xs @ ys) = live_of xs @ live_of ys"
  "se_echo s = None \<Longrightarrow> live_of [s] = []"
  "se_echo s = Some f \<Longrightarrow> live_of [s] = [(s, f)]"
  by (simp_all add: live_of_def map_filter_def)

lemma requests_on_simps [simp]:
  "requests_on k [] = []"
  "requests_on k (xs @ ys) = requests_on k xs @ requests_on k ys"
  "requests_on k [e] = (if is_request e \<and> request_key e = k then [e] else [])"
  by (simp_all add: requests_on_def)

lemma status_count_simps [simp]:
  "status_count st [] = 0"
  "status_count st (xs @ ys) = status_count st xs + status_count st ys"
  "status_count st [x] = (if ex_status x = st then 1 else 0)"
  by (simp_all add: status_count_def)

lemma emit_simps [simp]:
  "ic_selected (emit st rq rp t s) = ic_selected s"
  "ic_unselected (emit st rq rp t s) = ic_unselected s"
  "ic_paired (emit st rq rp t s) = ic_paired s"
  "ic_unmatched (emit st rq rp t s) = ic_unmatched s"
  "ic_ambiguous (emit st rq rp t s) = ic_ambiguous s"
  "ic_without_request (emit st rq rp t s) = ic_without_request s"
  "ic_mismatches (emit st rq rp t s) = ic_mismatches s"
  "ic_outstanding (emit st rq rp t s) = ic_outstanding s"
  "ic_poisoned (emit st rq rp t s) = ic_poisoned s"
  "ic_resolved (emit st rq rp t s) = ic_resolved s"
  "ic_rows (emit st rq rp t s) = ic_rows s @
     [\<lparr>ex_status = st, ex_request = rq, ex_reply = rp, ex_rtt = t\<rparr>]"
  by (simp_all add: emit_def Let_def)

lemma ex_parts_simps [simp]:
  "ex_parts \<lparr>ex_status = st, ex_request = Some r, ex_reply = Some q, ex_rtt = t\<rparr> = [r, q]"
  "ex_parts \<lparr>ex_status = st, ex_request = Some r, ex_reply = None, ex_rtt = t\<rparr> = [r]"
  "ex_parts \<lparr>ex_status = st, ex_request = None, ex_reply = Some q, ex_rtt = t\<rparr> = [q]"
  by (simp_all add: ex_parts_def)

lemma emit_accounted [simp]:
  "ic_accounted (emit st rq rp t s) = ic_accounted s \<union> set (map (se_index \<circ> fst)
     (ex_parts \<lparr>ex_status = st, ex_request = rq, ex_reply = rp, ex_rtt = t\<rparr>))"
  by (simp add: emit_def Let_def)

text \<open>The loops over held requests.\<close>

lemma emit_ambiguous_fields [simp]:
  "ic_selected (emit_ambiguous es s) = ic_selected s"
  "ic_unselected (emit_ambiguous es s) = ic_unselected s"
  "ic_paired (emit_ambiguous es s) = ic_paired s"
  "ic_unmatched (emit_ambiguous es s) = ic_unmatched s"
  "ic_ambiguous (emit_ambiguous es s) = ic_ambiguous s + int (length es)"
  "ic_without_request (emit_ambiguous es s) = ic_without_request s"
  "ic_mismatches (emit_ambiguous es s) = ic_mismatches s"
  "ic_outstanding (emit_ambiguous es s) = ic_outstanding s"
  "ic_poisoned (emit_ambiguous es s) = ic_poisoned s"
  "ic_resolved (emit_ambiguous es s) = ic_resolved s"
  "ic_accounted (emit_ambiguous es s) = ic_accounted s \<union> set (map (se_index \<circ> fst) es)"
  "ic_rows (emit_ambiguous es s) = ic_rows s @
     map (\<lambda>e. \<lparr>ex_status = Ambiguous, ex_request = Some e, ex_reply = None, ex_rtt = None\<rparr>) es"
  by (induction es s rule: emit_ambiguous.induct) auto

lemma emit_unmatched_fields [simp]:
  "ic_selected (emit_unmatched es s) = ic_selected s"
  "ic_unselected (emit_unmatched es s) = ic_unselected s"
  "ic_paired (emit_unmatched es s) = ic_paired s"
  "ic_unmatched (emit_unmatched es s) = ic_unmatched s + int (length es)"
  "ic_ambiguous (emit_unmatched es s) = ic_ambiguous s"
  "ic_without_request (emit_unmatched es s) = ic_without_request s"
  "ic_mismatches (emit_unmatched es s) = ic_mismatches s"
  "ic_outstanding (emit_unmatched es s) = ic_outstanding s"
  "ic_poisoned (emit_unmatched es s) = ic_poisoned s"
  "ic_resolved (emit_unmatched es s) = ic_resolved s"
  "ic_accounted (emit_unmatched es s) = ic_accounted s \<union> set (map (se_index \<circ> fst) es)"
  "ic_rows (emit_unmatched es s) = ic_rows s @
     map (\<lambda>e. \<lparr>ex_status = NoReply, ex_request = Some e, ex_reply = None, ex_rtt = None\<rparr>) es"
  by (induction es s rule: emit_unmatched.induct) auto

lemma drop_key_simps [simp]:
  "drop_key k [] = []"
  "drop_key k ((k', v) # d) = (if k' = k then drop_key k d else (k', v) # drop_key k d)"
  by (simp_all add: drop_key_def)

lemma fst_drop_key [simp]: "fst ` set (drop_key k d) = fst ` set d - {k}"
  by (auto simp: drop_key_def image_iff)

lemma drop_key_absent: "k \<notin> fst ` set d \<Longrightarrow> drop_key k d = d"
  by (induction d) auto

lemma distinct_drop_key: "distinct (map fst d) \<Longrightarrow> distinct (map fst (drop_key k d))"
  by (induction d) auto

lemma set_drop_key [simp]: "set (drop_key k d) = {e \<in> set d. fst e \<noteq> k}"
  by (auto simp: drop_key_def)

lemma mset_drop_key:
  "distinct (map fst d) \<Longrightarrow> map_of d k = Some h \<Longrightarrow>
    mset (concat (map snd d)) = mset h + mset (concat (map snd (drop_key k d)))"
  by (induction d) (auto simp: drop_key_absent dest: map_of_SomeD)

lemma map_of_key: "map_of d k = Some v \<Longrightarrow> k \<in> fst ` set d"
  by (force dest: map_of_SomeD)

text \<open>
  What is known of the keys, over any type of keys: a key that awaits a reply holds the requests
  made on it; a key is in at most one of the states awaiting, poisoned and resolved; and a key
  that is not poisoned has been requested once when it is awaiting or resolved, and never
  otherwise.
\<close>

definition table_inv ::
  "('k \<times> 'r list) list \<Rightarrow> 'k set \<Rightarrow> 'k set \<Rightarrow> ('k \<Rightarrow> 'r list) \<Rightarrow> bool" where
  "table_inv waiting poisoned resolved reqs \<longleftrightarrow>
     distinct (map fst waiting) \<and> (\<forall>e \<in> set waiting. snd e = reqs (fst e)) \<and>
     fst ` set waiting \<inter> poisoned = {} \<and> fst ` set waiting \<inter> resolved = {} \<and>
     poisoned \<inter> resolved = {} \<and>
     (\<forall>k. k \<notin> poisoned \<longrightarrow>
        length (reqs k) = (if k \<in> resolved \<or> k \<in> fst ` set waiting then 1 else 0))"

lemma table_init: "table_inv [] {} {} (\<lambda>k. [])"
  by (simp add: table_inv_def)

lemma table_known:
  assumes "table_inv d p r q" and "k \<in> p"
  shows "table_inv d p r (q(k := x))"
  using assms unfolding table_inv_def by (intro conjI ballI allI impI) auto

lemma table_new:
  assumes "table_inv d p r q" and "k \<notin> p" "k \<notin> r" "map_of d k = None"
  shows "table_inv (d @ [(k, [e])]) p r (q(k := q k @ [e]))"
  using assms unfolding table_inv_def map_of_eq_None_iff
  by (intro conjI ballI allI impI) auto

lemma table_poison:
  assumes "table_inv d p r q" and "map_of d k = Some h"
  shows "table_inv (drop_key k d) (insert k p) r (q(k := x))"
  using assms map_of_key [OF assms(2)] unfolding table_inv_def
  by (intro conjI ballI allI impI) (auto simp: distinct_drop_key)

lemma table_resolve:
  assumes "table_inv d p r q" and "map_of d k = Some h"
  shows "table_inv (drop_key k d) p (insert k r) q"
  using assms map_of_key [OF assms(2)] unfolding table_inv_def
  by (intro conjI ballI allI impI) (auto simp: distinct_drop_key)

lemma table_held:
  assumes "table_inv d p r q" and "map_of d k = Some h"
  shows "\<exists>e. h = [e] \<and> q k = [e] \<and> k \<notin> p"
proof -
  note k = map_of_key [OF assms(2)]
  have h: "h = q k" "k \<notin> p"
    using assms(1) k map_of_SomeD [OF assms(2)] unfolding table_inv_def by auto
  moreover have "length (q k) = 1" using assms(1) k h(2) unfolding table_inv_def by simp
  ultimately show ?thesis by (cases "q k") auto
qed

lemmas table_poison_same = table_poison [where x = "q k" and q = q and k = k for q k, unfolded fun_upd_triv]

lemma table_resolved:
  assumes "table_inv d p r q" and "k \<in> r"
  shows "k \<notin> p" "length (q k) = 1"
  using assms by (auto simp: table_inv_def)

definition key_inv :: "saved_echo list \<Rightarrow> icmp_state \<Rightarrow> bool" where
  "key_inv items s \<longleftrightarrow> table_inv (ic_outstanding s) (ic_poisoned s) (ic_resolved s)
     (\<lambda>k. requests_on k (live_of items))"

lemma requests_request:
  "is_request e \<Longrightarrow> (\<lambda>k. requests_on k (es @ [e])) =
     (\<lambda>k. requests_on k es)(request_key e := requests_on (request_key e) es @ [e])"
  by auto

lemma requests_reply: "\<not> is_request e \<Longrightarrow> requests_on k (es @ [e]) = requests_on k es"
  by simp

lemma take_request_keys:
  assumes "key_inv items s" and "take_request (x, f) s = Inr s'" and "is_request (x, f)"
    and "se_echo x = Some f"
  shows "key_inv (items @ [x]) s'"
proof -
  have q: "(\<lambda>k. requests_on k (live_of (items @ [x]))) = (\<lambda>k. requests_on k (live_of items))
      (request_key (x, f) := requests_on (request_key (x, f)) (live_of items) @ [(x, f)])"
    using requests_request [OF assms(3), of "live_of items"] assms(4) by simp
  show ?thesis
    using assms(1,2) unfolding key_inv_def q take_request_def Let_def
    by (auto simp del: fun_upd_apply split: if_splits option.splits
        intro: table_known table_new table_poison)
qed

lemma take_reply_keys:
  assumes "key_inv items s" and "take_reply (x, f) s = Inr s'" and "\<not> is_request (x, f)"
    and "se_echo x = Some f"
  shows "key_inv (items @ [x]) s'"
proof -
  have q: "(\<lambda>k. requests_on k (live_of (items @ [x]))) = (\<lambda>k. requests_on k (live_of items))"
    using requests_reply [OF assms(3), of _ "live_of items"] assms(4) by simp
  show ?thesis
    using assms(1,2) unfolding key_inv_def q take_reply_def Let_def
    by (auto simp: result_simps split: if_splits option.splits intro: table_resolve table_poison_same)
qed

lemma key_inv_step:
  assumes "key_inv items s" and "take_echo s x = Inr s'"
  shows "key_inv (items @ [x]) s'"
proof (cases "se_echo x")
  case None
  with assms show ?thesis by (auto simp: take_echo_def key_inv_def)
next
  case (Some f)
  have "key_inv items (s\<lparr>ic_selected := ic_selected s + 1\<rparr>)"
    using assms(1) by (simp add: key_inv_def)
  from take_request_keys [OF this _ _ Some] take_reply_keys [OF this _ _ Some] assms(2) Some
  show ?thesis by (auto simp: take_echo_def is_request_def Let_def split: if_splits)
qed

text \<open>Every selected packet is in a row or still awaits its reply, once.\<close>

definition accounted_ok :: "icmp_state \<Rightarrow> bool" where
  "accounted_ok s \<longleftrightarrow>
     ic_accounted s = set (map (se_index \<circ> fst) (concat (map ex_parts (ic_rows s))))"

lemma accounted_emit [simp]: "accounted_ok s \<Longrightarrow> accounted_ok (emit st rq rp t s)"
  by (simp add: accounted_ok_def)

lemma accounted_fields:
  "ic_accounted s = ic_accounted s' \<Longrightarrow> ic_rows s = ic_rows s' \<Longrightarrow> accounted_ok s = accounted_ok s'"
  by (simp add: accounted_ok_def)

lemma accounted_ambiguous [simp]: "accounted_ok s \<Longrightarrow> accounted_ok (emit_ambiguous es s)"
proof (induction es s rule: emit_ambiguous.induct)
  case (2 e es s)
  have "accounted_ok (s\<lparr>ic_ambiguous := ic_ambiguous s + 1\<rparr>)"
    using 2 by (simp add: accounted_ok_def)
  with 2 show ?case by simp
qed simp

lemma accounted_unmatched [simp]: "accounted_ok s \<Longrightarrow> accounted_ok (emit_unmatched es s)"
proof (induction es s rule: emit_unmatched.induct)
  case (2 e es s)
  have "accounted_ok (s\<lparr>ic_unmatched := ic_unmatched s + 1\<rparr>)"
    using 2 by (simp add: accounted_ok_def)
  with 2 show ?case by simp
qed simp

lemma accounted_take:
  assumes "take_echo s x = Inr s'" and "accounted_ok s"
  shows "accounted_ok s'"
proof -
  have same: "accounted_ok s" if "ic_accounted s = ic_accounted u" "ic_rows s = ic_rows u" "accounted_ok u"
    for s u using accounted_fields that by blast
  from assms show ?thesis
    unfolding take_echo_def take_request_def take_reply_def Let_def
    by (auto simp: result_simps split: option.splits if_splits
        intro!: accounted_emit accounted_ambiguous intro: same [of _ s])
qed

definition parts_inv :: "saved_echo list \<Rightarrow> icmp_state \<Rightarrow> bool" where
  "parts_inv items s \<longleftrightarrow>
     mset (concat (map ex_parts (ic_rows s)) @ concat (map snd (ic_outstanding s)))
       = mset (live_of items) \<and>
     ic_selected s = int (length (live_of items)) \<and>
     ic_selected s + ic_unselected s = int (length items)"

lemma concat_single_parts [simp]:
  "concat (map (ex_parts \<circ> (\<lambda>e. \<lparr>ex_status = st, ex_request = Some e, ex_reply = None, ex_rtt = t\<rparr>)) es) = es"
  by (induction es) auto

lemma key_inv_held:
  assumes "key_inv items s" and "map_of (ic_outstanding s) k = Some h"
  shows "\<exists>e. h = [e] \<and> mset (concat (map snd (ic_outstanding s)))
      = add_mset e (mset (concat (map snd (drop_key k (ic_outstanding s)))))
      \<and> is_request e \<and> request_key e = k \<and> e \<in> set (live_of items)"
proof -
  from assms have t: "table_inv (ic_outstanding s) (ic_poisoned s) (ic_resolved s)
     (\<lambda>k. requests_on k (live_of items))" by (simp add: key_inv_def)
  from table_held [OF t assms(2)] obtain e where e: "h = [e]" "requests_on k (live_of items) = [e]" by blast
  have "e \<in> set (requests_on k (live_of items))" using e by simp
  moreover have "distinct (map fst (ic_outstanding s))" using t by (simp add: table_inv_def)
  from mset_drop_key [OF this assms(2)] e have "mset (concat (map snd (ic_outstanding s)))
      = add_mset e (mset (concat (map snd (drop_key k (ic_outstanding s)))))" by simp
  ultimately show ?thesis using e by (auto simp: requests_on_def)
qed

lemma take_request_parts:
  assumes "parts_inv items s" and "key_inv items s" and "se_echo x = Some f"
    and "take_request (x, f) (s\<lparr>ic_selected := ic_selected s + 1\<rparr>) = Inr s'"
  shows "parts_inv (items @ [x]) s'"
  using assms key_inv_held [OF assms(2), of "request_key (x, f)"]
  by (auto simp: parts_inv_def take_request_def Let_def split: if_splits option.splits)

lemma take_reply_parts:
  assumes "parts_inv items s" and "key_inv items s" and "se_echo x = Some f"
    and "take_reply (x, f) (s\<lparr>ic_selected := ic_selected s + 1\<rparr>) = Inr s'"
  shows "parts_inv (items @ [x]) s'"
  using assms key_inv_held [OF assms(2), of "reply_key (x, f)"]
  by (auto simp: parts_inv_def take_reply_def Let_def result_simps split: if_splits option.splits)

lemma parts_inv_step:
  assumes "parts_inv items s" and "key_inv items s" and "take_echo s x = Inr s'"
  shows "parts_inv (items @ [x]) s'"
proof (cases "se_echo x")
  case None
  with assms show ?thesis by (auto simp: take_echo_def parts_inv_def)
next
  case (Some f)
  from take_request_parts [OF assms(1,2) Some] take_reply_parts [OF assms(1,2) Some] assms(3) Some
  show ?thesis by (auto simp: take_echo_def Let_def split: if_splits)
qed

text \<open>The counters are the numbers of rows of each status.\<close>

definition count_inv :: "icmp_state \<Rightarrow> bool" where
  "count_inv s \<longleftrightarrow>
     ic_paired s = status_count Paired (ic_rows s) \<and>
     ic_unmatched s = status_count NoReply (ic_rows s) \<and>
     ic_ambiguous s = status_count Ambiguous (ic_rows s) \<and>
     ic_without_request s = status_count NoRequest (ic_rows s) \<and>
     ic_mismatches s = status_count Mismatch (ic_rows s) \<and>
     (\<forall>x \<in> set (ic_rows s). length (ex_parts x) =
        (if ex_status x = Paired \<or> ex_status x = Mismatch then 2 else 1))"

lemma status_count_const:
  "status_count st (map (\<lambda>e. \<lparr>ex_status = st', ex_request = Some e, ex_reply = None, ex_rtt = None\<rparr>) es)
    = (if st' = st then int (length es) else 0)"
  by (simp add: status_count_def filter_map comp_def)

lemma count_inv_ambiguous:
  "count_inv s \<Longrightarrow> count_inv (emit_ambiguous es s)"
  by (auto simp: count_inv_def status_count_const)

lemma count_inv_unmatched:
  "count_inv s \<Longrightarrow> count_inv (emit_unmatched es s)"
  by (auto simp: count_inv_def status_count_const)

lemma count_inv_step:
  assumes "count_inv s" and "take_echo s x = Inr s'"
  shows "count_inv s'"
proof -
  have fields: "count_inv (u\<lparr>ic_poisoned := p, ic_outstanding := d\<rparr>)" if "count_inv u" for u p d
    using that by (simp add: count_inv_def)
  have "count_inv (s\<lparr>ic_selected := n\<rparr>)" for n using assms(1) by (simp add: count_inv_def)
  note fields [OF this]
  then show ?thesis
    using assms unfolding take_echo_def take_request_def take_reply_def Let_def
    apply (auto simp: result_simps split: option.splits if_splits intro!: count_inv_ambiguous)
    apply (simp_all add: count_inv_def)
    done
qed

lemma parts_count:
  assumes "count_inv s"
  shows "int (length (concat (map ex_parts (ic_rows s)))) =
    2 * ic_paired s + 2 * ic_mismatches s + ic_unmatched s + ic_ambiguous s + ic_without_request s"
proof -
  have "int (length (concat (map ex_parts xs))) = 2 * status_count Paired xs + 2 * status_count Mismatch xs
      + status_count NoReply xs + status_count Ambiguous xs + status_count NoRequest xs"
    if "\<forall>x \<in> set xs. length (ex_parts x) =
        (if ex_status x = Paired \<or> ex_status x = Mismatch then 2 else 1)" for xs
    using that
  proof (induction xs)
    case (Cons x xs)
    then show ?case using status_count_simps(2) [of _ "[x]" xs] by (cases "ex_status x") auto
  qed simp
  with assms show ?thesis by (simp add: count_inv_def)
qed

text \<open>A paired row joins a request and a later reply on the same key.\<close>

definition pair_ok :: "icmp_state \<Rightarrow> exchange \<Rightarrow> bool" where
  "pair_ok s x \<longleftrightarrow> (case ex_status x of
     Paired \<Rightarrow> (\<exists>r q. ex_request x = Some r \<and> ex_reply x = Some q \<and>
        ex_rtt x = Some (se_capture (fst q) - se_capture (fst r)) \<and>
        is_request r \<and> \<not> is_request q \<and> reply_key q = request_key r \<and>
        ef_payload (snd q) = ef_payload (snd r) \<and> se_index (fst r) < se_index (fst q) \<and>
        request_key r \<in> ic_resolved s)
   | _ \<Rightarrow> ex_rtt x = None)"

lemma pair_ok_mono: "pair_ok s x \<Longrightarrow> ic_resolved s \<subseteq> ic_resolved s' \<Longrightarrow> pair_ok s' x"
  by (auto simp: pair_ok_def split: pair_status.splits)

lemma live_of_member: "e \<in> set (live_of items) \<Longrightarrow> fst e \<in> set items"
  by (auto simp: live_of_def map_filter_def)

lemma take_request_rows:
  assumes "take_request e s = Inr s'"
  shows "ic_resolved s' = ic_resolved s \<and>
    (\<exists>ys. ic_rows s' = ic_rows s @ ys \<and> (\<forall>y \<in> set ys. ex_status y = Ambiguous \<and> ex_rtt y = None))"
  using assms unfolding take_request_def Let_def by (auto split: option.splits if_splits)

lemma take_reply_rows:
  assumes "take_reply e s = Inr s'"
  shows "(\<exists>y. ic_rows s' = ic_rows s @ [y] \<and> ex_status y \<noteq> Paired \<and> ex_rtt y = None \<and>
      ic_resolved s' = ic_resolved s) \<or>
    (\<exists>held r. map_of (ic_outstanding s) (reply_key e) = Some held \<and> item_at held 0 = Inr r \<and>
      ef_payload (snd e) = ef_payload (snd r) \<and>
      ic_rows s' = ic_rows s @ [\<lparr>ex_status = Paired, ex_request = Some r, ex_reply = Some e,
        ex_rtt = Some (se_capture (fst e) - se_capture (fst r))\<rparr>] \<and>
      ic_resolved s' = insert (reply_key e) (ic_resolved s))"
proof (cases "reply_key e \<in> ic_poisoned s \<or> map_of (ic_outstanding s) (reply_key e) = None")
  case True
  with assms show ?thesis unfolding take_reply_def Let_def by (auto split: if_splits)
next
  case False
  then obtain held where h: "map_of (ic_outstanding s) (reply_key e) = Some held" by auto
  with False assms obtain r where r: "item_at held 0 = Inr r"
    unfolding take_reply_def Let_def by (cases "item_at held 0") auto
  show ?thesis
  proof (cases "ef_payload (snd e) = ef_payload (snd r)")
    case True
    with False assms h r show ?thesis unfolding take_reply_def Let_def
      by (intro disjI2 exI [of _ held] exI [of _ r]) auto
  next
    case False
    with \<open>\<not> (_ \<or> _)\<close> assms h r show ?thesis unfolding take_reply_def Let_def by auto
  qed
qed

lemma pair_ok_unpaired:
  "ex_status y \<noteq> Paired \<Longrightarrow> ex_rtt y = None \<Longrightarrow> pair_ok s y"
  by (simp add: pair_ok_def split: pair_status.splits)

lemma pair_ok_step:
  assumes "\<forall>y \<in> set (ic_rows s). pair_ok s y" and "key_inv items s" and "take_echo s x = Inr s'"
    and later: "\<forall>d \<in> set items. se_index d < se_index x"
  shows "\<forall>y \<in> set (ic_rows s'). pair_ok s' y"
proof -
  have rows: "\<forall>y \<in> set (ic_rows s). pair_ok u y" if "ic_resolved s \<subseteq> ic_resolved u" for u
    using assms(1) pair_ok_mono that by blast
  show ?thesis
  proof (cases "se_echo x")
    case None
    with assms(3) rows [of s'] show ?thesis by (auto simp: take_echo_def)
  next
    case (Some f)
    let ?e = "(x, f)" and ?s1 = "s\<lparr>ic_selected := ic_selected s + 1\<rparr>"
    show ?thesis
    proof (cases "is_request ?e")
      case True
      with assms(3) Some have "take_request ?e ?s1 = Inr s'"
        by (simp add: take_echo_def is_request_def)
      from take_request_rows [OF this] rows [of s'] show ?thesis
        using pair_ok_unpaired [where s = s'] by (elim conjE exE) force
    next
      case False
      with assms(3) Some have "take_reply ?e ?s1 = Inr s'"
        by (simp add: take_echo_def is_request_def)
      from take_reply_rows [OF this] show ?thesis
      proof (elim disjE exE conjE)
        fix y assume "ic_rows s' = ic_rows ?s1 @ [y]" "ex_status y \<noteq> Paired" "ex_rtt y = None"
          "ic_resolved s' = ic_resolved ?s1"
        with rows [of s'] show ?thesis by (auto intro: pair_ok_unpaired)
      next
        fix held r
        assume h: "map_of (ic_outstanding ?s1) (reply_key ?e) = Some held" "item_at held 0 = Inr r"
          and pl: "ef_payload (snd ?e) = ef_payload (snd r)"
          and rs: "ic_rows s' = ic_rows ?s1 @ [\<lparr>ex_status = Paired, ex_request = Some r,
            ex_reply = Some ?e, ex_rtt = Some (se_capture (fst ?e) - se_capture (fst r))\<rparr>]"
          and res: "ic_resolved s' = insert (reply_key ?e) (ic_resolved ?s1)"
        from h key_inv_held [OF assms(2), of "reply_key ?e"]
        have r: "is_request r" "request_key r = reply_key ?e" "r \<in> set (live_of items)"
          by (auto simp: item_at_def)
        with later live_of_member [of r items] have "se_index (fst r) < se_index x" by blast
        with r False pl res rs rows [of s'] show ?thesis
          by (auto simp: pair_ok_def)
      qed
    qed
  qed
qed

section \<open>The pairing as a whole\<close>

lemma iter_echo_indexes:
  assumes "iter_icmp_echoes dk data records = (items, None)"
  shows "map se_index items = [0..<length items]"
proof -
  from assms obtain lt entries where w: "packet_walk (save_echo dk lt) entries (snd (dk_reader dk data))
      None 0 (fst (dk_reader dk data)) = (items, None)"
    by (auto simp: iter_icmp_echoes_def split: if_splits sum.splits prod.splits)
  have "save_echo dk lt i c p = Inr x \<Longrightarrow> se_index x = i" for i c p x
    by (auto simp: save_echo_def result_simps)
  from packet_walk_indexes [of "save_echo dk lt" se_index entries "snd (dk_reader dk data)" None 0
      "fst (dk_reader dk data)", OF this] show ?thesis by (simp add: w)
qed

text \<open>All invariants together, after the packets \<open>items\<close>.\<close>

definition icmp_inv :: "saved_echo list \<Rightarrow> icmp_state \<Rightarrow> bool" where
  "icmp_inv items s \<longleftrightarrow> key_inv items s \<and> parts_inv items s \<and> count_inv s \<and> accounted_ok s \<and>
     (\<forall>y \<in> set (ic_rows s). pair_ok s y)"

lemma icmp_inv_init: "icmp_inv [] icmp_init"
  by (simp add: icmp_inv_def key_inv_def parts_inv_def count_inv_def accounted_ok_def icmp_init_def
      table_init)

lemma icmp_inv_step:
  assumes "icmp_inv items s" and "take_echo s x = Inr s'" and "\<forall>d \<in> set items. se_index d < se_index x"
  shows "icmp_inv (items @ [x]) s'"
proof -
  have inv: "key_inv items s" "parts_inv items s" "count_inv s" "accounted_ok s"
    "\<forall>y \<in> set (ic_rows s). pair_ok s y"
    using assms(1) by (simp_all add: icmp_inv_def)
  show ?thesis
    unfolding icmp_inv_def
    using key_inv_step [OF inv(1) assms(2)] parts_inv_step [OF inv(2,1) assms(2)]
      count_inv_step [OF inv(3) assms(2)] accounted_take [OF assms(2) inv(4)]
      pair_ok_step [OF inv(5,1) assms(2,3)] by simp
qed

lemma icmp_inv_run:
  assumes "run_items take_echo icmp_init items = Inr s" and "map se_index items = [0..<length items]"
  shows "icmp_inv items s"
proof (rule run_items_prefix [where I = icmp_inv, OF assms(1) icmp_inv_init])
  fix ys s x zs s'
  assume eq: "items = ys @ x # zs" and inv: "icmp_inv ys s" and step: "take_echo s x = Inr s'"
  have "sorted_wrt (<) (map se_index items)" using assms(2) by simp
  with eq have "\<forall>d \<in> set ys. se_index d < se_index x" by (auto simp: sorted_wrt_append)
  with icmp_inv_step [OF inv step] show "icmp_inv (ys @ [x]) s'" by blast
qed

lemma distinct_live:
  "map se_index items = [0..<length items] \<Longrightarrow> distinct (map (se_index \<circ> fst) (live_of items))"
proof -
  assume "map se_index items = [0..<length items]"
  then have d: "distinct (map se_index items)" by simp
  have sub: "set (map (se_index \<circ> fst) (live_of xs)) \<subseteq> set (map se_index xs)" for xs
    using live_of_member [of _ xs] by auto
  from d show ?thesis
  proof (induction items)
    case (Cons x xs)
    have "live_of (x # xs) = live_of [x] @ live_of xs" using live_of_simps(2) [of "[x]" xs] by simp
    then show ?case using Cons sub [of xs] by (cases "se_echo x") auto
  qed simp
qed

definition sorted_rows :: "icmp_state \<Rightarrow> exchange list" where
  "sorted_rows t = sort_key exchange_order (ic_rows t)"

lemma icmp_finish_Inr:
  assumes "icmp_finish digest lt n s = Inr (out, rep)"
  shows "ir_state rep = emit_unmatched (concat (map snd (ic_outstanding s))) s"
    "ir_accounted_selected_packets rep = card (ic_accounted (ir_state rep))"
    "ir_decoded_records rep = length (ic_rows (ir_state rep))"
    "ir_source_sha256 rep = digest" "ir_packets rep = n"
    "out = csv_text (map fst (exchange_row digest (hd (sorted_rows (ir_state rep)))))
       (map (exchange_row digest) (sorted_rows (ir_state rep)))"
proof -
  define t where "t = emit_unmatched (concat (map snd (ic_outstanding s))) s"
  let ?rows = "map (exchange_row digest) (sorted_rows t)"
  from assms obtain out' where ne: "ic_rows t \<noteq> []"
    and wr: "run_items (write_bounded (map fst (hd ?rows))) [] ?rows = Inr out'"
    and res: "out = csv_text (map fst (hd ?rows)) out'"
      "rep = \<lparr>ir_source_sha256 = digest, ir_packets = n, ir_linktype = lt, ir_state = t,
        ir_decoded_records = length out', ir_accounted_selected_packets = card (ic_accounted t)\<rparr>"
    unfolding icmp_finish_def t_def [symmetric] sorted_rows_def Let_def
    by (elim if_failE rbind_InrE) simp
  have "out' = ?rows" using write_bounded_rows [OF wr] by simp
  moreover have "sorted_rows t \<noteq> []"
    using ne unfolding sorted_rows_def by (metis length_0_conv length_sort)
  ultimately show "ir_state rep = emit_unmatched (concat (map snd (ic_outstanding s))) s"
    "ir_accounted_selected_packets rep = card (ic_accounted (ir_state rep))"
    "ir_decoded_records rep = length (ic_rows (ir_state rep))"
    "ir_source_sha256 rep = digest" "ir_packets rep = n"
    "out = csv_text (map fst (exchange_row digest (hd (sorted_rows (ir_state rep)))))
       (map (exchange_row digest) (sorted_rows (ir_state rep)))"
    using res by (simp_all add: t_def sorted_rows_def hd_map)
qed

lemma convert_icmp_echo_Inr:
  assumes "convert_icmp_echo dk data = Inr (out, rep)"
  obtains linktype entries items s where
    "read_pcap_records data = Inr (linktype, entries)"
    "iter_icmp_echoes dk data (Some (linktype, entries)) = (items, None)"
    "icmp_inv items s" "map se_index items = [0..<length items]"
    "icmp_finish (sha256_ref data) linktype (length entries) s = Inr (out, rep)"
proof -
  from assms obtain linktype entries s where r: "read_pcap_records data = Inr (linktype, entries)"
    and run0: "run_gen take_echo icmp_init (iter_icmp_echoes dk data (Some (linktype, entries))) = Inr s"
    and fin: "icmp_finish (sha256_ref data) linktype (length entries) s = Inr (out, rep)"
    unfolding convert_icmp_echo_def by (elim rbind_pairE) (simp, elim rbind_InrE, blast)
  from run0 obtain items where it: "iter_icmp_echoes dk data (Some (linktype, entries)) = (items, None)"
    and run: "run_items take_echo icmp_init items = Inr s"
    by (rule run_gen_InrE)
  note idx = iter_echo_indexes [OF it]
  from that [OF r it icmp_inv_run [OF run idx] idx fin] show ?thesis .
qed

text \<open>C3. Conservation in the ICMP pairing: every selected echo packet of the capture ends in
  exactly one row, so the rows hold the selected packets and nothing else, no packet is held
  twice, and the counters of the report add up to the packets walked.\<close>

theorem icmp_every_echo_in_one_row:
  assumes "convert_icmp_echo dk data = Inr (out, rep)"
  shows "\<exists>records items. read_pcap_records data = Inr records \<and>
    iter_icmp_echoes dk data (Some records) = (items, None) \<and>
    mset (concat (map ex_parts (ic_rows (ir_state rep)))) = mset (live_of items) \<and>
    distinct (map (se_index \<circ> fst) (concat (map ex_parts (ic_rows (ir_state rep))))) \<and>
    ir_accounted_selected_packets rep = length (live_of items) \<and>
    ic_selected (ir_state rep) = int (length (live_of items)) \<and>
    ic_selected (ir_state rep) + ic_unselected (ir_state rep) = int (length items) \<and>
    ic_selected (ir_state rep) = 2 * ic_paired (ir_state rep) + 2 * ic_mismatches (ir_state rep)
      + ic_unmatched (ir_state rep) + ic_ambiguous (ir_state rep) + ic_without_request (ir_state rep)"
proof (rule convert_icmp_echo_Inr [OF assms])
  fix lt entries items s
  assume r: "read_pcap_records data = Inr (lt, entries)"
    and it: "iter_icmp_echoes dk data (Some (lt, entries)) = (items, None)"
    and inv: "icmp_inv items s" and idx: "map se_index items = [0..<length items]"
    and fin: "icmp_finish (sha256_ref data) lt (length entries) s = Inr (out, rep)"
  note t = icmp_finish_Inr(1) [OF fin] and acc = icmp_finish_Inr(2) [OF fin]
  let ?t = "ir_state rep" and ?parts = "concat (map ex_parts (ic_rows (ir_state rep)))"
  have m: "mset ?parts = mset (live_of items)"
    using inv by (simp add: icmp_inv_def parts_inv_def t)
  then have "mset (map (se_index \<circ> fst) ?parts) = mset (map (se_index \<circ> fst) (live_of items))"
    by simp
  then have d: "distinct (map (se_index \<circ> fst) ?parts)"
    using distinct_live [OF idx] by (metis mset_eq_imp_distinct_iff)
  have len: "length ?parts = length (live_of items)" using m by (metis size_mset)
  have ok: "accounted_ok ?t" "count_inv ?t"
    using inv by (simp_all add: icmp_inv_def t count_inv_unmatched)
  then have "card (ic_accounted ?t) = length (live_of items)"
    using distinct_card [OF d] len by (simp add: accounted_ok_def)
  moreover have "ic_selected ?t = int (length (live_of items))"
    "ic_selected ?t + ic_unselected ?t = int (length items)"
    using inv by (simp_all add: icmp_inv_def parts_inv_def t)
  ultimately show ?thesis
    using r it m d len parts_count [OF ok(2)] acc by (intro exI [of _ "(lt, entries)"] exI [of _ items]) auto
qed

text \<open>C4. Soundness of a pairing: a PAIRED row joins a request with a reply that came later in
  the capture on the same addresses, identifier and sequence and returned the same data; its
  elapsed time is the difference of the two capture clocks; and the request is the only one of
  the whole capture on that key, so the reply could not belong to another.\<close>

theorem icmp_paired_sound:
  assumes "convert_icmp_echo dk data = Inr (out, rep)"
    and "x \<in> set (ic_rows (ir_state rep))" and "ex_status x = Paired"
  shows "\<exists>records items r q. read_pcap_records data = Inr records \<and>
    iter_icmp_echoes dk data (Some records) = (items, None) \<and>
    ex_request x = Some r \<and> ex_reply x = Some q \<and> reply_key q = request_key r \<and>
    ef_payload (snd q) = ef_payload (snd r) \<and> se_index (fst r) < se_index (fst q) \<and>
    ex_rtt x = Some (se_capture (fst q) - se_capture (fst r)) \<and>
    requests_on (request_key r) (live_of items) = [r]"
proof (rule convert_icmp_echo_Inr [OF assms(1)])
  fix lt entries items s
  assume r: "read_pcap_records data = Inr (lt, entries)"
    and it: "iter_icmp_echoes dk data (Some (lt, entries)) = (items, None)"
    and inv: "icmp_inv items s" and fin: "icmp_finish (sha256_ref data) lt (length entries) s = Inr (out, rep)"
  note t = icmp_finish_Inr(1) [OF fin]
  from assms(2,3) t have x: "x \<in> set (ic_rows s)" by auto
  with inv have "pair_ok s x" by (simp add: icmp_inv_def)
  with assms(3) obtain rq rp where p: "ex_request x = Some rq" "ex_reply x = Some rp"
    "reply_key rp = request_key rq" "ef_payload (snd rp) = ef_payload (snd rq)"
    "se_index (fst rq) < se_index (fst rp)" "ex_rtt x = Some (se_capture (fst rp) - se_capture (fst rq))"
    and rs: "request_key rq \<in> ic_resolved s" "is_request rq"
    unfolding pair_ok_def by (simp only: pair_status.case) blast
  have "table_inv (ic_outstanding s) (ic_poisoned s) (ic_resolved s) (\<lambda>k. requests_on k (live_of items))"
    using inv by (simp add: icmp_inv_def key_inv_def)
  from table_resolved(2) [OF this rs(1)]
  have one: "length (requests_on (request_key rq) (live_of items)) = 1" .
  have "rq \<in> set (concat (map ex_parts (ic_rows s)))"
  proof -
    have "rq \<in> set (ex_parts x)" using p(1) by (simp add: ex_parts_def)
    with x show ?thesis unfolding set_concat set_map by (intro UN_I [of "ex_parts x"]) simp_all
  qed
  moreover have "set_mset (mset (concat (map ex_parts (ic_rows s)) @ concat (map snd (ic_outstanding s))))
      = set_mset (mset (live_of items))"
    using inv unfolding icmp_inv_def parts_inv_def by (simp only:)
  ultimately have "rq \<in> set (live_of items)" unfolding set_mset_mset by auto
  then have "rq \<in> set (requests_on (request_key rq) (live_of items))"
    using rs(2) by (simp add: requests_on_def)
  with one have "requests_on (request_key rq) (live_of items) = [rq]"
    by (cases "requests_on (request_key rq) (live_of items)") auto
  with r it p show ?thesis by blast
qed

section \<open>A request and its reply\<close>

definition echo_capture :: bytes where
  "echo_capture =
    [212, 195, 178, 161, 2, 0, 4, 0, 0, 0, 0, 0, 0, 0, 0, 0, 0, 0, 1, 0, 1, 0, 0, 0, 1, 0, 0, 0,
     5, 0, 0, 0, 44, 0, 0, 0, 44, 0, 0, 0, 2, 0, 0, 0, 0, 1, 2, 0, 0, 0, 0, 2, 8, 0, 69, 0, 0,
     30, 0, 0, 0, 0, 64, 1, 102, 221, 10, 0, 0, 1, 10, 0, 0, 2, 8, 0, 143, 142, 0, 7, 0, 1, 104,
     105, 1, 0, 0, 0, 137, 3, 0, 0, 44, 0, 0, 0, 44, 0, 0, 0, 2, 0, 0, 0, 0, 1, 2, 0, 0, 0, 0,
     2, 8, 0, 69, 0, 0, 30, 0, 0, 0, 0, 64, 1, 102, 221, 10, 0, 0, 2, 10, 0, 0, 1, 0, 0, 151,
     142, 0, 7, 0, 1, 104, 105]"

lemma echo_records: "read_pcap_records echo_capture = Inr (1, [1000005, 1000905])"
  unfolding echo_capture_def by (simp add: pcap_eval)

lemma echo_items: "\<exists>a b. iter_icmp_echoes standard_decoder echo_capture (Some (1, [1000005, 1000905])) =
  ([\<lparr>se_index = 0, se_capture = 1000005, se_frame = a, se_echo = Some \<lparr>ef_kind = 8, ef_identifier = 7,
      ef_sequence = 1, ef_payload = [104, 105], ef_source_address = ''10.0.0.1'',
      ef_destination_address = ''10.0.0.2''\<rparr>\<rparr>,
    \<lparr>se_index = 1, se_capture = 1000905, se_frame = b, se_echo = Some \<lparr>ef_kind = 0, ef_identifier = 7,
      ef_sequence = 1, ef_payload = [104, 105], ef_source_address = ''10.0.0.2'',
      ef_destination_address = ''10.0.0.1''\<rparr>\<rparr>], None)"
  unfolding echo_capture_def
  by (simp add: iter_icmp_echoes_def save_echo_def icmp_echo_def dotted_def packet_eval pcap_eval
      int_text_def nat_digits.simps char_of_def bit_0)

lemma echo_converts: "\<exists>out rep x. convert_icmp_echo standard_decoder echo_capture = Inr (out, rep) \<and>
    x \<in> set (ic_rows (ir_state rep)) \<and> ex_status x = Paired"
proof -
  obtain a b where items: "iter_icmp_echoes standard_decoder echo_capture (Some (1, [1000005, 1000905])) =
  ([\<lparr>se_index = 0, se_capture = 1000005, se_frame = a, se_echo = Some \<lparr>ef_kind = 8, ef_identifier = 7,
      ef_sequence = 1, ef_payload = [104, 105], ef_source_address = ''10.0.0.1'',
      ef_destination_address = ''10.0.0.2''\<rparr>\<rparr>,
    \<lparr>se_index = 1, se_capture = 1000905, se_frame = b, se_echo = Some \<lparr>ef_kind = 0, ef_identifier = 7,
      ef_sequence = 1, ef_payload = [104, 105], ef_source_address = ''10.0.0.2'',
      ef_destination_address = ''10.0.0.1''\<rparr>\<rparr>], None)"
    using echo_items by blast
  have rtt: "length (ratio_text 900 1000000) \<le> 20" by (simp add: ratio_eval)
  define x where "x = \<lparr>ex_status = Paired,
    ex_request = Some (\<lparr>se_index = 0, se_capture = 1000005, se_frame = a, se_echo = Some \<lparr>ef_kind = 8, ef_identifier = 7, ef_sequence = 1, ef_payload = [104, 105],
      ef_source_address = ''10.0.0.1'', ef_destination_address = ''10.0.0.2''\<rparr>\<rparr>, \<lparr>ef_kind = 8, ef_identifier = 7, ef_sequence = 1, ef_payload = [104, 105],
      ef_source_address = ''10.0.0.1'', ef_destination_address = ''10.0.0.2''\<rparr>),
    ex_reply = Some (\<lparr>se_index = 1, se_capture = 1000905, se_frame = b, se_echo = Some \<lparr>ef_kind = 0, ef_identifier = 7, ef_sequence = 1, ef_payload = [104, 105],
      ef_source_address = ''10.0.0.2'', ef_destination_address = ''10.0.0.1''\<rparr>\<rparr>, \<lparr>ef_kind = 0, ef_identifier = 7, ef_sequence = 1, ef_payload = [104, 105],
      ef_source_address = ''10.0.0.2'', ef_destination_address = ''10.0.0.1''\<rparr>), ex_rtt = Some 900\<rparr>"
  let ?r = "exchange_row (sha256_ref echo_capture) x"
  have "\<forall>kv \<in> set ?r. length (cell_text (snd kv)) \<le> 80"
    using rtt by (simp add: exchange_row_def x_def int_text_def nat_digits.simps Let_def)
  then have "length (csv_text (map fst ?r) [?r]) \<le> OUTPUT_LIMIT"
    by (intro order_trans [OF csv_text_cap [of _ 80]]) (simp_all add: exchange_row_def x_def OUTPUT_LIMIT_def)
  then have "run_items (write_bounded (map fst ?r)) [] [?r] = Inr [?r]"
    by (auto simp: write_bounded_def write_row_def)
  then show ?thesis
    unfolding convert_icmp_echo_def echo_records rbind_simps prod.case items run_gen_def
    by (simp add: take_echo_def take_request_def take_reply_def icmp_init_def request_key_def
        reply_key_def item_at_def MAX_OUTSTANDING_def emit_def ex_parts_def icmp_finish_def x_def)
qed

theorem icmp_every_echo_in_one_row_witness:
  "\<exists>out rep items. convert_icmp_echo standard_decoder echo_capture = Inr (out, rep) \<and>
    mset (concat (map ex_parts (ic_rows (ir_state rep)))) = mset (live_of items) \<and>
    ic_selected (ir_state rep) = int (length (live_of items))"
proof -
  obtain out rep where r: "convert_icmp_echo standard_decoder echo_capture = Inr (out, rep)"
    using echo_converts by blast
  from r icmp_every_echo_in_one_row [OF r] show ?thesis by blast
qed

theorem icmp_paired_sound_witness:
  "\<exists>(x :: exchange) r q. ex_status x = Paired \<and> ex_request x = Some r \<and> ex_reply x = Some q \<and>
    reply_key q = request_key r \<and> ex_rtt x = Some (se_capture (fst q) - se_capture (fst r))"
proof -
  obtain out rep x where r: "convert_icmp_echo standard_decoder echo_capture = Inr (out, rep)"
    "x \<in> set (ic_rows (ir_state rep))" "ex_status x = Paired"
    using echo_converts by blast
  from icmp_paired_sound [OF r] obtain rq q where "ex_request x = Some rq" "ex_reply x = Some q"
    "reply_key q = request_key rq" "ex_rtt x = Some (se_capture (fst q) - se_capture (fst rq))"
    by (elim exE conjE)
  with r(3) show ?thesis by blast
qed

end
