(* ===== verification/Tracking.thy ===== *)
theory Tracking
  imports Py_Base
begin

text \<open>
  A run of a step function over its inputs, and the arrivals that stay inside a forward and a
  backward window of the highest value so far.
\<close>

fun run_steps :: "('s \<Rightarrow> 'i \<Rightarrow> 's \<times> 'o) \<Rightarrow> 's \<Rightarrow> 'i list \<Rightarrow> 's \<times> 'o list" where
  "run_steps f s [] = (s, [])"
| "run_steps f s (i # is) =
     (let (s', e) = f s i; (s'', es) = run_steps f s' is in (s'', e # es))"

fun in_windows :: "int \<Rightarrow> int \<Rightarrow> int \<Rightarrow> int list \<Rightarrow> bool" where
  "in_windows F B h [] = True"
| "in_windows F B h (t # ts) \<longleftrightarrow> - B \<le> t - h \<and> t - h \<le> F \<and> in_windows F B (max h t) ts"

lemma run_steps_map:
  "run_steps (\<lambda>s i. (fst (f s i), g (snd (f s i)))) s is =
    (fst (run_steps f s is), map g (snd (run_steps f s is)))"
  by (induction "is" arbitrary: s) (auto simp: split_beta Let_def)

lemma run_steps_length [simp]: "length (snd (run_steps f s is)) = length is"
  by (induction "is" arbitrary: s) (auto simp: split_beta Let_def)

lemma run_steps_append:
  "run_steps f s (is @ js) =
    (let (t, os) = run_steps f s is; (u, ps) = run_steps f t js in (u, os @ ps))"
  by (induction "is" arbitrary: s) (auto simp: split_beta Let_def)

text \<open>An invariant of the state, the inputs and the outputs so far.\<close>

lemma run_steps_invariant:
  assumes "I [] [] s"
    and "\<And>is os t i. set is \<subseteq> A \<Longrightarrow> i \<in> A \<Longrightarrow> length os = length is \<Longrightarrow> I is os t \<Longrightarrow>
      I (is @ [i]) (os @ [snd (f t i)]) (fst (f t i))"
    and "set is \<subseteq> A"
  shows "I is (snd (run_steps f s is)) (fst (run_steps f s is))"
  using assms(3)
proof (induction "is" rule: rev_induct)
  case (snoc i "is")
  then have "I is (snd (run_steps f s is)) (fst (run_steps f s is))" by simp
  from assms(2) [OF _ _ _ this] snoc.prems show ?case
    by (simp add: run_steps_append split_beta Let_def)
qed (simp add: assms(1))

text \<open>
  The interface of the readers that extend a wrapping counter: a state holds a cycle count and
  the highest raw value seen, each arrival is classified by its modular distance from that
  value, and the extended value is the raw one plus the cycle it belongs to. The laws say what a
  step does with an arrival inside the forward or backward window; what the clients get is that
  the extended values are those of a true counter that never wraps, up to a constant, whatever
  the order of arrival inside the windows.
\<close>

lemma diff_mod:
  fixes a b M :: int
  assumes "0 \<le> a" "a < M" "0 \<le> b" "b < M"
  shows "(a - b) mod M = (if b \<le> a then a - b else a - b + M)"
proof (cases "b \<le> a")
  case False
  have "(a - b) mod M = (a - b + M) mod M" by simp
  also have "\<dots> = a - b + M" using assms False by (intro mod_pos_pos_trivial) auto
  finally show ?thesis using False by simp
qed (use assms in simp)

locale modular_tracker =
  fixes M F B :: int
    and step :: "'s \<Rightarrow> 'i \<Rightarrow> 's \<times> int option"
    and raw :: "'i \<Rightarrow> int"
    and ready :: "'s \<Rightarrow> bool"
    and cyc :: "'s \<Rightarrow> int"
    and top :: "'s \<Rightarrow> int"
  assumes window: "0 < M" "0 \<le> F" "0 \<le> B" "F + B < M"
    and ready_top: "ready s \<Longrightarrow> 0 \<le> top s \<and> top s < M \<and> M dvd cyc s"
    and step_same:
      "ready s \<Longrightarrow> raw i = top s \<Longrightarrow>
        ready (fst (step s i)) \<and> cyc (fst (step s i)) = cyc s \<and> top (fst (step s i)) = top s \<and>
        snd (step s i) = Some (cyc s + top s)"
    and step_forward:
      "ready s \<Longrightarrow> 0 \<le> raw i \<Longrightarrow> raw i < M \<Longrightarrow> 0 < (raw i - top s) mod M \<Longrightarrow> (raw i - top s) mod M \<le> F \<Longrightarrow>
        ready (fst (step s i)) \<and>
        cyc (fst (step s i)) = cyc s + (if raw i < top s then M else 0) \<and>
        top (fst (step s i)) = raw i \<and> snd (step s i) = Some (cyc (fst (step s i)) + raw i)"
    and step_late:
      "ready s \<Longrightarrow> 0 \<le> raw i \<Longrightarrow> raw i < M \<Longrightarrow> 0 < (top s - raw i) mod M \<Longrightarrow> (top s - raw i) mod M \<le> B \<Longrightarrow>
        ready (fst (step s i)) \<and> cyc (fst (step s i)) = cyc s \<and> top (fst (step s i)) = top s \<and>
        snd (step s i) =
          (let e = cyc s - (if raw i > top s then M else 0) + raw i in if e < 0 then None else Some e)"
begin

definition tracks :: "'s \<Rightarrow> int \<Rightarrow> int \<Rightarrow> bool" where
  "tracks s origin h \<longleftrightarrow> ready s \<and> M dvd origin \<and> cyc s + top s = h - origin"

text \<open>A value less than one modulus above a multiple of it is found from its residue.\<close>

lemma residue_above:
  assumes "M dvd c" "0 \<le> t0" "t0 < M" "0 < d" "d < M" "r = (c + t0 + d) mod M"
  shows "c + t0 + d = c + (if r < t0 then M else 0) + r" "(r - t0) mod M = d"
proof -
  have m: "r = (t0 + d) mod M" using assms(1,6) by (auto simp: dvd_def add.assoc)
  show "c + t0 + d = c + (if r < t0 then M else 0) + r"
  proof (cases "t0 + d < M")
    case True
    with m assms(2,4) have "r = t0 + d" by simp
    with assms(4) show ?thesis by simp
  next
    case False
    then have "(t0 + d) mod M = t0 + d - M"
      using assms(3,5) mod_pos_pos_trivial [of "t0 + d - M" M] by simp
    with m assms(5) show ?thesis by simp
  qed
  show "(r - t0) mod M = d"
    using assms(4,5) m by (simp add: mod_diff_left_eq)
qed

lemma residue_below:
  assumes "M dvd c" "0 \<le> t0" "t0 < M" "0 < d" "d < M" "r = (c + t0 - d) mod M"
  shows "c + t0 - d = c - (if r > t0 then M else 0) + r" "(t0 - r) mod M = d"
proof -
  have m: "r = (t0 - d) mod M" using assms(1,6) by (auto simp: dvd_def add_diff_eq [symmetric])
  show "c + t0 - d = c - (if r > t0 then M else 0) + r"
  proof (cases "d \<le> t0")
    case True
    with m assms(3,4) have "r = t0 - d" by simp
    with assms(4) show ?thesis by simp
  next
    case False
    then have "(t0 - d) mod M = t0 - d + M"
      using assms(2,5) mod_pos_pos_trivial [of "t0 - d + M" M] by simp
    with m assms(5) show ?thesis by simp
  qed
  show "(t0 - r) mod M = d"
    using assms(4,5) m by (simp add: mod_diff_right_eq)
qed

text \<open>One arrival of a true value inside the windows.\<close>

lemma track_step:
  assumes tr: "tracks s origin h" and i: "raw i = t mod M"
    and win: "- B \<le> t - h" "t - h \<le> F"
  shows "tracks (fst (step s i)) origin (max h t) \<and>
    snd (step s i) = (if t < h \<and> t < origin then None else Some (t - origin))"
proof -
  have s: "ready s" "M dvd origin" "cyc s + top s = h - origin" using tr by (auto simp: tracks_def)
  have top: "0 \<le> top s" "top s < M" "M dvd cyc s" using ready_top [OF s(1)] by auto
  have r: "0 \<le> raw i" "raw i < M" using i window by auto
  have om: "(t - origin) mod M = t mod M" using s(2) by (metis dvd_imp_mod_0 diff_zero mod_diff_right_eq)
  consider "t = h" | "h < t" | "t < h" by linarith
  then show ?thesis
  proof cases
    case 1
    have "raw i = (cyc s + top s) mod M" using i om s(3) 1 by simp
    then have "raw i = top s" using top by (auto simp: dvd_def)
    from step_same [OF s(1) this] show ?thesis using s 1 by (simp add: tracks_def)
  next
    case 2
    define d where "d = t - h"
    have d: "0 < d" "d < M" "d \<le> F" using 2 win window d_def by auto
    have "cyc s + top s + d = t - origin" using s(3) d_def by linarith
    then have "raw i = (cyc s + top s + d) mod M" using i om by simp
    note f = residue_above [OF top(3,1,2) d(1,2) this]
    from f(2) d have "0 < (raw i - top s) mod M" "(raw i - top s) mod M \<le> F" by auto
    from step_forward [OF s(1) r this] f(1) s 2 d_def show ?thesis by (auto simp: tracks_def max_def)
  next
    case 3
    define d where "d = h - t"
    have d: "0 < d" "d < M" "d \<le> B" using 3 win window d_def by auto
    have "cyc s + top s - d = t - origin" using s(3) d_def by linarith
    then have "raw i = (cyc s + top s - d) mod M" using i om by simp
    note f = residue_below [OF top(3,1,2) d(1,2) this]
    from f(2) d have "0 < (top s - raw i) mod M" "(top s - raw i) mod M \<le> B" by auto
    note l = step_late [OF s(1) r this]
    have e: "cyc s - (if raw i > top s then M else 0) + raw i = t - origin"
      using f(1) s(3) d_def by linarith
    show ?thesis using l s 3 unfolding tracks_def Let_def e by (auto simp: max_def)
  qed
qed

text \<open>A run of arrivals, each inside the windows of the highest true value so far.\<close>

lemma track_run:
  assumes "tracks s origin h" and "map raw xs = map (\<lambda>t. t mod M) ts" and "in_windows F B h ts"
    and "\<forall>t \<in> set ts. origin \<le> t"
  shows "tracks (fst (run_steps step s xs)) origin (foldl max h ts) \<and>
    snd (run_steps step s xs) = map (\<lambda>t. Some (t - origin)) ts"
  using assms
proof (induction xs arbitrary: s h ts)
  case (Cons i xs)
  then obtain t ts' where ts: "ts = t # ts'" "raw i = t mod M" "map raw xs = map (\<lambda>t. t mod M) ts'"
    by (cases ts) auto
  note st = track_step [OF Cons.prems(1) ts(2)]
  have "tracks (fst (step s i)) origin (max h t)" "snd (step s i) = Some (t - origin)"
    using st Cons.prems ts(1) by auto
  with Cons.IH [of "fst (step s i)" "max h t" ts'] Cons.prems ts show ?case
    by (auto simp: split_beta Let_def)
qed simp

end

text \<open>
  The interface of a bounded memory that evicts its oldest key: what is recalled is what was
  noted last under a key that is still held, and at most \<open>capacity\<close> keys are held.
\<close>

locale bounded_memory =
  fixes capacity :: nat
    and recall :: "'s \<Rightarrow> 'k \<Rightarrow> 'v option"
    and note_key :: "'s \<Rightarrow> 'k \<Rightarrow> 'v \<Rightarrow> 's"
    and held :: "'s \<Rightarrow> 'k list"
    and sound :: "'s \<Rightarrow> bool"
  assumes capacity_pos: "0 < capacity"
    and sound_held: "sound s \<Longrightarrow> distinct (held s) \<and> length (held s) \<le> capacity"
    and recall_held: "sound s \<Longrightarrow> recall s k \<noteq> None \<longleftrightarrow> k \<in> set (held s)"
    and note_sound: "sound s \<Longrightarrow> sound (note_key s k v)"
    and note_recall: "sound s \<Longrightarrow> recall (note_key s k v) k = Some v"
    and note_other: "sound s \<Longrightarrow> j \<noteq> k \<Longrightarrow> j \<in> set (held (note_key s k v)) \<Longrightarrow>
        recall (note_key s k v) j = recall s j"
    and note_held: "sound s \<Longrightarrow> held (note_key s k v) =
        (if k \<in> set (held s) then held s
         else if length (held s) < capacity then held s @ [k] else tl (held s) @ [k])"
begin

definition note_all :: "'s \<Rightarrow> ('k \<times> 'v) list \<Rightarrow> 's" where
  "note_all s kvs = foldl (\<lambda>s kv. note_key s (fst kv) (snd kv)) s kvs"

lemma note_all_simps [simp]:
  "note_all s [] = s"
  "note_all s (kv # kvs) = note_all (note_key s (fst kv) (snd kv)) kvs"
  by (simp_all add: note_all_def)

lemma note_all_sound: "sound s \<Longrightarrow> sound (note_all s kvs)"
  by (induction kvs arbitrary: s) (simp_all add: note_sound)

lemma recall_held_only: "sound s \<Longrightarrow> recall s k = Some v \<Longrightarrow> k \<in> set (held s)"
  using recall_held by blast

text \<open>Whatever is recalled was noted: the last value noted under the key, or an older one.\<close>

lemma recall_noted:
  "sound s \<Longrightarrow> recall (note_all s kvs) k = Some v \<Longrightarrow>
    map_of (rev kvs) k = Some v \<or> k \<notin> fst ` set kvs \<and> recall s k = Some v"
proof (induction kvs arbitrary: s)
  case (Cons kv kvs)
  obtain j w where kv: "kv = (j, w)" by (cases kv)
  have "sound (note_key s j w)" using Cons.prems(1) by (rule note_sound)
  from Cons.IH [OF this] Cons.prems(2) kv
  consider "map_of (rev kvs) k = Some v" | "k \<notin> fst ` set kvs" "recall (note_key s j w) k = Some v" by auto
  then show ?case
  proof cases
    case 2
    show ?thesis
    proof (cases "k = j")
      case True
      have "map_of (rev kvs) k = None" using 2(1) by (simp add: map_of_eq_None_iff)
      then show ?thesis using 2 True note_recall [OF Cons.prems(1), of j w] kv
        by (simp add: map_add_def)
    next
      case False
      have "k \<in> set (held (note_key s j w))"
        using recall_held_only [OF note_sound [OF Cons.prems(1)] 2(2)] .
      from note_other [OF Cons.prems(1) False this] 2 False kv show ?thesis by simp
    qed
  qed (simp add: kv map_add_def)
qed simp

text \<open>A key stays held while fewer than \<open>capacity\<close> keys are noted after it arrived.\<close>

lemma held_position:
  "sound s \<Longrightarrow> held s = front @ k # behind \<Longrightarrow> length behind + length kvs < capacity \<Longrightarrow>
    k \<in> set (held (note_all s kvs))"
proof (induction kvs arbitrary: s front behind)
  case (Cons kv kvs)
  obtain j w where kv: "kv = (j, w)" by (cases kv)
  note snd = note_sound [OF Cons.prems(1), of j w]
  have "\<exists>f b. held (note_key s j w) = f @ k # b \<and> length b \<le> length behind + 1"
  proof (cases "j \<in> set (held s)")
    case True
    with note_held [OF Cons.prems(1), of j w] Cons.prems(2) show ?thesis
      by (intro exI [of _ front] exI [of _ behind]) simp
  next
    case False
    show ?thesis
    proof (cases "length (held s) < capacity")
      case True
      with False note_held [OF Cons.prems(1), of j w] Cons.prems(2)
      show ?thesis by (intro exI [of _ front] exI [of _ "behind @ [j]"]) simp
    next
      case full: False
      have "front \<noteq> []" using Cons.prems(2,3) full by auto
      then have "tl (held s) = tl front @ k # behind" using Cons.prems(2) by (cases front) auto
      with False full note_held [OF Cons.prems(1), of j w]
      show ?thesis by (intro exI [of _ "tl front"] exI [of _ "behind @ [j]"]) simp
    qed
  qed
  then obtain f b where "held (note_key s j w) = f @ k # b" "length b \<le> length behind + 1" by blast
  with Cons.IH [OF snd] Cons.prems(3) kv show ?case by auto
qed simp

lemma fresh_recalled:
  assumes "sound s" "k \<notin> set (held s)" "k \<notin> fst ` set kvs" "length kvs < capacity"
  shows "recall (note_all (note_key s k v) kvs) k = Some v"
proof -
  have s1: "sound (note_key s k v)" by (rule note_sound [OF assms(1)])
  have "\<exists>f. held (note_key s k v) = f @ [k]" using note_held [OF assms(1), of k v] assms(2) by auto
  then have "k \<in> set (held (note_all (note_key s k v) kvs))"
    using held_position [OF s1, of _ k "[]" kvs] assms(4) by auto
  then obtain u where u: "recall (note_all (note_key s k v) kvs) k = Some u"
    using recall_held [OF note_all_sound [OF s1]] by blast
  have "map_of (rev kvs) k = None" using assms(3) by (simp add: map_of_eq_None_iff)
  with recall_noted [OF s1 u] note_recall [OF assms(1), of k v] u show ?thesis by auto
qed

end

end
