(* ===== verification/Rtp_Source.thy ===== *)
theory Rtp_Source
  imports Tracking Py_Text
begin

text \<open>
  The class \<^verbatim>\<open>_Source\<close> of \<^verbatim>\<open>scripts/convert_rtp_records.py\<close>: the ordering
  and timing state of one RTP source, its bounded evidence of numbers already observed, the
  classification of an arrival after RFC 3550 A.1 and the extension of the RTP timestamp.
\<close>

section \<open>Constants and state\<close>

definition RTP_SEQ_MOD :: int where "RTP_SEQ_MOD = 65536"
definition RTP_TS_MOD :: int where "RTP_TS_MOD = 4294967296"
definition MAX_DROPOUT :: int where "MAX_DROPOUT = 3000"
definition MAX_MISORDER :: int where "MAX_MISORDER = 100"
definition MIN_SEQUENTIAL :: int where "MIN_SEQUENTIAL = 2"
definition RECENT_SEQUENCES :: nat where "RECENT_SEQUENCES = 512"

lemmas rtp_constants = RTP_SEQ_MOD_def RTP_TS_MOD_def MAX_DROPOUT_def MAX_MISORDER_def
  MIN_SEQUENTIAL_def RECENT_SEQUENCES_def

record source_counts =
  sc_packets :: int
  sc_in_order :: int
  sc_duplicate :: int
  sc_repeated_sequence_new_payload :: int
  sc_reorder :: int
  sc_discontinuity_unknown :: int
  sc_restarts :: int

record source_state =
  so_highest :: "int option"
  so_cycles :: int
  so_epoch :: int
  so_probation :: int
  so_bad_sequence :: "int option"
  so_timestamp_cycles :: int
  so_highest_timestamp :: "int option"
  so_first_extended_timestamp :: "int option"
  so_seen :: "(int \<times> int) \<Rightarrow> string option"
  so_seen_order :: "(int \<times> int) list"
  so_counts :: source_counts

definition new_source :: source_state where
  "new_source = \<lparr>so_highest = None, so_cycles = 0, so_epoch = 0, so_probation = 0,
     so_bad_sequence = None, so_timestamp_cycles = 0, so_highest_timestamp = None,
     so_first_extended_timestamp = None, so_seen = Map.empty, so_seen_order = [],
     so_counts = \<lparr>sc_packets = 0, sc_in_order = 0, sc_duplicate = 0,
       sc_repeated_sequence_new_payload = 0, sc_reorder = 0, sc_discontinuity_unknown = 0,
       sc_restarts = 0\<rparr>\<rparr>"

datatype order_state =
  First | InOrder | Duplicate | RepeatedNewPayload | Reorder | DiscontinuityUnknown | Restart

fun order_text :: "order_state \<Rightarrow> string" where
  "order_text First = ''first''"
| "order_text InOrder = ''in_order''"
| "order_text Duplicate = ''duplicate''"
| "order_text RepeatedNewPayload = ''repeated_sequence_new_payload''"
| "order_text Reorder = ''reorder''"
| "order_text DiscontinuityUnknown = ''discontinuity_unknown''"
| "order_text Restart = ''restart''"

section \<open>Evidence of observed numbers\<close>

definition remember :: "int \<Rightarrow> string \<Rightarrow> source_state \<Rightarrow> source_state" where
  "remember extended digest s =
     (let key = (so_epoch s, extended);
          s1 = (if so_seen s key = None
                then let queue = so_seen_order s @ [key] in
                  if length queue > RECENT_SEQUENCES
                  then s\<lparr>so_seen := (so_seen s)(hd queue := None), so_seen_order := tl queue\<rparr>
                  else s\<lparr>so_seen_order := queue\<rparr>
                else s)
      in s1\<lparr>so_seen := (so_seen s1)(key := Some digest)\<rparr>)"

definition bump_duplicate :: "source_state \<Rightarrow> source_state" where
  "bump_duplicate s = s\<lparr>so_counts := (so_counts s)\<lparr>sc_duplicate := sc_duplicate (so_counts s) + 1\<rparr>\<rparr>"

definition repeat_of :: "int \<Rightarrow> string \<Rightarrow> source_state \<Rightarrow> order_state option \<times> source_state" where
  "repeat_of extended digest s =
     (case so_seen s (so_epoch s, extended) of
        None \<Rightarrow> (None, s)
      | Some known \<Rightarrow>
          if known = digest then (Some Duplicate, bump_duplicate s)
          else (Some RepeatedNewPayload, s\<lparr>so_counts := (so_counts s)\<lparr>
                  sc_repeated_sequence_new_payload := sc_repeated_sequence_new_payload (so_counts s) + 1\<rparr>\<rparr>))"

section \<open>Sequence order\<close>

datatype arrival = RepeatOfHighest | Forward | Late | Unknown

definition resolve_sequence :: "int \<Rightarrow> int \<Rightarrow> int \<Rightarrow> arrival \<times> int option \<times> int option" where
  "resolve_sequence cycles highest sequence =
     (let delta = (sequence - highest) mod RTP_SEQ_MOD in
      if delta = 0 then (RepeatOfHighest, Some (cycles + highest), Some 0)
      else if delta < MAX_DROPOUT
      then (Forward, Some (cycles + (if sequence < highest then RTP_SEQ_MOD else 0) + sequence), Some delta)
      else if delta > RTP_SEQ_MOD - MAX_MISORDER
      then let extended = cycles - (if sequence > highest then RTP_SEQ_MOD else 0) + sequence
           in (Late, if extended < 0 then None else Some extended, Some (delta - RTP_SEQ_MOD))
      else (Unknown, None, None))"

type_synonym order_result = "source_state \<times> order_state \<times> int option \<times> int option"

definition order_first :: "int \<Rightarrow> string \<Rightarrow> source_state \<Rightarrow> order_result" where
  "order_first sequence digest s =
     (let s1 = s\<lparr>so_highest := Some sequence, so_probation := MIN_SEQUENTIAL - 1,
                 so_counts := (so_counts s)\<lparr>sc_in_order := sc_in_order (so_counts s) + 1\<rparr>\<rparr>
      in (remember (so_cycles s + sequence) digest s1, First, Some (so_cycles s + sequence), None))"

definition order_forward ::
  "int \<Rightarrow> int \<Rightarrow> string \<Rightarrow> int \<Rightarrow> int option \<Rightarrow> source_state \<Rightarrow> order_result" where
  "order_forward highest sequence digest extended step s =
     (let s1 = s\<lparr>so_cycles := so_cycles s + (if sequence < highest then RTP_SEQ_MOD else 0),
                 so_highest := Some sequence,
                 so_probation := (if so_probation s \<noteq> 0 then so_probation s - 1 else so_probation s),
                 so_bad_sequence := None,
                 so_counts := (so_counts s)\<lparr>sc_in_order := sc_in_order (so_counts s) + 1\<rparr>\<rparr>
      in (remember extended digest s1, InOrder, Some extended, step))"

definition order_late :: "string \<Rightarrow> int option \<Rightarrow> int option \<Rightarrow> source_state \<Rightarrow> order_result" where
  "order_late digest extended step s =
     (let s1 = s\<lparr>so_bad_sequence := None,
                 so_counts := (so_counts s)\<lparr>sc_reorder := sc_reorder (so_counts s) + 1\<rparr>\<rparr>
      in (case extended of None \<Rightarrow> s1 | Some e \<Rightarrow> remember e digest s1, Reorder, extended, step))"

text \<open>Outside both windows: two consecutive numbers start a new epoch, one alone stays unknown.\<close>

definition order_unknown :: "int \<Rightarrow> string \<Rightarrow> source_state \<Rightarrow> order_result" where
  "order_unknown sequence digest s =
     (let s1 = s\<lparr>so_counts := (so_counts s)\<lparr>sc_discontinuity_unknown := sc_discontinuity_unknown (so_counts s) + 1\<rparr>\<rparr>
      in if so_bad_sequence s1 = Some sequence
         then let s2 = s1\<lparr>so_highest := Some sequence, so_cycles := 0, so_epoch := so_epoch s1 + 1,
                   so_probation := MIN_SEQUENTIAL - 1, so_bad_sequence := None,
                   so_timestamp_cycles := 0, so_highest_timestamp := None,
                   so_first_extended_timestamp := None, so_seen := Map.empty, so_seen_order := [],
                   so_counts := (so_counts s1)\<lparr>sc_restarts := sc_restarts (so_counts s1) + 1\<rparr>\<rparr>
              in (remember sequence digest s2, Restart, Some sequence, None)
         else (s1\<lparr>so_bad_sequence := Some ((sequence + 1) mod RTP_SEQ_MOD)\<rparr>,
               DiscontinuityUnknown, None, None))"

definition order_known ::
  "int \<Rightarrow> int \<Rightarrow> string \<Rightarrow> source_state \<Rightarrow> order_result" where
  "order_known highest sequence digest s =
     (let (kind, extended, step) = resolve_sequence (so_cycles s) highest sequence in
      case (case extended of None \<Rightarrow> (None, s) | Some e \<Rightarrow> repeat_of e digest s) of
        (Some repeat, s1) \<Rightarrow>
          (remember (the extended) digest (s1\<lparr>so_bad_sequence := None\<rparr>), repeat, extended, step)
      | (None, s1) \<Rightarrow> (case kind of
            RepeatOfHighest \<Rightarrow>
              (remember (the extended) digest ((bump_duplicate s1)\<lparr>so_bad_sequence := None\<rparr>),
               Duplicate, extended, Some 0)
          | Forward \<Rightarrow> order_forward highest sequence digest (the extended) step s1
          | Late \<Rightarrow> order_late digest extended step s1
          | Unknown \<Rightarrow> order_unknown sequence digest s1))"

definition order :: "int \<Rightarrow> string \<Rightarrow> source_state \<Rightarrow> order_result" where
  "order sequence digest s =
     (let s1 = s\<lparr>so_counts := (so_counts s)\<lparr>sc_packets := sc_packets (so_counts s) + 1\<rparr>\<rparr>
      in case so_highest s1 of
           None \<Rightarrow> order_first sequence digest s1
         | Some highest \<Rightarrow> order_known highest sequence digest s1)"

section \<open>The timestamp extension\<close>

datatype tick_state = TickFirst | SameTimestamp | TickForward | TickBackward | TickUnknown

fun tick_text :: "tick_state \<Rightarrow> string" where
  "tick_text TickFirst = ''first''"
| "tick_text SameTimestamp = ''same_timestamp''"
| "tick_text TickForward = ''forward''"
| "tick_text TickBackward = ''backward''"
| "tick_text TickUnknown = ''discontinuity_unknown''"

definition tick :: "int \<Rightarrow> int \<Rightarrow> source_state \<Rightarrow> source_state \<times> tick_state \<times> int option" where
  "tick timestamp max_forward s =
     (case so_highest_timestamp s of
        None \<Rightarrow> (s\<lparr>so_highest_timestamp := Some timestamp, so_first_extended_timestamp := Some timestamp\<rparr>,
                 TickFirst, Some timestamp)
      | Some highest \<Rightarrow>
          let forward = (timestamp - highest) mod RTP_TS_MOD;
              backward = (highest - timestamp) mod RTP_TS_MOD
          in if forward = 0 then (s, SameTimestamp, Some (so_timestamp_cycles s + highest))
             else if forward \<le> max_forward
             then let s1 = s\<lparr>so_timestamp_cycles := so_timestamp_cycles s + (if timestamp < highest then RTP_TS_MOD else 0),
                             so_highest_timestamp := Some timestamp\<rparr>
                  in (s1, TickForward, Some (so_timestamp_cycles s1 + timestamp))
             else if backward \<le> max_forward
             then let extended = so_timestamp_cycles s - (if timestamp > highest then RTP_TS_MOD else 0) + timestamp
                  in (s, TickBackward, if extended < 0 then None else Some extended)
             else (s, TickUnknown, None))"

section \<open>The evidence is a bounded memory\<close>

definition evidence_ok :: "source_state \<Rightarrow> bool" where
  "evidence_ok s \<longleftrightarrow> distinct (so_seen_order s) \<and> length (so_seen_order s) \<le> RECENT_SEQUENCES \<and>
     dom (so_seen s) = set (so_seen_order s)"

lemma set_tlD: "x \<in> set (tl xs) \<Longrightarrow> x \<in> set xs"
  by (cases xs) simp_all

lemma evidence_fields:
  "so_seen s = so_seen t \<Longrightarrow> so_seen_order s = so_seen_order t \<Longrightarrow> evidence_ok s = evidence_ok t"
  by (simp add: evidence_ok_def)

lemma remember_fields [simp]:
  "so_highest (remember e d s) = so_highest s" "so_cycles (remember e d s) = so_cycles s"
  "so_epoch (remember e d s) = so_epoch s" "so_probation (remember e d s) = so_probation s"
  "so_bad_sequence (remember e d s) = so_bad_sequence s" "so_counts (remember e d s) = so_counts s"
  "so_timestamp_cycles (remember e d s) = so_timestamp_cycles s"
  "so_highest_timestamp (remember e d s) = so_highest_timestamp s"
  "so_first_extended_timestamp (remember e d s) = so_first_extended_timestamp s"
  by (simp_all add: remember_def Let_def)

lemma remember_order:
  assumes "evidence_ok s"
  shows "so_seen_order (remember e d s) =
    (if (so_epoch s, e) \<in> set (so_seen_order s) then so_seen_order s
     else if length (so_seen_order s) < RECENT_SEQUENCES then so_seen_order s @ [(so_epoch s, e)]
     else tl (so_seen_order s) @ [(so_epoch s, e)])"
proof -
  have "so_seen s (so_epoch s, e) = None \<longleftrightarrow> (so_epoch s, e) \<notin> set (so_seen_order s)"
    using assms by (metis domIff evidence_ok_def)
  moreover have "length (so_seen_order s) < RECENT_SEQUENCES \<or> so_seen_order s \<noteq> []"
    by (auto simp: RECENT_SEQUENCES_def)
  ultimately show ?thesis by (auto simp: remember_def Let_def)
qed

lemma remember_seen:
  assumes "evidence_ok s"
  shows "so_seen (remember e d s) = (if (so_epoch s, e) \<in> set (so_seen_order s)
      \<or> length (so_seen_order s) < RECENT_SEQUENCES then so_seen s
     else (so_seen s)(hd (so_seen_order s) := None))((so_epoch s, e) \<mapsto> d)"
proof -
  have "so_seen s (so_epoch s, e) = None \<longleftrightarrow> (so_epoch s, e) \<notin> set (so_seen_order s)"
    using assms by (metis domIff evidence_ok_def)
  moreover have "length (so_seen_order s) < RECENT_SEQUENCES \<or> so_seen_order s \<noteq> []"
    by (auto simp: RECENT_SEQUENCES_def)
  ultimately show ?thesis by (auto simp: remember_def Let_def)
qed

lemma remember_ok:
  assumes "evidence_ok s"
  shows "evidence_ok (remember e d s)"
proof (cases "(so_epoch s, e) \<in> set (so_seen_order s) \<or> length (so_seen_order s) < RECENT_SEQUENCES")
  case True
  with assms show ?thesis by (auto simp: evidence_ok_def remember_order remember_seen [OF assms])
next
  case False
  then obtain h t where ht: "so_seen_order s = h # t"
    by (cases "so_seen_order s") (auto simp: RECENT_SEQUENCES_def)
  with assms False show ?thesis
    unfolding evidence_ok_def remember_order [OF assms] remember_seen [OF assms] by auto
qed

text \<open>The memory of one epoch, keyed by the extended number alone.\<close>

interpretation evidence: bounded_memory RECENT_SEQUENCES
    "\<lambda>s e. so_seen s (so_epoch s, e)" "\<lambda>s e d. remember e d s"
    "\<lambda>s. map snd (so_seen_order s)"
    "\<lambda>s. evidence_ok s \<and> (\<forall>k \<in> set (so_seen_order s). fst k = so_epoch s)"
proof
  fix s :: source_state and j k :: int and v
  let ?P = "evidence_ok s \<and> (\<forall>k \<in> set (so_seen_order s). fst k = so_epoch s)"
  have mem: "(so_epoch s, i) \<in> set (so_seen_order s) \<longleftrightarrow> i \<in> set (map snd (so_seen_order s))" if ?P for i
    using that by force
  show "0 < RECENT_SEQUENCES" by (simp add: RECENT_SEQUENCES_def)
  show "distinct (map snd (so_seen_order s)) \<and> length (map snd (so_seen_order s)) \<le> RECENT_SEQUENCES" if ?P
    using that by (auto simp: evidence_ok_def distinct_map inj_on_def prod_eq_iff)
  show "so_seen s (so_epoch s, k) \<noteq> None \<longleftrightarrow> k \<in> set (map snd (so_seen_order s))" if ?P
    using mem [OF that, of k] that by (metis domIff evidence_ok_def)
  show "evidence_ok (remember k v s) \<and> (\<forall>j \<in> set (so_seen_order (remember k v s)). fst j = so_epoch (remember k v s))" if ?P
    using that by (auto simp: remember_ok remember_order dest: set_tlD split: if_splits)
  show "so_seen (remember k v s) (so_epoch (remember k v s), k) = Some v" if ?P
    using that by (simp add: remember_seen)
  show "so_seen (remember k v s) (so_epoch (remember k v s), j) = so_seen s (so_epoch s, j)"
    if P: ?P and "j \<noteq> k" "j \<in> set (map snd (so_seen_order (remember k v s)))"
  proof -
    have "hd (so_seen_order s) \<noteq> (so_epoch s, j)"
      if "\<not> ((so_epoch s, k) \<in> set (so_seen_order s) \<or> length (so_seen_order s) < RECENT_SEQUENCES)"
    proof -
      from that obtain h t where ht: "so_seen_order s = h # t"
        by (cases "so_seen_order s") (auto simp: RECENT_SEQUENCES_def)
      have "j \<in> snd ` set t" using that ht P \<open>j \<noteq> k\<close> \<open>j \<in> _\<close> by (auto simp: remember_order)
      then have "(so_epoch s, j) \<in> set t" using P ht by force
      then show ?thesis using P ht by (auto simp: evidence_ok_def)
    qed
    with P \<open>j \<noteq> k\<close> show ?thesis by (auto simp: remember_seen)
  qed
  show "map snd (so_seen_order (remember k v s)) =
      (if k \<in> set (map snd (so_seen_order s)) then map snd (so_seen_order s)
       else if length (map snd (so_seen_order s)) < RECENT_SEQUENCES then map snd (so_seen_order s) @ [k]
       else tl (map snd (so_seen_order s)) @ [k])" if ?P
    using that mem [OF that, of k] by (simp add: remember_order map_tl)
qed

section \<open>The extension of the sequence number is a modular tracker\<close>

text \<open>Evidence never lies above the highest number of its epoch.\<close>

definition held_below :: "source_state \<Rightarrow> int \<Rightarrow> bool" where
  "held_below s b \<longleftrightarrow> (\<forall>k \<in> set (so_seen_order s). fst k = so_epoch s \<and> snd k \<le> b)"

lemma held_below_mono: "held_below s b \<Longrightarrow> b \<le> c \<Longrightarrow> held_below s c"
  by (force simp: held_below_def)

lemma held_below_empty: "so_seen_order s = [] \<Longrightarrow> held_below s b"
  by (simp add: held_below_def)

lemma held_below_remember:
  "evidence_ok s \<Longrightarrow> held_below s b \<Longrightarrow> e \<le> b \<Longrightarrow> held_below (remember e d s) b"
  by (auto simp: held_below_def remember_order dest: set_tlD)

definition source_inv :: "source_state \<Rightarrow> bool" where
  "source_inv s \<longleftrightarrow> evidence_ok s \<and>
     (case so_highest s of
        None \<Rightarrow> so_seen_order s = [] \<and> so_cycles s = 0
      | Some h \<Rightarrow> 0 \<le> h \<and> h < RTP_SEQ_MOD \<and> 0 \<le> so_cycles s \<and> RTP_SEQ_MOD dvd so_cycles s \<and>
          held_below s (so_cycles s + h))"

lemma source_inv_new: "source_inv new_source"
  by (simp add: source_inv_def new_source_def evidence_ok_def)

lemma remember_inv:
  assumes "so_highest s = Some h" "evidence_ok s" "0 \<le> h" "h < RTP_SEQ_MOD" "0 \<le> so_cycles s"
    "RTP_SEQ_MOD dvd so_cycles s" "held_below s (so_cycles s + h)" "e \<le> so_cycles s + h"
  shows "source_inv (remember e d s)"
  using assms remember_ok [OF assms(2), of e d] held_below_remember [OF assms(2,7,8), of d]
  by (simp add: source_inv_def)

lemma repeat_of_cases:
  obtains "so_seen s (so_epoch s, e) = None" "repeat_of e d s = (None, s)"
  | "so_seen s (so_epoch s, e) = Some d" "repeat_of e d s = (Some Duplicate, bump_duplicate s)"
  | u where "so_seen s (so_epoch s, e) = Some u" "u \<noteq> d"
      "repeat_of e d s = (Some RepeatedNewPayload, s\<lparr>so_counts := (so_counts s)\<lparr>
          sc_repeated_sequence_new_payload := sc_repeated_sequence_new_payload (so_counts s) + 1\<rparr>\<rparr>)"
  by (cases "so_seen s (so_epoch s, e)") (auto simp: repeat_of_def)

lemma evidence_update [simp]:
  "evidence_ok (s\<lparr>so_counts := c\<rparr>) = evidence_ok s"
  "evidence_ok (s\<lparr>so_bad_sequence := b\<rparr>) = evidence_ok s"
  "evidence_ok (s\<lparr>so_highest := h\<rparr>) = evidence_ok s"
  "evidence_ok (s\<lparr>so_cycles := y\<rparr>) = evidence_ok s"
  "evidence_ok (s\<lparr>so_probation := p\<rparr>) = evidence_ok s"
  by (simp_all add: evidence_ok_def)

lemma held_update [simp]:
  "held_below (s\<lparr>so_counts := c\<rparr>) m = held_below s m"
  "held_below (s\<lparr>so_bad_sequence := b\<rparr>) m = held_below s m"
  "held_below (s\<lparr>so_highest := h\<rparr>) m = held_below s m"
  "held_below (s\<lparr>so_cycles := y\<rparr>) m = held_below s m"
  "held_below (s\<lparr>so_probation := p\<rparr>) m = held_below s m"
  by (simp_all add: held_below_def)

lemma bump_duplicate_fields [simp]:
  "so_highest (bump_duplicate s) = so_highest s" "so_cycles (bump_duplicate s) = so_cycles s"
  "so_epoch (bump_duplicate s) = so_epoch s" "so_seen (bump_duplicate s) = so_seen s"
  "so_seen_order (bump_duplicate s) = so_seen_order s" "so_probation (bump_duplicate s) = so_probation s"
  "so_bad_sequence (bump_duplicate s) = so_bad_sequence s"
  "evidence_ok (bump_duplicate s) = evidence_ok s" "held_below (bump_duplicate s) m = held_below s m"
  by (simp_all add: bump_duplicate_def)

lemma resolve_cases:
  assumes "0 \<le> highest" "highest < RTP_SEQ_MOD" "0 \<le> sequence" "sequence < RTP_SEQ_MOD"
  obtains "sequence = highest" "resolve_sequence cycles highest sequence = (RepeatOfHighest, Some (cycles + highest), Some 0)"
  | "0 < (sequence - highest) mod RTP_SEQ_MOD" "(sequence - highest) mod RTP_SEQ_MOD < MAX_DROPOUT"
    "resolve_sequence cycles highest sequence = (Forward,
       Some (cycles + (if sequence < highest then RTP_SEQ_MOD else 0) + sequence),
       Some ((sequence - highest) mod RTP_SEQ_MOD))"
  | "0 < (highest - sequence) mod RTP_SEQ_MOD" "(highest - sequence) mod RTP_SEQ_MOD < MAX_MISORDER"
    "resolve_sequence cycles highest sequence =
      (let e = cycles - (if sequence > highest then RTP_SEQ_MOD else 0) + sequence
       in (Late, if e < 0 then None else Some e, Some (- ((highest - sequence) mod RTP_SEQ_MOD))))"
  | "MAX_DROPOUT \<le> (sequence - highest) mod RTP_SEQ_MOD" "MAX_MISORDER \<le> (highest - sequence) mod RTP_SEQ_MOD"
    "resolve_sequence cycles highest sequence = (Unknown, None, None)"
proof -
  note d = diff_mod [OF assms(3,4,1,2)] diff_mod [OF assms]
  consider "sequence = highest"
    | "sequence \<noteq> highest" "(sequence - highest) mod RTP_SEQ_MOD < MAX_DROPOUT"
    | "sequence \<noteq> highest" "\<not> (sequence - highest) mod RTP_SEQ_MOD < MAX_DROPOUT"
      "(sequence - highest) mod RTP_SEQ_MOD > RTP_SEQ_MOD - MAX_MISORDER"
    | "sequence \<noteq> highest" "\<not> (sequence - highest) mod RTP_SEQ_MOD < MAX_DROPOUT"
      "\<not> (sequence - highest) mod RTP_SEQ_MOD > RTP_SEQ_MOD - MAX_MISORDER"
    by blast
  then show ?thesis
  proof cases
    case 1
    with that(1) show ?thesis by (simp add: resolve_sequence_def)
  next
    case 2
    with that(2) d assms show ?thesis by (auto simp: resolve_sequence_def Let_def split: if_splits)
  next
    case 3
    with that(3) d assms show ?thesis by (auto simp: resolve_sequence_def Let_def split: if_splits)
  next
    case 4
    with that(4) d assms show ?thesis by (auto simp: resolve_sequence_def Let_def split: if_splits)
  qed
qed

text \<open>What a known source returns, by kind of arrival.\<close>

lemma source_inv_known:
  assumes "source_inv s" "so_highest s = Some h"
  shows "evidence_ok s" "held_below s (so_cycles s + h)" "0 \<le> h" "h < RTP_SEQ_MOD"
    "0 \<le> so_cycles s" "RTP_SEQ_MOD dvd so_cycles s"
  using assms by (auto simp: source_inv_def)

lemma unseen_above:
  assumes "source_inv s" "so_highest s = Some h" "so_cycles s + h < e"
  shows "so_seen s (so_epoch s, e) = None"
proof (rule ccontr)
  assume "so_seen s (so_epoch s, e) \<noteq> None"
  then have "(so_epoch s, e) \<in> set (so_seen_order s)"
    using assms(1) unfolding source_inv_def evidence_ok_def by blast
  with source_inv_known(2) [OF assms(1,2)] assms(3) show False by (force simp: held_below_def)
qed

lemma forward_above:
  assumes "0 \<le> h" "h < RTP_SEQ_MOD" "0 \<le> q" "q < RTP_SEQ_MOD" "0 < (q - h) mod RTP_SEQ_MOD"
  shows "h < (if q < h then RTP_SEQ_MOD else 0) + q"
  using assms by (cases "q = h") auto

text \<open>
  An arrival that does not open or restart a source leaves the source at the same epoch; what it
  does to the cycle count and the highest number depends on its kind alone.
\<close>

definition packet_counted :: "source_state \<Rightarrow> source_state" where
  "packet_counted s = s\<lparr>so_counts := (so_counts s)\<lparr>sc_packets := sc_packets (so_counts s) + 1\<rparr>\<rparr>"

lemma packet_counted_fields [simp]:
  "so_highest (packet_counted s) = so_highest s" "so_cycles (packet_counted s) = so_cycles s"
  "so_epoch (packet_counted s) = so_epoch s" "so_seen (packet_counted s) = so_seen s"
  "so_seen_order (packet_counted s) = so_seen_order s" "so_bad_sequence (packet_counted s) = so_bad_sequence s"
  "evidence_ok (packet_counted s) = evidence_ok s" "held_below (packet_counted s) m = held_below s m"
  "source_inv (packet_counted s) = source_inv s"
  by (simp_all add: packet_counted_def source_inv_def split: option.split)

lemma order_packet_counted:
  "order q d s = (case so_highest s of None \<Rightarrow> order_first q d (packet_counted s)
     | Some h \<Rightarrow> order_known h q d (packet_counted s))"
  by (simp add: order_def packet_counted_def Let_def split: option.split)

lemma order_known_same:
  assumes "source_inv s" "so_highest s = Some h" "order_known h h d s = (s', st, ext, step)"
  shows "source_inv s' \<and> so_highest s' = Some h \<and> so_cycles s' = so_cycles s \<and> so_epoch s' = so_epoch s \<and>
    ext = Some (so_cycles s + h) \<and> (st = Duplicate \<or> st = RepeatedNewPayload) \<and> step = Some 0"
proof -
  note k = source_inv_known [OF assms(1,2)]
  have r: "resolve_sequence (so_cycles s) h h = (RepeatOfHighest, Some (so_cycles s + h), Some 0)"
    by (simp add: resolve_sequence_def)
  show ?thesis
    using assms(2,3) k unfolding order_known_def r
    by (cases rule: repeat_of_cases [of s "so_cycles s + h" d])
      (auto intro!: remember_inv [where h = h])
qed

lemma order_known_forward:
  assumes "source_inv s" "so_highest s = Some h" "0 \<le> q" "q < RTP_SEQ_MOD"
    and "0 < (q - h) mod RTP_SEQ_MOD" "(q - h) mod RTP_SEQ_MOD < MAX_DROPOUT"
    and "order_known h q d s = (s', st, ext, step)"
  shows "source_inv s' \<and> so_highest s' = Some q \<and> so_epoch s' = so_epoch s \<and>
    so_cycles s' = so_cycles s + (if q < h then RTP_SEQ_MOD else 0) \<and> ext = Some (so_cycles s' + q) \<and>
    st = InOrder \<and> step = Some ((q - h) mod RTP_SEQ_MOD)"
proof -
  note k = source_inv_known [OF assms(1,2)]
  have r: "resolve_sequence (so_cycles s) h q = (Forward,
       Some (so_cycles s + (if q < h then RTP_SEQ_MOD else 0) + q), Some ((q - h) mod RTP_SEQ_MOD))"
    using assms(5,6) by (auto simp: resolve_sequence_def Let_def)
  have up: "so_cycles s + h < so_cycles s + (if q < h then RTP_SEQ_MOD else 0) + q"
    using forward_above [OF k(3,4) assms(3,4,5)] by simp
  have fresh: "repeat_of (so_cycles s + (if q < h then RTP_SEQ_MOD else 0) + q) d s = (None, s)"
    using unseen_above [OF assms(1,2) up] by (simp add: repeat_of_def)
  have low: "held_below s (so_cycles s + (if q < h then RTP_SEQ_MOD else 0) + q)"
    using held_below_mono [OF k(2)] up by simp
  show ?thesis
    using assms(2,3,4,7) k low unfolding order_known_def r order_forward_def Let_def
    by (auto simp: fresh [unfolded if_distrib] fresh intro!: remember_inv [where h = q] split: if_splits)
qed

lemma order_known_late:
  assumes "source_inv s" "so_highest s = Some h" "0 \<le> q" "q < RTP_SEQ_MOD"
    and "0 < (h - q) mod RTP_SEQ_MOD" "(h - q) mod RTP_SEQ_MOD < MAX_MISORDER"
    and "order_known h q d s = (s', st, ext, step)"
  shows "source_inv s' \<and> so_highest s' = Some h \<and> so_epoch s' = so_epoch s \<and> so_cycles s' = so_cycles s \<and>
    ext = (let e = so_cycles s - (if q > h then RTP_SEQ_MOD else 0) + q in if e < 0 then None else Some e) \<and>
    (st = Duplicate \<or> st = RepeatedNewPayload \<or> st = Reorder) \<and> step = Some (- ((h - q) mod RTP_SEQ_MOD))"
proof -
  note k = source_inv_known [OF assms(1,2)]
  define e where "e = so_cycles s - (if q > h then RTP_SEQ_MOD else 0) + q"
  have r: "resolve_sequence (so_cycles s) h q = (Late, if e < 0 then None else Some e, Some (- ((h - q) mod RTP_SEQ_MOD)))"
    using k(3,4) assms(3-6) diff_mod [OF assms(3,4) k(3,4)] diff_mod [OF k(3,4) assms(3,4)]
    by (cases rule: resolve_cases [where highest = h and sequence = q and cycles = "so_cycles s"])
      (auto simp: e_def Let_def rtp_constants split: if_splits)
  have le: "e \<le> so_cycles s + h" using assms(4) k(3) by (auto simp: e_def)
  show ?thesis
  proof (cases "e < 0")
    case True
    with assms(1,2,7) show ?thesis
      unfolding order_known_def r order_late_def Let_def e_def [symmetric]
      by (auto simp: source_inv_def)
  next
    case False
    with assms(2,7) k le show ?thesis
      unfolding order_known_def r order_late_def Let_def e_def [symmetric]
      by (cases rule: repeat_of_cases [of s e d]) (auto intro!: remember_inv [where h = h])
  qed
qed

lemma order_known_unknown:
  assumes "source_inv s" "so_highest s = Some h" "0 \<le> q" "q < RTP_SEQ_MOD"
    and "MAX_DROPOUT \<le> (q - h) mod RTP_SEQ_MOD" "MAX_MISORDER \<le> (h - q) mod RTP_SEQ_MOD"
  shows "order_known h q d s = order_unknown q d s" "source_inv (fst (order_unknown q d s))"
proof -
  note k = source_inv_known [OF assms(1,2)]
  have r: "resolve_sequence (so_cycles s) h q = (Unknown, None, None)"
    using k(3,4) assms(3-6) diff_mod [OF assms(3,4) k(3,4)] diff_mod [OF k(3,4) assms(3,4)]
    by (cases rule: resolve_cases [where highest = h and sequence = q and cycles = "so_cycles s"])
      (auto simp: Let_def rtp_constants split: if_splits)
  show "order_known h q d s = order_unknown q d s" by (simp add: order_known_def r)
  have new: "source_inv (remember q d t)" if "so_highest t = Some q" "so_cycles t = 0" "so_seen t = Map.empty"
    "so_seen_order t = []" for t
    using that assms(3,4) by (intro remember_inv [where h = q]) (auto simp: evidence_ok_def held_below_empty)
  show "source_inv (fst (order_unknown q d s))"
  proof (cases "so_bad_sequence s = Some q")
    case True
    then show ?thesis by (simp add: order_unknown_def Let_def new)
  next
    case False
    then show ?thesis using assms(1,2) by (simp add: order_unknown_def Let_def source_inv_def)
  qed
qed


text \<open>Each arrival of a known source is of one of four kinds.\<close>

lemma arrival_cases:
  assumes "0 \<le> h" "h < RTP_SEQ_MOD" "0 \<le> q" "q < RTP_SEQ_MOD"
  obtains "q = h"
  | "0 < (q - h) mod RTP_SEQ_MOD" "(q - h) mod RTP_SEQ_MOD < MAX_DROPOUT"
  | "0 < (h - q) mod RTP_SEQ_MOD" "(h - q) mod RTP_SEQ_MOD < MAX_MISORDER"
  | "MAX_DROPOUT \<le> (q - h) mod RTP_SEQ_MOD" "MAX_MISORDER \<le> (h - q) mod RTP_SEQ_MOD"
  using assms by (cases rule: resolve_cases [of h q 0]) blast+

definition order_step :: "source_state \<Rightarrow> int \<times> string \<Rightarrow> source_state \<times> (int \<times> order_state \<times> int option)" where
  "order_step s a = (let (s', st, ext, step) = order (fst a) (snd a) s in (s', (so_epoch s', st, ext)))"

definition arrivals_ok :: "(int \<times> string) set" where
  "arrivals_ok = {a. 0 \<le> fst a \<and> fst a < RTP_SEQ_MOD}"

lemma order_first_inv:
  assumes "source_inv s" "so_highest s = None" "0 \<le> q" "q < RTP_SEQ_MOD"
  shows "source_inv (fst (order_first q d s))" "so_cycles (fst (order_first q d s)) = 0"
    "so_highest (fst (order_first q d s)) = Some q" "fst (snd (snd (order_first q d s))) = Some q"
  using assms by (auto simp: order_first_def Let_def source_inv_def held_below_empty
      intro!: remember_ok held_below_remember)

lemma order_inv:
  assumes "source_inv s" "0 \<le> q" "q < RTP_SEQ_MOD"
  shows "source_inv (fst (order q d s))"
proof (cases "so_highest s")
  case None
  with assms order_first_inv(1) [of "packet_counted s"] show ?thesis by (simp add: order_packet_counted)
next
  case (Some h)
  let ?s = "packet_counted s"
  have s: "source_inv ?s" "so_highest ?s = Some h" using assms(1) Some by simp_all
  note k = source_inv_known [OF s]
  obtain s' st ext step where r: "order_known h q d ?s = (s', st, ext, step)" by (metis prod_cases4)
  have "source_inv s'"
    using k(3,4) assms(2,3)
  proof (cases rule: arrival_cases)
    case 1
    with order_known_same [OF s] r show ?thesis by blast
  next
    case 2
    from order_known_forward [OF s assms(2,3) this r] show ?thesis by blast
  next
    case 3
    from order_known_late [OF s assms(2,3) this r] show ?thesis by blast
  next
    case 4
    from order_known_unknown [OF s assms(2,3) this, of d] r show ?thesis by (metis fst_conv)
  qed
  with r Some show ?thesis by (simp add: order_packet_counted)
qed

interpretation rtp_sequence: modular_tracker RTP_SEQ_MOD "MAX_DROPOUT - 1" "MAX_MISORDER - 1"
    "\<lambda>s a. (fst (order_step s a), snd (snd (snd (order_step s a))))" fst
    "\<lambda>s. source_inv s \<and> so_highest s \<noteq> None" so_cycles "\<lambda>s. the (so_highest s)"
proof
  show "0 < RTP_SEQ_MOD" "0 \<le> MAX_DROPOUT - 1" "0 \<le> MAX_MISORDER - 1"
    "MAX_DROPOUT - 1 + (MAX_MISORDER - 1) < RTP_SEQ_MOD"
    by (simp_all add: rtp_constants)
next
  fix s assume "source_inv s \<and> so_highest s \<noteq> None"
  then show "0 \<le> the (so_highest s) \<and> the (so_highest s) < RTP_SEQ_MOD \<and> RTP_SEQ_MOD dvd so_cycles s"
    by (auto simp: source_inv_def)
next
  fix s a
  let ?s' = "fst (fst (order_step s a), snd (snd (snd (order_step s a))))"
  let ?e = "snd (fst (order_step s a), snd (snd (snd (order_step s a))))"
  assume r: "source_inv s \<and> so_highest s \<noteq> None"
  then obtain h where h: "so_highest s = Some h" by blast
  have s: "source_inv (packet_counted s)" "so_highest (packet_counted s) = Some h" using r h by auto
  obtain s' st ext step where o1: "order_known h (fst a) (snd a) (packet_counted s) = (s', st, ext, step)"
    by (metis prod_cases4)
  have os: "order_step s a = (s', (so_epoch s', st, ext))"
    using o1 h by (simp add: order_step_def order_packet_counted)
  show "(source_inv ?s' \<and> so_highest ?s' \<noteq> None) \<and> so_cycles ?s' = so_cycles s \<and>
      the (so_highest ?s') = the (so_highest s) \<and> ?e = Some (so_cycles s + the (so_highest s))"
    if "fst a = the (so_highest s)"
    using order_known_same [OF s, of "snd a"] o1 that h by (simp add: os)
  assume rng: "0 \<le> fst a" "fst a < RTP_SEQ_MOD"
  show "(source_inv ?s' \<and> so_highest ?s' \<noteq> None) \<and>
      so_cycles ?s' = so_cycles s + (if fst a < the (so_highest s) then RTP_SEQ_MOD else 0) \<and>
      the (so_highest ?s') = fst a \<and> ?e = Some (so_cycles ?s' + fst a)"
    if "0 < (fst a - the (so_highest s)) mod RTP_SEQ_MOD"
      "(fst a - the (so_highest s)) mod RTP_SEQ_MOD \<le> MAX_DROPOUT - 1"
    using order_known_forward [OF s rng, of "snd a"] o1 that h by (simp add: os)
  show "(source_inv ?s' \<and> so_highest ?s' \<noteq> None) \<and> so_cycles ?s' = so_cycles s \<and>
      the (so_highest ?s') = the (so_highest s) \<and> ?e =
      (let e = so_cycles s - (if fst a > the (so_highest s) then RTP_SEQ_MOD else 0) + fst a
       in if e < 0 then None else Some e)"
    if "0 < (the (so_highest s) - fst a) mod RTP_SEQ_MOD"
      "(the (so_highest s) - fst a) mod RTP_SEQ_MOD \<le> MAX_MISORDER - 1"
    using order_known_late [OF s rng, of "snd a"] o1 that h by (simp add: os)
qed

text \<open>The timestamp extension, for a forward bound below half the modulus.\<close>

definition tick_inv :: "source_state \<Rightarrow> bool" where
  "tick_inv s \<longleftrightarrow> (case so_highest_timestamp s of None \<Rightarrow> so_timestamp_cycles s = 0
     | Some t \<Rightarrow> 0 \<le> t \<and> t < RTP_TS_MOD \<and> RTP_TS_MOD dvd so_timestamp_cycles s)"

definition tick_bound :: "int \<Rightarrow> int" where
  "tick_bound f = (if 0 \<le> f \<and> 2 * f < RTP_TS_MOD then f else 0)"

interpretation rtp_ticks: modular_tracker RTP_TS_MOD "tick_bound f" "tick_bound f"
    "\<lambda>s t. (fst (tick t f s), snd (snd (tick t f s)))" "\<lambda>t. t"
    "\<lambda>s. tick_inv s \<and> so_highest_timestamp s \<noteq> None" so_timestamp_cycles
    "\<lambda>s. the (so_highest_timestamp s)" for f
proof
  show "0 < RTP_TS_MOD" "0 \<le> tick_bound f" "tick_bound f + tick_bound f < RTP_TS_MOD"
    by (simp_all add: tick_bound_def rtp_constants)
next
  fix s assume "tick_inv s \<and> so_highest_timestamp s \<noteq> None"
  then show "0 \<le> the (so_highest_timestamp s) \<and> the (so_highest_timestamp s) < RTP_TS_MOD \<and>
      RTP_TS_MOD dvd so_timestamp_cycles s" by (auto simp: tick_inv_def)
next
  fix s t
  let ?r = "(fst (tick t f s), snd (snd (tick t f s)))"
  assume r: "tick_inv s \<and> so_highest_timestamp s \<noteq> None"
  then obtain h where h: "so_highest_timestamp s = Some h" "0 \<le> h" "h < RTP_TS_MOD"
    "RTP_TS_MOD dvd so_timestamp_cycles s" by (auto simp: tick_inv_def)
  show "(tick_inv (fst ?r) \<and> so_highest_timestamp (fst ?r) \<noteq> None) \<and>
      so_timestamp_cycles (fst ?r) = so_timestamp_cycles s \<and>
      the (so_highest_timestamp (fst ?r)) = the (so_highest_timestamp s) \<and>
      snd ?r = Some (so_timestamp_cycles s + the (so_highest_timestamp s))"
    if "t = the (so_highest_timestamp s)"
    using that h r by (simp add: tick_def)
  assume t: "0 \<le> t" "t < RTP_TS_MOD"
  note d = diff_mod [OF t h(2,3)] diff_mod [OF h(2,3) t]
  show "(tick_inv (fst ?r) \<and> so_highest_timestamp (fst ?r) \<noteq> None) \<and>
      so_timestamp_cycles (fst ?r) = so_timestamp_cycles s + (if t < the (so_highest_timestamp s) then RTP_TS_MOD else 0) \<and>
      the (so_highest_timestamp (fst ?r)) = t \<and> snd ?r = Some (so_timestamp_cycles (fst ?r) + t)"
    if "0 < (t - the (so_highest_timestamp s)) mod RTP_TS_MOD"
      "(t - the (so_highest_timestamp s)) mod RTP_TS_MOD \<le> tick_bound f"
    using that h t by (auto simp: tick_def Let_def tick_bound_def tick_inv_def split: if_splits)
  show "(tick_inv (fst ?r) \<and> so_highest_timestamp (fst ?r) \<noteq> None) \<and>
      so_timestamp_cycles (fst ?r) = so_timestamp_cycles s \<and>
      the (so_highest_timestamp (fst ?r)) = the (so_highest_timestamp s) \<and> snd ?r =
      (let e = so_timestamp_cycles s - (if t > the (so_highest_timestamp s) then RTP_TS_MOD else 0) + t
       in if e < 0 then None else Some e)"
    if "0 < (the (so_highest_timestamp s) - t) mod RTP_TS_MOD"
      "(the (so_highest_timestamp s) - t) mod RTP_TS_MOD \<le> tick_bound f"
    using that h t r d by (auto simp: tick_def Let_def tick_bound_def split: if_splits)
qed


section \<open>The evidence of the highest number is never lost\<close>

text \<open>
  At most \<open>MAX_MISORDER - 1\<close> numbers can arrive late below the highest one, fewer than the
  memory holds; so the highest number is held, and a repeat of it is decided by its digest.
\<close>

definition top_held :: "source_state \<Rightarrow> bool" where
  "top_held s \<longleftrightarrow> (case so_highest s of None \<Rightarrow> True
     | Some h \<Rightarrow> (\<exists>front behind. so_seen_order s = front @ (so_epoch s, so_cycles s + h) # behind \<and>
         (\<forall>k \<in> set behind. so_cycles s + h - MAX_MISORDER < snd k \<and> snd k < so_cycles s + h)))"

lemma top_held_seen:
  assumes "source_inv s" "top_held s" "so_highest s = Some h"
  shows "so_seen s (so_epoch s, so_cycles s + h) \<noteq> None"
  using assms by (auto simp: top_held_def source_inv_def evidence_ok_def)

lemma behind_short:
  assumes "distinct behind" "\<forall>k \<in> set behind. fst k = ep" "\<forall>k \<in> set behind. b - MAX_MISORDER < snd k \<and> snd k < b"
  shows "int (length behind) < MAX_MISORDER"
proof -
  have inj: "inj_on snd (set behind)" using assms(2) by (auto simp: inj_on_def prod_eq_iff)
  have "snd ` set behind \<subseteq> {b - MAX_MISORDER + 1..<b}" using assms(3) by force
  then have "card (snd ` set behind) \<le> card {b - MAX_MISORDER + 1..<b}" by (intro card_mono) auto
  then show ?thesis
    using card_image [OF inj] distinct_card [OF assms(1)] by (simp add: MAX_MISORDER_def)
qed

lemma remember_top:
  assumes inv: "evidence_ok s" "held_below s (so_cycles s + h)" "so_highest s = Some h" and top: "top_held s"
    and e: "so_cycles s + h - MAX_MISORDER < e" "e \<le> so_cycles s + h"
  shows "top_held (remember e d s)"
proof -
  let ?b = "so_cycles s + h" and ?k = "(so_epoch s, e)"
  obtain front behind where o1: "so_seen_order s = front @ (so_epoch s, ?b) # behind"
    and near: "\<forall>k \<in> set behind. ?b - MAX_MISORDER < snd k \<and> snd k < ?b"
    using top inv(3) by (auto simp: top_held_def)
  have len: "int (length behind) < MAX_MISORDER"
    using inv(1,2) near unfolding evidence_ok_def held_below_def o1 by (intro behind_short) auto
  show ?thesis
  proof (cases "?k \<in> set (so_seen_order s)")
    case True
    then show ?thesis using top inv(3) remember_order [OF inv(1), of e d] by (simp add: top_held_def)
  next
    case new: False
    then have lt: "e < ?b" using e o1 by (cases "e = ?b") auto
    have "\<exists>f. so_seen_order (remember e d s) = f @ (so_epoch s, ?b) # (behind @ [?k])"
    proof (cases "length (so_seen_order s) < RECENT_SEQUENCES")
      case True
      then show ?thesis using new remember_order [OF inv(1), of e d] o1 by simp
    next
      case False
      then obtain x xs where "front = x # xs"
        using len o1 by (cases front) (auto simp: rtp_constants)
      then show ?thesis using False new remember_order [OF inv(1), of e d] o1 by simp
    qed
    then obtain f where "so_seen_order (remember e d s) = f @ (so_epoch s, ?b) # (behind @ [?k])" by blast
    moreover have "\<forall>k \<in> set (behind @ [?k]). ?b - MAX_MISORDER < snd k \<and> snd k < ?b"
      using near e(1) lt by simp
    ultimately show ?thesis using inv(3) unfolding top_held_def by (simp only: remember_fields option.case) blast
  qed
qed

lemma remember_new_top:
  assumes "evidence_ok s" "so_highest s = Some h" "so_seen s (so_epoch s, so_cycles s + h) = None"
  shows "top_held (remember (so_cycles s + h) d s)"
proof -
  have "(so_epoch s, so_cycles s + h) \<notin> set (so_seen_order s)"
    using assms(1,3) by (auto simp: evidence_ok_def)
  then obtain f where "so_seen_order (remember (so_cycles s + h) d s) = f @ [(so_epoch s, so_cycles s + h)]"
    using remember_order [OF assms(1), of "so_cycles s + h" d] by (auto split: if_splits)
  then have "\<exists>behind. so_seen_order (remember (so_cycles s + h) d s) =
      f @ (so_epoch s, so_cycles s + h) # behind \<and> behind = []" by simp
  then show ?thesis using assms(2) by (fastforce simp: top_held_def)
qed

lemma top_held_update [simp]:
  "top_held (s\<lparr>so_counts := c\<rparr>) = top_held s"
  "top_held (s\<lparr>so_bad_sequence := b\<rparr>) = top_held s"
  "top_held (bump_duplicate s) = top_held s"
  "top_held (packet_counted s) = top_held s"
  by (simp_all add: top_held_def bump_duplicate_def packet_counted_def split: option.split)

definition rtp_inv :: "source_state \<Rightarrow> bool" where
  "rtp_inv s \<longleftrightarrow> source_inv s \<and> top_held s"

lemma rtp_inv_new: "rtp_inv new_source"
  using source_inv_new by (simp add: rtp_inv_def top_held_def) (simp add: new_source_def)

lemma order_known_top:
  assumes "source_inv s" "top_held s" "so_highest s = Some h" "0 \<le> q" "q < RTP_SEQ_MOD"
  shows "top_held (fst (order_known h q d s))"
proof -
  note k = source_inv_known [OF assms(1,3)]
  note dm = diff_mod [OF k(3,4) assms(4,5)]
  have rem: "top_held (remember e d t)" if "so_cycles s + h - MAX_MISORDER < e" "e \<le> so_cycles s + h"
    "evidence_ok t" "held_below t (so_cycles s + h)" "so_highest t = Some h" "so_cycles t = so_cycles s" "top_held t" for t e
    using remember_top [of t h e d] that by simp
  show ?thesis
    using k(3,4) assms(4,5)
  proof (cases rule: resolve_cases [where cycles = "so_cycles s"])
    case 1
    show ?thesis unfolding order_known_def 1(2)
      using k assms(2,3)
      by (cases rule: repeat_of_cases [of s "so_cycles s + h" d])
        (auto intro!: rem simp: MAX_MISORDER_def)
  next
    case 2
    let ?e = "so_cycles s + (if q < h then RTP_SEQ_MOD else 0) + q"
    have un: "so_seen s (so_epoch s, ?e) = None"
      using unseen_above [OF assms(1,3), of ?e] forward_above [OF k(3,4) assms(4,5) 2(1)] by simp
    let ?t = "s\<lparr>so_cycles := so_cycles s + (if q < h then RTP_SEQ_MOD else 0), so_highest := Some q,
         so_probation := (if so_probation s \<noteq> 0 then so_probation s - 1 else so_probation s),
         so_bad_sequence := None,
         so_counts := (so_counts s)\<lparr>sc_in_order := sc_in_order (so_counts s) + 1\<rparr>\<rparr>"
    have "fst (order_known h q d s) = remember ?e d ?t"
      unfolding order_known_def 2(3) by (simp add: un repeat_of_def order_forward_def Let_def)
    moreover have "top_held (remember (so_cycles ?t + q) d ?t)"
      by (rule remember_new_top) (use k un in simp_all)
    ultimately show ?thesis by simp
  next
    case 3
    define e where "e = so_cycles s - (if q > h then RTP_SEQ_MOD else 0) + q"
    have e: "so_cycles s + h - MAX_MISORDER < e" "e \<le> so_cycles s + h"
      using 3(1,2) dm assms(4,5) k(3,4) by (auto simp: e_def split: if_splits)
    show ?thesis unfolding order_known_def 3(3) e_def [symmetric] order_late_def Let_def
      using k assms(2,3) e
      by (cases "e < 0"; cases rule: repeat_of_cases [of s e d]) (auto intro!: rem)
  next
    case 4
    have "top_held (remember q d t)" if "so_highest t = Some q" "so_cycles t = 0" "so_seen t = Map.empty"
      "so_seen_order t = []" for t
      using remember_new_top [of t q d] that by (simp add: evidence_ok_def)
    then show ?thesis unfolding order_known_def 4(3) order_unknown_def Let_def
      using assms(2) by simp
  qed
qed

lemma rtp_inv_order:
  assumes "rtp_inv s" "0 \<le> q" "q < RTP_SEQ_MOD"
  shows "rtp_inv (fst (order q d s))"
proof -
  have s: "source_inv (packet_counted s)" "top_held (packet_counted s)" using assms(1) by (simp_all add: rtp_inv_def)
  have "top_held (fst (order q d s))"
  proof (cases "so_highest s")
    case None
    let ?t = "(packet_counted s)\<lparr>so_highest := Some q, so_probation := MIN_SEQUENTIAL - 1,
       so_counts := (so_counts (packet_counted s))\<lparr>sc_in_order := sc_in_order (so_counts (packet_counted s)) + 1\<rparr>\<rparr>"
    have "top_held (remember (so_cycles ?t + q) d ?t)"
      using s(1) None by (intro remember_new_top) (auto simp: source_inv_def evidence_ok_def)
    with None show ?thesis by (simp add: order_packet_counted order_first_def Let_def)
  next
    case (Some h)
    with order_known_top [OF s _ assms(2,3), of h d] show ?thesis by (simp add: order_packet_counted)
  qed
  with order_inv [of s q d] assms show ?thesis by (simp add: rtp_inv_def)
qed


section \<open>Properties of a source\<close>

definition order_run :: "(int \<times> string) list \<Rightarrow> source_state \<times> (int \<times> order_state \<times> int option) list" where
  "order_run arrivals = run_steps order_step new_source arrivals"

definition tick_run :: "int \<Rightarrow> int list \<Rightarrow> source_state \<times> int option list" where
  "tick_run max_forward timestamps =
     run_steps (\<lambda>s t. (fst (tick t max_forward s), snd (snd (tick t max_forward s)))) new_source timestamps"

text \<open>C5. The extended sequence numbers of a source are those of a counter that never wraps: if the
  true numbers of the arrivals stay within the RFC 3550 windows of the highest one so far (less
  than 3000 ahead, less than 100 behind), then every arrival is reported under its true number,
  counted from the start of the first arrival's cycle, whatever the repeats, the reordering and
  the wraps in between.\<close>

theorem rtp_sequence_extension:
  assumes "in_windows (MAX_DROPOUT - 1) (MAX_MISORDER - 1) t ts"
    and "\<forall>u \<in> set ts. RTP_SEQ_MOD * (t div RTP_SEQ_MOD) \<le> u"
    and "map fst arrivals = map (\<lambda>u. u mod RTP_SEQ_MOD) (t # ts)"
  shows "map (snd \<circ> snd) (snd (order_run arrivals)) =
    map (\<lambda>u. Some (u - RTP_SEQ_MOD * (t div RTP_SEQ_MOD))) (t # ts)"
proof -
  let ?f = "\<lambda>s a. (fst (order_step s a), snd (snd (snd (order_step s a))))"
  obtain a as where as: "arrivals = a # as" "fst a = t mod RTP_SEQ_MOD"
    "map fst as = map (\<lambda>u. u mod RTP_SEQ_MOD) ts" using assms(3) by (cases arrivals) auto
  have r: "0 \<le> fst a" "fst a < RTP_SEQ_MOD" by (simp_all add: as(2) RTP_SEQ_MOD_def)
  have n: "source_inv (packet_counted new_source)" "so_highest (packet_counted new_source) = None"
    by (simp add: source_inv_new) (simp add: new_source_def)
  have st: "order_step new_source a = (let r = order_first (fst a) (snd a) (packet_counted new_source)
      in (fst r, so_epoch (fst r), fst (snd r), fst (snd (snd r))))"
    using n(2) by (simp add: order_step_def order_packet_counted split_beta Let_def)
  note f = order_first_inv [OF n r, of "snd a"]
  have "rtp_sequence.tracks (fst (order_step new_source a)) (RTP_SEQ_MOD * (t div RTP_SEQ_MOD)) t"
    unfolding rtp_sequence.tracks_def
    using f as(2) minus_mult_div_eq_mod [of t RTP_SEQ_MOD] by (simp add: st Let_def)
  from rtp_sequence.track_run [OF this as(3) assms(1,2)]
  have run: "snd (run_steps ?f (fst (order_step new_source a)) as) =
    map (\<lambda>u. Some (u - RTP_SEQ_MOD * (t div RTP_SEQ_MOD))) ts" by blast
  have "snd (run_steps ?f new_source arrivals) = snd (snd (snd (order_step new_source a))) #
      snd (run_steps ?f (fst (order_step new_source a)) as)"
    by (simp add: as(1) split_beta Let_def)
  moreover have "snd (snd (snd (order_step new_source a))) = Some (t - RTP_SEQ_MOD * (t div RTP_SEQ_MOD))"
    using f as(2) minus_mult_div_eq_mod [of t RTP_SEQ_MOD] by (simp add: st Let_def)
  ultimately show ?thesis
    using run run_steps_map [of order_step "\<lambda>r. snd (snd r)" new_source arrivals]
    by (simp add: order_run_def comp_def)
qed

theorem rtp_sequence_extension_witness:
  "map (snd \<circ> snd) (snd (order_run [(65535, ''a''), (1, ''c''), (0, ''b''), (65535, ''a''), (2, ''d'')])) =
    map Some [65535, 65537, 65536, 65535, 65538]"
  using rtp_sequence_extension [of 131071 "[131073, 131072, 131071, 131074]"
      "[(65535, ''a''), (1, ''c''), (0, ''b''), (65535, ''a''), (2, ''d'')]"]
  by (simp add: rtp_constants)

text \<open>C6. The extended RTP timestamps are those of a clock that never wraps: under a declared
  forward bound below half the modulus, as long as no tick is further than the bound from the
  highest one so far and none lies before the cycle of the first, every tick is reported as the
  true one, counted from the start of that cycle.\<close>

theorem rtp_tick_extension:
  assumes "0 \<le> max_forward" "2 * max_forward < RTP_TS_MOD"
    and "in_windows max_forward max_forward t ts"
    and "\<forall>u \<in> set ts. RTP_TS_MOD * (t div RTP_TS_MOD) \<le> u"
  shows "snd (tick_run max_forward (map (\<lambda>u. u mod RTP_TS_MOD) (t # ts))) =
    map (\<lambda>u. Some (u - RTP_TS_MOD * (t div RTP_TS_MOD))) (t # ts)"
proof -
  let ?f = "\<lambda>s t. (fst (tick t max_forward s), snd (snd (tick t max_forward s)))"
  have b: "tick_bound max_forward = max_forward" using assms(1,2) by (simp add: tick_bound_def)
  let ?r = "t mod RTP_TS_MOD"
  have r: "0 \<le> ?r" "?r < RTP_TS_MOD" by (simp_all add: RTP_TS_MOD_def)
  let ?s1 = "new_source\<lparr>so_highest_timestamp := Some ?r, so_first_extended_timestamp := Some ?r\<rparr>"
  have s1: "tick ?r max_forward new_source = (?s1, TickFirst, Some ?r)"
    by (simp add: tick_def new_source_def)
  have "rtp_ticks.tracks ?s1 (RTP_TS_MOD * (t div RTP_TS_MOD)) t"
    unfolding rtp_ticks.tracks_def
    using r minus_mult_div_eq_mod [of t RTP_TS_MOD] by (simp add: tick_inv_def new_source_def)
  from rtp_ticks.track_run [OF this, where f = max_forward and ts = ts and xs = "map (\<lambda>u. u mod RTP_TS_MOD) ts"]
  have "snd (run_steps ?f ?s1 (map (\<lambda>u. u mod RTP_TS_MOD) ts)) =
    map (\<lambda>u. Some (u - RTP_TS_MOD * (t div RTP_TS_MOD))) ts"
    using assms(3,4) by (simp add: b)
  then show ?thesis
    using s1 minus_mult_div_eq_mod [of t RTP_TS_MOD] by (simp add: tick_run_def split_beta Let_def)
qed

theorem rtp_tick_extension_witness:
  "snd (tick_run 90000 [4294967295, 3000, 4294967000, 6000]) = map Some [4294967295, 4294970296, 4294967000, 4294973296]"
  using rtp_tick_extension [of 90000 4294967295 "[4294970296, 4294967000, 4294973296]"]
  by (simp add: rtp_constants)


text \<open>The counters are what was returned.\<close>

definition returned :: "order_state \<Rightarrow> (int \<times> order_state \<times> int option) list \<Rightarrow> int" where
  "returned st outs = int (length (filter (\<lambda>r. fst (snd r) = st) outs))"

lemma returned_simps [simp]:
  "returned st [] = 0"
  "returned st (xs @ [r]) = returned st xs + (if fst (snd r) = st then 1 else 0)"
  by (simp_all add: returned_def)

definition counts_inv :: "source_counts \<Rightarrow> int \<Rightarrow> (int \<times> order_state \<times> int option) list \<Rightarrow> bool" where
  "counts_inv c epoch outs \<longleftrightarrow>
     sc_packets c = int (length outs) \<and>
     sc_in_order c = returned First outs + returned InOrder outs \<and>
     sc_duplicate c = returned Duplicate outs \<and>
     sc_repeated_sequence_new_payload c = returned RepeatedNewPayload outs \<and>
     sc_reorder c = returned Reorder outs \<and>
     sc_discontinuity_unknown c = returned DiscontinuityUnknown outs + returned Restart outs \<and>
     sc_restarts c = returned Restart outs \<and> epoch = returned Restart outs"

fun count_state :: "order_state \<Rightarrow> source_counts \<Rightarrow> source_counts" where
  "count_state First c = c\<lparr>sc_in_order := sc_in_order c + 1\<rparr>"
| "count_state InOrder c = c\<lparr>sc_in_order := sc_in_order c + 1\<rparr>"
| "count_state Duplicate c = c\<lparr>sc_duplicate := sc_duplicate c + 1\<rparr>"
| "count_state RepeatedNewPayload c =
     c\<lparr>sc_repeated_sequence_new_payload := sc_repeated_sequence_new_payload c + 1\<rparr>"
| "count_state Reorder c = c\<lparr>sc_reorder := sc_reorder c + 1\<rparr>"
| "count_state DiscontinuityUnknown c = c\<lparr>sc_discontinuity_unknown := sc_discontinuity_unknown c + 1\<rparr>"
| "count_state Restart c = c\<lparr>sc_discontinuity_unknown := sc_discontinuity_unknown c + 1,
     sc_restarts := sc_restarts c + 1\<rparr>"

text \<open>
  What every branch returns: the counters of its state, the epoch, and the number that a
  discontinuity waits for.
\<close>

definition branch_ok :: "int \<Rightarrow> source_state \<Rightarrow> order_result \<Rightarrow> bool" where
  "branch_ok q s r \<longleftrightarrow> so_counts (fst r) = count_state (fst (snd r)) (so_counts s) \<and>
     so_epoch (fst r) = so_epoch s + (if fst (snd r) = Restart then 1 else 0) \<and>
     (fst (snd r) = Restart \<longrightarrow> so_bad_sequence s = Some q) \<and>
     (so_bad_sequence (fst r) \<noteq> None \<longrightarrow>
        so_bad_sequence (fst r) = Some ((q + 1) mod RTP_SEQ_MOD) \<and> fst (snd r) = DiscontinuityUnknown
        \<or> so_highest s = None \<and> so_bad_sequence (fst r) = so_bad_sequence s)"

lemma branch_first: "so_highest s = None \<Longrightarrow> branch_ok q s (order_first q d s)"
  by (simp add: branch_ok_def order_first_def Let_def)

lemma branch_forward: "branch_ok q s (order_forward h q d e st s)"
  by (simp add: branch_ok_def order_forward_def Let_def)

lemma branch_late: "branch_ok q s (order_late d e st s)"
  by (cases e) (simp_all add: branch_ok_def order_late_def Let_def)

lemma branch_unknown: "branch_ok q s (order_unknown q d s)"
  by (cases "so_bad_sequence s = Some q") (simp_all add: branch_ok_def order_unknown_def Let_def)

lemma bump_duplicate_counts [simp]:
  "so_counts (bump_duplicate s) = count_state Duplicate (so_counts s)"
  by (simp add: bump_duplicate_def)

lemma branch_known: "branch_ok q s (order_known h q d s)"
proof -
  obtain kind ext step where r: "resolve_sequence (so_cycles s) h q = (kind, ext, step)"
    by (metis prod_cases3)
  have quiet: "order_known h q d s = (case kind of
      RepeatOfHighest \<Rightarrow> (remember (the ext) d ((bump_duplicate s)\<lparr>so_bad_sequence := None\<rparr>), Duplicate, ext, Some 0)
    | Forward \<Rightarrow> order_forward h q d (the ext) step s
    | Late \<Rightarrow> order_late d ext step s
    | Unknown \<Rightarrow> order_unknown q d s)"
    if "ext = None \<or> so_seen s (so_epoch s, the ext) = None"
    using that r by (auto simp: order_known_def repeat_of_def split: option.split)
  have known: "order_known h q d s = (let (st, s1) = (if known = d then (Duplicate, bump_duplicate s)
      else (RepeatedNewPayload, s\<lparr>so_counts := count_state RepeatedNewPayload (so_counts s)\<rparr>))
      in (remember (the ext) d (s1\<lparr>so_bad_sequence := None\<rparr>), st, ext, step))"
    if "ext = Some x" "so_seen s (so_epoch s, x) = Some known" for x known
    using that r by (simp add: order_known_def repeat_of_def)
  show ?thesis
  proof (cases "ext = None \<or> so_seen s (so_epoch s, the ext) = None")
    case True
    have "branch_ok q s (remember (the ext) d ((bump_duplicate s)\<lparr>so_bad_sequence := None\<rparr>), Duplicate, ext, Some 0)"
      by (simp add: branch_ok_def)
    then show ?thesis unfolding quiet [OF True]
      by (cases kind) (simp_all add: branch_forward branch_late branch_unknown)
  next
    case False
    then obtain x known where "ext = Some x" "so_seen s (so_epoch s, x) = Some known" by auto
    from known [OF this] show ?thesis by (simp add: branch_ok_def)
  qed
qed

lemma branch_order: "branch_ok q (packet_counted s) (order q d s)"
  by (cases "so_highest s") (simp_all add: order_packet_counted branch_first branch_known)

lemma order_counts:
  assumes "counts_inv (so_counts s) (so_epoch s) outs"
  shows "counts_inv (so_counts (fst (order_step s a))) (so_epoch (fst (order_step s a)))
    (outs @ [snd (order_step s a)])"
proof -
  let ?r = "order (fst a) (snd a) s"
  have "so_counts (fst ?r) = count_state (fst (snd ?r)) ((so_counts s)\<lparr>sc_packets := sc_packets (so_counts s) + 1\<rparr>)"
    "so_epoch (fst ?r) = so_epoch s + (if fst (snd ?r) = Restart then 1 else 0)"
    using branch_order [of "fst a" s "snd a"] by (simp_all add: branch_ok_def) (simp add: packet_counted_def)
  with assms show ?thesis
    by (cases "fst (snd ?r)") (simp_all add: counts_inv_def order_step_def split_beta Let_def)
qed

lemma counts_new: "counts_inv (so_counts new_source) (so_epoch new_source) []"
  by (simp add: counts_inv_def new_source_def)

text \<open>C7. The counters of a source account for every arrival by what was returned for it, the epoch is
  the number of restarts, and the retained evidence never exceeds its bound and holds the
  highest number.\<close>

theorem rtp_source_accounting:
  assumes "set arrivals \<subseteq> arrivals_ok"
  shows "(let (s, outs) = order_run arrivals; c = so_counts s in
    length outs = length arrivals \<and> counts_inv c (so_epoch s) outs \<and>
    sc_packets c = sc_in_order c + sc_duplicate c + sc_repeated_sequence_new_payload c + sc_reorder c
      + sc_discontinuity_unknown c \<and>
    sc_restarts c \<le> sc_discontinuity_unknown c \<and>
    length (so_seen_order s) \<le> RECENT_SEQUENCES \<and> dom (so_seen s) = set (so_seen_order s) \<and>
    (case so_highest s of None \<Rightarrow> True
     | Some h \<Rightarrow> so_seen s (so_epoch s, so_cycles s + h) \<noteq> None))"
proof -
  let ?r = "order_run arrivals" and ?s = "fst (order_run arrivals)" and ?os = "snd (order_run arrivals)"
  have step: "counts_inv (so_counts (fst (order_step t i))) (so_epoch (fst (order_step t i)))
      (os @ [snd (order_step t i)]) \<and> rtp_inv (fst (order_step t i))"
    if "counts_inv (so_counts t) (so_epoch t) os \<and> rtp_inv t" "i \<in> arrivals_ok" for os t i
    using that order_counts [of t os i] rtp_inv_order [of t "fst i" "snd i"]
    by (auto simp: arrivals_ok_def order_step_def split_beta Let_def)
  have "counts_inv (so_counts ?s) (so_epoch ?s) ?os \<and> rtp_inv ?s"
    unfolding order_run_def
    by (rule run_steps_invariant [where I = "\<lambda>is os t. counts_inv (so_counts t) (so_epoch t) os \<and> rtp_inv t", OF _ _ assms])
      (use step rtp_inv_new counts_new in blast)+
  then have c: "counts_inv (so_counts ?s) (so_epoch ?s) ?os" and inv: "source_inv ?s" "top_held ?s"
    by (simp_all add: rtp_inv_def)
  have len: "length ?os = length arrivals" by (simp add: order_run_def)
  have sum: "int (length os) = returned First os + returned InOrder os + returned Duplicate os +
      returned RepeatedNewPayload os + returned Reorder os + returned DiscontinuityUnknown os + returned Restart os" for os
  proof (induction os rule: rev_induct)
    case (snoc x xs)
    then show ?case by (cases "fst (snd x)") simp_all
  qed simp
  have pos: "0 \<le> returned DiscontinuityUnknown ?os" by (simp add: returned_def)
  have top: "case so_highest ?s of None \<Rightarrow> True | Some h \<Rightarrow> so_seen ?s (so_epoch ?s, so_cycles ?s + h) \<noteq> None"
    using top_held_seen [OF inv] by (auto split: option.split)
  have "evidence_ok ?s" using inv by (simp add: source_inv_def)
  with c sum [of ?os] pos len top show ?thesis
    unfolding split_beta Let_def counts_inv_def evidence_ok_def by (simp del: not_None_eq)
qed

theorem rtp_source_accounting_witness:
  "sc_packets (so_counts (fst (order_run [(7, ''a''), (8, ''b''), (7, ''a'')]))) = 3"
proof -
  have "set [(7, ''a''), (8, ''b''), (7, ''a'')] \<subseteq> arrivals_ok"
    by (simp add: arrivals_ok_def RTP_SEQ_MOD_def)
  from rtp_source_accounting [OF this] show ?thesis
    by (simp add: split_beta Let_def counts_inv_def)
qed

text \<open>A restart follows directly on the discontinuity that announced its number.\<close>

definition pending_ok :: "(int \<times> string) list \<Rightarrow> (int \<times> order_state \<times> int option) list \<Rightarrow> source_state \<Rightarrow> bool" where
  "pending_ok arrivals outs s \<longleftrightarrow> (case so_bad_sequence s of None \<Rightarrow> True
     | Some b \<Rightarrow> arrivals \<noteq> [] \<and> fst (snd (last outs)) = DiscontinuityUnknown \<and>
         b = (fst (last arrivals) + 1) mod RTP_SEQ_MOD)"

lemma order_pending:
  assumes "pending_ok arrivals outs s" and "so_highest s = None \<longrightarrow> so_bad_sequence s = None"
  shows "pending_ok (arrivals @ [a]) (outs @ [snd (order_step s a)]) (fst (order_step s a))"
    "fst (snd (snd (order_step s a))) = Restart \<Longrightarrow> so_bad_sequence s = Some (fst a)"
    "so_highest (fst (order_step s a)) \<noteq> None"
proof -
  let ?r = "order (fst a) (snd a) s"
  have b: "fst (snd ?r) = Restart \<longrightarrow> so_bad_sequence s = Some (fst a)"
    "so_bad_sequence (fst ?r) \<noteq> None \<longrightarrow>
        so_bad_sequence (fst ?r) = Some ((fst a + 1) mod RTP_SEQ_MOD) \<and> fst (snd ?r) = DiscontinuityUnknown"
    using branch_order [of "fst a" s "snd a"] assms(2) by (auto simp: branch_ok_def)
  have e: "order_step s a = (fst ?r, so_epoch (fst ?r), fst (snd ?r), fst (snd (snd ?r)))"
    by (simp add: order_step_def split_beta Let_def)
  from b show "pending_ok (arrivals @ [a]) (outs @ [snd (order_step s a)]) (fst (order_step s a))"
    "fst (snd (snd (order_step s a))) = Restart \<Longrightarrow> so_bad_sequence s = Some (fst a)"
    unfolding e by (auto simp: pending_ok_def split: option.split)
  show "so_highest (fst (order_step s a)) \<noteq> None"
  proof (cases "so_highest s")
    case None
    then show ?thesis unfolding e by (simp add: order_packet_counted order_first_def Let_def)
  next
    case (Some h)
    obtain kind ext step where r: "resolve_sequence (so_cycles s) h (fst a) = (kind, ext, step)"
      by (metis prod_cases3)
    have unk: "so_highest (fst (order_unknown q d t)) \<noteq> None" if "so_highest t \<noteq> None" for q d t
      using that by (cases "so_bad_sequence t = Some q") (auto simp: order_unknown_def Let_def)
    have late: "so_highest (fst (order_late d x st t)) \<noteq> None" if "so_highest t \<noteq> None" for d x st t
      using that by (cases x) (auto simp: order_late_def Let_def)
    show ?thesis unfolding e using r Some unk [of "packet_counted s"] late [of "packet_counted s"]
      by (auto simp: order_packet_counted order_known_def repeat_of_def order_forward_def Let_def
          split: option.split arrival.split)
  qed
qed

text \<open>C8. No new epoch is opened on one packet: an arrival is a restart only when the arrival just
  before it on the same source was an unsized discontinuity and its number is the next one.\<close>

theorem rtp_restart_confirmed:
  assumes "snd (order_run arrivals) ! i = (ep, Restart, e)" and "i < length arrivals"
  shows "0 < i \<and> fst (snd (snd (order_run arrivals) ! (i - 1))) = DiscontinuityUnknown \<and>
    fst (arrivals ! i) = (fst (arrivals ! (i - 1)) + 1) mod RTP_SEQ_MOD"
proof -
  define I where "I = (\<lambda>as os s. length os = length as \<and> pending_ok as os s \<and>
    (so_highest s = None \<longrightarrow> so_bad_sequence s = None) \<and>
    (\<forall>i < length as. fst (snd (os ! i)) = Restart \<longrightarrow> 0 < i \<and>
      fst (snd (os ! (i - 1))) = DiscontinuityUnknown \<and>
      fst (as ! i) = (fst (as ! (i - 1)) + 1) mod RTP_SEQ_MOD))"
  have step: "I (as @ [a]) (os @ [snd (order_step s a)]) (fst (order_step s a))" if "I as os s" for as os s a
  proof -
    have inv: "length os = length as" "pending_ok as os s" "so_highest s = None \<longrightarrow> so_bad_sequence s = None"
      "\<forall>i < length as. fst (snd (os ! i)) = Restart \<longrightarrow> 0 < i \<and>
        fst (snd (os ! (i - 1))) = DiscontinuityUnknown \<and>
        fst (as ! i) = (fst (as ! (i - 1)) + 1) mod RTP_SEQ_MOD"
      using that unfolding I_def by blast+
    note o = order_pending [OF inv(2,3), of a]
    have new: "0 < length as \<and> fst (snd (os ! (length as - 1))) = DiscontinuityUnknown \<and>
        fst a = (fst (as ! (length as - 1)) + 1) mod RTP_SEQ_MOD"
      if "fst (snd (snd (order_step s a))) = Restart"
    proof -
      have p: "as \<noteq> []" "fst (snd (last os)) = DiscontinuityUnknown"
        "fst a = (fst (last as) + 1) mod RTP_SEQ_MOD"
        using inv(2) unfolding pending_ok_def o(2) [OF that] option.case by blast+
      from p(1) inv(1) have ne: "os \<noteq> []" by auto
      have "last os = os ! (length as - 1)" using last_conv_nth [OF ne] inv(1) by simp
      with p last_conv_nth [OF p(1)] show ?thesis by auto
    qed
    show ?thesis
      unfolding I_def
    proof (intro conjI allI impI)
      fix j
      assume j: "j < length (as @ [a])" and r: "fst (snd ((os @ [snd (order_step s a)]) ! j)) = Restart"
      have "0 < j \<and> fst (snd ((os @ [snd (order_step s a)]) ! (j - 1))) = DiscontinuityUnknown \<and>
        fst ((as @ [a]) ! j) = (fst ((as @ [a]) ! (j - 1)) + 1) mod RTP_SEQ_MOD"
      proof (cases "j < length as")
        case True
        then have "fst (snd (os ! j)) = Restart" using r inv(1) by (simp add: nth_append)
        with inv(4) True have *: "0 < j \<and> fst (snd (os ! (j - 1))) = DiscontinuityUnknown \<and>
            fst (as ! j) = (fst (as ! (j - 1)) + 1) mod RTP_SEQ_MOD" by blast
        have lt: "j - 1 < length as" "j - 1 < length os" "j < length os" using True inv(1) by auto
        show ?thesis using * unfolding nth_append using True lt by simp
      next
        case False
        with j have "j = length as" by simp
        with r inv(1) new show ?thesis by (simp add: nth_append)
      qed
      then show "0 < j" "fst (snd ((os @ [snd (order_step s a)]) ! (j - 1))) = DiscontinuityUnknown"
        "fst ((as @ [a]) ! j) = (fst ((as @ [a]) ! (j - 1)) + 1) mod RTP_SEQ_MOD" by blast+
    qed (use o(1,3) inv(1) in auto)
  qed
  have init: "I [] [] new_source" by (simp add: I_def pending_ok_def) (simp add: new_source_def)
  have "I arrivals (snd (order_run arrivals)) (fst (order_run arrivals))"
    unfolding order_run_def
    by (rule run_steps_invariant [where I = I and A = UNIV]) (use init step in blast)+
  with assms show ?thesis unfolding I_def by (metis fst_conv snd_conv)
qed

theorem rtp_restart_confirmed_witness:
  "snd (order_run [(7, ''a''), (9000, ''b''), (9001, ''c'')]) ! 2 = (1, Restart, Some 9001) \<and>
    fst (snd (snd (order_run [(7, ''a''), (9000, ''b''), (9001, ''c'')]) ! 1)) = DiscontinuityUnknown"
proof -
  have "snd (order_run [(7, ''a''), (9000, ''b''), (9001, ''c'')]) ! 2 = (1, Restart, Some 9001)"
    by (simp add: order_run_def order_step_def order_def order_first_def order_known_def resolve_sequence_def
        order_unknown_def remember_def new_source_def rtp_constants Let_def)
  from rtp_restart_confirmed [OF this] this show ?thesis by simp
qed


lemma remember_seen_le:
  assumes "evidence_ok s" "so_seen (remember e d s) k = Some v"
  shows "so_seen s k = Some v \<or> k = (so_epoch s, e) \<and> v = d"
  using assms(2) unfolding remember_seen [OF assms(1)] by (auto split: if_splits)

lemma order_seen:
  assumes "rtp_inv s" "0 \<le> q" "q < RTP_SEQ_MOD"
    and "order q d s = (s', st, ext, step)" "so_seen s' k = Some v"
  shows "so_seen s k = Some v \<or> (\<exists>e. ext = Some e \<and> k = (so_epoch s', e) \<and> v = d)"
proof -
  let ?p = "packet_counted s"
  have ev: "evidence_ok ?p" "source_inv ?p"
    using assms(1) by (simp add: rtp_inv_def source_inv_def) (use assms(1) in \<open>simp add: rtp_inv_def\<close>)
  have rem: "so_seen s k = Some v \<or> k = (so_epoch t, e) \<and> v = d"
    if "so_seen (remember e d t) k = Some v" "so_seen t = so_seen s" "so_seen_order t = so_seen_order s" for t e
    using remember_seen_le [OF _ that(1)] that ev(1) by (simp add: evidence_ok_def)
  show ?thesis
  proof (cases "so_highest s")
    case None
    with assms(4,5) show ?thesis
      by (auto simp: order_packet_counted order_first_def Let_def dest!: rem)
  next
    case (Some h)
    have p: "so_highest ?p = Some h" using Some by simp
    note k = source_inv_known [OF ev(2) p]
    have o: "order_known h q d ?p = (s', st, ext, step)" using assms(4) Some by (simp add: order_packet_counted)
    show ?thesis
      using k(3,4) assms(2,3)
    proof (cases rule: resolve_cases [where cycles = "so_cycles ?p"])
      case 1
      then show ?thesis using o assms(5) unfolding order_known_def 1(2)
        by (cases rule: repeat_of_cases [of ?p "so_cycles s + h" d]) (auto dest!: rem)
    next
      case 2
      then show ?thesis using o assms(5) unfolding order_known_def 2(3) order_forward_def Let_def
        by (cases rule: repeat_of_cases [of ?p "so_cycles s + (if q < h then RTP_SEQ_MOD else 0) + q" d])
          (simp_all, (auto dest!: rem)+)
    next
      case 3
      define e where "e = so_cycles ?p - (if q > h then RTP_SEQ_MOD else 0) + q"
      show ?thesis using o assms(5) unfolding order_known_def 3(3) e_def [symmetric] order_late_def Let_def
        by (cases "e < 0"; cases rule: repeat_of_cases [of ?p e d]) (auto dest!: rem)
    next
      case 4
      then have u: "order_unknown q d ?p = (s', st, ext, step)" using o by (simp add: order_known_def)
      show ?thesis
      proof (cases "so_bad_sequence s = Some q")
        case True
        have new: "k = (so_epoch t, q) \<and> v = d" if "so_seen (remember q d t) k = Some v"
          "so_seen t = Map.empty" "so_seen_order t = []" for t
          using remember_seen_le [OF _ that(1)] that by (simp add: evidence_ok_def)
        show ?thesis using True u assms(5) by (auto simp: order_unknown_def Let_def dest!: new)
      next
        case False
        then show ?thesis using u assms(5) by (auto simp: order_unknown_def Let_def)
      qed
    qed
  qed
qed

text \<open>A repeat is decided by the evidence, and by nothing else.\<close>

lemma order_repeat:
  assumes "rtp_inv s" "0 \<le> q" "q < RTP_SEQ_MOD" "order q d s = (s', st, ext, step)"
  shows "case st of
      Duplicate \<Rightarrow> (\<exists>e. ext = Some e \<and> so_epoch s' = so_epoch s \<and> so_seen s (so_epoch s, e) = Some d)
    | RepeatedNewPayload \<Rightarrow> (\<exists>e u. ext = Some e \<and> so_epoch s' = so_epoch s \<and>
        so_seen s (so_epoch s, e) = Some u \<and> u \<noteq> d)
    | DiscontinuityUnknown \<Rightarrow> ext = None
    | Restart \<Rightarrow> ext = Some q \<and> so_epoch s' = so_epoch s + 1
    | _ \<Rightarrow> so_epoch s' = so_epoch s \<and> (case ext of None \<Rightarrow> True | Some e \<Rightarrow> so_seen s (so_epoch s, e) = None)"
proof -
  let ?p = "packet_counted s"
  have ev: "evidence_ok ?p" "source_inv ?p" "top_held ?p"
    using assms(1) by (simp add: rtp_inv_def source_inv_def) (use assms(1) in \<open>simp_all add: rtp_inv_def\<close>)
  show ?thesis
  proof (cases "so_highest s")
    case None
    have "so_seen s = Map.empty" "so_cycles s = 0"
      using None ev(1,2) by (auto simp: source_inv_def evidence_ok_def)
    with None assms(4) show ?thesis
      by (auto simp: order_packet_counted order_first_def Let_def)
  next
    case (Some h)
    have p: "so_highest ?p = Some h" using Some by simp
    note k = source_inv_known [OF ev(2) p]
    have o: "order_known h q d ?p = (s', st, ext, step)" using assms(4) Some by (simp add: order_packet_counted)
    show ?thesis
      using k(3,4) assms(2,3)
    proof (cases rule: resolve_cases [where cycles = "so_cycles ?p"])
      case 1
      have "so_seen ?p (so_epoch ?p, so_cycles ?p + h) \<noteq> None" by (rule top_held_seen [OF ev(2,3) p])
      then show ?thesis using o unfolding order_known_def 1(2)
        by (cases rule: repeat_of_cases [of ?p "so_cycles s + h" d]) auto
    next
      case 2
      define e where "e = so_cycles ?p + (if q < h then RTP_SEQ_MOD else 0) + q"
      have un: "so_seen ?p (so_epoch ?p, e) = None"
        using unseen_above [OF ev(2) p, of e] forward_above [OF k(3,4) assms(2,3) 2(1)]
        by (simp add: e_def)
      have "repeat_of e d ?p = (None, ?p)" using un by (simp add: repeat_of_def)
      then show ?thesis using o un
        unfolding order_known_def 2(3) e_def [symmetric] order_forward_def Let_def by auto
    next
      case 3
      define e where "e = so_cycles ?p - (if q > h then RTP_SEQ_MOD else 0) + q"
      show ?thesis using o unfolding order_known_def 3(3) e_def [symmetric] order_late_def Let_def
        by (cases "e < 0"; cases rule: repeat_of_cases [of ?p e d]) auto
    next
      case 4
      then have u: "order_unknown q d ?p = (s', st, ext, step)" using o by (simp add: order_known_def)
      then show ?thesis
        by (cases "so_bad_sequence s = Some q") (auto simp: order_unknown_def Let_def)
    qed
  qed
qed


text \<open>C9. A repeat is named only on evidence: an arrival reported as a duplicate has an earlier
  arrival of the same source, in the same epoch and under the same extended number, with the
  same payload digest; one reported as a repeated number with a new payload has such an earlier
  arrival with another digest.\<close>

theorem rtp_repeat_has_evidence:
  assumes "set arrivals \<subseteq> arrivals_ok" and "i < length arrivals"
    and "snd (order_run arrivals) ! i = (ep, st, ext)" and "st = Duplicate \<or> st = RepeatedNewPayload"
  shows "\<exists>j e. j < i \<and> ext = Some e \<and> fst (snd (order_run arrivals) ! j) = ep \<and>
    snd (snd (snd (order_run arrivals) ! j)) = Some e \<and>
    (st = Duplicate \<longleftrightarrow> snd (arrivals ! j) = snd (arrivals ! i))"
proof -
  define E where "E = (\<lambda>as (os :: (int \<times> order_state \<times> int option) list) k v n.
    \<exists>j < n. fst (os ! j) = fst k \<and> snd (snd (os ! j)) = Some (snd k) \<and> snd ((as :: (int \<times> string) list) ! j) = (v :: string))"
  define I where "I = (\<lambda>as os s. length os = length as \<and> rtp_inv s \<and>
    (\<forall>k v. so_seen s k = Some v \<longrightarrow> E as os k v (length as)) \<and>
    (\<forall>i < length as. \<forall>ep st ext. os ! i = (ep, st, ext) \<and> (st = Duplicate \<or> st = RepeatedNewPayload) \<longrightarrow>
       (\<exists>e v. ext = Some e \<and> E as os (ep, e) v i \<and> (st = Duplicate \<longleftrightarrow> v = snd (as ! i)))))"
  have E_append: "E (as @ [a]) (os @ [r]) k v n \<longleftrightarrow> E as os k v n" if "n \<le> length as" "length os = length as"
    for as os a r k v n
    unfolding E_def by (intro ex_cong1 conj_cong refl) (use that in \<open>simp_all add: nth_append\<close>)
  have E_mono: "E as os k v n \<Longrightarrow> n \<le> m \<Longrightarrow> E as os k v m" for as os k v n m
    unfolding E_def by (blast intro: less_le_trans)
  have step: "I (as @ [a]) (os @ [snd (order_step s a)]) (fst (order_step s a))"
    if "I as os s" "a \<in> arrivals_ok" for as os s a
  proof -
    obtain s' st ext step where r: "order (fst a) (snd a) s = (s', st, ext, step)" by (metis prod_cases4)
    have os': "order_step s a = (s', so_epoch s', st, ext)" by (simp add: order_step_def r)
    have len: "length os = length as" and inv: "rtp_inv s"
      and seen: "\<And>k v. so_seen s k = Some v \<Longrightarrow> E as os k v (length as)"
      using that(1) unfolding I_def by blast+
    have rng: "0 \<le> fst a" "fst a < RTP_SEQ_MOD" using that(2) by (auto simp: arrivals_ok_def)
    have inv': "rtp_inv s'" using rtp_inv_order [OF inv rng, of "snd a"] by (simp add: r)
    have seen': "E (as @ [a]) (os @ [(so_epoch s', st, ext)]) k v (length (as @ [a]))" if "so_seen s' k = Some v" for k v
    proof (cases "so_seen s k = Some v")
      case True
      then have "E as os k v (length as)" using seen by blast
      then have "E (as @ [a]) (os @ [(so_epoch s', st, ext)]) k v (length as)"
        using E_append [OF order_refl len] by blast
      then show ?thesis by (rule E_mono) simp
    next
      case False
      with order_seen [OF inv rng r that] obtain e where "ext = Some e" "k = (so_epoch s', e)" "v = snd a" by blast
      then show ?thesis unfolding E_def by (intro exI [of _ "length as"]) (simp add: nth_append len)
    qed
    have last: "\<exists>e v. ext = Some e \<and> E as os (so_epoch s', e) v (length as) \<and> (st = Duplicate \<longleftrightarrow> v = snd a)"
      if "st = Duplicate \<or> st = RepeatedNewPayload"
    proof -
      from that obtain e v where e: "ext = Some e" "so_epoch s' = so_epoch s"
        "so_seen s (so_epoch s, e) = Some v" "st = Duplicate \<longleftrightarrow> v = snd a"
        using order_repeat [OF inv rng r] by (elim disjE) auto
      from seen e(3) have "E as os (so_epoch s, e) v (length as)" by blast
      with e(1,4) show ?thesis unfolding e(2) by (intro exI [of _ e] exI [of _ v]) simp
    qed
    have old: "\<exists>e v. ext' = Some e \<and> E as os (ep, e) v i \<and> (st' = Duplicate \<longleftrightarrow> v = snd (as ! i))"
      if "i < length as" "os ! i = (ep, st', ext')" "st' = Duplicate \<or> st' = RepeatedNewPayload" for i ep st' ext'
      using \<open>I as os s\<close> that unfolding I_def by blast
    show ?thesis
      unfolding I_def os' fst_conv snd_conv
    proof (intro conjI allI impI)
      fix i ep st' ext'
      assume i: "i < length (as @ [a])"
        and d: "(os @ [(so_epoch s', st, ext)]) ! i = (ep, st', ext') \<and> (st' = Duplicate \<or> st' = RepeatedNewPayload)"
      show "\<exists>e v. ext' = Some e \<and> E (as @ [a]) (os @ [(so_epoch s', st, ext)]) (ep, e) v i \<and>
          (st' = Duplicate \<longleftrightarrow> v = snd ((as @ [a]) ! i))"
      proof (cases "i < length as")
        case True
        then have at: "(os @ [(so_epoch s', st, ext)]) ! i = os ! i" "(as @ [a]) ! i = as ! i"
          using len by (simp_all add: nth_append)
        from d old [OF True, of ep st' ext'] have "\<exists>e v. ext' = Some e \<and> E as os (ep, e) v i \<and>
            (st' = Duplicate \<longleftrightarrow> v = snd (as ! i))" unfolding at by blast
        then show ?thesis unfolding at using E_append [of i as os] True len by simp
      next
        case False
        with i have "i = length as" by simp
        then have at: "(os @ [(so_epoch s', st, ext)]) ! i = (so_epoch s', st, ext)" "(as @ [a]) ! i = a"
          using len by (simp_all add: nth_append)
        from d have eq: "ep = so_epoch s'" "st' = st" "ext' = ext" "st = Duplicate \<or> st = RepeatedNewPayload"
          unfolding at by auto
        show ?thesis unfolding at eq(1-3) using last [OF eq(4)] E_append [of i as os] \<open>i = _\<close> len by simp
      qed
    qed (use len inv' seen' in auto)
  qed
  have init: "I [] [] new_source" using rtp_inv_new by (simp add: I_def) (simp add: new_source_def)
  have "I arrivals (snd (order_run arrivals)) (fst (order_run arrivals))"
    unfolding order_run_def
    by (rule run_steps_invariant [where I = I and A = arrivals_ok, OF _ _ assms(1)]) (use init step in blast)+
  with assms(2-4) have "\<exists>e v. ext = Some e \<and> E arrivals (snd (order_run arrivals)) (ep, e) v i \<and>
      (st = Duplicate \<longleftrightarrow> v = snd (arrivals ! i))" unfolding I_def by blast
  then show ?thesis unfolding E_def by auto
qed

theorem rtp_repeat_has_evidence_witness:
  "\<exists>j. j < 2 \<and> snd (snd (snd (order_run [(7, ''a''), (8, ''b''), (7, ''a'')]) ! j)) = Some 7 \<and>
    snd ([(7, ''a''), (8, ''b''), (7 :: int, ''a'')] ! j) = ''a''"
proof -
  have r: "snd (order_run [(7, ''a''), (8, ''b''), (7, ''a'')]) ! 2 = (0, Duplicate, Some 7)"
    by (simp add: order_run_def order_step_def order_def order_first_def order_known_def resolve_sequence_def
        order_forward_def repeat_of_def remember_def new_source_def rtp_constants Let_def)
  have "set [(7, ''a''), (8, ''b''), (7, ''a'')] \<subseteq> arrivals_ok"
    by (simp add: arrivals_ok_def RTP_SEQ_MOD_def)
  from rtp_repeat_has_evidence [OF this _ r] show ?thesis by auto
qed

text \<open>The evidence of a number lasts: a number remembered for the first time in an epoch is
  still known, with the digest it came with, after up to 511 other numbers have been remembered,
  so an arrival that repeats it with the same payload is a duplicate and one with another
  payload is not.\<close>

theorem rtp_evidence_retained:
  assumes "evidence_ok s" and "fst ` set (so_seen_order s) \<subseteq> {so_epoch s}"
    and "so_seen s (so_epoch s, e) = None" and "e \<notin> fst ` set later" and "length later < RECENT_SEQUENCES"
  shows "fst (repeat_of e d' (foldl (\<lambda>s n. remember (fst n) (snd n) s) (remember e d s) later)) =
    Some (if d' = d then Duplicate else RepeatedNewPayload)"
proof -
  let ?t = "foldl (\<lambda>s n. remember (fst n) (snd n) s) (remember e d s) later"
  have s: "evidence_ok s \<and> (\<forall>k \<in> set (so_seen_order s). fst k = so_epoch s)"
    using assms(1,2) by auto
  have "e \<notin> set (map snd (so_seen_order s))"
    using evidence.recall_held [OF s, of e] assms(3) by blast
  from evidence.fresh_recalled [OF s this assms(4,5), of d]
  have "so_seen ?t (so_epoch ?t, e) = Some d" unfolding evidence.note_all_def .
  then show ?thesis by (simp add: repeat_of_def)
qed

theorem rtp_evidence_retained_witness:
  "fst (repeat_of 7 ''a'' (foldl (\<lambda>s n. remember (fst n) (snd n) s) (remember 7 ''a'' new_source)
      [(8, ''b''), (9, ''c'')])) = Some Duplicate"
  using rtp_evidence_retained [of new_source 7 "[(8, ''b''), (9, ''c'')]" "''a''" "''a''"]
  by (simp add: evidence_ok_def new_source_def RECENT_SEQUENCES_def)

end
