(* ===== verification/Rtp_Records.thy ===== *)
theory Rtp_Records
  imports Rtp_Source Datagrams
begin

text \<open>
  The RTP header parser and the per-packet conversion of
  \<^verbatim>\<open>scripts/convert_rtp_records.py\<close>: a saved capture becomes one row per retained packet
  and a report with one entry per source. Datagrams come from the shared walker, the ordering
  and timing of a packet from its \<^verbatim>\<open>_Source\<close>.
\<close>

section \<open>The selected clock rate\<close>

definition RFC3551_CLOCK_RATE :: "(int \<times> int) list" where
  "RFC3551_CLOCK_RATE =
    [(0, 8000), (3, 8000), (4, 8000), (5, 8000), (6, 16000), (7, 8000), (8, 8000), (9, 8000),
     (10, 44100), (11, 44100), (12, 8000), (13, 8000), (14, 90000), (15, 8000), (16, 11025),
     (17, 22050), (18, 8000), (25, 90000), (26, 90000), (28, 90000), (31, 90000), (32, 90000),
     (33, 90000), (34, 90000)]"

definition MAX_CLOCK_RATE :: int where "MAX_CLOCK_RATE = 1000000000"
definition FIXED_HEADER :: nat where "FIXED_HEADER = 12"
definition MAX_EXTENSION_BYTES :: nat where "MAX_EXTENSION_BYTES = 4096"
definition MAX_SOURCES :: nat where "MAX_SOURCES = 1024"
definition REPORT_LIMIT :: nat where "REPORT_LIMIT = 32 * 1024 * 1024"

definition CAPTURE_BASIS :: string where "CAPTURE_BASIS = ''CAPTURE_REPORTED_NOT_AUTHENTICATED''"
definition RATE_DECLARED :: string where "RATE_DECLARED = ''DECLARED_BY_CALLER_NOT_OBSERVED''"
definition RATE_STATIC :: string where "RATE_STATIC = ''RFC3551_STATIC_PAYLOAD_TYPE''"
definition HEX_PREFIX :: string where "HEX_PREFIX = ''hex:''"

definition selected_clock_rate :: "int option \<Rightarrow> int option \<Rightarrow> bool \<Rightarrow> (int \<times> string) result" where
  "selected_clock_rate payload_type declared_rate use_static =
     (let static = (if use_static
                    then (case payload_type of None \<Rightarrow> None | Some pt \<Rightarrow> map_of RFC3551_CLOCK_RATE pt)
                    else None)
      in case declared_rate of
           Some rate \<Rightarrow>
             if \<not> (0 < rate \<and> rate \<le> MAX_CLOCK_RATE)
             then fail ''declared RTP clock rate must be a positive bounded integer''
             else if static \<noteq> None \<and> static \<noteq> Some rate
             then fail ''declared clock rate disagrees with the RFC3551 static rate''
             else Inr (rate, RATE_DECLARED)
         | None \<Rightarrow> (case static of
               None \<Rightarrow> fail ''payload type has no RFC3551 static clock rate; declare one explicitly''
             | Some rate \<Rightarrow> Inr (rate, RATE_STATIC)))"

text \<open>\<^verbatim>\<open>read_bounded\<close>: one read of at most one byte past the bound.\<close>

definition read_bounded :: "bytes \<Rightarrow> nat option \<Rightarrow> bytes result" where
  "read_bounded content bound =
     (let lim = (case bound of None \<Rightarrow> LIMIT | Some n \<Rightarrow> n); data = take (lim + 1) content
      in if length data > lim then fail ''saved capture exceeds the bounded input size'' else Inr data)"

section \<open>The RTP header\<close>

record rtp_packet =
  rp_marker :: bool
  rp_payload_type :: int
  rp_sequence :: int
  rp_timestamp :: int
  rp_ssrc :: int
  rp_csrc :: "int list"
  rp_extension_profile :: "int option"
  rp_extension_bytes :: "bytes option"
  rp_padding_bytes :: nat
  rp_payload :: bytes
  rp_header_bytes :: bytes

text \<open>The header extension: its profile and body, and the offset past it.\<close>

definition rtp_extension :: "bytes \<Rightarrow> bool \<Rightarrow> nat \<Rightarrow> (int option \<times> bytes option \<times> nat) result" where
  "rtp_extension datagram extension offset =
     (if \<not> extension then Inr (None, None, offset)
      else if length datagram < offset + 4 then fail ''truncated RTP extension header''
      else let profile = u16be datagram offset; words = nat (u16be datagram (offset + 2)) in
        if 4 * words > MAX_EXTENSION_BYTES then fail ''RTP extension exceeds the retained bound''
        else let offset = offset + 4 in
          if length datagram < offset + 4 * words then fail ''truncated RTP extension body''
          else Inr (Some profile, Some (bslice datagram offset (offset + 4 * words)), offset + 4 * words))"

definition rtp_padding :: "bytes \<Rightarrow> bool \<Rightarrow> (nat \<times> bytes) result" where
  "rtp_padding payload padding =
     (if \<not> padding then Inr (0, payload)
      else if payload = [] then fail ''padding declared with no payload octet''
      else let pad_bytes = unat (last payload) in
        if pad_bytes = 0 \<or> pad_bytes > length payload then fail ''invalid RTP padding length''
        else Inr (pad_bytes, take (length payload - pad_bytes) payload))"

definition parse_rtp :: "bytes \<Rightarrow> rtp_packet result" where
  "parse_rtp datagram =
     (if length datagram < FIXED_HEADER then fail ''truncated RTP fixed header''
      else let first = datagram ! 0; second = datagram ! 1 in
        if drop_bit 6 first \<noteq> 2 then fail ''unsupported RTP version''
        else let padding = (first AND 0x20 \<noteq> 0); extension = (first AND 0x10 \<noteq> 0);
                 csrc_count = unat (first AND 0x0F); marker = (second AND 0x80 \<noteq> 0);
                 payload_type = bval (second AND 0x7F);
                 sequence = u16be datagram 2; timestamp = u32be datagram 4; ssrc = u32be datagram 8;
                 offset = FIXED_HEADER + 4 * csrc_count
          in if length datagram < offset then fail ''truncated RTP CSRC list''
             else let csrc = map (\<lambda>i. u32be datagram (FIXED_HEADER + 4 * i)) [0..<csrc_count] in
               rbind (rtp_extension datagram extension offset) (\<lambda>(profile, extension_bytes, offset).
               rbind (rtp_padding (drop offset datagram) padding) (\<lambda>(pad_bytes, payload).
                 Inr \<lparr>rp_marker = marker, rp_payload_type = payload_type, rp_sequence = sequence,
                   rp_timestamp = timestamp, rp_ssrc = ssrc, rp_csrc = csrc,
                   rp_extension_profile = profile, rp_extension_bytes = extension_bytes,
                   rp_padding_bytes = pad_bytes, rp_payload = payload,
                   rp_header_bytes = take offset datagram\<rparr>)))"

section \<open>The conversion of a capture\<close>

record rtp_selection =
  rs_payload_type :: "int option"
  rs_ssrc :: "int option"
  rs_packet_range :: "(int \<times> int) option"
  rs_rate :: int
  rs_rate_basis :: string
  rs_max_forward :: int

text \<open>The argument checks of \<^verbatim>\<open>convert_pcap_rtp\<close>, in its order.\<close>

definition rtp_select ::
  "int option \<Rightarrow> bool \<Rightarrow> int option \<Rightarrow> int option \<Rightarrow> int \<Rightarrow> (int \<times> int) option \<Rightarrow> rtp_selection result" where
  "rtp_select clock_rate rfc3551_static payload_type ssrc max_forward_seconds packet_range =
     (if (case payload_type of None \<Rightarrow> False | Some pt \<Rightarrow> \<not> (0 \<le> pt \<and> pt \<le> 127))
      then fail ''explicit RTP payload type must be 0..127''
      else if (case ssrc of None \<Rightarrow> False | Some s \<Rightarrow> \<not> (0 \<le> s \<and> s < RTP_TS_MOD))
      then fail ''explicit SSRC must be a 32 bit value''
      else if \<not> (0 < max_forward_seconds \<and> max_forward_seconds \<le> 3600)
      then fail ''explicit bounded forward window required''
      else if (case packet_range of None \<Rightarrow> False | Some (a, b) \<Rightarrow> \<not> (0 \<le> a \<and> a \<le> b))
      then fail ''packet range must be two ordered non-negative capture indices''
      else if payload_type = None \<and> rfc3551_static
      then fail ''the RFC3551 static mapping needs the explicitly selected payload type''
      else rbind (if payload_type \<noteq> None then selected_clock_rate payload_type clock_rate rfc3551_static
                  else if clock_rate \<noteq> None then selected_clock_rate None clock_rate False
                  else fail ''an explicit clock rate or a static payload type selection is required'')
        (\<lambda>(rate, basis).
          let max_forward = rate * max_forward_seconds in
          if max_forward \<ge> RTP_TS_MOD div 2
          then fail ''declared forward window must stay below half the RTP timestamp modulus''
          else Inr \<lparr>rs_payload_type = payload_type, rs_ssrc = ssrc, rs_packet_range = packet_range,
            rs_rate = rate, rs_rate_basis = basis, rs_max_forward = max_forward\<rparr>))"

type_synonym rtp_key = "string \<times> int \<times> string \<times> int \<times> int"

record rtp_state =
  rt_selected :: int
  rt_unselected :: int
  rt_unsupported :: int
  rt_retained :: int
  rt_out_of_range :: int
  rt_observed_payload_type :: "int option"
  rt_unsupported_types :: "int list"
  rt_states :: "rtp_key \<Rightarrow> source_state option"
  rt_keys :: "rtp_key list"
  rt_report_size :: nat
  rt_rows :: "row list"

definition rtp_init :: rtp_state where
  "rtp_init = \<lparr>rt_selected = 0, rt_unselected = 0, rt_unsupported = 0, rt_retained = 0,
     rt_out_of_range = 0, rt_observed_payload_type = None, rt_unsupported_types = [],
     rt_states = Map.empty, rt_keys = [], rt_report_size = 0, rt_rows = []\<rparr>"

definition optional_int :: "int option \<Rightarrow> cell" where
  "optional_int x = (case x of None \<Rightarrow> CStr '''' | Some n \<Rightarrow> CInt n)"

definition prefixed_hex :: "bytes \<Rightarrow> string" where
  "prefixed_hex b = HEX_PREFIX @ hex_of b"

definition extension_hex :: "rtp_packet \<Rightarrow> string" where
  "extension_hex rtp = (case rp_extension_bytes rtp of None \<Rightarrow> '''' | Some b \<Rightarrow> prefixed_hex b)"

text \<open>What one packet's source said of it: the row's ordering and timing cells.\<close>

record rtp_outcome =
  ro_state :: source_state
  ro_order :: order_state
  ro_extended :: "int option"
  ro_step :: "int option"
  ro_tick :: tick_state
  ro_ticks :: "int option"

definition observe_packet :: "rtp_packet \<Rightarrow> int \<Rightarrow> source_state \<Rightarrow> rtp_outcome" where
  "observe_packet rtp max_forward s =
     (let (s1, order_state, extended, step) = order (rp_sequence rtp) (sha256_hex (rp_payload rtp)) s;
          (s2, tick_state, ticks) = (if order_state = DiscontinuityUnknown then (s1, TickUnknown, None)
                                     else tick (rp_timestamp rtp) max_forward s1)
      in \<lparr>ro_state = s2, ro_order = order_state, ro_extended = extended, ro_step = step,
          ro_tick = tick_state, ro_ticks = ticks\<rparr>)"

definition relative_us :: "rtp_outcome \<Rightarrow> int \<Rightarrow> string" where
  "relative_us o1 rate =
     (case (ro_ticks o1, so_first_extended_timestamp (ro_state o1)) of
        (Some ticks, Some first) \<Rightarrow> int_text (((ticks - first) * 1000000) div rate)
      | _ \<Rightarrow> '''')"

definition rtp_row ::
  "string \<Rightarrow> rtp_selection \<Rightarrow> saved_datagram \<Rightarrow> udp_fields \<Rightarrow> rtp_packet \<Rightarrow> rtp_outcome \<Rightarrow> row" where
  "rtp_row source_sha sel saved udp rtp o1 =
     [(''record_time_us'', CInt (sd_capture saved)),
      (''pcap_packet_index'', CInt (int (sd_index saved))),
      (''pcap_source_sha256'', CStr source_sha),
      (''pcap_clock_basis'', CStr CAPTURE_BASIS),
      (''rtp_source_address'', CStr (uf_source_address udp)),
      (''rtp_source_port'', CInt (uf_source_port udp)),
      (''rtp_destination_address'', CStr (uf_destination_address udp)),
      (''rtp_destination_port'', CInt (uf_destination_port udp)),
      (''rtp_ssrc'', CInt (rp_ssrc rtp)),
      (''rtp_payload_type'', CInt (rp_payload_type rtp)),
      (''rtp_marker'', CInt (if rp_marker rtp then 1 else 0)),
      (''rtp_sequence'', CInt (rp_sequence rtp)),
      (''rtp_extended_sequence'', optional_int (ro_extended o1)),
      (''rtp_sequence_cycles'', CInt (so_cycles (ro_state o1) div RTP_SEQ_MOD)),
      (''rtp_sequence_epoch'', CInt (so_epoch (ro_state o1))),
      (''rtp_sequence_step'', optional_int (ro_step o1)),
      (''rtp_order_state'', CStr (order_text (ro_order o1))),
      (''rtp_timestamp'', CInt (rp_timestamp rtp)),
      (''rtp_extended_timestamp'', optional_int (ro_ticks o1)),
      (''rtp_timestamp_state'', CStr (tick_text (ro_tick o1))),
      (''rtp_source_relative_us'', CStr (relative_us o1 (rs_rate sel))),
      (''rtp_clock_rate_hz'', CInt (rs_rate sel)),
      (''rtp_clock_rate_basis'', CStr (rs_rate_basis sel)),
      (''rtp_csrc_count'', CInt (int (length (rp_csrc rtp)))),
      (''rtp_csrc_list'', CStr (join_with ''|'' (map (\<lambda>c. prefixed_hex (pack_u32be c)) (rp_csrc rtp)))),
      (''rtp_extension_profile'', CStr (case rp_extension_profile rtp of None \<Rightarrow> ''''
         | Some p \<Rightarrow> prefixed_hex (pack_u16be p))),
      (''rtp_extension_hex'', CStr (extension_hex rtp)),
      (''rtp_padding_bytes'', CInt (int (rp_padding_bytes rtp))),
      (''rtp_payload_bytes'', CInt (int (length (rp_payload rtp)))),
      (''rtp_payload_sha256'', CStr (sha256_ref (rp_payload rtp))),
      (''rtp_header_hex'', CStr (prefixed_hex (rp_header_bytes rtp))),
      (''rtp_packet_sha256'', CStr (sha256_ref (uf_payload udp)))]"

text \<open>The state of the packet's source, created within the bound on sources.\<close>

definition rtp_source :: "rtp_key \<Rightarrow> rtp_state \<Rightarrow> (rtp_state \<times> source_state) result" where
  "rtp_source key st =
     (case rt_states st key of
        Some s \<Rightarrow> Inr (st, s)
      | None \<Rightarrow>
          if length (rt_keys st) \<ge> MAX_SOURCES then fail ''selected capture exceeds the source bound''
          else Inr (st\<lparr>rt_states := (rt_states st)(key \<mapsto> new_source), rt_keys := rt_keys st @ [key]\<rparr>,
                    new_source))"

definition rtp_retain ::
  "string \<Rightarrow> rtp_selection \<Rightarrow> saved_datagram \<Rightarrow> udp_fields \<Rightarrow> rtp_packet \<Rightarrow> rtp_state \<Rightarrow> rtp_state result" where
  "rtp_retain source_sha sel saved udp rtp st =
     (let key = (uf_source_address udp, uf_source_port udp, uf_destination_address udp,
                 uf_destination_port udp, rp_ssrc rtp) in
      rbind (rtp_source key st) (\<lambda>(st1, s).
        let o1 = observe_packet rtp (rs_max_forward sel) s;
            r = rtp_row source_sha sel saved udp rtp o1;
            cols = map fst (hd (rt_rows st1 @ [r]))
        in rbind (write_row cols r (rt_rows st1)) (\<lambda>rows.
           let report_size = rt_report_size st1 + length (extension_hex rtp)
                 + length (prefixed_hex (rp_header_bytes rtp)) + 256 in
           if report_size > REPORT_LIMIT then fail ''packet report exceeds bound''
           else if length (csv_text cols rows) > OUTPUT_LIMIT then fail ''packet CSV exceeds bound''
           else Inr (st1\<lparr>rt_states := (rt_states st1)(key \<mapsto> ro_state o1),
                         rt_retained := rt_retained st1 + 1, rt_report_size := report_size,
                         rt_rows := rows\<rparr>))))"

definition rtp_step :: "string \<Rightarrow> rtp_selection \<Rightarrow> rtp_state \<Rightarrow> saved_datagram \<Rightarrow> rtp_state result" where
  "rtp_step source_sha sel st saved =
     (if (case rs_packet_range sel of None \<Rightarrow> False
          | Some (a, b) \<Rightarrow> \<not> (a \<le> int (sd_index saved) \<and> int (sd_index saved) \<le> b))
      then Inr (st\<lparr>rt_out_of_range := rt_out_of_range st + 1\<rparr>)
      else case sd_udp saved of
        None \<Rightarrow> Inr (st\<lparr>rt_unselected := rt_unselected st + 1\<rparr>)
      | Some udp \<Rightarrow>
          rbind (parse_rtp (uf_payload udp)) (\<lambda>rtp.
          if rs_ssrc sel \<noteq> None \<and> rs_ssrc sel \<noteq> Some (rp_ssrc rtp)
          then Inr (st\<lparr>rt_unselected := rt_unselected st + 1\<rparr>)
          else let st1 = st\<lparr>rt_selected := rt_selected st + 1\<rparr> in
            (case rs_payload_type sel of
               None \<Rightarrow> (case rt_observed_payload_type st1 of
                   None \<Rightarrow> rtp_retain source_sha sel saved udp rtp
                     (st1\<lparr>rt_observed_payload_type := Some (rp_payload_type rtp)\<rparr>)
                 | Some observed \<Rightarrow>
                     if rp_payload_type rtp \<noteq> observed
                     then fail ''selected traffic changes payload type; declare --payload-type to select one''
                     else rtp_retain source_sha sel saved udp rtp st1)
             | Some payload_type \<Rightarrow>
                 if rp_payload_type rtp \<noteq> payload_type
                 then Inr (st1\<lparr>rt_unsupported := rt_unsupported st1 + 1,
                   rt_unsupported_types := (if rp_payload_type rtp \<in> set (rt_unsupported_types st1)
                     then rt_unsupported_types st1
                     else rt_unsupported_types st1 @ [rp_payload_type rtp])\<rparr>)
                 else rtp_retain source_sha sel saved udp rtp st1)))"

record rtp_source_report =
  sr_key :: rtp_key
  sr_highest_sequence :: "int option"
  sr_sequence_cycles :: int
  sr_sequence_epoch :: int
  sr_first_extended_timestamp :: "int option"
  sr_highest_timestamp :: "int option"
  sr_counts :: source_counts

record rtp_report =
  rr_source_sha256 :: string
  rr_packets :: nat
  rr_linktype :: int
  rr_selection :: rtp_selection
  rr_state :: rtp_state
  rr_sources :: "rtp_source_report list"

definition source_report :: "rtp_state \<Rightarrow> rtp_key \<Rightarrow> rtp_source_report" where
  "source_report st key =
     (let s = the (rt_states st key)
      in \<lparr>sr_key = key, sr_highest_sequence = so_highest s,
          sr_sequence_cycles = so_cycles s div RTP_SEQ_MOD, sr_sequence_epoch = so_epoch s,
          sr_first_extended_timestamp = so_first_extended_timestamp s,
          sr_highest_timestamp = so_highest_timestamp s, sr_counts = so_counts s\<rparr>)"

definition rtp_finish ::
  "string \<Rightarrow> rtp_selection \<Rightarrow> int \<Rightarrow> nat \<Rightarrow> rtp_state \<Rightarrow> (string \<times> rtp_report) result" where
  "rtp_finish source_sha sel linktype packets st =
     (if (case rs_ssrc sel of None \<Rightarrow> False
          | Some ssrc \<Rightarrow> ssrc \<notin> set (map (\<lambda>(a, b, c, d, s). s) (rt_keys st)))
      then fail ''the selected SSRC is not present in this capture''
      else if rt_retained st = 0 then fail ''no retained RTP packet observations''
      else Inr (csv_text (map fst (hd (rt_rows st))) (rt_rows st),
        \<lparr>rr_source_sha256 = source_sha, rr_packets = packets, rr_linktype = linktype,
         rr_selection = sel, rr_state = st, rr_sources = map (source_report st) (rt_keys st)\<rparr>))"

definition convert_pcap_rtp ::
  "dpkt \<Rightarrow> bytes \<Rightarrow> int \<Rightarrow> int option \<Rightarrow> bool \<Rightarrow> int option \<Rightarrow> int option \<Rightarrow> int
    \<Rightarrow> (int \<times> int) option \<Rightarrow> (string \<times> rtp_report) result" where
  "convert_pcap_rtp dk data destination_port clock_rate rfc3551_static payload_type ssrc
     max_forward_seconds packet_range =
     rbind (rtp_select clock_rate rfc3551_static payload_type ssrc max_forward_seconds packet_range) (\<lambda>sel.
     rbind (read_pcap_records data) (\<lambda>(linktype, captures).
     let source_sha = sha256_ref data in
     rbind (run_gen (rtp_step source_sha sel) rtp_init
             (iter_udp_datagrams dk data destination_port (Some (linktype, captures)) False))
       (rtp_finish source_sha sel linktype (length captures))))"

section \<open>The header as RFC 3550 lays it out\<close>

definition rtp_first :: "bool \<Rightarrow> bool \<Rightarrow> nat \<Rightarrow> byte" where
  "rtp_first padded extended count =
     0x80 OR (if padded then 0x20 else 0) OR (if extended then 0x10 else 0) OR word_of_nat count"

definition rtp_second :: "bool \<Rightarrow> int \<Rightarrow> byte" where
  "rtp_second marker payload_type = (if marker then 0x80 else 0) OR word_of_int payload_type"

lemma byte_bit_positions: "n < 8 \<Longrightarrow> n \<in> {7, 6, 5, 4, 3, 2, 1, 0 :: nat}"
  by auto

lemma byte_flag:
  "(b :: byte) AND 0x80 = 0 \<longleftrightarrow> \<not> bit b 7" "b AND 0x40 = 0 \<longleftrightarrow> \<not> bit b 6"
  "b AND 0x20 = 0 \<longleftrightarrow> \<not> bit b 5" "b AND 0x10 = 0 \<longleftrightarrow> \<not> bit b 4"
  using and_exp_eq_0_iff_not_bit [of b 7] and_exp_eq_0_iff_not_bit [of b 6]
    and_exp_eq_0_iff_not_bit [of b 5] and_exp_eq_0_iff_not_bit [of b 4] by simp_all

lemma version_bits: "drop_bit 6 (b :: byte) = 2 \<longleftrightarrow> bit b 7 \<and> \<not> bit b 6"
proof
  assume d: "drop_bit 6 b = 2"
  have "bit (drop_bit 6 b) 0 = bit b 6" "bit (drop_bit 6 b) 1 = bit b 7" by (simp_all add: bit_drop_bit_eq)
  with d show "bit b 7 \<and> \<not> bit b 6" by (simp add: bit_1_iff bit_numeral_rec)
next
  assume b: "bit b 7 \<and> \<not> bit b 6"
  show "drop_bit 6 b = 2"
  proof (rule bit_word_eqI)
    fix n assume "n < LENGTH(8)"
    then have "n < 8" by simp
    have high: "\<not> bit b 8" "\<not> bit b 9" "\<not> bit b 10" "\<not> bit b 11" "\<not> bit b 12" "\<not> bit b 13"
      using bit_imp_le_length [of b] by fastforce+
    from byte_bit_positions [OF \<open>n < 8\<close>] b high show "bit (drop_bit 6 b) n = bit (2 :: byte) n"
      by (elim insertE emptyE) (simp_all add: bit_drop_bit_eq bit_numeral_rec bit_1_iff)
  qed
qed

lemma first_byte:
  assumes "drop_bit 6 b = 2"
  shows "rtp_first (b AND 0x20 \<noteq> 0) (b AND 0x10 \<noteq> 0) (unat (b AND 0x0F)) = b"
proof (rule bit_word_eqI)
  fix n assume "n < LENGTH(8)"
  then have "n < 8" by simp
  from byte_bit_positions [OF this] assms
  show "bit (rtp_first (b AND 0x20 \<noteq> 0) (b AND 0x10 \<noteq> 0) (unat (b AND 0x0F))) n = bit b n"
    unfolding version_bits rtp_first_def byte_flag
    by (elim insertE emptyE) (simp_all add: bit_or_iff bit_and_iff bit_numeral_rec)
qed

lemma second_byte: "rtp_second (b AND 0x80 \<noteq> 0) (bval (b AND 0x7F)) = b"
proof (rule bit_word_eqI)
  fix n assume "n < LENGTH(8)"
  then have "n < 8" by simp
  from byte_bit_positions [OF this]
  show "bit (rtp_second (b AND 0x80 \<noteq> 0) (bval (b AND 0x7F))) n = bit b n"
    unfolding rtp_second_def byte_flag
    by (elim insertE emptyE) (simp_all add: bit_or_iff bit_and_iff bit_numeral_rec)
qed

text \<open>
  The octets of a packet with the given fields, and the packets the format can hold: the
  extension is a whole number of words, and padding ends with the number of its octets.
\<close>

definition rtp_header :: "rtp_packet \<Rightarrow> bool \<Rightarrow> bytes" where
  "rtp_header r padded =
     [rtp_first padded (rp_extension_bytes r \<noteq> None) (length (rp_csrc r)),
      rtp_second (rp_marker r) (rp_payload_type r)]
     @ pack_u16be (rp_sequence r) @ pack_u32be (rp_timestamp r) @ pack_u32be (rp_ssrc r)
     @ concat (map pack_u32be (rp_csrc r))
     @ (case (rp_extension_profile r, rp_extension_bytes r) of
          (Some p, Some b) \<Rightarrow> pack_u16be p @ pack_u16be (int (length b div 4)) @ b
        | _ \<Rightarrow> [])"

definition rtp_encode :: "rtp_packet \<Rightarrow> bytes \<Rightarrow> bytes" where
  "rtp_encode r padding = rtp_header r (padding \<noteq> []) @ rp_payload r @ padding"

definition padding_ok :: "bytes \<Rightarrow> bool" where
  "padding_ok p \<longleftrightarrow> p = [] \<or> unat (last p) = length p"

lemma u32_words:
  assumes "a + 4 * n \<le> length d"
  shows "concat (map pack_u32be (map (\<lambda>i. u32be d (a + 4 * i)) [0..<n])) = bslice d a (a + 4 * n)"
  using assms
proof (induction n)
  case (Suc n)
  have "pack_u32be (u32be d (a + 4 * n)) = bslice d (a + 4 * n) (a + 4 * n + 4)"
    using Suc.prems by (intro pack_u32be_read) simp
  then show ?case using Suc bslice_append_bslice [of a "a + 4 * n" "a + 4 * n + 4" d]
    by (simp add: add.commute add.left_commute)
qed simp

lemma rtp_extension_Inr:
  assumes "rtp_extension d x off = Inr (profile, ext, off')" "off \<le> length d"
  shows "off \<le> off' \<and> off' \<le> length d \<and> (ext \<noteq> None \<longleftrightarrow> x) \<and>
    (case (profile, ext) of (Some p, Some b) \<Rightarrow> pack_u16be p @ pack_u16be (int (length b div 4)) @ b | _ \<Rightarrow> [])
      = bslice d off off'"
proof (cases x)
  case True
  define w where "w = nat (u16be d (off + 2))"
  have wi: "int w = u16be d (off + 2)" by (simp add: w_def)
  from assms True have r: "off + 4 \<le> length d" "profile = Some (u16be d off)" "off + 4 + 4 * w \<le> length d"
    "ext = Some (bslice d (off + 4) (off + 4 + 4 * w))" "off' = off + 4 + 4 * w"
    by (auto simp: rtp_extension_def Let_def w_def simp del: add_2_eq_Suc' split: if_splits)
  have "pack_u16be (u16be d off) = bslice d off (off + 2)" using r(1) by (intro pack_u16be_read) simp
  moreover have "pack_u16be (u16be d (off + 2)) = bslice d (off + 2) (off + 4)"
    using r(1) pack_u16be_read [of "off + 2" d] by (simp add: add.assoc del: add_2_eq_Suc')
  moreover have "length (bslice d (off + 4) (off + 4 + 4 * w)) div 4 = w" using r(3) by simp
  ultimately show ?thesis
    using r True bslice_append_bslice [of off "off + 2" "off + 4" d]
      bslice_append_bslice [of off "off + 4" "off + 4 + 4 * w" d]
    by (simp add: wi flip: append_assoc)
qed (use assms in \<open>auto simp: rtp_extension_def\<close>)

lemma rtp_padding_Inr:
  assumes "rtp_padding pl padded = Inr (n, body)"
  shows "\<exists>pad. pl = body @ pad \<and> length pad = n \<and> padding_ok pad \<and> (pad \<noteq> [] \<longleftrightarrow> padded)"
proof (cases padded)
  case True
  let ?k = "unat (last pl)"
  from assms True have r: "pl \<noteq> []" "?k \<noteq> 0" "?k \<le> length pl" "n = ?k" "body = take (length pl - ?k) pl"
    by (auto simp: rtp_padding_def Let_def split: if_splits)
  let ?pad = "drop (length pl - ?k) pl"
  have "length ?pad = n" "pl = body @ ?pad" using r by simp_all
  moreover have "last ?pad = last pl" using r by (intro last_drop) simp
  ultimately show ?thesis using r True by (intro exI [of _ ?pad]) (auto simp: padding_ok_def)
qed (use assms in \<open>auto simp: rtp_padding_def padding_ok_def\<close>)

text \<open>C10. What the RTP parser returns determines the datagram: an accepted datagram is, octet for
  octet, the RFC 3550 encoding of the returned fields, followed by the payload and by padding
  that ends with its own length, and the retained header octets are that encoding.\<close>

theorem parse_rtp_encodes:
  assumes "parse_rtp d = Inr r"
  shows "\<exists>padding. d = rtp_encode r padding \<and> length padding = rp_padding_bytes r \<and> padding_ok padding \<and>
    rp_header_bytes r = rtp_header r (padding \<noteq> [])"
proof -
  let ?n = "unat (d ! 0 AND 0x0F)" and ?x = "d ! 0 AND 0x10 \<noteq> 0" and ?p = "d ! 0 AND 0x20 \<noteq> 0"
  from assms obtain profile ext off n body where len: "12 \<le> length d" and v: "drop_bit 6 (d ! 0) = 2"
    and cl: "12 + 4 * ?n \<le> length d"
    and e: "rtp_extension d ?x (12 + 4 * ?n) = Inr (profile, ext, off)"
    and p: "rtp_padding (drop off d) ?p = Inr (n, body)"
    and r: "r = \<lparr>rp_marker = d ! 1 AND 0x80 \<noteq> 0, rp_payload_type = bval (d ! 1 AND 0x7F),
      rp_sequence = u16be d 2, rp_timestamp = u32be d 4, rp_ssrc = u32be d 8,
      rp_csrc = map (\<lambda>i. u32be d (12 + 4 * i)) [0..<?n], rp_extension_profile = profile,
      rp_extension_bytes = ext, rp_padding_bytes = n, rp_payload = body, rp_header_bytes = take off d\<rparr>"
    unfolding parse_rtp_def FIXED_HEADER_def Let_def
    by (elim if_failE rbind_pairE) (auto simp: result_simps)
  from rtp_extension_Inr [OF e cl] have x: "12 + 4 * ?n \<le> off" "off \<le> length d" "ext \<noteq> None \<longleftrightarrow> ?x"
    "(case (profile, ext) of (Some p, Some b) \<Rightarrow> pack_u16be p @ pack_u16be (int (length b div 4)) @ b | _ \<Rightarrow> [])
      = bslice d (12 + 4 * ?n) off" by auto
  from rtp_padding_Inr [OF p] obtain pad where pad: "drop off d = body @ pad" "length pad = n" "padding_ok pad"
    "pad \<noteq> [] \<longleftrightarrow> ?p" by blast
  have c: "concat (map pack_u32be (rp_csrc r)) = bslice d 12 (12 + 4 * ?n)"
    using u32_words [OF cl] by (simp add: r)
  have two: "[d ! 0, d ! 1] = bslice d 0 2"
    using bslice_2 [of 0 d, unfolded add_0] len by simp
  have fixed: "pack_u16be (u16be d 2) = bslice d 2 4" "pack_u32be (u32be d 4) = bslice d 4 8"
    "pack_u32be (u32be d 8) = bslice d 8 12"
    using pack_u16be_read [of 2 d] pack_u32be_read [of 4 d] pack_u32be_read [of 8 d] len by simp_all
  have "rtp_header r (pad \<noteq> []) = [d ! 0, d ! 1] @ pack_u16be (u16be d 2) @ pack_u32be (u32be d 4)
      @ pack_u32be (u32be d 8) @ concat (map pack_u32be (rp_csrc r)) @ bslice d (12 + 4 * ?n) off"
    unfolding rtp_header_def using x(3,4) pad(4) first_byte [OF v] second_byte [of "d ! 1"] by (simp add: r)
  also have "\<dots> = bslice d 0 off"
    unfolding c two fixed using x(1) by (simp add: bslice_append_bslice)
  also have "\<dots> = take off d" by (simp add: bslice_def)
  finally have h: "rtp_header r (pad \<noteq> []) = take off d" .
  have "d = rtp_encode r pad" unfolding rtp_encode_def h using pad(1) append_take_drop_id [of off d] by (simp add: r)
  then show ?thesis using pad(2,3) h by (intro exI [of _ pad]) (simp add: r)
qed

lemma first_byte_read:
  assumes "n < 16"
  shows "drop_bit 6 (rtp_first p x n) = 2" "rtp_first p x n AND 0x20 \<noteq> 0 \<longleftrightarrow> p"
    "rtp_first p x n AND 0x10 \<noteq> 0 \<longleftrightarrow> x" "unat (rtp_first p x n AND 0x0F) = n"
proof -
  have "n \<in> {15, 14, 13, 12, 11, 10, 9, 8} \<union> {7, 6, 5, 4, 3, 2, 1, 0}"
    using assms by (simp add: less_Suc_eq numeral_eq_Suc) blast
  then show "drop_bit 6 (rtp_first p x n) = 2" "rtp_first p x n AND 0x20 \<noteq> 0 \<longleftrightarrow> p"
    "rtp_first p x n AND 0x10 \<noteq> 0 \<longleftrightarrow> x" "unat (rtp_first p x n AND 0x0F) = n"
    by (elim UnE insertE emptyE; cases p; cases x; simp add: rtp_first_def)+
qed

lemma second_byte_read:
  assumes "0 \<le> t" "t < 128"
  shows "rtp_second m t AND 0x80 \<noteq> 0 \<longleftrightarrow> m" "bval (rtp_second m t AND 0x7F) = t"
proof -
  have t: "take_bit 7 t = t" using assms by (simp add: take_bit_int_eq_self)
  have mask7: "(0x7F :: byte) = mask 7" by (simp add: mask_eq_exp_minus_1)
  have b: "bit (word_of_int t :: byte) 7 \<longleftrightarrow> False"
    using bit_take_bit_iff [of 7 t 7] by (simp add: t bit_word_of_int_iff)
  have "(word_of_int t :: byte) AND 0x80 = 0" unfolding byte_flag using b by simp
  then show "rtp_second m t AND 0x80 \<noteq> 0 \<longleftrightarrow> m"
    by (cases m) (simp_all add: rtp_second_def bit.conj_disj_distrib2)
  have u: "uint (word_of_int t :: byte) = t"
    using bval_word_of_int [of t] assms by (simp add: bval_def)
  have "uint (word_of_int t AND 0x7F :: byte) = t"
    unfolding mask7 using t u by (simp add: take_bit_eq_mask [symmetric] unsigned_take_bit_eq)
  moreover have "(0x80 :: byte) AND 0x7F = 0" by simp
  ultimately show "bval (rtp_second m t AND 0x7F) = t"
    by (cases m) (simp_all add: rtp_second_def bval_def bit.conj_disj_distrib2)
qed

definition rtp_wf :: "rtp_packet \<Rightarrow> bool" where
  "rtp_wf r \<longleftrightarrow> 0 \<le> rp_payload_type r \<and> rp_payload_type r < 128 \<and>
     0 \<le> rp_sequence r \<and> rp_sequence r < 65536 \<and>
     0 \<le> rp_timestamp r \<and> rp_timestamp r < 4294967296 \<and> 0 \<le> rp_ssrc r \<and> rp_ssrc r < 4294967296 \<and>
     length (rp_csrc r) < 16 \<and> list_all (\<lambda>c. 0 \<le> c \<and> c < 4294967296) (rp_csrc r) \<and>
     (case (rp_extension_profile r, rp_extension_bytes r) of
        (None, None) \<Rightarrow> True
      | (Some p, Some b) \<Rightarrow> 0 \<le> p \<and> p < 65536 \<and> length b mod 4 = 0 \<and> length b \<le> MAX_EXTENSION_BYTES
      | _ \<Rightarrow> False)"

lemma length_u32_list [simp]: "length (concat (map pack_u32be cs)) = 4 * length cs"
  by (induction cs) simp_all

lemma u32be_nth:
  assumes "i < length cs" "list_all (\<lambda>c. 0 \<le> c \<and> c < 4294967296) cs" "k = length xs + 4 * i"
  shows "u32be (xs @ concat (map pack_u32be cs) @ ys) k = cs ! i"
proof -
  have "xs @ concat (map pack_u32be cs) @ ys = (xs @ concat (map pack_u32be (take i cs))) @ pack_u32be (cs ! i)
      @ (concat (map pack_u32be (drop (Suc i) cs)) @ ys)"
    using assms(1) by (subst id_take_nth_drop [of i cs]) auto
  moreover have "u32be ((xs @ concat (map pack_u32be (take i cs))) @ pack_u32be (cs ! i)
      @ (concat (map pack_u32be (drop (Suc i) cs)) @ ys)) k = cs ! i"
    using assms by (intro u32be_pack) (auto simp: list_all_length)
  ultimately show ?thesis by (simp only:)
qed

lemma rtp_extension_read:
  assumes "length xs = off" "(p = None) = (b = None)"
    and "\<And>q e. p = Some q \<Longrightarrow> b = Some e \<Longrightarrow> 0 \<le> q \<and> q < 65536 \<and> length e mod 4 = 0 \<and> length e \<le> MAX_EXTENSION_BYTES"
  shows "rtp_extension (xs @ (case (p, b) of (Some q, Some e) \<Rightarrow>
        pack_u16be q @ pack_u16be (int (length e div 4)) @ e | _ \<Rightarrow> []) @ ys) (b \<noteq> None) off
    = Inr (p, b, off + length (case (p, b) of (Some q, Some e) \<Rightarrow>
        pack_u16be q @ pack_u16be (int (length e div 4)) @ e | _ \<Rightarrow> []))"
proof (cases b)
  case (Some e)
  with assms(2) obtain q where q: "p = Some q" by (cases p) auto
  from assms(3) [OF q Some] have r: "0 \<le> q" "q < 65536" "length e mod 4 = 0" "length e \<le> MAX_EXTENSION_BYTES" by auto
  let ?w = "int (length e div 4)" and ?d = "xs @ pack_u16be q @ pack_u16be (int (length e div 4)) @ e @ ys"
  have w: "0 \<le> ?w" "?w < 65536" using r(4) by (auto simp: MAX_EXTENSION_BYTES_def)
  have four: "4 * nat ?w = length e" using r(3) by (metis mult_div_mod_eq add_0_right nat_int)
  have "u16be ?d off = q" by (rule u16be_pack [OF r(1,2)]) (simp add: assms(1))
  moreover have "u16be ((xs @ pack_u16be q) @ pack_u16be ?w @ e @ ys) (off + 2) = ?w"
    by (rule u16be_pack [OF w]) (simp add: assms(1))
  then have "u16be ?d (off + 2) = ?w" by (simp only: append_assoc)
  moreover have "bslice ((xs @ pack_u16be q @ pack_u16be ?w) @ e @ ys) (off + 4) (off + 4 + length e) = e"
    using bslice_append_right [of "xs @ pack_u16be q @ pack_u16be ?w" "e @ ys" 0 "length e"] assms(1)
    by (simp add: bslice_append_left)
  then have "bslice ?d (off + 4) (off + 4 + length e) = e" by (simp only: append_assoc)
  ultimately show ?thesis
    using q Some r(4) four assms(1) by (simp add: rtp_extension_def Let_def del: add_2_eq_Suc')
qed (use assms(2) in \<open>auto simp: rtp_extension_def\<close>)

lemma rtp_padding_read:
  "padding_ok pad \<Longrightarrow> rtp_padding (body @ pad) (pad \<noteq> []) = Inr (length pad, body)"
  by (auto simp: rtp_padding_def padding_ok_def Let_def)

text \<open>Every packet the format can hold is read back: parsing the encoding of well-formed fields,
  with any padding that ends with its own length, returns those fields, the length of the
  padding and the header octets.\<close>

theorem rtp_encode_parses:
  assumes "rtp_wf r" and "padding_ok pad"
  shows "parse_rtp (rtp_encode r pad) =
    Inr (r\<lparr>rp_padding_bytes := length pad, rp_header_bytes := rtp_header r (pad \<noteq> [])\<rparr>)"
proof -
  define X where "X = (case (rp_extension_profile r, rp_extension_bytes r) of
     (Some p, Some b) \<Rightarrow> pack_u16be p @ pack_u16be (int (length b div 4)) @ b | _ \<Rightarrow> [])"
  define f where "f = rtp_first (pad \<noteq> []) (rp_extension_bytes r \<noteq> None) (length (rp_csrc r))"
  define g where "g = rtp_second (rp_marker r) (rp_payload_type r)"
  let ?c = "concat (map pack_u32be (rp_csrc r))" and ?n = "length (rp_csrc r)"
  let ?fix = "[f, g] @ pack_u16be (rp_sequence r) @ pack_u32be (rp_timestamp r) @ pack_u32be (rp_ssrc r)"
  let ?d = "?fix @ ?c @ X @ rp_payload r @ pad"
  have wf: "0 \<le> rp_payload_type r" "rp_payload_type r < 128" "0 \<le> rp_sequence r" "rp_sequence r < 65536"
    "0 \<le> rp_timestamp r" "rp_timestamp r < 4294967296" "0 \<le> rp_ssrc r" "rp_ssrc r < 4294967296"
    "?n < 16" "list_all (\<lambda>c. 0 \<le> c \<and> c < 4294967296) (rp_csrc r)"
    using assms(1) by (simp_all add: rtp_wf_def)
  have h: "rtp_header r (pad \<noteq> []) = ?fix @ ?c @ X"
    by (simp add: rtp_header_def X_def f_def g_def)
  have d: "rtp_encode r pad = ?d" by (simp add: rtp_encode_def h)
  note f = first_byte_read [OF wf(9), of "pad \<noteq> []" "rp_extension_bytes r \<noteq> None", folded f_def]
  note g = second_byte_read [OF wf(1,2), of "rp_marker r", folded g_def]
  have fields: "u16be ?d 2 = rp_sequence r" "u32be ?d 4 = rp_timestamp r" "u32be ?d 8 = rp_ssrc r"
    using u16be_pack [OF wf(3,4), of 2 "[f, g]" "pack_u32be (rp_timestamp r) @ pack_u32be (rp_ssrc r) @ ?c @ X @ rp_payload r @ pad"]
      u32be_pack [OF wf(5,6), of 4 "[f, g] @ pack_u16be (rp_sequence r)" "pack_u32be (rp_ssrc r) @ ?c @ X @ rp_payload r @ pad"]
      u32be_pack [OF wf(7,8), of 8 "[f, g] @ pack_u16be (rp_sequence r) @ pack_u32be (rp_timestamp r)" "?c @ X @ rp_payload r @ pad"]
    by simp_all
  have csrc: "map (\<lambda>i. u32be ?d (12 + 4 * i)) [0..<?n] = rp_csrc r"
    by (rule nth_equalityI) (use u32be_nth [OF _ wf(10), of _ _ ?fix] in simp_all)
  have ext: "rtp_extension ?d (rp_extension_bytes r \<noteq> None) (12 + 4 * ?n)
      = Inr (rp_extension_profile r, rp_extension_bytes r, 12 + 4 * ?n + length X)"
  proof -
    have a: "length (?fix @ ?c) = 12 + 4 * ?n" by simp
    have b: "(rp_extension_profile r = None) = (rp_extension_bytes r = None)"
      using assms(1) by (auto simp: rtp_wf_def split: option.splits)
    have c: "0 \<le> q \<and> q < 65536 \<and> length e mod 4 = 0 \<and> length e \<le> MAX_EXTENSION_BYTES"
      if "rp_extension_profile r = Some q" "rp_extension_bytes r = Some e" for q e
      using assms(1) that by (simp add: rtp_wf_def)
    show ?thesis using rtp_extension_read [OF a b c, of "rp_payload r @ pad"]
      unfolding X_def [symmetric] by (simp only: append_assoc)
  qed
  have pd: "rtp_padding (drop (12 + 4 * ?n + length X) ?d) (pad \<noteq> []) = Inr (length pad, rp_payload r)"
  proof -
    have "drop k (xs @ ys) = ys" if "k = length xs" for k and xs ys :: bytes using that by simp
    from this [of _ "?fix @ ?c @ X" "rp_payload r @ pad"]
    have "drop (12 + 4 * ?n + length X) ?d = rp_payload r @ pad" by (simp add: add.assoc)
    then show ?thesis using rtp_padding_read [OF assms(2), of "rp_payload r"] by (simp only:)
  qed
  have tk: "take (12 + 4 * ?n + length X) ?d = ?fix @ ?c @ X"
  proof -
    have "take k (xs @ ys) = xs" if "k = length xs" for k and xs ys :: bytes using that by simp
    from this [of _ "?fix @ ?c @ X" "rp_payload r @ pad"] show ?thesis by (simp add: add.assoc)
  qed
  have len: "\<not> length ?d < 12" "\<not> length ?d < 12 + 4 * ?n" by simp_all
  have nth: "?d ! 0 = f" "?d ! 1 = g" by simp_all
  show ?thesis
    unfolding d h parse_rtp_def FIXED_HEADER_def Let_def nth fields f(4) csrc
    using f g ext pd tk len by (simp del: append_assoc append.simps concat.simps take_append drop_append)
qed

definition sample_rtp :: rtp_packet where
  "sample_rtp = \<lparr>rp_marker = True, rp_payload_type = 96, rp_sequence = 65535, rp_timestamp = 305419896,
     rp_ssrc = 3735928559, rp_csrc = [7, 4294967295], rp_extension_profile = Some 48862,
     rp_extension_bytes = Some [1, 2, 3, 4], rp_padding_bytes = 2, rp_payload = [5, 6, 7],
     rp_header_bytes = []\<rparr>"

lemma sample_rtp_wf: "rtp_wf sample_rtp" "padding_ok [0, 2]"
  by (simp_all add: rtp_wf_def sample_rtp_def MAX_EXTENSION_BYTES_def padding_ok_def)

theorem rtp_encode_parses_witness:
  "rp_csrc (projr (parse_rtp (rtp_encode sample_rtp [0, 2]))) = [7, 4294967295]"
  by (simp add: rtp_encode_parses [OF sample_rtp_wf]) (simp add: sample_rtp_def)

theorem parse_rtp_encodes_witness:
  "\<exists>r padding. parse_rtp (rtp_encode sample_rtp [0, 2]) = Inr r \<and>
    rtp_encode sample_rtp [0, 2] = rtp_encode r padding \<and> length padding = rp_padding_bytes r"
proof -
  have "parse_rtp (rtp_encode sample_rtp [0, 2]) = Inr (sample_rtp\<lparr>rp_padding_bytes := 2,
      rp_header_bytes := rtp_header sample_rtp True\<rparr>)"
    using rtp_encode_parses [OF sample_rtp_wf] by simp
  from parse_rtp_encodes [OF this] this show ?thesis by blast
qed

section \<open>The accounting of a conversion\<close>

definition source_packets :: "rtp_state \<Rightarrow> int" where
  "source_packets st = sum_list (map (\<lambda>k. sc_packets (so_counts (the (rt_states st k)))) (rt_keys st))"

definition keys_ok :: "('k \<Rightarrow> 's option) \<Rightarrow> 'k list \<Rightarrow> bool" where
  "keys_ok states ks \<longleftrightarrow> distinct ks \<and> dom states = set ks \<and> length ks \<le> MAX_SOURCES"

lemma keys_ok_new:
  "keys_ok states ks \<Longrightarrow> states k = None \<Longrightarrow> length ks < MAX_SOURCES \<Longrightarrow>
    keys_ok (states(k \<mapsto> s)) (ks @ [k]) \<and> k \<notin> set ks"
  by (auto simp: keys_ok_def)

lemma keys_ok_update: "keys_ok states ks \<Longrightarrow> states k = Some t \<Longrightarrow> keys_ok (states(k \<mapsto> s)) ks"
  by (auto simp: keys_ok_def)

lemma keys_ok_known: "keys_ok states ks \<Longrightarrow> states k = Some t \<Longrightarrow> k \<in> set ks \<and> distinct ks"
  by (auto simp: keys_ok_def)

definition rtp_accounting :: "saved_datagram list \<Rightarrow> rtp_state \<Rightarrow> bool" where
  "rtp_accounting items st \<longleftrightarrow>
     rt_out_of_range st + rt_unselected st + rt_selected st = int (length items) \<and>
     rt_selected st = rt_unsupported st + rt_retained st \<and>
     rt_retained st = int (length (rt_rows st)) \<and> rt_retained st = source_packets st \<and>
     keys_ok (rt_states st) (rt_keys st)"

lemma observe_counts:
  "sc_packets (so_counts (ro_state (observe_packet rtp f s))) = sc_packets (so_counts s) + 1"
proof -
  have o: "sc_packets (so_counts (fst (order q d s))) = sc_packets (so_counts s) + 1" for q d
    using branch_order [of q s d]
    by (cases "fst (snd (order q d s))") (simp_all add: branch_ok_def packet_counted_def)
  have t: "so_counts (fst (tick x f t)) = so_counts t" for x t
    by (simp add: tick_def Let_def split: option.split)
  obtain s1 st e p where r: "order (rp_sequence rtp) (sha256_hex (rp_payload rtp)) s = (s1, st, e, p)"
    by (metis prod_cases4)
  show ?thesis
    using o [of "rp_sequence rtp" "sha256_hex (rp_payload rtp)"] t [of "rp_timestamp rtp" s1]
    by (auto simp: observe_packet_def r split_beta Let_def)
qed

lemma sum_list_update_key:
  fixes g :: "'k \<Rightarrow> int"
  assumes "distinct ks" "k \<in> set ks" "\<And>j. j \<in> set ks \<Longrightarrow> j \<noteq> k \<Longrightarrow> h j = g j"
  shows "sum_list (map h ks) = sum_list (map g ks) - g k + h k"
proof -
  have "sum h (set ks) = h k + sum h (set ks - {k})" "sum g (set ks) = g k + sum g (set ks - {k})"
    using assms(2) by (simp_all add: sum.remove)
  moreover have "sum h (set ks - {k}) = sum g (set ks - {k})" using assms(3) by (intro sum.cong) auto
  ultimately show ?thesis using assms(1) by (simp add: sum_list_distinct_conv_sum_set)
qed

lemma rtp_source_Inr:
  assumes "rtp_source key st = Inr (st1, s)" "rtp_accounting items st"
  shows "rtp_accounting items st1 \<and> rt_states st1 key = Some s \<and> rt_selected st1 = rt_selected st"
proof (cases "rt_states st key")
  case (Some u)
  with assms show ?thesis by (auto simp: rtp_source_def)
next
  case None
  with assms have st1: "st1 = st\<lparr>rt_states := (rt_states st)(key \<mapsto> new_source), rt_keys := rt_keys st @ [key]\<rparr>"
    "s = new_source" "length (rt_keys st) < MAX_SOURCES"
    by (auto simp: rtp_source_def split: if_splits)
  have keys: "keys_ok ((rt_states st)(key \<mapsto> new_source)) (rt_keys st @ [key])"
    and new: "key \<notin> set (rt_keys st)"
    using keys_ok_new [of "rt_states st" "rt_keys st" key new_source] None st1(3) assms(2)
    by (simp_all add: rtp_accounting_def)
  have "map (\<lambda>k. sc_packets (so_counts (the (((rt_states st)(key \<mapsto> new_source)) k)))) (rt_keys st)
      = map (\<lambda>k. sc_packets (so_counts (the (rt_states st k)))) (rt_keys st)"
    using new by (intro map_cong) auto
  then have "source_packets st1 = source_packets st + sc_packets (so_counts new_source)"
    by (simp add: source_packets_def st1(1) del: map_eq_conv fun_upd_apply) simp
  then have "source_packets st1 = source_packets st" by (simp add: new_source_def)
  with assms(2) keys st1 show ?thesis by (simp add: rtp_accounting_def)
qed

lemma rtp_retain_accounting:
  assumes "rtp_retain sha sel saved udp rtp (st\<lparr>rt_selected := rt_selected st + 1, rt_observed_payload_type := ob\<rparr>) = Inr st'"
    and "rtp_accounting items st"
  shows "rtp_accounting (items @ [saved]) st'"
proof -
  define key where "key = (uf_source_address udp, uf_source_port udp, uf_destination_address udp,
      uf_destination_port udp, rp_ssrc rtp)"
  let ?st = "st\<lparr>rt_selected := rt_selected st + 1, rt_observed_payload_type := ob\<rparr>"
  from assms(1) obtain st1 s where src: "rtp_source key ?st = Inr (st1, s)"
    by (auto simp: rtp_retain_def key_def [symmetric] Let_def elim!: rbind_pairE)
  have src0: "\<exists>t. rtp_source key st = Inr (t, s) \<and> st1 = t\<lparr>rt_selected := rt_selected st + 1, rt_observed_payload_type := ob\<rparr>"
    using src by (auto simp: rtp_source_def split: option.splits if_splits)
  then obtain t where t: "rtp_source key st = Inr (t, s)"
    "st1 = t\<lparr>rt_selected := rt_selected st + 1, rt_observed_payload_type := ob\<rparr>" by blast
  note acc = rtp_source_Inr [OF t(1) assms(2)]
  define o1 where "o1 = observe_packet rtp (rs_max_forward sel) s"
  from assms(1) src obtain rows n where st': "st' = st1\<lparr>rt_states := (rt_states st1)(key \<mapsto> ro_state o1),
      rt_retained := rt_retained st1 + 1, rt_report_size := n, rt_rows := rows\<rparr>"
    "length rows = length (rt_rows st1) + 1"
    by (auto simp: rtp_retain_def key_def [symmetric] o1_def [symmetric] Let_def result_simps split: if_splits)
  have mem: "key \<in> set (rt_keys t)" "distinct (rt_keys t)"
    and keys: "keys_ok ((rt_states t)(key \<mapsto> ro_state o1)) (rt_keys t)"
    using acc keys_ok_known [of "rt_states t" "rt_keys t" key] keys_ok_update [of "rt_states t" "rt_keys t" key]
    by (auto simp: rtp_accounting_def)
  have "source_packets st' = source_packets t + 1"
    unfolding source_packets_def st'(1) t(2)
    using sum_list_update_key [of "rt_keys t" key
        "\<lambda>k. sc_packets (so_counts (the (((rt_states t)(key \<mapsto> ro_state o1)) k)))"
        "\<lambda>k. sc_packets (so_counts (the (rt_states t k)))"]
      acc mem observe_counts [of rtp "rs_max_forward sel" s]
    by (simp add: o1_def)
  with acc st' t(2) keys show ?thesis by (simp add: rtp_accounting_def)
qed

lemma rtp_step_accounting:
  assumes "rtp_step sha sel st saved = Inr st'" "rtp_accounting items st"
  shows "rtp_accounting (items @ [saved]) st'"
proof -
  have upd: "source_packets (u\<lparr>rt_out_of_range := a\<rparr>) = source_packets u"
    "source_packets (u\<lparr>rt_unselected := a\<rparr>) = source_packets u"
    "source_packets (u\<lparr>rt_selected := a, rt_unsupported := a, rt_unsupported_types := l\<rparr>) = source_packets u"
    for u :: rtp_state and a l by (simp_all add: source_packets_def)
  have upd3: "source_packets (u\<lparr>rt_selected := a, rt_unsupported := b, rt_unsupported_types := l\<rparr>) = source_packets u"
    for u :: rtp_state and a b l by (simp add: source_packets_def)
  have ob: "st\<lparr>rt_selected := rt_selected st + 1\<rparr> =
      st\<lparr>rt_selected := rt_selected st + 1, rt_observed_payload_type := rt_observed_payload_type st\<rparr>"
    by simp
  show ?thesis
  proof (cases "case rs_packet_range sel of None \<Rightarrow> False
      | Some (a, b) \<Rightarrow> \<not> (a \<le> int (sd_index saved) \<and> int (sd_index saved) \<le> b)")
    case True
    with assms show ?thesis by (auto simp: rtp_step_def rtp_accounting_def upd split: if_splits)
  next
    case False
    show ?thesis
    proof (cases "sd_udp saved")
      case None
      with False assms show ?thesis by (auto simp: rtp_step_def rtp_accounting_def upd split: if_splits)
    next
      case (Some udp)
      with assms(1) False obtain rtp where p: "parse_rtp (uf_payload udp) = Inr rtp"
        by (auto simp: rtp_step_def result_simps)
      note step = assms(1) [unfolded rtp_step_def if_not_P [OF False] Some option.case p rbind_simps]
      show ?thesis
      proof (cases "rs_ssrc sel \<noteq> None \<and> rs_ssrc sel \<noteq> Some (rp_ssrc rtp)")
        case True
        with step assms(2) show ?thesis by (auto simp: rtp_accounting_def upd)
      next
        case sel: False
        note step2 = step [unfolded if_not_P [OF sel] Let_def]
        show ?thesis
        proof (cases "rs_payload_type sel")
          case None
          with step2 show ?thesis
            using rtp_retain_accounting [OF _ assms(2), of sha sel saved udp rtp "Some (rp_payload_type rtp)"]
              rtp_retain_accounting [OF _ assms(2), of sha sel saved udp rtp "rt_observed_payload_type st"]
            by (auto split: option.splits if_splits)
        next
          case (Some pt)
          show ?thesis
          proof (cases "rp_payload_type rtp = pt")
            case True
            with step2 Some show ?thesis
              using rtp_retain_accounting [OF _ assms(2), of sha sel saved udp rtp "rt_observed_payload_type st"]
              by auto
          next
            case False
            with step2 Some assms(2) show ?thesis by (auto simp: rtp_accounting_def upd3)
          qed
        qed
      qed
    qed
  qed
qed

text \<open>C11. The report of an RTP conversion accounts for every saved packet: each one walked is out of
  the declared range, unselected or selected; the selected ones are unsupported or retained;
  every retained packet is one row and is counted by exactly one of at most 1024 sources; and
  the report lists each source once.\<close>

theorem convert_pcap_rtp_accounts:
  assumes "convert_pcap_rtp dk data port rate static pt ssrc secs rng = Inr (out, rep)"
  shows "\<exists>records items. read_pcap_records data = Inr records \<and>
    iter_udp_datagrams dk data port (Some records) False = (items, None) \<and>
    rtp_accounting items (rr_state rep) \<and>
    out = csv_text (map fst (hd (rt_rows (rr_state rep)))) (rt_rows (rr_state rep)) \<and>
    map sr_key (rr_sources rep) = rt_keys (rr_state rep) \<and>
    sum_list (map (\<lambda>s. sc_packets (sr_counts s)) (rr_sources rep)) = rt_retained (rr_state rep) \<and>
    0 \<le> rs_max_forward (rr_selection rep) \<and> 2 * rs_max_forward (rr_selection rep) < RTP_TS_MOD"
proof -
  from assms obtain sel lt cs st where sel: "rtp_select rate static pt ssrc secs rng = Inr sel"
    and r: "read_pcap_records data = Inr (lt, cs)"
    and run: "run_gen (rtp_step (sha256_ref data) sel) rtp_init (iter_udp_datagrams dk data port (Some (lt, cs)) False) = Inr st"
    and fin: "rtp_finish (sha256_ref data) sel lt (length cs) st = Inr (out, rep)"
    unfolding convert_pcap_rtp_def Let_def by (elim rbind_InrE rbind_pairE) (simp, elim rbind_InrE, blast)
  from run obtain items where it: "iter_udp_datagrams dk data port (Some (lt, cs)) False = (items, None)"
    and ri: "run_items (rtp_step (sha256_ref data) sel) rtp_init items = Inr st" by (rule run_gen_InrE)
  have "rtp_accounting [] rtp_init"
    by (simp add: rtp_accounting_def rtp_init_def source_packets_def keys_ok_def)
  then have acc: "rtp_accounting items st"
    using run_items_prefix [where I = rtp_accounting, OF ri] rtp_step_accounting by blast
  from fin have f: "out = csv_text (map fst (hd (rt_rows st))) (rt_rows st)"
    "rr_state rep = st" "rr_sources rep = map (source_report st) (rt_keys st)" "rr_selection rep = sel"
    by (auto simp: rtp_finish_def split: if_splits)
  have "sum_list (map (\<lambda>s. sc_packets (sr_counts s)) (rr_sources rep)) = source_packets st"
    by (simp add: f(3) source_packets_def source_report_def Let_def comp_def)
  moreover have "0 \<le> rs_max_forward sel \<and> 2 * rs_max_forward sel < RTP_TS_MOD"
  proof -
    have rate: "0 < rt" if "selected_clock_rate p d u = Inr (rt, b)" for p d u rt b
      using that by (auto simp: selected_clock_rate_def RFC3551_CLOCK_RATE_def Let_def dest!: map_of_SomeD
          split: option.splits if_splits)
    have "0 < rs_rate sel \<and> rs_max_forward sel = rs_rate sel * secs \<and> rs_max_forward sel < RTP_TS_MOD div 2 \<and> 0 < secs"
      using sel rate unfolding rtp_select_def Let_def
      by (fastforce simp: result_simps split: if_splits)
    then show ?thesis by (auto simp: RTP_TS_MOD_def mult.commute)
  qed
  ultimately show ?thesis
    using r it acc f
    by (intro exI [of _ "(lt, cs)"] exI [of _ items]) (auto simp: rtp_accounting_def source_report_def Let_def comp_def)
qed

section \<open>A capture of one packet\<close>

definition rtp_capture :: bytes where
  "rtp_capture =
    [212, 195, 178, 161, 2, 0, 4, 0, 0, 0, 0, 0, 0, 0, 0, 0, 0, 0, 1, 0, 1, 0, 0, 0, 1, 0, 0, 0,
     5, 0, 0, 0, 55, 0, 0, 0, 55, 0, 0, 0, 2, 0, 0, 0, 0, 1, 2, 0, 0, 0, 0, 2, 8, 0, 69, 0, 0,
     41, 0, 0, 0, 0, 64, 17, 102, 194, 10, 0, 0, 1, 10, 0, 0, 2, 19, 136, 19, 140, 0, 21, 0, 0,
     128, 96, 0, 7, 0, 0, 3, 232, 0, 0, 0, 42, 120]"

lemma rtp_capture_records: "read_pcap_records rtp_capture = Inr (1, [1000005])"
  unfolding rtp_capture_def by (simp add: pcap_eval)

lemma rtp_capture_items: "\<exists>f c. iter_udp_datagrams standard_decoder rtp_capture 5004 (Some (1, [1000005])) False =
  ([\<lparr>sd_index = 0, sd_capture = 1000005, sd_frame = f, sd_udp = Some \<lparr>uf_payload =
      [128, 96, 0, 7, 0, 0, 3, 232, 0, 0, 0, 42, 120], uf_checksum = c, uf_source_address = ''10.0.0.1'', uf_source_port = 5000,
      uf_destination_address = ''10.0.0.2'', uf_destination_port = 5004\<rparr>\<rparr>], None)"
  unfolding rtp_capture_def
  by (simp add: iter_udp_datagrams_def save_datagram_def udp_datagram_def dotted_def packet_eval pcap_eval
      int_text_def nat_digits.simps char_of_def bit_0)

definition one_packet :: rtp_packet where
  "one_packet = \<lparr>rp_marker = False, rp_payload_type = 96, rp_sequence = 7, rp_timestamp = 1000, rp_ssrc = 42,
    rp_csrc = [], rp_extension_profile = None, rp_extension_bytes = None, rp_padding_bytes = 0,
    rp_payload = [120], rp_header_bytes = [128, 96, 0, 7, 0, 0, 3, 232, 0, 0, 0, 42]\<rparr>"

lemma rtp_capture_parses: "parse_rtp [128, 96, 0, 7, 0, 0, 3, 232, 0, 0, 0, 42, 120] = Inr one_packet"
  by (simp add: parse_rtp_def FIXED_HEADER_def rtp_extension_def rtp_padding_def one_packet_def
      packet_eval u32be_def drop_bit_eq_div)

lemma one_packet_observed: "\<exists>s. observe_packet one_packet 5400000 new_source =
    \<lparr>ro_state = s, ro_order = First, ro_extended = Some 7, ro_step = None, ro_tick = TickFirst,
     ro_ticks = Some 1000\<rparr> \<and> so_cycles s = 0 \<and> so_epoch s = 0 \<and> so_first_extended_timestamp s = Some 1000"
  by (simp add: observe_packet_def order_def order_first_def tick_def new_source_def Let_def one_packet_def
      remember_def RECENT_SEQUENCES_def)

definition one_selection :: rtp_selection where
  "one_selection = \<lparr>rs_payload_type = Some 96, rs_ssrc = None, rs_packet_range = None, rs_rate = 90000,
      rs_rate_basis = RATE_DECLARED, rs_max_forward = 5400000\<rparr>"

definition one_saved :: "bytes \<Rightarrow> string \<Rightarrow> saved_datagram" where
  "one_saved f c = \<lparr>sd_index = 0, sd_capture = 1000005, sd_frame = f, sd_udp = Some \<lparr>uf_payload =
      [128, 96, 0, 7, 0, 0, 3, 232, 0, 0, 0, 42, 120], uf_checksum = c, uf_source_address = ''10.0.0.1'', uf_source_port = 5000,
      uf_destination_address = ''10.0.0.2'', uf_destination_port = 5004\<rparr>\<rparr>"

lemma one_packet_retained: "\<exists>st. rtp_retain (sha256_ref x) one_selection (one_saved f c)
    (the (sd_udp (one_saved f c))) one_packet (rtp_init\<lparr>rt_selected := 1\<rparr>) = Inr st \<and> rt_retained st = 1"
proof -
  obtain s where obs: "observe_packet one_packet 5400000 new_source =
    \<lparr>ro_state = s, ro_order = First, ro_extended = Some 7, ro_step = None, ro_tick = TickFirst,
     ro_ticks = Some 1000\<rparr>" and so: "so_cycles s = 0" "so_epoch s = 0" "so_first_extended_timestamp s = Some 1000"
    using one_packet_observed by blast
  define r where "r = rtp_row (sha256_ref x) one_selection (one_saved f c) (the (sd_udp (one_saved f c))) one_packet
    \<lparr>ro_state = s, ro_order = First, ro_extended = Some 7, ro_step = None, ro_tick = TickFirst,
     ro_ticks = Some 1000\<rparr>"
  have d: "distinct (map fst r)"
    by (simp add: r_def rtp_row_def)
  have "row_size r \<le> 5000"
    by (simp add: r_def rtp_row_def row_size_eval so relative_us_def one_selection_def one_saved_def
      one_packet_def optional_int_def extension_hex_def prefixed_hex_def HEX_PREFIX_def CAPTURE_BASIS_def
      RATE_DECLARED_def)
  with one_row_bound [OF d] have size: "length (csv_text (map fst r) [r]) \<le> OUTPUT_LIMIT"
    by (simp add: OUTPUT_LIMIT_def)
  have w: "write_row (map fst r) r [] = Inr [r]" by (simp add: write_row_def)
  have parts: "rs_max_forward one_selection = 5400000" "extension_hex one_packet = []"
      "length (prefixed_hex (rp_header_bytes one_packet)) = 28"
    by (simp_all add: one_selection_def extension_hex_def prefixed_hex_def one_packet_def HEX_PREFIX_def)
  show ?thesis
    using size
    by (simp add: rtp_retain_def rtp_source_def rtp_init_def MAX_SOURCES_def obs parts r_def [symmetric] w Let_def
      REPORT_LIMIT_def)
qed

lemma rtp_capture_converts: "\<exists>out rep. convert_pcap_rtp standard_decoder rtp_capture 5004 (Some 90000)
   False (Some 96) None 60 None = Inr (out, rep)"
proof -
  obtain f c where items: "iter_udp_datagrams standard_decoder rtp_capture 5004 (Some (1, [1000005])) False =
      ([one_saved f c], None)"
    unfolding one_saved_def using rtp_capture_items by blast
  have sel: "rtp_select (Some 90000) False (Some 96) None 60 None = Inr one_selection"
    by (simp add: rtp_select_def selected_clock_rate_def RTP_TS_MOD_def MAX_CLOCK_RATE_def one_selection_def)
  obtain st where st: "rtp_retain (sha256_ref rtp_capture) one_selection (one_saved f c)
    (the (sd_udp (one_saved f c))) one_packet (rtp_init\<lparr>rt_selected := 1\<rparr>) = Inr st" "rt_retained st = 1"
    using one_packet_retained by blast
  have "rtp_step (sha256_ref rtp_capture) one_selection rtp_init (one_saved f c) = Inr st"
    using st(1) by (simp add: rtp_step_def one_selection_def one_saved_def rtp_capture_parses)
     (simp add: one_packet_def rtp_init_def)
  then show ?thesis
    unfolding convert_pcap_rtp_def rtp_capture_records rbind_simps prod.case items run_gen_def sel Let_def
    using st(2) by (simp add: rtp_finish_def one_selection_def)
qed

theorem convert_pcap_rtp_accounts_witness:
  "\<exists>out rep items. convert_pcap_rtp standard_decoder rtp_capture 5004 (Some 90000) False (Some 96) None 60 None
      = Inr (out, rep) \<and> rtp_accounting items (rr_state rep) \<and>
    sum_list (map (\<lambda>s. sc_packets (sr_counts s)) (rr_sources rep)) = rt_retained (rr_state rep)"
proof -
  obtain out rep where r: "convert_pcap_rtp standard_decoder rtp_capture 5004 (Some 90000)
   False (Some 96) None 60 None = Inr (out, rep)"
    using rtp_capture_converts by blast
  from r convert_pcap_rtp_accounts [OF r] show ?thesis by blast
qed

end
