(* ===== verification/H264_Packets.thy ===== *)
theory H264_Packets
  imports Rtp_Records
begin

unbundle bit_operations_syntax

text \<open>
  The RFC 6184 packetization mode 1 payloads of \<^verbatim>\<open>scripts/convert_rtp_h264_stream.py\<close>: NAL unit
  types, the access unit under assembly, aggregation packets and fragment chains, and the round
  trip from a list of NAL units through any mixture of packets and back.
\<close>

section \<open>NAL unit types\<close>

definition STAP_A :: int where "STAP_A = 24"
definition FU_A :: int where "FU_A = 28"
definition NAL_SPS :: int where "NAL_SPS = 7"
definition NAL_PPS :: int where "NAL_PPS = 8"
definition CODED_SLICE :: "int list" where "CODED_SLICE = [1, 5]"
definition RESERVED :: "int list" where "RESERVED = [0, 30, 31]"
definition H264_CLOCK_RATE :: int where "H264_CLOCK_RATE = 90000"
definition START_CODE :: bytes where "START_CODE = [0, 0, 0, 1]"
definition MAX_ELEMENTARY_BYTES :: nat where "MAX_ELEMENTARY_BYTES = 64 * 1024 * 1024"
definition MAX_ACCESS_UNITS :: nat where "MAX_ACCESS_UNITS = 65536"
definition MAX_NALS_PER_ACCESS_UNIT :: nat where "MAX_NALS_PER_ACCESS_UNIT = 4096"
definition MAX_NAL_BYTES :: nat where "MAX_NAL_BYTES = 8 * 1024 * 1024"
definition MAX_FORWARD_TICKS :: int where "MAX_FORWARD_TICKS = H264_CLOCK_RATE * 10"

definition single_nal_kind :: "int \<Rightarrow> bool" where
  "single_nal_kind kind \<longleftrightarrow> 1 \<le> kind \<and> kind < 24"

definition FORBIDDEN_IN_MODE_1 :: "(int \<times> string) list" where
  "FORBIDDEN_IN_MODE_1 = [(25, ''STAP-B''), (26, ''MTAP16''), (27, ''MTAP24''), (29, ''FU-B'')]"

definition nal_kind :: "byte \<Rightarrow> int" where
  "nal_kind b = bval (b AND 0x1F)"

definition unfragmentable :: "int \<Rightarrow> bool" where
  "unfragmentable kind \<longleftrightarrow> kind = STAP_A \<or> kind = FU_A \<or> kind \<in> fst ` set FORBIDDEN_IN_MODE_1 \<or> kind \<in> set RESERVED"

section \<open>The access unit under assembly\<close>

record access_unit =
  au_timestamp :: int
  au_nals :: "bytes list"
  au_packet_indices :: "nat list"
  au_sequences :: "int list"
  au_marker_at :: "nat option"

definition new_access_unit :: "int \<Rightarrow> int \<Rightarrow> nat \<Rightarrow> access_unit" where
  "new_access_unit timestamp sequence packet_index =
     \<lparr>au_timestamp = timestamp, au_nals = [], au_packet_indices = [packet_index],
      au_sequences = [sequence], au_marker_at = None\<rparr>"

definition add_packet :: "int \<Rightarrow> nat \<Rightarrow> access_unit \<Rightarrow> access_unit" where
  "add_packet sequence packet_index u =
     u\<lparr>au_packet_indices := au_packet_indices u @ [packet_index],
       au_sequences := au_sequences u @ [sequence]\<rparr>"

definition add_nal :: "access_unit \<Rightarrow> bytes \<Rightarrow> access_unit result" where
  "add_nal u nal =
     (if length nal > MAX_NAL_BYTES then fail ''NAL unit exceeds the retained bound''
      else if length (au_nals u) \<ge> MAX_NALS_PER_ACCESS_UNIT
      then fail ''access unit exceeds the NAL unit bound''
      else rbind (item_at nal 0) (\<lambda>first.
        if first AND 0x80 \<noteq> 0 then fail ''forbidden_zero_bit set on a retained NAL unit''
        else Inr (u\<lparr>au_nals := au_nals u @ [nal]\<rparr>)))"

section \<open>Aggregation and fragmentation\<close>

function (sequential) stap_a :: "bytes \<Rightarrow> nat \<Rightarrow> bytes list result" where
  "stap_a payload offset =
     (if \<not> offset < length payload then Inr []
      else if length payload - offset < 2 then fail ''STAP-A trailing bytes without a size field''
      else let size = nat (u16be payload offset); start = offset + 2 in
        if size = 0 then fail ''STAP-A aggregation unit of size zero''
        else if start + size > length payload then fail ''STAP-A aggregation unit overruns the payload''
        else let unit = bslice payload start (start + size) in
          if unfragmentable (nal_kind (unit ! 0))
          then fail ''STAP-A must not nest aggregation or fragmentation units''
          else rbind (stap_a payload (start + size)) (\<lambda>units. Inr (unit # units)))"
  by pat_completeness auto
termination by (relation "measure (\<lambda>(p, off). length p - off)") auto

declare stap_a.simps [simp del]

definition stap_units :: "bytes \<Rightarrow> bytes list result" where
  "stap_units payload =
     rbind (stap_a payload 1) (\<lambda>units. if units = [] then fail ''STAP-A carries no aggregation unit''
       else Inr units)"

record fragments =
  fr_header :: "byte option"
  fr_parts :: "bytes list"
  fr_sequence :: int
  fr_timestamp :: int

definition no_fragments :: fragments where
  "no_fragments = \<lparr>fr_header = None, fr_parts = [], fr_sequence = 0, fr_timestamp = 0\<rparr>"

definition fr_open :: "fragments \<Rightarrow> bool" where
  "fr_open f \<longleftrightarrow> fr_header f \<noteq> None"

definition chain_header :: "byte \<Rightarrow> byte \<Rightarrow> byte" where
  "chain_header indicator fu_header = (indicator AND 0xE0) OR (fu_header AND 0x1F)"

definition fr_start :: "byte \<Rightarrow> byte \<Rightarrow> bytes \<Rightarrow> int \<Rightarrow> int \<Rightarrow> fragments" where
  "fr_start indicator fu_header body sequence timestamp =
     \<lparr>fr_header = Some (chain_header indicator fu_header), fr_parts = [body],
      fr_sequence = sequence, fr_timestamp = timestamp\<rparr>"

definition fr_extend :: "byte \<Rightarrow> byte \<Rightarrow> bytes \<Rightarrow> int \<Rightarrow> int \<Rightarrow> fragments \<Rightarrow> fragments result" where
  "fr_extend indicator fu_header body sequence timestamp f =
     (if fr_header f \<noteq> Some (chain_header indicator fu_header)
      then fail ''FU-A fragment changes the NAL header mid chain''
      else if timestamp \<noteq> fr_timestamp f
      then fail ''FU-A chain interrupted by a new access unit timestamp''
      else if sequence \<noteq> (fr_sequence f + 1) mod RTP_SEQ_MOD
      then fail ''FU-A fragments are not in consecutive RTP sequence''
      else Inr (f\<lparr>fr_parts := fr_parts f @ [body], fr_sequence := sequence\<rparr>))"

definition fr_finish :: "fragments \<Rightarrow> bytes \<times> fragments" where
  "fr_finish f = (the (fr_header f) # concat (fr_parts f), no_fragments)"

text \<open>
  One payload, by its packet type: the NAL units it completes and the fragment chain after it.
  The guards on the payload come first in the code, before the access unit is touched.
\<close>

definition payload_kind :: "bytes \<Rightarrow> int result" where
  "payload_kind payload =
     (if payload = [] then fail ''selected RTP packet carries no H.264 payload''
      else let kind = nal_kind (payload ! 0) in
        case map_of FORBIDDEN_IN_MODE_1 kind of
          Some name \<Rightarrow> fail (name @ '' must not be used in packetization mode 1'')
        | None \<Rightarrow> if kind \<in> set RESERVED then fail ''reserved NAL type in the selected stream'' else Inr kind)"

definition unpack_fragment :: "int \<Rightarrow> int \<Rightarrow> bytes \<Rightarrow> fragments \<Rightarrow> (fragments \<times> bytes list) result" where
  "unpack_fragment sequence timestamp payload f =
     (if length payload < 2 then fail ''truncated FU-A header''
      else let indicator = payload ! 0; fu_header = payload ! 1; body = drop 2 payload;
               start_bit = (fu_header AND 0x80 \<noteq> 0); end_bit = (fu_header AND 0x40 \<noteq> 0) in
        if fu_header AND 0x20 \<noteq> 0 then fail ''FU-A reserved bit must be zero''
        else if start_bit \<and> end_bit then fail ''FU-A start and end bits must not both be set''
        else if unfragmentable (nal_kind fu_header)
        then fail ''FU-A carries a type that cannot be fragmented''
        else if start_bit then
          (if fr_open f then fail ''FU-A start inside an unfinished chain''
           else Inr (fr_start indicator fu_header body sequence timestamp, []))
        else if \<not> fr_open f then fail ''FU-A continuation without a start''
        else rbind (fr_extend indicator fu_header body sequence timestamp f) (\<lambda>f'.
          if end_bit then Inr (snd (fr_finish f'), [fst (fr_finish f')]) else Inr (f', [])))"

definition unpack :: "int \<Rightarrow> int \<Rightarrow> bytes \<Rightarrow> fragments \<Rightarrow> (fragments \<times> bytes list) result" where
  "unpack sequence timestamp payload f =
     (let kind = nal_kind (payload ! 0) in
      if single_nal_kind kind then
        (if fr_open f then fail ''FU-A chain interrupted by another NAL unit'' else Inr (f, [payload]))
      else if kind = STAP_A then
        (if fr_open f then fail ''FU-A chain interrupted by an aggregation packet''
         else rbind (stap_units payload) (\<lambda>units. Inr (f, units)))
      else if kind = FU_A then unpack_fragment sequence timestamp payload f
      else fail ''unhandled NAL type'')"

section \<open>Aggregation packets\<close>

definition stap_encode :: "bytes list \<Rightarrow> bytes" where
  "stap_encode nals = concat (map (\<lambda>nal. pack_u16be (int (length nal)) @ nal) nals)"

lemma stap_encode_simps [simp]: "stap_encode [] = []"
  "stap_encode (n # ns) = pack_u16be (int (length n)) @ n @ stap_encode ns"
  by (simp_all add: stap_encode_def)

definition aggregatable :: "bytes \<Rightarrow> bool" where
  "aggregatable nal \<longleftrightarrow> nal \<noteq> [] \<and> length nal < 65536 \<and> \<not> unfragmentable (nal_kind (hd nal))"

lemma stap_a_read:
  assumes "\<forall>nal \<in> set nals. aggregatable nal"
  shows "stap_a (pre @ stap_encode nals) (length pre) = Inr nals"
  using assms
proof (induction nals arbitrary: pre)
  case Nil
  show ?case by (simp add: stap_a.simps)
next
  case (Cons nal nals)
  let ?p = "pre @ stap_encode (nal # nals)"
  have ok: "nal \<noteq> []" "length nal < 65536" "\<not> unfragmentable (nal_kind (hd nal))"
    using Cons.prems by (auto simp: aggregatable_def)
  have size: "u16be ?p (length pre) = int (length nal)"
    using ok(2) by (simp add: u16be_pack)
  have body: "bslice ?p (length pre + 2) (length pre + 2 + length nal) = nal"
    by (simp add: bslice_def)
  have rest: "stap_a ?p (length pre + 2 + length nal) = Inr nals"
    using Cons.IH [of "pre @ pack_u16be (int (length nal)) @ nal"] Cons.prems by (simp add: add.assoc)
  have len: "length ?p = length pre + 2 + length nal + length (stap_encode nals)" by simp
  show ?case
    unfolding stap_a.simps [of ?p "length pre"] Let_def size nat_int body rest rbind_simps
    using ok len by (simp add: hd_conv_nth del: stap_encode_simps add_2_eq_Suc')
qed

lemma stap_a_encoded:
  "stap_a payload offset = Inr nals \<Longrightarrow> offset \<le> length payload \<Longrightarrow>
    drop offset payload = stap_encode nals \<and> (\<forall>nal \<in> set nals. aggregatable nal)"
proof (induction payload offset arbitrary: nals rule: stap_a.induct)
  case (1 payload offset)
  show ?case
  proof (cases "offset < length payload")
    case False
    with 1(2,3) show ?thesis by (simp add: stap_a.simps [of payload offset])
  next
    case True
    define size where "size = nat (u16be payload offset)"
    define unit where "unit = bslice payload (offset + 2) (offset + 2 + size)"
    from 1(2) True obtain rest where len: "\<not> length payload - offset < 2" and sz: "size \<noteq> 0"
      and fits: "\<not> offset + 2 + size > length payload" and kind: "\<not> unfragmentable (nal_kind (unit ! 0))"
      and r: "stap_a payload (offset + 2 + size) = Inr rest" and n: "nals = unit # rest"
      unfolding stap_a.simps [of payload offset] Let_def size_def [symmetric] unit_def [symmetric]
      by (simp del: add_2_eq_Suc' split: if_splits) (elim rbind_InrE, simp)
    have IH: "drop (offset + 2 + size) payload = stap_encode rest \<and> (\<forall>nal \<in> set rest. aggregatable nal)"
      using 1(1) [OF _ len size_def refl _ _ unit_def kind r] True sz fits by auto
    have lu: "length unit = size" using fits by (simp add: unit_def)
    have "size < 65536" by (simp add: size_def nat_less_iff)
    moreover have "int size = u16be payload offset" by (simp add: size_def)
    moreover have "drop offset payload = bslice payload offset (offset + 2) @ unit @ drop (offset + 2 + size) payload"
      using len fits by (simp add: unit_def bslice_append_drop del: add_2_eq_Suc')
    ultimately show ?thesis
      using IH lu kind sz len by (auto simp: n aggregatable_def hd_conv_nth pack_u16be_read)
  qed
qed

lemma stap_units_read:
  assumes "nals \<noteq> []" "\<forall>nal \<in> set nals. aggregatable nal" "drop 1 payload = stap_encode nals"
  shows "stap_units payload = Inr nals"
proof -
  have "stap_encode nals \<noteq> []" using assms(1,2) by (cases nals) (auto simp: aggregatable_def)
  with assms(3) obtain h where p: "payload = [h] @ stap_encode nals" by (cases payload) auto
  from stap_a_read [of nals "[h]"] assms(2) have "stap_a payload 1 = Inr nals" unfolding p by simp
  with assms(1) show ?thesis by (simp add: stap_units_def)
qed

text \<open>C13. An aggregation packet is unpacked to a list of NAL units exactly when the list is not
  empty, each unit could be aggregated, and the packet after its header octet is their sizes and
  octets in order.\<close>

theorem stap_units_iff:
  "stap_units payload = Inr nals \<longleftrightarrow> nals \<noteq> [] \<and> (\<forall>nal \<in> set nals. aggregatable nal) \<and>
    drop 1 payload = stap_encode nals"
proof
  assume "stap_units payload = Inr nals"
  then have s: "stap_a payload 1 = Inr nals" "nals \<noteq> []"
    by (auto simp: stap_units_def result_simps)
  then have "1 \<le> length payload" by (cases payload) (simp_all add: stap_a.simps)
  from stap_a_encoded [OF s(1) this] s(2)
  show "nals \<noteq> [] \<and> (\<forall>nal \<in> set nals. aggregatable nal) \<and> drop 1 payload = stap_encode nals" by simp
qed (use stap_units_read in blast)

theorem stap_units_iff_witness: "stap_units [120, 0, 2, 103, 1] = Inr [[103, 1]]"
  using stap_units_iff [of "[120, 0, 2, 103, 1]" "[[103, 1]]"]
  by (simp add: aggregatable_def unfragmentable_def nal_kind_def bval_def STAP_A_def FU_A_def
    FORBIDDEN_IN_MODE_1_def RESERVED_def pack_u16be_def)

section \<open>Fragmented NAL units\<close>

definition fu_indicator :: "byte \<Rightarrow> byte" where
  "fu_indicator h = (h AND 0xE0) OR 28"

definition fu_header :: "byte \<Rightarrow> bool \<Rightarrow> bool \<Rightarrow> byte" where
  "fu_header h first final = (h AND 0x1F) OR (if first then 0x80 else 0) OR (if final then 0x40 else 0)"

lemma fu_octets:
  "nal_kind (fu_indicator h) = FU_A" "chain_header (fu_indicator h) (fu_header h s e) = h"
  "nal_kind (fu_header h s e) = nal_kind h" "fu_header h s e AND 0x20 = 0"
  "fu_header h s e AND 0x80 \<noteq> 0 \<longleftrightarrow> s" "fu_header h s e AND 0x40 \<noteq> 0 \<longleftrightarrow> e"
proof -
  have bits: "(w :: byte) = v" if "\<And>n. n \<in> {7, 6, 5, 4, 3, 2, 1, 0} \<Longrightarrow> bit w n = bit v n" for w v
    by (rule bit_word_eqI) (use that byte_bit_positions in auto)
  have "fu_indicator h AND 0x1F = 28"
    by (rule bits) (elim insertE emptyE; simp add: fu_indicator_def bit_simps)
  then show "nal_kind (fu_indicator h) = FU_A" by (simp add: nal_kind_def FU_A_def bval_def)
  show "chain_header (fu_indicator h) (fu_header h s e) = h"
    by (rule bits) (elim insertE emptyE; simp add: chain_header_def fu_indicator_def fu_header_def bit_simps)
  have "fu_header h s e AND 0x1F = h AND 0x1F"
    by (rule bits) (elim insertE emptyE; simp add: fu_header_def bit_simps)
  then show "nal_kind (fu_header h s e) = nal_kind h" by (simp add: nal_kind_def)
  show "fu_header h s e AND 0x20 = 0"
    by (rule bits) (elim insertE emptyE; simp add: fu_header_def bit_simps)
  show "fu_header h s e AND 0x80 \<noteq> 0 \<longleftrightarrow> s" "fu_header h s e AND 0x40 \<noteq> 0 \<longleftrightarrow> e"
    unfolding byte_flag by (simp_all add: fu_header_def bit_simps)
qed


text \<open>
  How a sender cuts NAL units into the payloads of consecutive packets: one payload each, several
  aggregated, or one fragmented over several payloads.
\<close>

datatype nal_plan = SinglePacket bytes | Aggregated byte "bytes list" | Fragmented byte "bytes list"

fun fragment_tail :: "byte \<Rightarrow> bytes list \<Rightarrow> bytes list" where
  "fragment_tail h [] = []"
| "fragment_tail h [part] = [fu_indicator h # fu_header h False True # part]"
| "fragment_tail h (part # parts) = (fu_indicator h # fu_header h False False # part) # fragment_tail h parts"

fun plan_payloads :: "nal_plan \<Rightarrow> bytes list" where
  "plan_payloads (SinglePacket nal) = [nal]"
| "plan_payloads (Aggregated h nals) = [h # stap_encode nals]"
| "plan_payloads (Fragmented h (part # parts)) =
     (fu_indicator h # fu_header h True False # part) # fragment_tail h parts"
| "plan_payloads (Fragmented h []) = []"

fun plan_nals :: "nal_plan \<Rightarrow> bytes list" where
  "plan_nals (SinglePacket nal) = [nal]"
| "plan_nals (Aggregated h nals) = nals"
| "plan_nals (Fragmented h parts) = [h # concat parts]"

fun plan_ok :: "nal_plan \<Rightarrow> bool" where
  "plan_ok (SinglePacket nal) \<longleftrightarrow> nal \<noteq> [] \<and> single_nal_kind (nal_kind (hd nal))"
| "plan_ok (Aggregated h nals) \<longleftrightarrow> nal_kind h = STAP_A \<and> nals \<noteq> [] \<and> (\<forall>nal \<in> set nals. aggregatable nal)"
| "plan_ok (Fragmented h parts) \<longleftrightarrow> single_nal_kind (nal_kind h) \<and> 2 \<le> length parts"

text \<open>The packets' payloads in consecutive sequence numbers, as the depacketizer reads them.\<close>

fun numbered :: "int \<Rightarrow> bytes list \<Rightarrow> (int \<times> bytes) list" where
  "numbered s [] = []"
| "numbered s (p # ps) = (s mod RTP_SEQ_MOD, p) # numbered (s + 1) ps"

definition unpack_step ::
  "int \<Rightarrow> fragments \<times> bytes list \<Rightarrow> int \<times> bytes \<Rightarrow> (fragments \<times> bytes list) result" where
  "unpack_step timestamp acc item =
     rbind (payload_kind (snd item)) (\<lambda>kind.
     rbind (unpack (fst item) timestamp (snd item) (fst acc)) (\<lambda>(f, nals). Inr (f, snd acc @ nals)))"

lemma single_kind_passes: "single_nal_kind k \<Longrightarrow> \<not> unfragmentable k \<and> map_of FORBIDDEN_IN_MODE_1 k = None \<and> k \<notin> set RESERVED"
  by (auto simp: single_nal_kind_def unfragmentable_def STAP_A_def FU_A_def FORBIDDEN_IN_MODE_1_def RESERVED_def)

lemma numbered_append: "numbered s (ps @ qs) = numbered s ps @ numbered (s + int (length ps)) qs"
  by (induction ps arbitrary: s) (simp_all add: add.assoc add.commute [of 1])

lemma next_number: "(s mod RTP_SEQ_MOD + 1) mod RTP_SEQ_MOD = (s + 1) mod RTP_SEQ_MOD"
  by (simp add: mod_add_left_eq)

lemma fu_payload_kind: "payload_kind (fu_indicator h # rest) = Inr FU_A"
  by (simp add: payload_kind_def fu_octets(1) Let_def FORBIDDEN_IN_MODE_1_def RESERVED_def FU_A_def)

lemma unpack_fu:
  "unpack sequence timestamp (fu_indicator h # rest) f = unpack_fragment sequence timestamp (fu_indicator h # rest) f"
  by (simp add: unpack_def fu_octets(1) FU_A_def STAP_A_def single_nal_kind_def Let_def)

lemma fragment_tail_run:
  assumes "single_nal_kind (nal_kind h)" "parts \<noteq> []"
  shows "run_items (unpack_step ts)
      (\<lparr>fr_header = Some h, fr_parts = ps, fr_sequence = s mod RTP_SEQ_MOD, fr_timestamp = ts\<rparr>, acc)
      (numbered (s + 1) (fragment_tail h parts)) = Inr (no_fragments, acc @ [h # concat ps @ concat parts])"
  using assms(2)
proof (induction parts arbitrary: ps s rule: induct_list012)
  case (2 part)
  show ?case
    using assms(1) by (simp add: unpack_step_def fu_payload_kind unpack_fu unpack_fragment_def fu_octets Let_def
      single_kind_passes fr_open_def fr_extend_def next_number fr_finish_def)
next
  case (3 part q qs)
  have "unpack_step ts (\<lparr>fr_header = Some h, fr_parts = ps, fr_sequence = s mod RTP_SEQ_MOD, fr_timestamp = ts\<rparr>, acc)
      ((s + 1) mod RTP_SEQ_MOD, fu_indicator h # fu_header h False False # part) =
    Inr (\<lparr>fr_header = Some h, fr_parts = ps @ [part], fr_sequence = (s + 1) mod RTP_SEQ_MOD, fr_timestamp = ts\<rparr>, acc)"
    using assms(1) by (simp add: unpack_step_def fu_payload_kind unpack_fu unpack_fragment_def fu_octets Let_def
      single_kind_passes fr_open_def fr_extend_def next_number)
  with 3(2) [of "ps @ [part]" "s + 1"] show ?case by (simp add: add.assoc)
qed simp

lemma plan_run:
  assumes "plan_ok plan"
  shows "run_items (unpack_step ts) (no_fragments, acc) (numbered s (plan_payloads plan)) =
    Inr (no_fragments, acc @ plan_nals plan)"
proof (cases plan)
  case (SinglePacket nal)
  then have "nal \<noteq> []" and k: "single_nal_kind (nal_kind (nal ! 0))"
    using assms by (auto simp: hd_conv_nth)
  with SinglePacket single_kind_passes [OF k] show ?thesis
    by (simp add: unpack_step_def payload_kind_def unpack_def fr_open_def no_fragments_def)
next
  case (Aggregated h nals)
  have "payload_kind (h # stap_encode nals) = Inr STAP_A"
    using assms Aggregated by (simp add: payload_kind_def Let_def FORBIDDEN_IN_MODE_1_def RESERVED_def STAP_A_def)
  moreover have "stap_units (h # stap_encode nals) = Inr nals"
    using assms Aggregated by (intro stap_units_read) simp_all
  ultimately show ?thesis
    using assms Aggregated by (simp add: unpack_step_def unpack_def Let_def fr_open_def no_fragments_def
      single_nal_kind_def STAP_A_def)
next
  case (Fragmented h parts)
  then obtain part parts' where p: "parts = part # parts'" "parts' \<noteq> []"
    using assms by (cases parts) (auto simp: Suc_le_eq)
  have h: "single_nal_kind (nal_kind h)" using assms Fragmented by simp
  have "unpack_step ts (no_fragments, acc) (s mod RTP_SEQ_MOD, fu_indicator h # fu_header h True False # part) =
    Inr (\<lparr>fr_header = Some h, fr_parts = [part], fr_sequence = s mod RTP_SEQ_MOD, fr_timestamp = ts\<rparr>, acc)"
    using h by (simp add: unpack_step_def fu_payload_kind unpack_fu unpack_fragment_def fu_octets Let_def
      single_kind_passes fr_open_def fr_start_def no_fragments_def)
  with fragment_tail_run [OF h p(2), of ts "[part]" s acc] show ?thesis
    by (simp add: Fragmented p(1))
qed

text \<open>C14. Whatever mixture of single, aggregated and fragmented packets of one access unit carries a
  list of NAL units, the depacketizer rebuilds exactly those units in order and leaves no open
  fragment chain.\<close>

theorem h264_packets_rebuild:
  assumes "\<forall>plan \<in> set plans. plan_ok plan"
  shows "run_items (unpack_step ts) (no_fragments, []) (numbered s (concat (map plan_payloads plans))) =
    Inr (no_fragments, concat (map plan_nals plans))"
proof -
  have "run_items (unpack_step ts) (no_fragments, acc) (numbered s (concat (map plan_payloads plans))) =
      Inr (no_fragments, acc @ concat (map plan_nals plans))" for acc
    using assms
    by (induction plans arbitrary: s acc) (simp_all add: numbered_append run_items_append plan_run)
  from this [of "[]"] show ?thesis by simp
qed

theorem h264_packets_rebuild_witness:
  "run_items (unpack_step 9000) (no_fragments, []) (numbered 65534
      (concat (map plan_payloads [Aggregated 0x78 [[0x67, 1], [0x68, 2]], Fragmented 0x65 [[1, 2], [3], [4]]]))) =
    Inr (no_fragments, [[0x67, 1], [0x68, 2], [0x65, 1, 2, 3, 4]])"
  by (subst h264_packets_rebuild) (simp_all add: nal_kind_def bval_def STAP_A_def aggregatable_def unfragmentable_def
    FU_A_def FORBIDDEN_IN_MODE_1_def RESERVED_def single_nal_kind_def)

end
