(* ===== verification/H264_Stream.thy ===== *)
theory H264_Stream
  imports H264_Packets
begin

unbundle bit_operations_syntax

text \<open>
  The depacketizer of \<^verbatim>\<open>scripts/convert_rtp_h264_stream.py\<close>: the retained packets of one source
  become an Annex B elementary stream with one report entry per access unit, the elapsed ticks of
  the units and the report. What \<^verbatim>\<open>_description_sets\<close> read from a saved session description is an
  argument.
\<close>

section \<open>Closing an access unit\<close>

record unit_report =
  un_index :: nat
  un_rtp_timestamp :: int
  un_packet_indices :: "nat list"
  un_rtp_sequences :: "int list"
  un_nal_types :: "int list"
  un_nal_sizes :: "nat list"
  un_marker :: "nat option"
  un_offset :: nat
  un_bytes :: nat
  un_sha256 :: string

record h264_state =
  hs_stream :: bytes
  hs_units :: "unit_report list"
  hs_nal_counts :: "(string \<times> int) list"
  hs_current :: "access_unit option"
  hs_fragments :: fragments
  hs_previous_sequence :: "int option"
  hs_source :: "rtp_key option"
  hs_selected :: int
  hs_unselected :: int
  hs_unsupported :: int
  hs_retained :: int
  hs_unsupported_types :: "int list"

definition h264_init :: "bytes list \<Rightarrow> h264_state" where
  "h264_init initial = \<lparr>hs_stream = concat (map (\<lambda>nal. START_CODE @ nal) initial), hs_units = [],
     hs_nal_counts = [], hs_current = None, hs_fragments = no_fragments, hs_previous_sequence = None,
     hs_source = None, hs_selected = 0, hs_unselected = 0, hs_unsupported = 0, hs_retained = 0,
     hs_unsupported_types = []\<rparr>"

text \<open>One NAL unit of the closing access unit is appended to the stream and counted.\<close>

definition emit_nal :: "bytes list \<Rightarrow> bytes \<times> (string \<times> int) list \<Rightarrow> bytes \<Rightarrow> (bytes \<times> (string \<times> int) list) result" where
  "emit_nal initial acc nal = (case acc of (stream, counts) \<Rightarrow>
     rbind (item_at nal 0) (\<lambda>first.
       if initial \<noteq> [] \<and> nal_kind first \<in> {NAL_SPS, NAL_PPS} \<and> nal \<notin> set initial
       then fail ''in-band parameter set conflicts with selected initial sets''
       else let stream' = stream @ START_CODE @ nal in
         if length stream' > MAX_ELEMENTARY_BYTES then fail ''elementary stream exceeds the bounded size''
         else Inr (stream', bump (int_text (nal_kind first)) counts)))"

definition close_unit :: "bytes list \<Rightarrow> access_unit \<Rightarrow> h264_state \<Rightarrow> h264_state result" where
  "close_unit initial u st =
     (if fr_open (hs_fragments st) then fail ''FU-A chain never ended before the access unit closed''
      else if au_nals u = [] then fail ''access unit carries no NAL unit''
      else let start = length (hs_stream st) in
        rbind (run_items (emit_nal initial) (hs_stream st, hs_nal_counts st) (au_nals u)) (\<lambda>(stream, counts).
        if length (hs_units st) \<ge> MAX_ACCESS_UNITS then fail ''capture exceeds the access unit bound''
        else Inr (st\<lparr>hs_stream := stream, hs_nal_counts := counts,
          hs_units := hs_units st @ [\<lparr>un_index = length (hs_units st), un_rtp_timestamp = au_timestamp u,
            un_packet_indices = au_packet_indices u, un_rtp_sequences = au_sequences u,
            un_nal_types = map (\<lambda>nal. nal_kind (nal ! 0)) (au_nals u),
            un_nal_sizes = map length (au_nals u), un_marker = au_marker_at u,
            un_offset = start, un_bytes = length stream - start,
            un_sha256 = sha256_ref (drop start stream)\<rparr>]\<rparr>)))"

section \<open>The depacketizer\<close>

text \<open>A retained packet: the open access unit it belongs to, then its NAL units, then its marker.\<close>

definition open_unit :: "bytes list \<Rightarrow> nat \<Rightarrow> rtp_packet \<Rightarrow> h264_state \<Rightarrow> (h264_state \<times> access_unit) result" where
  "open_unit initial index rtp st =
     (case hs_current st of
        None \<Rightarrow> Inr (st, new_access_unit (rp_timestamp rtp) (rp_sequence rtp) index)
      | Some u \<Rightarrow>
          if rp_timestamp rtp \<noteq> au_timestamp u
          then rbind (close_unit initial u st) (\<lambda>st'.
            Inr (st'\<lparr>hs_current := None\<rparr>, new_access_unit (rp_timestamp rtp) (rp_sequence rtp) index))
          else if au_marker_at u \<noteq> None
          then fail ''packet follows a marked access unit under the same timestamp''
          else Inr (st, add_packet (rp_sequence rtp) index u))"

definition take_payload :: "bytes list \<Rightarrow> nat \<Rightarrow> rtp_packet \<Rightarrow> h264_state \<Rightarrow> h264_state result" where
  "take_payload initial index rtp st =
     rbind (payload_kind (rp_payload rtp)) (\<lambda>kind.
     rbind (open_unit initial index rtp st) (\<lambda>(st1, u).
     rbind (unpack (rp_sequence rtp) (rp_timestamp rtp) (rp_payload rtp) (hs_fragments st1)) (\<lambda>(f, nals).
     rbind (run_items add_nal u nals) (\<lambda>u1.
       Inr (st1\<lparr>hs_fragments := f,
         hs_current := Some (if rp_marker rtp then u1\<lparr>au_marker_at := Some index\<rparr> else u1)\<rparr>)))))"

definition h264_step :: "bytes list \<Rightarrow> int \<Rightarrow> int option \<Rightarrow> h264_state \<Rightarrow> saved_datagram \<Rightarrow> h264_state result" where
  "h264_step initial payload_type ssrc st saved =
     (case sd_udp saved of
        None \<Rightarrow> Inr (st\<lparr>hs_unselected := hs_unselected st + 1\<rparr>)
      | Some udp \<Rightarrow>
          rbind (parse_rtp (uf_payload udp)) (\<lambda>rtp.
          let source = (uf_source_address udp, uf_source_port udp, uf_destination_address udp,
                        uf_destination_port udp, rp_ssrc rtp) in
          if ssrc \<noteq> None \<and> ssrc \<noteq> Some (rp_ssrc rtp) then Inr (st\<lparr>hs_unselected := hs_unselected st + 1\<rparr>)
          else if hs_source st \<noteq> None \<and> hs_source st \<noteq> Some source
          then fail ''selected traffic mixes sources; declare one SSRC''
          else let st1 = st\<lparr>hs_source := Some source, hs_selected := hs_selected st + 1\<rparr> in
            if (case hs_previous_sequence st1 of None \<Rightarrow> False
                | Some p \<Rightarrow> rp_sequence rtp \<noteq> (p + 1) mod RTP_SEQ_MOD)
            then fail ''selected RTP sequence is not consecutive; assembly would be ambiguous''
            else let st2 = st1\<lparr>hs_previous_sequence := Some (rp_sequence rtp)\<rparr> in
              if rp_payload_type rtp \<noteq> payload_type
              then Inr (st2\<lparr>hs_unsupported := hs_unsupported st2 + 1,
                hs_unsupported_types := (if rp_payload_type rtp \<in> set (hs_unsupported_types st2)
                  then hs_unsupported_types st2 else hs_unsupported_types st2 @ [rp_payload_type rtp])\<rparr>)
              else take_payload initial (sd_index saved) rtp (st2\<lparr>hs_retained := hs_retained st2 + 1\<rparr>)))"

text \<open>The end of the capture closes the last access unit.\<close>

definition h264_close :: "bytes list \<Rightarrow> int option \<Rightarrow> h264_state \<Rightarrow> h264_state result" where
  "h264_close initial ssrc st =
     (if fr_open (hs_fragments st) then fail ''capture ends inside an unfinished FU-A chain''
      else rbind (case hs_current st of None \<Rightarrow> Inr st | Some u \<Rightarrow> close_unit initial u st) (\<lambda>st1.
        if hs_units st1 = [] then fail ''no retained H.264 access unit in the selected capture''
        else if ssrc \<noteq> None \<and> hs_source st1 = None
        then fail ''the selected SSRC is not present in this capture''
        else Inr st1))"

section \<open>Parameter sets before the first slice\<close>

record prerequisites =
  pq_seen :: "int list"
  pq_slice_units :: "unit_report list"
  pq_before :: bool

definition prerequisite_kind :: "prerequisites \<times> bool \<Rightarrow> int \<Rightarrow> prerequisites \<times> bool" where
  "prerequisite_kind acc kind = (case acc of (p, carries) \<Rightarrow>
     if kind \<in> set CODED_SLICE then (p\<lparr>pq_before := False\<rparr>, True)
     else if pq_before p \<and> kind \<in> {NAL_SPS, NAL_PPS} \<and> kind \<notin> set (pq_seen p)
     then (p\<lparr>pq_seen := pq_seen p @ [kind]\<rparr>, carries)
     else (p, carries))"

definition prerequisite_unit :: "prerequisites \<Rightarrow> unit_report \<Rightarrow> prerequisites" where
  "prerequisite_unit p u =
     (let (p', carries) = foldl prerequisite_kind (p, False) (un_nal_types u)
      in if carries then p'\<lparr>pq_slice_units := pq_slice_units p' @ [u]\<rparr> else p')"

definition prerequisites_of :: "unit_report list \<Rightarrow> prerequisites" where
  "prerequisites_of units =
     foldl prerequisite_unit \<lparr>pq_seen = [], pq_slice_units = [], pq_before = True\<rparr> units"

section \<open>Elapsed ticks per access unit\<close>

datatype time_state = TimeFirst | TimeForward | NonmonotonicBackward | UnknownForwardJump | UnknownAfterNonmonotonic

fun time_text :: "time_state \<Rightarrow> string" where
  "time_text TimeFirst = ''first''"
| "time_text TimeForward = ''forward''"
| "time_text NonmonotonicBackward = ''nonmonotonic_backward''"
| "time_text UnknownForwardJump = ''unknown_forward_jump''"
| "time_text UnknownAfterNonmonotonic = ''unknown_after_nonmonotonic''"

record unit_time =
  ut_state :: time_state
  ut_ticks :: "int option"
  ut_relative_us :: "int option"

record timing_state =
  ts_elapsed :: int
  ts_previous :: "int option"
  ts_steps :: "int list"
  ts_monotonic :: bool

definition timing_init :: timing_state where
  "timing_init = \<lparr>ts_elapsed = 0, ts_previous = None, ts_steps = [], ts_monotonic = True\<rparr>"

definition timing_step :: "int \<Rightarrow> timing_state \<Rightarrow> int \<Rightarrow> timing_state \<times> unit_time" where
  "timing_step clock_rate t stamp =
     (case ts_previous t of
        None \<Rightarrow> (t\<lparr>ts_previous := Some stamp\<rparr>,
                 \<lparr>ut_state = TimeFirst, ut_ticks = Some 0, ut_relative_us = Some 0\<rparr>)
      | Some previous \<Rightarrow>
          if \<not> ts_monotonic t
          then (t\<lparr>ts_previous := Some stamp\<rparr>,
                \<lparr>ut_state = UnknownAfterNonmonotonic, ut_ticks = None, ut_relative_us = None\<rparr>)
          else let forward = (stamp - previous) mod RTP_TS_MOD; backward = (previous - stamp) mod RTP_TS_MOD in
            if forward \<le> MAX_FORWARD_TICKS
            then let elapsed = ts_elapsed t + forward in
              (t\<lparr>ts_elapsed := elapsed, ts_steps := ts_steps t @ [forward], ts_previous := Some stamp\<rparr>,
               \<lparr>ut_state = TimeForward, ut_ticks = Some elapsed,
                ut_relative_us = Some (elapsed * 1000000 div clock_rate)\<rparr>)
            else (t\<lparr>ts_monotonic := False, ts_previous := Some stamp\<rparr>,
                  \<lparr>ut_state = (if backward \<le> MAX_FORWARD_TICKS then NonmonotonicBackward
                               else UnknownForwardJump), ut_ticks = None, ut_relative_us = None\<rparr>))"

record timing =
  tm_times :: "unit_time list"
  tm_cadence :: "int option"
  tm_monotonic :: bool
  tm_rate :: "int option"

definition timing_summary :: "int \<Rightarrow> timing_state \<Rightarrow> unit_time list \<Rightarrow> timing" where
  "timing_summary clock_rate t ts =
     (let cadence = (if ts_steps t \<noteq> [] \<and> length (remdups (ts_steps t)) = 1 then Some (hd (ts_steps t)) else None);
          constant = (ts_monotonic t \<and> (case cadence of None \<Rightarrow> False | Some c \<Rightarrow> c > 0));
          rate = (case cadence of None \<Rightarrow> None
                  | Some c \<Rightarrow> if constant \<and> clock_rate mod c = 0 then Some (clock_rate div c) else None)
      in \<lparr>tm_times = ts, tm_cadence = (if constant then cadence else None),
          tm_monotonic = ts_monotonic t, tm_rate = rate\<rparr>)"

definition timing_of :: "int list \<Rightarrow> int \<Rightarrow> timing" where
  "timing_of stamps clock_rate =
     (let (t, ts) = run_steps (timing_step clock_rate) timing_init stamps
      in timing_summary clock_rate t ts)"

section \<open>The report\<close>

text \<open>The parameter sets a saved session description contributes.\<close>

definition h264_initial :: "(bytes list \<times> json) option \<Rightarrow> bytes list" where
  "h264_initial description = (case description of None \<Rightarrow> [] | Some (nals, _) \<Rightarrow> nals)"

record h264_report =
  hr_source_sha256 :: string
  hr_packets :: nat
  hr_linktype :: int
  hr_payload_type :: int
  hr_ssrc :: "int option"
  hr_clock_rate :: int
  hr_state :: h264_state
  hr_coded_slice_units :: nat
  hr_parameter_sets :: "int list"
  hr_description :: "(bytes list \<times> json) option"
  hr_timing :: timing

definition json_option :: "('a \<Rightarrow> json) \<Rightarrow> 'a option \<Rightarrow> json" where
  "json_option f x = (case x of None \<Rightarrow> JNull | Some y \<Rightarrow> f y)"

definition json_nat :: "nat \<Rightarrow> json" where
  "json_nat n = JInt (int n)"

definition unit_json :: "unit_report \<times> unit_time \<Rightarrow> json" where
  "unit_json ut = (case ut of (u, t) \<Rightarrow>
     JObj ([(''index'', json_nat (un_index u)), (''rtp_timestamp'', JInt (un_rtp_timestamp u)),
       (''packet_indices'', JArr (map json_nat (un_packet_indices u))),
       (''rtp_sequences'', JArr (map JInt (un_rtp_sequences u))),
       (''nal_types'', JArr (map JInt (un_nal_types u))),
       (''nal_sizes'', JArr (map json_nat (un_nal_sizes u))),
       (''marker_packet_index'', json_option json_nat (un_marker u)),
       (''elementary_offset'', json_nat (un_offset u)), (''elementary_bytes'', json_nat (un_bytes u)),
       (''sha256'', JStr (un_sha256 u))]
      @ (let state = (''rtp_time_state'', JStr (time_text (ut_state t)));
             ticks = [(''rtp_ticks_since_first'', json_option JInt (ut_ticks t)),
                      (''rtp_source_relative_us'', json_option JInt (ut_relative_us t))]
         in if ut_state t \<in> {NonmonotonicBackward, UnknownForwardJump} then ticks @ [state]
            else state # ticks)))"

definition source_json :: "rtp_key \<Rightarrow> json" where
  "source_json key = (case key of (sa, sp, da, dp, ssrc) \<Rightarrow>
     JObj [(''source_address'', JStr sa), (''source_port'', JInt sp), (''destination_address'', JStr da),
       (''destination_port'', JInt dp), (''ssrc'', JInt ssrc)])"

definition H264_SCHEMA :: string where "H264_SCHEMA = ''musubi.rtp-h264-elementary-stream/v1''"
definition RTP_TIME_BASIS :: string where
  "RTP_TIME_BASIS = ''RTP_90KHZ_SOURCE_RELATIVE_NOT_UTC_NO_RTCP_ANCHOR''"
definition DECODER_BASIS :: string where
  "DECODER_BASIS = ''DECODED_FRAME_RECORDS_COME_FROM_THE_QUALIFIED_OFFLINE_DECODER_NOT_FROM_THIS_MODULE''"
definition PARAMETER_SET_BASIS :: string where
  "PARAMETER_SET_BASIS = ''STRUCTURAL_SPS_AND_PPS_BEFORE_FIRST_CODED_SLICE_NOT_PARAMETER_ID_OR_PROFILE_''
     @ ''COMPATIBILITY_WHICH_ONLY_THE_DECODER_ESTABLISHES''"
definition MUX_BASIS :: string where
  "MUX_BASIS = ''CANDIDATE_CONSTANT_CADENCE_REQUIRES_A_DECODER_JOIN_BEFORE_ANY_FRAME_TIMING_CLAIM''"
definition MUX_NOT_OFFERED :: string where
  "MUX_NOT_OFFERED = ''NOT_OFFERED_CADENCE_NOT_CONSTANT_POSITIVE_AND_DIVIDING_THE_CLOCK''"

definition h264_report_json :: "h264_report \<Rightarrow> json" where
  "h264_report_json r =
     (let st = hr_state r; t = hr_timing r in
      JObj ([(''schema'', JStr H264_SCHEMA), (''source_sha256'', JStr (hr_source_sha256 r)),
        (''packets'', json_nat (hr_packets r)), (''selected_packets'', JInt (hs_selected st)),
        (''unselected_packets'', JInt (hs_unselected st)),
        (''unsupported_packets'', JInt (hs_unsupported st)),
        (''retained_packets'', JInt (hs_retained st)), (''linktype'', JInt (hr_linktype r)),
        (''selected_payload_type'', JInt (hr_payload_type r)),
        (''selected_ssrc'', json_option JInt (hr_ssrc r)), (''clock_rate_hz'', JInt (hr_clock_rate r)),
        (''rtp_time_basis'', JStr RTP_TIME_BASIS), (''decoder_basis'', JStr DECODER_BASIS),
        (''unsupported_payload_types'', JArr (map JInt (hs_unsupported_types st))),
        (''nal_type_counts'', JObj (map (\<lambda>(k, n). (k, JInt n)) (hs_nal_counts st))),
        (''access_units'', JArr (map unit_json (zip (hs_units st) (tm_times t))))]
       @ (case hs_source st of None \<Rightarrow> [] | Some key \<Rightarrow> [(''selected_source'', source_json key)])
       @ [(''access_unit_count'', json_nat (length (hs_units st))),
        (''coded_slice_access_units'', json_nat (hr_coded_slice_units r)),
        (''elementary_bytes'', json_nat (length (hs_stream st))),
        (''elementary_sha256'', JStr (sha256_ref (hs_stream st))),
        (''parameter_sets_before_first_slice'', JArr (map JInt (hr_parameter_sets r))),
        (''parameter_set_check_basis'', JStr PARAMETER_SET_BASIS)]
       @ (case hr_description r of None \<Rightarrow> []
          | Some (initial, description_report) \<Rightarrow> if initial = [] then [] else
              [(''initial_parameter_sets'', description_report),
               (''initial_parameter_bytes'', json_nat (sum_list (map (\<lambda>nal. 4 + length nal) initial))),
               (''initial_parameter_timing_basis'',
                JStr ''OUT_OF_BAND_PREFIX_NOT_CAPTURED_ACCESS_UNIT_OR_TIMESTAMP'')])
       @ [(''rtp_cadence_ticks'', json_option JInt (tm_cadence t)),
        (''rtp_timing_monotonic'', JBool (tm_monotonic t)),
        (''declared_mux_frame_rate'', json_option JInt (tm_rate t)),
        (''mux_timing_basis'', JStr (case tm_rate t of None \<Rightarrow> MUX_NOT_OFFERED
            | Some rate \<Rightarrow> if rate = 0 then MUX_NOT_OFFERED else MUX_BASIS))]))"

definition h264_finish ::
  "string \<Rightarrow> nat \<Rightarrow> int \<Rightarrow> int \<Rightarrow> int option \<Rightarrow> int \<Rightarrow> (bytes list \<times> json) option \<Rightarrow> h264_state
    \<Rightarrow> (bytes \<times> h264_report) result" where
  "h264_finish source_sha packets linktype payload_type ssrc clock_rate description st =
     (let pq = prerequisites_of (hs_units st);
          parameter_sets = (if h264_initial description \<noteq> [] then [NAL_SPS, NAL_PPS] else pq_seen pq) in
      if NAL_SPS \<notin> set parameter_sets \<or> NAL_PPS \<notin> set parameter_sets
      then fail ''both SPS and PPS must precede the first coded slice''
      else if pq_slice_units pq = [] then fail ''no coded slice in the selected capture; nothing to decode''
      else let report = \<lparr>hr_source_sha256 = source_sha, hr_packets = packets, hr_linktype = linktype,
             hr_payload_type = payload_type, hr_ssrc = ssrc, hr_clock_rate = clock_rate, hr_state = st,
             hr_coded_slice_units = length (pq_slice_units pq), hr_parameter_sets = parameter_sets,
             hr_description = description,
             hr_timing = timing_of (map un_rtp_timestamp (hs_units st)) clock_rate\<rparr> in
        if length (dumps (h264_report_json report)) > REPORT_LIMIT
        then fail ''access unit report exceeds bound''
        else Inr (hs_stream st, report))"

text \<open>
  \<^verbatim>\<open>description\<close> is what \<^verbatim>\<open>_description_sets\<close> returned for the saved session description, if one was
  given: two parameter sets and the report on them.
\<close>

definition depacketize ::
  "dpkt \<Rightarrow> bytes \<Rightarrow> int \<Rightarrow> int \<Rightarrow> int \<Rightarrow> int option \<Rightarrow> (bytes list \<times> json) option \<Rightarrow> int option
    \<Rightarrow> (bytes \<times> h264_report) result" where
  "depacketize dk data destination_port payload_type clock_rate ssrc description media_index =
     (if \<not> (0 \<le> payload_type \<and> payload_type \<le> 127)
      then fail ''an explicit RTP payload type must be declared for H.264''
      else if clock_rate \<noteq> H264_CLOCK_RATE then fail ''RFC 6184 fixes a 90 kHz clock rate for H.264''
      else if (case ssrc of None \<Rightarrow> False | Some s \<Rightarrow> \<not> (0 \<le> s \<and> s < 2 ^ 32))
      then fail ''explicit SSRC must be a 32 bit value''
      else if description = None \<and> media_index \<noteq> None then fail ''media index requires saved description''
      else let initial = h264_initial description in
        rbind (read_pcap_records data) (\<lambda>(linktype, captures).
        rbind (run_gen (h264_step initial payload_type ssrc) (h264_init initial)
                (iter_udp_datagrams dk data destination_port (Some (linktype, captures)) False)) (\<lambda>st.
        rbind (h264_close initial ssrc st)
          (h264_finish (sha256_ref data) (length captures) linktype payload_type ssrc clock_rate description))))"

section \<open>The layout of the elementary stream\<close>

definition coded :: "bytes list \<Rightarrow> bytes" where
  "coded nals = concat (map (\<lambda>nal. START_CODE @ nal) nals)"

lemma coded_simps [simp]: "coded [] = []" "coded (n # ns) = START_CODE @ n @ coded ns"
  "coded (ms @ ns) = coded ms @ coded ns"
  by (simp_all add: coded_def)

definition sound_nal :: "bytes \<Rightarrow> bool" where
  "sound_nal nal \<longleftrightarrow> nal \<noteq> [] \<and> hd nal AND 0x80 = 0 \<and> length nal \<le> MAX_NAL_BYTES"

definition unit_carries :: "nat \<Rightarrow> nat \<Rightarrow> unit_report \<Rightarrow> bytes list \<Rightarrow> bool" where
  "unit_carries n off u nals \<longleftrightarrow> un_index u = n \<and> un_offset u = off \<and> un_bytes u = length (coded nals) \<and>
     un_sha256 u = sha256_ref (coded nals) \<and> un_nal_types u = map (\<lambda>nal. nal_kind (hd nal)) nals \<and>
     un_nal_sizes u = map length nals \<and> nals \<noteq> [] \<and> (\<forall>nal \<in> set nals. sound_nal nal)"

fun units_at :: "nat \<Rightarrow> nat \<Rightarrow> unit_report list \<Rightarrow> bytes list list \<Rightarrow> bool" where
  "units_at n off [] nss \<longleftrightarrow> nss = []"
| "units_at n off (u # us) nss \<longleftrightarrow> (\<exists>ns nss'. nss = ns # nss' \<and> unit_carries n off u ns \<and>
     units_at (n + 1) (off + length (coded ns)) us nss')"

lemma units_at_snoc:
  "units_at n off us nss \<Longrightarrow> unit_carries (n + length us) (off + length (concat (map coded nss))) u ns \<Longrightarrow>
    units_at n off (us @ [u]) (nss @ [ns])"
  by (induction n off us nss rule: units_at.induct) (auto simp: add.assoc)

fun apart :: "int list \<Rightarrow> bool" where
  "apart (a # b # xs) \<longleftrightarrow> a \<noteq> b \<and> apart (b # xs)"
| "apart _ \<longleftrightarrow> True"

lemma apart_snoc: "apart (xs @ [x]) \<longleftrightarrow> apart xs \<and> (xs \<noteq> [] \<longrightarrow> last xs \<noteq> x)"
  by (induction xs rule: apart.induct) auto

text \<open>
  The state between packets: the stream is the initial sets and the units closed so far, every
  packet is counted once, and units that follow one another carry different timestamps.
\<close>

definition unit_packets :: "h264_state \<Rightarrow> nat list" where
  "unit_packets st = concat (map un_packet_indices (hs_units st))
     @ (case hs_current st of None \<Rightarrow> [] | Some u \<Rightarrow> au_packet_indices u)"

definition unit_stamps :: "h264_state \<Rightarrow> int list" where
  "unit_stamps st = map un_rtp_timestamp (hs_units st)
     @ (case hs_current st of None \<Rightarrow> [] | Some u \<Rightarrow> [au_timestamp u])"

definition laid_out :: "bytes list \<Rightarrow> h264_state \<Rightarrow> bool" where
  "laid_out initial st \<longleftrightarrow> (\<exists>nss. hs_stream st = coded initial @ concat (map coded nss) \<and>
     units_at 0 (length (coded initial)) (hs_units st) nss \<and>
     total (hs_nal_counts st) = int (length (concat nss)))"

definition unit_inv :: "bytes list \<Rightarrow> h264_state \<Rightarrow> bool" where
  "unit_inv initial st \<longleftrightarrow> laid_out initial st \<and> apart (unit_stamps st) \<and>
     (\<forall>u. hs_current st = Some u \<longrightarrow> (\<forall>nal \<in> set (au_nals u). sound_nal nal))"

definition h264_counted :: "saved_datagram list \<Rightarrow> h264_state \<Rightarrow> bool" where
  "h264_counted items st \<longleftrightarrow> hs_selected st + hs_unselected st = int (length items) \<and>
     hs_retained st + hs_unsupported st = hs_selected st \<and>
     hs_retained st = int (length (unit_packets st))"

definition same_counters :: "h264_state \<Rightarrow> h264_state \<Rightarrow> bool" where
  "same_counters st st' \<longleftrightarrow> hs_selected st' = hs_selected st \<and> hs_unselected st' = hs_unselected st \<and>
     hs_retained st' = hs_retained st \<and> hs_unsupported st' = hs_unsupported st"

lemma emit_nals:
  assumes "run_items (emit_nal initial) (s, c) nals = Inr (s', c')"
  shows "s' = s @ coded nals \<and> total c' = total c + int (length nals)"
  using assms
proof (induction nals arbitrary: s c)
  case (Cons nal nals)
  then obtain s1 c1 where step: "emit_nal initial (s, c) nal = Inr (s1, c1)"
    and rest: "run_items (emit_nal initial) (s1, c1) nals = Inr (s', c')"
    by (auto simp: result_simps)
  from step have "s1 = s @ START_CODE @ nal \<and> total c1 = total c + 1"
    by (auto simp: emit_nal_def Let_def result_simps split: if_splits)
  with Cons.IH [OF rest] show ?case by simp
qed simp

text \<open>What closing a unit does to the state: one more report entry, its octets at the end of the stream.\<close>

definition closes :: "h264_state \<Rightarrow> access_unit \<Rightarrow> unit_report \<Rightarrow> h264_state \<Rightarrow> bool" where
  "closes st u v st' \<longleftrightarrow> hs_stream st' = hs_stream st @ coded (au_nals u) \<and>
    total (hs_nal_counts st') = total (hs_nal_counts st) + int (length (au_nals u)) \<and>
    hs_units st' = hs_units st @ [v] \<and> un_rtp_timestamp v = au_timestamp u \<and>
    un_packet_indices v = au_packet_indices u \<and> au_nals u \<noteq> [] \<and>
    un_index v = length (hs_units st) \<and> un_offset v = length (hs_stream st) \<and>
    un_bytes v = length (coded (au_nals u)) \<and> un_sha256 v = sha256_ref (coded (au_nals u)) \<and>
    un_nal_types v = map (\<lambda>nal. nal_kind (nal ! 0)) (au_nals u) \<and> un_nal_sizes v = map length (au_nals u) \<and>
    hs_current st' = hs_current st \<and> hs_selected st' = hs_selected st \<and> hs_unselected st' = hs_unselected st \<and>
    hs_retained st' = hs_retained st \<and> hs_unsupported st' = hs_unsupported st"

lemma close_unit_closes:
  assumes "close_unit initial u st = Inr st'"
  shows "\<exists>v. closes st u v st'"
proof -
  from assms have ne: "au_nals u \<noteq> []" by (auto simp: close_unit_def split: if_splits)
  from assms obtain s c where e: "run_items (emit_nal initial) (hs_stream st, hs_nal_counts st) (au_nals u) = Inr (s, c)"
    unfolding close_unit_def Let_def by (elim if_failE rbind_pairE)
  from emit_nals [OF e] have s: "s = hs_stream st @ coded (au_nals u)"
    "total c = total (hs_nal_counts st) + int (length (au_nals u))" by auto
  define v where "v = \<lparr>un_index = length (hs_units st), un_rtp_timestamp = au_timestamp u,
    un_packet_indices = au_packet_indices u, un_rtp_sequences = au_sequences u,
    un_nal_types = map (\<lambda>nal. nal_kind (nal ! 0)) (au_nals u), un_nal_sizes = map length (au_nals u),
    un_marker = au_marker_at u, un_offset = length (hs_stream st), un_bytes = length (coded (au_nals u)),
    un_sha256 = sha256_ref (coded (au_nals u))\<rparr>"
  have "st' = st\<lparr>hs_stream := hs_stream st @ coded (au_nals u), hs_nal_counts := c, hs_units := hs_units st @ [v]\<rparr>"
    using assms unfolding close_unit_def Let_def e rbind_simps prod.case s(1)
    by (elim if_failE) (simp add: v_def)
  then have "closes st u v st'" using ne by (simp add: closes_def v_def s(2))
  then show ?thesis ..
qed

lemma closes_laid_out:
  assumes "closes st u v st'" "laid_out initial st" "\<forall>nal \<in> set (au_nals u). sound_nal nal"
  shows "laid_out initial st'"
proof -
  from assms(2) obtain nss where n: "hs_stream st = coded initial @ concat (map coded nss)"
    "units_at 0 (length (coded initial)) (hs_units st) nss"
    "total (hs_nal_counts st) = int (length (concat nss))" by (auto simp: laid_out_def)
  have heads: "map (\<lambda>nal. nal_kind (nal ! 0)) (au_nals u) = map (\<lambda>nal. nal_kind (hd nal)) (au_nals u)"
    using assms(3) by (auto simp: sound_nal_def hd_conv_nth)
  have "unit_carries (0 + length (hs_units st)) (length (coded initial) + length (concat (map coded nss))) v (au_nals u)"
    using assms(1,3) by (simp add: closes_def unit_carries_def n(1) heads)
  from units_at_snoc [OF n(2) this] assms(1) show ?thesis
    unfolding laid_out_def closes_def by (intro exI [of _ "nss @ [au_nals u]"]) (simp add: n)
qed

lemma closes_inv:
  assumes "closes st u v st'" "unit_inv initial st" "hs_current st = Some u"
  shows "unit_inv initial (st'\<lparr>hs_current := None\<rparr>)"
    "unit_stamps (st'\<lparr>hs_current := None\<rparr>) = unit_stamps st"
    "unit_packets (st'\<lparr>hs_current := None\<rparr>) = unit_packets st" "same_counters st st'"
    "unit_stamps st \<noteq> []" "last (unit_stamps st) = au_timestamp u"
proof -
  have l: "laid_out initial st'"
    using closes_laid_out [OF assms(1)] assms(2,3) by (simp add: unit_inv_def)
  have l': "laid_out initial (st'\<lparr>hs_current := None\<rparr>) = laid_out initial st'"
    by (simp add: laid_out_def)
  show s: "unit_stamps (st'\<lparr>hs_current := None\<rparr>) = unit_stamps st"
    "unit_packets (st'\<lparr>hs_current := None\<rparr>) = unit_packets st" "same_counters st st'"
    using assms(1,3) by (simp_all add: closes_def unit_stamps_def unit_packets_def same_counters_def)
  show "unit_inv initial (st'\<lparr>hs_current := None\<rparr>)"
    unfolding unit_inv_def s l' using assms(2) l by (simp add: unit_inv_def)
  show "unit_stamps st \<noteq> []" "last (unit_stamps st) = au_timestamp u"
    by (simp_all add: unit_stamps_def assms(3))
qed

lemma add_nals_sound:
  assumes "run_items add_nal u nals = Inr u'" "\<forall>nal \<in> set (au_nals u). sound_nal nal"
  shows "(\<forall>nal \<in> set (au_nals u'). sound_nal nal) \<and> au_packet_indices u' = au_packet_indices u \<and>
    au_timestamp u' = au_timestamp u \<and> au_nals u' = au_nals u @ nals"
  using assms
proof (induction nals arbitrary: u)
  case (Cons nal nals)
  then obtain u1 where step: "add_nal u nal = Inr u1" and rest: "run_items add_nal u1 nals = Inr u'"
    by (auto simp: result_simps)
  from step have "u1 = u\<lparr>au_nals := au_nals u @ [nal]\<rparr>" "sound_nal nal"
    by (auto simp: add_nal_def sound_nal_def result_simps hd_conv_nth split: if_splits)
  with Cons.IH [OF rest] Cons.prems(2) show ?case by auto
qed simp


lemma add_nals_fields:
  assumes "run_items add_nal u nals = Inr u'"
  shows "au_packet_indices u' = au_packet_indices u \<and> au_timestamp u' = au_timestamp u"
  using assms
proof (induction nals arbitrary: u)
  case (Cons nal nals)
  then obtain u1 where step: "add_nal u nal = Inr u1" and rest: "run_items add_nal u1 nals = Inr u'"
    by (auto simp: result_simps)
  from step have "u1 = u\<lparr>au_nals := au_nals u @ [nal]\<rparr>"
    by (auto simp: add_nal_def result_simps)
  with Cons.IH [OF rest] show ?case by auto
qed simp

text \<open>The unit a packet opens or joins, put back with the packet's NAL units.\<close>

lemma open_unit_inv:
  assumes "open_unit initial index rtp st = Inr (st1, u)" "unit_inv initial st"
    and started: "hs_current st = None \<Longrightarrow> hs_units st = []"
    and u': "au_packet_indices u' = au_packet_indices u" "au_timestamp u' = au_timestamp u"
      "\<forall>nal \<in> set (au_nals u). sound_nal nal \<Longrightarrow> \<forall>nal \<in> set (au_nals u'). sound_nal nal"
  shows "unit_inv initial (st1\<lparr>hs_fragments := f, hs_current := Some u'\<rparr>) \<and>
    length (unit_packets (st1\<lparr>hs_fragments := f, hs_current := Some u'\<rparr>)) = length (unit_packets st) + 1 \<and>
    same_counters st st1"
proof -
  let ?st = "\<lambda>st1. st1\<lparr>hs_fragments := f, hs_current := Some u'\<rparr>"
  have put: "unit_inv initial (?st st1) \<and> length (unit_packets (?st st1)) = length (unit_packets st1) + 1"
    if "unit_inv initial st1" "hs_current st1 = None" "unit_stamps st1 \<noteq> [] \<Longrightarrow> last (unit_stamps st1) \<noteq> rp_timestamp rtp"
      "u = new_access_unit (rp_timestamp rtp) (rp_sequence rtp) index" for st1
    using that u' by (auto simp: unit_inv_def laid_out_def unit_stamps_def unit_packets_def new_access_unit_def apart_snoc)
  consider (first) "hs_current st = None" | (same) w where "hs_current st = Some w" "rp_timestamp rtp = au_timestamp w"
    | (next_unit) w where "hs_current st = Some w" "rp_timestamp rtp \<noteq> au_timestamp w" by fastforce
  then show ?thesis
  proof cases
    case first
    then have s: "st1 = st" "u = new_access_unit (rp_timestamp rtp) (rp_sequence rtp) index"
      using assms(1) by (auto simp: open_unit_def)
    have "unit_inv initial (?st st) \<and> length (unit_packets (?st st)) = length (unit_packets st) + 1"
      using first started assms(2) s(2) by (intro put) (auto simp: unit_stamps_def)
    then show ?thesis by (simp add: s same_counters_def)
  next
    case same
    then have "st1 = st" "u = add_packet (rp_sequence rtp) index w"
      using assms(1) by (auto simp: open_unit_def split: if_splits)
    with same assms(2) u' show ?thesis
      by (auto simp: unit_inv_def laid_out_def unit_stamps_def unit_packets_def add_packet_def same_counters_def)
  next
    case next_unit
    then obtain st2 where c: "close_unit initial w st = Inr st2" and s1: "st1 = st2\<lparr>hs_current := None\<rparr>"
      and u: "u = new_access_unit (rp_timestamp rtp) (rp_sequence rtp) index"
      using assms(1) by (auto simp: open_unit_def result_simps)
    from close_unit_closes [OF c] obtain v where "closes st w v st2" ..
    note cl = closes_inv [OF this assms(2) next_unit(1)]
    have "unit_inv initial (?st st1) \<and> length (unit_packets (?st st1)) = length (unit_packets st1) + 1"
      using cl(1,2,5,6) next_unit(2) u unfolding s1 by (intro put) simp_all
    with cl(3,4) show ?thesis by (simp add: s1 same_counters_def)
  qed
qed

lemma take_payload_inv:
  assumes "take_payload initial index rtp st = Inr st'" "unit_inv initial st"
    and "hs_current st = None \<Longrightarrow> hs_units st = []"
  shows "unit_inv initial st' \<and> length (unit_packets st') = length (unit_packets st) + 1 \<and>
    same_counters st st' \<and> hs_current st' \<noteq> None"
proof -
  from assms(1) obtain kind where "rbind (open_unit initial index rtp st) (\<lambda>(st1, u).
      rbind (unpack (rp_sequence rtp) (rp_timestamp rtp) (rp_payload rtp) (hs_fragments st1)) (\<lambda>(f, nals).
      rbind (run_items add_nal u nals) (\<lambda>u1. Inr (st1\<lparr>hs_fragments := f,
        hs_current := Some (if rp_marker rtp then u1\<lparr>au_marker_at := Some index\<rparr> else u1)\<rparr>)))) = Inr st'"
    unfolding take_payload_def by (rule rbind_InrE)
  then obtain st1 u where o: "open_unit initial index rtp st = Inr (st1, u)"
    and "rbind (unpack (rp_sequence rtp) (rp_timestamp rtp) (rp_payload rtp) (hs_fragments st1)) (\<lambda>(f, nals).
      rbind (run_items add_nal u nals) (\<lambda>u1. Inr (st1\<lparr>hs_fragments := f,
        hs_current := Some (if rp_marker rtp then u1\<lparr>au_marker_at := Some index\<rparr> else u1)\<rparr>))) = Inr st'"
    by (elim rbind_pairE) simp
  then obtain f nals where "rbind (run_items add_nal u nals) (\<lambda>u1. Inr (st1\<lparr>hs_fragments := f,
        hs_current := Some (if rp_marker rtp then u1\<lparr>au_marker_at := Some index\<rparr> else u1)\<rparr>)) = Inr st'"
    by (elim rbind_pairE) simp
  then obtain u1 where a: "run_items add_nal u nals = Inr u1" and st': "st' = st1\<lparr>hs_fragments := f,
        hs_current := Some (if rp_marker rtp then u1\<lparr>au_marker_at := Some index\<rparr> else u1)\<rparr>"
    by (elim rbind_InrE) simp
  have "unit_inv initial st' \<and> length (unit_packets st') = length (unit_packets st) + 1 \<and> same_counters st st1"
    unfolding st' by (rule open_unit_inv [OF o assms(2,3)]) (use add_nals_sound [OF a] a in \<open>auto dest: add_nals_fields\<close>)
  then show ?thesis by (simp add: st' same_counters_def)
qed

definition h264_inv :: "bytes list \<Rightarrow> saved_datagram list \<Rightarrow> h264_state \<Rightarrow> bool" where
  "h264_inv initial items st \<longleftrightarrow> unit_inv initial st \<and> h264_counted items st \<and>
     (hs_current st = None \<longrightarrow> hs_units st = [])"

lemma unit_parts_counters [simp]:
  "unit_inv initial (st\<lparr>hs_unselected := n\<rparr>) = unit_inv initial st"
  "unit_inv initial (st\<lparr>hs_unsupported := n\<rparr>) = unit_inv initial st"
  "unit_inv initial (st\<lparr>hs_unsupported_types := ns\<rparr>) = unit_inv initial st"
  "unit_inv initial (st\<lparr>hs_retained := n\<rparr>) = unit_inv initial st"
  "unit_packets (st\<lparr>hs_unselected := n\<rparr>) = unit_packets st"
  "unit_packets (st\<lparr>hs_unsupported := n\<rparr>) = unit_packets st"
  "unit_packets (st\<lparr>hs_unsupported_types := ns\<rparr>) = unit_packets st"
  "unit_packets (st\<lparr>hs_retained := n\<rparr>) = unit_packets st"
  by (simp_all add: unit_inv_def laid_out_def unit_stamps_def unit_packets_def)

definition bound_state :: "udp_fields \<Rightarrow> rtp_packet \<Rightarrow> h264_state \<Rightarrow> h264_state" where
  "bound_state udp rtp st = st\<lparr>hs_source := Some (uf_source_address udp, uf_source_port udp,
      uf_destination_address udp, uf_destination_port udp, rp_ssrc rtp),
    hs_selected := hs_selected st + 1, hs_previous_sequence := Some (rp_sequence rtp)\<rparr>"

lemma bound_state_fields [simp]:
  "unit_inv initial (bound_state udp rtp st) = unit_inv initial st"
  "unit_packets (bound_state udp rtp st) = unit_packets st"
  "hs_current (bound_state udp rtp st) = hs_current st" "hs_units (bound_state udp rtp st) = hs_units st"
  "hs_selected (bound_state udp rtp st) = hs_selected st + 1"
  "hs_unselected (bound_state udp rtp st) = hs_unselected st"
  "hs_retained (bound_state udp rtp st) = hs_retained st"
  "hs_unsupported (bound_state udp rtp st) = hs_unsupported st"
  by (simp_all add: bound_state_def unit_inv_def laid_out_def unit_stamps_def unit_packets_def)

lemma h264_step_cases:
  assumes "h264_step initial pt ssrc st x = Inr st'"
  shows "st' = st\<lparr>hs_unselected := hs_unselected st + 1\<rparr> \<or>
    (\<exists>udp rtp ts. st' = (bound_state udp rtp st)\<lparr>hs_unsupported := hs_unsupported st + 1, hs_unsupported_types := ts\<rparr>) \<or>
    (\<exists>udp rtp. sd_udp x = Some udp \<and> parse_rtp (uf_payload udp) = Inr rtp \<and>
      take_payload initial (sd_index x) rtp ((bound_state udp rtp st)\<lparr>hs_retained := hs_retained st + 1\<rparr>) = Inr st')"
proof (cases "sd_udp x")
  case (Some udp)
  with assms obtain rtp where p: "parse_rtp (uf_payload udp) = Inr rtp"
    by (auto simp: h264_step_def result_simps)
  have eq: "h264_step initial pt ssrc st x =
    (if ssrc \<noteq> None \<and> ssrc \<noteq> Some (rp_ssrc rtp) then Inr (st\<lparr>hs_unselected := hs_unselected st + 1\<rparr>)
     else if hs_source st \<noteq> None \<and> hs_source st \<noteq> Some (uf_source_address udp, uf_source_port udp,
       uf_destination_address udp, uf_destination_port udp, rp_ssrc rtp)
     then fail ''selected traffic mixes sources; declare one SSRC''
     else if (case hs_previous_sequence st of None \<Rightarrow> False
                | Some p \<Rightarrow> rp_sequence rtp \<noteq> (p + 1) mod RTP_SEQ_MOD)
     then fail ''selected RTP sequence is not consecutive; assembly would be ambiguous''
     else if rp_payload_type rtp \<noteq> pt
     then Inr ((bound_state udp rtp st)\<lparr>hs_unsupported := hs_unsupported st + 1,
       hs_unsupported_types := (if rp_payload_type rtp \<in> set (hs_unsupported_types st)
         then hs_unsupported_types st else hs_unsupported_types st @ [rp_payload_type rtp])\<rparr>)
     else take_payload initial (sd_index x) rtp ((bound_state udp rtp st)\<lparr>hs_retained := hs_retained st + 1\<rparr>))"
    by (simp add: h264_step_def Some p Let_def bound_state_def cong: if_cong)
  show ?thesis
  proof (cases "ssrc \<noteq> None \<and> ssrc \<noteq> Some (rp_ssrc rtp)")
    case True
    with assms show ?thesis unfolding eq by simp
  next
    case False
    show ?thesis
    proof (cases "rp_payload_type rtp = pt")
      case True
      have "take_payload initial (sd_index x) rtp ((bound_state udp rtp st)\<lparr>hs_retained := hs_retained st + 1\<rparr>) = Inr st'"
        using assms unfolding eq if_not_P [OF False] by (elim if_failE) (simp add: True)
      with Some p show ?thesis by blast
    next
      case other: False
      have "\<exists>ts. st' = (bound_state udp rtp st)\<lparr>hs_unsupported := hs_unsupported st + 1, hs_unsupported_types := ts\<rparr>"
        using assms unfolding eq if_not_P [OF False] by (elim if_failE) (simp only: other if_True not_False_eq_True sum.inject, blast)
      then show ?thesis by blast
    qed
  qed
qed (use assms in \<open>simp add: h264_step_def\<close>)

lemma h264_step_inv:
  assumes "h264_step initial pt ssrc st x = Inr st'" "h264_inv initial items st"
  shows "h264_inv initial (items @ [x]) st'"
  using h264_step_cases [OF assms(1)]
proof (elim disjE exE conjE)
  assume "st' = st\<lparr>hs_unselected := hs_unselected st + 1\<rparr>"
  with assms(2) show ?thesis by (simp add: h264_inv_def h264_counted_def)
next
  fix udp rtp ts
  assume "st' = (bound_state udp rtp st)\<lparr>hs_unsupported := hs_unsupported st + 1, hs_unsupported_types := ts\<rparr>"
  with assms(2) show ?thesis by (simp add: h264_inv_def h264_counted_def)
next
  fix udp rtp
  let ?st = "(bound_state udp rtp st)\<lparr>hs_retained := hs_retained st + 1\<rparr>"
  assume t: "take_payload initial (sd_index x) rtp ?st = Inr st'"
  have same: "unit_inv initial ?st = unit_inv initial st" "unit_packets ?st = unit_packets st"
    "hs_current ?st = hs_current st" "hs_units ?st = hs_units st"
    by simp_all
  have "unit_inv initial ?st" "hs_current ?st = None \<Longrightarrow> hs_units ?st = []"
    using assms(2) unfolding same by (simp_all add: h264_inv_def)
  from take_payload_inv [OF t this] assms(2) show ?thesis
    unfolding same by (auto simp: h264_inv_def h264_counted_def same_counters_def)
qed

lemma h264_init_inv: "h264_inv initial [] (h264_init initial)"
  by (simp add: h264_inv_def h264_counted_def unit_inv_def laid_out_def h264_init_def unit_stamps_def
      unit_packets_def coded_def)

lemma h264_close_inv:
  assumes "h264_close initial ssrc st = Inr st'" "h264_inv initial items st"
  shows "laid_out initial st' \<and> apart (map un_rtp_timestamp (hs_units st')) \<and>
    hs_selected st' + hs_unselected st' = int (length items) \<and> hs_retained st' + hs_unsupported st' = hs_selected st' \<and>
    hs_retained st' = int (length (concat (map un_packet_indices (hs_units st')))) \<and> hs_units st' \<noteq> []"
proof (cases "hs_current st")
  case None
  with assms show ?thesis
    by (auto simp: h264_close_def h264_inv_def split: if_splits)
next
  case (Some u)
  with assms(1) have c: "close_unit initial u st = Inr st'" and ne: "hs_units st' \<noteq> []"
    by (auto simp: h264_close_def result_simps)
  from assms(2) have inv: "unit_inv initial st" "h264_counted items st" by (auto simp: h264_inv_def)
  from close_unit_closes [OF c] obtain v where v: "closes st u v st'" ..
  note k = closes_inv [OF v inv(1) Some]
  have l: "laid_out initial st'" using closes_laid_out [OF v] inv(1) Some by (simp add: unit_inv_def)
  have "apart (unit_stamps (st'\<lparr>hs_current := None\<rparr>))"
    using k(1) by (simp add: unit_inv_def)
  then have "apart (map un_rtp_timestamp (hs_units st'))" by (simp add: unit_stamps_def)
  moreover have "length (concat (map un_packet_indices (hs_units st'))) = length (unit_packets st)"
    using k(3) by (simp add: unit_packets_def [of "st'\<lparr>hs_current := None\<rparr>"])
  ultimately show ?thesis
    using l ne k(4) inv(2) by (simp add: same_counters_def h264_counted_def)
qed

lemma h264_finish_Inr:
  assumes "h264_finish sha packets lt pt ssrc clock description st = Inr (stream, rep)"
  shows "stream = hs_stream st \<and> hr_state rep = st \<and> hr_clock_rate rep = clock \<and>
    hr_coded_slice_units rep = length (pq_slice_units (prerequisites_of (hs_units st))) \<and>
    hr_timing rep = timing_of (map un_rtp_timestamp (hs_units st)) clock"
  using assms unfolding h264_finish_def Let_def
  by - (elim if_failE, simp only: sum.inject prod.inject, elim conjE, hypsubst, simp)

text \<open>C12. The elementary stream is the declared parameter sets followed by the NAL units of the
  reported access units, each behind one start code: every unit names the octets it contributes by
  offset, size and digest, no retained NAL unit has its forbidden bit set, neighbouring units have
  different timestamps, and every saved packet is counted once.\<close>

theorem h264_stream_layout:
  assumes "depacketize dk data port pt clock ssrc description media = Inr (stream, rep)"
  shows "\<exists>records items nss. read_pcap_records data = Inr records \<and>
    iter_udp_datagrams dk data port (Some records) False = (items, None) \<and>
    stream = coded (h264_initial description) @ concat (map coded nss) \<and>
    units_at 0 (length (coded (h264_initial description))) (hs_units (hr_state rep)) nss \<and>
    total (hs_nal_counts (hr_state rep)) = int (length (concat nss)) \<and>
    apart (map un_rtp_timestamp (hs_units (hr_state rep))) \<and>
    hs_selected (hr_state rep) + hs_unselected (hr_state rep) = int (length items) \<and>
    hs_retained (hr_state rep) + hs_unsupported (hr_state rep) = hs_selected (hr_state rep) \<and>
    hs_retained (hr_state rep) = int (length (concat (map un_packet_indices (hs_units (hr_state rep)))))"
proof -
  from assms obtain lt cs st st' where r: "read_pcap_records data = Inr (lt, cs)"
    and run: "run_gen (h264_step (h264_initial description) pt ssrc) (h264_init (h264_initial description))
      (iter_udp_datagrams dk data port (Some (lt, cs)) False) = Inr st"
    and cl: "h264_close (h264_initial description) ssrc st = Inr st'"
    and fin: "h264_finish (sha256_ref data) (length cs) lt pt ssrc clock description st' = Inr (stream, rep)"
    unfolding depacketize_def Let_def
    by (elim if_failE rbind_pairE) (simp, elim rbind_InrE, blast)
  from run obtain items where it: "iter_udp_datagrams dk data port (Some (lt, cs)) False = (items, None)"
    and ri: "run_items (h264_step (h264_initial description) pt ssrc) (h264_init (h264_initial description)) items = Inr st"
    by (rule run_gen_InrE)
  have inv: "h264_inv (h264_initial description) items st"
    using run_items_prefix [where I = "h264_inv (h264_initial description)", OF ri h264_init_inv] h264_step_inv by blast
  from h264_finish_Inr [OF fin] have f: "stream = hs_stream st'" "hr_state rep = st'" by auto
  note close = h264_close_inv [OF cl inv]
  from close obtain nss where n: "stream = coded (h264_initial description) @ concat (map coded nss)"
    "units_at 0 (length (coded (h264_initial description))) (hs_units st') nss"
    "total (hs_nal_counts st') = int (length (concat nss))"
    unfolding laid_out_def f(1) by (elim conjE exE)
  show ?thesis
    using close r it n unfolding f(2)
    by (intro exI [of _ "(lt, cs)"] exI [of _ items] exI [of _ nss]) simp
qed


section \<open>A capture of one aggregation packet\<close>

definition h264_capture :: bytes where
  "h264_capture =
    [212, 195, 178, 161, 2, 0, 4, 0, 0, 0, 0, 0, 0, 0, 0, 0, 0, 0, 1, 0, 1, 0, 0, 0, 1, 0, 0, 0,
     5, 0, 0, 0, 67, 0, 0, 0, 67, 0, 0, 0, 2, 0, 0, 0, 0, 1, 2, 0, 0, 0, 0, 2, 8, 0, 69, 0, 0,
     53, 0, 0, 0, 0, 64, 17, 102, 182, 10, 0, 0, 1, 10, 0, 0, 2, 19, 136, 19, 140, 0, 33, 0, 0,
     128, 224, 0, 7, 0, 0, 3, 232, 0, 0, 0, 42, 120, 0, 2, 103, 1, 0, 2, 104, 2, 0, 2, 101, 3]"

definition h264_payload :: bytes where
  "h264_payload = [120, 0, 2, 103, 1, 0, 2, 104, 2, 0, 2, 101, 3]"

definition h264_packet :: rtp_packet where
  "h264_packet = \<lparr>rp_marker = True, rp_payload_type = 96, rp_sequence = 7, rp_timestamp = 1000, rp_ssrc = 42,
    rp_csrc = [], rp_extension_profile = None, rp_extension_bytes = None, rp_padding_bytes = 0,
    rp_payload = h264_payload, rp_header_bytes = [128, 224, 0, 7, 0, 0, 3, 232, 0, 0, 0, 42]\<rparr>"

definition h264_datagram :: bytes where
  "h264_datagram = [128, 224, 0, 7, 0, 0, 3, 232, 0, 0, 0, 42] @ h264_payload"

definition h264_saved :: "bytes \<Rightarrow> string \<Rightarrow> saved_datagram" where
  "h264_saved f c = \<lparr>sd_index = 0, sd_capture = 1000005, sd_frame = f, sd_udp = Some \<lparr>uf_payload =
      h264_datagram, uf_checksum = c, uf_source_address = ''10.0.0.1'', uf_source_port = 5000,
      uf_destination_address = ''10.0.0.2'', uf_destination_port = 5004\<rparr>\<rparr>"

lemma h264_capture_records: "read_pcap_records h264_capture = Inr (1, [1000005])"
  unfolding h264_capture_def by (simp add: pcap_eval)

lemma h264_capture_items: "\<exists>f c. iter_udp_datagrams standard_decoder h264_capture 5004 (Some (1, [1000005])) False =
  ([h264_saved f c], None)"
  unfolding h264_capture_def h264_saved_def h264_payload_def h264_datagram_def
  by (simp add: iter_udp_datagrams_def save_datagram_def udp_datagram_def dotted_def packet_eval pcap_eval
      int_text_def nat_digits.simps char_of_def bit_0)

lemma h264_packet_parses: "parse_rtp h264_datagram = Inr h264_packet"
  by (simp add: parse_rtp_def FIXED_HEADER_def rtp_extension_def rtp_padding_def h264_packet_def h264_payload_def
      h264_datagram_def packet_eval u32be_def drop_bit_eq_div)

lemma h264_unpacks: "unpack 7 1000 h264_payload no_fragments = Inr (no_fragments, [[103, 1], [104, 2], [101, 3]])"
proof -
  have "stap_units h264_payload = Inr [[103, 1], [104, 2], [101, 3]]"
    by (rule stap_units_read) (simp_all add: h264_payload_def aggregatable_def unfragmentable_def nal_kind_def bval_def STAP_A_def FU_A_def
      FORBIDDEN_IN_MODE_1_def RESERVED_def pack_u16be_def)
  then show ?thesis
    by (simp add: unpack_def fr_open_def no_fragments_def single_nal_kind_def STAP_A_def nal_kind_def bval_def
      h264_payload_def)
qed

definition h264_reached :: h264_state where
  "h264_reached = (h264_init [])\<lparr>hs_current := Some \<lparr>au_timestamp = 1000, au_nals = [[103, 1], [104, 2], [101, 3]],
     au_packet_indices = [0], au_sequences = [7], au_marker_at = Some 0\<rparr>, hs_previous_sequence := Some 7,
     hs_source := Some (''10.0.0.1'', 5000, ''10.0.0.2'', 5004, 42), hs_selected := 1, hs_retained := 1\<rparr>"

lemma h264_stepped: "h264_step [] 96 None (h264_init []) (h264_saved f c) = Inr h264_reached"
proof -
  have k: "payload_kind h264_payload = Inr 24"
    by (simp add: payload_kind_def h264_payload_def nal_kind_def bval_def FORBIDDEN_IN_MODE_1_def RESERVED_def)
  have p: "rp_payload h264_packet = h264_payload" "rp_sequence h264_packet = 7" "rp_timestamp h264_packet = 1000"
     "rp_marker h264_packet" "rp_payload_type h264_packet = 96" "rp_ssrc h264_packet = 42"
    by (simp_all add: h264_packet_def)
  show ?thesis
    by (simp add: h264_step_def h264_packet_parses h264_init_def h264_reached_def h264_saved_def p take_payload_def k
      open_unit_def h264_unpacks new_access_unit_def add_nal_def item_at_def MAX_NAL_BYTES_def MAX_NALS_PER_ACCESS_UNIT_def)
qed

definition h264_unit :: unit_report where
  "h264_unit = \<lparr>un_index = 0, un_rtp_timestamp = 1000, un_packet_indices = [0], un_rtp_sequences = [7],
     un_nal_types = [7, 8, 5], un_nal_sizes = [2, 2, 2], un_marker = Some 0, un_offset = 0, un_bytes = 18,
     un_sha256 = sha256_ref (coded [[103, 1], [104, 2], [101, 3]])\<rparr>"

definition h264_closed :: h264_state where
  "h264_closed = h264_reached\<lparr>hs_stream := coded [[103, 1], [104, 2], [101, 3]],
     hs_nal_counts := [(''7'', 1), (''8'', 1), (''5'', 1)], hs_units := [h264_unit]\<rparr>"

lemma h264_closes: "h264_close [] None h264_reached = Inr h264_closed"
proof -
  have "run_items (emit_nal []) ([], []) [[103, 1], [104, 2], [101, 3]] =
      Inr (coded [[103, 1], [104, 2], [101, 3]], [(''7'', 1), (''8'', 1), (''5'', 1)])"
    by (simp add: emit_nal_def item_at_def nal_kind_def bval_def MAX_ELEMENTARY_BYTES_def START_CODE_def int_text_def
      nat_digits.simps char_of_def bit_0)
  then show ?thesis
    by (simp add: h264_close_def close_unit_def h264_closed_def h264_reached_def h264_init_def fr_open_def no_fragments_def
      MAX_ACCESS_UNITS_def h264_unit_def nal_kind_def bval_def START_CODE_def)
qed

lemma h264_converts: "\<exists>rep. depacketize standard_decoder h264_capture 5004 96 90000 None None None =
    Inr (coded [[103, 1], [104, 2], [101, 3]], rep) \<and> hr_state rep = h264_closed"
proof -
  obtain f c where items: "iter_udp_datagrams standard_decoder h264_capture 5004 (Some (1, [1000005])) False =
      ([h264_saved f c], None)"
    using h264_capture_items by blast
  have pq: "prerequisites_of (hs_units h264_closed) =
      \<lparr>pq_seen = [7, 8], pq_slice_units = [h264_unit], pq_before = False\<rparr>"
    by (simp add: prerequisites_of_def prerequisite_unit_def prerequisite_kind_def h264_closed_def h264_unit_def
      CODED_SLICE_def NAL_SPS_def NAL_PPS_def)
  define rep where "rep = \<lparr>hr_source_sha256 = sha256_ref h264_capture, hr_packets = 1, hr_linktype = 1,
             hr_payload_type = 96, hr_ssrc = None, hr_clock_rate = 90000, hr_state = h264_closed,
             hr_coded_slice_units = 1, hr_parameter_sets = [7, 8], hr_description = None,
             hr_timing = timing_of [1000] 90000\<rparr>"
  have "json_size (h264_report_json rep) \<le> 20000"
    by (simp add: rep_def h264_report_json_def json_size_eval json_nat_def json_option_def unit_json_def source_json_def
      h264_closed_def h264_reached_def h264_init_def h264_unit_def timing_of_def timing_step_def timing_init_def
      timing_summary_def H264_SCHEMA_def RTP_TIME_BASIS_def DECODER_BASIS_def PARAMETER_SET_BASIS_def MUX_NOT_OFFERED_def
      START_CODE_def)
  with dumps_size [of "h264_report_json rep"] have size: "\<not> length (dumps (h264_report_json rep)) > REPORT_LIMIT"
    by (simp add: REPORT_LIMIT_def)
  have "map un_rtp_timestamp (hs_units h264_closed) = [1000]" by (simp add: h264_closed_def h264_unit_def)
  then have "h264_finish (sha256_ref h264_capture) 1 1 96 None 90000 None h264_closed = Inr (hs_stream h264_closed, rep)"
    using size unfolding rep_def by (simp add: h264_finish_def pq h264_initial_def NAL_SPS_def NAL_PPS_def)
  then show ?thesis
    unfolding depacketize_def h264_capture_records rbind_simps prod.case items run_gen_def Let_def
    by (simp add: H264_CLOCK_RATE_def h264_initial_def h264_stepped h264_closes rep_def h264_closed_def)
qed

theorem h264_stream_layout_witness:
  "\<exists>rep nss. depacketize standard_decoder h264_capture 5004 96 90000 None None None =
    Inr (coded [[103, 1], [104, 2], [101, 3]], rep) \<and>
    units_at 0 0 (hs_units (hr_state rep)) nss \<and> hs_retained (hr_state rep) = 1"
proof -
  obtain rep where r: "depacketize standard_decoder h264_capture 5004 96 90000 None None None =
    Inr (coded [[103, 1], [104, 2], [101, 3]], rep)" "hr_state rep = h264_closed"
    using h264_converts by blast
  from h264_stream_layout [OF r(1)] obtain nss where "units_at 0 (length (coded (h264_initial None))) (hs_units (hr_state rep)) nss"
    by (elim exE conjE)
  then have "units_at 0 0 (hs_units (hr_state rep)) nss" by (simp add: h264_initial_def)
  moreover have "hs_retained (hr_state rep) = 1" by (simp add: r(2) h264_closed_def h264_reached_def)
  ultimately show ?thesis using r(1) by (intro exI conjI)
qed

end
