(* ===== verification/H264_Join.thy ===== *)
theory H264_Join
  imports H264_Stream
begin

text \<open>
  The timing of the access units and \<^verbatim>\<open>verify_decoder_join\<close> of
  \<^verbatim>\<open>scripts/convert_rtp_h264_stream.py\<close>: a decoder's own JSON report is compared with the
  rebuilt access units, and absent or malformed metadata never counts as agreement. A probe is a
  JSON document without fractional numbers, whose objects hold each key once.
\<close>

section \<open>Fields of a probe\<close>

definition digits_value :: "nat list \<Rightarrow> int option" where
  "digits_value cs =
     (if cs \<noteq> [] \<and> (\<forall>c \<in> set cs. 48 \<le> c \<and> c \<le> 57)
      then Some (foldl (\<lambda>n c. n * 10 + (int c - 48)) 0 cs) else None)"

definition integer_text :: "nat list \<Rightarrow> int option" where
  "integer_text cs = 
     (if cs \<noteq> [] \<and> hd cs = 45 then map_option uminus (digits_value (tl cs)) else digits_value cs)"

definition integer_of :: "json \<Rightarrow> int option" where
  "integer_of j = (case j of JInt n \<Rightarrow> Some n
     | _ \<Rightarrow> (case code_points j of None \<Rightarrow> None | Some cs \<Rightarrow> integer_text cs))"

section \<open>The verdict\<close>

record verdict =
  vd_timing_equivalent :: bool
  vd_input_valid :: bool
  vd_checks :: "(string \<times> bool) list"
  vd_failed :: "string list"
  vd_missing_or_invalid :: "string list"
  vd_stream_index :: "int option"
  vd_basis :: string

definition JOIN_BASIS :: string where
  "JOIN_BASIS = ''decoded frame timing equals the RTP access unit timing only because the decoder''
     @ [CHR 0x27] @ ''s own output agrees on every check above; nothing is inferred from the declared mux rate''"
definition JOIN_INVALID_BASIS :: string where
  "JOIN_INVALID_BASIS = ''required decoder metadata was absent, malformed or ambiguous: no timing claim ''
     @ ''is possible from this probe, and absence was not read as a passing value''"

definition invalid_verdict :: "string list \<Rightarrow> int option \<Rightarrow> verdict" where
  "invalid_verdict names stream_index =
     \<lparr>vd_timing_equivalent = False, vd_input_valid = False, vd_checks = [],
      vd_failed = [''required_decoder_metadata''], vd_missing_or_invalid = names,
      vd_stream_index = stream_index, vd_basis = JOIN_INVALID_BASIS\<rparr>"

definition REQUIRED_STREAM_FIELDS :: "string list" where
  "REQUIRED_STREAM_FIELDS = [''index'', ''codec_type'', ''has_b_frames'', ''field_order'', ''time_base'',
     ''nb_read_frames'']"
definition REQUIRED_FRAME_FIELDS :: "string list" where
  "REQUIRED_FRAME_FIELDS = [''media_type'', ''stream_index'', ''pts'', ''pkt_dts'', ''pict_type'',
     ''interlaced_frame'']"
definition QUALIFIED_PICTURE_KINDS :: "string list" where
  "QUALIFIED_PICTURE_KINDS = [''I'', ''P'']"

section \<open>Frames bound to the selected stream\<close>

record probe_frame =
  pf_pts :: "int option"
  pf_dts :: "int option"
  pf_interlaced :: "int option"
  pf_pict_type :: json

definition frame_name :: "nat \<Rightarrow> string" where
  "frame_name position = ''frames['' @ int_text (int position) @ '']''"

definition probe_entry :: "int \<Rightarrow> nat \<Rightarrow> json \<Rightarrow> string list \<times> probe_frame option" where
  "probe_entry selected_index position frame =
     (let name = frame_name position;
          missing = filter (\<lambda>field. \<not> json_has frame field) REQUIRED_FRAME_FIELDS in
      if \<not> is_object frame then ([name], None)
      else if missing \<noteq> [] then (map (\<lambda>field. name @ ''.'' @ field) missing, None)
      else case integer_of (json_get frame ''stream_index'') of
        None \<Rightarrow> ([name @ ''.stream_index''], None)
      | Some owner \<Rightarrow>
          if \<not> json_is (json_get frame ''media_type'') ''video'' \<or> owner \<noteq> selected_index then ([], None)
          else let pts = integer_of (json_get frame ''pts''); dts = integer_of (json_get frame ''pkt_dts'');
                   interlaced = integer_of (json_get frame ''interlaced_frame'');
                   pict = json_get frame ''pict_type''
            in ((if pts = None then [name @ ''.pts''] else [])
                @ (if dts = None then [name @ ''.pkt_dts''] else [])
                @ (if interlaced = None then [name @ ''.interlaced_frame''] else [])
                @ (if code_points pict = None \<or> code_points pict = Some [] then [name @ ''.pict_type''] else []),
                Some \<lparr>pf_pts = pts, pf_dts = dts, pf_interlaced = interlaced, pf_pict_type = pict\<rparr>))"

definition probe_entries :: "int \<Rightarrow> json list \<Rightarrow> (string list \<times> probe_frame option) list" where
  "probe_entries selected_index frames =
     map (\<lambda>(position, frame). probe_entry selected_index position frame) (zip [0..<length frames] frames)"

definition bound_frames :: "int \<Rightarrow> json list \<Rightarrow> probe_frame list" where
  "bound_frames selected_index frames = List.map_filter snd (probe_entries selected_index frames)"

definition stream_defects :: "json \<Rightarrow> string list" where
  "stream_defects stream =
     map (\<lambda>field. ''stream.'' @ field) (filter (\<lambda>field. \<not> json_has stream field) REQUIRED_STREAM_FIELDS)
     @ (if json_has stream ''nb_read_frames'' \<and> integer_of (json_get stream ''nb_read_frames'') = None
        then [''stream.nb_read_frames''] else [])
     @ (if json_has stream ''has_b_frames'' \<and> integer_of (json_get stream ''has_b_frames'') = None
        then [''stream.has_b_frames''] else [])"

section \<open>The join\<close>

definition carries_slice :: "unit_report \<Rightarrow> bool" where
  "carries_slice u \<longleftrightarrow> (\<exists>kind \<in> set (un_nal_types u). kind \<in> set CODED_SLICE)"

definition coded_times :: "h264_report \<Rightarrow> (unit_report \<times> unit_time) list" where
  "coded_times rep = filter (\<lambda>ut. carries_slice (fst ut)) (zip (hs_units (hr_state rep)) (tm_times (hr_timing rep)))"

definition ticks_agree :: "h264_report \<Rightarrow> int list \<Rightarrow> json \<Rightarrow> bool" where
  "ticks_agree rep pts stream =
     (if \<not> json_is (json_get stream ''time_base'') (''1/'' @ int_text (hr_clock_rate rep)) then False
      else let coded = coded_times rep in
        if length coded \<noteq> length pts \<or> coded = [] then False
        else case ut_ticks (snd (hd coded)) of
          None \<Rightarrow> False
        | Some base \<Rightarrow> list_all2 (\<lambda>ut value. case ut_ticks (snd ut) of
              None \<Rightarrow> False | Some ticks \<Rightarrow> value = ticks - base) coded pts)"

fun increasing :: "int list \<Rightarrow> bool" where
  "increasing (a # b # xs) \<longleftrightarrow> a < b \<and> increasing (b # xs)"
| "increasing _ \<longleftrightarrow> True"

definition join_checks :: "h264_report \<Rightarrow> json \<Rightarrow> probe_frame list \<Rightarrow> (string \<times> bool) list" where
  "join_checks rep stream frames =
     (let pts = map (\<lambda>f. the (pf_pts f)) frames in
      [(''frame_count_matches_coded_slice_access_units'',
         integer_of (json_get stream ''nb_read_frames'') = Some (int (hr_coded_slice_units rep))
         \<and> hr_coded_slice_units rep = length frames),
       (''no_b_pictures'', \<forall>f \<in> set frames. \<exists>kind \<in> set QUALIFIED_PICTURE_KINDS. json_is (pf_pict_type f) kind),
       (''zero_reorder_depth'', integer_of (json_get stream ''has_b_frames'') = Some 0),
       (''presentation_equals_decode'', \<forall>f \<in> set frames. pf_pts f = pf_dts f),
       (''presentation_strictly_increasing'', increasing pts),
       (''progressive_only'', json_is (json_get stream ''field_order'') ''progressive''
         \<and> (\<forall>f \<in> set frames. pf_interlaced f = Some 0)),
       (''rtp_timing_monotonic'', tm_monotonic (hr_timing rep)),
       (''decoder_ticks_equal_rtp_ticks'', ticks_agree rep pts stream)])"

definition join_stream :: "h264_report \<Rightarrow> json \<Rightarrow> json list \<Rightarrow> int option \<Rightarrow> verdict" where
  "join_stream rep stream frames_in stream_index =
     (case integer_of (json_get stream ''index'') of
        None \<Rightarrow> invalid_verdict [''stream.index''] stream_index
      | Some selected_index \<Rightarrow>
          let entries = probe_entries selected_index frames_in;
              invalid = stream_defects stream @ concat (map fst entries);
              frames = bound_frames selected_index frames_in in
          if invalid \<noteq> [] then invalid_verdict (sort (remdups invalid)) (Some selected_index)
          else if frames = []
          then invalid_verdict [''no_frame_bound_to_the_selected_video_stream''] (Some selected_index)
          else let checks = join_checks rep stream frames;
                   reasons = sort (map fst (filter (\<lambda>c. \<not> snd c) checks))
            in \<lparr>vd_timing_equivalent = (reasons = []), vd_input_valid = True, vd_checks = checks,
                vd_failed = reasons, vd_missing_or_invalid = [], vd_stream_index = Some selected_index,
                vd_basis = JOIN_BASIS\<rparr>)"

definition video_streams :: "json list \<Rightarrow> json list" where
  "video_streams streams = filter (\<lambda>e. is_object e \<and> json_is (json_get e ''codec_type'') ''video'') streams"

definition verify_decoder_join :: "h264_report \<Rightarrow> json \<Rightarrow> int option \<Rightarrow> verdict" where
  "verify_decoder_join rep probe stream_index =
     (case (json_get probe ''streams'', json_get probe ''frames'') of
        (JArr streams, JArr frames_in) \<Rightarrow>
          let video = video_streams streams in
          (case stream_index of
             None \<Rightarrow> (case video of
                 [stream] \<Rightarrow> join_stream rep stream frames_in stream_index
               | _ \<Rightarrow> invalid_verdict [''exactly_one_video_stream_or_an_explicit_stream_index''] None)
           | Some i \<Rightarrow> (case filter (\<lambda>e. integer_of (json_get e ''index'') = Some i) video of
                 [stream] \<Rightarrow> join_stream rep stream frames_in stream_index
               | _ \<Rightarrow> invalid_verdict [''named_video_stream_index_'' @ int_text i] stream_index))
      | _ \<Rightarrow> invalid_verdict [''probe.streams'', ''probe.frames''] None)"

section \<open>Ticks of a source that advances within the window\<close>

fun slow :: "int list \<Rightarrow> bool" where
  "slow (a # b # xs) \<longleftrightarrow> a \<le> b \<and> b - a \<le> MAX_FORWARD_TICKS \<and> slow (b # xs)"
| "slow _ \<longleftrightarrow> True"

fun increments :: "int list \<Rightarrow> int list" where
  "increments (a # b # xs) = (b - a) # increments (b # xs)"
| "increments _ = []"

definition stamps_of :: "int list \<Rightarrow> int list" where
  "stamps_of ticks = map (\<lambda>t. t mod RTP_TS_MOD) ticks"

lemma forward_exact:
  assumes "a \<le> b" "b - a \<le> MAX_FORWARD_TICKS"
  shows "(b mod RTP_TS_MOD - a mod RTP_TS_MOD) mod RTP_TS_MOD = b - a"
proof -
  have "(b mod RTP_TS_MOD - a mod RTP_TS_MOD) mod RTP_TS_MOD = (b - a) mod RTP_TS_MOD"
    by (simp add: mod_diff_eq)
  also have "\<dots> = b - a"
    using assms by (intro mod_pos_pos_trivial) (auto simp: MAX_FORWARD_TICKS_def H264_CLOCK_RATE_def RTP_TS_MOD_def)
  finally show ?thesis .
qed

lemma timing_run:
  assumes "slow (a # ticks)"
  shows "run_steps (timing_step rate)
      \<lparr>ts_elapsed = e, ts_previous = Some (a mod RTP_TS_MOD), ts_steps = ss, ts_monotonic = True\<rparr> (stamps_of ticks) =
    (\<lparr>ts_elapsed = e + last (a # ticks) - a, ts_previous = Some (last (a # ticks) mod RTP_TS_MOD),
      ts_steps = ss @ increments (a # ticks), ts_monotonic = True\<rparr>,
     map (\<lambda>t. \<lparr>ut_state = TimeForward, ut_ticks = Some (e + t - a),
       ut_relative_us = Some ((e + t - a) * 1000000 div rate)\<rparr>) ticks)"
  using assms
proof (induction ticks arbitrary: a e ss)
  case (Cons b ticks)
  then have ab: "a \<le> b" "b - a \<le> MAX_FORWARD_TICKS" and sl: "slow (b # ticks)" by auto
  note f = forward_exact [OF ab]
  show ?case
    using Cons.IH [OF sl, of "e + (b - a)" "ss @ [b - a]"] ab(2)
    by (simp add: stamps_of_def timing_step_def Let_def f add_diff_eq)
qed (simp add: stamps_of_def)

lemma timing_of_slow:
  assumes "slow (a # ticks)"
  shows "timing_of (stamps_of (a # ticks)) rate = timing_summary rate
     \<lparr>ts_elapsed = last (a # ticks) - a, ts_previous = Some (last (a # ticks) mod RTP_TS_MOD),
      ts_steps = increments (a # ticks), ts_monotonic = True\<rparr>
     (\<lparr>ut_state = TimeFirst, ut_ticks = Some 0, ut_relative_us = Some 0\<rparr>
      # map (\<lambda>t. \<lparr>ut_state = TimeForward, ut_ticks = Some (t - a),
       ut_relative_us = Some ((t - a) * 1000000 div rate)\<rparr>) ticks)"
proof -
  have first: "timing_step rate timing_init (a mod RTP_TS_MOD) =
    (\<lparr>ts_elapsed = 0, ts_previous = Some (a mod RTP_TS_MOD), ts_steps = [], ts_monotonic = True\<rparr>,
     \<lparr>ut_state = TimeFirst, ut_ticks = Some 0, ut_relative_us = Some 0\<rparr>)"
    by (simp add: timing_step_def timing_init_def)
  show ?thesis
    using timing_run [OF assms, of rate 0 "[]"] by (simp add: timing_of_def stamps_of_def first Let_def)
qed

lemma increments_const:
  assumes "length (remdups (increments (a # ticks))) = 1"
  shows "a # ticks = map (\<lambda>i. a + int i * hd (increments (a # ticks))) [0..<length (a # ticks)]"
proof -
  obtain c where c: "set (increments (a # ticks)) = {c}"
    using assms by (metis length_Suc_conv length_0_conv One_nat_def set_remdups list.set(1,2))
  have hd: "hd (increments (a # ticks)) = c"
    using c by (metis hd_in_set insert_not_empty list.set(1) singletonD)
  have run: "a # ticks = map (\<lambda>i. a + int i * c) [0..<length (a # ticks)]"
    if "set (increments (a # ticks)) \<subseteq> {c}" for a ticks
    using that
  proof (induction ticks arbitrary: a)
    case (Cons b ticks)
    then have b: "b = a + c" and IH: "b # ticks = map (\<lambda>i. b + int i * c) [0..<length (b # ticks)]" by auto
    have "[0..<length (a # b # ticks)] = 0 # map Suc [0..<length (b # ticks)]"
      by (simp add: map_Suc_upt upt_conv_Cons del: upt_Suc)
    with IH b show ?case by (simp add: algebra_simps del: upt_Suc)
  qed simp
  have "set (increments (a # ticks)) \<subseteq> {c}" using c by simp
  from run [OF this] show ?thesis unfolding hd .
qed

lemma slow_ticks:
  assumes "slow (a # ticks)"
  shows "map ut_ticks (tm_times (timing_of (stamps_of (a # ticks)) rate)) = map (\<lambda>t. Some (t - a)) (a # ticks)"
  unfolding timing_of_slow [OF assms] by (simp add: timing_summary_def Let_def)

text \<open>C15. When the source's ticks never step back and never advance more than the window, every
  access unit is reported at its true distance from the first one, wrapped timestamps included, and
  a mux rate is offered only for a constant positive cadence that divides the clock.\<close>

theorem h264_timing_exact:
  assumes "slow (a # ticks)" and "timing_of (stamps_of (a # ticks)) rate = t"
  shows "tm_monotonic t \<and> map ut_ticks (tm_times t) = map (\<lambda>t. Some (t - a)) (a # ticks) \<and>
    (\<forall>r. tm_rate t = Some r \<longrightarrow>
      (\<exists>c > 0. r * c = rate \<and> a # ticks = map (\<lambda>i. a + int i * c) [0..<length (a # ticks)]))"
proof (intro conjI allI impI)
  note t = assms(2) [unfolded timing_of_slow [OF assms(1)], symmetric]
  show "map ut_ticks (tm_times t) = map (\<lambda>t. Some (t - a)) (a # ticks)"
    using slow_ticks [OF assms(1)] assms(2) by blast
  show "tm_monotonic t"
    unfolding t by (simp add: timing_summary_def Let_def)
  fix r assume "tm_rate t = Some r"
  then have c: "length (remdups (increments (a # ticks))) = 1" "hd (increments (a # ticks)) > 0"
    "rate mod hd (increments (a # ticks)) = 0" "r = rate div hd (increments (a # ticks))"
    unfolding t by (auto simp: timing_summary_def Let_def split: if_splits option.splits)
  then show "\<exists>c > 0. r * c = rate \<and> a # ticks = map (\<lambda>i. a + int i * c) [0..<length (a # ticks)]"
    using increments_const [OF c(1)] by (intro exI [of _ "hd (increments (a # ticks))"]) auto
qed

theorem h264_timing_exact_witness:
  "map ut_ticks (tm_times (timing_of (stamps_of [4294966296, 4294969296, 4294972296]) 90000)) =
    [Some 0, Some 3000, Some 6000]"
  using h264_timing_exact [of 4294966296 "[4294969296, 4294972296]"
      90000 "timing_of (stamps_of [4294966296, 4294969296, 4294972296]) 90000"]
  by (simp add: MAX_FORWARD_TICKS_def H264_CLOCK_RATE_def)

section \<open>What an equivalent verdict establishes\<close>

lemma sort_Nil_iff [simp]: "sort xs = [] \<longleftrightarrow> xs = []"
  by (metis length_0_conv length_sort)

lemma join_stream_equivalent:
  assumes "vd_timing_equivalent (join_stream rep stream frames_in si)"
  obtains i where "integer_of (json_get stream ''index'') = Some i"
    "\<forall>e \<in> set (probe_entries i frames_in). fst e = []" "stream_defects stream = []"
    "bound_frames i frames_in \<noteq> []" "\<forall>c \<in> set (join_checks rep stream (bound_frames i frames_in)). snd c"
  using assms
  by (auto simp: join_stream_def invalid_verdict_def Let_def filter_empty_conv split: option.splits if_splits)

text \<open>The stream a verdict is about: the only video stream, or the only one with the index the caller names.\<close>

definition only_stream :: "int option \<Rightarrow> json list \<Rightarrow> json \<Rightarrow> bool" where
  "only_stream si streams stream \<longleftrightarrow>
     filter (\<lambda>e. is_object e \<and> json_is (json_get e ''codec_type'') ''video'' \<and>
       (\<forall>k. si = Some k \<longrightarrow> integer_of (json_get e ''index'') = Some k)) streams = [stream]"

lemma only_stream_cases:
  "only_stream None streams stream \<longleftrightarrow> video_streams streams = [stream]"
  "only_stream (Some k) streams stream \<longleftrightarrow>
     filter (\<lambda>e. integer_of (json_get e ''index'') = Some k) (video_streams streams) = [stream]"
  by (simp_all add: only_stream_def video_streams_def conj_assoc conj_commute [of "is_object _"] cong: conj_cong)

lemma verify_join_stream:
  assumes "vd_timing_equivalent (verify_decoder_join rep probe si)"
  obtains stream streams frames_in where "json_get probe ''frames'' = JArr frames_in"
    "json_get probe ''streams'' = JArr streams" "only_stream si streams stream"
    "vd_timing_equivalent (join_stream rep stream frames_in si)"
proof -
  have inv: "\<not> vd_timing_equivalent (invalid_verdict fs i)" for fs i by (simp add: invalid_verdict_def)
  obtain streams frames_in where j: "json_get probe ''streams'' = JArr streams" "json_get probe ''frames'' = JArr frames_in"
    using assms inv by (auto simp: verify_decoder_join_def split: json.splits)
  have "\<exists>stream. only_stream si streams stream \<and> vd_timing_equivalent (join_stream rep stream frames_in si)"
    using assms inv j
    by (cases si) (auto simp: verify_decoder_join_def Let_def only_stream_cases split: list.splits)
  with j that show thesis by blast
qed

text \<open>The frames of a stream and what is read of each.\<close>

definition owned_frame :: "int \<Rightarrow> json \<Rightarrow> bool" where
  "owned_frame i frame \<longleftrightarrow>
     json_is (json_get frame ''media_type'') ''video'' \<and> integer_of (json_get frame ''stream_index'') = Some i"

definition frame_fields :: "json \<Rightarrow> probe_frame" where
  "frame_fields frame = \<lparr>pf_pts = integer_of (json_get frame ''pts''), pf_dts = integer_of (json_get frame ''pkt_dts''),
     pf_interlaced = integer_of (json_get frame ''interlaced_frame''), pf_pict_type = json_get frame ''pict_type''\<rparr>"

definition complete_frame :: "json \<Rightarrow> bool" where
  "complete_frame frame \<longleftrightarrow> is_object frame \<and> (\<forall>field \<in> set REQUIRED_FRAME_FIELDS. json_has frame field)"

lemma probe_entry_sound:
  assumes "fst (probe_entry i n frame) = []"
  shows "snd (probe_entry i n frame) = (if owned_frame i frame then Some (frame_fields frame) else None) \<and>
    complete_frame frame \<and> (owned_frame i frame \<longrightarrow> integer_of (json_get frame ''pts'') \<noteq> None)"
  using assms
  by (auto simp: probe_entry_def owned_frame_def frame_fields_def complete_frame_def filter_empty_conv Let_def
      split: option.splits if_splits)

lemma bound_frames_own:
  assumes "\<forall>e \<in> set (probe_entries i frames). fst e = []"
  shows "bound_frames i frames = map frame_fields (filter (owned_frame i) frames) \<and> (\<forall>f \<in> set frames. complete_frame f) \<and>
    (\<forall>f \<in> set frames. owned_frame i f \<longrightarrow> integer_of (json_get f ''pts'') \<noteq> None)"
proof -
  have run: "List.map_filter snd (map (\<lambda>(n, f). probe_entry i n f) ps) = map frame_fields (filter (owned_frame i) (map snd ps)) \<and>
      (\<forall>f \<in> set (map snd ps). complete_frame f \<and> (owned_frame i f \<longrightarrow> integer_of (json_get f ''pts'') \<noteq> None))"
    if "\<forall>e \<in> set (map (\<lambda>(n, f). probe_entry i n f) ps). fst e = []" for ps
    using that
  proof (induction ps)
    case (Cons p ps)
    obtain n f where p: "p = (n, f)" by (cases p)
    have "fst (probe_entry i n f) = []" using Cons.prems p by simp
    from probe_entry_sound [OF this] Cons show ?case by (simp add: p map_filter_simps)
  qed (simp add: map_filter_simps)
  have "map snd (zip [0..<length frames] frames) = frames" by simp
  with run [of "zip [0..<length frames] frames"] assms show ?thesis
    unfolding probe_entries_def bound_frames_def by simp
qed

lemma complete_stream: "stream_defects stream = [] \<Longrightarrow> \<forall>field \<in> set REQUIRED_STREAM_FIELDS. json_has stream field"
  by (simp add: stream_defects_def filter_empty_conv)

lemma map_filter_zip:
  "map (\<lambda>p. f (snd p)) (filter (\<lambda>p. P (fst p)) (zip us xs)) =
    map snd (filter (\<lambda>p. P (fst p)) (zip us (map f xs)))"
proof (induction us arbitrary: xs)
  case (Cons u us)
  then show ?case by (cases xs) auto
qed simp

lemma coded_times_distances:
  assumes "map ut_ticks (tm_times (hr_timing rep)) = map (\<lambda>t. Some (t - a)) ticks"
  shows "map (\<lambda>ut. ut_ticks (snd ut)) (coded_times rep) = map (\<lambda>t. Some (t - a))
    (map snd (filter (\<lambda>ut. carries_slice (fst ut)) (zip (hs_units (hr_state rep)) ticks)))"
proof -
  have "map (\<lambda>ut. ut_ticks (snd ut)) (coded_times rep) =
      map snd (filter (\<lambda>ut. carries_slice (fst ut)) (zip (hs_units (hr_state rep)) (map ut_ticks (tm_times (hr_timing rep)))))"
    unfolding coded_times_def by (rule map_filter_zip)
  also have "\<dots> = map (\<lambda>ut. Some (snd ut - a))
      (filter (\<lambda>ut. carries_slice (fst ut)) (zip (hs_units (hr_state rep)) ticks))"
    unfolding assms by (rule map_filter_zip [symmetric])
  finally show ?thesis by (simp add: comp_def)
qed

lemma ticks_agree_distances:
  assumes "ticks_agree rep pts stream"
    and ct: "map (\<lambda>ut. ut_ticks (snd ut)) (coded_times rep) = map (\<lambda>t. Some (t - a)) sent"
  shows "sent \<noteq> [] \<and> pts = map (\<lambda>t. t - hd sent) sent"
proof -
  from assms(1) obtain base where ne: "coded_times rep \<noteq> []" and base: "ut_ticks (snd (hd (coded_times rep))) = Some base"
    and l: "list_all2 (\<lambda>ut value. case ut_ticks (snd ut) of None \<Rightarrow> False | Some t \<Rightarrow> value = t - base) (coded_times rep) pts"
    by (auto simp: ticks_agree_def Let_def split: if_splits option.splits)
  have nec: "sent \<noteq> []" using ct ne by auto
  have b: "base = hd sent - a"
    using base arg_cong [OF ct, of hd] ne nec by (simp add: hd_map)
  have "list_all2 (\<lambda>ticks value. ticks \<noteq> None \<and> value = the ticks - base) (map (\<lambda>ut. ut_ticks (snd ut)) (coded_times rep)) pts"
    unfolding list_all2_map1 using l by (rule list_all2_mono) (auto split: option.splits)
  then have "list_all2 (\<lambda>t value. value = t - hd sent) sent pts"
    unfolding ct list_all2_map1 by (simp add: b)
  then show ?thesis using nec by (auto simp: list_all2_conv_all_nth intro: nth_equalityI)
qed

text \<open>C16. A verdict of equivalence is about the only video stream of the probe, or the only one with the index
  the caller names, and about the frames the probe assigns to it. It means that no required field is missing; that
  the stream declares no reordering, progressive fields, the clock of the RTP payload and as many frames as there
  are access units with a coded slice; that its frames are exactly that many, all of them intra or predicted pictures
  without interlacing, in strictly increasing presentation order with decode and presentation equal; and that each
  frame is presented at the true distance of its access unit from the first coded one, whenever the source advanced
  within the window.\<close>

theorem h264_join_sound:
  assumes "vd_timing_equivalent (verify_decoder_join rep probe si)"
    and "hr_timing rep = timing_of (stamps_of (a # ticks)) (hr_clock_rate rep)" "slow (a # ticks)"
    and "length (hs_units (hr_state rep)) = length (a # ticks)"
  shows "\<exists>i stream streams frames_in. json_get probe ''streams'' = JArr streams \<and> json_get probe ''frames'' = JArr frames_in \<and>
    only_stream si streams stream \<and> integer_of (json_get stream ''index'') = Some i \<and>
    (\<forall>field \<in> set REQUIRED_STREAM_FIELDS. json_has stream field) \<and> (\<forall>f \<in> set frames_in. complete_frame f) \<and>
    (let frames = map frame_fields (filter (owned_frame i) frames_in);
         coded = map snd (filter (\<lambda>ut. carries_slice (fst ut)) (zip (hs_units (hr_state rep)) (a # ticks)))
     in coded \<noteq> [] \<and> length frames = hr_coded_slice_units rep \<and>
        integer_of (json_get stream ''nb_read_frames'') = Some (int (length frames)) \<and>
        map pf_pts frames = map (\<lambda>t. Some (t - hd coded)) coded \<and> map pf_dts frames = map pf_pts frames \<and>
        increasing (map (\<lambda>t. t - hd coded) coded) \<and>
        integer_of (json_get stream ''has_b_frames'') = Some 0 \<and>
        json_is (json_get stream ''field_order'') ''progressive'' \<and>
        json_is (json_get stream ''time_base'') (''1/'' @ int_text (hr_clock_rate rep)) \<and>
        (\<forall>f \<in> set frames. pf_interlaced f = Some 0 \<and> (json_is (pf_pict_type f) ''I'' \<or> json_is (pf_pict_type f) ''P'')))"
proof -
  from assms(1) obtain stream streams frames_in where j: "json_get probe ''streams'' = JArr streams"
    "json_get probe ''frames'' = JArr frames_in" "only_stream si streams stream"
    and js: "vd_timing_equivalent (join_stream rep stream frames_in si)"
    by (rule verify_join_stream)
  from js obtain i where index: "integer_of (json_get stream ''index'') = Some i"
    and e: "\<forall>e \<in> set (probe_entries i frames_in). fst e = []" and defects: "stream_defects stream = []"
    and ch: "\<forall>c \<in> set (join_checks rep stream (bound_frames i frames_in)). snd c"
    by (rule join_stream_equivalent)
  note own = bound_frames_own [OF e]
  define frames where "frames = map frame_fields (filter (owned_frame i) frames_in)"
  define pts where "pts = map (\<lambda>f. the (pf_pts f)) frames"
  define coded where "coded = map snd (filter (\<lambda>ut. carries_slice (fst ut)) (zip (hs_units (hr_state rep)) (a # ticks)))"
  have fr: "bound_frames i frames_in = frames" using own by (simp add: frames_def)
  have c: "hr_coded_slice_units rep = length frames" "\<forall>f \<in> set frames. pf_pts f = pf_dts f" "increasing pts"
    "integer_of (json_get stream ''has_b_frames'') = Some 0" "\<forall>f \<in> set frames. pf_interlaced f = Some 0"
    "ticks_agree rep pts stream" "json_is (json_get stream ''field_order'') ''progressive''"
    "integer_of (json_get stream ''nb_read_frames'') = Some (int (length frames))"
    "\<forall>f \<in> set frames. json_is (pf_pict_type f) ''I'' \<or> json_is (pf_pict_type f) ''P''"
    using ch unfolding fr by (simp_all add: join_checks_def Let_def pts_def QUALIFIED_PICTURE_KINDS_def)
  have known: "map pf_pts frames = map Some pts"
    using own by (auto simp: frames_def pts_def frame_fields_def)
  have tm: "map ut_ticks (tm_times (hr_timing rep)) = map (\<lambda>t. Some (t - a)) (a # ticks)"
    unfolding assms(2) by (rule slow_ticks [OF assms(3)])
  note coded_ticks = coded_times_distances [OF tm, folded coded_def]
  have base: "json_is (json_get stream ''time_base'') (''1/'' @ int_text (hr_clock_rate rep))"
    using c(6) by (simp add: ticks_agree_def split: if_splits)
  have pts: "coded \<noteq> [] \<and> pts = map (\<lambda>t. t - hd coded) coded" by (rule ticks_agree_distances [OF c(6) coded_ticks])
  have "map pf_dts frames = map pf_pts frames" using c(2) by auto
  with c pts known base own complete_stream [OF defects] show ?thesis
    by (intro exI [of _ i] exI [of _ stream] exI [of _ streams] exI [of _ frames_in] conjI j index)
      (simp_all add: Let_def coded_def [symmetric] frames_def [symmetric] comp_def)
qed


definition sample_frame :: "int \<Rightarrow> json" where
  "sample_frame pts = JObj [(''media_type'', JStr ''video''), (''stream_index'', JInt 0), (''pts'', JInt pts),
     (''pkt_dts'', JInt pts), (''pict_type'', JStr ''P''), (''interlaced_frame'', JInt 0)]"

definition sample_probe :: json where
  "sample_probe = JObj [(''frames'', JArr [sample_frame 0, sample_frame 3000]),
     (''streams'', JArr [JObj [(''index'', JInt 0), (''codec_type'', JStr ''video''), (''has_b_frames'', JInt 0),
       (''field_order'', JStr ''progressive''), (''time_base'', JStr ''1/90000''), (''nb_read_frames'', JStr ''2'')]])]"

definition sample_unit :: "int list \<Rightarrow> int \<Rightarrow> unit_report" where
  "sample_unit kinds stamp = \<lparr>un_index = 0, un_rtp_timestamp = stamp, un_packet_indices = [0], un_rtp_sequences = [0],
     un_nal_types = kinds, un_nal_sizes = [], un_marker = None, un_offset = 0, un_bytes = 0, un_sha256 = []\<rparr>"

definition sample_report :: h264_report where
  "sample_report = \<lparr>hr_source_sha256 = [], hr_packets = 2, hr_linktype = 1, hr_payload_type = 96, hr_ssrc = None,
     hr_clock_rate = 90000, hr_state = (h264_init [])\<lparr>hs_units := [sample_unit [7, 8, 5] 4294966296, sample_unit [1] 2000]\<rparr>,
     hr_coded_slice_units = 2, hr_parameter_sets = [7, 8], hr_description = None,
     hr_timing = timing_of (stamps_of [4294966296, 4294969296]) 90000\<rparr>"

lemma sample_join: "vd_timing_equivalent (verify_decoder_join sample_report sample_probe None)"
proof -
  have s: "slow [4294966296, 4294969296]" by (simp add: MAX_FORWARD_TICKS_def H264_CLOCK_RATE_def)
  show ?thesis
    by (simp add: verify_decoder_join_def join_stream_def sample_probe_def sample_frame_def sample_report_def json_get_def
      json_has_def video_streams_def is_object_def json_is_def code_points_def integer_of_def integer_text_def digits_value_def
      REQUIRED_STREAM_FIELDS_def REQUIRED_FRAME_FIELDS_def QUALIFIED_PICTURE_KINDS_def stream_defects_def probe_entries_def
      probe_entry_def bound_frames_def List.map_filter_def join_checks_def ticks_agree_def coded_times_def carries_slice_def
      sample_unit_def CODED_SLICE_def timing_of_slow [OF s] timing_summary_def frame_name_def int_text_def nat_digits.simps
      char_of_def bit_0 Let_def)
qed

theorem h264_join_sound_witness:
  "\<exists>i frames_in. json_get sample_probe ''frames'' = JArr frames_in \<and>
    map pf_pts (map frame_fields (filter (owned_frame i) frames_in)) = [Some 0, Some 3000]"
proof -
  have s: "slow [4294966296, 4294969296]" by (simp add: MAX_FORWARD_TICKS_def H264_CLOCK_RATE_def)
  have h: "hr_timing sample_report = timing_of (stamps_of [4294966296, 4294969296]) (hr_clock_rate sample_report)"
    "length (hs_units (hr_state sample_report)) = length [4294966296, 4294969296 :: int]"
    by (simp_all add: sample_report_def)
  from h264_join_sound [OF sample_join h(1) s h(2)]
  obtain i frames_in where f: "json_get sample_probe ''frames'' = JArr frames_in"
    and m: "map pf_pts (map frame_fields (filter (owned_frame i) frames_in)) = map (\<lambda>t. Some (t - hd (map snd (filter (\<lambda>ut. carries_slice (fst ut))
      (zip (hs_units (hr_state sample_report)) [4294966296, 4294969296])))))
      (map snd (filter (\<lambda>ut. carries_slice (fst ut)) (zip (hs_units (hr_state sample_report)) [4294966296, 4294969296])))"
    unfolding Let_def by (elim exE conjE) (rule that)
  from m have "map pf_pts (map frame_fields (filter (owned_frame i) frames_in)) = [Some 0, Some 3000]"
    by (simp add: sample_report_def sample_unit_def carries_slice_def CODED_SLICE_def)
  with f show ?thesis by (intro exI conjI)
qed

end
