(* ===== verification/Py_Decimal.thy ===== *)
theory Py_Decimal
  imports Py_Float
begin

text \<open>
  The part of Python's \<^verbatim>\<open>decimal\<close> module the converters use, on numbers that are not negative: a
  coefficient and a power of ten, the exact quotient by a power of two, addition under a
  precision of 40 digits (half-even), and the text \<^verbatim>\<open>str\<close> gives.
\<close>

type_synonym decimal = "nat \<times> int"

definition DECIMAL_PRECISION :: nat where "DECIMAL_PRECISION = 40"

definition dec_of :: "nat \<Rightarrow> decimal" where
  "dec_of n = (n, 0)"

fun dec_digits :: "nat \<Rightarrow> nat" where
  "dec_digits n = (if n < 10 then 1 else Suc (dec_digits (n div 10)))"

declare dec_digits.simps [simp del]

text \<open>
  \<^verbatim>\<open>Decimal(n) / 2**k\<close> for a quotient that is exact within the precision: the coefficient with the
  fewest decimal places.
\<close>

fun dec_places :: "nat \<Rightarrow> nat \<Rightarrow> nat" where
  "dec_places n 0 = 0"
| "dec_places n (Suc k) = (if n mod 2 ^ Suc k = 0 then 0 else Suc (dec_places (5 * n) k))"

definition dec_div_pow2 :: "nat \<Rightarrow> nat \<Rightarrow> decimal" where
  "dec_div_pow2 n k = (let j = dec_places n k in (n * 10 ^ j div 2 ^ k, - int j))"

definition dec_round :: "decimal \<Rightarrow> decimal" where
  "dec_round x = (case x of (c, e) \<Rightarrow>
     if dec_digits c \<le> DECIMAL_PRECISION then (c, e)
     else let d = dec_digits c - DECIMAL_PRECISION; q = round_half_even c (10 ^ d) in
       if q = 10 ^ DECIMAL_PRECISION then (10 ^ (DECIMAL_PRECISION - 1), e + int d + 1) else (q, e + int d))"

definition dec_add :: "decimal \<Rightarrow> decimal \<Rightarrow> decimal" where
  "dec_add x y = (case (x, y) of ((c1, e1), (c2, e2)) \<Rightarrow>
     let e = min e1 e2 in dec_round (c1 * 10 ^ nat (e1 - e) + c2 * 10 ^ nat (e2 - e), e))"

definition signed_text :: "int \<Rightarrow> string" where
  "signed_text n = (if n < 0 then int_text n else ''+'' @ int_text n)"

definition dec_text :: "decimal \<Rightarrow> string" where
  "dec_text x = (case x of (c, e) \<Rightarrow>
     let ds = nat_digits c; n = int (length ds); left = e + n;
         dot = (if e \<le> 0 \<and> left > - 6 then left else 1);
         mantissa = (if dot \<le> 0 then ''0.'' @ replicate (nat (- dot)) CHR ''0'' @ ds
                     else if dot \<ge> n then ds @ replicate (nat (dot - n)) CHR ''0''
                     else take (nat dot) ds @ ''.'' @ drop (nat dot) ds)
     in mantissa @ (if left = dot then '''' else ''E'' @ signed_text (left - dot)))"

text \<open>The value a decimal stands for, as a fraction: \<open>dec_is x n d\<close> when it is \<open>n / d\<close>.\<close>

definition dec_is :: "decimal \<Rightarrow> nat \<Rightarrow> nat \<Rightarrow> bool" where
  "dec_is x n d = (case x of (c, e) \<Rightarrow>
     if e \<ge> 0 then c * 10 ^ nat e * d = n else c * d = n * 10 ^ nat (- e))"

lemma dec_places_exact: "2 ^ k dvd n * 10 ^ dec_places n k \<and> dec_places n k \<le> k"
proof (induction n k rule: dec_places.induct)
  case (2 n k)
  show ?case
  proof (cases "n mod 2 ^ Suc k = 0")
    case False
    have "2 ^ k dvd 5 * n * 10 ^ dec_places (5 * n) k" "dec_places (5 * n) k \<le> k" using 2 False by auto
    then have "2 * 2 ^ k dvd 2 * (5 * n * 10 ^ dec_places (5 * n) k)" by (intro mult_dvd_mono) auto
    then have "2 ^ Suc k dvd n * 10 ^ Suc (dec_places (5 * n) k)" by (simp add: ac_simps)
    with False \<open>dec_places (5 * n) k \<le> k\<close> show ?thesis by (simp del: power_Suc)
  qed (auto simp: mod_eq_0_iff_dvd simp del: power_Suc)
qed simp

lemma dec_div_pow2_is: "dec_is (dec_div_pow2 n k) n (2 ^ k)"
  using dec_places_exact [of k n]
  by (auto simp: dec_is_def dec_div_pow2_def Let_def)

lemma dec_digits_bound: "0 < d \<Longrightarrow> n < 10 ^ d \<Longrightarrow> dec_digits n \<le> d"
proof (induction d arbitrary: n)
  case (Suc d)
  show ?case
  proof (cases "n < 10")
    case False
    then have "0 < d" using Suc.prems by (cases d) auto
    moreover have "n div 10 < 10 ^ d" using Suc.prems by auto
    ultimately show ?thesis using Suc.IH False by (subst dec_digits.simps) auto
  qed (simp add: dec_digits.simps)
qed simp

text \<open>The exact quotient of a number below \<open>2 ^ k\<close> has at most \<open>k\<close> places.\<close>

lemma dec_div_pow2_small:
  assumes "n < 2 ^ k" "dec_div_pow2 n k = (c, e)"
  shows "e \<le> 0 \<and> nat (- e) \<le> k \<and> c < 10 ^ nat (- e)"
proof -
  let ?j = "dec_places n k"
  have j: "2 ^ k dvd n * 10 ^ ?j" "?j \<le> k" using dec_places_exact by auto
  have "n * 10 ^ ?j < 2 ^ k * 10 ^ ?j" using assms(1) by simp
  then have "n * 10 ^ ?j div 2 ^ k < 10 ^ ?j" by (simp add: less_mult_imp_div_less mult.commute)
  with j assms(2) show ?thesis by (auto simp: dec_div_pow2_def Let_def)
qed

text \<open>
  A whole number of at most \<open>p\<close> digits and a fraction of at most \<open>k\<close> places are added without
  rounding when \<open>p + k\<close> digits fit.
\<close>

lemma dec_add_exact:
  assumes "s < 10 ^ p" "n < 2 ^ k" "p + k \<le> DECIMAL_PRECISION" "0 < p"
  shows "dec_is (dec_add (dec_of s) (dec_div_pow2 n k)) (s * 2 ^ k + n) (2 ^ k)"
proof -
  obtain c e where q: "dec_div_pow2 n k = (c, e)" by (cases "dec_div_pow2 n k")
  from dec_div_pow2_small [OF assms(2) q] have e: "e \<le> 0" "nat (- e) \<le> k" "c < 10 ^ nat (- e)" by auto
  from dec_div_pow2_is [of n k] e have c: "c * 2 ^ k = n * 10 ^ nat (- e)"
    by (cases "e = 0") (auto simp: q dec_is_def)
  let ?c = "s * 10 ^ nat (- e) + c"
  have "?c < (s + 1) * 10 ^ nat (- e)" using e(3) by (simp add: algebra_simps)
  also have "\<dots> \<le> 10 ^ p * 10 ^ nat (- e)" using assms(1) by (intro mult_right_mono) auto
  also have "\<dots> = 10 ^ (p + nat (- e))" by (simp add: power_add)
  finally have "dec_digits ?c \<le> p + nat (- e)" using assms(4) by (intro dec_digits_bound) auto
  then have small: "dec_digits ?c \<le> DECIMAL_PRECISION" using e(2) assms(3) by linarith
  have "dec_add (dec_of s) (dec_div_pow2 n k) = (?c, e)"
    using e(1) small by (simp add: dec_add_def dec_of_def q Let_def dec_round_def)
  moreover have "?c * 2 ^ k = (s * 2 ^ k + n) * 10 ^ nat (- e)" by (simp add: algebra_simps c)
  ultimately show ?thesis using e(1) c by (cases "e = 0") (auto simp: dec_is_def algebra_simps)
qed

end
