(* ===== verification/Rtcp_Packets.thy ===== *)
theory Rtcp_Packets
  imports Rtp_Records Py_Decimal
begin

unbundle bit_operations_syntax

text \<open>
  The RTCP packet readers of \<^verbatim>\<open>scripts/convert_rtcp_sender_reports.py\<close>: the compound walk over one
  datagram, the sender information, the reception report blocks and the source description
  chunks, each measured against the packet without the padding it declares.
\<close>

section \<open>Constants\<close>

definition RTCP_VERSION :: int where "RTCP_VERSION = 2"
definition COMMON_HEADER :: nat where "COMMON_HEADER = 4"
definition SENDER_INFO :: nat where "SENDER_INFO = 20"
definition REPORT_BLOCK :: nat where "REPORT_BLOCK = 24"
definition SENDER_REPORT :: int where "SENDER_REPORT = 200"
definition RECEIVER_REPORT :: int where "RECEIVER_REPORT = 201"
definition SOURCE_DESCRIPTION :: int where "SOURCE_DESCRIPTION = 202"
definition GOODBYE :: int where "GOODBYE = 203"
definition APPLICATION_DEFINED :: int where "APPLICATION_DEFINED = 204"
definition NAMED_TYPES :: "(int \<times> string) list" where
  "NAMED_TYPES = [(SENDER_REPORT, ''SR''), (RECEIVER_REPORT, ''RR''), (SOURCE_DESCRIPTION, ''SDES''),
     (GOODBYE, ''BYE''), (APPLICATION_DEFINED, ''APP'')]"
definition CNAME_ITEM :: byte where "CNAME_ITEM = 1"
definition NTP_HIGH_BIT :: int where "NTP_HIGH_BIT = 2147483648"
definition DECLARED_FORMS :: "string list" where "DECLARED_FORMS = [''ABSOLUTE'', ''RELATIVE'']"
definition MAX_CNAME_BYTES :: nat where "MAX_CNAME_BYTES = 255"
definition MAX_ROWS :: int where "MAX_ROWS = 100000"
definition MAX_PACKETS_PER_DATAGRAM :: nat where "MAX_PACKETS_PER_DATAGRAM = 64"

definition FEEDBACK_BASIS :: string where
  "FEEDBACK_BASIS = ''RECEIVER_REPORTED_ABOUT_THE_BLOCKS_SOURCE_NOT_PHYSICAL_LOSS_NOT_LATENCY_''
     @ ''NOT_A_QUALITY_OR_CAUSE_VERDICT_FRACTION_IS_RAW_OVER_256_SIGNED_CUMULATIVE_''
     @ ''LOSS_MAY_BE_NEGATIVE_FOR_DUPLICATES_JITTER_IS_RTP_TICKS_WITHOUT_A_RATE_''
     @ ''LSR_HAS_NO_RESOLVED_ERA_OR_ALIGNMENT_DLSR_IS_REPORTED_SECONDS_SINCE_LAST_SR_''
     @ ''ZERO_FRACTION_AND_ABSENT_BLOCK_DO_NOT_PROVE_NO_LOSS''"

section \<open>The packets of one datagram\<close>

record rtcp_packet =
  rk_packet_type :: int
  rk_count :: nat
  rk_words :: nat
  rk_padding :: bool
  rk_padding_bytes :: nat
  rk_body :: bytes
  rk_effective :: bytes

definition rtcp_padding :: "bytes \<Rightarrow> nat \<Rightarrow> bool \<Rightarrow> (nat \<times> bytes) result" where
  "rtcp_padding body len padding =
     (if \<not> padding then Inr (0, body)
      else if len < COMMON_HEADER + 1 then fail ''a saved RTCP packet declares padding it has no room for''
      else let padding_bytes = unat (last body) in
        if \<not> (0 < padding_bytes \<and> padding_bytes \<le> len - COMMON_HEADER)
        then fail ''a saved RTCP packet declares a padding count it cannot hold''
        else if padding_bytes mod 4 \<noteq> 0
        then fail ''a saved RTCP packet declares a padding count that is not the multiple of four the pinned source states''
        else Inr (padding_bytes, take (len - padding_bytes) body))"

definition rtcp_packet_at :: "bytes \<Rightarrow> nat \<Rightarrow> rtcp_packet result" where
  "rtcp_packet_at payload offset =
     (if offset + COMMON_HEADER > length payload then fail ''a saved RTCP datagram ends inside a packet header''
      else let first = payload ! offset; packet_type = bval (payload ! (offset + 1));
               words = nat (u16be payload (offset + 2));
               padding = (drop_bit 5 first AND 1 \<noteq> 0); count = unat (first AND 0x1F) in
        if bval (drop_bit 6 first) \<noteq> RTCP_VERSION
        then fail ''a saved RTCP packet declares a version this path does not read''
        else let len = (words + 1) * 4 in
          if offset + len > length payload
          then fail ''a saved RTCP packet declares a length past the end of its datagram''
          else let body = bslice payload offset (offset + len) in
            rbind (rtcp_padding body len padding) (\<lambda>(padding_bytes, effective).
              Inr \<lparr>rk_packet_type = packet_type, rk_count = count, rk_words = words, rk_padding = padding,
                rk_padding_bytes = padding_bytes, rk_body = body, rk_effective = effective\<rparr>))"

function (sequential) compound_from :: "bytes \<Rightarrow> nat \<Rightarrow> nat \<Rightarrow> rtcp_packet list result" where
  "compound_from payload offset found =
     (if \<not> offset < length payload then Inr []
      else if found \<ge> MAX_PACKETS_PER_DATAGRAM
      then fail (''saved RTCP datagram exceeds this path'' @ [CHR 0x27] @ ''s compound packet bound'')
      else rbind (rtcp_packet_at payload offset) (\<lambda>packet.
        rbind (compound_from payload (offset + (rk_words packet + 1) * 4) (found + 1)) (\<lambda>packets.
          Inr (packet # packets))))"
  by pat_completeness auto
termination by (relation "measure (\<lambda>(p, off, n). length p - off)") auto


declare compound_from.simps [simp del]

definition compound_packets :: "bytes \<Rightarrow> rtcp_packet list result" where
  "compound_packets payload = compound_from payload 0 0"

section \<open>Sender information\<close>

record sender_info =
  si_ssrc :: int
  si_seconds :: int
  si_fraction :: int
  si_media :: int
  si_packets :: int
  si_octets :: int
  si_extension :: nat

definition sender_information :: "bytes \<Rightarrow> nat \<Rightarrow> sender_info result" where
  "sender_information effective blocks =
     (let fixed = COMMON_HEADER + 4 + SENDER_INFO in
      if length effective < fixed
      then fail ''a saved RTCP sender report is shorter than its own sender information''
      else if length effective < fixed + blocks * REPORT_BLOCK
      then fail ''a saved RTCP sender report declares more reception report blocks than its declared length can hold''
      else Inr \<lparr>si_ssrc = u32be effective COMMON_HEADER, si_seconds = u32be effective (COMMON_HEADER + 4),
        si_fraction = u32be effective (COMMON_HEADER + 8), si_media = u32be effective (COMMON_HEADER + 12),
        si_packets = u32be effective (COMMON_HEADER + 16), si_octets = u32be effective (COMMON_HEADER + 20),
        si_extension = length effective - fixed - blocks * REPORT_BLOCK\<rparr>)"

definition ntp_form :: "int \<Rightarrow> int \<Rightarrow> string option \<Rightarrow> string" where
  "ntp_form seconds fraction declared_form =
     (if seconds = 0 \<and> fraction = 0 then ''NO_TIME_DECLARED''
      else case declared_form of
        Some form \<Rightarrow> ''CALLER_DECLARED_'' @ form @ ''_FORM_NOT_PROVEN_BY_THE_HIGH_BIT''
      | None \<Rightarrow> ''FORM_UNRESOLVED_THE_HIGH_BIT_ALONE_PROVES_NEITHER_ABSOLUTE_NOR_RELATIVE'')"

definition ntp_decimal :: "int \<Rightarrow> int \<Rightarrow> decimal" where
  "ntp_decimal seconds fraction = dec_add (dec_of (nat seconds)) (dec_div_pow2 (nat fraction) 32)"

definition ntp_text :: "int \<Rightarrow> int \<Rightarrow> string" where
  "ntp_text seconds fraction = dec_text (ntp_decimal seconds fraction)"

section \<open>Reception report blocks\<close>

definition reception_block :: "nat \<Rightarrow> nat \<Rightarrow> bytes \<Rightarrow> row" where
  "reception_block count index raw =
     [(''reception_blocks_declared'', CInt (int count)),
      (''reception_blocks_status'', CStr ''RECEPTION_BLOCKS_REPORTED''),
      (''reception_block_index'', CInt (int index)),
      (''reception_reportee_ssrc'', CInt (u32be raw 0)),
      (''reception_fraction_lost_raw'', CInt (bval (raw ! 4))),
      (''reception_fraction_lost'', CStr (dec_text (dec_div_pow2 (unat (raw ! 4)) 8))),
      (''reception_cumulative_lost_reported'', CInt (be_sint (bslice raw 5 8))),
      (''reception_extended_highest_sequence_reported'', CInt (u32be raw 8)),
      (''reception_jitter_rtp_ticks_reported'', CInt (u32be raw 12)),
      (''reception_lsr_middle32_reported'', CInt (u32be raw 16)),
      (''reception_dlsr_ticks_reported'', CInt (u32be raw 20)),
      (''reception_dlsr_seconds_text'', CStr (dec_text (dec_div_pow2 (nat (u32be raw 20)) 16))),
      (''reception_last_sr_status'', CStr (if u32be raw 16 \<noteq> 0 then ''LAST_SR_REFERENCE_REPORTED_NOT_ALIGNED''
         else ''LAST_SR_REFERENCE_UNRESOLVED_ZERO_FIELD'')),
      (''reception_block_hex'', CStr (''hex:'' @ hex_of raw)),
      (''reception_feedback_basis'', CStr FEEDBACK_BASIS)]"

record reception_info =
  ri_reporter :: int
  ri_summary :: row
  ri_extension_bytes :: nat
  ri_rows :: "row list"

definition reception_information :: "rtcp_packet \<Rightarrow> reception_info result" where
  "reception_information packet =
     (let body = rk_effective packet; count = rk_count packet;
          start = COMMON_HEADER + 4 + (if rk_packet_type packet = SENDER_REPORT then SENDER_INFO else 0);
          end = start + count * REPORT_BLOCK in
      if length body < start then fail ''a saved RTCP reception report is shorter than its own header''
      else if length body < end
      then fail ''a saved RTCP reception report declares more blocks than its effective length''
      else Inr \<lparr>ri_reporter = u32be body COMMON_HEADER,
        ri_summary = [(''reception_blocks_declared'', CInt (int count)),
          (''reception_blocks_status'', CStr (if count \<noteq> 0 then ''RECEPTION_BLOCKS_REPORTED''
             else ''NO_RECEPTION_BLOCKS_REPORTED'')),
          (''reception_extension_bytes'', CInt (int (length body - end))),
          (''reception_extension_hex'', CStr (''hex:'' @ hex_of (drop end body))),
          (''reception_feedback_basis'', CStr FEEDBACK_BASIS)],
        ri_extension_bytes = length body - end,
        ri_rows = map (\<lambda>index. reception_block count index
          (bslice body (start + index * REPORT_BLOCK) (start + (index + 1) * REPORT_BLOCK))) [0..<count]\<rparr>)"

section \<open>Source description chunks\<close>

text \<open>The null octets from the end of a chunk's items to the next 32-bit boundary.\<close>

function (sequential) sdes_pad :: "bytes \<Rightarrow> nat \<Rightarrow> nat result" where
  "sdes_pad body offset =
     (if offset mod 4 = 0 then Inr offset
      else if offset \<ge> length body \<or> body ! offset \<noteq> 0
      then fail ''a saved RTCP source description chunk is padded with something other than the null octets the source requires''
      else sdes_pad body (offset + 1))"
  by pat_completeness auto
termination by (relation "measure (\<lambda>(b, off). length b - off)") auto

declare sdes_pad.simps [simp del]

record sdes_chunk =
  ck_identifier :: int
  ck_name :: "bytes option"
  ck_uninterpreted :: "(string \<times> int) list"

function (sequential) sdes_items ::
  "bytes \<Rightarrow> nat \<Rightarrow> bytes option \<Rightarrow> (string \<times> int) list \<Rightarrow> (nat \<times> bytes option \<times> (string \<times> int) list) result" where
  "sdes_items body offset name uninterpreted =
     (if offset \<ge> length body then fail ''a saved RTCP source description chunk is not terminated''
      else let item = body ! offset in
        if item = 0 then rbind (sdes_pad body (offset + 1)) (\<lambda>next. Inr (next, name, uninterpreted))
        else if offset + 2 > length body
        then fail ''a saved RTCP source description ends inside an item header''
        else let size = unat (body ! (offset + 1)) in
          if offset + 2 + size > length body
          then fail ''a saved RTCP source description item runs past its packet''
          else if item = CNAME_ITEM then
            (if name \<noteq> None
             then fail ''a saved RTCP source description chunk repeats its canonical name item, so neither is taken as the declared identity''
             else sdes_items body (offset + 2 + size) (Some (bslice body (offset + 2) (offset + 2 + size))) uninterpreted)
          else sdes_items body (offset + 2 + size) name (bump (int_text (bval item)) uninterpreted))"
  by pat_completeness auto
termination by (relation "measure (\<lambda>(b, off, n, u). length b - off)") auto

declare sdes_items.simps [simp del]

fun sdes_chunks :: "bytes \<Rightarrow> nat \<Rightarrow> nat \<Rightarrow> (sdes_chunk list \<times> nat) result" where
  "sdes_chunks body 0 offset = Inr ([], length body - offset)"
| "sdes_chunks body (Suc n) offset =
     (if offset + 4 > length body then fail ''a saved RTCP source description ends inside a chunk identifier''
      else rbind (sdes_items body (offset + 4) None []) (\<lambda>(next, name, uninterpreted).
        rbind (sdes_chunks body n next) (\<lambda>(found, trailing).
          Inr (\<lparr>ck_identifier = u32be body offset, ck_name = name, ck_uninterpreted = uninterpreted\<rparr> # found,
            trailing))))"

definition cname_items :: "bytes \<Rightarrow> nat \<Rightarrow> (sdes_chunk list \<times> nat) result" where
  "cname_items effective n = sdes_chunks effective n COMMON_HEADER"

section \<open>A compound packet is its packets\<close>

definition rtcp_wf :: "rtcp_packet \<Rightarrow> bool" where
  "rtcp_wf p \<longleftrightarrow> length (rk_body p) = (rk_words p + 1) * 4 \<and> rk_words p < 65536 \<and> rk_count p < 32 \<and>
     drop_bit 6 (rk_body p ! 0) = 2 \<and> rk_packet_type p = bval (rk_body p ! 1) \<and>
     rk_padding p = bit (rk_body p ! 0) 5 \<and>
     rk_count p = unat (rk_body p ! 0 AND 0x1F) \<and> rk_words p = nat (u16be (rk_body p) 2) \<and>
     rtcp_padding (rk_body p) (length (rk_body p)) (rk_padding p) = Inr (rk_padding_bytes p, rk_effective p)"

lemma rtcp_padding_length:
  "rtcp_padding body (length body) padding = Inr (n, eff) \<Longrightarrow>
    n + length eff = length body \<and> eff = take (length eff) body \<and> (n = 0 \<longleftrightarrow> \<not> padding) \<and> n mod 4 = 0 \<and>
    (4 \<le> length body \<longrightarrow> 4 \<le> length eff)"
  by (auto simp: rtcp_padding_def COMMON_HEADER_def Let_def split: if_splits)

lemma padding_bit: "drop_bit 5 (b :: byte) AND 1 \<noteq> 0 \<longleftrightarrow> bit b 5"
  by (simp add: and_one_eq bit_iff_odd_drop_bit odd_iff_mod_2_eq_one)

lemma version_two: "bval (drop_bit 6 b) = RTCP_VERSION \<longleftrightarrow> drop_bit 6 b = (2 :: byte)"
  using bval_inject [of "drop_bit 6 b" 2] by (simp add: RTCP_VERSION_def bval_def)

text \<open>The packet at an offset is the one its octets determine.\<close>

definition rtcp_body_packet :: "bytes \<Rightarrow> rtcp_packet result" where
  "rtcp_body_packet body =
     rbind (rtcp_padding body (length body) (bit (body ! 0) 5)) (\<lambda>(padding_bytes, effective).
       Inr \<lparr>rk_packet_type = bval (body ! 1), rk_count = unat (body ! 0 AND 0x1F), rk_words = nat (u16be body 2),
         rk_padding = bit (body ! 0) 5, rk_padding_bytes = padding_bytes, rk_body = body, rk_effective = effective\<rparr>)"

lemma rtcp_packet_at_body:
  assumes "offset + 4 \<le> length payload" "drop_bit 6 (payload ! offset) = 2"
    and "offset + (nat (u16be payload (offset + 2)) + 1) * 4 \<le> length payload"
  shows "rtcp_packet_at payload offset =
    rtcp_body_packet (bslice payload offset (offset + (nat (u16be payload (offset + 2)) + 1) * 4))"
proof -
  let ?body = "bslice payload offset (offset + (nat (u16be payload (offset + 2)) + 1) * 4)"
  have n: "?body ! 0 = payload ! offset" "?body ! 1 = payload ! (offset + 1)" "?body ! 2 = payload ! (offset + 2)"
    "?body ! 3 = payload ! (offset + 3)" "length ?body = (nat (u16be payload (offset + 2)) + 1) * 4"
    using assms(3) by (simp_all add: nth_bslice)
  have w: "u16be ?body 2 = u16be payload (offset + 2)"
    using assms(1) by (intro u16be_bslice) simp
  show ?thesis
    using assms n w unfolding rtcp_packet_at_def rtcp_body_packet_def
    by (simp add: COMMON_HEADER_def version_two padding_bit Let_def del: mult_Suc)
qed

lemma rtcp_packet_at_Inr:
  assumes "rtcp_packet_at payload offset = Inr p"
  shows "rtcp_wf p \<and> rk_body p = bslice payload offset (offset + (rk_words p + 1) * 4) \<and>
    offset + (rk_words p + 1) * 4 \<le> length payload"
proof -
  from assms have c: "offset + 4 \<le> length payload" "drop_bit 6 (payload ! offset) = 2"
    "offset + (nat (u16be payload (offset + 2)) + 1) * 4 \<le> length payload"
    by (auto simp: rtcp_packet_at_def COMMON_HEADER_def version_two Let_def split: if_splits)
  let ?body = "bslice payload offset (offset + (nat (u16be payload (offset + 2)) + 1) * 4)"
  have l: "length ?body = (nat (u16be payload (offset + 2)) + 1) * 4" using c(3) by simp
  have b: "?body ! 0 = payload ! offset" using c(3) by (simp add: nth_bslice)
  have w: "u16be ?body 2 = u16be payload (offset + 2)" by (intro u16be_bslice) simp
  have count: "unat (?body ! 0 AND 0x1F) < 32"
  proof -
    have "?body ! 0 AND 0x1F \<le> 0x1F" by (rule word_and_le1)
    then have "unat (?body ! 0 AND 0x1F) \<le> unat (0x1F :: byte)" unfolding word_le_nat_alt .
    then show ?thesis by simp
  qed
  from assms [unfolded rtcp_packet_at_body [OF c]] show ?thesis
    using c l b w count by (auto simp: rtcp_body_packet_def rtcp_wf_def result_simps nat_less_iff)
qed

lemma rtcp_packet_at_wf:
  assumes "rtcp_wf p"
  shows "rtcp_packet_at (pre @ rk_body p @ rest) (length pre) = Inr p"
proof -
  have l: "length (rk_body p) = (rk_words p + 1) * 4" and w: "rk_words p = nat (u16be (rk_body p) 2)"
    using assms by (auto simp: rtcp_wf_def)
  let ?q = "pre @ rk_body p @ rest"
  have n: "?q ! length pre = rk_body p ! 0" using l by (simp add: nth_append)
  have u: "u16be ?q (length pre + 2) = u16be (rk_body p) 2"
    using l by (simp add: u16be_append_right u16be_append_left del: add_2_eq_Suc')
  have body: "bslice ?q (length pre) (length pre + (nat (u16be ?q (length pre + 2)) + 1) * 4) = rk_body p"
    using l w u by (simp add: bslice_def)
  have "length pre + 4 \<le> length ?q" "drop_bit 6 (?q ! length pre) = 2"
    "length pre + (nat (u16be ?q (length pre + 2)) + 1) * 4 \<le> length ?q"
    using assms l w by (simp_all add: n u rtcp_wf_def del: add_2_eq_Suc')
  from rtcp_packet_at_body [OF this] have "rtcp_packet_at ?q (length pre) = rtcp_body_packet (rk_body p)"
    unfolding body .
  also have "\<dots> = Inr p"
  proof -
    have pad: "rtcp_padding (rk_body p) (length (rk_body p)) (rk_padding p) = Inr (rk_padding_bytes p, rk_effective p)"
      using assms unfolding rtcp_wf_def by blast
    have parts: "bval (rk_body p ! 1) = rk_packet_type p" "unat (rk_body p ! 0 AND 0x1F) = rk_count p"
        "nat (u16be (rk_body p) 2) = rk_words p" "bit (rk_body p ! 0) 5 = rk_padding p"
      using assms by (simp_all add: rtcp_wf_def)
    show ?thesis unfolding rtcp_body_packet_def parts pad rbind_simps prod.case by simp
  qed
  finally show ?thesis .
qed

lemma compound_from_Inr:
  "compound_from payload offset found = Inr ps \<Longrightarrow> offset \<le> length payload \<Longrightarrow>
    concat (map rk_body ps) = drop offset payload \<and> (\<forall>p \<in> set ps. rtcp_wf p) \<and>
    (ps \<noteq> [] \<longrightarrow> found + length ps \<le> MAX_PACKETS_PER_DATAGRAM)"
proof (induction payload offset found arbitrary: ps rule: compound_from.induct)
  case (1 payload offset found)
  show ?case
  proof (cases "offset < length payload")
    case False
    with 1(2,3) show ?thesis by (simp add: compound_from.simps [of payload offset])
  next
    case True
    with 1(2) obtain p qs where p: "rtcp_packet_at payload offset = Inr p" and found: "\<not> found \<ge> MAX_PACKETS_PER_DATAGRAM"
      and qs: "compound_from payload (offset + (rk_words p + 1) * 4) (found + 1) = Inr qs" and ps: "ps = p # qs"
      unfolding compound_from.simps [of payload offset] by (auto simp: result_simps split: if_splits)
    note at = rtcp_packet_at_Inr [OF p]
    have "\<not> \<not> offset < length payload" using True by simp
    from 1(1) [OF this found p qs] at
    show ?thesis using found by (auto simp: ps bslice_append_drop)
  qed
qed

lemma compound_from_wf:
  assumes "\<forall>p \<in> set ps. rtcp_wf p" "found + length ps \<le> MAX_PACKETS_PER_DATAGRAM"
  shows "compound_from (pre @ concat (map rk_body ps)) (length pre) found = Inr ps"
  using assms
proof (induction ps arbitrary: pre found)
  case Nil
  show ?case by (simp add: compound_from.simps)
next
  case (Cons p ps)
  have l: "length (rk_body p) = (rk_words p + 1) * 4" using Cons.prems by (auto simp: rtcp_wf_def)
  have at: "rtcp_packet_at (pre @ rk_body p @ concat (map rk_body ps)) (length pre) = Inr p"
    using Cons.prems by (intro rtcp_packet_at_wf) simp
  have rest: "compound_from (pre @ rk_body p @ concat (map rk_body ps)) (length pre + (rk_words p + 1) * 4) (found + 1) = Inr ps"
    using Cons.IH [of "found + 1" "pre @ rk_body p"] Cons.prems by (simp add: l)
  show ?case
    using at rest l Cons.prems(2) by (subst compound_from.simps) simp
qed

text \<open>C17. A datagram reads as a list of RTCP packets exactly when it is their octets one after
  another, each packet is well formed by its own header, and there are at most 64.\<close>

theorem compound_packets_iff:
  "compound_packets payload = Inr ps \<longleftrightarrow>
    payload = concat (map rk_body ps) \<and> (\<forall>p \<in> set ps. rtcp_wf p) \<and> length ps \<le> MAX_PACKETS_PER_DATAGRAM"
proof
  assume "compound_packets payload = Inr ps"
  then have "compound_from payload 0 0 = Inr ps" by (simp add: compound_packets_def)
  from compound_from_Inr [OF this]
  show "payload = concat (map rk_body ps) \<and> (\<forall>p \<in> set ps. rtcp_wf p) \<and> length ps \<le> MAX_PACKETS_PER_DATAGRAM"
    by (cases ps) auto
next
  assume "payload = concat (map rk_body ps) \<and> (\<forall>p \<in> set ps. rtcp_wf p) \<and> length ps \<le> MAX_PACKETS_PER_DATAGRAM"
  with compound_from_wf [of ps 0 "[]"] show "compound_packets payload = Inr ps"
    by (simp add: compound_packets_def)
qed

theorem compound_packets_iff_witness:
  "\<exists>p q. compound_packets [0x80, 203, 0, 0, 0xA0, 200, 0, 1, 0, 0, 0, 4] = Inr [p, q] \<and> rk_padding_bytes q = 4"
proof -
  let ?p = "\<lparr>rk_packet_type = 203, rk_count = 0, rk_words = 0, rk_padding = False, rk_padding_bytes = 0,
    rk_body = [0x80, 203, 0, 0], rk_effective = [0x80, 203, 0, 0]\<rparr>"
  let ?q = "\<lparr>rk_packet_type = 200, rk_count = 0, rk_words = 1, rk_padding = True, rk_padding_bytes = 4,
    rk_body = [0xA0, 200, 0, 1, 0, 0, 0, 4], rk_effective = [0xA0, 200, 0, 1]\<rparr>"
  have "rtcp_wf ?p" "rtcp_wf ?q"
    by (simp_all add: rtcp_wf_def bval_def u16be_def be_int_def bslice_def rtcp_padding_def COMMON_HEADER_def
      drop_bit_eq_div)
  then have "compound_packets [0x80, 203, 0, 0, 0xA0, 200, 0, 1, 0, 0, 0, 4] = Inr [?p, ?q]"
    by (subst compound_packets_iff) (simp add: MAX_PACKETS_PER_DATAGRAM_def)
  then show ?thesis by (intro exI [of _ ?p] exI [of _ ?q]) simp
qed

section \<open>The reported time\<close>

text \<open>C18. The decimal text of a reported time is the text of exactly seconds plus fraction over
  two to the 32, as long as the seconds have at most eight digits.\<close>

theorem ntp_decimal_exact:
  assumes "0 \<le> seconds" "seconds < 10 ^ 8" "0 \<le> fraction" "fraction < 2 ^ 32"
  shows "ntp_text seconds fraction = dec_text (ntp_decimal seconds fraction) \<and>
    dec_is (ntp_decimal seconds fraction) (nat (seconds * 2 ^ 32 + fraction)) (2 ^ 32)"
proof -
  have "dec_is (ntp_decimal seconds fraction) (nat seconds * 2 ^ 32 + nat fraction) (2 ^ 32)"
    unfolding ntp_decimal_def using assms
    by (intro dec_add_exact [where p = 8]) (auto simp: nat_less_iff DECIMAL_PRECISION_def)
  moreover have "nat (seconds * 2 ^ 32 + fraction) = nat seconds * 2 ^ 32 + nat fraction"
    using assms by (simp add: nat_add_distrib nat_mult_distrib)
  ultimately show ?thesis by (simp add: ntp_text_def)
qed

theorem ntp_decimal_exact_witness:
  "ntp_text 39095 3221225472 = dec_text (ntp_decimal 39095 3221225472) \<and>
    dec_is (ntp_decimal 39095 3221225472) (nat (39095 * 2 ^ 32 + 3221225472)) (2 ^ 32)"
  by (rule ntp_decimal_exact) simp_all

text \<open>With nine or more digits of seconds the 40 digits are not always enough: the text is rounded.\<close>

lemma dec_places_numeral:
  "dec_places n (numeral k) = (if n mod 2 ^ numeral k = 0 then 0 else Suc (dec_places (5 * n) (pred_numeral k)))"
  by (simp add: numeral_eq_Suc)

lemma ntp_decimal_rounds:
  "\<not> dec_is (ntp_decimal 4294967295 1) (nat (4294967295 * 2 ^ 32 + 1)) (2 ^ 32)"
proof -
  have "dec_places 1 32 = 32" by (simp add: dec_places_numeral)
  then have "dec_div_pow2 1 32 = (23283064365386962890625, - 32)"
    by (simp add: dec_div_pow2_def)
  then show ?thesis
    by (simp add: ntp_decimal_def dec_add_def dec_of_def dec_round_def dec_digits.simps DECIMAL_PRECISION_def
      round_half_even_def dec_is_def Let_def)
qed

end
