(* ===== verification/Rtcp.thy ===== *)
theory Rtcp
  imports Rtcp_Packets
begin

text \<open>
  \<^verbatim>\<open>convert\<close> of \<^verbatim>\<open>scripts/convert_rtcp_sender_reports.py\<close>: the sender reports, canonical names and,
  on request, reception reports of a saved capture become rows in capture order, and the report
  counts what was read and what was not interpreted.
\<close>

section \<open>Constant cells and columns\<close>

definition PAIRING_BASIS :: string where
  "PAIRING_BASIS = ''THE_SENDERS_OWN_TWO_CLOCKS_PAIRED_BY_ITSELF_AS_THE_PINNED_SECTION_DEFINES_NEVER_AN_A''
     @ ''RRIVAL_TIME_NEVER_THE_RECEIVERS_CLOCK_NEVER_VERIFIED_AND_THE_DIFFERENCE_BETWEEN_IT_A''
     @ ''ND_THE_CAPTURE_CLOCK_IS_NOT_LATENCY_BECAUSE_THE_TWO_CLOCKS_HAVE_NO_DECLARED_ALIGNMEN''
     @ ''T_AND_A_PAIRING_ALONE_DOES_NOT_CLOSE_A_LOW_LATENCY_FUNCTION''"

definition NTP_BASIS :: string where
  "NTP_BASIS = ''REPORTED_IN_THE_NTP_FORMAT_THE_PINNED_SECTION_NAMES_CARRIED_AS_WRITTEN_WITH_NO_EPOCH''
     @ ''_APPLIED_NO_ERA_RESOLVED_NO_UTC_CLAIMED_AND_NO_LEAP_SECOND_APPLIED_AND_ITS_MEASUREME''
     @ ''NT_UNCERTAINTY_IS_NOT_INDICATED_BY_THE_SOURCE''"

definition FORM_BASIS :: string where
  "FORM_BASIS = ''THE_HIGH_BIT_IS_REPORTED_AND_PROVES_NOTHING_HERE_BECAUSE_THE_PINNED_SENTENCE_THAT_SE''
     @ ''PARATES_THE_ABSOLUTE_AND_RELATIVE_FORMS_BY_IT_HOLDS_ONLY_UNTIL_THE_YEAR_2036_AND_THI''
     @ ''S_PATH_HAS_NO_ERA_OF_ITS_OWN_AND_NEVER_TAKES_ONE_FROM_THE_CAPTURE_CLOCK_SO_THE_FORM_''
     @ ''STAYS_UNRESOLVED_UNLESS_A_CALLER_DECLARES_IT_FROM_A_SOURCE_THAT_STATES_IT''"

definition COUNT_BASIS :: string where
  "COUNT_BASIS = ''TOTALS_THE_SENDER_REPORTS_ABOUT_ITS_OWN_TRANSMISSION_SINCE_IT_STARTED_NEVER_WHAT_ARR''
     @ ''IVED_NEVER_A_RATE_AND_NEVER_A_LOSS_MEASUREMENT''"

definition BLOCK_BASIS :: string where
  "BLOCK_BASIS = ''RECEPTION_REPORT_BLOCKS_ARE_COUNTED_AND_NOT_DECODED_HERE_BECAUSE_THEY_ARE_OUTSIDE_TH''
     @ ''E_SCOPE_OF_THIS_PATH_THEY_ARE_VALUES_A_RECEIVER_REPORTED_ABOUT_ANOTHER_SOURCE_AND_CA''
     @ ''RRYING_THEM_WOULD_BE_A_SEPARATE_CHANGE_WHICH_WOULD_STILL_REPORT_THEM_AND_NEVER_REACH''
     @ ''_A_QUALITY_VERDICT''"

definition CNAME_BASIS :: string where
  "CNAME_BASIS = ''THE_CANONICAL_NAME_THE_SENDER_DECLARED_FOR_THIS_SYNCHRONISATION_SOURCE_CARRIED_AS_UT''
     @ ''F8_HEX_NEVER_PARSED_NEVER_RESOLVED_NEVER_AUTHENTICATED_AND_NEVER_A_DEVICE_IDENTITY''"

definition RECORD_BASIS :: string where
  "RECORD_BASIS = ''every_row_is_an_OBSERVED_RECORD_read_from_a_saved_capture_it_is_never_a_transmission''
     @ ''_never_a_session_never_a_decoded_medium_and_never_a_measured_transport_performance''"

definition COLUMNS :: "string list" where
  "COLUMNS = [''record_time_us'', ''pcap_clock_basis'', ''pcap_packet_index'', ''pcap_source_sha256'',
     ''rtcp_record_kind'', ''rtcp_source_address'', ''rtcp_source_port'',
     ''rtcp_destination_address'', ''rtcp_destination_port'', ''rtcp_packet_index_in_datagram'',
     ''rtcp_packet_type'', ''rtcp_packet_type_name'', ''rtcp_length_words'',
     ''rtcp_padding_declared'', ''rtcp_padding_bytes_excluded'', ''rtcp_ssrc'',
     ''sr_ntp_seconds_reported'', ''sr_ntp_fraction_reported'', ''sr_ntp_seconds_text'',
     ''sr_ntp_high_bit_reported'', ''sr_ntp_form'', ''sr_ntp_form_basis'', ''sr_ntp_basis'',
     ''sr_rtp_timestamp_reported'', ''sr_media_sender_clock_pairing'', ''sr_pairing_basis'',
     ''sr_sender_packet_count_reported'', ''sr_sender_octet_count_reported'',
     ''sr_sender_count_basis'', ''sr_reception_report_blocks_declared'',
     ''sr_profile_extension_bytes'', ''sr_reception_report_basis'', ''sdes_cname_hex'',
     ''sdes_uninterpreted_items_in_chunk'', ''sdes_unconsumed_trailing_bytes'',
     ''sdes_cname_basis'', ''rtcp_packet_sha256'', ''record_basis'']"

definition RECEPTION_COLUMNS :: "string list" where
  "RECEPTION_COLUMNS = [''reception_blocks_declared'', ''reception_blocks_status'', ''reception_block_index'',
     ''reception_reportee_ssrc'', ''reception_fraction_lost_raw'', ''reception_fraction_lost'',
     ''reception_cumulative_lost_reported'', ''reception_extended_highest_sequence_reported'',
     ''reception_jitter_rtp_ticks_reported'', ''reception_lsr_middle32_reported'',
     ''reception_dlsr_ticks_reported'', ''reception_dlsr_seconds_text'',
     ''reception_last_sr_status'', ''reception_block_hex'', ''reception_extension_bytes'',
     ''reception_extension_hex'', ''reception_feedback_basis'']"

section \<open>The state of a conversion\<close>

record rtcp_report =
  rc_datagrams_selected :: int
  rc_packets_read :: int
  rc_sender_reports :: int
  rc_canonical_names :: int
  rc_packets_by_type :: "(string \<times> int) list"
  rc_blocks_counted :: int
  rc_uninterpreted :: "(string \<times> int) list"
  rc_chunks_without_name :: int
  rc_trailing_bytes :: int
  rc_extension_bytes :: int
  rc_padding_bytes :: int
  rc_receiver_reports :: int
  rc_blocks_decoded :: int
  rc_receiver_extension_bytes :: int
  rc_sources :: "int list"

record rtcp_state =
  rs_report :: rtcp_report
  rs_row_count :: int
  rs_out :: "row list"

definition rtcp_init :: rtcp_state where
  "rtcp_init = \<lparr>rs_report = \<lparr>rc_datagrams_selected = 0, rc_packets_read = 0, rc_sender_reports = 0,
       rc_canonical_names = 0, rc_packets_by_type = [], rc_blocks_counted = 0, rc_uninterpreted = [],
       rc_chunks_without_name = 0, rc_trailing_bytes = 0, rc_extension_bytes = 0, rc_padding_bytes = 0,
       rc_receiver_reports = 0, rc_blocks_decoded = 0, rc_receiver_extension_bytes = 0, rc_sources = []\<rparr>,
     rs_row_count = 0, rs_out = []\<rparr>"

record rtcp_options =
  ro_form :: "string option"
  ro_with_reception :: bool

definition rtcp_columns :: "bool \<Rightarrow> string list" where
  "rtcp_columns with_reception = COLUMNS @ (if with_reception then RECEPTION_COLUMNS else [])"

text \<open>A row is written, and \<^verbatim>\<open>rows += 1\<close> follows.\<close>

definition rtcp_write :: "rtcp_options \<Rightarrow> row \<Rightarrow> rtcp_state \<Rightarrow> rtcp_state result" where
  "rtcp_write opt r st =
     rbind (write_row (rtcp_columns (ro_with_reception opt)) r (rs_out st)) (\<lambda>out.
       Inr (st\<lparr>rs_out := out, rs_row_count := rs_row_count st + 1\<rparr>))"

definition rtcp_output_size :: "rtcp_options \<Rightarrow> rtcp_state \<Rightarrow> nat" where
  "rtcp_output_size opt st = length (csv_text (rtcp_columns (ro_with_reception opt)) (rs_out st))"

section \<open>The rows\<close>

definition rtcp_fixed :: "string \<Rightarrow> saved_datagram \<Rightarrow> udp_fields \<Rightarrow> row" where
  "rtcp_fixed digest saved udp =
     [(''record_time_us'', CInt (sd_capture saved)), (''pcap_clock_basis'', CStr CAPTURE_BASIS),
      (''pcap_packet_index'', CInt (int (sd_index saved))), (''pcap_source_sha256'', CStr digest),
      (''rtcp_source_address'', CStr (uf_source_address udp)), (''rtcp_source_port'', CInt (uf_source_port udp)),
      (''rtcp_destination_address'', CStr (uf_destination_address udp)),
      (''rtcp_destination_port'', CInt (uf_destination_port udp)), (''record_basis'', CStr RECORD_BASIS)]"

definition rtcp_shared :: "row \<Rightarrow> nat \<Rightarrow> rtcp_packet \<Rightarrow> row" where
  "rtcp_shared fixed position packet = row_update fixed
     [(''rtcp_packet_index_in_datagram'', CInt (int position)),
      (''rtcp_packet_type'', CInt (rk_packet_type packet)),
      (''rtcp_packet_type_name'', CStr (case map_of NAMED_TYPES (rk_packet_type packet) of
         None \<Rightarrow> ''TYPE_RETAINED_NOT_INTERPRETED'' | Some name \<Rightarrow> name)),
      (''rtcp_length_words'', CInt (int (rk_words packet))),
      (''rtcp_padding_declared'', CInt (if rk_padding packet then 1 else 0)),
      (''rtcp_padding_bytes_excluded'', CInt (int (rk_padding_bytes packet))),
      (''rtcp_packet_sha256'', CStr (sha256_ref (rk_body packet)))]"

definition sender_row :: "rtcp_options \<Rightarrow> nat \<Rightarrow> sender_info \<Rightarrow> row" where
  "sender_row opt blocks info =
     (let form = ntp_form (si_seconds info) (si_fraction info) (ro_form opt);
          declared = (form \<noteq> ''NO_TIME_DECLARED'')
      in [(''rtcp_record_kind'', CStr ''SENDER_REPORT''), (''rtcp_ssrc'', CInt (si_ssrc info)),
        (''sr_ntp_seconds_reported'', CInt (si_seconds info)),
        (''sr_ntp_fraction_reported'', CInt (si_fraction info)),
        (''sr_ntp_seconds_text'', if declared then CStr (ntp_text (si_seconds info) (si_fraction info)) else CNone),
        (''sr_ntp_high_bit_reported'', CInt (if si_seconds info \<ge> NTP_HIGH_BIT then 1 else 0)),
        (''sr_ntp_form'', CStr form), (''sr_ntp_form_basis'', CStr FORM_BASIS), (''sr_ntp_basis'', CStr NTP_BASIS),
        (''sr_rtp_timestamp_reported'', CInt (si_media info)),
        (''sr_media_sender_clock_pairing'', CStr (if declared
           then ''SENDER_DECLARED_PAIRING_OF_ITS_OWN_RTP_CLOCK_AND_ITS_REPORTED_TIME''
           else ''NO_PAIRING_DECLARED_THE_SENDER_WROTE_NO_TIME'')),
        (''sr_pairing_basis'', CStr PAIRING_BASIS),
        (''sr_sender_packet_count_reported'', CInt (si_packets info)),
        (''sr_sender_octet_count_reported'', CInt (si_octets info)), (''sr_sender_count_basis'', CStr COUNT_BASIS),
        (''sr_reception_report_blocks_declared'', CInt (int blocks)),
        (''sr_profile_extension_bytes'', CInt (int (si_extension info))),
        (''sr_reception_report_basis'', CStr (if ro_with_reception opt then FEEDBACK_BASIS else BLOCK_BASIS))])"

definition cname_row :: "sdes_chunk \<Rightarrow> bytes \<Rightarrow> nat \<Rightarrow> row" where
  "cname_row chunk cname trailing =
     [(''rtcp_record_kind'', CStr ''SOURCE_DESCRIPTION_CNAME''), (''rtcp_ssrc'', CInt (ck_identifier chunk)),
      (''sdes_cname_hex'', CStr (''hex:'' @ hex_of cname)), (''sdes_cname_basis'', CStr CNAME_BASIS),
      (''sdes_uninterpreted_items_in_chunk'', CInt (total (ck_uninterpreted chunk))),
      (''sdes_unconsumed_trailing_bytes'', CInt (int trailing))]"

section \<open>One packet\<close>

abbreviation on_report :: "(rtcp_report \<Rightarrow> rtcp_report) \<Rightarrow> rtcp_state \<Rightarrow> rtcp_state" where
  "on_report f st \<equiv> st\<lparr>rs_report := f (rs_report st)\<rparr>"

definition count_packet :: "rtcp_packet \<Rightarrow> rtcp_state \<Rightarrow> rtcp_state" where
  "count_packet packet = on_report (\<lambda>r. r\<lparr>rc_packets_read := rc_packets_read r + 1,
     rc_packets_by_type := bump (int_text (rk_packet_type packet)) (rc_packets_by_type r),
     rc_padding_bytes := rc_padding_bytes r + int (rk_padding_bytes packet)\<rparr>)"

definition no_feedback :: reception_info where
  "no_feedback = \<lparr>ri_reporter = 0, ri_summary = [], ri_extension_bytes = 0, ri_rows = []\<rparr>"

definition packet_feedback :: "rtcp_options \<Rightarrow> rtcp_packet \<Rightarrow> reception_info result" where
  "packet_feedback opt packet =
     (if ro_with_reception opt \<and> rk_packet_type packet \<in> {SENDER_REPORT, RECEIVER_REPORT}
      then reception_information packet else Inr no_feedback)"

definition take_sender_report ::
  "rtcp_options \<Rightarrow> row \<Rightarrow> rtcp_packet \<Rightarrow> reception_info \<Rightarrow> rtcp_state \<Rightarrow> rtcp_state result" where
  "take_sender_report opt shared packet feedback st =
     (let blocks = rk_count packet in
      rbind (sender_information (rk_effective packet) blocks) (\<lambda>info.
      rbind (rtcp_write opt (row_update (row_update shared (sender_row opt blocks info)) (ri_summary feedback))
        (on_report (\<lambda>r. r\<lparr>rc_blocks_counted := rc_blocks_counted r + int blocks,
           rc_extension_bytes := rc_extension_bytes r + int (si_extension info)\<rparr>) st)) (\<lambda>st1.
        Inr (on_report (\<lambda>r. r\<lparr>rc_sender_reports := rc_sender_reports r + 1,
          rc_sources := (if si_ssrc info \<in> set (rc_sources r) then rc_sources r
                         else rc_sources r @ [si_ssrc info])\<rparr>) st1))))"

definition take_receiver_report ::
  "rtcp_options \<Rightarrow> row \<Rightarrow> rtcp_packet \<Rightarrow> reception_info \<Rightarrow> rtcp_state \<Rightarrow> rtcp_state result" where
  "take_receiver_report opt shared packet feedback st =
     rbind (rtcp_write opt (row_update (row_update shared
         [(''rtcp_record_kind'', CStr ''RECEIVER_REPORT''), (''rtcp_ssrc'', CInt (ri_reporter feedback))])
         (ri_summary feedback)) st) (\<lambda>st1.
       Inr (on_report (\<lambda>r. r\<lparr>rc_receiver_reports := rc_receiver_reports r + 1,
         rc_receiver_extension_bytes := rc_receiver_extension_bytes r + int (ri_extension_bytes feedback),
         rc_blocks_counted := rc_blocks_counted r + int (rk_count packet)\<rparr>) st1))"

fun bump_by :: "(string \<times> int) list \<Rightarrow> (string \<times> int) list \<Rightarrow> (string \<times> int) list" where
  "bump_by d [] = d"
| "bump_by d ((k, n) # rest) = bump_by (if k \<in> fst ` set d then map (\<lambda>(j, m). (j, if j = k then m + n else m)) d
     else d @ [(k, n)]) rest"

definition take_chunk :: "rtcp_options \<Rightarrow> row \<Rightarrow> nat \<Rightarrow> rtcp_state \<Rightarrow> sdes_chunk \<Rightarrow> rtcp_state result" where
  "take_chunk opt shared trailing st chunk =
     (let st1 = on_report (\<lambda>r. r\<lparr>rc_uninterpreted := bump_by (rc_uninterpreted r) (ck_uninterpreted chunk)\<rparr>) st in
      case ck_name chunk of
        None \<Rightarrow> Inr (on_report (\<lambda>r. r\<lparr>rc_chunks_without_name := rc_chunks_without_name r + 1\<rparr>) st1)
      | Some cname \<Rightarrow>
          if length cname > MAX_CNAME_BYTES
          then fail ''a saved canonical name is longer than the pinned source allows''
          else rbind (rtcp_write opt (row_update shared (cname_row chunk cname trailing)) st1) (\<lambda>st2.
            Inr (on_report (\<lambda>r. r\<lparr>rc_canonical_names := rc_canonical_names r + 1\<rparr>) st2)))"

definition take_description :: "rtcp_options \<Rightarrow> row \<Rightarrow> rtcp_packet \<Rightarrow> rtcp_state \<Rightarrow> rtcp_state result" where
  "take_description opt shared packet st =
     rbind (cname_items (rk_effective packet) (rk_count packet)) (\<lambda>(found, trailing).
       run_items (take_chunk opt shared trailing)
         (on_report (\<lambda>r. r\<lparr>rc_trailing_bytes := rc_trailing_bytes r + int trailing\<rparr>) st) found)"

definition take_block :: "rtcp_options \<Rightarrow> row \<Rightarrow> int \<Rightarrow> rtcp_state \<Rightarrow> row \<Rightarrow> rtcp_state result" where
  "take_block opt shared reporter st feedback =
     rbind (rtcp_write opt (row_update (row_update shared
         [(''rtcp_record_kind'', CStr ''RECEPTION_REPORT_BLOCK''), (''rtcp_ssrc'', CInt reporter)]) feedback) st) (\<lambda>st1.
       let st2 = on_report (\<lambda>r. r\<lparr>rc_blocks_decoded := rc_blocks_decoded r + 1\<rparr>) st1 in
       if rs_row_count st2 > MAX_ROWS \<or> rtcp_output_size opt st2 > OUTPUT_LIMIT
       then fail ''converted RTCP reception output exceeds row or byte bound'' else Inr st2)"

definition take_packet :: "rtcp_options \<Rightarrow> row \<Rightarrow> rtcp_state \<Rightarrow> nat \<times> rtcp_packet \<Rightarrow> rtcp_state result" where
  "take_packet opt fixed st item =
     (let packet = snd item; shared = rtcp_shared fixed (fst item) packet; st1 = count_packet packet st in
      rbind (packet_feedback opt packet) (\<lambda>feedback.
      rbind (if rk_packet_type packet = SENDER_REPORT then take_sender_report opt shared packet feedback st1
             else if ro_with_reception opt \<and> rk_packet_type packet = RECEIVER_REPORT
             then take_receiver_report opt shared packet feedback st1
             else if rk_packet_type packet = SOURCE_DESCRIPTION then take_description opt shared packet st1
             else Inr st1) (\<lambda>st2.
      rbind (run_items (take_block opt shared (ri_reporter feedback)) st2 (ri_rows feedback)) (\<lambda>st3.
        if rs_row_count st3 > MAX_ROWS then fail (''saved capture exceeds this path'' @ [CHR 0x27] @ ''s row bound'')
        else if rtcp_output_size opt st3 > OUTPUT_LIMIT then fail ''converted RTCP output exceeds bound''
        else Inr st3))))"

section \<open>The conversion\<close>

definition take_datagram :: "rtcp_options \<Rightarrow> string \<Rightarrow> rtcp_state \<Rightarrow> saved_datagram \<Rightarrow> rtcp_state result" where
  "take_datagram opt digest st saved =
     (case sd_udp saved of
        None \<Rightarrow> Inr st
      | Some udp \<Rightarrow>
          let st1 = on_report (\<lambda>r. r\<lparr>rc_datagrams_selected := rc_datagrams_selected r + 1\<rparr>) st in
          rbind (compound_packets (uf_payload udp)) (\<lambda>packets.
            run_items (take_packet opt (rtcp_fixed digest saved udp)) st1 (zip [0..<length packets] packets)))"

definition convert_rtcp ::
  "dpkt \<Rightarrow> bytes \<Rightarrow> int \<Rightarrow> string option \<Rightarrow> bool \<Rightarrow> (string \<times> rtcp_state) result" where
  "convert_rtcp dk raw rtcp_port declared_form with_reception_reports =
     (if raw = [] \<or> length raw > LIMIT then fail ''empty or oversized saved capture''
      else if (case declared_form of None \<Rightarrow> False | Some form \<Rightarrow> form \<notin> set DECLARED_FORMS)
      then fail ''a declared sender time form must be one the pinned source names''
      else if \<not> (1 \<le> rtcp_port \<and> rtcp_port \<le> 65535) then fail ''explicit UDP destination port required''
      else let opt = \<lparr>ro_form = declared_form, ro_with_reception = with_reception_reports\<rparr>;
               digest = sha256_ref raw in
        rbind (read_pcap_records raw) (\<lambda>(linktype, captures).
        rbind (run_gen (take_datagram opt digest) rtcp_init
                (iter_udp_datagrams dk raw rtcp_port (Some (linktype, captures)) False)) (\<lambda>st.
        if rc_packets_read (rs_report st) = 0
        then fail ''no RTCP packet on the declared port in the saved capture''
        else Inr (csv_text (rtcp_columns with_reception_reports) (rs_out st), st))))"


section \<open>Every row and every packet is counted\<close>

definition of_kind :: "string \<Rightarrow> row \<Rightarrow> bool" where
  "of_kind k r \<longleftrightarrow> row_get r ''rtcp_record_kind'' = CStr k"

definition kind_rows :: "string \<Rightarrow> rtcp_state \<Rightarrow> int" where
  "kind_rows k st = int (length (filter (of_kind k) (rs_out st)))"

definition rtcp_counted :: "rtcp_state \<Rightarrow> bool" where
  "rtcp_counted st \<longleftrightarrow>
     (let r = rs_report st in
      kind_rows ''SENDER_REPORT'' st = rc_sender_reports r \<and>
      kind_rows ''RECEIVER_REPORT'' st = rc_receiver_reports r \<and>
      kind_rows ''SOURCE_DESCRIPTION_CNAME'' st = rc_canonical_names r \<and>
      kind_rows ''RECEPTION_REPORT_BLOCK'' st = rc_blocks_decoded r \<and>
      rs_row_count st = rc_sender_reports r + rc_receiver_reports r + rc_canonical_names r + rc_blocks_decoded r \<and>
      rs_row_count st = int (length (rs_out st)) \<and>
      rc_packets_read r = total (rc_packets_by_type r) \<and> distinct (rc_sources r))"

lemma rtcp_write_Inr:
  "rtcp_write opt r st = Inr st' \<Longrightarrow> st' = st\<lparr>rs_out := rs_out st @ [r], rs_row_count := rs_row_count st + 1\<rparr>"
  by (auto simp: rtcp_write_def result_simps)

lemma of_kind_update:
  "of_kind k (row_update base extra) \<longleftrightarrow> (case map_of extra ''rtcp_record_kind'' of
     None \<Rightarrow> of_kind k base | Some c \<Rightarrow> c = CStr k)"
  by (simp add: of_kind_def row_get_update split: option.split)

lemma feedback_kindless:
  assumes "packet_feedback opt packet = Inr feedback"
  shows "map_of (ri_summary feedback) ''rtcp_record_kind'' = None \<and>
    (\<forall>r \<in> set (ri_rows feedback). map_of r ''rtcp_record_kind'' = None)"
proof (cases "ro_with_reception opt \<and> rk_packet_type packet \<in> {SENDER_REPORT, RECEIVER_REPORT}")
  case True
  with assms have "reception_information packet = Inr feedback" by (simp add: packet_feedback_def)
  then show ?thesis
    by (auto simp: reception_information_def Let_def reception_block_def split: if_splits)
next
  case False
  with assms have "feedback = no_feedback" by (simp add: packet_feedback_def if_not_P)
  then show ?thesis by (simp add: no_feedback_def)
qed

lemma counted_sender:
  assumes "take_sender_report opt shared packet feedback st = Inr st'" "rtcp_counted st"
    "map_of (ri_summary feedback) ''rtcp_record_kind'' = None"
  shows "rtcp_counted st'"
proof -
  from assms(1) obtain info st1 where w: "rtcp_write opt
        (row_update (row_update shared (sender_row opt (rk_count packet) info)) (ri_summary feedback))
        (on_report (\<lambda>r. r\<lparr>rc_blocks_counted := rc_blocks_counted r + int (rk_count packet),
           rc_extension_bytes := rc_extension_bytes r + int (si_extension info)\<rparr>) st) = Inr st1"
    and st': "on_report (\<lambda>r. r\<lparr>rc_sender_reports := rc_sender_reports r + 1,
          rc_sources := (if si_ssrc info \<in> set (rc_sources r) then rc_sources r
                         else rc_sources r @ [si_ssrc info])\<rparr>) st1 = st'"
    unfolding take_sender_report_def Let_def by (elim rbind_InrE) (simp only: sum.inject)
  have "of_kind k (row_update (row_update shared (sender_row opt (rk_count packet) info)) (ri_summary feedback)) \<longleftrightarrow>
      k = ''SENDER_REPORT''" for k
    using assms(3) by (auto simp: of_kind_update sender_row_def Let_def)
  with assms(2) show ?thesis
    by (simp add: st' [symmetric] rtcp_write_Inr [OF w] rtcp_counted_def kind_rows_def Let_def)
qed

lemma counted_receiver:
  assumes "take_receiver_report opt shared packet feedback st = Inr st'" "rtcp_counted st"
    "map_of (ri_summary feedback) ''rtcp_record_kind'' = None"
  shows "rtcp_counted st'"
proof -
  let ?r = "row_update (row_update shared
         [(''rtcp_record_kind'', CStr ''RECEIVER_REPORT''), (''rtcp_ssrc'', CInt (ri_reporter feedback))]) (ri_summary feedback)"
  from assms(1) obtain st1 where w: "rtcp_write opt ?r st = Inr st1"
    and st': "on_report (\<lambda>r. r\<lparr>rc_receiver_reports := rc_receiver_reports r + 1,
         rc_receiver_extension_bytes := rc_receiver_extension_bytes r + int (ri_extension_bytes feedback),
         rc_blocks_counted := rc_blocks_counted r + int (rk_count packet)\<rparr>) st1 = st'"
    unfolding take_receiver_report_def by (elim rbind_InrE) (simp only: sum.inject)
  have "of_kind k ?r \<longleftrightarrow> k = ''RECEIVER_REPORT''" for k
    using assms(3) by (auto simp: of_kind_update)
  with assms(2) show ?thesis
    by (simp add: st' [symmetric] rtcp_write_Inr [OF w] rtcp_counted_def kind_rows_def Let_def)
qed

lemma counted_chunk:
  assumes "take_chunk opt shared trailing st chunk = Inr st'" "rtcp_counted st"
  shows "rtcp_counted st'"
proof (cases "ck_name chunk")
  case None
  with assms show ?thesis by (auto simp: take_chunk_def rtcp_counted_def kind_rows_def Let_def)
next
  case (Some cname)
  let ?r = "row_update shared (cname_row chunk cname trailing)"
  from assms(1) obtain st1 where w: "rtcp_write opt ?r
      (on_report (\<lambda>r. r\<lparr>rc_uninterpreted := bump_by (rc_uninterpreted r) (ck_uninterpreted chunk)\<rparr>) st) = Inr st1"
    and st': "on_report (\<lambda>r. r\<lparr>rc_canonical_names := rc_canonical_names r + 1\<rparr>) st1 = st'"
    unfolding take_chunk_def Let_def Some option.case by (elim if_failE rbind_InrE) (simp only: sum.inject)
  have "of_kind k ?r \<longleftrightarrow> k = ''SOURCE_DESCRIPTION_CNAME''" for k
    by (auto simp: of_kind_update cname_row_def)
  with assms(2) show ?thesis
    by (simp add: st' [symmetric] rtcp_write_Inr [OF w] rtcp_counted_def kind_rows_def Let_def)
qed

lemma counted_block:
  assumes "take_block opt shared reporter st feedback = Inr st'" "rtcp_counted st"
    "map_of feedback ''rtcp_record_kind'' = None"
  shows "rtcp_counted st' \<and> rs_row_count st' \<le> MAX_ROWS"
proof -
  let ?r = "row_update (row_update shared
         [(''rtcp_record_kind'', CStr ''RECEPTION_REPORT_BLOCK''), (''rtcp_ssrc'', CInt reporter)]) feedback"
  from assms(1) obtain st1 where w: "rtcp_write opt ?r st = Inr st1" and st':
      "on_report (\<lambda>r. r\<lparr>rc_blocks_decoded := rc_blocks_decoded r + 1\<rparr>) st1 = st'"
    and rows: "rs_row_count st' \<le> MAX_ROWS"
    unfolding take_block_def Let_def
    by - (elim rbind_InrE if_failE, drule sum.inject(2) [THEN iffD1], hypsubst, simp)
  have "of_kind k ?r \<longleftrightarrow> k = ''RECEPTION_REPORT_BLOCK''" for k
    using assms(3) by (auto simp: of_kind_update)
  with assms(2) rows show ?thesis
    by (simp add: st' [symmetric] rtcp_write_Inr [OF w] rtcp_counted_def kind_rows_def Let_def)
qed

lemma counted_packet:
  assumes "take_packet opt fixed st item = Inr st'" "rtcp_counted st"
  shows "rtcp_counted st' \<and> rs_row_count st' \<le> MAX_ROWS"
proof -
  let ?packet = "snd item" let ?shared = "rtcp_shared fixed (fst item) (snd item)"
  from assms(1) obtain feedback st2 where f: "packet_feedback opt ?packet = Inr feedback"
    and two: "(if rk_packet_type ?packet = SENDER_REPORT then take_sender_report opt ?shared ?packet feedback (count_packet ?packet st)
             else if ro_with_reception opt \<and> rk_packet_type ?packet = RECEIVER_REPORT
             then take_receiver_report opt ?shared ?packet feedback (count_packet ?packet st)
             else if rk_packet_type ?packet = SOURCE_DESCRIPTION then take_description opt ?shared ?packet (count_packet ?packet st)
             else Inr (count_packet ?packet st)) = Inr st2"
    and three: "run_items (take_block opt ?shared (ri_reporter feedback)) st2 (ri_rows feedback) = Inr st'"
    and rows: "\<not> rs_row_count st' > MAX_ROWS"
    unfolding take_packet_def Let_def
    by - (elim rbind_InrE if_failE, drule sum.inject(2) [THEN iffD1], hypsubst, blast)
  note kindless = feedback_kindless [OF f]
  have one: "rtcp_counted (count_packet ?packet st)"
    using assms(2) by (simp add: count_packet_def rtcp_counted_def kind_rows_def Let_def)
  have desc: "rtcp_counted s'" if "take_description opt ?shared ?packet s = Inr s'" "rtcp_counted s" for s s'
  proof -
    from that(1) obtain found trailing where run: "run_items (take_chunk opt ?shared trailing)
         (on_report (\<lambda>r. r\<lparr>rc_trailing_bytes := rc_trailing_bytes r + int trailing\<rparr>) s) found = Inr s'"
      unfolding take_description_def by (elim rbind_pairE) simp
    have "rtcp_counted (on_report (\<lambda>r. r\<lparr>rc_trailing_bytes := rc_trailing_bytes r + int trailing\<rparr>) s)"
      using that(2) by (simp add: rtcp_counted_def kind_rows_def Let_def)
    from run_items_invariant [where I = rtcp_counted, OF run this] counted_chunk show ?thesis by blast
  qed
  have "rtcp_counted st2"
    using two one kindless counted_sender counted_receiver desc by (simp split: if_splits)
  with run_items_invariant [where I = rtcp_counted, OF three] counted_block kindless have "rtcp_counted st'" by blast
  with rows show ?thesis by simp
qed

lemma counted_datagram:
  assumes "take_datagram opt digest st x = Inr st'" "rtcp_counted st" "rs_row_count st \<le> MAX_ROWS"
  shows "rtcp_counted st' \<and> rs_row_count st' \<le> MAX_ROWS"
proof (cases "sd_udp x")
  case None
  with assms show ?thesis by (simp add: take_datagram_def)
next
  case (Some udp)
  let ?s = "on_report (\<lambda>r. r\<lparr>rc_datagrams_selected := rc_datagrams_selected r + 1\<rparr>) st"
  from assms(1) Some obtain packets where run: "run_items (take_packet opt (rtcp_fixed digest x udp)) ?s
      (zip [0..<length packets] packets) = Inr st'"
    unfolding take_datagram_def Let_def by (auto elim: rbind_InrE)
  have "rtcp_counted ?s \<and> rs_row_count ?s \<le> MAX_ROWS"
    using assms(2,3) by (simp add: rtcp_counted_def kind_rows_def Let_def)
  from run_items_invariant [where I = "\<lambda>s. rtcp_counted s \<and> rs_row_count s \<le> MAX_ROWS", OF run this] counted_packet
  show ?thesis by blast
qed

text \<open>C19. A converted capture has one row for each sender report, canonical name, receiver report and
  decoded block it counts and no other row, at most 100000 of them; the packets read are the packets
  counted by type, and each sender is listed once.\<close>

theorem convert_rtcp_accounts:
  assumes "convert_rtcp dk raw port form reception = Inr (out, st)"
  shows "rtcp_counted st \<and> rs_row_count st \<le> MAX_ROWS \<and> rc_packets_read (rs_report st) \<noteq> 0 \<and>
    out = csv_text (rtcp_columns reception) (rs_out st)"
proof -
  let ?opt = "\<lparr>ro_form = form, ro_with_reception = reception\<rparr>"
  from assms obtain lt cs where run: "run_gen (take_datagram ?opt (sha256_ref raw)) rtcp_init
      (iter_udp_datagrams dk raw port (Some (lt, cs)) False) = Inr st"
    and read: "rc_packets_read (rs_report st) \<noteq> 0" and out: "out = csv_text (rtcp_columns reception) (rs_out st)"
    unfolding convert_rtcp_def Let_def by (elim if_failE rbind_pairE) (simp, elim rbind_InrE, simp split: if_splits)
  from run obtain items where "run_items (take_datagram ?opt (sha256_ref raw)) rtcp_init items = Inr st"
    by (rule run_gen_InrE)
  moreover have "rtcp_counted rtcp_init \<and> rs_row_count rtcp_init \<le> MAX_ROWS"
    by (simp add: rtcp_counted_def kind_rows_def rtcp_init_def Let_def MAX_ROWS_def)
  ultimately have c: "rtcp_counted st \<and> rs_row_count st \<le> MAX_ROWS"
    using run_items_invariant [where I = "\<lambda>s. rtcp_counted s \<and> rs_row_count s \<le> MAX_ROWS"] counted_datagram by blast
  with c read out show ?thesis by simp
qed

definition rtcp_capture :: bytes where
  "rtcp_capture =
    [212, 195, 178, 161, 2, 0, 4, 0, 0, 0, 0, 0, 0, 0, 0, 0, 0, 0, 1, 0, 1, 0, 0, 0, 1, 0, 0, 0,
     5, 0, 0, 0, 50, 0, 0, 0, 50, 0, 0, 0, 2, 0, 0, 0, 0, 1, 2, 0, 0, 0, 0, 2, 8, 0, 69, 0, 0,
     36, 0, 0, 0, 0, 64, 17, 102, 199, 10, 0, 0, 1, 10, 0, 0, 2, 19, 137, 19, 141, 0, 16, 0, 0,
     129, 203, 0, 1, 0, 0, 0, 42]"

lemma rtcp_capture_records: "read_pcap_records rtcp_capture = Inr (1, [1000005])"
  unfolding rtcp_capture_def by (simp add: pcap_eval)

lemma rtcp_capture_items: "\<exists>x udp. iter_udp_datagrams standard_decoder rtcp_capture 5005 (Some (1, [1000005])) False =
  ([x], None) \<and> sd_udp x = Some udp \<and> uf_payload udp = [0x81, 203, 0, 1, 0, 0, 0, 42]"
  unfolding rtcp_capture_def
  by (simp add: iter_udp_datagrams_def save_datagram_def udp_datagram_def dotted_def packet_eval pcap_eval
      int_text_def nat_digits.simps char_of_def bit_0)

lemma rtcp_capture_converts: "\<exists>out st. convert_rtcp standard_decoder rtcp_capture 5005 None False = Inr (out, st)"
proof -
  obtain x udp where items: "iter_udp_datagrams standard_decoder rtcp_capture 5005 (Some (1, [1000005])) False =
      ([x], None)" and x: "sd_udp x = Some udp" "uf_payload udp = [0x81, 203, 0, 1, 0, 0, 0, 42]"
    using rtcp_capture_items by blast
  have bye: "compound_packets [0x81, 203, 0, 1, 0, 0, 0, 42] = Inr [\<lparr>rk_packet_type = 203, rk_count = 1, rk_words = 1,
      rk_padding = False, rk_padding_bytes = 0, rk_body = [0x81, 203, 0, 1, 0, 0, 0, 42],
      rk_effective = [0x81, 203, 0, 1, 0, 0, 0, 42]\<rparr>]"
    by (simp add: compound_packets_def compound_from.simps MAX_PACKETS_PER_DATAGRAM_def rtcp_packet_at_def COMMON_HEADER_def
      RTCP_VERSION_def rtcp_padding_def u16be_def be_int_def bslice_def bval_def Let_def drop_bit_eq_div)
  have "length (csv_text COLUMNS []) \<le> OUTPUT_LIMIT"
    by (simp add: csv_text_def COLUMNS_def csv_line_def csv_field_literal csv_special_def OUTPUT_LIMIT_def)
  then show ?thesis
    unfolding convert_rtcp_def rtcp_capture_records rbind_simps prod.case items run_gen_def Let_def
    by (simp add: rtcp_capture_def LIMIT_def take_datagram_def x bye take_packet_def packet_feedback_def Let_def
      SENDER_REPORT_def RECEIVER_REPORT_def SOURCE_DESCRIPTION_def count_packet_def rtcp_init_def no_feedback_def
      MAX_ROWS_def rtcp_output_size_def rtcp_columns_def)
qed

theorem convert_rtcp_accounts_witness:
  "\<exists>out st. convert_rtcp standard_decoder rtcp_capture 5005 None False = Inr (out, st) \<and> rtcp_counted st"
proof -
  obtain out st where r: "convert_rtcp standard_decoder rtcp_capture 5005 None False = Inr (out, st)"
    using rtcp_capture_converts by blast
  from convert_rtcp_accounts [OF r] have "rtcp_counted st" by (rule conjunct1)
  with r show ?thesis by (intro exI conjI)
qed

end
