(* ===== verification/Sender_Clock.thy ===== *)
theory Sender_Clock
  imports Rtcp
begin

text \<open>
  \<^verbatim>\<open>scripts/convert_rtp_sender_clock.py\<close>: one declared sender report anchors the RTP timestamps of
  one declared source on the sender's own clock, as an exact fraction. The declaration is a parsed
  JSON document; the rows the two converters wrote are read back cell by cell, an integer's text
  as that integer.
\<close>

section \<open>The declaration\<close>

definition CLOCK_KEYS :: "string list" where
  "CLOCK_KEYS = [''rtp_sha256'', ''rtcp_sha256'', ''rtp_tuple'', ''ssrc'', ''payload_type'', ''clock_rate_hz'',
     ''rtcp_port'', ''anchor_capture_index'', ''anchor_packet_index'', ''max_abs_delta_ticks'', ''relation'']"

definition CLOCK_BASIS :: string where "CLOCK_BASIS = ''CALLER_DECLARED_SAME_SENDER_SESSION_NOT_AUTHENTICATED_NO_UTC_ERA_OR_LATENCY''"

definition CLOCK_LIMITS :: "(string \<times> int \<times> int) list" where
  "CLOCK_LIMITS = [(''ssrc'', 0, 4294967295), (''payload_type'', 0, 127), (''clock_rate_hz'', 1, 1000000000),
     (''rtcp_port'', 1, 65535), (''anchor_capture_index'', 0, 2147483647), (''anchor_packet_index'', 0, 63),
     (''max_abs_delta_ticks'', 1, 2147483647)]"

definition json_int :: "json \<Rightarrow> int option" where
  "json_int j = (case j of JInt n \<Rightarrow> Some n | _ \<Rightarrow> None)"

definition within :: "int \<Rightarrow> int \<Rightarrow> json \<Rightarrow> bool" where
  "within low high j = (case json_int j of None \<Rightarrow> False | Some n \<Rightarrow> low \<le> n \<and> n \<le> high)"

definition short_text :: "json \<Rightarrow> bool" where
  "short_text j = (case code_points j of None \<Rightarrow> False | Some cs \<Rightarrow> length cs \<le> 15)"

definition peer_ok :: "json \<Rightarrow> bool" where
  "peer_ok j = (case j of
     JArr [a, b, c, d] \<Rightarrow> within 1 65535 b \<and> within 1 65535 d \<and> short_text a \<and> short_text c
   | _ \<Rightarrow> False)"

definition the_int :: "json \<Rightarrow> string \<Rightarrow> int" where
  "the_int declaration key = (case json_int (json_get declaration key) of None \<Rightarrow> 0 | Some n \<Rightarrow> n)"

definition check_declaration :: "bytes \<Rightarrow> bytes \<Rightarrow> json \<Rightarrow> unit result" where
  "check_declaration raw control declaration =
     (if \<not> is_object declaration
        \<or> (case declaration of JObj kvs \<Rightarrow> fst ` set kvs \<noteq> set CLOCK_KEYS | _ \<Rightarrow> True)
      then fail ''exact closed sender-clock declaration required''
      else if \<not> json_is (json_get declaration ''relation'') CLOCK_BASIS
      then fail ''explicit sender/session declaration required''
      else if \<not> json_is (json_get declaration ''rtp_sha256'') (sha256_ref raw)
        \<or> \<not> json_is (json_get declaration ''rtcp_sha256'') (sha256_ref control)
      then fail ''declared saved capture digest differs''
      else if \<exists>(key, low, high) \<in> set CLOCK_LIMITS. \<not> within low high (json_get declaration key)
      then fail ''invalid finite sender-clock declaration''
      else if \<not> peer_ok (json_get declaration ''rtp_tuple'')
      then fail ''explicit IPv4 source/destination tuple required''
      else Inr ())"


section \<open>The anchor\<close>

definition cell_int :: "cell \<Rightarrow> int result" where
  "cell_int c = (case c of CInt n \<Rightarrow> Inr n | _ \<Rightarrow> fail ''invalid literal for int()'')"

definition is_anchor :: "json \<Rightarrow> row \<Rightarrow> bool" where
  "is_anchor declaration r \<longleftrightarrow> row_get r ''rtcp_record_kind'' = CStr ''SENDER_REPORT''
     \<and> row_get r ''pcap_packet_index'' = CInt (the_int declaration ''anchor_capture_index'')
     \<and> row_get r ''rtcp_packet_index_in_datagram'' = CInt (the_int declaration ''anchor_packet_index'')"

record clock_anchor =
  ca_seconds :: int
  ca_fraction :: int
  ca_media :: int
  ca_packet_sha256 :: cell

definition find_anchor :: "json \<Rightarrow> row list \<Rightarrow> clock_anchor result" where
  "find_anchor declaration rows =
     (case filter (is_anchor declaration) rows of
        [anchor] \<Rightarrow>
          rbind (cell_int (row_get anchor ''rtcp_ssrc'')) (\<lambda>ssrc.
          if ssrc \<noteq> the_int declaration ''ssrc'' then fail ''declared RTP source differs from sender report''
          else rbind (cell_int (row_get anchor ''sr_ntp_seconds_reported'')) (\<lambda>seconds.
          rbind (cell_int (row_get anchor ''sr_ntp_fraction_reported'')) (\<lambda>fraction.
          if seconds = 0 \<and> fraction = 0 then fail ''sender did not report a clock anchor''
          else rbind (cell_int (row_get anchor ''sr_rtp_timestamp_reported'')) (\<lambda>media.
            Inr \<lparr>ca_seconds = seconds, ca_fraction = fraction, ca_media = media,
              ca_packet_sha256 = row_get anchor ''rtcp_packet_sha256''\<rparr>))))
      | _ \<Rightarrow> fail ''exact unique sender report required'')"

section \<open>The sender's clock at a packet\<close>

text \<open>The signed distance of a timestamp from the anchor's, when it is unambiguous.\<close>

definition anchor_delta :: "int \<Rightarrow> int \<Rightarrow> int \<Rightarrow> int result" where
  "anchor_delta media max_abs timestamp =
     (let unsigned = (timestamp - media) mod 2 ^ 32;
          delta = (if unsigned < 2 ^ 31 then unsigned else unsigned - 2 ^ 32)
      in if unsigned = 2 ^ 31 \<or> \<bar>delta\<bar> > max_abs
         then fail ''anchor distance exceeds explicitly declared unambiguous interval'' else Inr delta)"

text \<open>\<^verbatim>\<open>Fraction(n, d)\<close> in lowest terms, for a positive denominator.\<close>

definition fraction_of :: "int \<Rightarrow> int \<Rightarrow> int \<times> int" where
  "fraction_of n d = (let g = gcd n d in (n div g, d div g))"

definition fraction_add :: "int \<times> int \<Rightarrow> int \<times> int \<Rightarrow> int \<times> int" where
  "fraction_add x y = (case (x, y) of ((a, b), (c, d)) \<Rightarrow> fraction_of (a * d + c * b) (b * d))"

definition mapped_seconds :: "clock_anchor \<Rightarrow> int \<Rightarrow> int \<Rightarrow> (int \<times> int) result" where
  "mapped_seconds anchor rate delta =
     (let (n, d) = fraction_add (fraction_of (ca_seconds anchor * 2 ^ 32 + ca_fraction anchor) (2 ^ 32))
                     (fraction_of delta rate)
      in if \<not> (0 \<le> n \<and> n < 2 ^ 32 * d) then fail ''sender seconds cross unresolved NTP era boundary''
         else Inr (n, d))"

definition clock_cells :: "bytes \<Rightarrow> json \<Rightarrow> clock_anchor \<Rightarrow> int \<Rightarrow> int \<times> int \<Rightarrow> row" where
  "clock_cells control declaration anchor delta mapped =
     [(''sender_clock_basis'', CStr CLOCK_BASIS),
      (''sender_anchor_capture_sha256'', CStr (sha256_ref control)),
      (''sender_anchor_packet_sha256'', ca_packet_sha256 anchor),
      (''sender_anchor_capture_index'', CInt (the_int declaration ''anchor_capture_index'')),
      (''sender_anchor_packet_index'', CInt (the_int declaration ''anchor_packet_index'')),
      (''sender_anchor_ntp_seconds'', CInt (ca_seconds anchor)),
      (''sender_anchor_ntp_fraction'', CInt (ca_fraction anchor)),
      (''sender_anchor_rtp_timestamp'', CInt (ca_media anchor)),
      (''sender_delta_ticks'', CInt delta),
      (''sender_seconds_exact'', CStr (''ratio:'' @ int_text (fst mapped) @ ''/'' @ int_text (snd mapped))),
      (''sender_microseconds_floor'', CInt (fst mapped * 1000000 div snd mapped)),
      (''sender_precision_basis'', CStr ''EXACT_RATIONAL_AND_FLOOR_US_NOT_MEASUREMENT_ACCURACY'')]"

section \<open>The rows of the declared source\<close>

definition cell_is_text :: "cell \<Rightarrow> json \<Rightarrow> bool" where
  "cell_is_text c j = (case c of CStr s \<Rightarrow> json_is j s | _ \<Rightarrow> False)"

definition cell_is_int :: "cell \<Rightarrow> json \<Rightarrow> bool" where
  "cell_is_int c j = (case c of CInt n \<Rightarrow> json_int j = Some n | _ \<Rightarrow> False)"

definition same_peer :: "row \<Rightarrow> json \<Rightarrow> bool" where
  "same_peer r peer = (case peer of
     JArr [a, b, c, d] \<Rightarrow> cell_is_text (row_get r ''rtp_source_address'') a \<and> cell_is_int (row_get r ''rtp_source_port'') b
       \<and> cell_is_text (row_get r ''rtp_destination_address'') c \<and> cell_is_int (row_get r ''rtp_destination_port'') d
   | _ \<Rightarrow> False)"

definition discontinuous :: "row \<Rightarrow> bool" where
  "discontinuous r \<longleftrightarrow> row_get r ''rtp_sequence_epoch'' \<noteq> CInt 0
     \<or> row_get r ''rtp_timestamp_state'' = CStr ''discontinuity_unknown''
     \<or> row_get r ''rtp_order_state'' \<in> {CStr ''discontinuity_unknown'', CStr ''restart''}"

record clock_state =
  cs_selected :: int
  cs_excluded :: int
  cs_rows :: "row list"
  cs_columns :: "string list"

definition clock_row ::
  "bytes \<Rightarrow> json \<Rightarrow> clock_anchor \<Rightarrow> string list \<Rightarrow> clock_state \<Rightarrow> row \<Rightarrow> clock_state result" where
  "clock_row control declaration anchor columns st r =
     (if \<not> same_peer r (json_get declaration ''rtp_tuple'')
      then Inr (st\<lparr>cs_excluded := cs_excluded st + 1\<rparr>)
      else if discontinuous r then fail ''source discontinuity cannot reuse one clock anchor''
      else rbind (cell_int (row_get r ''rtp_timestamp'')) (\<lambda>timestamp.
        rbind (anchor_delta (ca_media anchor) (the_int declaration ''max_abs_delta_ticks'') timestamp) (\<lambda>delta.
        rbind (mapped_seconds anchor (the_int declaration ''clock_rate_hz'') delta) (\<lambda>mapped.
        let cells = clock_cells control declaration anchor delta mapped;
            out = row_update r cells;
            cols = (if cs_rows st = [] then columns @ map fst cells else cs_columns st) in
        rbind (write_row cols out (cs_rows st)) (\<lambda>rows.
          if length (csv_text cols rows) > OUTPUT_LIMIT then fail ''sender-clock CSV exceeds existing bound''
          else Inr (st\<lparr>cs_selected := cs_selected st + 1, cs_rows := rows, cs_columns := cols\<rparr>))))))"

record clock_report =
  ck_selected_packets :: int
  ck_other_tuple_packets :: int
  ck_rtp :: rtp_report
  ck_rtcp :: rtcp_report

definition DEFAULT_MAX_FORWARD_SECONDS :: int where "DEFAULT_MAX_FORWARD_SECONDS = 10"

definition peer_port :: "json \<Rightarrow> int" where
  "peer_port declaration = (case json_get declaration ''rtp_tuple'' of
     JArr [a, b, c, d] \<Rightarrow> (case json_int d of None \<Rightarrow> 0 | Some n \<Rightarrow> n) | _ \<Rightarrow> 0)"

definition convert_sender_clock :: "dpkt \<Rightarrow> bytes \<Rightarrow> bytes \<Rightarrow> json \<Rightarrow> (string \<times> clock_state \<times> clock_report) result" where
  "convert_sender_clock dk raw control declaration =
     rbind (check_declaration raw control declaration) (\<lambda>_.
     rbind (convert_rtcp dk control (the_int declaration ''rtcp_port'') None False) (\<lambda>(anchor_csv, control_state).
     rbind (find_anchor declaration (rs_out control_state)) (\<lambda>anchor.
     rbind (convert_pcap_rtp dk raw (peer_port declaration) (Some (the_int declaration ''clock_rate_hz'')) False
         (Some (the_int declaration ''payload_type'')) (Some (the_int declaration ''ssrc''))
         DEFAULT_MAX_FORWARD_SECONDS None) (\<lambda>(source_csv, source_report).
     let rows = rt_rows (rr_state source_report) in
     rbind (run_items (clock_row control declaration anchor (map fst (hd rows)))
         \<lparr>cs_selected = 0, cs_excluded = 0, cs_rows = [], cs_columns = []\<rparr> rows) (\<lambda>st.
     if cs_selected st = 0 then fail ''declared source tuple absent''
     else Inr (csv_text (cs_columns st) (cs_rows st), st,
       \<lparr>ck_selected_packets = cs_selected st, ck_other_tuple_packets = cs_excluded st,
        ck_rtp = source_report, ck_rtcp = rs_report control_state\<rparr>))))))"

section \<open>The mapping is exact\<close>

lemma anchor_delta_exact:
  assumes "timestamp = (media + distance) mod 2 ^ 32" "\<bar>distance\<bar> \<le> max_abs" "max_abs < 2 ^ 31"
  shows "anchor_delta media max_abs timestamp = Inr distance"
proof -
  have u: "(timestamp - media) mod 2 ^ 32 = distance mod 2 ^ 32"
    unfolding assms(1) by (simp add: mod_diff_left_eq)
  show ?thesis
  proof (cases "0 \<le> distance")
    case True
    then have "distance mod 2 ^ 32 = distance" using assms by simp
    with True assms u show ?thesis by (simp add: anchor_delta_def Let_def)
  next
    case False
    then have "distance mod 2 ^ 32 = distance + 2 ^ 32"
      using assms mod_pos_pos_trivial [of "distance + 2 ^ 32" "2 ^ 32"] by simp
    with False assms u show ?thesis by (simp add: anchor_delta_def Let_def)
  qed
qed

lemma fraction_of_exact:
  assumes "0 < d" "fraction_of n d = (a, b)"
  shows "0 < b \<and> coprime a b \<and> a * d = n * b"
proof -
  have g: "gcd n d > 0" using assms(1) by simp
  have ab: "a = n div gcd n d" "b = d div gcd n d" using assms(2) by (simp_all add: fraction_of_def Let_def)
  have "b * gcd n d = d" "a * gcd n d = n" by (simp_all add: ab)
  then have "a * d = n * b" by (metis mult.assoc mult.commute)
  moreover have "coprime a b" unfolding ab using assms(1) by (intro div_gcd_coprime) simp
  moreover have "0 < b" using \<open>b * gcd n d = d\<close> assms(1) g by (metis zero_less_mult_pos2)
  ultimately show ?thesis by blast
qed

text \<open>C20. A packet whose true distance from the anchor is inside the declared interval is mapped to
  exactly that distance, wrapped timestamps included, and to the anchor's time plus distance over
  clock rate as a fraction in lowest terms within one NTP era.\<close>

theorem sender_clock_exact:
  assumes "timestamp = (ca_media anchor + distance) mod 2 ^ 32" "\<bar>distance\<bar> \<le> max_abs" "max_abs < 2 ^ 31"
    and "0 < rate" and "rbind (anchor_delta (ca_media anchor) max_abs timestamp) (mapped_seconds anchor rate) = Inr (n, d)"
  shows "anchor_delta (ca_media anchor) max_abs timestamp = Inr distance \<and> coprime n d \<and> 0 < d \<and>
    n * (2 ^ 32 * rate) = ((ca_seconds anchor * 2 ^ 32 + ca_fraction anchor) * rate + distance * 2 ^ 32) * d \<and>
    0 \<le> n \<and> n < 2 ^ 32 * d"
proof -
  note delta = anchor_delta_exact [OF assms(1-3)]
  obtain a b where x: "fraction_of (ca_seconds anchor * 2 ^ 32 + ca_fraction anchor) (2 ^ 32) = (a, b)"
    by (cases "fraction_of (ca_seconds anchor * 2 ^ 32 + ca_fraction anchor) (2 ^ 32)")
  obtain c e where y: "fraction_of distance rate = (c, e)" by (cases "fraction_of distance rate")
  from fraction_of_exact [OF _ x] have ab: "0 < b" "a * 2 ^ 32 = (ca_seconds anchor * 2 ^ 32 + ca_fraction anchor) * b"
    by auto
  from fraction_of_exact [OF assms(4) y] have ce: "0 < e" "c * rate = distance * e" by auto
  from assms(5) have f: "fraction_of (a * e + c * b) (b * e) = (n, d)" and era: "0 \<le> n" "n < 2 ^ 32 * d"
    unfolding delta rbind_simps mapped_seconds_def x y fraction_add_def prod.case Let_def
    by (auto split: if_splits prod.splits)
  have be: "0 < b * e" using ab ce by simp
  from fraction_of_exact [OF be f] have nd: "0 < d" "coprime n d" "n * (b * e) = (a * e + c * b) * d" by auto
  have "n * (2 ^ 32 * rate) * (b * e) = ((ca_seconds anchor * 2 ^ 32 + ca_fraction anchor) * rate + distance * 2 ^ 32) * d * (b * e)"
  proof -
    have "n * (2 ^ 32 * rate) * (b * e) = (n * (b * e)) * (2 ^ 32 * rate)" by (simp only: ac_simps)
    also have "\<dots> = ((a * 2 ^ 32) * rate * e + (c * rate) * 2 ^ 32 * b) * d" unfolding nd(3) by (simp only: algebra_simps)
    also have "\<dots> = ((ca_seconds anchor * 2 ^ 32 + ca_fraction anchor) * rate + distance * 2 ^ 32) * d * (b * e)"
      unfolding ab(2) ce(2) by (simp only: algebra_simps)
    finally show ?thesis .
  qed
  then have "n * (2 ^ 32 * rate) = ((ca_seconds anchor * 2 ^ 32 + ca_fraction anchor) * rate + distance * 2 ^ 32) * d"
    using ab(1) ce(1) by simp
  with delta nd era show ?thesis by simp
qed

theorem sender_clock_exact_witness:
  "\<exists>n d. rbind (anchor_delta 4294967000 90000 44704) (mapped_seconds \<lparr>ca_seconds = 5, ca_fraction = 2147483648,
      ca_media = 4294967000, ca_packet_sha256 = CNone\<rparr> 90000) = Inr (n, d) \<and> coprime n d \<and> n = 6 * d"
proof -
  let ?a = "\<lparr>ca_seconds = 5, ca_fraction = 2147483648, ca_media = 4294967000, ca_packet_sha256 = CNone\<rparr>"
  have f: "fraction_of (5 * 2 ^ 32 + 2147483648) (2 ^ 32) = (11, 2)" "fraction_of 45000 90000 = (1, 2)"
    "fraction_of (11 * 2 + 1 * 2) (2 * 2) = (6, 1)"
    by (simp_all add: fraction_of_def gcd_non_0_int)
  have "mapped_seconds ?a 90000 45000 = Inr (6, 1)"
    unfolding mapped_seconds_def clock_anchor.select_convs f fraction_add_def prod.case Let_def by simp
  then have r: "rbind (anchor_delta (ca_media ?a) 90000 44704) (mapped_seconds ?a 90000) = Inr (6, 1)"
    by (simp add: anchor_delta_def)
  have "44704 = (ca_media ?a + 45000) mod 2 ^ 32" by simp
  from sender_clock_exact [OF this _ _ _ r] have "coprime 6 (1 :: int)" by simp
  with r show ?thesis by (intro exI [of _ 6] exI [of _ 1]) simp
qed

end
