(* ===== verification/Tramp.thy ===== *)
theory Tramp
  imports Py_Text
begin

unbundle bit_operations_syntax

text \<open>
  Saved replies of a video transmitter: \<^verbatim>\<open>scripts/convert_vtx_tramp_replies.py\<close>. The walk over
  the saved bytes follows what a receiver consumes, every byte is attributed to one event,
  and every accepted reply becomes one row.
\<close>

section \<open>Constants\<close>

definition HEADER_BYTE :: byte where "HEADER_BYTE = 0x0F"
definition FRAME_LENGTH :: nat where "FRAME_LENGTH = 16"
definition CHECKSUM_FIRST :: nat where "CHECKSUM_FIRST = 1"
definition CHECKSUM_LAST :: nat where "CHECKSUM_LAST = 13"
definition CHECKSUM_OFFSET :: nat where "CHECKSUM_OFFSET = 14"
definition TRAILER_OFFSET :: nat where "TRAILER_OFFSET = 15"
definition LIMITS_REPLY :: byte where "LIMITS_REPLY = 0x72"
definition STATUS_REPLY :: byte where "STATUS_REPLY = 0x76"
definition TEMPERATURE_REPLY :: byte where "TEMPERATURE_REPLY = 0x73"

definition ACCEPTED_CODES :: "(byte \<times> string) list" where
  "ACCEPTED_CODES = [(LIMITS_REPLY, ''DEVICE_LIMITS_REPLY''), (STATUS_REPLY, ''STATUS_REPLY''),
     (TEMPERATURE_REPLY, ''TEMPERATURE_REPLY'')]"

definition RACE_LOCK_BIT :: byte where "RACE_LOCK_BIT = 0x01"
definition DECLARED_MIN_MHZ :: int where "DECLARED_MIN_MHZ = 5000"
definition DECLARED_MAX_MHZ :: int where "DECLARED_MAX_MHZ = 5999"
definition TRAMP_MAX_INPUT :: nat where "TRAMP_MAX_INPUT = 16 * 1024 * 1024"
definition TRAMP_MAX_OUTPUT :: nat where "TRAMP_MAX_OUTPUT = 128 * 1024 * 1024"
definition TRAMP_MAX_ROWS :: int where "TRAMP_MAX_ROWS = 100000"

definition TRAMP_CAPTURE_BASIS :: string where
  "TRAMP_CAPTURE_BASIS = ''the_common_capture_clock_is_a_caller_declaration_because_a_Tramp_reply_''
     @ ''carries_no_time_of_its_own_at_all''"

definition DEVICE_BASIS :: string where
  "DEVICE_BASIS = ''THE_DEVICE_IS_WHATEVER_THE_CALLER_DECLARED_THIS_SAVED_STREAM_CAME_FROM_THE_''
     @ ''PROTOCOL_CARRIES_NO_SERIAL_NUMBER_NO_MODEL_AND_NO_IDENTITY_SO_NONE_IS_'' @ ''INVENTED_HERE''"

definition TRAMP_SOURCE_BASIS :: string where
  "TRAMP_SOURCE_BASIS = ''BYTES_A_VIDEO_TRANSMITTER_PRODUCED_AND_SOMEBODY_SAVED_READ_UNDER_THE_PINNED_''
     @ ''FLIGHT_CONTROLLER_RECEIVERS_OWN_ACCEPTANCE_RULES_WHICH_ARE_AN_IMPLEMENTATION_''
     @ ''AND_NOT_A_VENDOR_SPECIFICATION''"

definition POWER_BASIS :: string where
  "POWER_BASIS = ''THE_SAME_QUANTITY_AS_THE_MILLIWATT_TABLE_THE_PINNED_FIRMWARE_MATCHES_THIS_''
     @ ''FIELD_AGAINST_THE_WIRE_DECLARES_NO_UNIT_ITSELF_AND_A_REPORTED_POWER_IS_A_''
     @ ''CONFIGURATION_THE_DEVICE_STATES_NEVER_MEASURED_RADIATED_POWER_NEVER_EIRP_''
     @ ''NEVER_OUTPUT_QUALITY_AND_NEVER_A_COMPLIANCE_STATEMENT''"

definition TEMPERATURE_BASIS :: string where
  "TEMPERATURE_BASIS = ''UNIT_UNRESOLVED_THE_PINNED_SOURCE_STATES_NO_UNIT_FOR_THIS_FIELD_AND_DOES_''
     @ ''NOT_SETTLE_ITS_SIGN_EITHER_THE_DECODE_CASTS_SIGNED_WHILE_THE_ACCESSOR_''
     @ ''RETURNS_UNSIGNED_SO_THE_RAW_WORD_AND_BOTH_READINGS_ARE_CARRIED_AND_NO_'' @ ''DEGREE_IS_ASSERTED''"

definition PIT_BASIS :: string where
  "PIT_BASIS = ''THE_PIT_MODE_FLAG_THE_DEVICE_REPORTS_ABOUT_ITSELF_WHICH_IS_A_STATED_MODE_AND_''
     @ ''NEVER_EVIDENCE_THAT_RADIO_FREQUENCY_OUTPUT_WAS_ACTUALLY_SUPPRESSED''"

definition READINESS_BASIS :: string where
  "READINESS_BASIS = ''WHICH_REPLY_KIND_ARRIVED_NOTHING_MORE_READINESS_IN_THE_PINNED_FIRMWARE_IS_''
     @ ''ITS_OWN_STATE_MACHINE_NOT_A_FIELD_IN_ANY_REPLY_SO_NO_DEVICE_HEALTH_VERDICT_''
     @ ''NO_FAULT_AND_NO_INTERFERENCE_DIAGNOSIS_IS_REACHED_HERE''"

definition RANGE_BASIS :: string where
  "RANGE_BASIS = ''WHETHER_THE_REPORTED_FREQUENCY_FALLS_INSIDE_THE_5000_TO_5999_MHZ_RANGE_THE_''
     @ ''PINNED_SOURCE_DECLARES_FOR_ITS_OWN_SETTING_REPORTED_AND_NEVER_ENFORCED_BECAUSE_''
     @ ''A_DEVICE_MAY_REPORT_OUTSIDE_ITS_CONTROLLERS_DECLARED_RANGE''"

definition TRAMP_RECORD_BASIS :: string where
  "TRAMP_RECORD_BASIS = ''every_row_is_an_OBSERVED_RECORD_read_from_saved_bytes_it_is_never_a_command_''
     @ ''never_a_transmission_never_a_device_contact_and_never_a_measurement_made_here''"

definition TRAMP_COLUMNS :: "string list" where
  "TRAMP_COLUMNS = [''record_time_us'', ''capture_clock_basis'', ''source_sha256'', ''source_device_declared'',
     ''device_identity_basis'', ''frame_offset'', ''frame_hex'', ''vtx_reply_kind'',
     ''vtx_reply_code'', ''reply_readiness_basis'', ''frequency_mhz_reported'',
     ''frequency_range_disposition'', ''frequency_range_basis'',
     ''frequency_min_mhz_reported'', ''frequency_max_mhz_reported'',
     ''power_max_reported'', ''configured_power_reported'', ''actual_power_reported'',
     ''power_basis'', ''control_mode_code'', ''race_lock_declared'', ''pit_mode_code'',
     ''pit_mode_reported'', ''pit_mode_basis'', ''temperature_word_reported'',
     ''temperature_signed_reading'', ''temperature_unsigned_reading'', ''temperature_basis'',
     ''source_basis'', ''record_basis'']"

section \<open>One frame\<close>

definition tramp_checksum :: "bytes \<Rightarrow> int" where
  "tramp_checksum frame =
     foldl (\<lambda>tot index. (tot + bval (frame ! index)) AND 0xFF) 0 [CHECKSUM_FIRST..<CHECKSUM_LAST + 1]"

definition tramp_word :: "bytes \<Rightarrow> nat \<Rightarrow> int" where
  "tramp_word frame offset = bval (frame ! offset) OR push_bit 8 (bval (frame ! (offset + 1)))"

text \<open>The value that the pinned firmware tests for a query echo.\<close>

definition sentinel :: "byte \<Rightarrow> bytes \<Rightarrow> int" where
  "sentinel code frame = (if code = TEMPERATURE_REPLY then tramp_word frame 6 else tramp_word frame 2)"

section \<open>The walk over the saved bytes\<close>

record tramp_report =
  tr_accepted :: int
  tr_by_kind :: "(string \<times> int) list"
  tr_before_header :: int
  tr_truncated :: int
  tr_bad_codes :: "(string \<times> int) list"
  tr_mismatch :: int
  tr_trailer :: int
  tr_echoes :: "(string \<times> int) list"

definition tramp_init :: tramp_report where
  "tramp_init = \<lparr>tr_accepted = 0, tr_by_kind = [], tr_before_header = 0, tr_truncated = 0,
     tr_bad_codes = [], tr_mismatch = 0, tr_trailer = 0, tr_echoes = []\<rparr>"

text \<open>One turn of the loop: it breaks, or it goes on at an offset, with an accepted frame or none.\<close>

datatype tramp_turn = Break tramp_report | Go nat tramp_report "(nat \<times> bytes) list"

definition judge_frame :: "byte \<Rightarrow> string \<Rightarrow> nat \<Rightarrow> bytes \<Rightarrow> tramp_report \<Rightarrow> tramp_turn" where
  "judge_frame code name offset frame report =
     (let offset' = offset + FRAME_LENGTH in
      if bval (frame ! CHECKSUM_OFFSET) \<noteq> tramp_checksum frame
      then Go offset' (report\<lparr>tr_mismatch := tr_mismatch report + 1\<rparr>) []
      else if frame ! TRAILER_OFFSET \<noteq> 0
      then Go offset' (report\<lparr>tr_trailer := tr_trailer report + 1\<rparr>) []
      else if sentinel code frame = 0
      then Go offset' (report\<lparr>tr_echoes := bump name (tr_echoes report)\<rparr>) []
      else Go offset' report [(offset' - FRAME_LENGTH, frame)])"

definition tramp_turn_at :: "bytes \<Rightarrow> nat \<Rightarrow> tramp_report \<Rightarrow> tramp_turn" where
  "tramp_turn_at raw offset report =
     (if raw ! offset \<noteq> HEADER_BYTE
      then Go (offset + 1) (report\<lparr>tr_before_header := tr_before_header report + 1\<rparr>) []
      else if length raw \<le> offset + 1
      then Break (report\<lparr>tr_truncated := tr_truncated report + (int (length raw) - int offset)\<rparr>)
      else let code = raw ! (offset + 1) in
        case map_of ACCEPTED_CODES code of
          None \<Rightarrow> Go (offset + 2) (report\<lparr>tr_bad_codes := bump (int_text (bval code)) (tr_bad_codes report)\<rparr>) []
        | Some name \<Rightarrow>
            if length raw < offset + FRAME_LENGTH
            then Break (report\<lparr>tr_truncated := tr_truncated report + (int (length raw) - int offset)\<rparr>)
            else judge_frame code name offset (bslice raw offset (offset + FRAME_LENGTH)) report)"

lemma judge_advances: "judge_frame code name offset frame report = Go offset' r acc \<Longrightarrow> offset < offset'"
  by (auto simp: judge_frame_def Let_def FRAME_LENGTH_def split: if_splits)

lemma tramp_turn_advances: "tramp_turn_at raw offset report = Go offset' r acc \<Longrightarrow> offset < offset'"
  by (auto simp: tramp_turn_at_def Let_def dest: judge_advances split: if_splits option.splits)

function frames_from :: "bytes \<Rightarrow> nat \<Rightarrow> tramp_report \<Rightarrow> (nat \<times> bytes) list \<times> tramp_report" where
  "frames_from raw offset report =
     (if offset < length raw
      then case tramp_turn_at raw offset report of
          Break r \<Rightarrow> ([], r)
        | Go offset' r acc \<Rightarrow> (acc @ fst (frames_from raw offset' r), snd (frames_from raw offset' r))
      else ([], report))"
  by pat_completeness auto
termination
  by (relation "measure (\<lambda>(raw, offset, _). length raw - offset)") (auto dest!: tramp_turn_advances)

declare frames_from.simps [simp del]

definition tramp_frames :: "bytes \<Rightarrow> tramp_report \<Rightarrow> (nat \<times> bytes) list \<times> tramp_report" where
  "tramp_frames raw report = frames_from raw 0 report"

section \<open>The rows\<close>

definition tramp_fixed :: "int \<Rightarrow> string \<Rightarrow> bytes option \<Rightarrow> row" where
  "tramp_fixed capture_time_us digest device =
     [(''record_time_us'', CInt capture_time_us), (''capture_clock_basis'', CStr TRAMP_CAPTURE_BASIS),
      (''source_sha256'', CStr digest),
      (''source_device_declared'', case device of None \<Rightarrow> CNone | Some d \<Rightarrow> CStr (''hex:'' @ hex_of d)),
      (''device_identity_basis'', CStr DEVICE_BASIS), (''source_basis'', CStr TRAMP_SOURCE_BASIS),
      (''reply_readiness_basis'', CStr READINESS_BASIS), (''record_basis'', CStr TRAMP_RECORD_BASIS)]"

definition limits_cells :: "bytes \<Rightarrow> row" where
  "limits_cells frame =
     [(''frequency_min_mhz_reported'', CInt (tramp_word frame 2)),
      (''frequency_max_mhz_reported'', CInt (tramp_word frame 4)),
      (''power_max_reported'', CInt (tramp_word frame 6)), (''power_basis'', CStr POWER_BASIS)]"

definition status_cells :: "bytes \<Rightarrow> row" where
  "status_cells frame =
     (let frequency = tramp_word frame 2; control = frame ! 6 in
      [(''frequency_mhz_reported'', CInt frequency),
       (''frequency_range_disposition'', CStr
          (if DECLARED_MIN_MHZ \<le> frequency \<and> frequency \<le> DECLARED_MAX_MHZ
           then ''REPORTED_INSIDE_THE_DECLARED_SETTING_RANGE''
           else ''REPORTED_OUTSIDE_THE_DECLARED_SETTING_RANGE_RETAINED'')),
       (''frequency_range_basis'', CStr RANGE_BASIS),
       (''configured_power_reported'', CInt (tramp_word frame 4)),
       (''actual_power_reported'', CInt (tramp_word frame 8)), (''power_basis'', CStr POWER_BASIS),
       (''control_mode_code'', CInt (bval control)),
       (''race_lock_declared'', CInt (if control AND RACE_LOCK_BIT \<noteq> 0 then 1 else 0)),
       (''pit_mode_code'', CInt (bval (frame ! 7))),
       (''pit_mode_reported'', CStr (if frame ! 7 \<noteq> 0 then ''PIT_MODE_REPORTED_SET''
                                     else ''PIT_MODE_REPORTED_CLEAR'')),
       (''pit_mode_basis'', CStr PIT_BASIS)])"

definition temperature_cells :: "bytes \<Rightarrow> row" where
  "temperature_cells frame =
     (let raw_word = tramp_word frame 6 in
      [(''temperature_word_reported'', CInt raw_word),
       (''temperature_signed_reading'', CInt (if raw_word AND 0x8000 \<noteq> 0 then raw_word - 0x10000 else raw_word)),
       (''temperature_unsigned_reading'', CInt raw_word),
       (''temperature_basis'', CStr TEMPERATURE_BASIS)])"

definition tramp_kind :: "bytes \<Rightarrow> string" where
  "tramp_kind frame = (case map_of ACCEPTED_CODES (frame ! 1) of None \<Rightarrow> '''' | Some name \<Rightarrow> name)"

definition tramp_row :: "row \<Rightarrow> nat \<times> bytes \<Rightarrow> row" where
  "tramp_row fixed item =
     (let frame = snd item;
          row = row_update fixed [(''frame_offset'', CInt (int (fst item))),
            (''frame_hex'', CStr (''hex:'' @ hex_of frame)), (''vtx_reply_kind'', CStr (tramp_kind frame)),
            (''vtx_reply_code'', CStr [char_of (unat (frame ! 1))])]
      in row_update row
           (if frame ! 1 = LIMITS_REPLY then limits_cells frame
            else if frame ! 1 = STATUS_REPLY then status_cells frame else temperature_cells frame))"

definition take_frame ::
  "row \<Rightarrow> tramp_report \<times> row list \<Rightarrow> nat \<times> bytes \<Rightarrow> (tramp_report \<times> row list) result" where
  "take_frame fixed st item =
     rbind (write_row TRAMP_COLUMNS (tramp_row fixed item) (snd st)) (\<lambda>out.
       let report = (fst st)\<lparr>tr_accepted := tr_accepted (fst st) + 1,
             tr_by_kind := bump (tramp_kind (snd item)) (tr_by_kind (fst st))\<rparr> in
       if tr_accepted report > TRAMP_MAX_ROWS
       then fail (''saved Tramp input exceeds this path'' @ [CHR 0x27] @ ''s row bound'')
       else if length (csv_text TRAMP_COLUMNS out) > TRAMP_MAX_OUTPUT
       then fail ''converted Tramp output exceeds bound''
       else Inr (report, out))"

definition tramp_consumed :: "tramp_report \<Rightarrow> (string \<times> int) list" where
  "tramp_consumed report =
     [(''accepted_frames'', tr_accepted report * int FRAME_LENGTH),
      (''query_sentinel_echoes'', total (tr_echoes report) * int FRAME_LENGTH),
      (''checksum_mismatch_frames'', tr_mismatch report * int FRAME_LENGTH),
      (''non_zero_trailer_frames'', tr_trailer report * int FRAME_LENGTH),
      (''unaccepted_code_events'', total (tr_bad_codes report) * 2),
      (''bytes_before_a_header_byte'', tr_before_header report),
      (''truncated_trailing_bytes'', tr_truncated report)]"

definition convert_tramp :: "bytes \<Rightarrow> int \<Rightarrow> bytes option \<Rightarrow> (string \<times> tramp_report \<times> row list) result" where
  "convert_tramp raw capture_time_us device =
     (if \<not> (0 \<le> capture_time_us \<and> capture_time_us < 2 ^ 63)
      then fail ''explicit caller capture microseconds required''
      else if raw = [] \<or> length raw > TRAMP_MAX_INPUT then fail ''empty or oversized saved Tramp input''
      else if device = Some [] then fail ''a declared device is a non-empty caller statement or nothing at all''
      else let fixed = tramp_fixed capture_time_us (sha256_ref raw) device;
               (accepted, walked) = tramp_frames raw tramp_init in
        rbind (run_items (take_frame fixed) (walked, []) accepted) (\<lambda>(report, out).
          if total (tramp_consumed report) \<noteq> int (length raw)
          then fail ''saved Tramp byte accounting mismatch''
          else if tr_accepted report = 0 then fail ''no accepted Tramp reply in the saved input''
          else Inr (csv_text TRAMP_COLUMNS out, report, out)))"

section \<open>The receiver the walk follows\<close>

text \<open>
  The byte-at-a-time receiver that the documentation of the walk describes. It never pushes a
  byte back: a byte that is no header is dropped, a code that is not accepted is dropped with
  its header, and sixteen bytes are consumed before they are judged.
\<close>

datatype receiver = Wait_Len | Wait_Code | Wait_Data bytes

definition good_frame :: "bytes \<Rightarrow> bool" where
  "good_frame frame \<longleftrightarrow> bval (frame ! CHECKSUM_OFFSET) = tramp_checksum frame \<and>
     frame ! TRAILER_OFFSET = 0 \<and> sentinel (frame ! 1) frame \<noteq> 0"

fun receive :: "receiver \<Rightarrow> byte \<Rightarrow> receiver \<times> bytes list" where
  "receive Wait_Len b = (if b = HEADER_BYTE then Wait_Code else Wait_Len, [])"
| "receive Wait_Code b =
     (if b \<in> fst ` set ACCEPTED_CODES then Wait_Data [HEADER_BYTE, b] else Wait_Len, [])"
| "receive (Wait_Data buffer) b =
     (let frame = buffer @ [b] in
      if length frame = FRAME_LENGTH then (Wait_Len, if good_frame frame then [frame] else [])
      else (Wait_Data frame, []))"

fun receive_all :: "receiver \<Rightarrow> bytes \<Rightarrow> bytes list" where
  "receive_all st [] = []"
| "receive_all st (b # bs) = snd (receive st b) @ receive_all (fst (receive st b)) bs"

lemma receive_short:
  "length buffer + length bs < FRAME_LENGTH \<Longrightarrow> receive_all (Wait_Data buffer) bs = []"
  by (induction bs arbitrary: buffer) (auto simp: Let_def)

lemma receive_frame:
  "length buffer + length xs = FRAME_LENGTH \<Longrightarrow> xs \<noteq> [] \<Longrightarrow>
    receive_all (Wait_Data buffer) (xs @ ys) =
      (if good_frame (buffer @ xs) then [buffer @ xs] else []) @ receive_all Wait_Len ys"
proof (induction xs arbitrary: buffer)
  case (Cons x xs)
  show ?case
  proof (cases "xs = []")
    case True
    with Cons.prems show ?thesis by (simp add: Let_def)
  next
    case False
    with Cons.prems have "receive (Wait_Data buffer) x = (Wait_Data (buffer @ [x]), [])"
      by (cases xs) (auto simp: Let_def)
    with Cons.IH [of "buffer @ [x]"] Cons.prems(1) False show ?thesis by simp
  qed
qed simp

lemma accepted_code: "map_of ACCEPTED_CODES code = Some name \<Longrightarrow> code \<in> fst ` set ACCEPTED_CODES"
  by (metis (mono_tags) fst_conv image_eqI map_of_SomeD)

lemma unaccepted_code: "map_of ACCEPTED_CODES code = None \<longleftrightarrow> code \<notin> fst ` set ACCEPTED_CODES"
  by (rule map_of_eq_None_iff)

lemma bslice_head:
  "offset + 2 \<le> e \<Longrightarrow> e \<le> length raw \<Longrightarrow>
    bslice raw offset e = raw ! offset # raw ! (offset + 1) # bslice raw (offset + 2) e"
proof -
  assume le: "offset + 2 \<le> e" "e \<le> length raw"
  then have "bslice raw offset e = bslice raw offset (offset + 2) @ bslice raw (offset + 2) e"
    by (simp add: bslice_append_bslice)
  also have "bslice raw offset (offset + 2) = [raw ! offset, raw ! (offset + 1)]"
    using le by (intro bslice_2) simp
  finally show ?thesis by (simp only: append_Cons append_Nil)
qed

lemma judge_good:
  assumes "frame ! 1 = code"
  shows "\<exists>r. judge_frame code name offset frame report =
    Go (offset + FRAME_LENGTH) r (if good_frame frame then [(offset, frame)] else [])"
  using assms by (auto simp: judge_frame_def good_frame_def Let_def)

lemma drop_two: "offset + 1 < length raw \<Longrightarrow> drop offset raw = raw ! offset # raw ! (offset + 1) # drop (offset + 2) raw"
  by (metis Cons_nth_drop_Suc Suc_eq_plus1 add_2_eq_Suc' add_lessD1)

lemma frames_from_receiver:
  "map snd (fst (frames_from raw offset report)) = receive_all Wait_Len (drop offset raw)"
proof (induction raw offset report rule: frames_from.induct)
  case (1 raw offset report)
  show ?case
  proof (cases "offset < length raw")
    case inside: True
    show ?thesis
    proof (cases "raw ! offset = HEADER_BYTE")
      case False
      with inside have "tramp_turn_at raw offset report =
          Go (offset + 1) (report\<lparr>tr_before_header := tr_before_header report + 1\<rparr>) []"
        by (simp add: tramp_turn_at_def)
      with 1 [OF inside this] inside False show ?thesis
        by (simp add: frames_from.simps [of raw offset] Cons_nth_drop_Suc [symmetric])
    next
      case header: True
      show ?thesis
      proof (cases "offset + 1 < length raw")
        case False
        with inside have "drop offset raw = [raw ! offset]"
          by (simp add: Cons_nth_drop_Suc [symmetric])
        with False inside header show ?thesis
          by (simp add: frames_from.simps [of raw offset] tramp_turn_at_def)
      next
        case two: True
        let ?code = "raw ! (offset + 1)"
        show ?thesis
        proof (cases "map_of ACCEPTED_CODES ?code")
          case None
          with header two have turn: "tramp_turn_at raw offset report =
              Go (offset + 2) (report\<lparr>tr_bad_codes := bump (int_text (bval ?code)) (tr_bad_codes report)\<rparr>) []"
            by (simp add: tramp_turn_at_def)
          from None have "?code \<notin> fst ` set ACCEPTED_CODES" by (rule unaccepted_code [THEN iffD1])
          with 1 [OF inside turn] inside turn header show ?thesis
            by (simp add: frames_from.simps [of raw offset] drop_two [OF two] del: set_map)
        next
          case (Some name)
          then have code: "?code \<in> fst ` set ACCEPTED_CODES" by (rule accepted_code)
          have rest: "receive_all Wait_Len (drop offset raw) =
              receive_all (Wait_Data [HEADER_BYTE, ?code]) (drop (offset + 2) raw)"
            using header code by (simp add: drop_two [OF two])
          show ?thesis
          proof (cases "length raw < offset + FRAME_LENGTH")
            case True
            with header two Some inside show ?thesis
              by (simp add: frames_from.simps [of raw offset] tramp_turn_at_def rest receive_short)
          next
            case False
            let ?frame = "bslice raw offset (offset + FRAME_LENGTH)"
            have len: "offset + FRAME_LENGTH \<le> length raw" using False by simp
            have head: "?frame = HEADER_BYTE # ?code # bslice raw (offset + 2) (offset + FRAME_LENGTH)"
              using bslice_head [of offset "offset + FRAME_LENGTH" raw] len header by (simp add: FRAME_LENGTH_def)
            then have "?frame ! 1 = ?code" by simp
            from judge_good [OF this] obtain r where judged: "judge_frame ?code name offset ?frame report =
                Go (offset + FRAME_LENGTH) r (if good_frame ?frame then [(offset, ?frame)] else [])" by blast
            with header two Some False have turn: "tramp_turn_at raw offset report =
                Go (offset + FRAME_LENGTH) r (if good_frame ?frame then [(offset, ?frame)] else [])"
              by (simp add: tramp_turn_at_def)
            have cut: "drop (offset + 2) raw =
                bslice raw (offset + 2) (offset + FRAME_LENGTH) @ drop (offset + FRAME_LENGTH) raw"
              by (simp add: bslice_append_drop FRAME_LENGTH_def)
            let ?body = "bslice raw (offset + 2) (offset + FRAME_LENGTH)"
            have app: "[HEADER_BYTE, ?code] @ ?body = ?frame" by (simp only: head append_Cons append_Nil)
            have "length ?body = 14" using len by (simp add: length_bslice FRAME_LENGTH_def)
            then have "length [HEADER_BYTE, ?code] + length ?body = FRAME_LENGTH" "?body \<noteq> []"
              by (auto simp: FRAME_LENGTH_def simp del: bslice_def)
            from receive_frame [OF this, unfolded app]
            have "receive_all Wait_Len (drop offset raw) =
                (if good_frame ?frame then [?frame] else []) @ receive_all Wait_Len (drop (offset + FRAME_LENGTH) raw)"
              unfolding rest cut .
            with 1 [OF inside turn] inside turn show ?thesis
              by (simp add: frames_from.simps [of raw offset])
          qed
        qed
      qed
    qed
  qed (simp add: frames_from.simps [of raw offset])
qed

section \<open>The accounting\<close>

definition attributed :: "tramp_report \<Rightarrow> int" where
  "attributed report = total (tramp_consumed report)"

lemma attributed_eq:
  "attributed r = 16 * (tr_accepted r + total (tr_echoes r) + tr_mismatch r + tr_trailer r)
     + 2 * total (tr_bad_codes r) + tr_before_header r + tr_truncated r"
  by (simp add: attributed_def tramp_consumed_def total_def [of "_ # _"] total_def [of "[]"] FRAME_LENGTH_def)

text \<open>What one turn of the walk gives: bytes attributed, and frames that are slices of the input.\<close>

lemma judge_attributes:
  assumes "judge_frame code name offset frame report = Go offset' r acc"
  shows "offset' = offset + FRAME_LENGTH \<and> tr_accepted r = tr_accepted report \<and> tr_by_kind r = tr_by_kind report \<and>
    attributed r + 16 * int (length acc) = attributed report + 16 \<and>
    set acc \<subseteq> {(offset, frame)} \<and> (acc \<noteq> [] \<longrightarrow> acc = [(offset, frame)])"
  using assms by (auto simp: judge_frame_def Let_def attributed_eq split: if_splits)

lemma judge_never_breaks: "judge_frame code name offset frame report \<noteq> Break r"
  by (simp add: judge_frame_def Let_def)

lemma turn_attributes:
  assumes "tramp_turn_at raw offset report = Go offset' r acc" and "offset < length raw"
  shows "offset' \<le> length raw \<and> tr_accepted r = tr_accepted report \<and> tr_by_kind r = tr_by_kind report \<and>
    attributed r + 16 * int (length acc) = attributed report + (int offset' - int offset) \<and>
    (acc \<noteq> [] \<longrightarrow> offset' = offset + FRAME_LENGTH \<and> acc = [(offset, bslice raw offset offset')])"
proof -
  have le: "\<not> length raw < offset + FRAME_LENGTH \<Longrightarrow> offset + FRAME_LENGTH \<le> length raw" by simp
  show ?thesis
    using assms
    by (auto simp: tramp_turn_at_def Let_def attributed_eq [of "tr_before_header_update _ _"]
        attributed_eq [of "tr_bad_codes_update _ _"] attributed_eq [of report] FRAME_LENGTH_def
        dest!: judge_attributes split: if_splits option.splits)
qed

lemma break_attributes:
  assumes "tramp_turn_at raw offset report = Break r"
  shows "tr_accepted r = tr_accepted report \<and> tr_by_kind r = tr_by_kind report \<and>
    attributed r = attributed report + (int (length raw) - int offset)"
  using assms
  by (auto simp: tramp_turn_at_def Let_def attributed_eq judge_never_breaks split: if_splits option.splits)

definition slice_at :: "bytes \<Rightarrow> nat \<times> bytes \<Rightarrow> bool" where
  "slice_at raw item \<longleftrightarrow> fst item + FRAME_LENGTH \<le> length raw \<and>
     snd item = bslice raw (fst item) (fst item + FRAME_LENGTH)"

lemma frames_from_attributes:
  assumes "offset \<le> length raw"
  shows "tr_accepted (snd (frames_from raw offset report)) = tr_accepted report \<and>
    tr_by_kind (snd (frames_from raw offset report)) = tr_by_kind report \<and>
    attributed (snd (frames_from raw offset report)) + 16 * int (length (fst (frames_from raw offset report)))
      = attributed report + (int (length raw) - int offset) \<and>
    (\<forall>item \<in> set (fst (frames_from raw offset report)). offset \<le> fst item \<and> slice_at raw item) \<and>
    sorted_wrt (\<lambda>a b. fst a + FRAME_LENGTH \<le> fst b) (fst (frames_from raw offset report))"
  using assms
proof (induction raw offset report rule: frames_from.induct)
  case (1 raw offset report)
  show ?case
  proof (cases "offset < length raw")
    case inside: True
    show ?thesis
    proof (cases "tramp_turn_at raw offset report")
      case (Break r)
      with inside show ?thesis
        using break_attributes [OF Break] by (simp add: frames_from.simps [of raw offset])
    next
      case (Go offset' r acc)
      note turn = turn_attributes [OF Go inside]
      note IH = 1(1) [OF inside Go turn [THEN conjunct1]]
      have "offset < offset'" by (rule tramp_turn_advances [OF Go])
      with inside Go turn IH show ?thesis
        by (cases "acc = []")
          (fastforce simp: frames_from.simps [of raw offset] slice_at_def)+
    qed
  next
    case False
    with 1 have "frames_from raw offset report = ([], report)" by (subst frames_from.simps) simp
    with False 1 show ?thesis by simp
  qed
qed

text \<open>The rows of a run over the accepted frames.\<close>

lemma take_frame_InrE:
  assumes "take_frame fixed st item = Inr st'"
  shows "st' = ((fst st)\<lparr>tr_accepted := tr_accepted (fst st) + 1,
      tr_by_kind := bump (tramp_kind (snd item)) (tr_by_kind (fst st))\<rparr>, snd st @ [tramp_row fixed item]) \<and>
    tr_accepted (fst st') \<le> TRAMP_MAX_ROWS"
  using assms unfolding take_frame_def Let_def
  by (elim rbind_InrE if_failE) (auto simp: write_row_Inr)

lemma take_frames:
  assumes "run_items (take_frame fixed) (walked, []) accepted = Inr (report, out)"
  shows "out = map (tramp_row fixed) accepted \<and>
    tr_accepted report = tr_accepted walked + int (length accepted) \<and>
    total (tr_by_kind report) = total (tr_by_kind walked) + int (length accepted) \<and>
    attributed report = attributed walked + 16 * int (length accepted)"
proof -
  have "snd (report, out) = map (tramp_row fixed) ([] @ accepted) \<and>
    tr_accepted (fst (report, out)) = tr_accepted walked + int (length ([] @ accepted)) \<and>
    total (tr_by_kind (fst (report, out))) = total (tr_by_kind walked) + int (length ([] @ accepted)) \<and>
    attributed (fst (report, out)) = attributed walked + 16 * int (length ([] @ accepted))"
    by (rule run_items_trace [OF assms]) (auto dest!: take_frame_InrE simp: attributed_eq)
  then show ?thesis by simp
qed

lemma tramp_init_values:
  "tr_accepted tramp_init = 0" "tr_by_kind tramp_init = []" "attributed tramp_init = 0"
  by (simp_all add: tramp_init_def attributed_eq)

lemma tramp_walk_attributes:
  assumes "tramp_frames raw tramp_init = (accepted, walked)"
  shows "tr_accepted walked = 0 \<and> tr_by_kind walked = [] \<and>
    attributed walked + 16 * int (length accepted) = int (length raw) \<and>
    (\<forall>item \<in> set accepted. slice_at raw item) \<and>
    sorted_wrt (\<lambda>a b. fst a + FRAME_LENGTH \<le> fst b) accepted"
  using frames_from_attributes [of 0 raw tramp_init] assms
  by (auto simp: tramp_frames_def tramp_init_values)

text \<open>The last comparison of the conversion cannot fail.\<close>

lemma tramp_never_mismatches:
  "convert_tramp raw capture_time_us device \<noteq> fail ''saved Tramp byte accounting mismatch''"
proof
  assume bad: "convert_tramp raw capture_time_us device = fail ''saved Tramp byte accounting mismatch''"
  let ?fixed = "tramp_fixed capture_time_us (sha256_ref raw) device"
  obtain accepted walked where w: "tramp_frames raw tramp_init = (accepted, walked)" by fastforce
  have "run_items (take_frame ?fixed) st items \<noteq> fail ''saved Tramp byte accounting mismatch''" for st items
    by (induction items arbitrary: st) (auto simp: take_frame_def write_row_def Let_def rbind_def split: sum.splits)
  with bad obtain report out where r: "run_items (take_frame ?fixed) (walked, []) accepted = Inr (report, out)"
    and "attributed report \<noteq> int (length raw)"
    by (auto simp: convert_tramp_def w Let_def rbind_def attributed_def split: if_splits sum.splits prod.splits)
  with take_frames [OF r] tramp_walk_attributes [OF w] show False by simp
qed

text \<open>C21. The replies accepted from a saved stream are exactly those a byte-at-a-time receiver that
  never pushes a byte back accepts, in the same order: a rejected frame, echo or code never
  uncovers another reply inside its own bytes.\<close>

theorem tramp_follows_receiver:
  "map snd (fst (tramp_frames raw report)) = receive_all Wait_Len raw"
  by (simp add: tramp_frames_def frames_from_receiver)

text \<open>A converted stream has one row per accepted reply in saved order, each the sixteen bytes at
  the offset it names, no two overlapping; the counts by kind add up to the accepted replies,
  and the bytes attributed to the seven kinds of event are exactly the bytes of the input.\<close>

theorem tramp_accounts:
  assumes "convert_tramp raw capture_time_us device = Inr (csv, report, out)"
  shows "\<exists>accepted. out = map (tramp_row (tramp_fixed capture_time_us (sha256_ref raw) device)) accepted \<and>
    tr_accepted report = int (length accepted) \<and> total (tr_by_kind report) = int (length accepted) \<and>
    accepted \<noteq> [] \<and> list_all (slice_at raw) accepted \<and>
    sorted_wrt (\<lambda>a b. fst a + FRAME_LENGTH \<le> fst b) accepted \<and>
    total (tramp_consumed report) = int (length raw)"
proof -
  let ?fixed = "tramp_fixed capture_time_us (sha256_ref raw) device"
  obtain accepted walked where w: "tramp_frames raw tramp_init = (accepted, walked)" by fastforce
  from assms have run: "run_items (take_frame ?fixed) (walked, []) accepted = Inr (report, out)"
    and all: "total (tramp_consumed report) = int (length raw)" and some: "tr_accepted report \<noteq> 0"
    by (auto simp: convert_tramp_def w Let_def result_simps split: if_splits prod.splits)
  from take_frames [OF run] tramp_walk_attributes [OF w] all some show ?thesis
    by (intro exI [of _ accepted]) (auto simp: list_all_iff)
qed

definition tramp_sample :: bytes where
  "tramp_sample = [0x00, 0x0F, 0x0F, 0x0F, 0x76, 0xA8, 0x16, 0x19, 0x00, 0x01, 0x00, 0x19, 0x00,
     0x00, 0x00, 0x00, 0x00, 0x67, 0x00, 0x0F]"

lemmas tramp_eval = tramp_turn_at_def judge_frame_def Let_def HEADER_BYTE_def FRAME_LENGTH_def
  ACCEPTED_CODES_def LIMITS_REPLY_def STATUS_REPLY_def TEMPERATURE_REPLY_def CHECKSUM_FIRST_def
  CHECKSUM_LAST_def CHECKSUM_OFFSET_def TRAILER_OFFSET_def tramp_checksum_def sentinel_def tramp_word_def bslice_def bval_def

lemma tramp_sample_frames:
  "tramp_frames tramp_sample tramp_init = ([(3, bslice tramp_sample 3 19)],
     tramp_init\<lparr>tr_before_header := 1, tr_bad_codes := [(''15'', 1)], tr_truncated := 1\<rparr>)"
  by (simp add: tramp_frames_def tramp_sample_def frames_from.simps tramp_eval tramp_init_def upt_rec
      int_text_def nat_digits.simps char_of_def bit_0)

lemma tramp_sample_converts:
  "\<exists>csv report out. convert_tramp tramp_sample 7 None = Inr (csv, report, out)"
proof -
  let ?fixed = "tramp_fixed 7 (sha256_ref tramp_sample) None"
  let ?item = "(3 :: nat, bslice tramp_sample 3 19)"
  let ?report = "tramp_init\<lparr>tr_before_header := 1, tr_bad_codes := [(''15'', 1)], tr_truncated := 1\<rparr>"
  have cells: "\<forall>r \<in> set [tramp_row ?fixed ?item]. \<forall>kv \<in> set r. length (cell_text (snd kv)) \<le> 1000"
    by (simp add: tramp_row_def tramp_fixed_def status_cells_def limits_cells_def tramp_kind_def tramp_sample_def
      row_update_def tramp_eval int_text_def nat_digits.simps TRAMP_CAPTURE_BASIS_def DEVICE_BASIS_def
      TRAMP_SOURCE_BASIS_def POWER_BASIS_def PIT_BASIS_def READINESS_BASIS_def RANGE_BASIS_def
      TRAMP_RECORD_BASIS_def DECLARED_MIN_MHZ_def DECLARED_MAX_MHZ_def)
  have bound: "length (csv_text TRAMP_COLUMNS [tramp_row ?fixed ?item]) \<le> TRAMP_MAX_OUTPUT"
    by (rule order_trans [OF csv_text_cap [OF cells]]) (simp add: TRAMP_COLUMNS_def TRAMP_MAX_OUTPUT_def)
  have columns: "row_keys (tramp_row ?fixed ?item) \<subseteq> set TRAMP_COLUMNS"
    by (simp add: tramp_row_def tramp_fixed_def status_cells_def limits_cells_def tramp_kind_def tramp_sample_def
      tramp_eval TRAMP_COLUMNS_def)
  then have written: "write_row TRAMP_COLUMNS (tramp_row ?fixed ?item) [] = Inr [tramp_row ?fixed ?item]"
    by (simp add: write_row_Inr)
  have kind: "tramp_kind (snd ?item) = ''STATUS_REPLY''"
    by (simp add: tramp_kind_def tramp_sample_def tramp_eval)
  have taken: "take_frame ?fixed (?report, []) ?item =
      Inr (?report\<lparr>tr_accepted := 1, tr_by_kind := [(''STATUS_REPLY'', 1)]\<rparr>, [tramp_row ?fixed ?item])"
    using bound unfolding take_frame_def snd_conv written rbind_simps kind
    by (simp add: Let_def TRAMP_MAX_ROWS_def tramp_init_def kind [unfolded snd_conv])
  show ?thesis
    unfolding convert_tramp_def tramp_sample_frames Let_def prod.case
    using taken by (simp add: tramp_sample_def TRAMP_MAX_INPUT_def tramp_consumed_def total_def FRAME_LENGTH_def tramp_init_def)
qed

theorem tramp_accounts_witness:
  "\<exists>csv report out. convert_tramp tramp_sample 7 None = Inr (csv, report, out) \<and>
    length out = nat (tr_accepted report) \<and> total (tramp_consumed report) = 20"
proof -
  obtain csv report out where c: "convert_tramp tramp_sample 7 None = Inr (csv, report, out)"
    using tramp_sample_converts by blast
  from tramp_accounts [OF c] have "length out = nat (tr_accepted report)" "total (tramp_consumed report) = 20"
    by (auto simp: tramp_sample_def)
  with c show ?thesis by blast
qed

end
