(* ===== verification/Ping.thy ===== *)
theory Ping
  imports Py_Text Framing
begin

unbundle bit_operations_syntax

text \<open>
  Saved frames of the Ping protocol: \<^verbatim>\<open>scripts/convert_ping_frames.py\<close>. Frames are read
  contiguously from the first byte; a selected distance message becomes one JSON line.
\<close>

section \<open>Constants and layouts\<close>

definition PROTOCOL_COMMIT :: string where "PROTOCOL_COMMIT = ''1746cd03f942d58bcf08253055854caea2e33fda''"
definition PING_START :: bytes where "PING_START = [0x42, 0x52]"
definition HEADER_LENGTH :: nat where "HEADER_LENGTH = 8"
definition CHECKSUM_LENGTH :: nat where "CHECKSUM_LENGTH = 2"
definition PING_LIMIT :: nat where "PING_LIMIT = 16 * 1024 * 1024"

text \<open>A little-endian \<^verbatim>\<open>struct\<close> layout of unsigned fields is the list of their widths.\<close>

definition SELECTED :: "(int \<times> nat list \<times> string list) list" where
  "SELECTED =
     [(1211, [4, 1], [''distance'', ''confidence'']),
      (1212, [4, 2, 2, 4, 4, 4, 4],
       [''distance'', ''confidence'', ''transmit_duration'', ''ping_number'', ''scan_start'',
        ''scan_length'', ''gain_setting''])]"

fun unpack_layout :: "nat list \<Rightarrow> bytes \<Rightarrow> int list" where
  "unpack_layout [] bs = []"
| "unpack_layout (w # ws) bs = le_int (take w bs) # unpack_layout ws (drop w bs)"

section \<open>One frame\<close>

record ping_frame =
  pf_start :: nat
  pf_stop :: nat
  pf_message_id :: int
  pf_src :: int
  pf_dst :: int
  pf_payload :: bytes
  pf_bytes :: bytes

definition frame_text :: "nat \<Rightarrow> string" where
  "frame_text index = ''frame '' @ int_text (int index)"

definition ping_sum :: "bytes \<Rightarrow> int" where
  "ping_sum body = sum_list (map bval body) AND 0xFFFF"

definition ping_frame_at :: "bytes \<Rightarrow> nat \<Rightarrow> nat \<Rightarrow> ping_frame result" where
  "ping_frame_at raw offset index =
     (if length raw - offset < HEADER_LENGTH + CHECKSUM_LENGTH
      then fail (frame_text index @ '' is truncated before its header and checksum'')
      else if bslice raw offset (offset + 2) \<noteq> PING_START
      then fail (frame_text index @ '' does not start with the Ping start bytes; this ''
        @ ''reader never rescans for them, so nothing is skipped silently'')
      else let payload_length = nat (u16le raw (offset + 2)); message_id = u16le raw (offset + 4);
               src = bval (raw ! (offset + 6)); dst = bval (raw ! (offset + 7));
               end_at = offset + HEADER_LENGTH + payload_length + CHECKSUM_LENGTH in
        if length raw < end_at
        then fail (frame_text index @ '' declares '' @ int_text (int payload_length)
          @ '' payload bytes that the capture does not contain'')
        else let frame = bslice raw offset end_at; body = take (HEADER_LENGTH + payload_length) frame in
          if u16le frame (HEADER_LENGTH + payload_length) \<noteq> ping_sum body
          then fail (frame_text index @ '' checksum does not match its bytes'')
          else Inr \<lparr>pf_start = offset, pf_stop = end_at, pf_message_id = message_id, pf_src = src, pf_dst = dst,
            pf_payload = drop HEADER_LENGTH body, pf_bytes = frame\<rparr>)"

section \<open>The records\<close>

record ping_report =
  pr_frames_read :: nat
  pr_emitted :: int
  pr_unselected :: "(string \<times> int) list"

definition ping_new_report :: ping_report where
  "ping_new_report = \<lparr>pr_frames_read = 0, pr_emitted = 0, pr_unselected = []\<rparr>"

definition ping_record :: "int \<Rightarrow> nat \<Rightarrow> ping_frame \<Rightarrow> nat list \<Rightarrow> string list \<Rightarrow> json" where
  "ping_record capture_time_us index frame layout names =
     JObj ([(''protocol_commit'', JStr PROTOCOL_COMMIT), (''capture_time_us'', JInt capture_time_us),
        (''message_id'', JInt (pf_message_id frame)), (''src_device_id'', JInt (pf_src frame)),
        (''dst_device_id'', JInt (pf_dst frame)),
        (''payload'', JObj (zip names (map JInt (unpack_layout layout (pf_payload frame))))),
        (''frame_index'', JInt (int index)), (''frame_sha256'', JStr (sha256_hex (pf_bytes frame)))]
      @ (let extra = drop (sum_list layout) (pf_payload frame) in
         if extra \<noteq> [] then [(''payload_extra_hex'', JStr (hex_of extra))] else []))"

text \<open>What follows a frame whose bytes are sound; the report has already counted it.\<close>

definition ping_select ::
  "int \<Rightarrow> bool \<Rightarrow> nat \<Rightarrow> ping_frame \<Rightarrow> ping_report \<Rightarrow> (ping_report \<times> json option) result" where
  "ping_select capture_time_us allow_other_ids index frame report =
     (case map_of SELECTED (pf_message_id frame) of
        None \<Rightarrow>
          if \<not> allow_other_ids
          then fail (frame_text index @ '' carries message id '' @ int_text (pf_message_id frame)
            @ '', which is outside the selected 1211/1212 distance responses'')
          else Inr (report\<lparr>pr_unselected := bump (int_text (pf_message_id frame)) (pr_unselected report)\<rparr>, None)
      | Some (layout, names) \<Rightarrow>
          if length (pf_payload frame) < sum_list layout
          then fail (frame_text index @ '' payload is shorter than message ''
            @ int_text (pf_message_id frame) @ '' declares'')
          else Inr (report\<lparr>pr_emitted := pr_emitted report + 1\<rparr>,
            Some (ping_record capture_time_us index frame layout names)))"

record ping_item =
  pi_frame :: ping_frame
  pi_report :: ping_report
  pi_record :: "json option"

definition ping_step :: "int \<Rightarrow> bool \<Rightarrow> bytes \<Rightarrow> nat \<Rightarrow> ping_report \<Rightarrow> ping_item result" where
  "ping_step capture_time_us allow_other_ids raw offset report =
     (let index = pr_frames_read report in
      rbind (ping_frame_at raw offset index) (\<lambda>frame.
      rbind (ping_select capture_time_us allow_other_ids index frame
              (report\<lparr>pr_frames_read := pr_frames_read report + 1\<rparr>)) (\<lambda>(report', rec).
        Inr \<lparr>pi_frame = frame, pi_report = report', pi_record = rec\<rparr>)))"

lemma ping_frame_extent:
  "ping_frame_at raw offset index = Inr f \<Longrightarrow> pf_start f = offset \<and> offset < pf_stop f \<and> pf_stop f \<le> length raw"
  by (auto simp: ping_frame_at_def Let_def HEADER_LENGTH_def split: if_splits)

lemma ping_step_frame:
  assumes "ping_step t allow raw offset report = Inr item"
  shows "ping_frame_at raw offset (pr_frames_read report) = Inr (pi_frame item) \<and>
    ping_select t allow (pr_frames_read report) (pi_frame item)
      (report\<lparr>pr_frames_read := pr_frames_read report + 1\<rparr>) = Inr (pi_report item, pi_record item)"
  using assms by (auto simp: ping_step_def Let_def result_simps)

function ping_walk :: "int \<Rightarrow> bool \<Rightarrow> bytes \<Rightarrow> nat \<Rightarrow> ping_report \<Rightarrow> ping_item gen" where
  "ping_walk t allow raw offset report =
     (if offset < length raw
      then case ping_step t allow raw offset report of
          Inl e \<Rightarrow> ([], Some e)
        | Inr item \<Rightarrow> yield_then item (ping_walk t allow raw (pf_stop (pi_frame item)) (pi_report item))
      else ([], None))"
  by pat_completeness auto
termination
  by (relation "measure (\<lambda>(t, allow, raw, offset, report). length raw - offset)")
    (auto dest!: ping_step_frame ping_frame_extent)

declare ping_walk.simps [simp del]

interpretation ping_frames: contiguous_frames "ping_step t allow" "\<lambda>s item. pi_report item"
    "\<lambda>item. pf_start (pi_frame item)" "\<lambda>item. pf_stop (pi_frame item)" "ping_walk t allow" for t allow
proof
  show "ping_walk t allow raw off s = yield_then f (ping_walk t allow raw (pf_stop (pi_frame f)) (pi_report f))"
    if "off < length raw" "ping_step t allow raw off s = Inr f" for raw off f s
    using that by (subst ping_walk.simps) simp
qed (auto dest!: ping_step_frame ping_frame_extent simp: ping_walk.simps)

definition decode_frames :: "bytes \<Rightarrow> int \<Rightarrow> ping_report \<Rightarrow> bool \<Rightarrow> ping_item gen" where
  "decode_frames raw capture_time_us report allow_other_ids =
     (if raw = [] then gen_fail ''saved Ping capture is empty''
      else ping_walk capture_time_us allow_other_ids raw 0 report)"

section \<open>The conversion\<close>

definition ping_write :: "ping_report \<times> string list \<Rightarrow> ping_item \<Rightarrow> (ping_report \<times> string list) result" where
  "ping_write st item =
     (case pi_record item of
        None \<Rightarrow> Inr (pi_report item, snd st)
      | Some rec \<Rightarrow>
          let output = snd st @ [dumps (sort_keys rec) @ [CHR 0x0A]] in
          if length (concat output) > PING_LIMIT
          then fail ''converted Ping JSONL exceeds bound; no frame was skipped or dropped''
          else Inr (pi_report item, output))"

definition convert_ping :: "bytes \<Rightarrow> int \<Rightarrow> bool \<Rightarrow> (string list \<times> ping_report) result" where
  "convert_ping raw capture_time_us allow_other_ids =
     (if \<not> (0 \<le> capture_time_us \<and> capture_time_us \<le> 2 ^ 63 - 1)
      then fail (''explicit caller capture microsecond timestamp required; the Ping frame ''
        @ ''carries no time and none is invented'')
      else if length raw > PING_LIMIT then fail ''saved Ping capture exceeds the supported size''
      else rbind (run_gen ping_write (ping_new_report, [])
             (decode_frames raw capture_time_us ping_new_report allow_other_ids)) (\<lambda>(report, output).
        if pr_emitted report = 0 then fail ''no selected Ping distance response in the saved capture''
        else Inr (output, report)))"

section \<open>The encoding\<close>

record ping_message =
  pm_id :: int
  pm_src :: byte
  pm_dst :: byte
  pm_payload :: bytes

definition pack_u16le :: "int \<Rightarrow> bytes" where
  "pack_u16le n = [word_of_int n, word_of_int (n div 256)]"

definition ping_body :: "ping_message \<Rightarrow> bytes" where
  "ping_body m = PING_START @ pack_u16le (int (length (pm_payload m))) @ pack_u16le (pm_id m)
     @ [pm_src m, pm_dst m] @ pm_payload m"

definition ping_encode :: "ping_message \<Rightarrow> bytes" where
  "ping_encode m = ping_body m @ pack_u16le (ping_sum (ping_body m))"

definition ping_encodable :: "ping_message \<Rightarrow> bool" where
  "ping_encodable m \<longleftrightarrow> 0 \<le> pm_id m \<and> pm_id m < 65536 \<and> length (pm_payload m) < 65536"

definition ping_selectable :: "bool \<Rightarrow> ping_message \<Rightarrow> bool" where
  "ping_selectable allow m = (case map_of SELECTED (pm_id m) of None \<Rightarrow> allow
     | Some (layout, names) \<Rightarrow> sum_list layout \<le> length (pm_payload m))"

definition message_of :: "ping_frame \<Rightarrow> ping_message" where
  "message_of f = \<lparr>pm_id = pf_message_id f, pm_src = word_of_int (pf_src f), pm_dst = word_of_int (pf_dst f),
     pm_payload = pf_payload f\<rparr>"

lemma le_int_pair: "le_int [a, b] = bval a + 256 * bval b"
  by simp

lemma pack_u16le_le_int: "pack_u16le (le_int [a, b]) = [a, b]"
proof -
  have "bval a + 256 * bval b = bval b * 256 + bval a" by simp
  then show ?thesis
    by (simp only: le_int_pair pack_u16le_def word_of_step step_div word_of_bval)
qed

lemma le_int_pack_u16le: "0 \<le> n \<Longrightarrow> n < 65536 \<Longrightarrow> le_int (pack_u16le n) = n"
  by (simp add: pack_u16le_def bval_word_of_int)

lemma length_pack_u16le [simp]: "length (pack_u16le n) = 2"
  by (simp add: pack_u16le_def)

lemma pack_u16le_read: "i + 2 \<le> length d \<Longrightarrow> pack_u16le (u16le d i) = bslice d i (i + 2)"
  unfolding u16le_def bslice_2 by (rule pack_u16le_le_int)

lemma u16le_pack:
  "0 \<le> n \<Longrightarrow> n < 65536 \<Longrightarrow> u16le (xs @ pack_u16le n @ ys) (length xs) = n"
  by (simp add: u16le_def bslice_def le_int_pack_u16le)

lemma ping_sum_bounds: "0 \<le> ping_sum body \<and> ping_sum body < 65536"
proof -
  have "ping_sum body = sum_list (map bval body) mod 65536"
    unfolding ping_sum_def using take_bit_eq_mask [of 16 "sum_list (map bval body)"]
    by (simp add: mask_eq_exp_minus_1 take_bit_eq_mod)
  then show ?thesis by simp
qed

lemma length_ping_body: "length (ping_body m) = HEADER_LENGTH + length (pm_payload m)"
  by (simp add: ping_body_def PING_START_def HEADER_LENGTH_def)

lemma length_ping_encode: "length (ping_encode m) = HEADER_LENGTH + length (pm_payload m) + CHECKSUM_LENGTH"
  by (simp add: ping_encode_def length_ping_body CHECKSUM_LENGTH_def)

lemma bslice_to_end: "length xs = k + n \<Longrightarrow> bslice xs k (k + n) = drop k xs"
  by (simp add: bslice_def)

text \<open>A frame read from the bytes is their encoding, and an encoded message is read back.\<close>

lemma ping_frame_encodes:
  assumes "ping_frame_at raw offset index = Inr f"
  shows "bslice raw (pf_start f) (pf_stop f) = ping_encode (message_of f) \<and> ping_encodable (message_of f)"
proof -
  let ?n = "nat (u16le raw (offset + 2))"
  let ?e = "offset + HEADER_LENGTH + ?n + CHECKSUM_LENGTH"
  let ?frame = "bslice raw offset ?e"
  let ?body = "take (HEADER_LENGTH + ?n) ?frame"
  from assms have start: "bslice raw offset (offset + 2) = PING_START" and len: "?e \<le> length raw"
    and ok: "u16le ?frame (HEADER_LENGTH + ?n) = ping_sum ?body"
    and f: "f = \<lparr>pf_start = offset, pf_stop = ?e, pf_message_id = u16le raw (offset + 4),
      pf_src = bval (raw ! (offset + 6)), pf_dst = bval (raw ! (offset + 7)),
      pf_payload = drop HEADER_LENGTH ?body, pf_bytes = ?frame\<rparr>"
    by (auto simp: ping_frame_at_def Let_def not_less split: if_splits)
  have flen: "length ?frame = HEADER_LENGTH + ?n + CHECKSUM_LENGTH" using len by simp
  have payload: "drop HEADER_LENGTH ?body = bslice raw (offset + 8) (offset + HEADER_LENGTH + ?n)"
    by (simp add: bslice_def HEADER_LENGTH_def CHECKSUM_LENGTH_def drop_take add.commute [of offset])
  have plen: "length (drop HEADER_LENGTH ?body) = ?n" using flen by simp
  have "bslice raw offset (offset + HEADER_LENGTH) = bslice raw offset (offset + 2) @ bslice raw (offset + 2) (offset + 4)
      @ bslice raw (offset + 4) (offset + 6) @ bslice raw (offset + 6) (offset + 8)"
    by (simp add: bslice_append_bslice HEADER_LENGTH_def)
  also have "bslice raw (offset + 2) (offset + 4) = pack_u16le (int ?n)"
    using pack_u16le_read [of "offset + 2" raw] len by (simp add: HEADER_LENGTH_def add.commute [of offset] del: add_2_eq_Suc add_2_eq_Suc')
  also have "bslice raw (offset + 4) (offset + 6) = pack_u16le (u16le raw (offset + 4))"
    using pack_u16le_read [of "offset + 4" raw] len by (simp add: HEADER_LENGTH_def add.commute [of offset])
  also have "bslice raw (offset + 6) (offset + 8) = [raw ! (offset + 6), raw ! (offset + 7)]"
    using bslice_2 [of "offset + 6" raw] len by (simp add: HEADER_LENGTH_def add.assoc add.commute [of offset])
  finally have head: "bslice raw offset (offset + HEADER_LENGTH) = PING_START @ pack_u16le (int ?n)
      @ pack_u16le (u16le raw (offset + 4)) @ [raw ! (offset + 6), raw ! (offset + 7)]"
    unfolding start .
  have "?body = bslice raw offset (offset + HEADER_LENGTH + ?n)"
    by (simp add: bslice_def CHECKSUM_LENGTH_def HEADER_LENGTH_def min_def)
  also have "\<dots> = bslice raw offset (offset + HEADER_LENGTH) @ drop HEADER_LENGTH ?body"
    unfolding payload by (simp add: bslice_append_bslice HEADER_LENGTH_def)
  finally have joined: "?body = PING_START @ pack_u16le (int ?n) @ pack_u16le (u16le raw (offset + 4))
      @ [raw ! (offset + 6), raw ! (offset + 7)] @ drop HEADER_LENGTH ?body"
    unfolding head by (simp only: append_assoc)
  have message: "message_of f = \<lparr>pm_id = u16le raw (offset + 4), pm_src = raw ! (offset + 6),
      pm_dst = raw ! (offset + 7), pm_payload = drop HEADER_LENGTH ?body\<rparr>"
    by (simp add: message_of_def f)
  have body: "?body = ping_body (message_of f)"
    unfolding ping_body_def message ping_message.select_convs plen by (rule joined)
  have "?frame = ?body @ bslice ?frame (HEADER_LENGTH + ?n) (HEADER_LENGTH + ?n + 2)"
    using flen bslice_to_end [of ?frame "HEADER_LENGTH + ?n" 2] by (simp only: CHECKSUM_LENGTH_def append_take_drop_id)
  also have "bslice ?frame (HEADER_LENGTH + ?n) (HEADER_LENGTH + ?n + 2) = pack_u16le (ping_sum ?body)"
    unfolding ok [symmetric] using flen by (intro pack_u16le_read [symmetric]) (simp add: CHECKSUM_LENGTH_def)
  finally have "?frame = ping_encode (message_of f)"
    unfolding ping_encode_def body [symmetric] .
  moreover have "ping_encodable (message_of f)"
    using plen u16le_bounds [of raw "offset + 2"]
    by (simp add: ping_encodable_def message nat_less_iff del: length_drop)
  ultimately show ?thesis by (simp add: f)
qed

lemma ping_frame_decodes:
  assumes "ping_encodable m" and "raw = pre @ ping_encode m @ post"
  shows "\<exists>f. ping_frame_at raw (length pre) index = Inr f \<and> message_of f = m \<and>
    pf_stop f = length pre + length (ping_encode m) \<and> pf_message_id f = pm_id m \<and> pf_payload f = pm_payload m"
proof -
  let ?p = "length pre" and ?n = "length (pm_payload m)"
  have shape: "raw = pre @ PING_START @ pack_u16le (int ?n) @ pack_u16le (pm_id m) @ [pm_src m, pm_dst m]
      @ pm_payload m @ pack_u16le (ping_sum (ping_body m)) @ post"
    by (simp add: assms(2) ping_encode_def ping_body_def)
  have two: "length (pre @ PING_START) = ?p + 2" and four: "length (pre @ PING_START @ pack_u16le (int ?n)) = ?p + 4"
    by (simp_all add: PING_START_def)
  have len: "u16le raw (?p + 2) = int ?n"
    using u16le_pack [of "int ?n" "pre @ PING_START"] assms(1) by (simp only: shape append_assoc two) (simp add: ping_encodable_def)
  have mid: "u16le raw (?p + 4) = pm_id m"
    using u16le_pack [of "pm_id m" "pre @ PING_START @ pack_u16le (int ?n)"] assms(1)
    by (simp only: shape append_assoc four) (simp add: ping_encodable_def)
  have ends: "raw ! (?p + 6) = pm_src m" "raw ! (?p + 7) = pm_dst m"
    by (simp_all add: shape PING_START_def pack_u16le_def nth_append)
  have start: "bslice raw ?p (?p + 2) = PING_START"
    by (simp add: shape bslice_def PING_START_def)
  have frame: "bslice raw ?p (?p + HEADER_LENGTH + ?n + CHECKSUM_LENGTH) = ping_encode m"
    by (simp add: assms(2) bslice_def length_ping_encode)
  have body: "take (HEADER_LENGTH + ?n) (ping_encode m) = ping_body m"
    by (simp add: ping_encode_def length_ping_body)
  have "u16le (ping_encode m) (HEADER_LENGTH + ?n) = ping_sum (ping_body m)"
    using u16le_pack [of "ping_sum (ping_body m)" "ping_body m" "[]"] ping_sum_bounds
    by (simp add: ping_encode_def length_ping_body)
  moreover have "drop HEADER_LENGTH (ping_body m) = pm_payload m"
    by (simp add: ping_body_def PING_START_def pack_u16le_def HEADER_LENGTH_def)
  moreover have "?p + HEADER_LENGTH + ?n + CHECKSUM_LENGTH \<le> length raw"
    by (simp add: assms(2) length_ping_encode)
  moreover from this have "HEADER_LENGTH + CHECKSUM_LENGTH \<le> length raw - ?p" by simp
  ultimately show ?thesis
    unfolding ping_frame_at_def Let_def start len mid ends nat_int frame body
    by (simp add: message_of_def length_ping_encode not_less)
qed

lemma ping_select_Inr:
  "(\<exists>x. ping_select t allow index f report = Inr x) \<longleftrightarrow> ping_selectable allow (message_of f)"
  by (auto simp: ping_select_def ping_selectable_def message_of_def not_less split: option.splits)

lemma ping_walk_encoded:
  assumes "raw = pre @ concat (map ping_encode ms)" and "list_all (\<lambda>m. ping_encodable m \<and> ping_selectable allow m) ms"
  shows "\<exists>items. ping_walk t allow raw (length pre) report = (items, None) \<and> map (\<lambda>item. message_of (pi_frame item)) items = ms"
  using assms
proof (induction ms arbitrary: pre report)
  case Nil
  then show ?case by (auto simp: ping_walk.simps)
next
  case (Cons m ms)
  let ?rest = "concat (map ping_encode ms)"
  from ping_frame_decodes [of m raw pre ?rest "pr_frames_read report"] Cons.prems
  obtain f where f: "ping_frame_at raw (length pre) (pr_frames_read report) = Inr f" "message_of f = m"
      "pf_stop f = length (pre @ ping_encode m)" by auto
  obtain r rec where sel: "ping_select t allow (pr_frames_read report) f
      (report\<lparr>pr_frames_read := pr_frames_read report + 1\<rparr>) = Inr (r, rec)"
    using Cons.prems(2) f(2) ping_select_Inr [of t allow "pr_frames_read report" f] by fastforce
  let ?item = "\<lparr>pi_frame = f, pi_report = r, pi_record = rec\<rparr>"
  have step: "ping_step t allow raw (length pre) report = Inr ?item"
    unfolding ping_step_def Let_def f(1) rbind_simps sel prod.case ..
  have "raw = (pre @ ping_encode m) @ ?rest" using Cons.prems(1) by simp
  from Cons.IH [OF this, of r] Cons.prems(2) obtain items where
    "ping_walk t allow raw (length (pre @ ping_encode m)) r = (items, None)"
    "map (\<lambda>item. message_of (pi_frame item)) items = ms" by auto
  moreover have "length pre < length raw" by (simp add: Cons.prems(1) length_ping_encode HEADER_LENGTH_def)
  ultimately show ?case
    using f(2,3) by (subst ping_walk.simps) (simp add: step)
qed

lemma ping_walk_messages:
  assumes "ping_walk t allow raw 0 report = (items, None)"
  shows "raw = concat (map (\<lambda>item. ping_encode (message_of (pi_frame item))) items) \<and>
    list_all (\<lambda>item. ping_encodable (message_of (pi_frame item)) \<and> ping_selectable allow (message_of (pi_frame item))) items"
proof -
  have read: "bslice raw (pf_start (pi_frame item)) (pf_stop (pi_frame item)) = ping_encode (message_of (pi_frame item)) \<and>
      ping_encodable (message_of (pi_frame item)) \<and> ping_selectable allow (message_of (pi_frame item))"
    if "item \<in> set items" for item
  proof -
    from ping_frames.walk_read [of item t allow raw 0 report] that assms
    obtain s where "ping_step t allow raw (pf_start (pi_frame item)) s = Inr item" by auto
    from ping_step_frame [OF this] show ?thesis
      using ping_frame_encodes ping_select_Inr by blast
  qed
  have "concat (map (\<lambda>item. bslice raw (pf_start (pi_frame item)) (pf_stop (pi_frame item))) items) = raw"
    using ping_frames.walk_tiles [of t allow raw 0 report] assms by simp
  then have "raw = concat (map (\<lambda>item. ping_encode (message_of (pi_frame item))) items)"
    using read by (metis (mono_tags, lifting) map_cong)
  with read show ?thesis by (auto simp: list_all_iff)
qed

text \<open>C22. A saved capture decodes to a list of messages exactly when it is not empty, is the
  concatenation of their encoded frames, start bytes, lengths and checksums included, and each
  message is one the reader selects or was told to count.\<close>

theorem ping_decodes_iff:
  "(\<exists>items. decode_frames raw t report allow = (items, None) \<and> map (\<lambda>item. message_of (pi_frame item)) items = ms) \<longleftrightarrow>
    raw \<noteq> [] \<and> raw = concat (map ping_encode ms) \<and> list_all (\<lambda>m. ping_encodable m \<and> ping_selectable allow m) ms"
  (is "?L \<longleftrightarrow> ?R")
proof
  assume ?L
  then obtain items where w: "raw \<noteq> []" "ping_walk t allow raw 0 report = (items, None)"
    and ms: "ms = map (\<lambda>item. message_of (pi_frame item)) items"
    by (auto simp: decode_frames_def split: if_splits)
  from ping_walk_messages [OF w(2)] w(1) show ?R by (auto simp: ms comp_def list_all_iff)
next
  assume ?R
  with ping_walk_encoded [of raw "[]" ms allow t report] show ?L by (auto simp: decode_frames_def)
qed

text \<open>What the conversion counts while it consumes the frames.\<close>

definition ping_counts :: "bool \<Rightarrow> nat \<Rightarrow> ping_report \<times> string list \<Rightarrow> bool" where
  "ping_counts allow n st \<longleftrightarrow> (allow \<or> pr_unselected (fst st) = []) \<and> pr_frames_read (fst st) = n \<and> pr_emitted (fst st) = int (length (snd st)) \<and>
     int n = pr_emitted (fst st) + total (pr_unselected (fst st)) \<and> length (concat (snd st)) \<le> PING_LIMIT"

lemma ping_select_cases:
  assumes "ping_select t allow index f r = Inr (r', rec)"
  shows "rec = None \<and> allow \<and> r' = r\<lparr>pr_unselected := bump (int_text (pf_message_id f)) (pr_unselected r)\<rparr> \<or>
    (\<exists>j. rec = Some j) \<and> r' = r\<lparr>pr_emitted := pr_emitted r + 1\<rparr>"
  using assms by (auto simp: ping_select_def split: option.splits if_splits)

lemma ping_write_counts:
  assumes w: "ping_write st item = Inr st'" and step: "ping_step t allow raw off (fst st) = Inr item"
    and counts: "ping_counts allow n st"
  shows "ping_counts allow (Suc n) st' \<and> fst st' = pi_report item"
  using ping_select_cases [OF ping_step_frame [OF step, THEN conjunct2]]
proof (elim disjE conjE exE)
  assume "pi_record item = None" "allow" and r: "pi_report item = fst st\<lparr>pr_frames_read := pr_frames_read (fst st) + 1\<rparr>
      \<lparr>pr_unselected := bump (int_text (pf_message_id (pi_frame item)))
         (pr_unselected (fst st\<lparr>pr_frames_read := pr_frames_read (fst st) + 1\<rparr>))\<rparr>"
  with w have "st' = (pi_report item, snd st)" by (simp add: ping_write_def)
  with counts r \<open>allow\<close> show ?thesis by (simp add: ping_counts_def)
next
  fix j
  assume "pi_record item = Some j" and r: "pi_report item = fst st\<lparr>pr_frames_read := pr_frames_read (fst st) + 1\<rparr>
      \<lparr>pr_emitted := pr_emitted (fst st\<lparr>pr_frames_read := pr_frames_read (fst st) + 1\<rparr>) + 1\<rparr>"
  with w have "st' = (pi_report item, snd st @ [dumps (sort_keys j) @ [CHR 0x0A]])"
    and "length (concat (snd st')) \<le> PING_LIMIT"
    by (auto simp: ping_write_def Let_def split: if_splits)
  with counts r show ?thesis by (auto simp: ping_counts_def)
qed

lemma ping_run_counts:
  assumes "ping_walk t allow raw off (fst st) = (items, None)" and "run_items ping_write st items = Inr st'"
    and "ping_counts allow n st"
  shows "ping_counts allow (n + length items) st'"
  using assms
proof (induction off "fst st" arbitrary: st items n rule: ping_frames.walk_induct [where raw = raw and t = t and allow = allow])
  case (End off)
  then show ?case by (auto simp: ping_frames.walk_end)
next
  case (Error off e)
  then show ?case by (auto simp: ping_frames.walk_error)
next
  case (Step off item)
  then obtain rest where items: "items = item # rest"
    and rest: "ping_walk t allow raw (pf_stop (pi_frame item)) (pi_report item) = (rest, None)"
    by (cases "ping_walk t allow raw (pf_stop (pi_frame item)) (pi_report item)") (auto simp: ping_frames.walk_step)
  from Step.prems(2) obtain st1 where st1: "ping_write st item = Inr st1" "run_items ping_write st1 rest = Inr st'"
    by (auto simp: items result_simps)
  from ping_write_counts [OF st1(1) Step.hyps(2) Step.prems(3)]
  have one: "ping_counts allow (Suc n) st1" "fst st1 = pi_report item" by auto
  with Step.hyps(6) [of st1 rest "Suc n"] rest st1(2) show ?case by (simp add: items)
qed

text \<open>A converted capture is a sequence of whole frames; every frame read is either emitted as
  one line or counted under its message id, at least one is emitted, and the lines stay within
  the declared bound.\<close>

theorem convert_ping_accounts:
  assumes "convert_ping raw capture_time_us allow = Inr (output, report)"
  shows "\<exists>ms. raw = concat (map ping_encode ms) \<and> pr_frames_read report = length ms \<and>
    int (length ms) = pr_emitted report + total (pr_unselected report) \<and>
    pr_emitted report = int (length output) \<and> output \<noteq> [] \<and>
    (allow \<or> length output = length ms) \<and> length (concat output) \<le> PING_LIMIT"
proof -
  from assms obtain items where w: "ping_walk capture_time_us allow raw 0 ping_new_report = (items, None)"
    and run: "run_items ping_write (ping_new_report, []) items = Inr (report, output)"
    and some: "pr_emitted report \<noteq> 0"
    by (cases "ping_walk capture_time_us allow raw 0 ping_new_report")
      (auto simp: convert_ping_def decode_frames_def result_simps split: if_splits prod.splits)
  have "ping_counts allow 0 (ping_new_report, [])" by (simp add: ping_counts_def ping_new_report_def total_def)
  from ping_run_counts [OF _ run this, of capture_time_us raw 0] w
  have counts: "ping_counts allow (length items) (report, output)" by simp
  let ?ms = "map (\<lambda>item. message_of (pi_frame item)) items"
  note messages = ping_walk_messages [OF w]
  from counts have "\<not> allow \<Longrightarrow> length output = length ?ms" by (auto simp: ping_counts_def total_def)
  moreover have "output \<noteq> []" using counts some by (auto simp: ping_counts_def)
  ultimately show ?thesis
    using counts messages by (intro exI [of _ ?ms]) (auto simp: ping_counts_def comp_def)
qed

definition ping_sample :: bytes where
  "ping_sample = [0x42, 0x52, 0x06, 0x00, 0xBB, 0x04, 0x01, 0x00, 0xE8, 0x03, 0x00, 0x00, 0x63, 0x2A, 0xD2, 0x02]"

lemmas ping_eval = ping_walk.simps ping_step_def ping_frame_at_def ping_select_def Let_def PING_START_def
  HEADER_LENGTH_def CHECKSUM_LENGTH_def SELECTED_def ping_sum_def ping_new_report_def
  u16le_def bslice_def bval_def

lemma ping_sample_items:
  "\<exists>item j. decode_frames ping_sample 7 ping_new_report False = ([item], None) \<and> pi_record item = Some j \<and>
    pr_emitted (pi_report item) = 1 \<and> json_size (sort_keys j) \<le> 5000"
  by (simp add: decode_frames_def ping_sample_def ping_eval ping_record_def PROTOCOL_COMMIT_def json_size_eval
      sha256_hex_def)

lemma ping_sample_converts: "\<exists>output report. convert_ping ping_sample 7 False = Inr (output, report)"
proof -
  obtain item j where d: "decode_frames ping_sample 7 ping_new_report False = ([item], None)"
    and j: "pi_record item = Some j" "pr_emitted (pi_report item) = 1" "json_size (sort_keys j) \<le> 5000"
    using ping_sample_items by blast
  from dumps_size [of "sort_keys j"] j(3) have "length (dumps (sort_keys j)) < PING_LIMIT" by (simp add: PING_LIMIT_def)
  with j have "run_gen ping_write (ping_new_report, []) ([item], None) = Inr (pi_report item, [dumps (sort_keys j) @ [CHR 0x0A]])"
    by (simp add: run_gen_def ping_write_def)
  moreover have "length ping_sample \<le> PING_LIMIT" by (simp add: ping_sample_def PING_LIMIT_def)
  ultimately show ?thesis by (simp add: convert_ping_def d j(2))
qed

theorem convert_ping_accounts_witness:
  "\<exists>lines report. convert_ping ping_sample 7 False = Inr (lines, report) \<and> pr_frames_read report = length lines"
proof -
  obtain lines report where c: "convert_ping ping_sample 7 False = Inr (lines, report)"
    using ping_sample_converts by blast
  from convert_ping_accounts [OF c] have "pr_frames_read report = length lines" by auto
  with c show ?thesis by blast
qed

end
