(* ===== verification/Py_Csv.thy ===== *)
theory Py_Csv
  imports Py_Text
begin

text \<open>
  Reading text: \<^verbatim>\<open>csv.reader\<close> and \<^verbatim>\<open>csv.DictReader\<close> over \<^verbatim>\<open>io.StringIO(text)\<close> with the default
  dialect, the digit and hex texts the converters accept, and \<^verbatim>\<open>json.dumps\<close> with
  \<^verbatim>\<open>ensure_ascii=False\<close>. A Python string that was decoded from UTF-8 is represented by its UTF-8
  bytes; all the characters the reader distinguishes are ASCII.
\<close>

section \<open>Lines and lengths\<close>

fun text_lines :: "string \<Rightarrow> string list" where
  "text_lines [] = []"
| "text_lines (c # cs) =
     (if c = CHR 0x0A then [c] # text_lines cs
      else case text_lines cs of [] \<Rightarrow> [[c]] | l # ls \<Rightarrow> (c # l) # ls)"

text \<open>\<^verbatim>\<open>len(s)\<close> counts code points: the bytes that do not continue a sequence.\<close>

definition leads :: "char \<Rightarrow> bool" where
  "leads c \<longleftrightarrow> (of_char c :: nat) div 64 \<noteq> 2"

definition str_len :: "string \<Rightarrow> nat" where
  "str_len s = length (filter leads s)"

section \<open>The reader\<close>

datatype csv_mode = Start_Record | Start_Field | In_Field | In_Quoted | Quote_In_Quoted | Eat_Crnl

record csv_parser =
  cp_mode :: csv_mode
  cp_field :: string
  cp_fields :: "string list"

definition csv_reset :: csv_parser where
  "csv_reset = \<lparr>cp_mode = Start_Record, cp_field = [], cp_fields = []\<rparr>"

definition FIELD_SIZE_LIMIT :: nat where "FIELD_SIZE_LIMIT = 131072"

definition csv_add :: "csv_parser \<Rightarrow> char \<Rightarrow> csv_mode \<Rightarrow> csv_parser result" where
  "csv_add p c mode =
     (if leads c \<and> FIELD_SIZE_LIMIT \<le> str_len (cp_field p) then Inl CsvError
      else Inr (p\<lparr>cp_field := cp_field p @ [c], cp_mode := mode\<rparr>))"

definition csv_save :: "csv_parser \<Rightarrow> csv_mode \<Rightarrow> csv_parser" where
  "csv_save p mode = p\<lparr>cp_fields := cp_fields p @ [cp_field p], cp_field := [], cp_mode := mode\<rparr>"

definition newline :: "char \<Rightarrow> bool" where
  "newline c \<longleftrightarrow> c = CHR 0x0A \<or> c = CHR 0x0D"

definition start_field :: "csv_parser \<Rightarrow> char \<Rightarrow> csv_parser result" where
  "start_field p c =
     (if newline c then Inr (csv_save p Eat_Crnl)
      else if c = CHR 0x22 then Inr (p\<lparr>cp_mode := In_Quoted\<rparr>)
      else if c = CHR 0x2C then Inr (csv_save p Start_Field)
      else csv_add p c In_Field)"

definition csv_char :: "bool \<Rightarrow> csv_parser \<Rightarrow> char \<Rightarrow> csv_parser result" where
  "csv_char strict p c =
     (case cp_mode p of
        Start_Record \<Rightarrow> if newline c then Inr (p\<lparr>cp_mode := Eat_Crnl\<rparr>) else start_field p c
      | Start_Field \<Rightarrow> start_field p c
      | In_Field \<Rightarrow>
          if newline c then Inr (csv_save p Eat_Crnl)
          else if c = CHR 0x2C then Inr (csv_save p Start_Field)
          else csv_add p c In_Field
      | In_Quoted \<Rightarrow>
          if c = CHR 0x22 then Inr (p\<lparr>cp_mode := Quote_In_Quoted\<rparr>) else csv_add p c In_Quoted
      | Quote_In_Quoted \<Rightarrow>
          if c = CHR 0x22 then csv_add p c In_Quoted
          else if c = CHR 0x2C then Inr (csv_save p Start_Field)
          else if newline c then Inr (csv_save p Eat_Crnl)
          else if strict then Inl CsvError else csv_add p c In_Field
      | Eat_Crnl \<Rightarrow> if newline c then Inr p else Inl CsvError)"

text \<open>The end of a line, which the reader signals after its last character.\<close>

definition csv_eol :: "csv_parser \<Rightarrow> csv_parser" where
  "csv_eol p =
     (case cp_mode p of
        Start_Record \<Rightarrow> p
      | Eat_Crnl \<Rightarrow> p\<lparr>cp_mode := Start_Record\<rparr>
      | In_Quoted \<Rightarrow> p
      | _ \<Rightarrow> csv_save p Start_Record)"

definition csv_line_in :: "bool \<Rightarrow> csv_parser \<Rightarrow> string \<Rightarrow> csv_parser result" where
  "csv_line_in strict p line = rbind (run_items (csv_char strict) p line) (\<lambda>p'. Inr (csv_eol p'))"

fun csv_rows :: "bool \<Rightarrow> csv_parser \<Rightarrow> string list \<Rightarrow> string list gen" where
  "csv_rows strict p [] =
     (if cp_field p \<noteq> [] \<or> cp_mode p = In_Quoted
      then if strict then ([], Some CsvError) else ([cp_fields p @ [cp_field p]], None)
      else ([], None))"
| "csv_rows strict p (line # rest) =
     (case csv_line_in strict p line of
        Inl e \<Rightarrow> ([], Some e)
      | Inr p' \<Rightarrow>
          if cp_mode p' = Start_Record then yield_then (cp_fields p') (csv_rows strict csv_reset rest)
          else csv_rows strict p' rest)"

definition csv_reader :: "bool \<Rightarrow> string \<Rightarrow> string list gen" where
  "csv_reader strict s = csv_rows strict csv_reset (text_lines s)"

text \<open>
  \<^verbatim>\<open>csv.DictReader\<close>: the first row names the columns (\<^verbatim>\<open>None\<close> when there is none); blank rows after it
  are skipped. A record is its fields; it fits the columns when none is missing or left over.
\<close>

definition dict_fieldnames :: "string list gen \<Rightarrow> string list option result" where
  "dict_fieldnames g =
     (case g of (h # _, _) \<Rightarrow> Inr (Some h) | ([], None) \<Rightarrow> Inr None | ([], Some e) \<Rightarrow> Inl e)"

definition dict_records :: "string list gen \<Rightarrow> string list gen" where
  "dict_records g = (filter (\<lambda>r. r \<noteq> []) (tl (fst g)), snd g)"

type_synonym text_row = "(string \<times> string) list"

definition text_row :: "string list \<Rightarrow> string list \<Rightarrow> text_row" where
  "text_row names fs = zip names fs"

definition text_get :: "text_row \<Rightarrow> string \<Rightarrow> string" where
  "text_get r k = (case map_of r k of None \<Rightarrow> [] | Some s \<Rightarrow> s)"

section \<open>Numbers and hex\<close>

definition is_digit :: "char \<Rightarrow> bool" where
  "is_digit c \<longleftrightarrow> CHR 0x30 \<le> c \<and> c \<le> CHR 0x39"

definition digits_text :: "nat \<Rightarrow> nat \<Rightarrow> string \<Rightarrow> bool" where
  "digits_text a b s \<longleftrightarrow> a \<le> length s \<and> length s \<le> b \<and> list_all is_digit s"

definition decimal_value :: "string \<Rightarrow> int" where
  "decimal_value s = foldl (\<lambda>n c. n * 10 + (int (of_char c) - 48)) 0 s"

definition hex_value :: "char \<Rightarrow> nat option" where
  "hex_value c =
     (if is_digit c then Some (of_char c - 48)
      else if CHR 0x61 \<le> c \<and> c \<le> CHR 0x66 then Some (of_char c - 87)
      else if CHR 0x41 \<le> c \<and> c \<le> CHR 0x46 then Some (of_char c - 55) else None)"

text \<open>\<^verbatim>\<open>re.fullmatch("(?:[0-9a-fA-F]{2}){a,b}", s)\<close> and \<^verbatim>\<open>bytes.fromhex(s)\<close> on such a text.\<close>

definition hex_text :: "nat \<Rightarrow> nat \<Rightarrow> string \<Rightarrow> bool" where
  "hex_text a b s \<longleftrightarrow> even (length s) \<and> 2 * a \<le> length s \<and> length s \<le> 2 * b \<and>
     list_all (\<lambda>c. hex_value c \<noteq> None) s"

fun from_hex :: "string \<Rightarrow> bytes" where
  "from_hex (a # b # s) =
     (case (hex_value a, hex_value b) of
        (Some x, Some y) \<Rightarrow> word_of_nat (16 * x + y) # from_hex s
      | _ \<Rightarrow> [])"
| "from_hex _ = []"

text \<open>Reading back the hex text of bytes.\<close>

lemma hex_value_digit: "n < 16 \<Longrightarrow> hex_value (hex_digit n) = Some n"
proof -
  have "list_all (\<lambda>n. hex_value (hex_digit n) = Some n) [0..<16]"
    by (simp add: upt_rec hex_digit_def hex_value_def is_digit_def char_of_def bit_0)
  then show "n < 16 \<Longrightarrow> hex_value (hex_digit n) = Some n" by (auto simp: list_all_iff)
qed

lemma byte_halves: "unat (b :: byte) div 16 < 16" "unat b mod 16 < 16" "16 * (unat b div 16) + unat b mod 16 = unat b"
proof -
  have "unat b < 256" by (rule order_less_le_trans [OF unsigned_less]) simp
  then show "unat b div 16 < 16" by (simp add: less_mult_imp_div_less)
qed simp_all

lemma from_hex_hex_of: "from_hex (hex_of bs) = bs"
  by (induction bs) (simp_all add: hex_byte_def hex_value_digit byte_halves)

lemma hex_text_hex_of: "hex_text a b (hex_of bs) \<longleftrightarrow> a \<le> length bs \<and> length bs \<le> b"
proof -
  have "list_all (\<lambda>c. hex_value c \<noteq> None) (hex_of bs)"
    by (induction bs) (simp_all add: hex_byte_def hex_value_digit byte_halves)
  then show ?thesis by (simp add: hex_text_def)
qed

section \<open>JSON with \<^verbatim>\<open>ensure_ascii=False\<close>\<close>

definition json_raw_char :: "char \<Rightarrow> string" where
  "json_raw_char c =
     (if c = CHR 0x22 \<or> c = CHR 0x5C \<or> (of_char c :: nat) < 32 then json_char (of_char c) else [c])"

definition json_raw_string :: "string \<Rightarrow> string" where
  "json_raw_string s = CHR 0x22 # concat (map json_raw_char s) @ [CHR 0x22]"

text \<open>A dictionary of texts, with the given separators.\<close>

definition dumps_texts :: "string \<Rightarrow> string \<Rightarrow> text_row \<Rightarrow> string" where
  "dumps_texts isep ksep r =
     CHR 0x7B # join_with isep (map (\<lambda>kv. json_raw_string (fst kv) @ ksep @ json_raw_string (snd kv)) r) @ [CHR 0x7D]"

text \<open>\<^verbatim>\<open>json.dumps(value, indent=2)\<close>; the number is the depth of the value.\<close>

definition new_line :: "nat \<Rightarrow> string" where
  "new_line depth = CHR 0x0A # replicate (2 * depth) CHR 0x20"

fun dumps_indent :: "nat \<Rightarrow> json \<Rightarrow> string" where
  "dumps_indent depth (JArr js) =
     (if js = [] then ''[]''
      else ''['' @ new_line (Suc depth) @ join_with ('','' @ new_line (Suc depth)) (map (dumps_indent (Suc depth)) js)
        @ new_line depth @ '']'')"
| "dumps_indent depth (JObj kvs) =
     (if kvs = [] then [CHR 0x7B, CHR 0x7D]
      else CHR 0x7B # new_line (Suc depth) @ join_with ('','' @ new_line (Suc depth))
        (map (\<lambda>kv. json_string (map of_char (fst kv)) @ '': '' @ dumps_indent (Suc depth) (snd kv)) kvs)
        @ new_line depth @ [CHR 0x7D])"
| "dumps_indent depth j = dumps j"

text \<open>A bound on such a text.\<close>

fun indent_size :: "nat \<Rightarrow> json \<Rightarrow> nat" where
  "indent_size d (JArr js) = sum_list (map (\<lambda>j. indent_size (Suc d) j + 2 * d + 4) js) + 4 * d + 6"
| "indent_size d (JObj kvs) =
     sum_list (map (\<lambda>kv. 12 * length (fst kv) + indent_size (Suc d) (snd kv) + 2 * d + 8) kvs) + 4 * d + 6"
| "indent_size d j = json_size j"

lemma length_new_line: "length (new_line d) = 2 * d + 1"
  by (simp add: new_line_def)

lemma dumps_indent_size: "length (dumps_indent d j) \<le> indent_size d j"
proof (induction d j rule: dumps_indent.induct)
  case (1 d js)
  let ?sep = "'','' @ new_line (Suc d)"
  have "sum_list (map (\<lambda>x. length x + length ?sep) (map (dumps_indent (Suc d)) js))
      \<le> sum_list (map (\<lambda>j. indent_size (Suc d) j + 2 * d + 4) js)" if "js \<noteq> []"
    unfolding map_map by (rule sum_list_mono) (use 1 that in \<open>auto simp: length_new_line\<close>)
  with length_join [of ?sep "map (dumps_indent (Suc d)) js"] show ?case by (auto simp: length_new_line)
next
  case (2 d kvs)
  let ?sep = "'','' @ new_line (Suc d)"
  let ?f = "\<lambda>kv. json_string (map of_char (fst kv)) @ '': '' @ dumps_indent (Suc d) (snd kv)"
  have "length (?f kv) + length ?sep \<le> 12 * length (fst kv) + indent_size (Suc d) (snd kv) + 2 * d + 8"
    if "kv \<in> set kvs" for kv
    using 2 [OF _ that] that json_string_size [of "map of_char (fst kv)"] by (cases kvs) (auto simp: length_new_line)
  then have "sum_list (map (\<lambda>x. length x + length ?sep) (map ?f kvs))
      \<le> sum_list (map (\<lambda>kv. 12 * length (fst kv) + indent_size (Suc d) (snd kv) + 2 * d + 8) kvs)"
    unfolding map_map comp_def by (rule sum_list_mono)
  with length_join [of ?sep "map ?f kvs"] show ?case by (auto simp: length_new_line)
qed (simp_all add: dumps_size del: json_size.simps)

definition utf8 :: "string \<Rightarrow> bytes" where
  "utf8 s = map (\<lambda>c. word_of_nat (of_char c)) s"

section \<open>What a table of rows reads as\<close>

text \<open>A field that needs no quotes and fits the reader's limit.\<close>

definition plain_field :: "string \<Rightarrow> bool" where
  "plain_field s \<longleftrightarrow> (\<forall>c \<in> set s. \<not> csv_special c) \<and> str_len s \<le> FIELD_SIZE_LIMIT"

definition plain_row :: "string list \<Rightarrow> bool" where
  "plain_row fs \<longleftrightarrow> fs \<noteq> [] \<and> fs \<noteq> [[]] \<and> list_all plain_field fs"

abbreviation open_modes :: "csv_mode set" where
  "open_modes \<equiv> {Start_Record, Start_Field, In_Field}"

lemma str_len_simps [simp]:
  "str_len [] = 0" "str_len (c # s) = (if leads c then Suc (str_len s) else str_len s)"
  "str_len (s @ t) = str_len s + str_len t"
  by (simp_all add: str_len_def)

lemma str_len_le: "str_len s \<le> length s"
  by (simp add: str_len_def)

lemma csv_char_plain:
  assumes "\<not> csv_special c" and "cp_mode p \<in> open_modes" and "leads c \<longrightarrow> str_len (cp_field p) < FIELD_SIZE_LIMIT"
  shows "csv_char strict p c = Inr (p\<lparr>cp_field := cp_field p @ [c], cp_mode := In_Field\<rparr>)"
  using assms by (auto simp: csv_char_def start_field_def csv_add_def newline_def csv_special_def split: csv_mode.split)

lemma csv_char_comma:
  "cp_mode p \<in> open_modes \<Longrightarrow> csv_char strict p (CHR 0x2C) = Inr (csv_save p Start_Field)"
  by (auto simp: csv_char_def start_field_def newline_def split: csv_mode.split)

lemma csv_char_newline:
  "cp_mode p \<in> {Start_Field, In_Field} \<Longrightarrow> csv_char strict p (CHR 0x0A) = Inr (csv_save p Eat_Crnl)"
  by (auto simp: csv_char_def start_field_def newline_def split: csv_mode.split)

lemma csv_plain_run:
  assumes "\<forall>c \<in> set s. \<not> csv_special c" and "cp_mode p \<in> open_modes"
    and "str_len (cp_field p) + str_len s \<le> FIELD_SIZE_LIMIT"
  shows "run_items (csv_char strict) p s =
    Inr (if s = [] then p else p\<lparr>cp_field := cp_field p @ s, cp_mode := In_Field\<rparr>)"
  using assms
proof (induction s arbitrary: p)
  case (Cons c s)
  then have "csv_char strict p c = Inr (p\<lparr>cp_field := cp_field p @ [c], cp_mode := In_Field\<rparr>)"
    by (intro csv_char_plain) auto
  moreover have "run_items (csv_char strict) (p\<lparr>cp_field := cp_field p @ [c], cp_mode := In_Field\<rparr>) s =
      Inr (if s = [] then p\<lparr>cp_field := cp_field p @ [c], cp_mode := In_Field\<rparr>
           else p\<lparr>cp_field := cp_field p @ [c], cp_mode := In_Field\<rparr>\<lparr>cp_field := (cp_field p @ [c]) @ s, cp_mode := In_Field\<rparr>)"
    using Cons.prems Cons.IH [of "p\<lparr>cp_field := cp_field p @ [c], cp_mode := In_Field\<rparr>"] by (auto split: if_splits)
  ultimately show ?case by simp
qed simp

lemma csv_row_run:
  assumes "list_all plain_field fs" "fs \<noteq> []" "cp_field p = []"
    and "cp_mode p = Start_Field \<or> cp_mode p = Start_Record \<and> fs \<noteq> [[]]"
  shows "run_items (csv_char strict) p (join_with '','' fs @ [CHR 0x0A]) =
    Inr \<lparr>cp_mode = Eat_Crnl, cp_field = [], cp_fields = cp_fields p @ fs\<rparr>"
  using assms
proof (induction fs arbitrary: p rule: induct_list012)
  case (2 x)
  then have "run_items (csv_char strict) p x =
      Inr (if x = [] then p else p\<lparr>cp_field := cp_field p @ x, cp_mode := In_Field\<rparr>)"
    by (intro csv_plain_run) (auto simp: plain_field_def)
  with 2 show ?case by (auto simp: run_items_append csv_char_newline csv_save_def)
next
  case (3 x y zs)
  then have "run_items (csv_char strict) p x =
      Inr (if x = [] then p else p\<lparr>cp_field := cp_field p @ x, cp_mode := In_Field\<rparr>)"
    by (intro csv_plain_run) (auto simp: plain_field_def)
  moreover from 3 have "run_items (csv_char strict) \<lparr>cp_mode = Start_Field, cp_field = [], cp_fields = cp_fields p @ [x]\<rparr>
      (join_with '','' (y # zs) @ [CHR 0x0A]) = Inr \<lparr>cp_mode = Eat_Crnl, cp_field = [], cp_fields = (cp_fields p @ [x]) @ y # zs\<rparr>"
    using "3.IH"(2) [of "\<lparr>cp_mode = Start_Field, cp_field = [], cp_fields = cp_fields p @ [x]\<rparr>"] by simp
  ultimately show ?case
    using 3 by (auto simp: run_items_append csv_char_comma csv_save_def)
qed simp

lemma text_lines_line: "CHR 0x0A \<notin> set l \<Longrightarrow> text_lines (l @ CHR 0x0A # s) = (l @ [CHR 0x0A]) # text_lines s"
  by (induction l) auto

lemma csv_line_plain: "plain_row fs \<Longrightarrow> csv_line fs = join_with '','' fs @ [CHR 0x0A]"
proof -
  assume row: "plain_row fs"
  then have "map csv_field fs = fs"
    by (intro map_idI csv_field_plain) (auto simp: plain_row_def plain_field_def list_all_iff)
  with row show ?thesis by (simp add: csv_line_def plain_row_def)
qed

lemma plain_line_once: "list_all plain_field fs \<Longrightarrow> CHR 0x0A \<notin> set (join_with '','' fs)"
  by (induction "'',''" fs rule: join_with.induct) (auto simp: plain_field_def csv_special_def)

text \<open>Rows that need no quotes are read back as they were written.\<close>

lemma csv_reader_plain:
  "list_all plain_row rows \<Longrightarrow> csv_reader strict (concat (map csv_line rows)) = (rows, None)"
proof (induction rows)
  case Nil
  then show ?case by (simp add: csv_reader_def csv_reset_def)
next
  case (Cons fs rows)
  then have row: "plain_row fs" by simp
  have "run_items (csv_char strict) csv_reset (join_with '','' fs @ [CHR 0x0A]) =
      Inr \<lparr>cp_mode = Eat_Crnl, cp_field = [], cp_fields = fs\<rparr>"
    using row csv_row_run [of fs csv_reset strict] by (simp add: plain_row_def csv_reset_def)
  then have line: "csv_line_in strict csv_reset (join_with '','' fs @ [CHR 0x0A]) =
      Inr \<lparr>cp_mode = Start_Record, cp_field = [], cp_fields = fs\<rparr>"
    by (simp add: csv_line_in_def csv_eol_def)
  have "text_lines (csv_line fs @ concat (map csv_line rows)) =
      (join_with '','' fs @ [CHR 0x0A]) # text_lines (concat (map csv_line rows))"
    using text_lines_line [OF plain_line_once] row by (simp add: csv_line_plain plain_row_def)
  with Cons line show ?case by (simp add: csv_reader_def yield_then_def prod_eq_iff)
qed

lemma plain_field_small: "list_all (\<lambda>c. \<not> csv_special c) s \<Longrightarrow> length s \<le> FIELD_SIZE_LIMIT \<Longrightarrow> plain_field s"
  using str_len_le [of s] by (simp add: plain_field_def list_all_iff)

lemmas plain_row_eval = plain_row_def plain_field_small csv_special_def FIELD_SIZE_LIMIT_def

end
