(* ===== verification/Crsf_Frames.thy ===== *)
theory Crsf_Frames
  imports Py_Csv
begin

unbundle bit_operations_syntax

text \<open>
  The frames of \<^verbatim>\<open>scripts/convert_crsf_link.py\<close>: the selectable quantities, the checks a complete
  frame passes, and the cells each quantity is decoded to.
\<close>

section \<open>Constants\<close>

definition CRSF_LIMIT :: nat where "CRSF_LIMIT = 16 * 1024 * 1024"

definition LINK_FIELDS :: "string list" where
  "LINK_FIELDS = [''uplink_rssi_1_dbm'', ''uplink_rssi_2_dbm'', ''uplink_lq_fraction'',
     ''uplink_snr_db'', ''active_antenna'', ''rf_mode_code'', ''tx_power_code'',
     ''downlink_rssi_dbm'', ''downlink_lq_fraction'', ''downlink_snr_db'']"

definition ATTITUDE_FIELDS :: "string list" where
  "ATTITUDE_FIELDS = [''reported_pitch_rad'', ''reported_roll_rad'', ''reported_yaw_rad'']"

definition DIRECTIONAL_FIELDS :: "string list" where
  "DIRECTIONAL_FIELDS = [''reported_link_side'', ''reported_rssi_dbm'', ''reported_rssi_fraction'',
     ''reported_lq_fraction'', ''reported_snr_db'', ''reported_rf_power_dbm'',
     ''reported_rf_frames_per_second'']"

definition BATTERY_FIELDS :: "string list" where
  "BATTERY_FIELDS = [''battery_voltage_v'', ''battery_average_cell_voltage_v'', ''battery_current_a'',
     ''battery_consumed_charge_c'', ''battery_remaining_reported_ratio'', ''battery_wire_basis'']"

definition SPORT_FIELDS :: "string list" where
  "SPORT_FIELDS = [''battery_voltage_v'', ''battery_current_a'', ''sport_physical_id_reported'',
     ''sport_application_id'', ''sport_value_basis'']"

definition DISPLAY_FIELDS :: "string list" where
  "DISPLAY_FIELDS = [''display_operation_reported'', ''display_row'', ''display_column'', ''display_font_bank'',
     ''display_blink_reported'', ''display_glyph_bytes_hex'', ''display_glyph_count'']"

definition CHANNEL_KIND :: string where "CHANNEL_KIND = ''channels-elrs-a60b68af-16ch''"

definition two_digits :: "nat \<Rightarrow> string" where
  "two_digits n = (if n < 10 then CHR ''0'' # nat_digits n else nat_digits n)"

definition CHANNEL_FIELDS :: "string list" where
  "CHANNEL_FIELDS = map (\<lambda>i. ''rc_channel_'' @ two_digits i @ ''_ticks'') [1..<17]
     @ map (\<lambda>i. ''rc_channel_'' @ two_digits i @ ''_nominal_us'') [1..<17]
     @ [''rc_channel_configuration_basis'', ''rc_channel_value_basis'']"

definition ELRS_RATES :: "(int \<times> string) list" where
  "ELRS_RATES =
     zip [0..11] [''RATE_LORA_900_25HZ'', ''RATE_LORA_900_50HZ'', ''RATE_LORA_900_100HZ'', ''RATE_LORA_900_100HZ_8CH'',
       ''RATE_LORA_900_150HZ'', ''RATE_LORA_900_200HZ'', ''RATE_LORA_900_200HZ_8CH'', ''RATE_LORA_900_250HZ'',
       ''RATE_LORA_900_333HZ_8CH'', ''RATE_LORA_900_500HZ'', ''RATE_LORA_900_50HZ_DVDA'', ''RATE_FSK_900_1000HZ_8CH'']
     @ zip [20..36] [''RATE_LORA_2G4_25HZ'', ''RATE_LORA_2G4_50HZ'', ''RATE_LORA_2G4_100HZ'', ''RATE_LORA_2G4_100HZ_8CH'',
       ''RATE_LORA_2G4_150HZ'', ''RATE_LORA_2G4_200HZ'', ''RATE_LORA_2G4_200HZ_8CH'', ''RATE_LORA_2G4_250HZ'',
       ''RATE_LORA_2G4_333HZ_8CH'', ''RATE_LORA_2G4_500HZ'', ''RATE_FLRC_2G4_250HZ_DVDA'',
       ''RATE_FLRC_2G4_500HZ_DVDA'', ''RATE_FLRC_2G4_500HZ'', ''RATE_FLRC_2G4_1000HZ'',
       ''RATE_FSK_2G4_250HZ_DVDA'', ''RATE_FSK_2G4_500HZ_DVDA'', ''RATE_FSK_2G4_1000HZ'']
     @ [(100, ''RATE_LORA_DUAL_100HZ_8CH''), (101, ''RATE_LORA_DUAL_150HZ'')]"

definition ELRS_POWER_MW :: "(int \<times> int) list" where
  "ELRS_POWER_MW = [(1, 10), (2, 25), (3, 100), (4, 500), (5, 1000), (6, 2000), (7, 250), (8, 50)]"

definition ELRS_CODE_FIELDS :: "string list" where
  "ELRS_CODE_FIELDS = [''reported_rf_mode_enum'', ''reported_tx_power_level_mw'',
     ''reported_tx_power_code_status'', ''elrs_code_basis'']"

definition KINDS :: "string list" where
  "KINDS = [''link'', ''attitude'', ''link-rx'', ''link-tx'', ''msp-attitude-bf452'', ''msp-displayport-bf452'',
     ''sport-electrical-fb8622dd'', CHANNEL_KIND]
     @ concat (map (\<lambda>version. map (\<lambda>source. ''battery-'' @ version @ ''-'' @ source) [''pack'', ''cell''])
         [''bf443'', ''bf450'', ''bf451'', ''bf452''])"

section \<open>The selected quantity\<close>

definition is_battery :: "string \<Rightarrow> bool" where "is_battery kind \<longleftrightarrow> take 8 kind = ''battery-''"
definition is_display :: "string \<Rightarrow> bool" where "is_display kind \<longleftrightarrow> kind = ''msp-displayport-bf452''"
definition is_msp :: "string \<Rightarrow> bool" where
  "is_msp kind \<longleftrightarrow> kind \<in> {''msp-attitude-bf452'', ''msp-displayport-bf452''}"
definition is_sport :: "string \<Rightarrow> bool" where "is_sport kind \<longleftrightarrow> kind = ''sport-electrical-fb8622dd''"
definition is_channels :: "string \<Rightarrow> bool" where "is_channels kind \<longleftrightarrow> kind = CHANNEL_KIND"

definition selected_type :: "string \<Rightarrow> int" where
  "selected_type kind =
     (if is_channels kind then 0x16 else if is_sport kind then 1 else if is_display kind then 182
      else if is_msp kind then 108 else if is_battery kind then 0x08
      else if kind = ''link'' then 0x14 else if kind = ''attitude'' then 0x1E
      else if kind = ''link-rx'' then 0x1C else 0x1D)"

definition crsf_fields :: "string \<Rightarrow> bool \<Rightarrow> bool \<Rightarrow> string list" where
  "crsf_fields kind compare codes =
     (if is_channels kind then CHANNEL_FIELDS else if is_display kind then DISPLAY_FIELDS
      else if is_sport kind then SPORT_FIELDS else if is_battery kind then BATTERY_FIELDS
      else (if kind = ''link'' then LINK_FIELDS else if kind = ''attitude'' \<or> is_msp kind then ATTITUDE_FIELDS
            else DIRECTIONAL_FIELDS)
        @ (if compare then [''reported_antenna_1_minus_2_db'', ''antenna_comparison_basis''] else [])
        @ (if codes then ELRS_CODE_FIELDS else [])
        @ (if is_msp kind then [''attitude_wire_basis''] else []))"

section \<open>Frame checks\<close>

definition crc8_bit :: "byte \<Rightarrow> byte" where
  "crc8_bit v = push_bit 1 v XOR (if v AND 0x80 \<noteq> 0 then 0xD5 else 0)"

definition crc8_byte :: "byte \<Rightarrow> byte \<Rightarrow> byte" where
  "crc8_byte v b = (crc8_bit ^^ 8) (v XOR b)"

definition crc8 :: "bytes \<Rightarrow> byte" where
  "crc8 bs = foldl crc8_byte 0 bs"

lemma crc8_byte_unrolled:
  "crc8_byte v b = crc8_bit (crc8_bit (crc8_bit (crc8_bit (crc8_bit (crc8_bit (crc8_bit (crc8_bit (v XOR b))))))))"
  by (simp add: crc8_byte_def eval_nat_numeral)

lemmas crc8_eval = crc8_def crc8_byte_unrolled crc8_bit_def

definition sport_sum :: "bytes \<Rightarrow> int" where
  "sport_sum bs = foldl (\<lambda>c b. let c' = c + bval b in (c' + drop_bit 8 c') AND 0xFF) 0 bs"

definition sport_application :: "bytes \<Rightarrow> int" where
  "sport_application frame = le_int (bslice frame 2 4)"

definition xor_bytes :: "bytes \<Rightarrow> byte" where
  "xor_bytes bs = foldl (XOR) 0 bs"

text \<open>The checks on one complete frame, and the message type it carries.\<close>

definition message_type :: "string \<Rightarrow> bytes \<Rightarrow> int result" where
  "message_type kind frame =
     (if is_sport kind then
        if length frame \<noteq> 9 then fail ''S.Port requires nine unstuffed receiver packet bytes''
        else if sport_sum (drop 1 frame) \<noteq> 0xFF then fail ''S.Port checksum mismatch''
        else Inr (if frame ! 1 = 0x10 \<and> 0x0200 \<le> sport_application frame \<and> sport_application frame \<le> 0x021F
                  then 1 else 0)
      else if is_msp kind then
        if take 3 frame \<noteq> [0x24, 0x4D, 0x3E] \<or> frame ! 3 = 255 \<or> bval (frame ! 3) \<noteq> int (length frame) - 6 \<or>
           xor_bytes (drop 3 frame) \<noteq> 0
        then fail ''MSPv1 reply direction, length or checksum mismatch'' else Inr (bval (frame ! 4))
      else if bval (frame ! 1) \<noteq> int (length frame) - 2 \<or> crc8 (bslice frame 2 (length frame - 1)) \<noteq> last frame
      then fail ''CRSF frame length or CRC mismatch'' else Inr (bval (frame ! 2)))"

section \<open>Decoded values\<close>

definition sbyte :: "byte \<Rightarrow> int" where
  "sbyte b = sint b"

definition le_sint :: "bytes \<Rightarrow> int" where
  "le_sint bs = (let n = le_int bs in if 2 * n \<ge> 256 ^ length bs then n - 256 ^ length bs else n)"

text \<open>
  Channels: sixteen 11-bit little-endian ticks, and the integer mapping to microseconds, whose
  division truncates toward zero.
\<close>

definition channel_ticks :: "bytes \<Rightarrow> int list" where
  "channel_ticks payload = map (\<lambda>index. drop_bit (11 * index) (le_int payload) AND 2047) [0..<16]"

definition nominal_us :: "int \<Rightarrow> int" where
  "nominal_us tick =
     (let numerator = (tick - 172) * (2012 - 988) * 2;
          scaled = (\<bar>numerator\<bar> div (1811 - 172)) * (if numerator < 0 then - 1 else 1)
      in max 0 (min 65535 ((scaled + 988 * 2 + 1) div 2)))"

definition channel_values :: "bytes \<Rightarrow> cell list result" where
  "channel_values frame =
     (if length frame \<noteq> 26 then fail ''selected ELRS channels require exactly 22 payload bytes''
      else let ticks = channel_ticks (bslice frame 3 (length frame - 1)) in
        Inr (map CInt ticks @ map (\<lambda>tick. CInt (nominal_us tick)) ticks
          @ [CStr ''CALLER_DECLARED_ELRS_FULL_RES_16CH_NOT_VERIFIED_FROM_FRAME'',
             CStr ''ELRS_A60B68AF_CRSF_TO_US_INTEGER_MAPPING_NOT_MEASURED_PWM'']))"

definition sport_values :: "bytes \<Rightarrow> cell list result" where
  "sport_values frame =
     (let application = sport_application frame; val = le_sint (bslice frame 4 8);
          voltage = (application \<ge> 0x0210) in
      if voltage \<and> val < 0 then fail ''negative reported VFAS voltage''
      else Inr [if voltage then CRatio val 100 else CNone, if voltage then CNone else CRatio val 10,
        CInt (bval (frame ! 0) AND 0x1F), CInt application,
        CStr ''SPORT_UNCALIBRATED_REPORT_CURRENT_SIGN_UNSPECIFIED''])"

definition display_values :: "bytes \<Rightarrow> cell list result" where
  "display_values frame =
     (let payload = bslice frame 5 (length frame - 1); operation = payload ! 0 in
      if operation = 3 then
        if \<not> (4 \<le> length payload \<and> length payload \<le> 34) \<or> payload ! 3 AND NOT 0x43 \<noteq> 0 \<or> 0 \<in> set (drop 4 payload)
        then fail ''fixed DisplayPort string length/attribute/glyph mismatch''
        else Inr [CStr ''WRITE_GLYPHS'', CInt (bval (payload ! 1)), CInt (bval (payload ! 2)),
          CInt (bval (payload ! 3 AND 3)), CBool (payload ! 3 AND 0x40 \<noteq> 0),
          CStr (''hex:'' @ hex_of (drop 4 payload)), CInt (int (length payload) - 4)]
      else if length payload \<noteq> 1 then fail ''fixed DisplayPort operation length mismatch''
      else Inr (CStr (if operation = 0 then ''HEARTBEAT_REPORTED'' else if operation = 1 then ''RELEASE_REPORTED''
          else if operation = 2 then ''CLEAR_REPORTED'' else ''DRAW_REPORTED'') # replicate 6 CNone))"

text \<open>
  \<^verbatim>\<open>math.radians\<close> multiplies by the binary64 number nearest to pi/180, 5030569068109113 over 2 to the
  58; a product of floats is kept as the quotient of integers it is exactly before it is rounded.
\<close>

definition DEGREE :: int where "DEGREE = 5030569068109113"

definition radians_of_tenths :: "int \<Rightarrow> cell" where
  "radians_of_tenths n =
     (if n = 0 then CRatio 0 1
      else let (m, e) = to_double (nat \<bar>n\<bar>) 10 in CRatio (sgn n * int m * DEGREE) (2 ^ nat (58 - e)))"

definition msp_attitude_values :: "bytes \<Rightarrow> cell list result" where
  "msp_attitude_values frame =
     (if length frame \<noteq> 12 then fail ''fixed MSP attitude requires six payload bytes''
      else let roll = le_sint (bslice frame 5 7); pitch = le_sint (bslice frame 7 9); yaw = le_int (bslice frame 9 11) in
        if \<bar>roll\<bar> > 1800 \<or> \<bar>pitch\<bar> > 900 \<or> yaw > 360 then fail ''attitude outside selected writer range''
        else Inr [radians_of_tenths pitch, radians_of_tenths roll, CRatio (yaw * DEGREE) (2 ^ 58),
          CStr ''BF452_MSP1_REPORTED_FRAME_UNQUALIFIED''])"

definition upper :: "char \<Rightarrow> char" where
  "upper c = (if CHR 0x61 \<le> c \<and> c \<le> CHR 0x7A then char_of ((of_char c :: nat) - 32) else c)"

text \<open>The version names of the battery kinds have five characters; 3.6 is 8106479329266893 over 2 to the 51.\<close>

definition battery_values :: "string \<Rightarrow> bytes \<Rightarrow> cell list result" where
  "battery_values kind frame =
     (if length frame \<noteq> 12 then fail ''selected battery payload must be eight bytes''
      else let voltage = be_int (bslice frame 3 5); current = be_int (bslice frame 5 7);
               capacity = be_int (bslice frame 7 10); remaining = bval (frame ! 10) in
        if remaining > 100 \<or> voltage > 6554 then fail ''battery percentage or voltage outside selected writer range''
        else let pack = (drop (length kind - 5) kind = ''-pack'') in
          Inr [if pack then CRatio voltage 10 else CNone, if pack then CNone else CRatio voltage 10,
            CRatio current 10, CRatio (capacity * 8106479329266893) (2 ^ 51), CRatio remaining 100,
            CStr (map upper (bslice kind 8 13) @ ''_NONNEGATIVE_CURRENT_NO_CAPACITY_WRAP'')])"

definition directional_values :: "string \<Rightarrow> bytes \<Rightarrow> cell list result" where
  "directional_values kind frame =
     (if length frame \<noteq> (if kind = ''link-rx'' then 9 else 10)
      then fail ''selected directional link payload length mismatch''
      else let rssi = bval (frame ! 3); percent = bval (frame ! 4); quality = bval (frame ! 5);
               snr = sbyte (frame ! 6); tx_power = bval (frame ! 7) in
        if percent > 100 \<or> quality > 100 then fail ''invalid reported directional percentage''
        else Inr [CStr (if kind = ''link-rx'' then ''RX_REPORTED'' else ''TX_REPORTED''),
          CInt (- rssi), CRatio percent 100, CRatio quality 100, CInt snr, CInt tx_power,
          if kind = ''link-tx'' then CInt (bval (frame ! 8) * 10) else CNone])"

text \<open>\<^verbatim>\<open>math.pi\<close> is 884279719003555 over 2 to the 48; no quotient by 10000 lies between it and pi.\<close>

definition attitude_values :: "bytes \<Rightarrow> cell list result" where
  "attitude_values frame =
     (if length frame < 10 then fail ''selected attitude payload requires six bytes''
      else let vals = map (\<lambda>i. be_sint (bslice frame i (i + 2))) [3, 5, 7] in
        if \<exists>v \<in> set vals. \<bar>v\<bar> * 2 ^ 48 > 10000 * 884279719003555
        then fail ''attitude outside declared plus/minus pi range''
        else Inr (map (\<lambda>v. CRatio v 10000) vals))"

definition antenna_text :: "int \<Rightarrow> string" where
  "antenna_text antenna =
     (if antenna = 0 then ''ANTENNA_1'' else if antenna = 1 then ''ANTENNA_2'' else ''UNKNOWN_'' @ int_text antenna)"

definition elrs_values :: "int \<Rightarrow> int \<Rightarrow> cell list" where
  "elrs_values mode tx_power =
     [CStr (case map_of ELRS_RATES mode of None \<Rightarrow> ''UNKNOWN_'' @ int_text mode | Some name \<Rightarrow> name),
      case map_of ELRS_POWER_MW tx_power of None \<Rightarrow> CNone | Some mw \<Rightarrow> CInt mw,
      CStr (if map_of ELRS_POWER_MW tx_power \<noteq> None then ''CONFIGURED_LEVEL_REPORTED''
            else if tx_power = 0 then ''ZERO_NOT_A_LEVEL'' else ''UNKNOWN_CODE''),
      CStr ''CALLER_DECLARED_ELRS_A60B68AF_ENUM_LABEL_NOT_MEASURED_RATE_OR_POWER'']"

definition link_values :: "bool \<Rightarrow> bool \<Rightarrow> bytes \<Rightarrow> cell list result" where
  "link_values compare codes frame =
     (if length frame \<noteq> 14 then fail ''selected link-statistics payload must be exactly ten bytes''
      else let r1 = bval (frame ! 3); r2 = bval (frame ! 4); lq = bval (frame ! 5); snr = sbyte (frame ! 6);
               antenna = bval (frame ! 7); mode = bval (frame ! 8); tx_power = bval (frame ! 9);
               dr = bval (frame ! 10); dlq = bval (frame ! 11); dsnr = sbyte (frame ! 12) in
        if lq > 100 \<or> dlq > 100 then fail ''invalid reported link-quality percent''
        else Inr ([CInt (- r1), CInt (- r2), CRatio lq 100, CInt snr, CStr (antenna_text antenna),
            CInt mode, CInt tx_power, CInt (- dr), CRatio dlq 100, CInt dsnr]
          @ (if compare then [CInt (r2 - r1), CStr ''SAME_FRAME_REPORTED_DBM_DIFFERENCE_NOT_GAIN_OR_FAULT''] else [])
          @ (if codes then elrs_values mode tx_power else [])))"

definition crsf_values :: "string \<Rightarrow> bool \<Rightarrow> bool \<Rightarrow> bytes \<Rightarrow> cell list result" where
  "crsf_values kind compare codes frame =
     (if is_channels kind then channel_values frame
      else if is_sport kind then sport_values frame
      else if is_display kind then display_values frame
      else if is_msp kind then msp_attitude_values frame
      else if is_battery kind then battery_values kind frame
      else if kind \<in> {''link-rx'', ''link-tx''} then directional_values kind frame
      else if kind = ''attitude'' then attitude_values frame
      else link_values compare codes frame)"

section \<open>What the checks catch\<close>

text \<open>A shift of the register loses nothing: the bit that leaves it is the low bit of the result.\<close>

lemma high_bit: "(v :: byte) AND 0x80 = 0 \<longleftrightarrow> \<not> bit v 7"
  using and_exp_eq_0_iff_not_bit [of v 7] by simp

lemma xor_cancel: "(a :: byte) XOR c = b XOR c \<longleftrightarrow> a = b" "(c :: byte) XOR a = c XOR b \<longleftrightarrow> a = b"
  by (metis xor.assoc xor.right_neutral xor_self_eq, metis xor.assoc xor.left_neutral xor_self_eq)

lemma crc8_bit_low: "bit (crc8_bit v) 0 = bit v 7"
proof -
  have "\<not> bit (push_bit 1 v) 0" by (simp only: bit_push_bit_iff) simp
  then show ?thesis by (simp add: crc8_bit_def bit_xor_iff high_bit del: push_bit_of_Suc_0)
qed

lemma crc8_bit_inject: "crc8_bit v = crc8_bit w \<longleftrightarrow> v = w"
proof
  assume eq: "crc8_bit v = crc8_bit w"
  then have high: "bit v 7 = bit w 7" by (metis crc8_bit_low)
  with eq have shifted: "push_bit 1 v = push_bit 1 w"
    unfolding crc8_bit_def high_bit by (simp only: xor_cancel)
  have low: "bit v n = bit w n" if "n < 7" for n
  proof -
    from shifted have "bit (push_bit 1 v) (Suc n) = bit (push_bit 1 w) (Suc n)" by (rule arg_cong)
    with that show ?thesis by (simp only: bit_push_bit_iff) simp
  qed
  show "v = w"
  proof (rule bit_word_eqI)
    fix n assume "n < LENGTH(8)"
    then have "n < 7 \<or> n = 7" by auto
    with low high show "bit v n = bit w n" by blast
  qed
qed simp

lemma crc8_byte_inject:
  "crc8_byte v b = crc8_byte w b \<longleftrightarrow> v = w" "crc8_byte v b = crc8_byte v c \<longleftrightarrow> b = c"
proof -
  have "(crc8_bit ^^ n) x = (crc8_bit ^^ n) y \<longleftrightarrow> x = y" for n x y
    by (induction n) (simp_all add: crc8_bit_inject)
  then show "crc8_byte v b = crc8_byte w b \<longleftrightarrow> v = w" "crc8_byte v b = crc8_byte v c \<longleftrightarrow> b = c"
    by (simp_all only: crc8_byte_def xor_cancel)
qed

lemma crc8_one_byte:
  assumes "length xs = length ys" and "i < length xs" and "xs ! i \<noteq> ys ! i" and "\<forall>j < length xs. j \<noteq> i \<longrightarrow> xs ! j = ys ! j"
  shows "crc8 xs \<noteq> crc8 ys"
proof -
  have go: "foldl crc8_byte u zs = foldl crc8_byte v zs \<longleftrightarrow> u = v" for u v zs
    by (induction zs arbitrary: u v) (simp_all add: crc8_byte_inject)
  have pre: "take i xs = take i ys" and post: "drop (Suc i) xs = drop (Suc i) ys"
    using assms by (auto intro!: nth_equalityI)
  have "crc8 xs = foldl crc8_byte (crc8_byte (crc8 (take i ys)) (xs ! i)) (drop (Suc i) ys)"
    using assms(2) pre post by (subst id_take_nth_drop [of i xs]) (simp_all add: crc8_def)
  moreover have "crc8 ys = foldl crc8_byte (crc8_byte (crc8 (take i ys)) (ys ! i)) (drop (Suc i) ys)"
    using assms(1,2) by (subst id_take_nth_drop [of i ys]) (simp_all add: crc8_def)
  ultimately show ?thesis using assms(3) by (simp add: go crc8_byte_inject)
qed

text \<open>C23. No single changed byte of a complete CRSF frame goes unnoticed, the length byte and the check
  byte included, wherever it is behind the address: a frame that passes the checks stops passing
  them.\<close>

theorem crsf_check_catches_a_byte:
  assumes "message_type kind frame = Inr t" and "\<not> is_sport kind" "\<not> is_msp kind" "4 \<le> length frame"
    and "0 < i" "i < length frame" "b \<noteq> frame ! i"
  shows "message_type kind (frame[i := b]) = fail ''CRSF frame length or CRC mismatch''"
proof -
  let ?n = "length frame"
  from assms(1-3) have len: "bval (frame ! 1) = int ?n - 2" and crc: "crc8 (bslice frame 2 (?n - 1)) = last frame"
    by (auto simp: message_type_def split: if_splits)
  have lf: "last frame = frame ! (?n - 1)" using assms(4) by (intro last_conv_nth) auto
  have last: "last (frame[i := b]) = (if i = ?n - 1 then b else last frame)"
    using assms(4,6) by (subst (1 2) last_conv_nth) (auto simp: nth_list_update)
  have "bval (frame[i := b] ! 1) \<noteq> int ?n - 2 \<or> crc8 (bslice (frame[i := b]) 2 (?n - 1)) \<noteq> last (frame[i := b])"
  proof (cases "i = 1")
    case True
    with assms(4,7) len show ?thesis by (simp flip: len)
  next
    case False
    with assms(5) have two: "2 \<le> i" by simp
    show ?thesis
    proof (cases "i = ?n - 1")
      case True
      have "bslice (frame[i := b]) 2 (?n - 1) = bslice frame 2 (?n - 1)"
        using True two by (simp add: bslice_def drop_update_swap take_update_cancel)
      with True assms(7) crc last lf show ?thesis by auto
    next
      case inside: False
      have "crc8 (bslice (frame[i := b]) 2 (?n - 1)) \<noteq> crc8 (bslice frame 2 (?n - 1))"
      proof (rule crc8_one_byte [of _ _ "i - 2"])
        show "\<forall>j < length (bslice (frame[i := b]) 2 (?n - 1)). j \<noteq> i - 2 \<longrightarrow>
            bslice (frame[i := b]) 2 (?n - 1) ! j = bslice frame 2 (?n - 1) ! j"
          using two by (auto simp: nth_bslice nth_list_update)
        have "2 + (i - 2) = i" using two by simp
        with inside two assms(4,6,7) show "bslice (frame[i := b]) 2 (?n - 1) ! (i - 2) \<noteq> bslice frame 2 (?n - 1) ! (i - 2)"
          by (subst (1 2) nth_bslice) (simp_all only: length_list_update nth_list_update_eq, auto)
      qed (use inside two assms(4,6) in simp_all)
      with crc last inside show ?thesis by simp
    qed
  qed
  with assms(2,3) show ?thesis by (auto simp: message_type_def)
qed

theorem crsf_check_catches_a_byte_witness:
  "message_type ''attitude'' [0xC8, 3, 0x1E, 0x55, 0x36] = Inr 0x1E \<and>
   message_type ''attitude'' [0xC8, 3, 0x1E, 0x54, 0x36] = fail ''CRSF frame length or CRC mismatch''"
proof -
  have ok: "message_type ''attitude'' [0xC8, 3, 0x1E, 0x55, 0x36] = Inr 0x1E"
    by code_simp
  from crsf_check_catches_a_byte [OF ok, where i = 3 and b = 84] have
    "message_type ''attitude'' [0xC8, 3, 0x1E, 0x54, 0x36] = fail ''CRSF frame length or CRC mismatch''"
    by (simp add: is_sport_def is_msp_def eval_nat_numeral)
  with ok show ?thesis by blast
qed

section \<open>Channels\<close>

text \<open>The packing the ticks are read from: base 2048 digits, written as little-endian bytes.\<close>

fun pack_ticks :: "int list \<Rightarrow> int" where
  "pack_ticks [] = 0"
| "pack_ticks (t # ts) = t + 2048 * pack_ticks ts"

fun le_bytes :: "nat \<Rightarrow> int \<Rightarrow> bytes" where
  "le_bytes 0 n = []"
| "le_bytes (Suc k) n = word_of_int n # le_bytes k (n div 256)"

definition tick_ok :: "int \<Rightarrow> bool" where
  "tick_ok t \<longleftrightarrow> 0 \<le> t \<and> t < 2048"

lemma le_int_le_bytes: "0 \<le> n \<Longrightarrow> n < 256 ^ k \<Longrightarrow> le_int (le_bytes k n) = n"
proof (induction k arbitrary: n)
  case (Suc k)
  then have "n div 256 < 256 ^ k" by simp
  with Suc show ?case by (simp add: bval_word_of_int)
qed simp

lemma length_le_bytes [simp]: "length (le_bytes k n) = k"
  by (induction k arbitrary: n) simp_all

lemma pack_ticks_bounds: "list_all tick_ok ts \<Longrightarrow> 0 \<le> pack_ticks ts \<and> pack_ticks ts < 2048 ^ length ts"
  by (induction ts) (auto simp: tick_ok_def)

lemma pack_ticks_digit: "list_all tick_ok ts \<Longrightarrow> i < length ts \<Longrightarrow> pack_ticks ts div 2048 ^ i mod 2048 = ts ! i"
proof (induction ts arbitrary: i)
  case (Cons t ts)
  then have t: "0 \<le> t" "t < 2048" by (auto simp: tick_ok_def)
  show ?case
  proof (cases i)
    case 0
    with t show ?thesis by simp
  next
    case (Suc j)
    have "pack_ticks (t # ts) div 2048 ^ i = (t + 2048 * pack_ticks ts) div 2048 div 2048 ^ j"
      by (simp add: Suc zdiv_zmult2_eq)
    also have "(t + 2048 * pack_ticks ts) div 2048 = pack_ticks ts" using t by simp
    finally show ?thesis using Cons Suc by simp
  qed
qed simp

lemma channel_ticks_packed:
  assumes "length ticks = 16" and "list_all tick_ok ticks"
  shows "channel_ticks (le_bytes 22 (pack_ticks ticks)) = ticks"
proof -
  have "pack_ticks ticks < 256 ^ 22" using pack_ticks_bounds [OF assms(2)] assms(1) by simp
  then have n: "le_int (le_bytes 22 (pack_ticks ticks)) = pack_ticks ticks"
    using pack_ticks_bounds [OF assms(2)] by (intro le_int_le_bytes) auto
  have "drop_bit (11 * i) (pack_ticks ticks) AND 2047 = ticks ! i" if "i < 16" for i
  proof -
    have "(2 :: int) ^ (11 * i) = 2048 ^ i" by (simp add: power_mult)
    then have "drop_bit (11 * i) (pack_ticks ticks) AND 2047 = pack_ticks ticks div 2048 ^ i mod 2048"
      using take_bit_eq_mask [of 11 "drop_bit (11 * i) (pack_ticks ticks)"]
      by (simp add: mask_eq_exp_minus_1 take_bit_eq_mod drop_bit_eq_div)
    with pack_ticks_digit [OF assms(2)] assms(1) that show ?thesis by simp
  qed
  then show ?thesis
    unfolding channel_ticks_def n using assms(1) by (intro nth_equalityI) auto
qed

lemma nominal_us_close:
  assumes "tick_ok t"
  shows "\<bar>1639 * nominal_us t - (1639 * 988 + 1024 * (t - 172))\<bar> \<le> 1639 \<and> 0 < nominal_us t"
proof -
  let ?n = "(t - 172) * 2048"
  have n: "(t - 172) * (2012 - 988) * 2 = ?n" by simp
  have c: "1811 - 172 = (1639 :: int)" "988 * 2 = (1976 :: int)" by simp_all
  have t: "0 \<le> t" "t < 2048" using assms by (auto simp: tick_ok_def)
  define s where "s = (\<bar>?n\<bar> div 1639) * (if ?n < 0 then - 1 else 1)"
  have s: "\<bar>1639 * s - ?n\<bar> < 1639" "- 215 < s" "s < 2400"
  proof -
    define q where "q = \<bar>?n\<bar> div 1639"
    have q: "1639 * q \<le> \<bar>?n\<bar>" "\<bar>?n\<bar> < 1639 * q + 1639"
      using minus_mod_eq_mult_div [of "\<bar>?n\<bar>" 1639] pos_mod_bound [of 1639 "\<bar>?n\<bar>"] pos_mod_sign [of 1639 "\<bar>?n\<bar>"]
      by (simp_all only: q_def [symmetric])
    have s: "s = (if ?n < 0 then - q else q)" by (simp add: s_def q_def)
    show "\<bar>1639 * s - ?n\<bar> < 1639" "- 215 < s" "s < 2400"
      unfolding s using q t by (cases "?n < 0"; simp; linarith)+
  qed
  have "nominal_us t = max 0 (min 65535 ((s + 1976 + 1) div 2))"
    unfolding nominal_us_def Let_def n c s_def ..
  then have "nominal_us t = (s + 1977) div 2" using s by simp
  then have "2 * nominal_us t = s + 1977 \<or> 2 * nominal_us t = s + 1976" by presburger
  moreover from s have "1639 * s < ?n + 1639" "?n - 1639 < 1639 * s" by linarith+
  ultimately show ?thesis using s(2) unfolding abs_le_iff by (elim disjE) linarith+
qed

text \<open>C24. Sixteen channel ticks packed into the 22 payload bytes of a channels frame are decoded to
  exactly those ticks in order, each with a nominal microsecond value within one microsecond of
  the linear map that takes 172 to 988 and 1811 to 2012.\<close>

theorem channels_decode:
  assumes "length ticks = 16" and "list_all tick_ok ticks" and "length head = 3"
  shows "(\<exists>basis. channel_values (head @ le_bytes 22 (pack_ticks ticks) @ [check]) =
      Inr (map CInt ticks @ map (\<lambda>t. CInt (nominal_us t)) ticks @ map CStr basis)) \<and>
    list_all (\<lambda>t. \<bar>1639 * nominal_us t - (1639 * 988 + 1024 * (t - 172))\<bar> \<le> 1639 \<and> 0 < nominal_us t) ticks"
proof -
  let ?frame = "head @ le_bytes 22 (pack_ticks ticks) @ [check]"
  have len: "length ?frame = 26" and payload: "bslice ?frame 3 (26 - 1) = le_bytes 22 (pack_ticks ticks)"
    using assms(3) by (simp_all add: bslice_def)
  have "\<exists>basis. channel_values ?frame =
      Inr (map CInt ticks @ map (\<lambda>t. CInt (nominal_us t)) ticks @ map CStr basis)"
    unfolding channel_values_def len payload Let_def channel_ticks_packed [OF assms(1,2)]
    by (intro exI [of _ "[''CALLER_DECLARED_ELRS_FULL_RES_16CH_NOT_VERIFIED_FROM_FRAME'',
      ''ELRS_A60B68AF_CRSF_TO_US_INTEGER_MAPPING_NOT_MEASURED_PWM'']"]) simp
  with assms(2) nominal_us_close show ?thesis by (auto simp: list_all_iff)
qed

theorem channels_decode_witness:
  "(\<exists>basis. channel_values ([0xC8, 24, 0x16] @ le_bytes 22 (pack_ticks (replicate 15 992 @ [1811])) @ [0]) =
      Inr (map CInt (replicate 15 992 @ [1811]) @ map (\<lambda>t. CInt (nominal_us t)) (replicate 15 992 @ [1811]) @ map CStr basis)) \<and>
    nominal_us 992 = 1500 \<and> nominal_us 1811 = 2012 \<and> nominal_us 172 = 988"
proof
  have "length (replicate 15 992 @ [1811 :: int]) = 16" "list_all tick_ok (replicate 15 992 @ [1811])"
      "length [0xC8, 24, 0x16 :: byte] = 3"
    by (simp_all add: tick_ok_def list_all_iff)
  from channels_decode [OF this, of 0] show "\<exists>basis. channel_values ([0xC8, 24, 0x16] @
      le_bytes 22 (pack_ticks (replicate 15 992 @ [1811])) @ [0]) = Inr (map CInt (replicate 15 992 @ [1811])
      @ map (\<lambda>t. CInt (nominal_us t)) (replicate 15 992 @ [1811]) @ map CStr basis)"
    by (rule conjunct1)
qed (simp add: nominal_us_def)

end
