(* ===== verification/Crsf_Link.thy ===== *)
theory Crsf_Link
  imports Crsf_Frames
begin

unbundle bit_operations_syntax

text \<open>
  The saved-frame table of \<^verbatim>\<open>scripts/convert_crsf_link.py\<close>: the column checks, the loop of
  \<^verbatim>\<open>convert\<close> over the records, and its accounting.
\<close>

section \<open>The columns and the clock of a capture table\<close>

definition capture_names :: "string list option \<Rightarrow> string list result" where
  "capture_names fieldnames =
     (case fieldnames of
        None \<Rightarrow> fail ''expected time_us,frame_hex followed by optional retained columns''
      | Some names \<Rightarrow>
          if names = [] \<or> \<not> distinct names \<or> take 2 names \<noteq> [''time_us'', ''frame_hex'']
          then fail ''expected time_us,frame_hex followed by optional retained columns''
          else if (\<exists>name \<in> set names. name = [] \<or> str_len name > 128) \<or> length names > 64
          then fail ''invalid capture columns''
          else Inr names)"

definition capture_time :: "int option \<Rightarrow> string \<Rightarrow> int result" where
  "capture_time previous s =
     (if \<not> digits_text 1 19 s then fail ''invalid capture microseconds''
      else let time = decimal_value s in
        if time \<ge> 2 ^ 63 \<or> (case previous of None \<Rightarrow> False | Some p \<Rightarrow> time < p)
        then fail ''capture time out of range or decreasing'' else Inr time)"

section \<open>The state of a conversion\<close>

record crsf_state =
  cs_source :: int
  cs_decoded :: int
  cs_unsupported :: "(nat \<times> string \<times> string) list"
  cs_previous :: "int option"
  cs_retained :: nat
  cs_out :: "row list"

definition crsf_init :: crsf_state where
  "crsf_init = \<lparr>cs_source = 0, cs_decoded = 0, cs_unsupported = [], cs_previous = None, cs_retained = 0, cs_out = []\<rparr>"

record crsf_options =
  co_kind :: string
  co_compare :: bool
  co_codes :: bool
  co_names :: "string list"

definition crsf_columns :: "crsf_options \<Rightarrow> string list" where
  "crsf_columns opt = [''record_time_us'', ''destination_address'', ''source_frame_hex'', ''source_record_hex'']
     @ crsf_fields (co_kind opt) (co_compare opt) (co_codes opt)"

section \<open>One record\<close>

definition frame_pattern :: "string \<Rightarrow> string \<Rightarrow> bool" where
  "frame_pattern kind s = (if is_msp kind then hex_text 6 260 s else hex_text 4 64 s)"

definition raw_record :: "crsf_options \<Rightarrow> string list \<Rightarrow> string" where
  "raw_record opt fs = dumps_texts '','' '':'' (text_row (co_names opt) fs)"

definition unsupported_json :: "nat \<times> string \<times> string \<Rightarrow> json" where
  "unsupported_json r = JObj [(''line'', JInt (int (fst r))), (''frame_hex'', JStr (fst (snd r))),
     (''source_record_hex'', JStr (snd (snd r)))]"

definition is_selected :: "string \<Rightarrow> int \<Rightarrow> bytes \<Rightarrow> bool" where
  "is_selected kind mtype frame \<longleftrightarrow>
     mtype = selected_type kind \<and> (is_display kind \<longrightarrow> frame ! 5 \<in> {0, 1, 2, 3, 4})"

definition crsf_cells :: "crsf_options \<Rightarrow> int \<Rightarrow> bytes \<Rightarrow> string \<Rightarrow> cell list \<Rightarrow> row" where
  "crsf_cells opt time frame raw vals =
     [(''record_time_us'', CInt time),
      (''destination_address'', if is_msp (co_kind opt) \<or> is_sport (co_kind opt) then CNone
         else CInt (bval (frame ! 0))),
      (''source_frame_hex'', CStr (''hex:'' @ hex_of frame)),
      (''source_record_hex'', CStr (''hex:'' @ hex_of (utf8 raw)))]
     @ zip (crsf_fields (co_kind opt) (co_compare opt) (co_codes opt)) vals"

definition crsf_unsupported ::
  "nat \<Rightarrow> bytes \<Rightarrow> string \<Rightarrow> crsf_state \<Rightarrow> crsf_state result" where
  "crsf_unsupported line frame raw st =
     (let rec = (line, hex_of frame, hex_of (utf8 raw));
          retained = cs_retained st + length (dumps (unsupported_json rec)) in
      if retained > CRSF_LIMIT then fail ''unsupported report exceeds bound''
      else Inr (st\<lparr>cs_retained := retained, cs_unsupported := cs_unsupported st @ [rec]\<rparr>))"

definition crsf_decode :: "crsf_options \<Rightarrow> int \<Rightarrow> bytes \<Rightarrow> string \<Rightarrow> crsf_state \<Rightarrow> crsf_state result" where
  "crsf_decode opt time frame raw st =
     rbind (crsf_values (co_kind opt) (co_compare opt) (co_codes opt) frame) (\<lambda>vals.
     rbind (write_row (crsf_columns opt) (crsf_cells opt time frame raw vals) (cs_out st)) (\<lambda>out.
       if length (csv_text (crsf_columns opt) out) > CRSF_LIMIT then fail ''output exceeds bound''
       else Inr (st\<lparr>cs_out := out, cs_decoded := cs_decoded st + 1\<rparr>)))"

definition crsf_record :: "crsf_options \<Rightarrow> crsf_state \<Rightarrow> nat \<times> string list \<Rightarrow> crsf_state result" where
  "crsf_record opt st item =
     (let kind = co_kind opt; fs = snd item; row = text_row (co_names opt) fs in
      if length fs \<noteq> length (co_names opt) then fail ''capture row width mismatch''
      else rbind (capture_time (cs_previous st) (text_get row ''time_us'')) (\<lambda>time.
        if \<not> frame_pattern kind (text_get row ''frame_hex'')
        then fail ''expected bounded complete selected frame hex''
        else let frame = from_hex (text_get row ''frame_hex''); raw = raw_record opt fs in
          rbind (message_type kind frame) (\<lambda>mtype.
            if length raw > 12000 then fail ''retained source record exceeds bound''
            else let st1 = st\<lparr>cs_previous := Some time, cs_source := cs_source st + 1\<rparr> in
              if is_display kind \<and> mtype = selected_type kind \<and> length frame = 6
              then fail ''DisplayPort subcommand required''
              else if \<not> is_selected kind mtype frame then crsf_unsupported (fst item) frame raw st1
              else crsf_decode opt time frame raw st1)))"

section \<open>The conversion\<close>

text \<open>An error of the reader inside the loop is raised again as a \<^verbatim>\<open>ValueError\<close>; one in the header is not.\<close>

definition crsf_items :: "string list gen \<Rightarrow> (nat \<times> string list) gen" where
  "crsf_items g = (let records = dict_records g in
     (zip [2..<2 + length (fst records)] (fst records),
      map_option (\<lambda>e. ValueError ''malformed capture CSV'') (snd records)))"

definition convert_crsf ::
  "string \<Rightarrow> string \<Rightarrow> bool \<Rightarrow> bool \<Rightarrow> bool \<Rightarrow> (string list \<times> crsf_state) result" where
  "convert_crsf csv kind allow_no_selected compare codes =
     (if kind \<notin> set KINDS then fail ''unknown selected CRSF quantity''
      else if compare \<and> kind \<noteq> ''link'' then fail ''antenna comparison requires qualified link 0x14 reports''
      else if codes \<and> kind \<noteq> ''link'' then fail ''ELRS code labels require qualified link 0x14 reports''
      else if length csv > CRSF_LIMIT then fail ''input exceeds bound''
      else rbind (dict_fieldnames (csv_reader True csv)) (\<lambda>fieldnames.
        rbind (capture_names fieldnames) (\<lambda>names.
        let opt = \<lparr>co_kind = kind, co_compare = compare, co_codes = codes, co_names = names\<rparr> in
        rbind (run_gen (crsf_record opt) crsf_init (crsf_items (csv_reader True csv))) (\<lambda>st.
          if cs_decoded st = 0 \<and> \<not> allow_no_selected then fail ''no selected frame reports''
          else Inr (crsf_columns opt, st)))))"

text \<open>The text the conversion returns.\<close>

definition crsf_output :: "string list \<times> crsf_state \<Rightarrow> string" where
  "crsf_output r = csv_text (fst r) (cs_out (snd r))"

definition crsf_report_json :: "crsf_state \<Rightarrow> json" where
  "crsf_report_json st = JObj [(''source_records'', JInt (cs_source st)), (''decoded_records'', JInt (cs_decoded st)),
     (''unsupported_records'', JArr (map unsupported_json (cs_unsupported st))), (''clock'', JStr ''Unknown'')]"

section \<open>What a conversion returns\<close>

definition record_frame :: "string list \<Rightarrow> string list \<Rightarrow> bytes" where
  "record_frame names fs = from_hex (text_get (text_row names fs) ''frame_hex'')"

definition record_time :: "string list \<Rightarrow> string list \<Rightarrow> int" where
  "record_time names fs = decimal_value (text_get (text_row names fs) ''time_us'')"

definition carries_selected :: "crsf_options \<Rightarrow> string list \<Rightarrow> bool" where
  "carries_selected opt fs =
     (case message_type (co_kind opt) (record_frame (co_names opt) fs) of
        Inl _ \<Rightarrow> False | Inr mtype \<Rightarrow> is_selected (co_kind opt) mtype (record_frame (co_names opt) fs))"

definition result_or :: "'a \<Rightarrow> 'a result \<Rightarrow> 'a" where
  "result_or d r = (case r of Inl _ \<Rightarrow> d | Inr x \<Rightarrow> x)"

definition selected_row :: "crsf_options \<Rightarrow> string list \<Rightarrow> row" where
  "selected_row opt fs =
     (let frame = record_frame (co_names opt) fs in
      crsf_cells opt (record_time (co_names opt) fs) frame (raw_record opt fs)
        (result_or [] (crsf_values (co_kind opt) (co_compare opt) (co_codes opt) frame)))"

definition unsupported_entry :: "crsf_options \<Rightarrow> nat \<times> string list \<Rightarrow> nat \<times> string \<times> string" where
  "unsupported_entry opt item =
     (fst item, hex_of (record_frame (co_names opt) (snd item)), hex_of (utf8 (raw_record opt (snd item))))"

lemma capture_time_Inr:
  "capture_time previous s = Inr t \<Longrightarrow>
    t = decimal_value s \<and> t < 2 ^ 63 \<and> (\<forall>p. previous = Some p \<longrightarrow> p \<le> t)"
  by (auto simp: capture_time_def Let_def split: if_splits option.splits)

lemma crsf_decode_Inr:
  assumes "crsf_decode opt time frame raw st = Inr st'"
  shows "cs_source st' = cs_source st \<and> cs_previous st' = cs_previous st \<and> cs_decoded st' = cs_decoded st + 1 \<and>
    cs_unsupported st' = cs_unsupported st \<and> cs_out st' = cs_out st @ [crsf_cells opt time frame raw
      (result_or [] (crsf_values (co_kind opt) (co_compare opt) (co_codes opt) frame))]"
  using assms unfolding crsf_decode_def
  by (elim rbind_InrE if_failE) (auto simp: write_row_Inr result_or_def)

lemma crsf_unsupported_Inr:
  assumes "crsf_unsupported line frame raw st = Inr st'"
  shows "cs_source st' = cs_source st \<and> cs_previous st' = cs_previous st \<and> cs_decoded st' = cs_decoded st \<and>
    cs_out st' = cs_out st \<and> cs_unsupported st' = cs_unsupported st @ [(line, hex_of frame, hex_of (utf8 raw))]"
  using assms by (auto simp: crsf_unsupported_def Let_def split: if_splits)

lemma crsf_record_Inr:
  assumes "crsf_record opt st item = Inr st'"
  shows "cs_source st' = cs_source st + 1 \<and> cs_previous st' = Some (record_time (co_names opt) (snd item)) \<and>
    record_time (co_names opt) (snd item) < 2 ^ 63 \<and>
    (\<forall>p. cs_previous st = Some p \<longrightarrow> p \<le> record_time (co_names opt) (snd item)) \<and>
    length (snd item) = length (co_names opt) \<and>
    (if carries_selected opt (snd item)
     then cs_out st' = cs_out st @ [selected_row opt (snd item)] \<and> cs_decoded st' = cs_decoded st + 1 \<and>
       cs_unsupported st' = cs_unsupported st
     else cs_out st' = cs_out st \<and> cs_decoded st' = cs_decoded st \<and>
       cs_unsupported st' = cs_unsupported st @ [unsupported_entry opt item])"
proof -
  let ?frame = "record_frame (co_names opt) (snd item)" and ?raw = "raw_record opt (snd item)"
  from assms obtain time mtype where width: "length (snd item) = length (co_names opt)"
    and time: "capture_time (cs_previous st) (text_get (text_row (co_names opt) (snd item)) ''time_us'') = Inr time"
    and mtype: "message_type (co_kind opt) ?frame = Inr mtype"
    and rest: "(if \<not> is_selected (co_kind opt) mtype ?frame
       then crsf_unsupported (fst item) ?frame ?raw (st\<lparr>cs_previous := Some time, cs_source := cs_source st + 1\<rparr>)
       else crsf_decode opt time ?frame ?raw (st\<lparr>cs_previous := Some time, cs_source := cs_source st + 1\<rparr>)) = Inr st'"
    unfolding crsf_record_def Let_def record_frame_def by (elim rbind_InrE if_failE) simp
  from capture_time_Inr [OF time, folded record_time_def]
  have t: "time = record_time (co_names opt) (snd item)" "record_time (co_names opt) (snd item) < 2 ^ 63"
    "\<forall>p. cs_previous st = Some p \<longrightarrow> p \<le> record_time (co_names opt) (snd item)" by auto
  have carries: "carries_selected opt (snd item) = is_selected (co_kind opt) mtype ?frame"
    by (simp add: carries_selected_def mtype)
  show ?thesis
  proof (cases "is_selected (co_kind opt) mtype ?frame")
    case True
    from crsf_decode_Inr [OF rest [unfolded if_not_P [OF True [THEN not_not [THEN iffD2]]]]] True width t
    show ?thesis unfolding carries by (simp add: selected_row_def Let_def)
  next
    case False
    from crsf_unsupported_Inr [OF rest [unfolded if_P [OF False]]] False width t
    show ?thesis unfolding carries by (simp add: unsupported_entry_def)
  qed
qed

definition crsf_so_far :: "crsf_options \<Rightarrow> (nat \<times> string list) list \<Rightarrow> crsf_state \<Rightarrow> bool" where
  "crsf_so_far opt items st \<longleftrightarrow>
     cs_source st = int (length items) \<and>
     cs_out st = map (selected_row opt) (filter (carries_selected opt) (map snd items)) \<and>
     cs_decoded st = int (length (cs_out st)) \<and>
     cs_unsupported st = map (unsupported_entry opt) (filter (\<lambda>item. \<not> carries_selected opt (snd item)) items) \<and>
     sorted (map (\<lambda>item. record_time (co_names opt) (snd item)) items) \<and>
     list_all (\<lambda>item. length (snd item) = length (co_names opt) \<and> record_time (co_names opt) (snd item) < 2 ^ 63) items"

lemma crsf_run:
  assumes "run_items (crsf_record opt) crsf_init items = Inr st"
  shows "crsf_so_far opt items st"
proof -
  let ?T = "\<lambda>item. record_time (co_names opt) (snd item)"
  have "crsf_so_far opt ([] @ items) st \<and>
    (\<forall>item \<in> set ([] @ items). \<exists>p. cs_previous st = Some p \<and> ?T item \<le> p)"
  proof (rule run_items_trace [OF assms])
    show "crsf_so_far opt [] crsf_init \<and> (\<forall>item \<in> set []. \<exists>p. cs_previous crsf_init = Some p \<and> ?T item \<le> p)"
      by (simp add: crsf_so_far_def crsf_init_def)
  next
    fix s ys x s'
    assume I: "crsf_so_far opt ys s \<and> (\<forall>item \<in> set ys. \<exists>p. cs_previous s = Some p \<and> ?T item \<le> p)"
      and step: "crsf_record opt s x = Inr s'"
    note s' = crsf_record_Inr [OF step]
    have below: "?T y \<le> ?T x" if y: "y \<in> set ys" for y
    proof -
      from I y obtain p where "cs_previous s = Some p" "?T y \<le> p" by blast
      with s' show ?thesis by fastforce
    qed
    have "crsf_so_far opt (ys @ [x]) s'"
      using I s' below by (cases "carries_selected opt (snd x)") (auto simp: crsf_so_far_def sorted_append)
    with s' below show "crsf_so_far opt (ys @ [x]) s' \<and>
        (\<forall>item \<in> set (ys @ [x]). \<exists>p. cs_previous s' = Some p \<and> ?T item \<le> p)" by auto
  qed
  then show ?thesis by simp
qed

lemma crsf_counts:
  assumes "crsf_so_far opt items st"
  shows "cs_source st = cs_decoded st + int (length (cs_unsupported st)) \<and> (cs_decoded st \<noteq> 0 \<longrightarrow> cs_out st \<noteq> [])"
proof -
  have "length (filter (carries_selected opt) (map snd items)) + length (filter (\<lambda>item. \<not> carries_selected opt (snd item)) items)
      = length items"
    using sum_length_filter_compl [of "\<lambda>item. carries_selected opt (snd item)" items] by (simp add: filter_map comp_def)
  with assms show ?thesis by (simp add: crsf_so_far_def filter_map flip: of_nat_add)
qed

lemma convert_crsf_InrE:
  assumes "convert_crsf csv kind allow compare codes = Inr (cols, st)"
  obtains names records where "dict_fieldnames (csv_reader True csv) = Inr (Some names)"
    and "dict_records (csv_reader True csv) = (records, None)" and "take 2 names = [''time_us'', ''frame_hex'']" "distinct names"
    and "run_items (crsf_record \<lparr>co_kind = kind, co_compare = compare, co_codes = codes, co_names = names\<rparr>) crsf_init
      (zip [2..<2 + length records] records) = Inr st"
    and "cols = crsf_columns \<lparr>co_kind = kind, co_compare = compare, co_codes = codes, co_names = names\<rparr>"
    and "allow \<or> cs_decoded st \<noteq> 0"
proof -
  obtain records e where r: "dict_records (csv_reader True csv) = (records, e)" by fastforce
  from assms obtain fieldnames names where f: "dict_fieldnames (csv_reader True csv) = Inr fieldnames"
    and n: "capture_names fieldnames = Inr names"
    and run: "run_gen (crsf_record \<lparr>co_kind = kind, co_compare = compare, co_codes = codes, co_names = names\<rparr>) crsf_init
      (crsf_items (csv_reader True csv)) = Inr st"
    and rest: "cols = crsf_columns \<lparr>co_kind = kind, co_compare = compare, co_codes = codes, co_names = names\<rparr>"
      "allow \<or> cs_decoded st \<noteq> 0"
    unfolding convert_crsf_def Let_def by (elim if_failE rbind_InrE) auto
  from n have "fieldnames = Some names" "take 2 names = [''time_us'', ''frame_hex'']" "distinct names"
    by (auto simp: capture_names_def split: option.splits if_splits)
  moreover from run have "e = None" "run_items (crsf_record \<lparr>co_kind = kind, co_compare = compare, co_codes = codes,
      co_names = names\<rparr>) crsf_init (zip [2..<2 + length records] records) = Inr st"
    by (auto simp: crsf_items_def r run_gen_Inr_iff Let_def)
  ultimately show thesis using that f r rest by blast
qed

text \<open>A converted frame table has one row for every record whose frame carries the selected
  message, in order and with the values decoded from that frame, and one retained entry, with its
  record number, for every other record; all records fit the columns and their times never decrease.\<close>

theorem convert_crsf_rows:
  assumes "convert_crsf csv kind allow compare codes = Inr (cols, st)"
  shows "\<exists>names records. dict_fieldnames (csv_reader True csv) = Inr (Some names) \<and>
    dict_records (csv_reader True csv) = (records, None) \<and>
    crsf_so_far \<lparr>co_kind = kind, co_compare = compare, co_codes = codes, co_names = names\<rparr>
      (zip [2..<2 + length records] records) st \<and>
    cs_source st = cs_decoded st + int (length (cs_unsupported st)) \<and> (allow \<or> cs_out st \<noteq> [])"
proof -
  from convert_crsf_InrE [OF assms] obtain names records where
    h: "dict_fieldnames (csv_reader True csv) = Inr (Some names)" "dict_records (csv_reader True csv) = (records, None)"
    and run: "run_items (crsf_record \<lparr>co_kind = kind, co_compare = compare, co_codes = codes, co_names = names\<rparr>) crsf_init
      (zip [2..<2 + length records] records) = Inr st" and some: "allow \<or> cs_decoded st \<noteq> 0"
    by blast
  let ?opt = "\<lparr>co_kind = kind, co_compare = compare, co_codes = codes, co_names = names\<rparr>"
  let ?items = "zip [2..<2 + length records] records"
  note so_far = crsf_run [OF run]
  show ?thesis using h so_far crsf_counts [OF so_far] some by blast
qed

definition crsf_sample_rows :: "string list list" where
  "crsf_sample_rows = [[''time_us'', ''frame_hex''], [''5'', ''c8081e00000000000030'']]"

definition crsf_sample :: string where
  "crsf_sample = concat (map csv_line crsf_sample_rows)"

lemma crsf_sample_read: "csv_reader True crsf_sample = (crsf_sample_rows, None)"
  unfolding crsf_sample_def
  by (rule csv_reader_plain) (simp add: crsf_sample_rows_def plain_row_eval)

lemma crsf_sample_record:
  "\<exists>st. crsf_record \<lparr>co_kind = ''attitude'', co_compare = False, co_codes = False, co_names = [''time_us'', ''frame_hex'']\<rparr>
     crsf_init (2, [''5'', ''c8081e00000000000030'']) = Inr st \<and> cs_decoded st = 1"
proof -
  let ?opt = "\<lparr>co_kind = ''attitude'', co_compare = False, co_codes = False, co_names = [''time_us'', ''frame_hex'']\<rparr>"
  let ?frame = "[0xC8, 8, 0x1E, 0, 0, 0, 0, 0, 0, 0x30] :: bytes"
  let ?raw = "raw_record ?opt [''5'', ''c8081e00000000000030'']"
  let ?row = "crsf_cells ?opt 5 ?frame ?raw [CRatio 0 10000, CRatio 0 10000, CRatio 0 10000]"
  have frame: "from_hex ''c8081e00000000000030'' = ?frame" "frame_pattern ''attitude'' ''c8081e00000000000030''"
    by (simp_all add: hex_value_def is_digit_def frame_pattern_def is_msp_def hex_text_def)
  have time: "capture_time None ''5'' = Inr 5"
    by (simp add: capture_time_def digits_text_def is_digit_def decimal_value_def)
  have mtype: "message_type ''attitude'' ?frame = Inr 0x1E" by code_simp
  have kind: "selected_type ''attitude'' = 0x1E" "\<not> is_display ''attitude''" "\<not> is_msp ''attitude''" "\<not> is_sport ''attitude''"
    by (simp_all add: selected_type_def is_channels_def CHANNEL_KIND_def is_sport_def is_display_def is_msp_def is_battery_def)
  have vals: "crsf_values ''attitude'' False False ?frame = Inr [CRatio 0 10000, CRatio 0 10000, CRatio 0 10000]"
    by (simp add: crsf_values_def is_channels_def CHANNEL_KIND_def kind is_battery_def attitude_values_def bslice_def
      be_sint_def be_int_def bval_def)
  have raw: "length ?raw = 50"
    by (simp add: raw_record_def dumps_texts_def text_row_def json_raw_string_def json_raw_char_def)
  have cols: "crsf_columns ?opt = [''record_time_us'', ''destination_address'', ''source_frame_hex'', ''source_record_hex'']
      @ ATTITUDE_FIELDS"
    by (simp add: crsf_columns_def crsf_fields_def is_channels_def CHANNEL_KIND_def kind is_battery_def)
  have row: "?row = [(''record_time_us'', CInt 5), (''destination_address'', CInt 200), (''source_frame_hex'',
      CStr (''hex:'' @ hex_of ?frame)), (''source_record_hex'', CStr (''hex:'' @ hex_of (utf8 ?raw)))]
      @ zip ATTITUDE_FIELDS [CRatio 0 10000, CRatio 0 10000, CRatio 0 10000]"
    by (simp add: crsf_cells_def kind crsf_fields_def is_channels_def CHANNEL_KIND_def is_battery_def bval_def)
  have cells: "\<forall>r \<in> set [?row]. \<forall>kv \<in> set r. length (cell_text (snd kv)) \<le> 200"
    unfolding row by (simp add: ATTITUDE_FIELDS_def int_text_def nat_digits.simps utf8_def raw ratio_text_def)
  have bound: "length (csv_text (crsf_columns ?opt) [?row]) \<le> CRSF_LIMIT"
    by (rule order_trans [OF csv_text_cap [OF cells]]) (simp add: cols ATTITUDE_FIELDS_def CRSF_LIMIT_def)
  have "row_keys ?row \<subseteq> set (crsf_columns ?opt)" unfolding row cols by (simp add: ATTITUDE_FIELDS_def)
  then have written: "write_row (crsf_columns ?opt) ?row [] = Inr [?row]" by (simp add: write_row_Inr)
  have "crsf_decode ?opt 5 ?frame ?raw (crsf_init\<lparr>cs_previous := Some 5, cs_source := 1\<rparr>) =
      Inr (crsf_init\<lparr>cs_previous := Some 5, cs_source := 1, cs_out := [?row], cs_decoded := 1\<rparr>)"
    using bound written by (simp add: crsf_decode_def vals crsf_init_def)
  then have "crsf_record ?opt crsf_init (2, [''5'', ''c8081e00000000000030'']) =
      Inr (crsf_init\<lparr>cs_previous := Some 5, cs_source := 1, cs_out := [?row], cs_decoded := 1\<rparr>)"
    unfolding crsf_record_def Let_def
    by (simp add: text_row_def text_get_def frame time mtype raw kind is_selected_def crsf_init_def del: from_hex.simps)
  then show ?thesis by simp
qed

lemma crsf_sample_converts: "\<exists>cols st. convert_crsf crsf_sample ''attitude'' False False False = Inr (cols, st)"
proof -
  have len: "length crsf_sample \<le> CRSF_LIMIT"
    by (simp add: crsf_sample_def crsf_sample_rows_def csv_eval CRSF_LIMIT_def)
  have names: "dict_fieldnames (crsf_sample_rows, None) = Inr (Some [''time_us'', ''frame_hex''])"
    "capture_names (Some [''time_us'', ''frame_hex'']) = Inr [''time_us'', ''frame_hex'']"
    by (simp_all add: dict_fieldnames_def crsf_sample_rows_def capture_names_def order_le_less_trans [OF str_len_le])
  have "crsf_items (crsf_sample_rows, None) = ([(2, [''5'', ''c8081e00000000000030''])], None)"
    by (simp add: crsf_items_def dict_records_def crsf_sample_rows_def)
  with crsf_sample_record show ?thesis
    unfolding convert_crsf_def crsf_sample_read names rbind_simps Let_def
    using len by (auto simp: KINDS_def names run_gen_def)
qed

theorem convert_crsf_rows_witness:
  "\<exists>cols st. convert_crsf crsf_sample ''attitude'' False False False = Inr (cols, st) \<and>
    cs_source st = cs_decoded st + int (length (cs_unsupported st)) \<and> cs_out st \<noteq> []"
proof -
  obtain cols st where c: "convert_crsf crsf_sample ''attitude'' False False False = Inr (cols, st)"
    using crsf_sample_converts by blast
  with convert_crsf_rows [OF c] show ?thesis by blast
qed

end
