(* ===== verification/Canvas.thy ===== *)
theory Canvas
  imports Crsf_Link "HOL-Library.AList" "HOL-Library.Product_Lexorder"
begin

unbundle bit_operations_syntax

text \<open>
  The reported DisplayPort canvas: \<^verbatim>\<open>scripts/convert_displayport_canvas.py\<close>. The operations of a
  frame table update a dictionary of written cells; every draw emits a summary row and one row
  per known glyph.
\<close>

section \<open>Constants\<close>

definition CANVAS_MAX_RECORDS :: int where "CANVAS_MAX_RECORDS = 100000"
definition CANVAS_MAX_FRAMES :: nat where "CANVAS_MAX_FRAMES = 4096"
definition CANVAS_MAX_ROWS :: nat where "CANVAS_MAX_ROWS = 250000"
definition CANVAS_MAX_OUTPUT :: nat where "CANVAS_MAX_OUTPUT = 128 * 1024 * 1024"
definition CANVAS_MAX_REPORT :: nat where "CANVAS_MAX_REPORT = 32 * 1024 * 1024"

definition CANVAS_FIELDS :: "string list" where
  "CANVAS_FIELDS = [''record_time_us'', ''row_kind'', ''frame_index'', ''draw_record_index'',
     ''source_sha256'', ''canvas_rows'', ''canvas_columns'', ''known_glyph_count'',
     ''cleared_count'', ''unknown_count'', ''last_clear_record_index'',
     ''last_invalidation_record_index'', ''cell_row'', ''cell_column'', ''glyph_byte'',
     ''font_bank'', ''blink_reported'', ''write_record_index'', ''write_time_us'']"

section \<open>The state of a canvas\<close>

record glyph =
  gl_glyph :: byte
  gl_bank :: byte
  gl_blink :: bool
  gl_index :: nat
  gl_time :: int

type_synonym position = "nat \<times> nat"

record canvas_state =
  cv_written :: "(position \<times> glyph) list"
  cv_cleared :: bool
  cv_last_clear :: "nat option"
  cv_last_invalid :: "nat option"
  cv_frames :: nat
  cv_rows :: nat
  cv_last_draw :: "nat option"
  cv_out :: "row list"

definition canvas_init :: canvas_state where
  "canvas_init = \<lparr>cv_written = [], cv_cleared = False, cv_last_clear = None, cv_last_invalid = None,
     cv_frames = 0, cv_rows = 0, cv_last_draw = None, cv_out = []\<rparr>"

record geometry =
  ge_rows :: nat
  ge_columns :: nat

definition index_cell :: "nat option \<Rightarrow> cell" where
  "index_cell i = (case i of None \<Rightarrow> CNone | Some n \<Rightarrow> CInt (int n))"

section \<open>The operations\<close>

definition canvas_emit :: "canvas_state \<Rightarrow> row \<Rightarrow> canvas_state result" where
  "canvas_emit st r =
     (if cv_rows st \<ge> CANVAS_MAX_ROWS then fail ''canvas row count exceeds bound''
      else rbind (write_row CANVAS_FIELDS r (cv_out st)) (\<lambda>out.
        if length (csv_text CANVAS_FIELDS out) > CANVAS_MAX_OUTPUT then fail ''canvas CSV exceeds bound''
        else Inr (st\<lparr>cv_out := out, cv_rows := cv_rows st + 1\<rparr>)))"

definition invalidate :: "nat \<Rightarrow> canvas_state \<Rightarrow> canvas_state" where
  "invalidate index st = st\<lparr>cv_written := [], cv_cleared := False, cv_last_invalid := Some index\<rparr>"

definition clear_canvas :: "nat \<Rightarrow> canvas_state \<Rightarrow> canvas_state" where
  "clear_canvas index st = st\<lparr>cv_written := [], cv_cleared := True, cv_last_clear := Some index\<rparr>"

text \<open>The cells a write operation sets, in the order the code sets them.\<close>

definition write_cells :: "nat \<Rightarrow> int \<Rightarrow> bytes \<Rightarrow> (position \<times> glyph) list" where
  "write_cells index time frame =
     (let row = unat (frame ! 6); column = unat (frame ! 7); attributes = frame ! 8;
          glyphs = bslice frame 9 (length frame - 1)
      in map (\<lambda>(offset, glyph). ((row, column + offset),
           \<lparr>gl_glyph = glyph, gl_bank = attributes AND 3, gl_blink = (attributes AND 0x40 \<noteq> 0),
             gl_index = index, gl_time = time\<rparr>)) (enumerate 0 glyphs))"

definition write_glyphs :: "geometry \<Rightarrow> nat \<Rightarrow> int \<Rightarrow> bytes \<Rightarrow> canvas_state \<Rightarrow> canvas_state result" where
  "write_glyphs geo index time frame st =
     (let row = unat (frame ! 6); column = unat (frame ! 7); glyphs = bslice frame 9 (length frame - 1) in
      if row \<ge> ge_rows geo \<or> column \<ge> ge_columns geo \<or> column + length glyphs > ge_columns geo
      then fail ''write exceeds caller geometry; no clipping or wrapping inferred''
      else Inr (st\<lparr>cv_written := fold (\<lambda>(p, g). AList.update p g) (write_cells index time frame) (cv_written st)\<rparr>))"

definition draw_common :: "geometry \<Rightarrow> string \<Rightarrow> nat \<Rightarrow> int \<Rightarrow> nat \<Rightarrow> nat option \<Rightarrow> nat option \<Rightarrow> row" where
  "draw_common geo digest index time frame_count last_clear last_invalid =
     [(''record_time_us'', CInt time), (''frame_index'', CInt (int frame_count)),
      (''draw_record_index'', CInt (int index)), (''source_sha256'', CStr digest),
      (''canvas_rows'', CInt (int (ge_rows geo))), (''canvas_columns'', CInt (int (ge_columns geo))),
      (''last_clear_record_index'', index_cell last_clear),
      (''last_invalidation_record_index'', index_cell last_invalid)]"

definition summary_row :: "geometry \<Rightarrow> row \<Rightarrow> nat \<Rightarrow> bool \<Rightarrow> row" where
  "summary_row geo common count cleared = row_update common
     (let blank = int (ge_rows geo * ge_columns geo) - int count in
      [(''row_kind'', CStr ''FRAME_SUMMARY''), (''known_glyph_count'', CInt (int count)),
       (''cleared_count'', CInt (if cleared then blank else 0)),
       (''unknown_count'', CInt (if cleared then 0 else blank))])"

definition cell_row :: "row \<Rightarrow> position \<times> glyph \<Rightarrow> row" where
  "cell_row common item = row_update common
     (case item of ((row, column), g) \<Rightarrow>
       [(''row_kind'', CStr ''GLYPH_CELL''), (''cell_row'', CInt (int row)), (''cell_column'', CInt (int column)),
        (''glyph_byte'', CInt (bval (gl_glyph g))), (''font_bank'', CInt (bval (gl_bank g))),
        (''blink_reported'', CBool (gl_blink g)), (''write_record_index'', CInt (int (gl_index g))),
        (''write_time_us'', CInt (gl_time g))])"

definition draw :: "geometry \<Rightarrow> string \<Rightarrow> nat \<Rightarrow> int \<Rightarrow> canvas_state \<Rightarrow> canvas_state result" where
  "draw geo digest index time st =
     (if cv_frames st \<ge> CANVAS_MAX_FRAMES then fail ''DRAW count exceeds bound''
      else let common = draw_common geo digest index time (cv_frames st) (cv_last_clear st) (cv_last_invalid st) in
        rbind (canvas_emit st (summary_row geo common (length (cv_written st)) (cv_cleared st))) (\<lambda>st1.
        rbind (run_items canvas_emit st1 (map (cell_row common) (sort_key fst (cv_written st)))) (\<lambda>st2.
          Inr (st2\<lparr>cv_frames := cv_frames st2 + 1, cv_last_draw := Some index\<rparr>))))"

definition canvas_operation ::
  "geometry \<Rightarrow> string \<Rightarrow> canvas_state \<Rightarrow> nat \<times> int \<times> bytes \<Rightarrow> canvas_state result" where
  "canvas_operation geo digest st item =
     (case item of (index, time, frame) \<Rightarrow>
       if frame ! 4 \<noteq> 182 then Inr st
       else let operation = frame ! 5 in
         if operation = 1 \<or> operation \<notin> {0, 1, 2, 3, 4} then Inr (invalidate index st)
         else if operation = 2 then Inr (clear_canvas index st)
         else if operation = 3 then write_glyphs geo index time frame st
         else if operation = 4 then draw geo digest index time st
         else Inr st)"

section \<open>The conversion\<close>

definition canvas_items :: "string list \<Rightarrow> string list list \<Rightarrow> (nat \<times> int \<times> bytes) list" where
  "canvas_items names records =
     map (\<lambda>(index, fs). (index, record_time names fs, record_frame names fs)) (enumerate 0 records)"

definition canvas_report ::
  "geometry \<Rightarrow> string \<Rightarrow> string list \<times> crsf_state \<Rightarrow> canvas_state \<Rightarrow> nat \<Rightarrow> json" where
  "canvas_report geo csv ops st last_draw =
     (let sha = (\<lambda>s. sha256_hex (utf8 s)); decoder = snd ops in
      JObj [(''schema'', JStr ''musubi.saved-displayport-canvas.v1''), (''clock'', JStr ''Unknown''),
        (''basis'', JStr ''CALLER_GEOMETRY_REPORTED_ADDRESS_MODEL_NOT_PHYSICAL_DISPLAY''),
        (''source_sha256'', JStr (sha csv)), (''operations_sha256'', JStr (sha (crsf_output ops))),
        (''canvas_sha256'', JStr (sha (csv_text CANVAS_FIELDS (cv_out st)))), (''decoder'', crsf_report_json decoder),
        (''frames'', JInt (int (cv_frames st))), (''canvas_rows'', JInt (int (cv_rows st))),
        (''glyph_rows'', JInt (int (cv_rows st) - int (cv_frames st))),
        (''source_records'', JInt (cs_source decoder)), (''operation_rows'', JInt (cs_decoded decoder)),
        (''trailing_source_records'', JInt (cs_source decoder - int last_draw - 1)),
        (''geometry'', JObj [(''rows'', JInt (int (ge_rows geo))), (''columns'', JInt (int (ge_columns geo)))]),
        (''limits'', JObj [(''input_bytes'', JInt (int CRSF_LIMIT)), (''operations_bytes'', JInt (int CRSF_LIMIT)),
           (''records'', JInt CANVAS_MAX_RECORDS), (''frames'', JInt (int CANVAS_MAX_FRAMES)),
           (''canvas_rows'', JInt (int CANVAS_MAX_ROWS)), (''canvas_bytes'', JInt (int CANVAS_MAX_OUTPUT)),
           (''report_bytes'', JInt (int CANVAS_MAX_REPORT))])])"

definition convert_canvas ::
  "string \<Rightarrow> int \<Rightarrow> int \<Rightarrow> ((string list \<times> crsf_state) \<times> canvas_state \<times> json) result" where
  "convert_canvas csv rows columns =
     (if \<not> (1 \<le> rows \<and> rows \<le> 256) \<or> \<not> (1 \<le> columns \<and> columns \<le> 256) \<or> rows * columns > 4096
      then fail ''caller geometry requires integers 1..256 and at most 4096 cells''
      else let geo = \<lparr>ge_rows = nat rows, ge_columns = nat columns\<rparr>; digest = sha256_ref (utf8 csv) in
        rbind (convert_crsf csv ''msp-displayport-bf452'' False False False) (\<lambda>ops.
        if cs_source (snd ops) > CANVAS_MAX_RECORDS \<or> length (crsf_output ops) > CRSF_LIMIT
        then fail ''source records or operations output exceed bound''
        else rbind (dict_fieldnames (csv_reader True csv)) (\<lambda>fieldnames.
        rbind (run_gen (\<lambda>st item. canvas_operation geo digest st item) canvas_init
                (canvas_items (case fieldnames of None \<Rightarrow> [] | Some names \<Rightarrow> names) (fst (dict_records (csv_reader True csv))),
                 snd (dict_records (csv_reader True csv)))) (\<lambda>st.
          case cv_last_draw st of
            None \<Rightarrow> fail ''no explicit DRAW; no completed reported frame''
          | Some last_draw \<Rightarrow>
              let report = canvas_report geo csv ops st last_draw in
              if length (dumps_indent 0 report) + 1 > CANVAS_MAX_REPORT then fail ''report exceeds bound''
              else Inr (ops, st, report)))))"

section \<open>The screen the canvas stands for\<close>

text \<open>
  The abstract screen says of every position what is known of it. It has no dictionary and no
  flag: an operation maps screens to screens, and a draw lists the grid in reading order.
\<close>

datatype known = Unknown | Cleared | Glyph glyph

type_synonym screen = "position \<Rightarrow> known"

definition canvas_screen :: "canvas_state \<Rightarrow> screen" where
  "canvas_screen st p = (case map_of (cv_written st) p of Some g \<Rightarrow> Glyph g
     | None \<Rightarrow> if cv_cleared st then Cleared else Unknown)"

definition draws :: "bytes \<Rightarrow> bool" where
  "draws frame \<longleftrightarrow> frame ! 4 = 182 \<and> frame ! 5 = 4"

definition invalidates :: "bytes \<Rightarrow> bool" where
  "invalidates frame \<longleftrightarrow> frame ! 4 = 182 \<and> frame ! 5 \<notin> {0, 2, 3, 4}"

definition clears :: "bytes \<Rightarrow> bool" where
  "clears frame \<longleftrightarrow> frame ! 4 = 182 \<and> frame ! 5 = 2"

definition writes :: "bytes \<Rightarrow> bool" where
  "writes frame \<longleftrightarrow> frame ! 4 = 182 \<and> frame ! 5 = 3"

definition screen_step :: "nat \<times> int \<times> bytes \<Rightarrow> screen \<Rightarrow> screen" where
  "screen_step item s =
     (case item of (index, time, frame) \<Rightarrow>
       if invalidates frame then \<lambda>p. Unknown
       else if clears frame then \<lambda>p. Cleared
       else if writes frame
       then \<lambda>p. case map_of (write_cells index time frame) p of Some g \<Rightarrow> Glyph g | None \<Rightarrow> s p
       else s)"

definition grid :: "geometry \<Rightarrow> position list" where
  "grid geo = List.product [0..<ge_rows geo] [0..<ge_columns geo]"

fun glyph_at :: "screen \<Rightarrow> position \<Rightarrow> (position \<times> glyph) list" where
  "glyph_at s p = (case s p of Glyph g \<Rightarrow> [(p, g)] | _ \<Rightarrow> [])"

declare glyph_at.simps [simp del]

definition screen_glyphs :: "geometry \<Rightarrow> screen \<Rightarrow> (position \<times> glyph) list" where
  "screen_glyphs geo s = concat (map (glyph_at s) (grid geo))"

definition positions_of :: "geometry \<Rightarrow> screen \<Rightarrow> known \<Rightarrow> nat" where
  "positions_of geo s k = length (filter (\<lambda>p. s p = k) (grid geo))"

definition screen_rows :: "geometry \<Rightarrow> row \<Rightarrow> screen \<Rightarrow> row list" where
  "screen_rows geo common s =
     row_update common
       [(''row_kind'', CStr ''FRAME_SUMMARY''), (''known_glyph_count'', CInt (int (length (screen_glyphs geo s)))),
        (''cleared_count'', CInt (int (positions_of geo s Cleared))),
        (''unknown_count'', CInt (int (positions_of geo s Unknown)))]
     # map (cell_row common) (screen_glyphs geo s)"

fun screen_run ::
  "geometry \<Rightarrow> string \<Rightarrow> screen \<Rightarrow> nat option \<Rightarrow> nat option \<Rightarrow> nat \<Rightarrow> (nat \<times> int \<times> bytes) list \<Rightarrow> row list" where
  "screen_run geo digest s last_clear last_invalid drawn [] = []"
| "screen_run geo digest s last_clear last_invalid drawn ((index, time, frame) # items) =
     (if draws frame
      then screen_rows geo (draw_common geo digest index time drawn last_clear last_invalid) s
        @ screen_run geo digest s last_clear last_invalid (Suc drawn) items
      else screen_run geo digest (screen_step (index, time, frame) s)
        (if clears frame then Some index else last_clear)
        (if invalidates frame then Some index else last_invalid) drawn items)"

section \<open>The canvas refines the screen\<close>

definition canvas_ok :: "geometry \<Rightarrow> canvas_state \<Rightarrow> bool" where
  "canvas_ok geo st \<longleftrightarrow> distinct (map fst (cv_written st)) \<and> fst ` set (cv_written st) \<subseteq> set (grid geo) \<and>
     cv_rows st = length (cv_out st)"

lemma sorted_product:
  "sorted_wrt (<) (xs :: nat list) \<Longrightarrow> sorted_wrt (<) (ys :: nat list) \<Longrightarrow> sorted_wrt (<) (List.product xs ys)"
  by (induction xs) (auto simp: sorted_wrt_append sorted_wrt_map)

lemma sorted_grid: "sorted_wrt (<) (grid geo)"
  unfolding grid_def by (intro sorted_product) (simp_all add: sorted_wrt_upt)

lemma screen_glyphs_keys: "map fst (screen_glyphs geo s) = filter (\<lambda>p. glyph_at s p \<noteq> []) (grid geo)"
proof -
  have "map fst (concat (map (glyph_at s) ps)) = filter (\<lambda>p. glyph_at s p \<noteq> []) ps" for ps
    by (induction ps) (auto simp: glyph_at.simps split: known.split)
  then show ?thesis by (simp add: screen_glyphs_def)
qed

lemma set_screen_glyphs: "(p, g) \<in> set (screen_glyphs geo s) \<longleftrightarrow> p \<in> set (grid geo) \<and> s p = Glyph g"
  by (auto simp: screen_glyphs_def glyph_at.simps split: known.split_asm intro: exI [of _ p])

lemma canvas_screen_Glyph: "canvas_screen st p = Glyph g \<longleftrightarrow> map_of (cv_written st) p = Some g"
  by (auto simp: canvas_screen_def split: option.split)

text \<open>Sorting the dictionary by position lists the glyphs of the screen in reading order.\<close>

lemma sorted_keys_unique:
  assumes "sorted_wrt (<) (map fst xs)" "sorted_wrt (<) (map fst ys)" "set xs = set (ys :: ('k :: linorder \<times> 'v) list)"
  shows "xs = ys"
proof -
  have keys: "map fst xs = map fst ys"
    using assms by (intro sorted_distinct_set_unique) (auto simp: strict_sorted_iff)
  have d: "distinct (map fst ys)" using assms(2) by (simp add: strict_sorted_iff)
  show ?thesis
  proof (rule nth_equalityI)
    show len: "length xs = length ys" using keys by (metis length_map)
    fix i assume i: "i < length xs"
    then have "xs ! i \<in> set ys" using assms(3) nth_mem by blast
    then obtain j where j: "j < length ys" "ys ! j = xs ! i" by (auto simp: in_set_conv_nth)
    then have "map fst ys ! j = map fst ys ! i" using keys i len by (metis nth_map)
    with nth_eq_iff_index_eq [OF d, of j i] j(1) i len have "j = i" by simp
    with j show "xs ! i = ys ! i" by simp
  qed
qed

lemma screen_glyphs_sorted:
  assumes "canvas_ok geo st"
  shows "sort_key fst (cv_written st) = screen_glyphs geo (canvas_screen st)"
proof (rule sorted_keys_unique)
  have "distinct (map fst (sort_key fst (cv_written st)))"
    using assms distinct_map [of fst "cv_written st"] by (simp add: canvas_ok_def distinct_map)
  then show "sorted_wrt (<) (map fst (sort_key fst (cv_written st)))" by (simp add: strict_sorted_iff)
  show "sorted_wrt (<) (map fst (screen_glyphs geo (canvas_screen st)))"
    unfolding screen_glyphs_keys by (rule sorted_wrt_filter [OF sorted_grid])
  have "x \<in> set (cv_written st) \<longleftrightarrow> x \<in> set (screen_glyphs geo (canvas_screen st))" for x
    using assms by (cases x) (force simp: set_screen_glyphs canvas_screen_Glyph canvas_ok_def)
  then show "set (sort_key fst (cv_written st)) = set (screen_glyphs geo (canvas_screen st))" by auto
qed

lemma screen_counts:
  assumes "canvas_ok geo st"
  shows "length (screen_glyphs geo (canvas_screen st)) = length (cv_written st)"
    and "positions_of geo (canvas_screen st) Cleared =
      (if cv_cleared st then ge_rows geo * ge_columns geo - length (cv_written st) else 0)"
    and "positions_of geo (canvas_screen st) Unknown =
      (if cv_cleared st then 0 else ge_rows geo * ge_columns geo - length (cv_written st))"
    and "length (cv_written st) \<le> ge_rows geo * ge_columns geo"
proof -
  let ?s = "canvas_screen st"
  show n: "length (screen_glyphs geo ?s) = length (cv_written st)"
    using arg_cong [OF screen_glyphs_sorted [OF assms], of length] by simp
  have "length (screen_glyphs geo ?s) = length (filter (\<lambda>p. glyph_at ?s p \<noteq> []) (grid geo))"
    by (metis length_map screen_glyphs_keys)
  moreover have "length (filter (\<lambda>p. glyph_at ?s p \<noteq> []) (grid geo)) + length (filter (\<lambda>p. \<not> glyph_at ?s p \<noteq> []) (grid geo))
      = ge_rows geo * ge_columns geo"
    by (simp only: sum_length_filter_compl) (simp add: grid_def)
  ultimately have split: "length (cv_written st) + length (filter (\<lambda>p. glyph_at ?s p = []) (grid geo)) = ge_rows geo * ge_columns geo"
    using n by simp
  then show "length (cv_written st) \<le> ge_rows geo * ge_columns geo" by simp
  have blank: "glyph_at ?s p = [] \<longleftrightarrow> ?s p = (if cv_cleared st then Cleared else Unknown)" for p
    by (auto simp: glyph_at.simps canvas_screen_def split: option.split)
  have other: "?s p \<noteq> (if cv_cleared st then Unknown else Cleared)" for p
    by (auto simp: canvas_screen_def split: option.split)
  show "positions_of geo ?s Cleared =
      (if cv_cleared st then ge_rows geo * ge_columns geo - length (cv_written st) else 0)"
    using split blank other by (cases "cv_cleared st") (simp_all add: positions_of_def)
  show "positions_of geo ?s Unknown =
      (if cv_cleared st then 0 else ge_rows geo * ge_columns geo - length (cv_written st))"
    using split blank other by (cases "cv_cleared st") (simp_all add: positions_of_def)
qed

lemma drawn_rows:
  assumes "canvas_ok geo st"
  shows "summary_row geo common (length (cv_written st)) (cv_cleared st)
      # map (cell_row common) (sort_key fst (cv_written st)) = screen_rows geo common (canvas_screen st)"
  unfolding screen_rows_def screen_glyphs_sorted [OF assms] screen_counts [OF assms]
  using screen_counts(4) [OF assms] by (simp add: summary_row_def Let_def of_nat_diff)

definition same_screen :: "canvas_state \<Rightarrow> canvas_state \<Rightarrow> bool" where
  "same_screen st st' \<longleftrightarrow> cv_written st' = cv_written st \<and> cv_cleared st' = cv_cleared st \<and>
     cv_last_clear st' = cv_last_clear st \<and> cv_last_invalid st' = cv_last_invalid st"

lemma canvas_emit_Inr:
  "canvas_emit st r = Inr st' \<Longrightarrow> st' = st\<lparr>cv_out := cv_out st @ [r], cv_rows := cv_rows st + 1\<rparr> \<and> cv_rows st' \<le> CANVAS_MAX_ROWS"
  unfolding canvas_emit_def by (elim if_failE rbind_InrE) (auto simp: write_row_Inr)

lemma emit_rows:
  assumes "run_items canvas_emit st rs = Inr st'" and "cv_rows st = length (cv_out st)"
  shows "same_screen st st' \<and> cv_frames st' = cv_frames st \<and> cv_out st' = cv_out st @ rs \<and> cv_rows st' = length (cv_out st')"
  using assms
proof (induction rs arbitrary: st)
  case (Cons r rs)
  from Cons.prems(1) obtain st1 where e: "canvas_emit st r = Inr st1" and rest: "run_items canvas_emit st1 rs = Inr st'"
    by (auto simp: result_simps)
  note st1 = canvas_emit_Inr [OF e, THEN conjunct1]
  have "cv_rows st1 = length (cv_out st1)" using Cons.prems(2) by (simp add: st1)
  from Cons.IH [OF rest this] show ?case by (simp add: st1 same_screen_def)
qed (simp add: same_screen_def)

lemma draw_rows:
  assumes "draw geo digest index time st = Inr st'" and ok: "canvas_ok geo st"
  shows "canvas_ok geo st' \<and> canvas_screen st' = canvas_screen st \<and> same_screen st st' \<and>
    cv_frames st' = Suc (cv_frames st) \<and>
    cv_out st' = cv_out st @ screen_rows geo
      (draw_common geo digest index time (cv_frames st) (cv_last_clear st) (cv_last_invalid st)) (canvas_screen st)"
proof -
  let ?common = "draw_common geo digest index time (cv_frames st) (cv_last_clear st) (cv_last_invalid st)"
  let ?rs = "summary_row geo ?common (length (cv_written st)) (cv_cleared st) # map (cell_row ?common) (sort_key fst (cv_written st))"
  from assms(1) obtain st1 st2 where one: "canvas_emit st (hd ?rs) = Inr st1"
    and two: "run_items canvas_emit st1 (tl ?rs) = Inr st2"
    and st': "st2\<lparr>cv_frames := cv_frames st2 + 1, cv_last_draw := Some index\<rparr> = st'"
    unfolding draw_def Let_def by (elim if_failE rbind_InrE) (simp only: sum.inject list.sel)
  have "run_items canvas_emit st ?rs = Inr st2" using one two by simp
  from emit_rows [OF this] ok have st2: "same_screen st st2" "cv_frames st2 = cv_frames st"
      "cv_out st2 = cv_out st @ ?rs" "cv_rows st2 = length (cv_out st2)"
    by (auto simp: canvas_ok_def)
  with ok st' [symmetric] show ?thesis
    unfolding drawn_rows [OF ok] by (auto simp: same_screen_def canvas_ok_def canvas_screen_def fun_eq_iff)
qed

lemma fold_update:
  assumes "distinct (map fst w)"
  shows "distinct (map fst (fold (\<lambda>(p, g). AList.update p g) cs w)) \<and>
    fst ` set (fold (\<lambda>(p, g). AList.update p g) cs w) = fst ` set w \<union> fst ` set cs \<and>
    map_of (fold (\<lambda>(p, g). AList.update p g) cs w) = map_of w ++ map_of (rev cs)"
  using assms
proof (induction cs arbitrary: w)
  case (Cons c cs)
  obtain p g where c: "c = (p, g)" by fastforce
  have "distinct (map fst (AList.update p g w))" using Cons.prems by (rule distinct_update)
  moreover have "fst ` set (AList.update p g w) = insert p (fst ` set w)"
    by (induction w) auto
  ultimately show ?case
    using Cons.IH [of "AList.update p g w"] by (auto simp: c update_conv' fun_eq_iff map_add_def split: option.split)
qed simp

lemma write_cells_keys:
  "map fst (write_cells index time frame) =
    map (\<lambda>offset. (unat (frame ! 6), unat (frame ! 7) + offset)) [0..<length (bslice frame 9 (length frame - 1))]"
  by (rule nth_equalityI) (simp_all add: write_cells_def Let_def enumerate_eq_zip)

lemma write_glyphs_screen:
  assumes "write_glyphs geo index time frame st = Inr st'" and ok: "canvas_ok geo st"
  shows "canvas_ok geo st' \<and> cv_out st' = cv_out st \<and> cv_frames st' = cv_frames st \<and>
    cv_last_clear st' = cv_last_clear st \<and> cv_last_invalid st' = cv_last_invalid st \<and>
    canvas_screen st' = (\<lambda>p. case map_of (write_cells index time frame) p of Some g \<Rightarrow> Glyph g | None \<Rightarrow> canvas_screen st p)"
proof -
  let ?cs = "write_cells index time frame"
  from assms(1) have inside: "unat (frame ! 6) < ge_rows geo"
      "unat (frame ! 7) + length (bslice frame 9 (length frame - 1)) \<le> ge_columns geo"
    and st': "st' = st\<lparr>cv_written := fold (\<lambda>(p, g). AList.update p g) ?cs (cv_written st)\<rparr>"
    by (auto simp: write_glyphs_def Let_def split: if_splits)
  have d: "distinct (map fst ?cs)"
    unfolding write_cells_keys by (auto simp: distinct_map inj_on_def)
  then have rev: "map_of (rev ?cs) = map_of ?cs" by (subst map_of_inject_set) (simp_all add: rev_map [symmetric])
  have keys: "fst ` set ?cs \<subseteq> set (grid geo)"
    using inside unfolding set_map [symmetric] write_cells_keys by (auto simp: grid_def)
  have w: "distinct (map fst (cv_written st))" using ok by (simp add: canvas_ok_def)
  from fold_update [OF w, of ?cs] keys ok show ?thesis
    by (auto simp: st' canvas_ok_def canvas_screen_def fun_eq_iff rev map_add_def split: option.split)
qed

lemma operation_refines:
  assumes "canvas_operation geo digest st (index, time, frame) = Inr st'" and ok: "canvas_ok geo st"
  shows "canvas_ok geo st' \<and>
    canvas_screen st' = (if draws frame then canvas_screen st else screen_step (index, time, frame) (canvas_screen st)) \<and>
    cv_last_clear st' = (if clears frame then Some index else cv_last_clear st) \<and>
    cv_last_invalid st' = (if invalidates frame then Some index else cv_last_invalid st) \<and>
    cv_frames st' = (if draws frame then Suc (cv_frames st) else cv_frames st) \<and>
    cv_out st' = cv_out st @ (if draws frame then screen_rows geo
      (draw_common geo digest index time (cv_frames st) (cv_last_clear st) (cv_last_invalid st)) (canvas_screen st) else [])"
proof -
  note kinds = draws_def clears_def invalidates_def writes_def
  consider "frame ! 4 \<noteq> 182" | "invalidates frame" | "clears frame" | "writes frame" | "draws frame"
    | "frame ! 4 = 182" "frame ! 5 = 0" by (auto simp: kinds)
  then show ?thesis
  proof cases
    case 4
    with assms(1) have "write_glyphs geo index time frame st = Inr st'" by (simp add: canvas_operation_def kinds)
    from write_glyphs_screen [OF this ok] 4 show ?thesis by (simp add: screen_step_def kinds)
  next
    case 5
    with assms(1) have "draw geo digest index time st = Inr st'" by (simp add: canvas_operation_def kinds)
    from draw_rows [OF this ok] 5 show ?thesis by (simp add: same_screen_def kinds)
  qed (use assms in \<open>auto simp: canvas_operation_def kinds screen_step_def invalidate_def clear_canvas_def canvas_ok_def
    canvas_screen_def fun_eq_iff\<close>)
qed

lemma canvas_run_refines:
  assumes "run_items (canvas_operation geo digest) st items = Inr st'" and "canvas_ok geo st"
  shows "canvas_ok geo st' \<and> cv_out st' = cv_out st @ screen_run geo digest (canvas_screen st) (cv_last_clear st)
    (cv_last_invalid st) (cv_frames st) items"
  using assms
proof (induction items arbitrary: st)
  case (Cons item items)
  obtain index time frame where item: "item = (index, time, frame)" by (cases item) auto
  from Cons.prems(1) obtain st1 where one: "canvas_operation geo digest st (index, time, frame) = Inr st1"
    and rest: "run_items (canvas_operation geo digest) st1 items = Inr st'" by (auto simp: item result_simps)
  note st1 = operation_refines [OF one Cons.prems(2)]
  from Cons.IH [OF rest st1 [THEN conjunct1]] st1 show ?case
    by (auto simp: item draws_def clears_def invalidates_def)
qed simp

lemma convert_canvas_InrE:
  assumes "convert_canvas csv rows columns = Inr (ops, st, report)"
  obtains names where "dict_fieldnames (csv_reader True csv) = Inr (Some names)"
    and "convert_crsf csv ''msp-displayport-bf452'' False False False = Inr ops"
    and "run_items (canvas_operation \<lparr>ge_rows = nat rows, ge_columns = nat columns\<rparr> (sha256_ref (utf8 csv))) canvas_init
      (canvas_items names (fst (dict_records (csv_reader True csv)))) = Inr st"
    and "cv_last_draw st \<noteq> None" and "1 \<le> rows" "1 \<le> columns" "rows * columns \<le> 4096"
proof -
  from assms obtain fieldnames where crsf: "convert_crsf csv ''msp-displayport-bf452'' False False False = Inr ops"
    and f: "dict_fieldnames (csv_reader True csv) = Inr fieldnames"
    and run: "run_gen (canvas_operation \<lparr>ge_rows = nat rows, ge_columns = nat columns\<rparr> (sha256_ref (utf8 csv))) canvas_init
      (canvas_items (case fieldnames of None \<Rightarrow> [] | Some names \<Rightarrow> names) (fst (dict_records (csv_reader True csv))),
       snd (dict_records (csv_reader True csv))) = Inr st"
    and rest: "cv_last_draw st \<noteq> None" "1 \<le> rows" "1 \<le> columns" "rows * columns \<le> 4096"
    unfolding convert_canvas_def Let_def
    by - (elim if_failE rbind_InrE, auto split: option.splits if_splits)
  obtain cols cst where "ops = (cols, cst)" by fastforce
  with crsf convert_crsf_InrE [of csv _ False False False cols cst] obtain names where
    "dict_fieldnames (csv_reader True csv) = Inr (Some names)" by metis
  with f run that [OF _ crsf _ rest] show thesis by (auto simp: run_gen_Inr_iff)
qed

text \<open>C25. The canvas rows are those of an abstract screen on which every position is unknown, cleared
  or a glyph: each draw lists, after its counts, exactly the glyph positions of the grid in
  reading order, with the glyph last written there, and the three counts add up to the grid.\<close>

theorem canvas_refines_screen:
  assumes "convert_canvas csv rows columns = Inr (ops, st, report)"
  shows "\<exists>names. dict_fieldnames (csv_reader True csv) = Inr (Some names) \<and>
    cv_out st = screen_run \<lparr>ge_rows = nat rows, ge_columns = nat columns\<rparr> (sha256_ref (utf8 csv)) (\<lambda>p. Unknown) None None 0
      (canvas_items names (fst (dict_records (csv_reader True csv)))) \<and>
    cv_rows st = length (cv_out st) \<and>
    length (screen_glyphs \<lparr>ge_rows = nat rows, ge_columns = nat columns\<rparr> (canvas_screen st)) +
      positions_of \<lparr>ge_rows = nat rows, ge_columns = nat columns\<rparr> (canvas_screen st) Cleared +
      positions_of \<lparr>ge_rows = nat rows, ge_columns = nat columns\<rparr> (canvas_screen st) Unknown = nat (rows * columns)"
proof -
  let ?geo = "\<lparr>ge_rows = nat rows, ge_columns = nat columns\<rparr>"
  from convert_canvas_InrE [OF assms] obtain names where names: "dict_fieldnames (csv_reader True csv) = Inr (Some names)"
    and run: "run_items (canvas_operation ?geo (sha256_ref (utf8 csv))) canvas_init
      (canvas_items names (fst (dict_records (csv_reader True csv)))) = Inr st"
    and size: "1 \<le> rows" "1 \<le> columns" by metis
  have blank: "canvas_screen canvas_init = (\<lambda>p. Unknown)" by (simp add: fun_eq_iff canvas_screen_def canvas_init_def)
  have "canvas_ok ?geo canvas_init" by (simp add: canvas_ok_def canvas_init_def)
  from canvas_run_refines [OF run this] have ok: "canvas_ok ?geo st"
    and out: "cv_out st = screen_run ?geo (sha256_ref (utf8 csv)) (\<lambda>p. Unknown) None None 0
      (canvas_items names (fst (dict_records (csv_reader True csv))))"
    by (auto simp: blank) (simp_all add: canvas_init_def)
  have "ge_rows ?geo * ge_columns ?geo = nat (rows * columns)" using size by (simp add: nat_mult_distrib)
  then have "length (screen_glyphs ?geo (canvas_screen st)) + positions_of ?geo (canvas_screen st) Cleared
      + positions_of ?geo (canvas_screen st) Unknown = nat (rows * columns)"
    using screen_counts [OF ok] by simp
  with names out ok show ?thesis by (auto simp: canvas_ok_def)
qed

definition canvas_sample_rows :: "string list list" where
  "canvas_sample_rows = [[''time_us'', ''frame_hex''], [''5'', ''244d3e01b604b3'']]"

definition canvas_sample :: string where
  "canvas_sample = concat (map csv_line canvas_sample_rows)"

abbreviation draw_frame :: bytes where
  "draw_frame \<equiv> [0x24, 0x4D, 0x3E, 1, 0xB6, 4, 0xB3]"

lemma canvas_sample_read: "csv_reader True canvas_sample = (canvas_sample_rows, None)"
  unfolding canvas_sample_def by (rule csv_reader_plain) (simp add: canvas_sample_rows_def plain_row_eval)

lemma canvas_sample_record:
  "\<exists>st. crsf_record \<lparr>co_kind = ''msp-displayport-bf452'', co_compare = False, co_codes = False,
       co_names = [''time_us'', ''frame_hex'']\<rparr> crsf_init (2, [''5'', ''244d3e01b604b3'']) = Inr st \<and>
     cs_decoded st = 1 \<and> cs_source st = 1 \<and> cs_unsupported st = [] \<and>
     length (csv_text (crsf_columns \<lparr>co_kind = ''msp-displayport-bf452'', co_compare = False, co_codes = False,
       co_names = [''time_us'', ''frame_hex'']\<rparr>) (cs_out st)) \<le> CRSF_LIMIT"
proof -
  let ?kind = "''msp-displayport-bf452''"
  let ?opt = "\<lparr>co_kind = ?kind, co_compare = False, co_codes = False, co_names = [''time_us'', ''frame_hex'']\<rparr>"
  let ?raw = "raw_record ?opt [''5'', ''244d3e01b604b3'']"
  let ?vals = "[CStr ''DRAW_REPORTED'', CNone, CNone, CNone, CNone, CNone, CNone]"
  let ?row = "crsf_cells ?opt 5 draw_frame ?raw ?vals"
  have frame: "from_hex ''244d3e01b604b3'' = draw_frame" "frame_pattern ?kind ''244d3e01b604b3''"
    by (simp_all add: hex_value_def is_digit_def frame_pattern_def is_msp_def hex_text_def)
  have time: "capture_time None ''5'' = Inr 5"
    by (simp add: capture_time_def digits_text_def is_digit_def decimal_value_def)
  have kind: "is_display ?kind" "is_msp ?kind" "\<not> is_sport ?kind" "\<not> is_channels ?kind" "\<not> is_battery ?kind"
    by (simp_all add: is_channels_def CHANNEL_KIND_def is_sport_def is_display_def is_msp_def is_battery_def)
  have mtype: "message_type ?kind draw_frame = Inr 182"
    by (simp add: message_type_def kind xor_bytes_def bval_def)
  have selected: "selected_type ?kind = 182" by (simp add: selected_type_def kind)
  have vals: "crsf_values ?kind False False draw_frame = Inr ?vals"
    by (simp add: crsf_values_def kind display_values_def bslice_def Let_def replicate_numeral_Cons)
  have raw: "length ?raw = 44"
    by (simp add: raw_record_def dumps_texts_def text_row_def json_raw_string_def json_raw_char_def)
  have cols: "crsf_columns ?opt = [''record_time_us'', ''destination_address'', ''source_frame_hex'', ''source_record_hex'']
      @ DISPLAY_FIELDS"
    by (simp add: crsf_columns_def crsf_fields_def kind)
  have row: "?row = [(''record_time_us'', CInt 5), (''destination_address'', CNone), (''source_frame_hex'',
      CStr (''hex:'' @ hex_of draw_frame)), (''source_record_hex'', CStr (''hex:'' @ hex_of (utf8 ?raw)))]
      @ zip DISPLAY_FIELDS ?vals"
    by (simp add: crsf_cells_def kind crsf_fields_def)
  have cells: "\<forall>r \<in> set [?row]. \<forall>kv \<in> set r. length (cell_text (snd kv)) \<le> 200"
    unfolding row by (simp add: DISPLAY_FIELDS_def int_text_def nat_digits.simps utf8_def raw)
  have bound: "length (csv_text (crsf_columns ?opt) [?row]) \<le> CRSF_LIMIT"
    by (rule order_trans [OF csv_text_cap [OF cells]]) (simp add: cols DISPLAY_FIELDS_def CRSF_LIMIT_def)
  have "row_keys ?row \<subseteq> set (crsf_columns ?opt)" unfolding row cols by (simp add: DISPLAY_FIELDS_def)
  then have written: "write_row (crsf_columns ?opt) ?row [] = Inr [?row]" by (simp add: write_row_Inr)
  let ?st = "crsf_init\<lparr>cs_previous := Some 5, cs_source := 1, cs_out := [?row], cs_decoded := 1\<rparr>"
  have "crsf_decode ?opt 5 draw_frame ?raw (crsf_init\<lparr>cs_previous := Some 5, cs_source := 1\<rparr>) = Inr ?st"
    using bound written by (simp add: crsf_decode_def vals crsf_init_def)
  then have "crsf_record ?opt crsf_init (2, [''5'', ''244d3e01b604b3'']) = Inr ?st"
    unfolding crsf_record_def Let_def
    by (simp add: text_row_def text_get_def frame time mtype raw selected is_selected_def crsf_init_def del: from_hex.simps)
  with bound show ?thesis by (intro exI [of _ ?st]) (simp add: crsf_init_def)
qed

lemma canvas_sample_converts: "\<exists>ops st report. convert_canvas canvas_sample 1 2 = Inr (ops, st, report)"
proof -
  let ?opt = "\<lparr>co_kind = ''msp-displayport-bf452'', co_compare = False, co_codes = False,
       co_names = [''time_us'', ''frame_hex'']\<rparr>"
  let ?geo = "\<lparr>ge_rows = 1, ge_columns = 2\<rparr>" and ?digest = "sha256_ref (utf8 canvas_sample)"
  have len: "length canvas_sample \<le> CRSF_LIMIT"
    by (simp add: canvas_sample_def canvas_sample_rows_def csv_eval CRSF_LIMIT_def)
  have names: "dict_fieldnames (canvas_sample_rows, None) = Inr (Some [''time_us'', ''frame_hex''])"
    "capture_names (Some [''time_us'', ''frame_hex'']) = Inr [''time_us'', ''frame_hex'']"
    by (simp_all add: dict_fieldnames_def canvas_sample_rows_def capture_names_def order_le_less_trans [OF str_len_le])
  have records: "dict_records (canvas_sample_rows, None) = ([[''5'', ''244d3e01b604b3'']], None)"
    by (simp add: dict_records_def canvas_sample_rows_def)
  obtain st where st: "crsf_record ?opt crsf_init (2, [''5'', ''244d3e01b604b3'']) = Inr st" "cs_decoded st = 1"
      "cs_source st = 1" "cs_unsupported st = []" "length (csv_text (crsf_columns ?opt) (cs_out st)) \<le> CRSF_LIMIT"
    using canvas_sample_record by blast
  have "run_gen (crsf_record ?opt) crsf_init (crsf_items (canvas_sample_rows, None)) = Inr st"
    by (simp add: crsf_items_def records Let_def run_gen_def st(1) [unfolded numeral_2_eq_2])
  then have crsf: "convert_crsf canvas_sample ''msp-displayport-bf452'' False False False = Inr (crsf_columns ?opt, st)"
    unfolding convert_crsf_def canvas_sample_read names rbind_simps Let_def
    using len st(2) by (simp add: KINDS_def)
  let ?common = "draw_common ?geo ?digest 0 5 0 None None"
  let ?row = "summary_row ?geo ?common 0 False"
  have keys: "row_keys ?row \<subseteq> set CANVAS_FIELDS"
    by (simp add: summary_row_def draw_common_def CANVAS_FIELDS_def Let_def)
  have cells: "\<forall>r \<in> set [?row]. \<forall>kv \<in> set r. length (cell_text (snd kv)) \<le> 200"
    by (simp add: summary_row_def draw_common_def row_update_def index_cell_def int_text_def nat_digits.simps Let_def)
  have bound: "length (csv_text CANVAS_FIELDS [?row]) \<le> CANVAS_MAX_OUTPUT"
    by (rule order_trans [OF csv_text_cap [OF cells]]) (simp add: CANVAS_FIELDS_def CANVAS_MAX_OUTPUT_def)
  let ?st = "canvas_init\<lparr>cv_out := [?row], cv_rows := 1, cv_frames := 1, cv_last_draw := Some 0\<rparr>"
  have c0: "cv_out canvas_init = []" "cv_rows canvas_init = 0" by (simp_all add: canvas_init_def)
  have written: "write_row CANVAS_FIELDS ?row [] = Inr [?row]" using keys by (simp add: write_row_Inr)
  have "canvas_emit canvas_init ?row = Inr (canvas_init\<lparr>cv_out := [?row], cv_rows := 1\<rparr>)"
    unfolding canvas_emit_def c0 written rbind_simps using bound by (simp add: CANVAS_MAX_ROWS_def)
  then have "draw ?geo ?digest 0 5 canvas_init = Inr ?st"
    by (simp add: draw_def canvas_init_def CANVAS_MAX_FRAMES_def)
  then have "canvas_operation ?geo ?digest canvas_init (0, 5, draw_frame) = Inr ?st"
    by (simp add: canvas_operation_def)
  moreover have "canvas_items [''time_us'', ''frame_hex''] [[''5'', ''244d3e01b604b3'']] = [(0, 5, draw_frame)]"
    by (simp add: canvas_items_def record_time_def record_frame_def text_row_def text_get_def decimal_value_def
      hex_value_def is_digit_def)
  ultimately have run: "run_gen (canvas_operation ?geo ?digest) canvas_init
      (canvas_items [''time_us'', ''frame_hex''] [[''5'', ''244d3e01b604b3'']], None) = Inr ?st"
    by (simp add: run_gen_def)
  let ?report = "canvas_report ?geo canvas_sample (crsf_columns ?opt, st) ?st 0"
  have "indent_size 0 ?report \<le> 50000"
    by (simp add: canvas_report_def crsf_report_json_def st Let_def json_size_eval sha256_hex_def canvas_init_def
      CRSF_LIMIT_def CANVAS_MAX_RECORDS_def CANVAS_MAX_FRAMES_def CANVAS_MAX_ROWS_def CANVAS_MAX_OUTPUT_def CANVAS_MAX_REPORT_def)
  with dumps_indent_size [of 0 ?report] have "length (dumps_indent 0 ?report) + 1 \<le> CANVAS_MAX_REPORT"
    by (simp add: CANVAS_MAX_REPORT_def)
  moreover have "nat 1 = 1" "nat 2 = 2" by simp_all
  ultimately show ?thesis
    unfolding convert_canvas_def Let_def crsf rbind_simps canvas_sample_read names records fst_conv snd_conv option.case
    using st run by (auto simp: CANVAS_MAX_RECORDS_def crsf_output_def canvas_init_def Let_def)
qed

theorem canvas_refines_screen_witness:
  "\<exists>ops st report. convert_canvas canvas_sample 1 2 = Inr (ops, st, report) \<and>
    length (screen_glyphs \<lparr>ge_rows = nat 1, ge_columns = nat 2\<rparr> (canvas_screen st)) +
      positions_of \<lparr>ge_rows = nat 1, ge_columns = nat 2\<rparr> (canvas_screen st) Cleared +
      positions_of \<lparr>ge_rows = nat 1, ge_columns = nat 2\<rparr> (canvas_screen st) Unknown = 2"
proof -
  obtain ops st report where c: "convert_canvas canvas_sample 1 2 = Inr (ops, st, report)"
    using canvas_sample_converts by blast
  from canvas_refines_screen [OF c] c show ?thesis by fastforce
qed

end
