(* ===== verification/Crsf_Native.thy ===== *)
theory Crsf_Native
  imports Crsf_Link Canvas
begin

unbundle bit_operations_syntax

text \<open>
  Native serial captures: the S.Port and MSP framing loops of \<^verbatim>\<open>scripts/convert_crsf_link.py\<close>, the
  derived frame table they hand to \<^verbatim>\<open>convert\<close>, and the provenance columns they add to its rows.
\<close>

section \<open>Packets and discarded ranges\<close>

definition MAX_NATIVE_PACKETS :: nat where "MAX_NATIVE_PACKETS = 65536"
definition MAX_DISCARDED_RANGES :: nat where "MAX_DISCARDED_RANGES = 65536"
definition MAX_WINDOW_PACKETS :: nat where "MAX_WINDOW_PACKETS = 5000000"

definition PROVENANCE :: "string list" where
  "PROVENANCE = [''source_input_sha256'', ''source_packet_index'', ''source_start_offset'',
     ''source_stop_offset_exclusive'', ''source_wire_hex'']"

definition derived_columns :: "string list" where
  "derived_columns = [''time_us'', ''frame_hex''] @ PROVENANCE"

record discarded_range =
  dr_start :: nat
  dr_stop :: nat
  dr_reason :: string

record native_acc =
  na_rows :: "row list"
  na_discarded :: "discarded_range list"
  na_summary :: "(string \<times> int) list"
  na_count :: nat
  na_bytes :: nat

definition native_init :: native_acc where
  "native_init = \<lparr>na_rows = [], na_discarded = [], na_summary = [], na_count = 0, na_bytes = 0\<rparr>"

text \<open>What both framing loops are given: the label of their errors, the window, the clock and the bytes.\<close>

record native_input =
  ni_label :: string
  ni_window :: "(nat \<times> nat) option"
  ni_capture :: int
  ni_data :: bytes

fun add_count :: "'k \<Rightarrow> int \<Rightarrow> ('k \<times> int) list \<Rightarrow> ('k \<times> int) list" where
  "add_count k n [] = [(k, n)]"
| "add_count k n ((k', m) # d) = (if k = k' then (k', m + n) # d else (k', m) # add_count k n d)"

definition discard :: "native_input \<Rightarrow> nat \<Rightarrow> nat \<Rightarrow> string \<Rightarrow> native_acc \<Rightarrow> native_acc result" where
  "discard ni begin_at end_at reason acc =
     (if \<not> begin_at < end_at then Inr acc
      else let range = \<lparr>dr_start = begin_at, dr_stop = end_at, dr_reason = reason\<rparr> in
        if ni_window ni \<noteq> None
        then Inr (acc\<lparr>na_summary := add_count reason (int end_at - int begin_at) (na_summary acc),
                     na_discarded := [range]\<rparr>)
        else if length (na_discarded acc) \<ge> MAX_DISCARDED_RANGES
        then fail (ni_label ni @ '' discarded ranges exceed bound'')
        else Inr (acc\<lparr>na_discarded := na_discarded acc @ [range]\<rparr>))"

definition packet_row :: "native_input \<Rightarrow> nat \<Rightarrow> nat \<Rightarrow> nat \<Rightarrow> bytes \<Rightarrow> row" where
  "packet_row ni index start_at stop_at frame =
     [(''time_us'', CInt (ni_capture ni)), (''frame_hex'', CStr (hex_of frame)),
      (''source_input_sha256'', CStr (sha256_ref (ni_data ni))), (''source_packet_index'', CInt (int index)),
      (''source_start_offset'', CInt (int start_at)), (''source_stop_offset_exclusive'', CInt (int stop_at)),
      (''source_wire_hex'', CStr (''hex:'' @ hex_of (bslice (ni_data ni) start_at stop_at)))]"

definition frame_selected :: "native_input \<Rightarrow> nat \<Rightarrow> bool" where
  "frame_selected ni n = (case ni_window ni of None \<Rightarrow> True | Some (a, b) \<Rightarrow> a \<le> n \<and> n < b)"

definition take_native :: "native_input \<Rightarrow> nat \<Rightarrow> nat \<Rightarrow> bytes \<Rightarrow> native_acc \<Rightarrow> native_acc result" where
  "take_native ni start_at stop_at frame acc =
     (if na_count acc \<ge> (if ni_window ni \<noteq> None then MAX_WINDOW_PACKETS else MAX_NATIVE_PACKETS)
      then fail (ni_label ni @ '' complete packets exceed bound'')
      else rbind (if frame_selected ni (na_count acc)
                  then write_row derived_columns (packet_row ni (na_count acc) start_at stop_at frame) (na_rows acc)
                  else Inr (na_rows acc)) (\<lambda>rows.
        if length (csv_text derived_columns rows) > CRSF_LIMIT
        then fail (ni_label ni @ '' derived packet CSV exceeds bound'')
        else Inr (acc\<lparr>na_rows := rows, na_count := na_count acc + 1, na_bytes := na_bytes acc + (stop_at - start_at)\<rparr>)))"

section \<open>S.Port framing\<close>

record sport_state =
  sp_acc :: native_acc
  sp_start :: "nat option"
  sp_idle :: nat
  sp_packet :: bytes
  sp_first_literal :: bool
  sp_escaped :: bool

definition sport_init :: sport_state where
  "sport_init = \<lparr>sp_acc = native_init, sp_start = None, sp_idle = 0, sp_packet = [],
     sp_first_literal = False, sp_escaped = False\<rparr>"

text \<open>What a byte does inside a frame that began at the given offset.\<close>

definition sport_byte :: "native_input \<Rightarrow> nat \<Rightarrow> nat \<Rightarrow> byte \<Rightarrow> sport_state \<Rightarrow> sport_state result" where
  "sport_byte ni start_at offset b st =
     (if sp_first_literal st \<and> b \<noteq> 0x7E
      then Inr (st\<lparr>sp_packet := sp_packet st @ [b], sp_first_literal := False\<rparr>)
      else if sp_escaped st
      then Inr (st\<lparr>sp_packet := sp_packet st @ [b XOR 0x20], sp_escaped := False\<rparr>)
      else if b = 0x7E
      then rbind (discard ni start_at offset ''INCOMPLETE_BEFORE_DELIMITER'' (sp_acc st)) (\<lambda>acc.
        Inr (st\<lparr>sp_acc := acc, sp_start := Some offset, sp_first_literal := False, sp_packet := []\<rparr>))
      else if b = 0x7D then Inr (st\<lparr>sp_escaped := True\<rparr>)
      else Inr (st\<lparr>sp_packet := sp_packet st @ [b]\<rparr>))"

definition sport_complete :: "native_input \<Rightarrow> nat \<Rightarrow> sport_state \<Rightarrow> sport_state result" where
  "sport_complete ni offset st =
     (case sp_start st of
        None \<Rightarrow> Inr st
      | Some start_at \<Rightarrow>
          if length (sp_packet st) \<noteq> 9 then Inr st
          else rbind (take_native ni start_at (offset + 1) (sp_packet st) (sp_acc st)) (\<lambda>acc.
            Inr (st\<lparr>sp_acc := acc, sp_start := None, sp_idle := offset + 1, sp_packet := []\<rparr>)))"

definition sport_step :: "native_input \<Rightarrow> sport_state \<Rightarrow> nat \<times> byte \<Rightarrow> sport_state result" where
  "sport_step ni st item =
     (case item of (offset, b) \<Rightarrow>
       case sp_start st of
         None \<Rightarrow>
           if b = 0x7E
           then rbind (discard ni (sp_idle st) offset ''UNFRAMED_BYTES'' (sp_acc st)) (\<lambda>acc.
             Inr (st\<lparr>sp_acc := acc, sp_start := Some offset, sp_first_literal := True\<rparr>))
           else Inr st
       | Some start_at \<Rightarrow> rbind (sport_byte ni start_at offset b st) (sport_complete ni offset))"

definition frame_sport :: "native_input \<Rightarrow> native_acc result" where
  "frame_sport ni =
     rbind (run_items (sport_step ni) sport_init (enumerate 0 (ni_data ni))) (\<lambda>st.
       case sp_start st of
         None \<Rightarrow> discard ni (sp_idle st) (length (ni_data ni)) ''UNFRAMED_BYTES'' (sp_acc st)
       | Some start_at \<Rightarrow> discard ni start_at (length (ni_data ni)) ''INCOMPLETE_AT_EOF'' (sp_acc st))"

section \<open>MSP framing\<close>

text \<open>One turn of the loop: it breaks with the idle offset, or goes on at a cursor and an idle offset.\<close>

datatype msp_turn = Msp_Break nat native_acc | Msp_Go nat nat native_acc

definition msp_candidate :: "native_input \<Rightarrow> nat \<Rightarrow> nat \<Rightarrow> native_acc \<Rightarrow> msp_turn result" where
  "msp_candidate ni idle start_at acc =
     (let data = ni_data ni; remaining = length data - start_at in
      rbind (discard ni idle start_at ''UNFRAMED_BYTES'' acc) (\<lambda>acc1.
        if remaining < 3
        then rbind (discard ni start_at (length data) ''INCOMPLETE_AT_EOF'' acc1) (\<lambda>acc2.
          Inr (Msp_Break (length data) acc2))
        else if bslice data start_at (start_at + 3) \<noteq> [0x24, 0x4D, 0x3E]
        then fail ''MSP native selector requires ordinary v1 replies''
        else if remaining \<ge> 4 \<and> data ! (start_at + 3) = 255 then fail ''MSP JUMBO framing is unsupported''
        else if remaining \<ge> 5 \<and> data ! (start_at + 4) = 255 then fail ''MSPv2-over-v1 framing is unsupported''
        else let stop_at = (if remaining \<ge> 4 then start_at + 6 + unat (data ! (start_at + 3)) else length data + 1) in
          if stop_at > length data
          then rbind (discard ni start_at (length data) ''INCOMPLETE_AT_EOF'' acc1) (\<lambda>acc2.
            Inr (Msp_Break (length data) acc2))
          else rbind (take_native ni start_at stop_at (bslice data start_at stop_at) acc1) (\<lambda>acc2.
            Inr (Msp_Go stop_at stop_at acc2))))"

definition msp_turn_at :: "native_input \<Rightarrow> nat \<Rightarrow> nat \<Rightarrow> native_acc \<Rightarrow> msp_turn result" where
  "msp_turn_at ni cursor idle acc =
     (case find_byte 0x24 (ni_data ni) cursor of
        None \<Rightarrow> Inr (Msp_Break idle acc)
      | Some start_at \<Rightarrow>
          if length (ni_data ni) - start_at = 1 \<or>
             bslice (ni_data ni) start_at (start_at + 2) \<in> {[0x24, 0x4D], [0x24, 0x58]}
          then msp_candidate ni idle start_at acc
          else Inr (Msp_Go (start_at + 1) idle acc))"

lemma msp_turn_advances:
  "msp_turn_at ni cursor idle acc = Inr (Msp_Go cursor' idle' acc') \<Longrightarrow> cursor < cursor' \<and> cursor' \<le> length (ni_data ni)"
  by (auto simp: msp_turn_at_def msp_candidate_def Let_def result_simps dest!: find_byte_Some
      split: option.splits if_splits)

function msp_loop :: "native_input \<Rightarrow> nat \<Rightarrow> nat \<Rightarrow> native_acc \<Rightarrow> (nat \<times> native_acc) result" where
  "msp_loop ni cursor idle acc =
     (if cursor < length (ni_data ni)
      then case msp_turn_at ni cursor idle acc of
          Inl e \<Rightarrow> Inl e
        | Inr (Msp_Break idle' acc') \<Rightarrow> Inr (idle', acc')
        | Inr (Msp_Go cursor' idle' acc') \<Rightarrow> msp_loop ni cursor' idle' acc'
      else Inr (idle, acc))"
  by pat_completeness auto
termination
  by (relation "measure (\<lambda>(ni, cursor, _). length (ni_data ni) - cursor)") (auto dest!: msp_turn_advances)

declare msp_loop.simps [simp del]

definition frame_msp :: "native_input \<Rightarrow> native_acc result" where
  "frame_msp ni = rbind (msp_loop ni 0 0 native_init) (\<lambda>(idle, acc).
     discard ni idle (length (ni_data ni)) ''UNFRAMED_BYTES'' acc)"

section \<open>Provenance columns\<close>

text \<open>
  \<^verbatim>\<open>json.loads\<close> on the compact dictionaries of texts that \<^verbatim>\<open>convert\<close> writes: escapes stand only for
  quotes, backslashes and characters below 32.
\<close>

fun json_text :: "string \<Rightarrow> (string \<times> string) option" where
  "json_text [] = None"
| "json_text (c # s) =
     (if c = CHR 0x22 then Some ([], s)
      else if c = CHR 0x5C then
        (case s of
           [] \<Rightarrow> None
         | e # s1 \<Rightarrow>
             if e = CHR ''u'' then
               (case s1 of
                  a # b # x # y # s2 \<Rightarrow>
                    (case (hex_value x, hex_value y) of
                       (Some m, Some n) \<Rightarrow>
                         if a = CHR ''0'' \<and> b = CHR ''0''
                         then map_option (\<lambda>(t, r). (char_of (16 * m + n) # t, r)) (json_text s2) else None
                     | _ \<Rightarrow> None)
                | _ \<Rightarrow> None)
             else
               (case map_of [(CHR 0x22, 34 :: nat), (CHR 0x5C, 92), (CHR ''/'', 47), (CHR ''n'', 10), (CHR ''r'', 13),
                   (CHR ''t'', 9), (CHR ''b'', 8), (CHR ''f'', 12)] e of
                  None \<Rightarrow> None
                | Some n \<Rightarrow> map_option (\<lambda>(t, r). (char_of n # t, r)) (json_text s1)))
      else map_option (\<lambda>(t, r). (c # t, r)) (json_text s))"

text \<open>The pairs after the opening brace; the count bounds them by the length of the text.\<close>

fun json_pairs :: "nat \<Rightarrow> string \<Rightarrow> text_row option" where
  "json_pairs 0 s = None"
| "json_pairs (Suc n) s =
     (case s of
        q # s1 \<Rightarrow> if q \<noteq> CHR 0x22 then None else
          (case json_text s1 of
             Some (k, c # q' # s2) \<Rightarrow> if c \<noteq> CHR 0x3A \<or> q' \<noteq> CHR 0x22 then None else
               (case json_text s2 of
                  Some (v, d # s3) \<Rightarrow>
                    if d = CHR 0x7D then (if s3 = [] then Some [(k, v)] else None)
                    else if d = CHR 0x2C then map_option (\<lambda>r. (k, v) # r) (json_pairs n s3) else None
                | _ \<Rightarrow> None)
           | _ \<Rightarrow> None)
      | [] \<Rightarrow> None)"

definition json_dict :: "string \<Rightarrow> text_row option" where
  "json_dict s = (case s of b # s1 \<Rightarrow> if b = CHR 0x7B then json_pairs (length s1) s1 else None | [] \<Rightarrow> None)"

definition chars_of :: "bytes \<Rightarrow> string" where
  "chars_of bs = map (\<lambda>b. char_of (unat b)) bs"

definition provenance_row :: "string list \<Rightarrow> string list \<Rightarrow> row result" where
  "provenance_row names fs =
     (let row = text_row names fs in
      case json_dict (chars_of (from_hex (drop 4 (text_get row ''source_record_hex'')))) of
        None \<Rightarrow> fail ''JSON''
      | Some original \<Rightarrow>
          if \<exists>key \<in> set PROVENANCE. map_of original key = None then Inl KeyError
          else Inr (row_update (map (\<lambda>kv. (fst kv, CStr (snd kv))) row)
            (map (\<lambda>key. (key, CStr (text_get original key))) PROVENANCE)))"

definition provenance_step :: "string \<Rightarrow> string list \<Rightarrow> row list \<Rightarrow> string list \<Rightarrow> row list result" where
  "provenance_step label names out fs =
     rbind (provenance_row names fs) (\<lambda>row.
     rbind (write_row (names @ PROVENANCE) row out) (\<lambda>out'.
       if length (csv_text (names @ PROVENANCE) out') > CRSF_LIMIT then fail (label @ '' output exceeds bound'')
       else Inr out'))"

record native_output =
  no_columns :: "string list"
  no_rows :: "row list"
  no_report :: crsf_state

definition convert_native_capture :: "string \<Rightarrow> string \<Rightarrow> string \<Rightarrow> bool \<Rightarrow> native_output result" where
  "convert_native_capture csv kind label allow_no_selected =
     rbind (convert_crsf csv kind allow_no_selected False False) (\<lambda>(cols, st).
     rbind (dict_fieldnames (csv_reader False (crsf_output (cols, st)))) (\<lambda>fieldnames.
     let names = (case fieldnames of None \<Rightarrow> [] | Some names \<Rightarrow> names) in
     rbind (run_gen (provenance_step label names) [] (dict_records (csv_reader False (crsf_output (cols, st))))) (\<lambda>out.
       Inr \<lparr>no_columns = names @ PROVENANCE, no_rows = out, no_report = st\<rparr>)))"

section \<open>The reports\<close>

definition range_json :: "native_input \<Rightarrow> bool \<Rightarrow> discarded_range \<Rightarrow> json" where
  "range_json ni wire r =
     JObj ([(''start_offset'', JInt (int (dr_start r))), (''stop_offset_exclusive'', JInt (int (dr_stop r))),
        (''reason'', JStr (dr_reason r))]
      @ (if wire \<and> ni_window ni = None
         then [(''source_wire_hex'', JStr (''hex:'' @ hex_of (bslice (ni_data ni) (dr_start r) (dr_stop r))))] else []))"

definition discarded_bytes :: "native_acc \<Rightarrow> int" where
  "discarded_bytes acc = sum_list (map (\<lambda>r. int (dr_stop r) - int (dr_start r)) (na_discarded acc))"

definition native_fields :: "native_input \<Rightarrow> bool \<Rightarrow> string \<Rightarrow> native_acc \<Rightarrow> (string \<times> json) list" where
  "native_fields ni wire basis acc =
     [(''source_sha256'', JStr (sha256_hex (ni_data ni))), (''source_bytes'', JInt (int (length (ni_data ni)))),
      (''complete_packet_bytes'', JInt (int (na_bytes acc))), (''discarded_bytes'', JInt (discarded_bytes acc)),
      (''capture_time_us'', JInt (ni_capture ni)),
      (''capture_time_basis'', JStr ''CALLER_CAPTURE_LABEL_NOT_PACKET_TIME''),
      (''discarded_ranges'', JArr (map (range_json ni wire) (na_discarded acc))), (''framing_basis'', JStr basis)]"

definition crsf_report_fields :: "crsf_state \<Rightarrow> (string \<times> json) list" where
  "crsf_report_fields st = (case crsf_report_json st of JObj kvs \<Rightarrow> kvs | _ \<Rightarrow> [])"

text \<open>The window accounting replaces the list of ranges by its last element.\<close>

definition window_fields ::
  "nat \<times> nat \<Rightarrow> native_input \<Rightarrow> bool \<Rightarrow> native_acc \<Rightarrow> (string \<times> json) list \<Rightarrow> (string \<times> json) list" where
  "window_fields window ni wire acc native =
     map (\<lambda>(k, v). (k, if k = ''discarded_bytes'' then JInt (total (na_summary acc)) else v))
       (filter (\<lambda>kv. fst kv \<noteq> ''discarded_ranges'') native)
     @ [(''last_discarded_range'', JArr (map (range_json ni wire) (na_discarded acc))),
        (''discarded_bytes_by_reason'', JObj (map (\<lambda>(k, n). (k, JInt n)) (na_summary acc))),
        (''complete_framing_records'', JInt (int (na_count acc))),
        (''selected_frame_start'', JInt (int (fst window))), (''selected_frame_stop'', JInt (int (snd window))),
        (''selected_framing_records'', JInt (int (snd window) - int (fst window))),
        (''unselected_framing_records'', JInt (int (na_count acc) - (int (snd window) - int (fst window)))),
        (''unselected_validation'', JStr ''FRAMING_ONLY_CRC_AND_PAYLOAD_MEANING_NOT_VALIDATED''),
        (''source_retention'', JStr ''ORIGINAL_FILE_REQUIRED_FOR_ALL_RAW_BYTES'')]"

definition finish_window ::
  "native_input \<Rightarrow> bool \<Rightarrow> string \<Rightarrow> native_acc \<Rightarrow> crsf_state \<Rightarrow> (string \<times> json) list result" where
  "finish_window ni wire basis acc st =
     (let native = native_fields ni wire basis acc in
      case ni_window ni of
        None \<Rightarrow> Inr (crsf_report_fields st @ [(''native_stream'', JObj native)])
      | Some window \<Rightarrow>
          if snd window > na_count acc then fail ''selected frame interval exceeds complete framing records''
          else Inr (crsf_report_fields st @ [(''native_stream'', JObj (window_fields window ni wire acc native)),
            (''window_meaning_status'', JStr (if cs_decoded st \<noteq> 0 then ''SELECTED_MEANING_PRESENT''
               else ''KNOWN_MEANING_ZERO_UNSUPPORTED_PRESENT''))]))"

section \<open>The conversions\<close>

definition native_guard :: "native_input \<Rightarrow> string \<Rightarrow> unit result" where
  "native_guard ni clock_text =
     (if length (ni_data ni) > (if ni_window ni \<noteq> None then 2 ^ 31 else CRSF_LIMIT)
      then fail (ni_label ni @ '' native input exceeds bound or is not bytes'')
      else if \<not> (0 \<le> ni_capture ni \<and> ni_capture ni < 2 ^ 63) then fail clock_text else Inr ())"

definition derived_csv :: "native_acc \<Rightarrow> string" where
  "derived_csv acc = csv_text derived_columns (na_rows acc)"

record native_result =
  nr_acc :: native_acc
  nr_output :: native_output
  nr_report :: "(string \<times> json) list"

definition convert_native ::
  "native_input \<Rightarrow> string \<Rightarrow> bool \<Rightarrow> string \<Rightarrow> native_acc \<Rightarrow> native_result result" where
  "convert_native ni kind wire basis acc =
     rbind (convert_native_capture (derived_csv acc) kind (ni_label ni) (ni_window ni \<noteq> None)) (\<lambda>out.
     rbind (finish_window ni wire basis acc (no_report out)) (\<lambda>report.
       if length (dumps_indent 0 (JObj report)) > CRSF_LIMIT then fail (ni_label ni @ '' report exceeds bound'')
       else Inr \<lparr>nr_acc = acc, nr_output = out, nr_report = report\<rparr>))"

definition convert_sport_stream :: "bytes \<Rightarrow> int \<Rightarrow> (nat \<times> nat) option \<Rightarrow> native_result result" where
  "convert_sport_stream data capture_time_us window =
     (let ni = \<lparr>ni_label = ''S.Port'', ni_window = window, ni_capture = capture_time_us, ni_data = data\<rparr> in
      rbind (native_guard ni ''S.Port caller capture microseconds required'') (\<lambda>_.
      rbind (frame_sport ni) (\<lambda>acc.
        convert_native ni ''sport-electrical-fb8622dd'' False ''OPENTX_FB8622DD_SPORT_RECEIVE_BYTES'' acc)))"

definition CANVAS_EXTRA :: "string list" where
  "CANVAS_EXTRA = [''original_input_sha256'', ''original_draw_packet_index'', ''original_draw_start_offset'',
     ''original_draw_stop_offset_exclusive'', ''original_write_packet_index'',
     ''original_write_start_offset'', ''original_write_stop_offset_exclusive'']"

definition role_cells :: "text_row list \<Rightarrow> text_row \<Rightarrow> string \<Rightarrow> row result" where
  "role_cells source row role =
     (let val = text_get row (role @ ''_record_index'') in
      if val = [] then Inr []
      else rbind (item_at source (nat (decimal_value val))) (\<lambda>native.
        Inr (map (\<lambda>(suffix, key). (''original_'' @ role @ ''_'' @ suffix, CStr (text_get native key)))
          [(''packet_index'', ''source_packet_index''), (''start_offset'', ''source_start_offset''),
           (''stop_offset_exclusive'', ''source_stop_offset_exclusive'')])))"

definition canvas_row_step ::
  "text_row list \<Rightarrow> string list \<Rightarrow> row list \<Rightarrow> string list \<Rightarrow> row list result" where
  "canvas_row_step source names out fs =
     (let row = text_row names fs in
      rbind (item_at source 0) (\<lambda>first.
      rbind (role_cells source row ''draw'') (\<lambda>drawn.
      rbind (role_cells source row ''write'') (\<lambda>written.
      rbind (write_row (names @ CANVAS_EXTRA) (map (\<lambda>kv. (fst kv, CStr (snd kv))) row
          @ [(''original_input_sha256'', CStr (text_get first ''source_input_sha256''))] @ drawn @ written) out) (\<lambda>out'.
        if length (csv_text (names @ CANVAS_EXTRA) out') > CANVAS_MAX_OUTPUT
        then fail ''native canvas output exceeds bound'' else Inr out')))))"

text \<open>The rows of a table read again without the strict mode, as dictionaries.\<close>

definition reread :: "string \<Rightarrow> (string list \<times> string list list) result" where
  "reread csv =
     rbind (dict_fieldnames (csv_reader False csv)) (\<lambda>fieldnames.
     rbind (gen_list (dict_records (csv_reader False csv))) (\<lambda>records.
       Inr (case fieldnames of None \<Rightarrow> [] | Some names \<Rightarrow> names, records)))"

definition native_canvas :: "string \<Rightarrow> int \<times> int \<Rightarrow> ((string list \<times> row list) \<times> (string \<times> json) list) result" where
  "native_canvas derived geo =
     rbind (convert_canvas derived (fst geo) (snd geo)) (\<lambda>(_, st, report).
     rbind (reread derived) (\<lambda>(source_names, source).
     rbind (reread (csv_text CANVAS_FIELDS (cv_out st))) (\<lambda>(names, records).
     rbind (run_items (canvas_row_step (map (text_row source_names) source) names) [] records) (\<lambda>out.
       Inr ((names @ CANVAS_EXTRA, out),
         (case report of JObj kvs \<Rightarrow> kvs | _ \<Rightarrow> [])
         @ [(''initial_state_basis'', JStr ''UNKNOWN_AT_SELECTED_INTERVAL_START_NO_PRIOR_WINDOW_REPLAY''),
            (''local_index_basis'', JStr ''SELECTED_DERIVED_FRAME_ROWS_SEE_ORIGINAL_INDEX_COLUMNS'')])))))"

definition convert_msp_stream ::
  "bytes \<Rightarrow> int \<Rightarrow> (nat \<times> nat) option \<Rightarrow> (int \<times> int) option \<Rightarrow> (native_result \<times> (string list \<times> row list) option) result" where
  "convert_msp_stream data capture_time_us window canvas_geometry =
     (let ni = \<lparr>ni_label = ''MSP'', ni_window = window, ni_capture = capture_time_us, ni_data = data\<rparr> in
      rbind (native_guard ni ''MSP caller capture microseconds required'') (\<lambda>_.
      rbind (frame_msp ni) (\<lambda>acc.
      rbind (convert_native ni (if canvas_geometry = None then ''msp-attitude-bf452'' else ''msp-displayport-bf452'')
               True ''BETAFLIGHT_024F8E13_MSP_V1_REPLY_BYTES'' acc) (\<lambda>res.
        case canvas_geometry of
          None \<Rightarrow> Inr (res, None)
        | Some geo \<Rightarrow>
            rbind (native_canvas (derived_csv acc) geo) (\<lambda>(canvas, canvas_report).
              let report = nr_report res @ [(''canvas'', JObj canvas_report)] in
              if length (dumps_indent 0 (JObj report)) > CRSF_LIMIT then fail ''native canvas report exceeds bound''
              else Inr (res\<lparr>nr_report := report\<rparr>, Some canvas))))))"

section \<open>A saved file\<close>

text \<open>
  What the file system says of the input: whether the path and the opened file are regular, the
  size, the mapped bytes, and whether both still have their signature after the conversion.
\<close>

record saved_file =
  sf_path_regular :: bool
  sf_open_regular :: bool
  sf_size :: nat
  sf_bytes :: bytes
  sf_unchanged :: bool

definition SPORT_SERIAL_KIND :: string where "SPORT_SERIAL_KIND = ''sport-serial-fb8622dd''"
definition MSP_SERIAL_KIND :: string where "MSP_SERIAL_KIND = ''msp-serial-attitude-bf452''"
definition MSP_DISPLAY_SERIAL_KIND :: string where "MSP_DISPLAY_SERIAL_KIND = ''msp-serial-displayport-bf452''"

definition convert_native_file ::
  "saved_file \<Rightarrow> string \<Rightarrow> int \<Rightarrow> int \<Rightarrow> int \<Rightarrow> (int \<times> int) option \<Rightarrow>
    (native_result \<times> (string list \<times> row list) option) result" where
  "convert_native_file file kind capture_time_us start_packet stop_packet canvas_geometry =
     (if kind \<notin> {SPORT_SERIAL_KIND, MSP_SERIAL_KIND, MSP_DISPLAY_SERIAL_KIND} then fail ''native serial selector required''
      else if (kind = MSP_DISPLAY_SERIAL_KIND) \<noteq> (canvas_geometry \<noteq> None)
      then fail ''canvas geometry requires explicit native DisplayPort selector''
      else if \<not> (0 \<le> start_packet \<and> start_packet < stop_packet \<and> stop_packet \<le> 5000000) \<or> stop_packet - start_packet > 4096
      then fail ''explicit at-most4096 complete-frame interval required''
      else if \<not> sf_path_regular file then fail ''regular saved file required''
      else if \<not> sf_open_regular file \<or> \<not> (0 < sf_size file \<and> sf_size file \<le> 2 ^ 31)
      then fail ''nonempty saved file within2GiB required''
      else let window = Some (nat start_packet, nat stop_packet) in
        rbind (if kind = SPORT_SERIAL_KIND
               then rbind (convert_sport_stream (sf_bytes file) capture_time_us window) (\<lambda>res. Inr (res, None))
               else convert_msp_stream (sf_bytes file) capture_time_us window canvas_geometry) (\<lambda>res.
          if \<not> sf_unchanged file then fail ''saved input changed during conversion'' else Inr res))"

section \<open>What framing accounts for\<close>

text \<open>A framed input is a sequence of pieces: packets with the frame they carry, and waste.\<close>

datatype piece = Packet nat nat bytes | Waste discarded_range

fun piece_start :: "piece \<Rightarrow> nat" where
  "piece_start (Packet s e f) = s"
| "piece_start (Waste r) = dr_start r"

fun piece_stop :: "piece \<Rightarrow> nat" where
  "piece_stop (Packet s e f) = e"
| "piece_stop (Waste r) = dr_stop r"

fun tiles :: "nat \<Rightarrow> piece list \<Rightarrow> nat \<Rightarrow> bool" where
  "tiles a [] b \<longleftrightarrow> a = b"
| "tiles a (p # ps) b \<longleftrightarrow> piece_start p = a \<and> a < piece_stop p \<and> tiles (piece_stop p) ps b"

fun packets_of :: "piece list \<Rightarrow> (nat \<times> nat \<times> bytes) list" where
  "packets_of [] = []"
| "packets_of (Packet s e f # ps) = (s, e, f) # packets_of ps"
| "packets_of (Waste r # ps) = packets_of ps"

fun waste_of :: "piece list \<Rightarrow> discarded_range list" where
  "waste_of [] = []"
| "waste_of (Packet s e f # ps) = waste_of ps"
| "waste_of (Waste r # ps) = r # waste_of ps"

definition wasted :: "piece list \<Rightarrow> nat" where
  "wasted ps = sum_list (map (\<lambda>r. dr_stop r - dr_start r) (waste_of ps))"

definition packed :: "piece list \<Rightarrow> nat" where
  "packed ps = sum_list (map (\<lambda>(s, e, f). e - s) (packets_of ps))"

definition framed :: "(bytes \<Rightarrow> bytes \<Rightarrow> bool) \<Rightarrow> native_input \<Rightarrow> piece list \<Rightarrow> nat \<Rightarrow> native_acc \<Rightarrow> bool" where
  "framed wire ni ps pos acc \<longleftrightarrow>
     tiles 0 ps pos \<and> pos \<le> length (ni_data ni) \<and>
     na_count acc = length (packets_of ps) \<and> na_bytes acc = packed ps \<and>
     list_all (\<lambda>(s, e, f). wire (bslice (ni_data ni) s e) f) (packets_of ps) \<and>
     na_rows acc = map (\<lambda>(i, s, e, f). packet_row ni i s e f)
       (filter (\<lambda>(i, p). frame_selected ni i) (enumerate 0 (packets_of ps))) \<and>
     (if ni_window ni = None then na_discarded acc = waste_of ps else total (na_summary acc) = int (wasted ps))"

lemma tiles_append: "tiles a (ps @ qs) b \<longleftrightarrow> (\<exists>m. tiles a ps m \<and> tiles m qs b)"
  by (induction ps arbitrary: a) auto

lemma packets_of_append [simp]: "packets_of (ps @ qs) = packets_of ps @ packets_of qs"
  by (induction ps rule: packets_of.induct) auto

lemma waste_of_append [simp]: "waste_of (ps @ qs) = waste_of ps @ waste_of qs"
  by (induction ps rule: waste_of.induct) auto

lemma total_add_count: "total (add_count k n d) = total d + n"
  by (induction k n d rule: add_count.induct) (auto simp: total_def)

lemma tiles_sum: "tiles a ps b \<Longrightarrow> a + packed ps + wasted ps = b"
proof (induction ps arbitrary: a)
  case (Cons p ps)
  from Cons.IH [of "piece_stop p"] Cons.prems have "piece_stop p + packed ps + wasted ps = b" by simp
  moreover from Cons.prems have "piece_start p = a" "a < piece_stop p" by simp_all
  ultimately show ?case by (cases p) (simp_all add: packed_def wasted_def)
qed (simp add: packed_def wasted_def)

lemma framed_init: "framed wire ni [] 0 native_init"
  by (simp add: framed_def native_init_def packed_def wasted_def total_def)

lemma framed_discard:
  assumes "framed wire ni ps begin_at acc" and "discard ni begin_at end_at reason acc = Inr acc'"
    and "begin_at \<le> end_at" "end_at \<le> length (ni_data ni)"
  shows "\<exists>ps'. framed wire ni ps' end_at acc'"
proof (cases "begin_at < end_at")
  case True
  let ?r = "\<lparr>dr_start = begin_at, dr_stop = end_at, dr_reason = reason\<rparr>"
  have "framed wire ni (ps @ [Waste ?r]) end_at acc'"
    using assms True
    by (auto simp: framed_def discard_def tiles_append total_add_count packed_def wasted_def Let_def split: if_splits)
  then show ?thesis ..
next
  case False
  with assms show ?thesis by (auto simp: discard_def)
qed

lemma framed_take:
  assumes "framed wire ni ps start_at acc" and "take_native ni start_at stop_at f acc = Inr acc'"
    and "start_at < stop_at" "stop_at \<le> length (ni_data ni)" and "wire (bslice (ni_data ni) start_at stop_at) f"
  shows "framed wire ni (ps @ [Packet start_at stop_at f]) stop_at acc'"
proof -
  let ?n = "na_count acc"
  from assms(2) obtain rows where rows: "rows = (if frame_selected ni ?n then na_rows acc @ [packet_row ni ?n start_at stop_at f] else na_rows acc)"
    and acc': "acc' = acc\<lparr>na_rows := rows, na_count := ?n + 1, na_bytes := na_bytes acc + (stop_at - start_at)\<rparr>"
    unfolding take_native_def by (elim if_failE rbind_InrE) (auto simp: write_row_Inr split: if_splits)
  have "?n = length (packets_of ps)" using assms(1) by (simp add: framed_def)
  with assms rows show ?thesis
    by (auto simp: framed_def acc' tiles_append packed_def wasted_def enumerate_append_eq)
qed

text \<open>
  The contract of a framing loop: it ends with pieces that tile the whole input. The bytes it
  counts, the ranges it lists and the rows it derives are then those of the pieces.
\<close>

locale native_framing =
  fixes frame :: "native_input \<Rightarrow> native_acc result"
    and wire :: "bytes \<Rightarrow> bytes \<Rightarrow> bool"
  assumes frames_all: "frame ni = Inr acc \<Longrightarrow> \<exists>ps. framed wire ni ps (length (ni_data ni)) acc"
begin

lemma bytes_accounted:
  assumes "frame ni = Inr acc"
  shows "int (na_bytes acc) + (if ni_window ni = None then discarded_bytes acc else total (na_summary acc))
    = int (length (ni_data ni))"
proof -
  from frames_all [OF assms] obtain ps where ps: "framed wire ni ps (length (ni_data ni)) acc" by blast
  then have sum: "packed ps + wasted ps = length (ni_data ni)" using tiles_sum [of 0 ps] by (simp add: framed_def)
  have ordered: "tiles a qs b \<Longrightarrow> sum_list (map (\<lambda>r. int (dr_stop r) - int (dr_start r)) (waste_of qs)) = int (wasted qs)" for a qs b
  proof (induction qs arbitrary: a)
    case (Cons q qs)
    then show ?case using Cons.IH [of "piece_stop q"] by (cases q) (auto simp: wasted_def)
  qed (simp add: wasted_def)
  show ?thesis
    using ps sum ordered [of 0 ps] by (auto simp: framed_def discarded_bytes_def split: if_splits)
qed

lemma rows_counted:
  assumes "frame ni = Inr acc" "ni_window ni = None"
  shows "length (na_rows acc) = na_count acc"
  using frames_all [OF assms(1)] assms(2) by (auto simp: framed_def frame_selected_def)

end

section \<open>S.Port packets\<close>

text \<open>Unstuffing: the byte after an idle delimiter is literal, an escape changes the next byte.\<close>

fun unstuff_byte :: "bool \<times> bool \<times> bytes \<Rightarrow> byte \<Rightarrow> bool \<times> bool \<times> bytes" where
  "unstuff_byte (literal, escaped, p) b =
     (if literal \<and> b \<noteq> 0x7E then (False, escaped, p @ [b])
      else if escaped then (literal, False, p @ [b XOR 0x20])
      else if b = 0x7D then (literal, True, p)
      else (literal, escaped, p @ [b]))"

definition unstuff :: "bool \<Rightarrow> bytes \<Rightarrow> bool \<times> bool \<times> bytes" where
  "unstuff literal bs = foldl unstuff_byte (literal, False, []) bs"

definition sport_wire :: "bytes \<Rightarrow> bytes \<Rightarrow> bool" where
  "sport_wire w f \<longleftrightarrow> length f = 9 \<and> (\<exists>literal bs. w = 0x7E # bs \<and> unstuff literal bs = (False, False, f))"

definition sport_reads :: "native_input \<Rightarrow> nat \<Rightarrow> sport_state \<Rightarrow> bool" where
  "sport_reads ni pos st \<longleftrightarrow>
     (case sp_start st of
        None \<Rightarrow> sp_packet st = [] \<and> \<not> sp_escaped st \<and> (\<exists>ps. framed sport_wire ni ps (sp_idle st) (sp_acc st)) \<and> sp_idle st \<le> pos
      | Some s \<Rightarrow> s < pos \<and> length (sp_packet st) < 9 \<and>
          (sp_first_literal st \<longrightarrow> sp_packet st = [] \<and> \<not> sp_escaped st) \<and>
          (\<exists>ps. framed sport_wire ni ps s (sp_acc st)) \<and>
          (\<exists>literal bs. bslice (ni_data ni) s pos = 0x7E # bs \<and>
            unstuff literal bs = (sp_first_literal st, sp_escaped st, sp_packet st)))"

lemma bslice_snoc: "a \<le> i \<Longrightarrow> i < length xs \<Longrightarrow> bslice xs a (Suc i) = bslice xs a i @ [xs ! i]"
  by (simp add: bslice_def Suc_diff_le take_Suc_conv_app_nth)

lemma unstuff_snoc: "unstuff literal (bs @ [b]) = unstuff_byte (unstuff literal bs) b"
  by (simp add: unstuff_def)

lemma sport_complete_reads:
  assumes "sport_complete ni pos st = Inr st'" and "sp_start st = Some s" "s \<le> pos" "pos < length (ni_data ni)"
    and "length (sp_packet st) \<le> 9" "framed sport_wire ni ps s (sp_acc st)"
    and "bslice (ni_data ni) s (Suc pos) = 0x7E # bs" "unstuff literal bs = (sp_first_literal st, sp_escaped st, sp_packet st)"
    and full: "length (sp_packet st) = 9 \<longrightarrow> \<not> sp_escaped st" and literal: "\<not> sp_first_literal st"
  shows "sport_reads ni (Suc pos) st'"
proof (cases "length (sp_packet st) = 9")
  case True
  with assms obtain acc where t: "take_native ni s (Suc pos) (sp_packet st) (sp_acc st) = Inr acc"
    and st': "st' = st\<lparr>sp_acc := acc, sp_start := None, sp_idle := Suc pos, sp_packet := []\<rparr>"
    by (auto simp: sport_complete_def result_simps)
  have "sport_wire (bslice (ni_data ni) s (Suc pos)) (sp_packet st)"
    using True full literal assms(7,8) by (auto simp: sport_wire_def)
  from framed_take [OF assms(6) t _ _ this] assms(3,4) True full show ?thesis
    by (auto simp: sport_reads_def st')
next
  case False
  with assms(1,2) have "st' = st" by (auto simp: sport_complete_def)
  with assms False show ?thesis by (auto simp: sport_reads_def)
qed

lemma sport_byte_reads:
  assumes "sport_byte ni s pos b st = Inr st1" "sport_complete ni pos st1 = Inr st'" and "sp_start st = Some s"
    and reads: "sport_reads ni pos st" and pos: "pos < length (ni_data ni)" "b = ni_data ni ! pos"
  shows "sport_reads ni (Suc pos) st'"
proof -
  from reads assms(3) obtain ps literal bs where r: "s < pos" "length (sp_packet st) < 9"
      "framed sport_wire ni ps s (sp_acc st)" "bslice (ni_data ni) s pos = 0x7E # bs"
      "unstuff literal bs = (sp_first_literal st, sp_escaped st, sp_packet st)"
      "sp_first_literal st \<longrightarrow> sp_packet st = [] \<and> \<not> sp_escaped st"
    by (auto simp: sport_reads_def)
  have next_slice: "bslice (ni_data ni) s (Suc pos) = 0x7E # bs @ [b]"
    using bslice_snoc [of s pos "ni_data ni"] r(1,4) pos by simp
  show ?thesis
  proof (cases "(sp_first_literal st \<longrightarrow> b = 0x7E) \<and> \<not> sp_escaped st \<and> b = 0x7E")
    case True
    with assms(1) obtain acc where d: "discard ni s pos ''INCOMPLETE_BEFORE_DELIMITER'' (sp_acc st) = Inr acc"
      and st1: "st1 = st\<lparr>sp_acc := acc, sp_start := Some pos, sp_first_literal := False, sp_packet := []\<rparr>"
      by (auto simp: sport_byte_def result_simps)
    from framed_discard [OF r(3) d] r(1) pos(1) obtain ps' where "framed sport_wire ni ps' pos acc" by auto
    moreover have "bslice (ni_data ni) pos (Suc pos) = [0x7E]"
      using pos True by (simp add: bslice_def take_Suc_conv_app_nth hd_drop_conv_nth take_Suc)
    ultimately show ?thesis
      using assms(2) True pos(1)
      by (auto simp: st1 sport_complete_def sport_reads_def unstuff_def intro!: exI [of _ False])
  next
    case False
    then have same: "sp_start st1 = Some s" "sp_acc st1 = sp_acc st"
      and byte: "(sp_first_literal st1, sp_escaped st1, sp_packet st1)
        = unstuff_byte (sp_first_literal st, sp_escaped st, sp_packet st) b"
      and grows: "length (sp_packet st1) \<le> Suc (length (sp_packet st))"
      using assms(1,3) by (auto simp: sport_byte_def split: if_splits)
    show ?thesis
    proof (rule sport_complete_reads [OF assms(2) same(1) _ pos(1)])
      show "unstuff literal (bs @ [b]) = (sp_first_literal st1, sp_escaped st1, sp_packet st1)"
        by (simp add: unstuff_snoc r(5) byte)
      show "length (sp_packet st1) = 9 \<longrightarrow> \<not> sp_escaped st1" "\<not> sp_first_literal st1"
        using byte r(2,6) False by (auto split: if_splits)
    qed (use r next_slice same grows in auto)
  qed
qed

lemma sport_step_reads:
  assumes "sport_step ni st (pos, b) = Inr st'" and "sport_reads ni pos st" and pos: "pos < length (ni_data ni)" "b = ni_data ni ! pos"
  shows "sport_reads ni (Suc pos) st'"
proof (cases "sp_start st")
  case None
  show ?thesis
  proof (cases "b = 0x7E")
    case True
    with assms(1) None obtain acc where d: "discard ni (sp_idle st) pos ''UNFRAMED_BYTES'' (sp_acc st) = Inr acc"
      and st': "st' = st\<lparr>sp_acc := acc, sp_start := Some pos, sp_first_literal := True\<rparr>"
      by (auto simp: sport_step_def result_simps)
    from assms(2) None obtain ps where "framed sport_wire ni ps (sp_idle st) (sp_acc st)" "sp_idle st \<le> pos"
        "sp_packet st = []" "\<not> sp_escaped st" by (auto simp: sport_reads_def)
    with framed_discard [OF _ d] pos obtain ps' where "framed sport_wire ni ps' pos acc" by fastforce
    moreover have "bslice (ni_data ni) pos (Suc pos) = [0x7E]"
      using pos True by (simp add: bslice_def take_Suc hd_drop_conv_nth)
    ultimately show ?thesis
      using \<open>sp_packet st = []\<close> \<open>\<not> sp_escaped st\<close>
      by (auto simp: st' sport_reads_def unstuff_def intro!: exI [of _ True])
  next
    case False
    with assms None show ?thesis by (auto simp: sport_step_def sport_reads_def)
  qed
next
  case (Some s)
  with assms(1) obtain st1 where "sport_byte ni s pos b st = Inr st1" "sport_complete ni pos st1 = Inr st'"
    by (auto simp: sport_step_def result_simps)
  from sport_byte_reads [OF this Some assms(2) pos] show ?thesis .
qed

lemma sport_run_reads:
  assumes "run_items (sport_step ni) sport_init (enumerate 0 (ni_data ni)) = Inr st"
  shows "sport_reads ni (length (ni_data ni)) st"
proof -
  have "sport_reads ni (length (enumerate 0 (ni_data ni))) st"
  proof (rule run_items_prefix [OF assms, of "\<lambda>ys st. sport_reads ni (length ys) st"])
    show "sport_reads ni (length []) sport_init"
      using framed_init by (auto simp: sport_reads_def sport_init_def)
  next
    fix s ys x zs s'
    assume split: "enumerate 0 (ni_data ni) = ys @ x # zs" and I: "sport_reads ni (length ys) s"
      and step: "sport_step ni s x = Inr s'"
    have "length ys < length (ni_data ni)" using arg_cong [OF split, of length] by simp
    moreover have "x = enumerate 0 (ni_data ni) ! length ys" by (simp add: split)
    ultimately have "x = (length ys, ni_data ni ! length ys)" "length ys < length (ni_data ni)"
      by (simp_all add: nth_enumerate_eq)
    with sport_step_reads [of ni s "length ys" _ s'] step I show "sport_reads ni (length (ys @ [x])) s'" by simp
  qed
  then show ?thesis by simp
qed

lemma sport_framed:
  assumes "frame_sport ni = Inr acc"
  shows "\<exists>ps. framed sport_wire ni ps (length (ni_data ni)) acc"
proof -
  from assms obtain st where run: "run_items (sport_step ni) sport_init (enumerate 0 (ni_data ni)) = Inr st"
    and fin: "(case sp_start st of
         None \<Rightarrow> discard ni (sp_idle st) (length (ni_data ni)) ''UNFRAMED_BYTES'' (sp_acc st)
       | Some start_at \<Rightarrow> discard ni start_at (length (ni_data ni)) ''INCOMPLETE_AT_EOF'' (sp_acc st)) = Inr acc"
    by (auto simp: frame_sport_def result_simps)
  from sport_run_reads [OF run] fin show ?thesis
    by (cases "sp_start st") (auto simp: sport_reads_def intro: framed_discard)
qed

interpretation sport: native_framing frame_sport sport_wire
  by unfold_locales (rule sport_framed)

text \<open>The stuffing a sender applies behind a delimiter and a literal first byte.\<close>

definition stuff :: "byte \<Rightarrow> bytes" where
  "stuff b = (if b = 0x7E \<or> b = 0x7D then [0x7D, b XOR 0x20] else [b])"

definition sport_encode :: "bytes \<Rightarrow> bytes" where
  "sport_encode p = 0x7E # hd p # concat (map stuff (tl p))"

definition sport_packet :: "bytes \<Rightarrow> bool" where
  "sport_packet p \<longleftrightarrow> length p = 9 \<and> hd p \<noteq> 0x7E"

lemma xor_back: "(b XOR 0x20) XOR 0x20 = (b :: byte)"
  by (simp add: xor.assoc)

lemma unstuff_stuffed:
  "foldl unstuff_byte (False, False, q) (concat (map stuff r)) = (False, False, q @ r)"
  by (induction r arbitrary: q) (auto simp: stuff_def xor_back)

lemma sport_wire_encoded: "sport_packet p \<Longrightarrow> sport_wire (sport_encode p) p"
  by (cases p) (auto simp: sport_packet_def sport_wire_def sport_encode_def unstuff_def unstuff_stuffed intro!: exI [of _ True])

definition inside :: "native_acc \<Rightarrow> nat \<Rightarrow> nat \<Rightarrow> bytes \<Rightarrow> bool \<Rightarrow> bool \<Rightarrow> sport_state" where
  "inside acc start_at idle p literal escaped = \<lparr>sp_acc = acc, sp_start = Some start_at, sp_idle = idle, sp_packet = p,
     sp_first_literal = literal, sp_escaped = escaped\<rparr>"

definition between :: "native_acc \<Rightarrow> nat \<Rightarrow> sport_state" where
  "between acc idle = \<lparr>sp_acc = acc, sp_start = None, sp_idle = idle, sp_packet = [],
     sp_first_literal = False, sp_escaped = False\<rparr>"

lemma rbind_right: "rbind m Inr = m"
  by (cases m) auto

lemma sport_step_plain:
  assumes "(literal \<longrightarrow> b \<noteq> 0x7E) \<and> (\<not> literal \<longrightarrow> \<not> escaped \<longrightarrow> b \<noteq> 0x7E \<and> b \<noteq> 0x7D)" and "\<not> (literal \<and> escaped)"
  shows "sport_step ni (inside acc k idle q literal escaped) (n, b) =
    (let q' = q @ [if escaped then b XOR 0x20 else b] in
     if length q' = 9 then rbind (take_native ni k (n + 1) q' acc) (\<lambda>acc'. Inr (between acc' (n + 1)))
     else Inr (inside acc k idle q' False False))"
  using assms by (auto simp: sport_step_def inside_def between_def sport_byte_def sport_complete_def Let_def)

lemma sport_step_escape:
  "sport_step ni (inside acc k idle q False False) (n, 0x7D) =
    (if length q = 9 then rbind (take_native ni k (n + 1) q acc)
       (\<lambda>acc'. Inr (between acc' (n + 1)\<lparr>sp_escaped := True\<rparr>))
     else Inr (inside acc k idle q False True))"
  by (simp add: sport_step_def inside_def between_def sport_byte_def sport_complete_def)

lemma sport_stuffed:
  "r \<noteq> [] \<Longrightarrow> length q + length r = 9 \<Longrightarrow>
    run_items (sport_step ni) (inside acc k idle q False False) (enumerate n (concat (map stuff r))) =
      rbind (take_native ni k (n + length (concat (map stuff r))) (q @ r) acc)
        (\<lambda>acc'. Inr (between acc' (n + length (concat (map stuff r)))))"
proof (induction r arbitrary: q n)
  case (Cons b r)
  have one: "run_items (sport_step ni) (inside acc k idle q False False) (enumerate n (stuff b)) =
      (if r = [] then rbind (take_native ni k (n + length (stuff b)) (q @ [b]) acc) (\<lambda>acc'. Inr (between acc' (n + length (stuff b))))
       else Inr (inside acc k idle (q @ [b]) False False))"
  proof (cases "b = 0x7E \<or> b = 0x7D")
    case True
    have "length q \<noteq> 9" using Cons.prems by simp
    with True Cons.prems show ?thesis
      by (cases r) (auto simp: stuff_def sport_step_escape sport_step_plain xor_back Let_def rbind_right)
  next
    case False
    with Cons.prems show ?thesis
      by (cases r) (auto simp: stuff_def sport_step_plain Let_def rbind_right)
  qed
  show ?case
  proof (cases "r = []")
    case True
    with one show ?thesis by simp
  next
    case False
    from Cons.IH [OF False, of "q @ [b]" "n + length (stuff b)"] Cons.prems(2) one False show ?thesis
      by (simp add: enumerate_append_eq run_items_append add.assoc)
  qed
qed simp

lemma sport_encoded_run:
  assumes "sport_packet p"
  shows "run_items (sport_step ni) (between acc n) (enumerate n (sport_encode p)) =
    rbind (take_native ni n (n + length (sport_encode p)) p acc) (\<lambda>acc'. Inr (between acc' (n + length (sport_encode p))))"
proof -
  obtain b r where p: "p = b # r" "length r = 8" "b \<noteq> 0x7E" using assms by (cases p) (auto simp: sport_packet_def)
  have "sport_step ni (between acc n) (n, 0x7E) = Inr (inside acc n n [] True False)"
    by (simp add: sport_step_def between_def inside_def discard_def)
  moreover have "sport_step ni (inside acc n n [] True False) (Suc n, b) = Inr (inside acc n n [b] False False)"
    using p(3) by (simp add: sport_step_plain)
  moreover have "r \<noteq> []" using p(2) by auto
  ultimately show ?thesis
    using sport_stuffed [of r "[b]" ni acc n n "Suc (Suc n)"] p(2) by (simp add: p(1) sport_encode_def)
qed

lemma sport_encoded_frames:
  assumes "ni_data ni = pre @ concat (map sport_encode ps)" and "list_all sport_packet ps"
    and "framed sport_wire ni pieces (length pre) acc"
    and "run_items (sport_step ni) (between acc (length pre)) (enumerate (length pre) (concat (map sport_encode ps))) = Inr st"
  shows "\<exists>pieces'. st = between (sp_acc st) (length (ni_data ni)) \<and> framed sport_wire ni pieces' (length (ni_data ni)) (sp_acc st) \<and>
    waste_of pieces' = waste_of pieces \<and>
    map (\<lambda>(s, e, f). f) (packets_of pieces') = map (\<lambda>(s, e, f). f) (packets_of pieces) @ ps"
  using assms
proof (induction ps arbitrary: pre pieces acc)
  case Nil
  then show ?case by (auto simp: between_def intro!: exI [of _ pieces])
next
  case (Cons p ps)
  let ?n = "length pre" and ?e = "length (pre @ sport_encode p)"
  have p: "sport_packet p" using Cons.prems(2) by simp
  from Cons.prems(4) obtain acc1 where t: "take_native ni ?n ?e p acc = Inr acc1"
    and rest: "run_items (sport_step ni) (between acc1 ?e) (enumerate ?e (concat (map sport_encode ps))) = Inr st"
    by (auto simp: enumerate_append_eq run_items_append sport_encoded_run [OF p] result_simps)
  have data: "ni_data ni = (pre @ sport_encode p) @ concat (map sport_encode ps)" using Cons.prems(1) by simp
  then have slice: "bslice (ni_data ni) ?n ?e = sport_encode p" by (simp add: bslice_def)
  have "framed sport_wire ni (pieces @ [Packet ?n ?e p]) ?e acc1"
    by (rule framed_take [OF Cons.prems(3) t]) (use data slice sport_wire_encoded [OF p] in \<open>auto simp: sport_encode_def\<close>)
  from Cons.IH [OF data _ this rest] Cons.prems(2) show ?case by auto
qed

section \<open>MSP packets\<close>

definition msp_wire :: "bytes \<Rightarrow> bytes \<Rightarrow> bool" where
  "msp_wire w f \<longleftrightarrow> f = w \<and> take 3 w = [0x24, 0x4D, 0x3E] \<and> length w = 6 + unat (w ! 3) \<and> w ! 3 \<noteq> 255 \<and> w ! 4 \<noteq> 255"

definition msp_turn_ok :: "native_input \<Rightarrow> msp_turn \<Rightarrow> bool" where
  "msp_turn_ok ni turn = (case turn of
     Msp_Break idle acc \<Rightarrow> \<exists>ps. framed msp_wire ni ps idle acc
   | Msp_Go cursor idle acc \<Rightarrow> idle \<le> cursor \<and> (\<exists>ps. framed msp_wire ni ps idle acc))"

lemma bslice_take: "a + n \<le> b \<Longrightarrow> take n (bslice xs a b) = bslice xs a (a + n)"
  by (simp add: bslice_def min_def)

lemma msp_candidate_ok:
  assumes "msp_candidate ni idle s acc = Inr turn" and "framed msp_wire ni ps idle acc" "idle \<le> s" "s < length (ni_data ni)"
  shows "msp_turn_ok ni turn"
proof -
  let ?data = "ni_data ni"
  from assms(1) obtain acc1 where d: "discard ni idle s ''UNFRAMED_BYTES'' acc = Inr acc1"
    by (auto simp: msp_candidate_def Let_def result_simps)
  from framed_discard [OF assms(2) d] assms(3,4) obtain ps1 where ps1: "framed msp_wire ni ps1 s acc1" by auto
  have eof: "\<exists>ps. framed msp_wire ni ps (length ?data) acc2" if "discard ni s (length ?data) ''INCOMPLETE_AT_EOF'' acc1 = Inr acc2" for acc2
    using framed_discard [OF ps1 that] assms(4) by auto
  let ?stop = "s + 6 + unat (?data ! (s + 3))"
  have whole: "msp_wire (bslice ?data s ?stop) (bslice ?data s ?stop)"
    if "?stop \<le> length ?data" "bslice ?data s (s + 3) = [0x24, 0x4D, 0x3E]" "?data ! (s + 3) \<noteq> 255" "?data ! (s + 4) \<noteq> 255"
    using that by (simp add: msp_wire_def bslice_take nth_bslice)
  have took: "\<exists>ps. framed msp_wire ni ps ?stop acc2"
    if "take_native ni s ?stop (bslice ?data s ?stop) acc1 = Inr acc2" "\<not> length ?data < ?stop"
      "bslice ?data s (s + 3) = [0x24, 0x4D, 0x3E]" "?data ! (s + 3) \<noteq> 255" "?data ! (s + 4) \<noteq> 255" for acc2
    using framed_take [OF ps1 that(1) _ _ whole] that(2-) by auto
  from assms(1) d show ?thesis
    using eof took
    by (auto simp: msp_candidate_def Let_def result_simps msp_turn_ok_def split: if_splits)
qed

lemma msp_turn_at_ok:
  assumes "msp_turn_at ni cursor idle acc = Inr turn" and "framed msp_wire ni ps idle acc" "idle \<le> cursor"
  shows "msp_turn_ok ni turn"
proof (cases "find_byte 0x24 (ni_data ni) cursor")
  case None
  with assms show ?thesis by (auto simp: msp_turn_at_def msp_turn_ok_def)
next
  case (Some s)
  with find_byte_Some [OF Some] assms show ?thesis
    by (auto simp: msp_turn_at_def split: if_splits intro: msp_candidate_ok) (auto simp: msp_turn_ok_def)
qed

lemma msp_loop_ok:
  assumes "msp_loop ni cursor idle acc = Inr (idle', acc')" and "framed msp_wire ni ps idle acc" "idle \<le> cursor"
  shows "\<exists>ps'. framed msp_wire ni ps' idle' acc'"
  using assms
proof (induction ni cursor idle acc arbitrary: ps rule: msp_loop.induct)
  case (1 ni cursor idle acc)
  show ?case
  proof (cases "cursor < length (ni_data ni)")
    case True
    then obtain turn where turn: "msp_turn_at ni cursor idle acc = Inr turn"
      using "1.prems"(1) by (cases "msp_turn_at ni cursor idle acc") (auto simp: msp_loop.simps)
    note ok = msp_turn_at_ok [OF turn "1.prems"(2,3)]
    show ?thesis
    proof (cases turn)
      case (Msp_Break i a)
      with ok turn True "1.prems"(1) show ?thesis by (auto simp: msp_loop.simps [of ni cursor] msp_turn_ok_def)
    next
      case (Msp_Go c i a)
      with ok obtain ps1 where "framed msp_wire ni ps1 i a" "i \<le> c" by (auto simp: msp_turn_ok_def)
      with "1.IH" [OF True turn Msp_Go] "1.prems"(1) turn True Msp_Go show ?thesis
        by (auto simp: msp_loop.simps [of ni cursor])
    qed
  next
    case False
    with "1.prems" show ?thesis by (auto simp: msp_loop.simps [of ni cursor])
  qed
qed

lemma msp_framed:
  assumes "frame_msp ni = Inr acc"
  shows "\<exists>ps. framed msp_wire ni ps (length (ni_data ni)) acc"
proof -
  from assms obtain idle acc1 where loop: "msp_loop ni 0 0 native_init = Inr (idle, acc1)"
    and fin: "discard ni idle (length (ni_data ni)) ''UNFRAMED_BYTES'' acc1 = Inr acc"
    by (auto simp: frame_msp_def result_simps)
  from msp_loop_ok [OF loop framed_init] obtain ps where ps: "framed msp_wire ni ps idle acc1" by auto
  then have "idle \<le> length (ni_data ni)" by (simp add: framed_def)
  with framed_discard [OF ps fin] show ?thesis by auto
qed

interpretation msp: native_framing frame_msp msp_wire
  by unfold_locales (rule msp_framed)


section \<open>The derived table is read back\<close>

lemma nat_digits_length: "n < 10 ^ Suc k \<Longrightarrow> length (nat_digits n) \<le> Suc k"
proof (induction k arbitrary: n)
  case 0
  then show ?case by (simp add: nat_digits.simps)
next
  case (Suc k)
  have "n div 10 < 10 ^ Suc k" using Suc.prems by (simp add: less_mult_imp_div_less)
  from Suc.IH [OF this] show ?case by (subst nat_digits.simps) simp
qed

lemma nat_digits_plain: "c \<in> set (nat_digits n) \<Longrightarrow> \<not> csv_special c"
proof (induction n rule: nat_digits.induct)
  case (1 n)
  have "\<not> csv_special (char_of (48 + m))" if "m < 10" for m :: nat
  proof -
    have "list_all (\<lambda>m. \<not> csv_special (char_of (48 + m))) [0..<10]" by (simp add: csv_special_def char_of_def bit_0 upt_rec)
    with that show ?thesis by (auto simp: list_all_iff)
  qed
  with 1 show ?case by (auto simp: nat_digits.simps [of n] split: if_splits)
qed


section \<open>What the framing loops promise\<close>

lemma native_row_small:
  assumes "length (ni_data ni) \<le> 100" "ni_capture ni = 7" "length f \<le> 100" "i = 0" "s \<le> 100" "e \<le> 100" "kv \<in> set (packet_row ni i s e f)"
  shows "length (cell_text (snd kv)) \<le> 210"
proof -
  have "length (bslice (ni_data ni) s e) \<le> 100" using assms(1) by (simp add: bslice_def)
  moreover have "length (int_text (int n)) \<le> 3" if "n \<le> 100" for n
    using nat_digits_length [of n 2] that by (simp add: int_text_def)
  moreover have "length (nat_digits 7) \<le> 1" "length (nat_digits 0) \<le> 1"
    using nat_digits_length [of 7 0] nat_digits_length [of 0 0] by simp_all
  ultimately show ?thesis
    using assms by (fastforce simp: packet_row_def int_text_def)
qed

lemma native_row_taken:
  assumes "length (ni_data ni) \<le> 100" "ni_capture ni = 7" "length f \<le> 100" "s \<le> 100" "e \<le> 100" "ni_window ni = None"
    and "na_count acc = 0" "na_rows acc = []"
  shows "take_native ni s e f acc =
    Inr (acc\<lparr>na_rows := [packet_row ni 0 s e f], na_count := 1, na_bytes := na_bytes acc + (e - s)\<rparr>)"
proof -
  have "length (csv_text derived_columns [packet_row ni 0 s e f]) \<le> CRSF_LIMIT"
    using native_row_small [OF assms(1-3) refl assms(4,5)]
    by (intro order_trans [OF csv_text_cap [of _ 210]]) (auto simp: derived_columns_def PROVENANCE_def CRSF_LIMIT_def)
  moreover have "write_row derived_columns (packet_row ni 0 s e f) [] = Inr [packet_row ni 0 s e f]"
    by (simp add: write_row_def packet_row_def derived_columns_def PROVENANCE_def)
  ultimately show ?thesis
    using assms(6-) by (simp add: take_native_def frame_selected_def MAX_NATIVE_PACKETS_def)
qed

text \<open>C26. S.Port framing loses no byte: when the loop ends, the input is tiled by packets and discarded ranges in order; every packet is an unstuffed nine-byte frame of its wire bytes; the derived rows are those of the selected packets, the ranges are the discarded ones, and the byte counts of packets and waste add up to the input.\<close>

theorem sport_stream_tiles:
  assumes "frame_sport ni = Inr acc"
  shows "(\<exists>ps. framed sport_wire ni ps (length (ni_data ni)) acc) \<and>
    int (na_bytes acc) + (if ni_window ni = None then discarded_bytes acc else total (na_summary acc))
      = int (length (ni_data ni))"
  using sport.frames_all [OF assms] sport.bytes_accounted [OF assms] ..

definition sport_sample :: native_input where
  "sport_sample = \<lparr>ni_label = ''S.Port'', ni_window = None, ni_capture = 7,
     ni_data = [0x00, 0x7E, 0x1B, 0x10, 0x7D, 0x5E, 0x01, 0x02, 0x03, 0x04, 0x05, 0x06, 0x7E, 0x1B]\<rparr>"

lemma sport_sample_frames:
  "\<exists>acc. frame_sport sport_sample = Inr acc \<and> na_count acc = 1 \<and> na_bytes acc = 11 \<and>
    map (\<lambda>r. (dr_start r, dr_stop r)) (na_discarded acc) = [(0, 1), (12, 14)]"
  by (simp add: frame_sport_def sport_sample_def sport_init_def sport_step_def sport_byte_def sport_complete_def
      discard_def native_init_def native_row_taken MAX_DISCARDED_RANGES_def)

theorem sport_stream_tiles_witness:
  "\<exists>acc ps. frame_sport sport_sample = Inr acc \<and> na_count acc = 1 \<and> framed sport_wire sport_sample ps 14 acc"
proof -
  obtain acc where acc: "frame_sport sport_sample = Inr acc" "na_count acc = 1" using sport_sample_frames by blast
  have "length (ni_data sport_sample) = 14" by (simp add: sport_sample_def)
  with sport_stream_tiles [OF acc(1)] acc show ?thesis by metis
qed

text \<open>C27. S.Port framing inverts a sender's stuffing: back-to-back stuffed packets, however many of their bytes are delimiters or escapes, are framed to exactly these packets, with nothing discarded.\<close>

theorem sport_frames_encoded:
  assumes "ni_data ni = concat (map sport_encode ps)" "list_all sport_packet ps" and "frame_sport ni = Inr acc"
  shows "\<exists>pieces. framed sport_wire ni pieces (length (ni_data ni)) acc \<and> waste_of pieces = [] \<and>
    map (\<lambda>(s, e, f). f) (packets_of pieces) = ps"
proof -
  have "sport_init = between native_init (length ([] :: bytes))" by (simp add: sport_init_def between_def)
  with assms(1,3) obtain st where run: "run_items (sport_step ni) (between native_init (length ([] :: bytes))) (enumerate (length ([] :: bytes)) (concat (map sport_encode ps))) = Inr st"
    and fin: "(case sp_start st of
         None \<Rightarrow> discard ni (sp_idle st) (length (ni_data ni)) ''UNFRAMED_BYTES'' (sp_acc st)
       | Some start_at \<Rightarrow> discard ni start_at (length (ni_data ni)) ''INCOMPLETE_AT_EOF'' (sp_acc st)) = Inr acc"
    by (auto simp: frame_sport_def result_simps)
  have "ni_data ni = [] @ concat (map sport_encode ps)" "framed sport_wire ni [] (length ([] :: bytes)) native_init"
    using assms(1) framed_init by simp_all
  from sport_encoded_frames [OF this(1) assms(2) this(2) run]
  obtain pieces where p: "st = between (sp_acc st) (length (ni_data ni))" "framed sport_wire ni pieces (length (ni_data ni)) (sp_acc st)"
      "waste_of pieces = []" "map (\<lambda>(s, e, f). f) (packets_of pieces) = ps"
    by fastforce
  have "sp_start st = None" "sp_idle st = length (ni_data ni)"
    using arg_cong [OF p(1), of sp_start] arg_cong [OF p(1), of sp_idle] by (simp_all add: between_def)
  with fin have "acc = sp_acc st" by (simp add: discard_def)
  with p show ?thesis by blast
qed

definition sport_pair :: native_input where
  "sport_pair = \<lparr>ni_label = ''S.Port'', ni_window = None, ni_capture = 7,
     ni_data = [0x7E, 0x1B, 0x10, 0x7D, 0x5E, 0x01, 0x7D, 0x5D, 0x03, 0x04, 0x05, 0x06]\<rparr>"

theorem sport_frames_encoded_witness:
  "\<exists>acc pieces. frame_sport sport_pair = Inr acc \<and> framed sport_wire sport_pair pieces 12 acc \<and>
    map (\<lambda>(s, e, f). f) (packets_of pieces) = [[0x1B, 0x10, 0x7E, 0x01, 0x7D, 0x03, 0x04, 0x05, 0x06]]"
proof -
  have "\<exists>acc. frame_sport sport_pair = Inr acc"
    by (simp add: frame_sport_def sport_pair_def sport_init_def sport_step_def sport_byte_def sport_complete_def
      discard_def native_init_def native_row_taken)
  moreover have "ni_data sport_pair = concat (map sport_encode [[0x1B, 0x10, 0x7E, 0x01, 0x7D, 0x03, 0x04, 0x05, 0x06]])"
    by (simp add: sport_pair_def sport_encode_def stuff_def)
  moreover have "list_all sport_packet [[0x1B, 0x10, 0x7E, 0x01, 0x7D, 0x03, 0x04, 0x05, 0x06]]"
    by (simp add: sport_packet_def)
  moreover have "length (ni_data sport_pair) = 12" by (simp add: sport_pair_def)
  ultimately show ?thesis
    using sport_frames_encoded [of sport_pair "[[0x1B, 0x10, 0x7E, 0x01, 0x7D, 0x03, 0x04, 0x05, 0x06]]"] by metis
qed

text \<open>MSP framing loses no byte: when the loop ends, the input is tiled by complete version 1 replies (whose size byte gives their length and marks neither a jumbo frame nor an embedded version 2 frame) and discarded ranges, and the rows, ranges and byte counts are theirs.\<close>

theorem msp_stream_tiles:
  assumes "frame_msp ni = Inr acc"
  shows "(\<exists>ps. framed msp_wire ni ps (length (ni_data ni)) acc) \<and>
    int (na_bytes acc) + (if ni_window ni = None then discarded_bytes acc else total (na_summary acc))
      = int (length (ni_data ni))"
  using msp.frames_all [OF assms] msp.bytes_accounted [OF assms] ..

definition msp_sample :: native_input where
  "msp_sample = \<lparr>ni_label = ''MSP'', ni_window = None, ni_capture = 7,
     ni_data = [0x24, 0x00, 0x24, 0x4D, 0x3E, 0x01, 0x6C, 0x2A, 0x47, 0x24]\<rparr>"

lemma msp_sample_frames: "\<exists>acc. frame_msp msp_sample = Inr acc \<and> na_count acc = 1 \<and> na_bytes acc = 7"
proof -
  have f: "find_byte 0x24 (ni_data msp_sample) 0 = Some 0" "find_byte 0x24 (ni_data msp_sample) (Suc 0) = Some 2"
      "find_byte 0x24 (ni_data msp_sample) 9 = Some 9"
    by (simp_all add: msp_sample_def find_byte_rec)
  have len: "length (ni_data msp_sample) = 10" by (simp add: msp_sample_def)
  have slices: "bslice (ni_data msp_sample) 0 (Suc (Suc 0)) = [0x24, 0x00]" "bslice (ni_data msp_sample) 2 4 = [0x24, 0x4D]"
      "bslice (ni_data msp_sample) 2 5 = [0x24, 0x4D, 0x3E]" "ni_data msp_sample ! 5 = 1" "ni_data msp_sample ! 6 = 0x6C"
    by (simp_all add: msp_sample_def bslice_def)
  have small: "length (bslice (ni_data msp_sample) 2 9) \<le> 100" by (simp add: bslice_def len)
  let ?w = "\<lparr>dr_start = 0, dr_stop = 2, dr_reason = ''UNFRAMED_BYTES''\<rparr>"
  define acc0 where "acc0 = native_init\<lparr>na_discarded := [?w]\<rparr>"
  define acc1 where "acc1 = acc0\<lparr>na_rows := [packet_row msp_sample 0 2 9 (bslice (ni_data msp_sample) 2 9)], na_count := 1, na_bytes := 7\<rparr>"
  have "discard msp_sample 0 2 ''UNFRAMED_BYTES'' native_init = Inr acc0"
    by (simp add: discard_def msp_sample_def native_init_def MAX_DISCARDED_RANGES_def acc0_def)
  have "take_native msp_sample 2 9 (bslice (ni_data msp_sample) 2 9) acc0 = Inr acc1"
    by (subst native_row_taken) (use small in \<open>simp_all add: acc0_def acc1_def native_init_def msp_sample_def\<close>)
  have "discard msp_sample 9 9 ''UNFRAMED_BYTES'' acc1 = Inr acc1" by (simp add: discard_def)
  define acc2 where "acc2 = acc1\<lparr>na_discarded := na_discarded acc1 @ [\<lparr>dr_start = 9, dr_stop = 10, dr_reason = ''INCOMPLETE_AT_EOF''\<rparr>]\<rparr>"
  have "discard msp_sample 9 10 ''INCOMPLETE_AT_EOF'' acc1 = Inr acc2" "discard msp_sample 10 10 ''UNFRAMED_BYTES'' acc2 = Inr acc2"
    by (simp_all add: discard_def msp_sample_def acc0_def acc1_def acc2_def MAX_DISCARDED_RANGES_def native_init_def)
  moreover note \<open>discard msp_sample 9 9 ''UNFRAMED_BYTES'' acc1 = Inr acc1\<close> \<open>discard msp_sample 0 2 ''UNFRAMED_BYTES'' native_init = Inr acc0\<close>
    \<open>take_native msp_sample 2 9 (bslice (ni_data msp_sample) 2 9) acc0 = Inr acc1\<close>
  ultimately have "msp_turn_at msp_sample 0 0 native_init = Inr (Msp_Go 1 0 native_init)"
      "msp_turn_at msp_sample 1 0 native_init = Inr (Msp_Go 9 9 acc1)"
      "msp_turn_at msp_sample 9 9 acc1 = Inr (Msp_Break 10 acc2)" "discard msp_sample 10 10 ''UNFRAMED_BYTES'' acc2 = Inr acc2"
    by (simp_all add: msp_turn_at_def msp_candidate_def f slices len)
  then have "frame_msp msp_sample = Inr acc2"
    by (simp add: frame_msp_def msp_loop.simps [of msp_sample 0] msp_loop.simps [of msp_sample 1]
      msp_loop.simps [of msp_sample 9] msp_loop.simps [of msp_sample "Suc 0"] len)
  then show ?thesis by (auto simp: acc2_def acc1_def)
qed

theorem msp_stream_tiles_witness:
  "\<exists>acc ps. frame_msp msp_sample = Inr acc \<and> na_count acc = 1 \<and> framed msp_wire msp_sample ps 10 acc"
proof -
  obtain acc where acc: "frame_msp msp_sample = Inr acc" "na_count acc = 1" using msp_sample_frames by blast
  have "length (ni_data msp_sample) = 10" by (simp add: msp_sample_def)
  with msp_stream_tiles [OF acc(1)] acc show ?thesis by metis
qed

text \<open>The MSP loop with a count of turns: it stops with None when the count runs out.\<close>

fun msp_turns :: "nat \<Rightarrow> native_input \<Rightarrow> nat \<Rightarrow> nat \<Rightarrow> native_acc \<Rightarrow> (nat \<times> native_acc) result option" where
  "msp_turns n ni cursor idle acc =
     (if cursor < length (ni_data ni)
      then case n of
          0 \<Rightarrow> None
        | Suc m \<Rightarrow>
            (case msp_turn_at ni cursor idle acc of
               Inl e \<Rightarrow> Some (Inl e)
             | Inr (Msp_Break idle' acc') \<Rightarrow> Some (Inr (idle', acc'))
             | Inr (Msp_Go cursor' idle' acc') \<Rightarrow> msp_turns m ni cursor' idle' acc')
      else Some (Inr (idle, acc)))"

declare msp_turns.simps [simp del]

text \<open>C28. The MSP loop ends: counted turns never run out when there are as many as bytes after the cursor, and the counted loop then returns what the loop returns.\<close>

theorem msp_loop_turns:
  assumes "length (ni_data ni) \<le> cursor + n"
  shows "msp_turns n ni cursor idle acc = Some (msp_loop ni cursor idle acc)"
  using assms
proof (induction n arbitrary: cursor idle acc)
  case 0
  then show ?case by (simp add: msp_turns.simps [of 0] msp_loop.simps [of ni cursor])
next
  case (Suc n)
  have "length (ni_data ni) \<le> cursor' + n" if "msp_turn_at ni cursor idle acc = Inr (Msp_Go cursor' idle' acc')" for cursor' idle' acc'
    using msp_turn_advances [OF that] Suc.prems by simp
  with Suc.IH show ?case
    by (auto simp: msp_turns.simps [of "Suc n"] msp_loop.simps [of ni cursor] split: sum.split msp_turn.split)
qed

theorem msp_loop_turns_witness:
  "msp_turns 10 msp_sample 0 0 native_init = Some (msp_loop msp_sample 0 0 native_init)"
  by (rule msp_loop_turns) (simp add: msp_sample_def)

end
