(* ===== verification/Crsf_Params.thy ===== *)
theory Crsf_Params
  imports Crsf_Link "HOL-Library.AList"
begin

unbundle bit_operations_syntax

text \<open>
  Saved CRSF parameter replies, \<^verbatim>\<open>scripts/convert_crsf_parameters.py\<close>: the typed payload
  of an entry, the runs of chunks that carry it, the read requests that show where a run began, and
  the rows and counts of \<^verbatim>\<open>convert\<close>.
\<close>

section \<open>Constants\<close>

definition PIN :: string where "PIN = ''tbs-fpv/tbs-crsf-spec@001b4058231c1d6f2288458500293a0f9de0a3de''"
definition PIN_SHA256 :: string where
  "PIN_SHA256 = ''sha256:d9dcb4c8de911ed6e94eb8eae38fbc77abe0839b316b240c3556ce19d66ccb3d''"
definition PARAM_LIMIT :: nat where "PARAM_LIMIT = 16 * 1024 * 1024"
definition PARAM_OUTPUT_LIMIT :: nat where "PARAM_OUTPUT_LIMIT = 128 * 1024 * 1024"
definition DEVICE_INFORMATION :: byte where "DEVICE_INFORMATION = 0x29"
definition PARAMETER_ENTRY :: byte where "PARAMETER_ENTRY = 0x2B"
definition PARAMETER_READ :: byte where "PARAMETER_READ = 0x2C"
definition PARAMETER_WRITE :: byte where "PARAMETER_WRITE = 0x2D"
definition MAX_CHUNKS :: nat where "MAX_CHUNKS = 16"
definition MAX_ENTRY_BYTES :: nat where "MAX_ENTRY_BYTES = 896"

definition DEVICE_ROLES :: "(byte \<times> string) list" where
  "DEVICE_ROLES = [(0x00, ''BROADCAST''), (0x0E, ''CLOUD''), (0x10, ''USB_DEVICE''), (0x12, ''BLUETOOTH_OR_WIFI_MODULE''),
     (0x13, ''WIFI_RECEIVER''), (0x14, ''VIDEO_RECEIVER''), (0x80, ''OSD_OR_CORE_PNP_PRO''),
     (0xC0, ''VOLTAGE_OR_CURRENT_SENSOR''), (0xC2, ''GPS''), (0xC4, ''BLACKBOX''),
     (0xC8, ''FLIGHT_CONTROLLER''), (0xCC, ''RACE_TAG''), (0xCE, ''VTX''), (0xEA, ''REMOTE_CONTROL''),
     (0xEB, ''REPEATER_RECEIVER''), (0xEC, ''RC_RECEIVER''), (0xED, ''REPEATER_TRANSMITTER_MODULE''),
     (0xEE, ''RC_TRANSMITTER_MODULE'')]
     @ map (\<lambda>address. (word_of_nat address, ''ESC_'' @ int_text (int address - 0x8F))) [0x90..<0x98]"

definition ROLE_UNLISTED :: string where "ROLE_UNLISTED = ''ADDRESS_NOT_LISTED_BY_THE_PINNED_SPECIFICATION''"
definition HIDDEN_BIT :: byte where "HIDDEN_BIT = 0x80"

definition DATA_TYPES :: "(byte \<times> string) list" where
  "DATA_TYPES = [(0, ''UINT8_DEPRECATED''), (1, ''INT8_DEPRECATED''), (2, ''UINT16_DEPRECATED''),
     (3, ''INT16_DEPRECATED''), (4, ''UINT32_DEPRECATED''), (5, ''INT32_DEPRECATED''), (8, ''FLOAT''),
     (9, ''TEXT_SELECTION''), (10, ''STRING''), (11, ''FOLDER''), (12, ''INFO''), (13, ''COMMAND''),
     (127, ''OUT_OF_RANGE'')]"

definition FLOAT_TYPE :: byte where "FLOAT_TYPE = 8"
definition SELECTION_TYPE :: byte where "SELECTION_TYPE = 9"
definition STRING_TYPE :: byte where "STRING_TYPE = 10"
definition INFO_TYPE :: byte where "INFO_TYPE = 12"
definition OUT_OF_RANGE :: byte where "OUT_OF_RANGE = 127"

definition STORED :: string where "STORED = ''DEVICE_REPORTED_STORED_SETTING''"
definition STORED_TEXT :: string where "STORED_TEXT = ''DEVICE_REPORTED_STORED_TEXT_RETAINED_AS_HEX''"
definition NOT_A_SETTING :: string where
  "NOT_A_SETTING = ''NOT_A_CONFIGURABLE_SETTING_BY_THE_PINNED_TYPE_DEFINITION''"
definition NO_SUCH_PARAMETER :: string where
  "NO_SUCH_PARAMETER = ''DEVICE_REPORTED_PARAMETER_NUMBER_OUT_OF_RANGE_SO_THERE_IS_NO_SETTING_HERE''"
definition TYPE_UNKNOWN :: string where
  "TYPE_UNKNOWN = ''TYPE_NOT_DEFINED_BY_THE_PINNED_SPECIFICATION_SO_NO_VALUE_IS_READ''"
definition DEPRECATED_TYPE :: string where
  "DEPRECATED_TYPE = ''TYPE_MARKED_DEPRECATED_BY_THE_PINNED_SPECIFICATION_SO_NO_VALUE_IS_READ''"
definition UNQUALIFIED_START :: string where
  "UNQUALIFIED_START = ''UNQUALIFIED_RUN_START_NOT_EVIDENCED_SO_NO_VALUE_IS_READ''"
definition SINGLE_FRAME :: string where
  "SINGLE_FRAME = ''SINGLE_OBSERVED_FRAME_REPORTING_NO_CHUNKS_REMAINING_WHICH_ALONE_DOES_NOT_SHOW_IT_IS_'' @
     ''THE_WHOLE_ENTRY''"
definition JOINED_RUN :: string where
  "JOINED_RUN = ''MULTI_FRAME_RUN_JOINED_WHILE_SELF_CONSISTENT_DOWN_TO_NO_CHUNKS_REMAINING''"
definition START_OBSERVED :: string where
  "START_OBSERVED = ''CORRELATED_0x2C_CHUNK_ZERO_READ_REQUEST_EVIDENCE_NOT_PROOF_THAT_NO_FRAME_WAS_LOST_'' @
     ''BETWEEN_IT_AND_THE_REPLY''"
definition START_DECLARED :: string where
  "START_DECLARED = ''CALLER_DECLARED_PRECONDITION_THAT_EVERY_RUN_IN_THIS_FILE_STARTS_AT_CHUNK_ZERO_NOT_'' @
     ''OBSERVED_IN_BAND''"
definition START_ABSENT :: string where
  "START_ABSENT = ''NO_CORRELATED_CHUNK_ZERO_READ_REQUEST_AND_NO_CALLER_DECLARATION''"
definition IDENTITY_REPORTED :: string where
  "IDENTITY_REPORTED = ''DEVICE_REPORTED_ITS_OWN_IDENTITY_IN_AN_0x29_FRAME_FROM_THIS_ORIGIN_NOT_AUTHENTICATED''"
definition IDENTITY_ABSENT :: string where
  "IDENTITY_ABSENT = ''DEVICE_INFORMATION_NOT_REPORTED_BY_THIS_ORIGIN_IN_THIS_CAPTURE''"
definition REQUESTED_WRITE :: string where
  "REQUESTED_WRITE = ''REQUESTED_WRITE_NOT_A_REPORTED_CONFIGURATION''"
definition REQUESTED_READ :: string where
  "REQUESTED_READ = ''REQUESTED_READ_NOT_A_REPORTED_CONFIGURATION''"
definition CONFIGURATION_BASIS :: string where
  "CONFIGURATION_BASIS = ''the devices own reported stored setting as the pinned parameter frame carries it;'' @
     '' never an observed hardware state; never a measurement; never proof that the'' @
     '' setting is in effect or honoured; never a requested write''"

definition PARAM_FIELDS :: "string list" where
  "PARAM_FIELDS = [''record_time_us'', ''crsf_origin_address'', ''crsf_origin_role'', ''crsf_destination_address'',
     ''crsf_device_name_hex'', ''crsf_device_serial_reported'', ''crsf_device_hardware_id_reported'',
     ''crsf_device_firmware_id_reported'', ''crsf_device_parameters_total_reported'',
     ''crsf_device_parameter_version_reported'', ''crsf_device_identity_basis'',
     ''crsf_parameter_number'', ''crsf_parameter_parent_folder'', ''crsf_parameter_name_hex'',
     ''crsf_parameter_type_code'', ''crsf_parameter_type_name'', ''crsf_parameter_hidden_reported'',
     ''crsf_configured_value_reported'', ''crsf_configured_value_label_hex'', ''crsf_value_min_reported'',
     ''crsf_value_max_reported'', ''crsf_value_default_reported'', ''crsf_value_decimal_point_reported'',
     ''crsf_value_step_reported'', ''crsf_string_max_length_reported'', ''crsf_value_unit_hex'',
     ''crsf_value_disposition'', ''crsf_entry_start_basis'', ''crsf_chain_disposition'',
     ''crsf_chunk_count'', ''crsf_payload_consumed_bytes'', ''crsf_payload_remainder_bytes'',
     ''crsf_payload_remainder_hex'', ''crsf_entry_sha256'', ''crsf_configuration_basis'']"

section \<open>The payloads\<close>

definition role :: "byte \<Rightarrow> string" where
  "role address = (case map_of DEVICE_ROLES address of None \<Rightarrow> ROLE_UNLISTED | Some s \<Rightarrow> s)"

definition read_string :: "bytes \<Rightarrow> nat \<Rightarrow> (bytes \<times> nat) result" where
  "read_string payload position =
     (case find_byte 0 payload position of
        None \<Rightarrow> fail ''a reported string is not null-terminated inside the frame payload''
      | Some stop \<Rightarrow> Inr (bslice payload position stop, stop + 1))"

definition read_int :: "bool \<Rightarrow> bytes \<Rightarrow> nat \<Rightarrow> nat \<Rightarrow> (int \<times> nat) result" where
  "read_int sign payload position width =
     (if position + width > length payload
      then fail ''the payload is shorter than the mandatory fields of its declared type''
      else let bs = bslice payload position (position + width) in
        Inr (if sign then be_sint bs else be_int bs, position + width))"

definition hex_cell :: "bytes \<Rightarrow> cell" where
  "hex_cell bs = CStr (''hex:'' @ hex_of bs)"

definition byte_cell :: "byte \<Rightarrow> cell" where
  "byte_cell b = CInt (bval b)"

definition device_information :: "bytes \<Rightarrow> row result" where
  "device_information payload =
     rbind (read_string payload 0) (\<lambda>(name, p1).
     rbind (read_int False payload p1 4) (\<lambda>(serial, p2).
     rbind (read_int False payload p2 4) (\<lambda>(hardware, p3).
     rbind (read_int False payload p3 4) (\<lambda>(firmware, p4).
     rbind (read_int False payload p4 1) (\<lambda>(count, p5).
       Inr [(''crsf_device_name_hex'', hex_cell name), (''crsf_device_serial_reported'', CInt serial),
         (''crsf_device_hardware_id_reported'', CInt hardware), (''crsf_device_firmware_id_reported'', CInt firmware),
         (''crsf_device_parameters_total_reported'', CInt count),
         (''crsf_device_parameter_version_reported'', if p5 < length payload then byte_cell (payload ! p5) else CStr ''''),
         (''crsf_device_identity_basis'', CStr IDENTITY_REPORTED)])))))"

text \<open>What the type consumed of the payload and what is left over.\<close>

definition account :: "bytes \<Rightarrow> nat \<Rightarrow> row \<Rightarrow> row" where
  "account payload position row =
     (let rest = drop position payload in
      row_update row [(''crsf_payload_consumed_bytes'', CInt (int position)),
        (''crsf_payload_remainder_bytes'', CInt (int (length rest))),
        (''crsf_payload_remainder_hex'', if rest \<noteq> [] then hex_cell rest else CStr ''NONE'')])"

definition float_cells :: "bytes \<Rightarrow> nat \<Rightarrow> (row \<times> nat) result" where
  "float_cells payload p0 =
     rbind (read_int True payload p0 4) (\<lambda>(val, p1).
     rbind (read_int True payload p1 4) (\<lambda>(low, p2).
     rbind (read_int True payload p2 4) (\<lambda>(high, p3).
     rbind (read_int True payload p3 4) (\<lambda>(default, p4).
     rbind (read_int False payload p4 1) (\<lambda>(decimal, p5).
     rbind (read_int True payload p5 4) (\<lambda>(step, p6).
       Inr ([(''crsf_configured_value_reported'', CInt val), (''crsf_value_min_reported'', CInt low),
         (''crsf_value_max_reported'', CInt high), (''crsf_value_default_reported'', CInt default),
         (''crsf_value_decimal_point_reported'', CInt decimal), (''crsf_value_step_reported'', CInt step),
         (''crsf_value_disposition'', CStr STORED)], p6)))))))"

text \<open>\<^verbatim>\<open>options.split(b";")\<close>\<close>

fun split_bytes :: "byte \<Rightarrow> bytes \<Rightarrow> bytes list" where
  "split_bytes sep [] = [[]]"
| "split_bytes sep (b # bs) =
     (if b = sep then [] # split_bytes sep bs
      else case split_bytes sep bs of [] \<Rightarrow> [[b]] | x # xs \<Rightarrow> (b # x) # xs)"

definition selection_label :: "bytes \<Rightarrow> int \<Rightarrow> cell" where
  "selection_label options val =
     (let choices = (if options \<noteq> [] then split_bytes 0x3B options else []) in
      if val < int (length choices) then hex_cell (choices ! nat val)
      else CStr ''OPTION_INDEX_BEYOND_THE_REPORTED_LIST'')"

definition selection_cells :: "bytes \<Rightarrow> nat \<Rightarrow> (row \<times> nat) result" where
  "selection_cells payload p0 =
     rbind (read_string payload p0) (\<lambda>(options, p1).
     rbind (read_int False payload p1 1) (\<lambda>(val, p2).
     rbind (read_int False payload p2 1) (\<lambda>(low, p3).
     rbind (read_int False payload p3 1) (\<lambda>(high, p4).
     rbind (read_int False payload p4 1) (\<lambda>(default, p5).
       Inr ([(''crsf_configured_value_reported'', CInt val), (''crsf_value_min_reported'', CInt low),
         (''crsf_value_max_reported'', CInt high), (''crsf_value_default_reported'', CInt default),
         (''crsf_value_disposition'', CStr STORED),
         (''crsf_configured_value_label_hex'', selection_label options val)], p5))))))"

definition string_cells :: "bytes \<Rightarrow> nat \<Rightarrow> (row \<times> nat) result" where
  "string_cells payload p0 =
     rbind (read_string payload p0) (\<lambda>(val, p1).
       let cells = [(''crsf_configured_value_reported'', hex_cell val), (''crsf_value_disposition'', CStr STORED_TEXT)] in
       if p1 < length payload
       then Inr (cells @ [(''crsf_string_max_length_reported'', byte_cell (payload ! p1))], p1 + 1)
       else Inr (cells @ [(''crsf_string_max_length_reported'', CStr ''ABSENT'')], p1))"

definition info_cells :: "bytes \<Rightarrow> nat \<Rightarrow> (row \<times> nat) result" where
  "info_cells payload p0 =
     rbind (read_string payload p0) (\<lambda>(val, p1).
       Inr ([(''crsf_configured_value_reported'', hex_cell val), (''crsf_value_disposition'', CStr NOT_A_SETTING)], p1))"

definition typed_cells :: "byte \<Rightarrow> bytes \<Rightarrow> nat \<Rightarrow> (row \<times> nat) result" where
  "typed_cells kind payload position =
     (if kind = FLOAT_TYPE then float_cells payload position
      else if kind = SELECTION_TYPE then selection_cells payload position
      else if kind = STRING_TYPE then string_cells payload position
      else if kind = INFO_TYPE then info_cells payload position
      else Inr ([(''crsf_value_disposition'', CStr NOT_A_SETTING)], position))"

definition unit_cells :: "byte \<Rightarrow> bytes \<Rightarrow> nat \<Rightarrow> (row \<times> nat) result" where
  "unit_cells kind payload position =
     (if kind \<notin> {FLOAT_TYPE, SELECTION_TYPE} then Inr ([], position)
      else if position < length payload
      then rbind (read_string payload position) (\<lambda>(units, p1). Inr ([(''crsf_value_unit_hex'', hex_cell units)], p1))
      else Inr ([(''crsf_value_unit_hex'', CStr ''ABSENT'')], position))"

definition kind_name :: "byte \<Rightarrow> string" where
  "kind_name kind = (case map_of DATA_TYPES kind of None \<Rightarrow> ''UNKNOWN_TYPE_RETAINED_AS_REPORTED'' | Some s \<Rightarrow> s)"

definition entry_header :: "bytes \<Rightarrow> row" where
  "entry_header payload =
     (let declared = payload ! 1; kind = declared AND NOT HIDDEN_BIT in
      [(''crsf_parameter_parent_folder'', byte_cell (payload ! 0)), (''crsf_parameter_type_code'', byte_cell kind),
       (''crsf_parameter_type_name'', CStr (kind_name kind)),
       (''crsf_parameter_hidden_reported'', CInt (if declared AND HIDDEN_BIT \<noteq> 0 then 1 else 0))])"

definition parameter_entry :: "bytes \<Rightarrow> row \<Rightarrow> row result" where
  "parameter_entry payload row =
     (if length payload < 2 then fail ''the payload is shorter than the mandatory fields of its declared type''
      else let kind = (payload ! 1) AND NOT HIDDEN_BIT; row1 = row_update row (entry_header payload) in
        if map_of DATA_TYPES kind = None
        then Inr (account payload 2 (row_update row1 [(''crsf_value_disposition'', CStr TYPE_UNKNOWN)]))
        else if kind = OUT_OF_RANGE
        then Inr (account payload 2 (row_update row1 [(''crsf_value_disposition'', CStr NO_SUCH_PARAMETER)]))
        else if kind < FLOAT_TYPE
        then Inr (account payload 2 (row_update row1 [(''crsf_value_disposition'', CStr DEPRECATED_TYPE)]))
        else rbind (read_string payload 2) (\<lambda>(name, p1).
          rbind (typed_cells kind payload p1) (\<lambda>(cells, p2).
          rbind (unit_cells kind payload p2) (\<lambda>(units, p3).
            Inr (account payload p3 (row_update (row_update (row_update row1
              [(''crsf_parameter_name_hex'', hex_cell name)]) cells) units))))))"

section \<open>The state of a conversion\<close>

record held_run =
  hr_number :: byte
  hr_remaining :: byte
  hr_data :: bytes
  hr_chunks :: nat
  hr_time :: int
  hr_first :: byte
  hr_destination :: byte
  hr_observed :: bool

record param_state =
  ps_source :: nat
  ps_entries :: nat
  ps_unqualified :: nat
  ps_devices :: nat
  ps_requested :: "(nat \<times> byte \<times> string) list"
  ps_unsupported :: "(nat \<times> byte) list"
  ps_observed :: nat
  ps_invalidated :: nat
  ps_identities :: "(byte \<times> row) list"
  ps_pending :: "(byte \<times> held_run) list"
  ps_reads :: "((byte \<times> byte) \<times> byte) list"
  ps_previous :: "int option"
  ps_out :: "row list"

definition param_init :: param_state where
  "param_init = \<lparr>ps_source = 0, ps_entries = 0, ps_unqualified = 0, ps_devices = 0, ps_requested = [],
     ps_unsupported = [], ps_observed = 0, ps_invalidated = 0, ps_identities = [], ps_pending = [], ps_reads = [],
     ps_previous = None, ps_out = []\<rparr>"

section \<open>The frames of a capture\<close>

text \<open>A read or write request is counted, never valued; a read of chunk zero authorises the next run.\<close>

definition note_read :: "bytes \<Rightarrow> param_state \<Rightarrow> param_state" where
  "note_read frame st =
     (let pair = (frame ! 3, frame ! 4) in
      if frame ! 6 = 0
      then st\<lparr>ps_reads := AList.update pair (frame ! 5) (ps_reads st), ps_observed := ps_observed st + 1\<rparr>
      else if map_of (ps_reads st) pair \<noteq> None
      then st\<lparr>ps_reads := AList.delete pair (ps_reads st), ps_invalidated := ps_invalidated st + 1\<rparr>
      else st)"

definition param_request :: "nat \<Rightarrow> bytes \<Rightarrow> param_state \<Rightarrow> param_state" where
  "param_request line frame st =
     (let kind = frame ! 2;
          st1 = st\<lparr>ps_requested := ps_requested st @
            [(line, kind, if kind = PARAMETER_WRITE then REQUESTED_WRITE else REQUESTED_READ)]\<rparr> in
      if kind = PARAMETER_READ \<and> length frame \<ge> 8 then note_read frame st1 else st1)"

text \<open>The run a chunk continues, or the run it starts together with the reads that are left.\<close>

definition hold_run ::
  "int \<Rightarrow> byte \<Rightarrow> byte \<Rightarrow> byte \<Rightarrow> byte \<Rightarrow> param_state \<Rightarrow> (held_run \<times> ((byte \<times> byte) \<times> byte) list) result" where
  "hold_run time origin destination number remaining st =
     (case map_of (ps_pending st) origin of
        None \<Rightarrow> Inr (\<lparr>hr_number = number, hr_remaining = remaining, hr_data = [], hr_chunks = 0, hr_time = time,
          hr_first = remaining, hr_destination = destination,
          hr_observed = (map_of (ps_reads st) (origin, destination) = Some number)\<rparr>,
          AList.delete (origin, destination) (ps_reads st))
      | Some held \<Rightarrow>
          if hr_destination held \<noteq> destination
          then fail ''the reported chunk run breaks: the destination address changed mid-run''
          else if hr_number held \<noteq> number \<or> bval remaining \<noteq> bval (hr_remaining held) - 1
          then fail ''the reported chunk run breaks: wrong parameter number or chunk count''
          else Inr (held\<lparr>hr_remaining := remaining\<rparr>, ps_reads st))"

definition start_basis :: "bool \<Rightarrow> held_run \<Rightarrow> string" where
  "start_basis declared held =
     (if hr_observed held then START_OBSERVED else if declared then START_DECLARED else START_ABSENT)"

definition entry_base :: "bool \<Rightarrow> row \<Rightarrow> byte \<Rightarrow> held_run \<Rightarrow> row" where
  "entry_base declared identity origin held =
     row_update (row_update (map (\<lambda>k. (k, CStr '''')) PARAM_FIELDS)
       [(''record_time_us'', CInt (hr_time held)), (''crsf_origin_address'', byte_cell origin),
        (''crsf_origin_role'', CStr (role origin)), (''crsf_destination_address'', byte_cell (hr_destination held)),
        (''crsf_parameter_number'', byte_cell (hr_number held)), (''crsf_chunk_count'', CInt (int (hr_chunks held))),
        (''crsf_entry_sha256'', CStr (sha256_ref (hr_data held))),
        (''crsf_entry_start_basis'', CStr (start_basis declared held)),
        (''crsf_chain_disposition'', CStr (if hr_chunks held = 1 then SINGLE_FRAME else JOINED_RUN)),
        (''crsf_configuration_basis'', CStr CONFIGURATION_BASIS),
        (''crsf_device_identity_basis'', CStr IDENTITY_ABSENT)]) identity"

definition entry_row :: "bool \<Rightarrow> row \<Rightarrow> byte \<Rightarrow> held_run \<Rightarrow> row result" where
  "entry_row declared identity origin held =
     (let row = entry_base declared identity origin held; entry = hr_data held in
      if start_basis declared held = START_ABSENT
      then Inr (row_update row [(''crsf_value_disposition'', CStr UNQUALIFIED_START),
        (''crsf_payload_consumed_bytes'', CInt 0), (''crsf_payload_remainder_bytes'', CInt (int (length entry))),
        (''crsf_payload_remainder_hex'', if entry \<noteq> [] then hex_cell entry else CStr ''NONE'')])
      else parameter_entry entry row)"

definition identity_of :: "(byte \<times> row) list \<Rightarrow> byte \<Rightarrow> row" where
  "identity_of identities origin = (case map_of identities origin of None \<Rightarrow> [] | Some r \<Rightarrow> r)"

definition complete_entry :: "bool \<Rightarrow> byte \<Rightarrow> held_run \<Rightarrow> param_state \<Rightarrow> param_state result" where
  "complete_entry declared origin held st =
     rbind (entry_row declared (identity_of (ps_identities st) origin) origin held) (\<lambda>row.
     rbind (write_row PARAM_FIELDS row (ps_out st)) (\<lambda>out.
       if length (csv_text PARAM_FIELDS out) > PARAM_OUTPUT_LIMIT then fail ''expanded output exceeds bound''
       else let absent = (start_basis declared held = START_ABSENT) in
         Inr (st\<lparr>ps_pending := AList.delete origin (ps_pending st), ps_out := out,
           ps_entries := ps_entries st + (if absent then 0 else 1),
           ps_unqualified := ps_unqualified st + (if absent then 1 else 0)\<rparr>)))"

definition param_chunk :: "bool \<Rightarrow> int \<Rightarrow> bytes \<Rightarrow> param_state \<Rightarrow> param_state result" where
  "param_chunk declared time frame st =
     (let destination = frame ! 3; origin = frame ! 4; payload = bslice frame 5 (length frame - 1) in
      if length payload < 2 then fail ''a parameter entry frame needs a number and a chunks-remaining count''
      else rbind (hold_run time origin destination (payload ! 0) (payload ! 1) st) (\<lambda>(held, reads).
        let held1 = held\<lparr>hr_data := hr_data held @ drop 2 payload, hr_chunks := hr_chunks held + 1\<rparr>;
            st1 = st\<lparr>ps_reads := reads, ps_pending := AList.update origin held1 (ps_pending st)\<rparr> in
        if hr_chunks held1 > MAX_CHUNKS \<or> length (hr_data held1) > MAX_ENTRY_BYTES
        then fail ''the reported parameter entry exceeds the selected chunk bound''
        else if payload ! 1 \<noteq> 0 then Inr st1
        else complete_entry declared origin held1 st1))"

definition param_device :: "bytes \<Rightarrow> param_state \<Rightarrow> param_state result" where
  "param_device frame st =
     rbind (device_information (bslice frame 5 (length frame - 1))) (\<lambda>identity.
       Inr (st\<lparr>ps_identities := AList.update (frame ! 4) identity (ps_identities st), ps_devices := ps_devices st + 1\<rparr>))"

definition param_frame :: "bool \<Rightarrow> param_state \<Rightarrow> nat \<times> int \<times> bytes \<Rightarrow> param_state result" where
  "param_frame declared st item =
     (case item of (line, time, frame) \<Rightarrow>
       let kind = frame ! 2; st1 = st\<lparr>ps_source := ps_source st + 1\<rparr> in
       if kind = PARAMETER_READ \<or> kind = PARAMETER_WRITE then Inr (param_request line frame st1)
       else if kind \<noteq> DEVICE_INFORMATION \<and> kind \<noteq> PARAMETER_ENTRY
       then Inr (st1\<lparr>ps_unsupported := ps_unsupported st1 @ [(line, kind)]\<rparr>)
       else if length frame < 6 then fail ''an extended header frame needs a destination and an origin address''
       else if kind = DEVICE_INFORMATION then param_device frame st1
       else param_chunk declared time frame st1)"

section \<open>The conversion\<close>

definition param_bytes :: "string \<Rightarrow> bytes result" where
  "param_bytes s =
     (if \<not> hex_text 4 64 s then fail ''expected bounded complete CRSF frame hex''
      else let frame = from_hex s in
        if bval (frame ! 1) \<noteq> int (length frame) - 2 \<or> \<not> (2 \<le> bval (frame ! 1) \<and> bval (frame ! 1) \<le> 62)
        then fail ''CRSF frame length outside the pinned 2..62 range or inconsistent''
        else if crc8 (bslice frame 2 (length frame - 1)) \<noteq> last frame then fail ''CRSF frame CRC mismatch''
        else Inr frame)"

definition param_record :: "string list \<Rightarrow> bool \<Rightarrow> param_state \<Rightarrow> nat \<times> string list \<Rightarrow> param_state result" where
  "param_record names declared st item =
     (let row = text_row names (snd item) in
      if length (snd item) \<noteq> length names then fail ''capture row width mismatch''
      else rbind (capture_time (ps_previous st) (text_get row ''time_us'')) (\<lambda>time.
        rbind (param_bytes (text_get row ''frame_hex'')) (\<lambda>frame.
          param_frame declared (st\<lparr>ps_previous := Some time\<rparr>) (fst item, time, frame))))"

definition param_items :: "string list gen \<Rightarrow> (nat \<times> string list) gen" where
  "param_items g = (let records = dict_records g in (zip [2..<2 + length (fst records)] (fst records), snd records))"

definition convert_params :: "string \<Rightarrow> bool \<Rightarrow> param_state result" where
  "convert_params csv declared =
     (if length csv > PARAM_LIMIT then fail ''input exceeds bound''
      else rbind (dict_fieldnames (csv_reader True csv)) (\<lambda>fieldnames.
        rbind (capture_names fieldnames) (\<lambda>names.
          run_gen (param_record names declared) param_init (param_items (csv_reader True csv)))))"

definition params_output :: "param_state \<Rightarrow> string" where
  "params_output st = csv_text PARAM_FIELDS (ps_out st)"

definition params_report :: "bool \<Rightarrow> param_state \<Rightarrow> json" where
  "params_report declared st =
     JObj [(''source_records'', JInt (int (ps_source st))), (''parameter_entries'', JInt (int (ps_entries st))),
       (''unqualified_entries'', JInt (int (ps_unqualified st))),
       (''device_information_records'', JInt (int (ps_devices st))),
       (''requested_frames'', JArr (map (\<lambda>(line, kind, disposition). JObj [(''line'', JInt (int line)),
          (''frame_type'', JInt (bval kind)), (''disposition'', JStr disposition)]) (ps_requested st))),
       (''unsupported_records'', JArr (map (\<lambda>(line, kind). JObj [(''line'', JInt (int line)),
          (''frame_type'', JInt (bval kind))]) (ps_unsupported st))),
       (''incomplete_chunk_runs'', JInt (int (length (ps_pending st)))),
       (''observed_chunk_zero_reads'', JInt (int (ps_observed st))),
       (''invalidated_chunk_zero_reads'', JInt (int (ps_invalidated st))),
       (''entry_start_declaration'', JStr (if declared then START_DECLARED else ''NOT_DECLARED_BY_THE_CALLER'')),
       (''clock'', JStr ''Unknown''), (''specification_pin'', JStr PIN), (''specification_sha256'', JStr PIN_SHA256),
       (''configuration_basis'', JStr CONFIGURATION_BASIS),
       (''scope'', JStr (''saved frames only; no frame is transmitted and no device is contacted;'' @
          '' this is a reusable CRSF parameter-protocol capability and not coverage of'' @
          '' any configuration application: no vendor application writer is identified'' @
          '' here and no application file export is claimed to exist''))]"

section \<open>The bytes of an entry\<close>

definition VALUE_COLUMNS :: "string list" where
  "VALUE_COLUMNS = [''crsf_parameter_parent_folder'', ''crsf_parameter_name_hex'', ''crsf_parameter_type_code'',
     ''crsf_parameter_type_name'', ''crsf_parameter_hidden_reported'', ''crsf_configured_value_reported'',
     ''crsf_configured_value_label_hex'', ''crsf_value_min_reported'', ''crsf_value_max_reported'',
     ''crsf_value_default_reported'', ''crsf_value_decimal_point_reported'', ''crsf_value_step_reported'',
     ''crsf_string_max_length_reported'', ''crsf_value_unit_hex'']"

definition identity_row :: "row \<Rightarrow> bool" where
  "identity_row r \<longleftrightarrow> r = [] \<or> (\<exists>p. device_information p = Inr r)"

definition accounted :: "bytes \<Rightarrow> row \<Rightarrow> bool" where
  "accounted payload r \<longleftrightarrow> (\<exists>n \<le> length payload.
     row_get r ''crsf_payload_consumed_bytes'' = CInt (int n) \<and>
     row_get r ''crsf_payload_remainder_bytes'' = CInt (int (length payload - n)) \<and>
     row_get r ''crsf_payload_remainder_hex'' =
       (if n < length payload then CStr (''hex:'' @ hex_of (drop n payload)) else CStr ''NONE''))"

lemma account_accounted: "position \<le> length payload \<Longrightarrow> accounted payload (account payload position row)"
  by (auto simp: accounted_def account_def Let_def row_get_update row_get_def row_update_def hex_cell_def)

lemma read_string_bound: "read_string payload p = Inr (s, p') \<Longrightarrow> p' \<le> length payload"
  by (auto simp: read_string_def split: option.splits dest!: find_byte_Some)

lemma read_int_bound: "read_int sign payload p w = Inr (n, p') \<Longrightarrow> p' \<le> length payload"
  by (auto simp: read_int_def Let_def split: if_splits)

lemma typed_cells_bound:
  assumes "typed_cells kind payload p = Inr (cells, p')" "p \<le> length payload"
  shows "p' \<le> length payload"
  using assms
  by (auto simp: typed_cells_def float_cells_def selection_cells_def string_cells_def info_cells_def result_simps Let_def
      split: if_splits dest: read_string_bound read_int_bound)

lemma unit_cells_bound:
  assumes "unit_cells kind payload p = Inr (cells, p')" "p \<le> length payload"
  shows "p' \<le> length payload"
  using assms by (auto simp: unit_cells_def result_simps split: if_splits dest: read_string_bound)

lemma parameter_entry_accounted:
  assumes "parameter_entry payload row = Inr row'"
  shows "accounted payload row'"
proof -
  have two: "2 \<le> length payload" using assms by (auto simp: parameter_entry_def Let_def split: if_splits)
  show ?thesis
    using assms two
    by (auto simp: parameter_entry_def Let_def result_simps split: if_splits intro!: account_accounted
        dest: read_string_bound typed_cells_bound unit_cells_bound)
qed

lemma row_get_empty: "k \<in> set cols \<Longrightarrow> row_get (map (\<lambda>k. (k, CStr '''')) cols) k = CStr ''''"
  by (simp add: row_get_def map_of_map_restrict)

lemma base_values_empty:
  assumes "identity_row identity"
  shows "list_all (\<lambda>k. row_get (entry_base declared identity o1 held) k = CStr '''') VALUE_COLUMNS"
proof -
  have id: "identity_row identity \<Longrightarrow> list_all (\<lambda>k. map_of identity k = None) VALUE_COLUMNS"
    by (auto simp: identity_row_def device_information_def result_simps VALUE_COLUMNS_def)
  have "list_all (\<lambda>k. k \<in> set PARAM_FIELDS) VALUE_COLUMNS"
    by (simp only: VALUE_COLUMNS_def PARAM_FIELDS_def list.pred_inject list.set insert_iff refl simp_thms)
  then have "list_all (\<lambda>k. row_get (map (\<lambda>k. (k, CStr '''')) PARAM_FIELDS) k = CStr '''') VALUE_COLUMNS"
    by (auto simp: list_all_iff row_get_empty)
  with id [OF assms] show ?thesis
    unfolding entry_base_def by (simp add: row_get_update VALUE_COLUMNS_def)
qed

text \<open>C30. An entry is accounted to the byte: what its type consumed and what is left over make up the payload. A run
  whose start is neither evidenced by a read nor declared by the caller gives a row in which no value column is
  filled and nothing was consumed.\<close>

theorem entry_without_evidence:
  assumes "entry_row declared identity o1 held = Inr r" and "identity_row identity"
  shows "accounted (hr_data held) r \<and>
    (hr_observed held \<or> declared \<or>
      list_all (\<lambda>k. row_get r k = CStr '''') VALUE_COLUMNS \<and>
      row_get r ''crsf_value_disposition'' = CStr UNQUALIFIED_START \<and>
      row_get r ''crsf_payload_consumed_bytes'' = CInt 0)"
proof (cases "start_basis declared held = START_ABSENT")
  case True
  let ?c = "[(''crsf_value_disposition'', CStr UNQUALIFIED_START), (''crsf_payload_consumed_bytes'', CInt 0),
     (''crsf_payload_remainder_bytes'', CInt (int (length (hr_data held)))),
     (''crsf_payload_remainder_hex'', if hr_data held \<noteq> [] then hex_cell (hr_data held) else CStr ''NONE'')]"
  from True assms(1) have r: "r = row_update (entry_base declared identity o1 held) ?c"
    by (simp add: entry_row_def Let_def)
  have "accounted (hr_data held) r"
    by (auto simp: r accounted_def row_get_update hex_cell_def intro!: exI [of _ 0])
  moreover have "row_get r ''crsf_value_disposition'' = CStr UNQUALIFIED_START" "row_get r ''crsf_payload_consumed_bytes'' = CInt 0"
    by (simp_all add: r row_get_update)
  moreover have "list_all (\<lambda>k. map_of ?c k = None) VALUE_COLUMNS" by (simp add: VALUE_COLUMNS_def)
  then have "list_all (\<lambda>k. row_get r k = CStr '''') VALUE_COLUMNS"
    using base_values_empty [OF assms(2)] by (simp add: r row_get_update list_all_iff)
  ultimately show ?thesis by blast
next
  case False
  then have "hr_observed held \<or> declared" by (auto simp: start_basis_def split: if_splits)
  moreover from False assms(1) have "parameter_entry (hr_data held) (entry_base declared identity o1 held) = Inr r"
    by (simp add: entry_row_def Let_def)
  ultimately show ?thesis using parameter_entry_accounted by blast
qed

section \<open>A stored number\<close>

definition int32 :: "int \<Rightarrow> bool" where "int32 v \<longleftrightarrow> - (2 ^ 31) \<le> v \<and> v < 2 ^ 31"
definition pack_i32be :: "int \<Rightarrow> bytes" where "pack_i32be v = pack_u32be (v mod 2 ^ 32)"

record stored_float =
  sf_parent :: byte
  sf_hidden :: bool
  sf_name :: bytes
  sf_value :: int
  sf_low :: int
  sf_high :: int
  sf_default :: int
  sf_decimal :: byte
  sf_step :: int
  sf_unit :: "bytes option"

definition encode_float :: "stored_float \<Rightarrow> bytes" where
  "encode_float s =
     [sf_parent s, if sf_hidden s then 0x88 else 0x08] @ sf_name s @ [0] @ pack_i32be (sf_value s) @ pack_i32be (sf_low s)
     @ pack_i32be (sf_high s) @ pack_i32be (sf_default s) @ [sf_decimal s] @ pack_i32be (sf_step s)
     @ (case sf_unit s of None \<Rightarrow> [] | Some u \<Rightarrow> u @ [0])"

lemma read_int_here:
  "length bs = w \<Longrightarrow> read_int sign (pre @ bs @ post) (length pre) w = Inr (if sign then be_sint bs else be_int bs, length pre + w)"
  by (simp add: read_int_def Let_def bslice_def)

lemma read_string_here:
  assumes "0 \<notin> set s"
  shows "read_string (pre @ s @ 0 # post) (length pre) = Inr (s, length pre + length s + 1)"
proof -
  have "find_byte 0 (pre @ s @ 0 # post) (length pre) = Some (length pre + length s)"
    unfolding find_byte_def find_Some_iff
    using assms by (intro exI [of _ "length s"]) (auto simp: nth_append in_set_conv_nth)
  then show ?thesis by (simp add: read_string_def bslice_def)
qed

lemma be_sint_pack: "int32 v \<Longrightarrow> be_sint (pack_i32be v) = v"
proof -
  assume v: "int32 v"
  have "be_int (pack_i32be v) = v mod 2 ^ 32" unfolding pack_i32be_def by (rule be_int_pack_u32be) simp_all
  moreover have "length (pack_i32be v) = 4" by (simp add: pack_i32be_def)
  moreover have "v mod 2 ^ 32 = (if 0 \<le> v then v else v + 2 ^ 32)"
    using v mod_pos_pos_trivial [of "v + 2 ^ 32" "2 ^ 32"] by (simp add: int32_def)
  ultimately show ?thesis using v by (auto simp: be_sint_def Let_def int32_def)
qed

definition stored_ok :: "stored_float \<Rightarrow> bool" where
  "stored_ok s \<longleftrightarrow> 0 \<notin> set (sf_name s) \<and> list_all int32 [sf_value s, sf_low s, sf_high s, sf_default s, sf_step s] \<and>
     (case sf_unit s of None \<Rightarrow> True | Some u \<Rightarrow> 0 \<notin> set u)"

definition float_numbers :: "stored_float \<Rightarrow> bytes" where
  "float_numbers s = pack_i32be (sf_value s) @ pack_i32be (sf_low s) @ pack_i32be (sf_high s) @ pack_i32be (sf_default s)
     @ [sf_decimal s] @ pack_i32be (sf_step s)"

lemma pack_i32be_length [simp]: "length (pack_i32be v) = 4"
  by (simp add: pack_i32be_def)

lemma read_packed:
  assumes "int32 v" "p = length pre"
  shows "read_int True (pre @ pack_i32be v @ post) p 4 = Inr (v, p + 4)"
  using read_int_here [of "pack_i32be v" 4 True pre post] assms be_sint_pack by simp

lemma float_cells_encoded:
  assumes "stored_ok s"
  shows "float_cells (pre @ float_numbers s @ post) (length pre) =
    Inr ([(''crsf_configured_value_reported'', CInt (sf_value s)), (''crsf_value_min_reported'', CInt (sf_low s)),
         (''crsf_value_max_reported'', CInt (sf_high s)), (''crsf_value_default_reported'', CInt (sf_default s)),
         (''crsf_value_decimal_point_reported'', byte_cell (sf_decimal s)), (''crsf_value_step_reported'', CInt (sf_step s)),
         (''crsf_value_disposition'', CStr STORED)], length pre + 21)"
proof -
  let ?v = "pack_i32be (sf_value s)" and ?l = "pack_i32be (sf_low s)" and ?h = "pack_i32be (sf_high s)"
    and ?d = "pack_i32be (sf_default s)" and ?t = "pack_i32be (sf_step s)" and ?n = "length pre"
  let ?all = "pre @ float_numbers s @ post"
  have ok: "int32 (sf_value s)" "int32 (sf_low s)" "int32 (sf_high s)" "int32 (sf_default s)" "int32 (sf_step s)"
    using assms by (simp_all add: stored_ok_def)
  have "read_int True ?all ?n 4 = Inr (sf_value s, ?n + 4)"
    using read_packed [OF ok(1) refl, of pre "?l @ ?h @ ?d @ [sf_decimal s] @ ?t @ post"] by (simp add: float_numbers_def)
  moreover have "read_int True ?all (?n + 4) 4 = Inr (sf_low s, ?n + 8)"
    using read_packed [OF ok(2), of "?n + 4" "pre @ ?v" "?h @ ?d @ [sf_decimal s] @ ?t @ post"] by (simp add: float_numbers_def)
  moreover have "read_int True ?all (?n + 8) 4 = Inr (sf_high s, ?n + 12)"
    using read_packed [OF ok(3), of "?n + 8" "pre @ ?v @ ?l" "?d @ [sf_decimal s] @ ?t @ post"] by (simp add: float_numbers_def)
  moreover have "read_int True ?all (?n + 12) 4 = Inr (sf_default s, ?n + 16)"
    using read_packed [OF ok(4), of "?n + 12" "pre @ ?v @ ?l @ ?h" "[sf_decimal s] @ ?t @ post"] by (simp add: float_numbers_def)
  moreover have "read_int False ?all (?n + 16) 1 = Inr (bval (sf_decimal s), ?n + 17)"
    using read_int_here [of "[sf_decimal s]" 1 False "pre @ ?v @ ?l @ ?h @ ?d" "?t @ post"] by (simp add: float_numbers_def be_int_def add.commute)
  moreover have "read_int True ?all (?n + 17) 4 = Inr (sf_step s, ?n + 21)"
    using read_packed [OF ok(5), of "?n + 17" "pre @ ?v @ ?l @ ?h @ ?d @ [sf_decimal s]" post] by (simp add: float_numbers_def)
  ultimately show ?thesis by (simp add: float_cells_def byte_cell_def)
qed

definition float_row :: "stored_float \<Rightarrow> row" where
  "float_row s = [(''crsf_parameter_parent_folder'', byte_cell (sf_parent s)), (''crsf_parameter_type_code'', CInt 8),
     (''crsf_parameter_type_name'', CStr ''FLOAT''), (''crsf_parameter_hidden_reported'', CInt (if sf_hidden s then 1 else 0)),
     (''crsf_parameter_name_hex'', hex_cell (sf_name s)), (''crsf_configured_value_reported'', CInt (sf_value s)),
     (''crsf_value_min_reported'', CInt (sf_low s)), (''crsf_value_max_reported'', CInt (sf_high s)),
     (''crsf_value_default_reported'', CInt (sf_default s)),
     (''crsf_value_decimal_point_reported'', byte_cell (sf_decimal s)), (''crsf_value_step_reported'', CInt (sf_step s)),
     (''crsf_value_disposition'', CStr STORED),
     (''crsf_value_unit_hex'', case sf_unit s of None \<Rightarrow> CStr ''ABSENT'' | Some u \<Rightarrow> hex_cell u),
     (''crsf_payload_remainder_bytes'', CInt 0), (''crsf_payload_remainder_hex'', CStr ''NONE'')]"

text \<open>A stored number is read back from the entry that carries it: parent, hidden flag, name, value, bounds, default,
  decimal point, step and unit, with nothing left over.\<close>

theorem stored_float_read_back:
  assumes "stored_ok s"
  shows "\<exists>r. parameter_entry (encode_float s) row = Inr r \<and>
    list_all (\<lambda>kv. row_get r (fst kv) = snd kv) (float_row s)"
proof -
  let ?k = "if sf_hidden s then 0x88 else 0x08 :: byte"
  let ?u = "case sf_unit s of None \<Rightarrow> [] | Some u \<Rightarrow> u @ [0]"
  let ?n = "3 + length (sf_name s)"
  have enc: "encode_float s = [sf_parent s, ?k] @ sf_name s @ 0 # float_numbers s @ ?u"
    by (simp add: encode_float_def float_numbers_def)
  have "read_string ([sf_parent s, ?k] @ sf_name s @ 0 # float_numbers s @ ?u) (length [sf_parent s, ?k]) =
      Inr (sf_name s, length [sf_parent s, ?k] + length (sf_name s) + 1)"
    by (rule read_string_here) (use assms in \<open>simp add: stored_ok_def\<close>)
  moreover have "length [sf_parent s, ?k] = 2" "2 + length (sf_name s) + 1 = ?n" by simp_all
  ultimately have name: "read_string (encode_float s) 2 = Inr (sf_name s, ?n)" by (simp only: enc)
  have cells: "float_cells (encode_float s) ?n =
    Inr ([(''crsf_configured_value_reported'', CInt (sf_value s)), (''crsf_value_min_reported'', CInt (sf_low s)),
         (''crsf_value_max_reported'', CInt (sf_high s)), (''crsf_value_default_reported'', CInt (sf_default s)),
         (''crsf_value_decimal_point_reported'', byte_cell (sf_decimal s)), (''crsf_value_step_reported'', CInt (sf_step s)),
         (''crsf_value_disposition'', CStr STORED)], ?n + 21)"
  proof -
    let ?pre = "[sf_parent s, ?k] @ sf_name s @ [0]"
    have "length ?pre = ?n" "encode_float s = ?pre @ float_numbers s @ ?u" by (simp_all add: enc)
    with float_cells_encoded [OF assms, of ?pre ?u] show ?thesis by (simp only:)
  qed
  have len: "length (encode_float s) = ?n + 21 + length ?u" by (simp add: enc float_numbers_def)
  let ?uc = "[(''crsf_value_unit_hex'', case sf_unit s of None \<Rightarrow> CStr ''ABSENT'' | Some u \<Rightarrow> hex_cell u)]"
  have units: "unit_cells 8 (encode_float s) (?n + 21) = Inr (?uc, length (encode_float s))"
  proof (cases "sf_unit s")
    case None
    then show ?thesis by (simp add: unit_cells_def len FLOAT_TYPE_def)
  next
    case (Some u)
    let ?pre = "[sf_parent s, ?k] @ sf_name s @ [0] @ float_numbers s"
    have "length ?pre = ?n + 21" by (simp add: float_numbers_def)
    moreover have "read_string (?pre @ u @ 0 # []) (length ?pre) = Inr (u, length ?pre + length u + 1)"
      by (rule read_string_here) (use Some assms in \<open>simp add: stored_ok_def\<close>)
    moreover have "encode_float s = ?pre @ u @ 0 # []" using Some by (simp add: enc)
    ultimately have "read_string (encode_float s) (?n + 21) = Inr (u, length (encode_float s))"
      by (metis Some add.assoc len length_append_singleton option.simps(5) Suc_eq_plus1)
    then show ?thesis using Some by (simp add: unit_cells_def len FLOAT_TYPE_def)
  qed
  have kind: "encode_float s ! 1 = ?k" "encode_float s ! 0 = sf_parent s" "\<not> length (encode_float s) < 2" by (simp_all add: enc)
  have masked: "?k AND NOT HIDDEN_BIT = 8" "(?k AND HIDDEN_BIT \<noteq> 0) = sf_hidden s" by (simp_all add: HIDDEN_BIT_def)
  have types: "map_of DATA_TYPES 8 = Some ''FLOAT''" by (simp add: DATA_TYPES_def)
  have header: "entry_header (encode_float s) = [(''crsf_parameter_parent_folder'', byte_cell (sf_parent s)),
      (''crsf_parameter_type_code'', CInt 8), (''crsf_parameter_type_name'', CStr ''FLOAT''),
      (''crsf_parameter_hidden_reported'', CInt (if sf_hidden s then 1 else 0))]"
    unfolding entry_header_def Let_def kind masked kind_name_def types by (simp add: byte_cell_def bval_def)
  have typed: "typed_cells 8 (encode_float s) ?n = float_cells (encode_float s) ?n" by (simp add: typed_cells_def FLOAT_TYPE_def)
  show ?thesis
    unfolding parameter_entry_def Let_def kind masked types name rbind_simps prod.case typed cells units header
    by (simp add: OUT_OF_RANGE_def FLOAT_TYPE_def kind del: length_append)
       (simp add: float_row_def account_def Let_def row_get_update)
qed

definition sample_stored :: stored_float where
  "sample_stored = \<lparr>sf_parent = 0, sf_hidden = True, sf_name = [0x52, 0x61, 0x74, 0x65], sf_value = - 250, sf_low = - 1000,
     sf_high = 1000, sf_default = 0, sf_decimal = 1, sf_step = 50, sf_unit = Some [0x48, 0x7A]\<rparr>"

theorem stored_float_read_back_witness:
  "\<exists>r. parameter_entry (encode_float sample_stored) [] = Inr r \<and> row_get r ''crsf_configured_value_reported'' = CInt (- 250)"
proof -
  have "stored_ok sample_stored" by (simp add: stored_ok_def sample_stored_def int32_def)
  from stored_float_read_back [OF this, of "[]"] show ?thesis by (auto simp: float_row_def sample_stored_def)
qed

definition sample_unread :: held_run where
  "sample_unread = \<lparr>hr_number = 3, hr_remaining = 0, hr_data = [0, 11, 0x41, 0], hr_chunks = 1, hr_time = 6, hr_first = 0,
     hr_destination = 0xEA, hr_observed = False\<rparr>"

theorem entry_without_evidence_witness:
  "\<exists>r. entry_row False [] 0xEE sample_unread = Inr r \<and> row_get r ''crsf_value_disposition'' = CStr UNQUALIFIED_START"
proof -
  have "start_basis False sample_unread = START_ABSENT" by (simp add: start_basis_def sample_unread_def)
  then obtain r where r: "entry_row False [] 0xEE sample_unread = Inr r" by (simp add: entry_row_def Let_def)
  from entry_without_evidence [OF r] r show ?thesis by (auto simp: identity_row_def sample_unread_def)
qed

end
