(* ===== verification/Params_History.thy ===== *)
theory Params_History
  imports Crsf_Params
begin

text \<open>
  The conversion of \<^verbatim>\<open>scripts/convert_crsf_parameters.py\<close> against the history of its frames: the rows, the
  open runs and the counts of a converted capture, stated without the dictionaries the loop keeps.
\<close>

section \<open>What a capture shows\<close>

text \<open>
  The history read without a state: a run of an origin is its entry frames since the last one that left
  no chunk; a pair of addresses is authorised by its last chunk-zero read, unless a later-chunk read or
  the start of a run between the two came after it; an identity is the last one the origin reported.
\<close>

type_synonym saved_frame = "nat \<times> int \<times> bytes"

definition frame_of :: "saved_frame \<Rightarrow> bytes" where "frame_of x = snd (snd x)"
definition chunk_of :: "saved_frame \<Rightarrow> bytes" where
  "chunk_of x = bslice (frame_of x) 7 (length (frame_of x) - 1)"

definition is_entry :: "byte \<Rightarrow> saved_frame \<Rightarrow> bool" where
  "is_entry o1 x \<longleftrightarrow> frame_of x ! 2 = PARAMETER_ENTRY \<and> frame_of x ! 4 = o1"

definition asks :: "byte \<Rightarrow> byte \<Rightarrow> saved_frame \<Rightarrow> bool" where
  "asks d h x \<longleftrightarrow> frame_of x ! 2 = PARAMETER_READ \<and> 8 \<le> length (frame_of x) \<and> frame_of x ! 3 = d \<and> frame_of x ! 4 = h"

definition run_of :: "byte \<Rightarrow> saved_frame list \<Rightarrow> saved_frame list" where
  "run_of o1 fs = rev (takeWhile (\<lambda>x. frame_of x ! 6 \<noteq> 0) (rev (filter (is_entry o1) fs)))"

fun evidence :: "byte \<Rightarrow> byte \<Rightarrow> saved_frame list \<Rightarrow> byte option" where
  "evidence d h [] = None"
| "evidence d h (x # older) =
     (if asks d h x then (if frame_of x ! 6 = 0 then Some (frame_of x ! 5) else None)
      else if is_entry d x \<and> frame_of x ! 3 = h \<and> run_of d (rev older) = [] then None
      else evidence d h older)"

fun reported :: "byte \<Rightarrow> saved_frame list \<Rightarrow> row" where
  "reported o1 [] = []"
| "reported o1 (x # older) =
     (if frame_of x ! 2 = DEVICE_INFORMATION \<and> frame_of x ! 4 = o1
      then result_or [] (device_information (bslice (frame_of x) 5 (length (frame_of x) - 1)))
      else reported o1 older)"

definition authorised :: "byte \<Rightarrow> saved_frame list \<Rightarrow> saved_frame \<Rightarrow> bool" where
  "authorised o1 fs x \<longleftrightarrow>
     evidence o1 (frame_of x ! 3) (rev (takeWhile (\<lambda>y. fst y \<noteq> fst x) fs)) = Some (frame_of x ! 5)"

definition held_of :: "byte \<Rightarrow> saved_frame list \<Rightarrow> saved_frame list \<Rightarrow> held_run" where
  "held_of o1 fs run =
     (let x = hd run in
      \<lparr>hr_number = frame_of x ! 5, hr_remaining = frame_of (last run) ! 6, hr_data = concat (map chunk_of run),
       hr_chunks = length run, hr_time = fst (snd x), hr_first = frame_of x ! 6, hr_destination = frame_of x ! 3,
       hr_observed = authorised o1 fs x\<rparr>)"

definition closing :: "bool \<Rightarrow> saved_frame list \<Rightarrow> saved_frame \<Rightarrow> row list" where
  "closing declared fs x =
     (if frame_of x ! 2 = PARAMETER_ENTRY \<and> frame_of x ! 6 = 0
      then let o1 = frame_of x ! 4 in
        [result_or [] (entry_row declared (reported o1 (rev fs)) o1 (held_of o1 (fs @ [x]) (run_of o1 fs @ [x])))]
      else [])"

definition entry_rows :: "bool \<Rightarrow> saved_frame list \<Rightarrow> row list" where
  "entry_rows declared fs = concat (map (\<lambda>i. closing declared (take i fs) (fs ! i)) [0..<length fs])"

lemma entry_rows_snoc: "entry_rows declared (fs @ [x]) = entry_rows declared fs @ closing declared fs x"
  by (auto simp: entry_rows_def nth_append intro!: arg_cong [of _ _ concat])

lemma run_of_snoc:
  "run_of o1 (fs @ [x]) = (if is_entry o1 x then if frame_of x ! 6 = 0 then [] else run_of o1 fs @ [x] else run_of o1 fs)"
  by (simp add: run_of_def)

lemma run_of_subset: "set (run_of o1 fs) \<subseteq> set fs"
  unfolding run_of_def by (auto dest: set_takeWhileD)

lemma run_of_entries: "x \<in> set (run_of o1 fs) \<Longrightarrow> is_entry o1 x"
  unfolding run_of_def by (auto dest: set_takeWhileD)

lemma authorised_snoc: "y \<in> set fs \<Longrightarrow> authorised o1 (fs @ [x]) y = authorised o1 fs y"
  by (simp add: authorised_def takeWhile_append1)

lemma held_of_snoc: "run \<noteq> [] \<Longrightarrow> set run \<subseteq> set fs \<Longrightarrow> held_of o1 (fs @ [x]) run = held_of o1 fs run"
  by (cases run) (auto simp: held_of_def Let_def authorised_snoc)

lemma held_of_extend:
  "run \<noteq> [] \<Longrightarrow> held_of o1 fs (run @ [x]) = (held_of o1 fs run)\<lparr>hr_remaining := frame_of x ! 6,
     hr_data := hr_data (held_of o1 fs run) @ chunk_of x, hr_chunks := hr_chunks (held_of o1 fs run) + 1\<rparr>"
  by (cases run) (simp_all add: held_of_def Let_def)

lemma authorised_new:
  "fst x \<notin> fst ` set fs \<Longrightarrow> authorised o1 (fs @ [x]) x \<longleftrightarrow> evidence o1 (frame_of x ! 3) (rev fs) = Some (frame_of x ! 5)"
proof -
  assume new: "fst x \<notin> fst ` set fs"
  then have "\<forall>y \<in> set fs. fst y \<noteq> fst x" by (metis imageI)
  then have "takeWhile (\<lambda>y. fst y \<noteq> fst x) (fs @ [x]) = fs" by (simp add: takeWhile_append2)
  then show ?thesis by (simp add: authorised_def)
qed

section \<open>The state follows the history\<close>

definition runs_held :: "saved_frame list \<Rightarrow> param_state \<Rightarrow> bool" where
  "runs_held fs st \<longleftrightarrow> (\<forall>o1. map_of (ps_pending st) o1 =
     (if run_of o1 fs = [] then None else Some (held_of o1 fs (run_of o1 fs))))"

definition reads_kept :: "saved_frame list \<Rightarrow> param_state \<Rightarrow> bool" where
  "reads_kept fs st \<longleftrightarrow> (\<forall>d h. map_of (ps_reads st) (d, h) = evidence d h (rev fs))"

definition identities_kept :: "saved_frame list \<Rightarrow> param_state \<Rightarrow> bool" where
  "identities_kept fs st \<longleftrightarrow> (\<forall>o1. identity_of (ps_identities st) o1 = reported o1 (rev fs))"

definition of_kind :: "byte \<Rightarrow> saved_frame list \<Rightarrow> saved_frame list" where
  "of_kind k fs = filter (\<lambda>x. frame_of x ! 2 = k) fs"

definition param_inv :: "bool \<Rightarrow> saved_frame list \<Rightarrow> param_state \<Rightarrow> bool" where
  "param_inv declared fs st \<longleftrightarrow>
     runs_held fs st \<and> reads_kept fs st \<and> identities_kept fs st \<and> ps_out st = entry_rows declared fs \<and>
     ps_entries st + ps_unqualified st = length (ps_out st) \<and>
     length fs = ps_devices st + length (ps_requested st) + length (ps_unsupported st) + length (of_kind PARAMETER_ENTRY fs)"

lemmas param_kinds = PARAMETER_READ_def PARAMETER_WRITE_def PARAMETER_ENTRY_def DEVICE_INFORMATION_def

lemma runs_held_other:
  assumes "runs_held fs st" "ps_pending st' = ps_pending st" "frame_of x ! 2 \<noteq> PARAMETER_ENTRY"
  shows "runs_held (fs @ [x]) st'"
proof -
  have "run_of o1 (fs @ [x]) = run_of o1 fs" for o1 using assms(3) by (simp add: run_of_snoc is_entry_def)
  with assms(1,2) show ?thesis by (simp add: runs_held_def held_of_snoc run_of_subset)
qed

lemma reads_kept_other:
  assumes "reads_kept fs st" "ps_reads st' = ps_reads st" "frame_of x ! 2 \<noteq> PARAMETER_ENTRY"
    and "frame_of x ! 2 \<noteq> PARAMETER_READ \<or> length (frame_of x) < 8"
  shows "reads_kept (fs @ [x]) st'"
  using assms by (auto simp: reads_kept_def is_entry_def asks_def)

lemma identities_kept_other:
  assumes "identities_kept fs st" "ps_identities st' = ps_identities st" "frame_of x ! 2 \<noteq> DEVICE_INFORMATION"
  shows "identities_kept (fs @ [x]) st'"
  using assms by (simp add: identities_kept_def)

lemma note_read_keeps:
  assumes "reads_kept fs st" "frame_of x ! 2 = PARAMETER_READ" "8 \<le> length (frame_of x)"
  shows "reads_kept (fs @ [x]) (note_read (frame_of x) st)"
  using assms unfolding reads_kept_def
  by (auto simp: note_read_def Let_def asks_def update_conv' delete_conv' is_entry_def param_kinds split: if_splits)

lemma note_read_frame:
  "ps_pending (note_read f st) = ps_pending st \<and> ps_identities (note_read f st) = ps_identities st \<and>
   ps_out (note_read f st) = ps_out st \<and> ps_entries (note_read f st) = ps_entries st \<and>
   ps_unqualified (note_read f st) = ps_unqualified st \<and> ps_devices (note_read f st) = ps_devices st \<and>
   ps_requested (note_read f st) = ps_requested st \<and> ps_unsupported (note_read f st) = ps_unsupported st"
  by (simp add: note_read_def Let_def)

lemma param_request_keeps:
  assumes "param_inv declared fs st" "frame_of x ! 2 = PARAMETER_READ \<or> frame_of x ! 2 = PARAMETER_WRITE"
    and "st' = param_request (fst x) (frame_of x) st"
  shows "param_inv declared (fs @ [x]) st'"
proof -
  have kind: "frame_of x ! 2 \<noteq> PARAMETER_ENTRY" "frame_of x ! 2 \<noteq> DEVICE_INFORMATION"
    using assms(2) by (auto simp: param_kinds)
  have same: "ps_pending st' = ps_pending st" "ps_identities st' = ps_identities st" "ps_out st' = ps_out st"
      "ps_entries st' = ps_entries st" "ps_unqualified st' = ps_unqualified st" "ps_devices st' = ps_devices st"
      "length (ps_requested st') = length (ps_requested st) + 1" "ps_unsupported st' = ps_unsupported st"
    using assms(3) by (simp_all add: param_request_def Let_def note_read_frame)
  have "reads_kept (fs @ [x]) st'"
  proof (cases "frame_of x ! 2 = PARAMETER_READ \<and> 8 \<le> length (frame_of x)")
    case True
    let ?st1 = "st\<lparr>ps_requested := ps_requested st @ [(fst x, PARAMETER_READ, if PARAMETER_READ = PARAMETER_WRITE then REQUESTED_WRITE else REQUESTED_READ)]\<rparr>"
    from True assms(3) have "st' = note_read (frame_of x) ?st1" by (simp add: param_request_def Let_def)
    moreover have "reads_kept fs ?st1" using assms(1) by (simp add: param_inv_def reads_kept_def)
    ultimately show ?thesis using note_read_keeps [of fs ?st1 x] True by simp
  next
    case False
    then have "ps_reads st' = ps_reads st" using assms(3) by (auto simp: param_request_def Let_def)
    with False assms(1) kind reads_kept_other [of fs st st' x] show ?thesis by (auto simp: param_inv_def)
  qed
  with assms(1) kind same show ?thesis
    using runs_held_other [of fs st st' x] identities_kept_other [of fs st st' x]
    by (auto simp: param_inv_def entry_rows_snoc closing_def of_kind_def)
qed

lemma param_device_keeps:
  assumes "param_inv declared fs st" "frame_of x ! 2 = DEVICE_INFORMATION" and "param_device (frame_of x) st = Inr st'"
  shows "param_inv declared (fs @ [x]) st'"
proof -
  have kind: "frame_of x ! 2 \<noteq> PARAMETER_ENTRY" "frame_of x ! 2 \<noteq> PARAMETER_READ" using assms(2) by (auto simp: param_kinds)
  from assms(3) obtain identity where d: "device_information (bslice (frame_of x) 5 (length (frame_of x) - 1)) = Inr identity"
    and st': "st' = st\<lparr>ps_identities := AList.update (frame_of x ! 4) identity (ps_identities st), ps_devices := ps_devices st + 1\<rparr>"
    by (auto simp: param_device_def result_simps)
  have "identities_kept (fs @ [x]) st'"
    using assms(1,2) d by (auto simp: st' param_inv_def identities_kept_def identity_of_def update_conv' result_or_def)
  with assms(1) kind show ?thesis
    using runs_held_other [of fs st st' x] reads_kept_other [of fs st st' x]
    by (auto simp: param_inv_def st' entry_rows_snoc closing_def of_kind_def)
qed

lemma hold_run_spec:
  assumes "runs_held fs st" "reads_kept fs st" and x: "is_entry o1 x" "fst x \<notin> fst ` set fs"
    and "hold_run (fst (snd x)) o1 (frame_of x ! 3) (frame_of x ! 5) (frame_of x ! 6) st = Inr (held, reads)"
  shows "held\<lparr>hr_data := hr_data held @ chunk_of x, hr_chunks := hr_chunks held + 1\<rparr>
      = held_of o1 (fs @ [x]) (run_of o1 fs @ [x]) \<and> (\<forall>d h. map_of reads (d, h) = evidence d h (rev (fs @ [x])))"
proof (cases "run_of o1 fs = []")
  case True
  have "map_of (ps_pending st) o1 = None" using assms(1) True by (simp add: runs_held_def)
  with assms(5) have held: "held = \<lparr>hr_number = frame_of x ! 5, hr_remaining = frame_of x ! 6, hr_data = [], hr_chunks = 0,
      hr_time = fst (snd x), hr_first = frame_of x ! 6, hr_destination = frame_of x ! 3,
      hr_observed = (map_of (ps_reads st) (o1, frame_of x ! 3) = Some (frame_of x ! 5))\<rparr>"
    and reads: "reads = AList.delete (o1, frame_of x ! 3) (ps_reads st)"
    by (simp_all add: hold_run_def)
  have "\<not> asks d h x" for d h using x(1) by (simp add: is_entry_def asks_def param_kinds)
  then have "map_of reads (d, h) = evidence d h (rev (fs @ [x]))" for d h
    using assms(2) x(1) True by (auto simp: reads reads_kept_def delete_conv' is_entry_def)
  then show ?thesis
    using assms(2) True authorised_new [OF x(2), of o1] by (simp add: held held_of_def reads_kept_def)
next
  case False
  let ?h = "held_of o1 fs (run_of o1 fs)"
  have "map_of (ps_pending st) o1 = Some ?h" using assms(1) False by (simp add: runs_held_def)
  with assms(5) have held: "held = ?h\<lparr>hr_remaining := frame_of x ! 6\<rparr>" "reads = ps_reads st"
    by (auto simp: hold_run_def split: if_splits)
  have "\<not> asks d h x" for d h using x(1) by (simp add: is_entry_def asks_def param_kinds)
  moreover have "is_entry d x \<Longrightarrow> d = o1" for d using x(1) by (simp add: is_entry_def)
  ultimately have "map_of reads (d, h) = evidence d h (rev (fs @ [x]))" for d h
    using assms(2) False by (auto simp: held reads_kept_def)
  then show ?thesis
    using False by (simp add: held held_of_extend held_of_snoc [OF False run_of_subset])
qed


lemma complete_entry_Inr:
  assumes "complete_entry declared o1 held st = Inr st'"
  shows "\<exists>row. entry_row declared (identity_of (ps_identities st) o1) o1 held = Inr row \<and> row_keys row \<subseteq> set PARAM_FIELDS \<and>
    ps_pending st' = AList.delete o1 (ps_pending st) \<and> ps_reads st' = ps_reads st \<and> ps_identities st' = ps_identities st \<and>
    ps_out st' = ps_out st @ [row] \<and> ps_entries st' + ps_unqualified st' = ps_entries st + ps_unqualified st + 1 \<and>
    ps_devices st' = ps_devices st \<and> ps_requested st' = ps_requested st \<and> ps_unsupported st' = ps_unsupported st \<and>
    ps_source st' = ps_source st \<and> ps_previous st' = ps_previous st"
  using assms unfolding complete_entry_def Let_def
  by (elim rbind_InrE if_failE) (auto simp: write_row_Inr)

lemma param_chunk_Inr:
  assumes "param_chunk declared time frame st = Inr st'" "6 \<le> length frame"
  shows "\<exists>held reads. 8 \<le> length frame \<and>
    hold_run time (frame ! 4) (frame ! 3) (frame ! 5) (frame ! 6) st = Inr (held, reads) \<and>
    (let held1 = held\<lparr>hr_data := hr_data held @ bslice frame 7 (length frame - 1), hr_chunks := hr_chunks held + 1\<rparr>;
         st1 = st\<lparr>ps_reads := reads, ps_pending := AList.update (frame ! 4) held1 (ps_pending st)\<rparr> in
     if frame ! 6 \<noteq> 0 then st' = st1 else complete_entry declared (frame ! 4) held1 st1 = Inr st')"
proof -
  let ?p = "bslice frame 5 (length frame - 1)"
  have "\<not> length ?p < 2" using assms(1) by (auto simp: param_chunk_def Let_def)
  then have len: "8 \<le> length frame" using assms(2) by (simp add: bslice_def)
  then have p: "?p ! 0 = frame ! 5" "?p ! 1 = frame ! 6" "drop 2 ?p = bslice frame 7 (length frame - 1)"
    by (simp_all add: nth_bslice bslice_def drop_take)
  from assms(1) len show ?thesis
    unfolding param_chunk_def Let_def p
    by (elim rbind_InrE if_failE) (auto split: if_splits prod.splits)
qed

lemma param_chunk_keeps:
  assumes "param_inv declared fs st" and x: "frame_of x ! 2 = PARAMETER_ENTRY" "fst x \<notin> fst ` set fs" "6 \<le> length (frame_of x)"
    and "param_chunk declared (fst (snd x)) (frame_of x) st = Inr st'"
  shows "param_inv declared (fs @ [x]) st'"
proof -
  let ?o = "frame_of x ! 4" and ?run = "run_of (frame_of x ! 4) fs @ [x]"
  let ?held = "held_of ?o (fs @ [x]) ?run"
  from param_chunk_Inr [OF assms(5) x(3)] obtain held reads where
      hold: "hold_run (fst (snd x)) ?o (frame_of x ! 3) (frame_of x ! 5) (frame_of x ! 6) st = Inr (held, reads)"
    and next_st: "let held1 = held\<lparr>hr_data := hr_data held @ chunk_of x, hr_chunks := hr_chunks held + 1\<rparr>;
         st1 = st\<lparr>ps_reads := reads, ps_pending := AList.update ?o held1 (ps_pending st)\<rparr> in
     if frame_of x ! 6 \<noteq> 0 then st' = st1 else complete_entry declared ?o held1 st1 = Inr st'"
    by (auto simp: chunk_of_def)
  have e: "is_entry ?o x" using x(1) by (simp add: is_entry_def)
  have other: "is_entry o1 x \<longleftrightarrow> o1 = ?o" for o1 using x(1) by (auto simp: is_entry_def)
  have inv: "runs_held fs st" "reads_kept fs st" "identities_kept fs st" using assms(1) by (simp_all add: param_inv_def)
  note spec = hold_run_spec [OF inv(1,2) e x(2) hold]
  then have held1: "held\<lparr>hr_data := hr_data held @ chunk_of x, hr_chunks := hr_chunks held + 1\<rparr> = ?held" by blast
  let ?st1 = "st\<lparr>ps_reads := reads, ps_pending := AList.update ?o ?held (ps_pending st)\<rparr>"
  have kind: "frame_of x ! 2 \<noteq> DEVICE_INFORMATION" using x(1) by (simp add: param_kinds)
  have kept: "held_of o1 (fs @ [x]) (run_of o1 fs) = held_of o1 fs (run_of o1 fs)" if "run_of o1 fs \<noteq> []" for o1
    using that by (simp add: held_of_snoc run_of_subset)
  have reads_next: "reads_kept (fs @ [x]) st2" if "ps_reads st2 = reads" for st2
    using spec that by (simp add: reads_kept_def)
  have ids_next: "identities_kept (fs @ [x]) st2" if "ps_identities st2 = ps_identities st" for st2
    using identities_kept_other [OF inv(3) that kind] .
  show ?thesis
  proof (cases "frame_of x ! 6 = 0")
    case False
    with next_st held1 have st': "st' = ?st1" by (simp add: Let_def)
    have "runs_held (fs @ [x]) st'"
      using inv(1) False e other kept by (auto simp: runs_held_def st' run_of_snoc update_conv')
    then show ?thesis
      using assms(1) x(1) False reads_next [of st'] ids_next [of st']
      by (simp add: param_inv_def st' entry_rows_snoc closing_def of_kind_def)
  next
    case True
    with next_st held1 have "complete_entry declared ?o ?held ?st1 = Inr st'" by (simp add: Let_def)
    from complete_entry_Inr [OF this] obtain row where row: "entry_row declared (identity_of (ps_identities st) ?o) ?o ?held = Inr row"
      and st': "ps_pending st' = AList.delete ?o (AList.update ?o ?held (ps_pending st))" "ps_reads st' = reads"
        "ps_identities st' = ps_identities st" "ps_out st' = ps_out st @ [row]"
        "ps_entries st' + ps_unqualified st' = ps_entries st + ps_unqualified st + 1" "ps_devices st' = ps_devices st"
        "ps_requested st' = ps_requested st" "ps_unsupported st' = ps_unsupported st"
      by auto
    have "runs_held (fs @ [x]) st'"
      using inv(1) True other kept by (auto simp: runs_held_def st' run_of_snoc delete_conv' update_conv')
    moreover have "closing declared fs x = [row]"
      using x(1) True row inv(3) by (simp add: closing_def identities_kept_def result_or_def)
    ultimately show ?thesis
      using assms(1) x(1) reads_next [of st'] ids_next [of st'] st'
      by (simp add: param_inv_def entry_rows_snoc of_kind_def)
  qed
qed

lemma param_frame_keeps:
  assumes "param_inv declared fs st" "fst x \<notin> fst ` set fs" and "param_frame declared st x = Inr st'"
  shows "param_inv declared (fs @ [x]) st'"
proof -
  let ?st1 = "st\<lparr>ps_source := ps_source st + 1\<rparr>" and ?k = "frame_of x ! 2"
  have inv: "param_inv declared fs ?st1"
    using assms(1) by (simp add: param_inv_def runs_held_def reads_kept_def identities_kept_def)
  have step: "param_frame declared st (fst x, fst (snd x), frame_of x) = Inr st'" using assms(3) by (simp add: frame_of_def)
  consider "?k = PARAMETER_READ \<or> ?k = PARAMETER_WRITE" | "?k = DEVICE_INFORMATION" | "?k = PARAMETER_ENTRY"
    | "?k \<notin> {PARAMETER_READ, PARAMETER_WRITE, DEVICE_INFORMATION, PARAMETER_ENTRY}" by auto
  then show ?thesis
  proof cases
    case 1
    then have "st' = param_request (fst x) (frame_of x) ?st1"
      using step by (auto simp: param_frame_def Let_def)
    from param_request_keeps [OF inv 1 this] show ?thesis .
  next
    case 2
    then have "param_device (frame_of x) ?st1 = Inr st'"
      using step by (simp add: param_frame_def Let_def param_kinds split: if_splits)
    from param_device_keeps [OF inv 2 this] show ?thesis .
  next
    case 3
    then have "6 \<le> length (frame_of x)" "param_chunk declared (fst (snd x)) (frame_of x) ?st1 = Inr st'"
      using step by (simp_all add: param_frame_def Let_def param_kinds split: if_splits)
    from param_chunk_keeps [OF inv 3 assms(2) this] show ?thesis .
  next
    case 4
    then have st': "st' = ?st1\<lparr>ps_unsupported := ps_unsupported st @ [(fst x, ?k)]\<rparr>"
      using step by (auto simp: param_frame_def Let_def)
    from 4 inv show ?thesis
      using runs_held_other [of fs ?st1 st' x] reads_kept_other [of fs ?st1 st' x] identities_kept_other [of fs ?st1 st' x]
      by (auto simp: param_inv_def st' entry_rows_snoc closing_def of_kind_def)
  qed
qed


section \<open>A converted capture\<close>

definition item_frame :: "string list \<Rightarrow> nat \<times> string list \<Rightarrow> saved_frame" where
  "item_frame names item = (fst item, record_time names (snd item), record_frame names (snd item))"

lemma param_bytes_Inr:
  "param_bytes s = Inr f \<Longrightarrow> f = from_hex s \<and> bval (f ! 1) = int (length f) - 2 \<and> crc8 (bslice f 2 (length f - 1)) = last f"
  by (simp add: param_bytes_def Let_def split: if_splits)

lemma param_frame_source:
  assumes "param_frame declared st x = Inr st'"
  shows "ps_source st' = ps_source st + 1 \<and> ps_previous st' = ps_previous st"
proof -
  obtain line time frame where x: "x = (line, time, frame)" by (cases x)
  have "ps_source st' = ps_source st1 \<and> ps_previous st' = ps_previous st1"
    if "param_chunk declared time frame st1 = Inr st'" "6 \<le> length frame" for st1
    using param_chunk_Inr [OF that] by (auto simp: Let_def dest!: complete_entry_Inr split: if_splits)
  moreover have "ps_source (param_request line frame st1) = ps_source st1 \<and> ps_previous (param_request line frame st1) = ps_previous st1" for st1
    by (simp add: param_request_def note_read_def Let_def)
  ultimately show ?thesis
    using assms by (auto simp: x param_frame_def param_device_def Let_def result_simps split: if_splits)
qed

lemma param_record_Inr:
  assumes "param_record names declared st item = Inr st'"
  shows "param_frame declared (st\<lparr>ps_previous := Some (record_time names (snd item))\<rparr>) (item_frame names item) = Inr st' \<and>
    ps_source st' = ps_source st + 1"
proof -
  from assms obtain time frame where t: "capture_time (ps_previous st) (text_get (text_row names (snd item)) ''time_us'') = Inr time"
    and f: "param_bytes (text_get (text_row names (snd item)) ''frame_hex'') = Inr frame"
    and s: "param_frame declared (st\<lparr>ps_previous := Some time\<rparr>) (fst item, time, frame) = Inr st'"
    by (auto simp: param_record_def Let_def result_simps)
  have "time = record_time names (snd item)" "frame = record_frame names (snd item)"
    using capture_time_Inr [OF t] param_bytes_Inr [OF f] by (simp_all add: record_time_def record_frame_def)
  with s param_frame_source [OF s] show ?thesis by (simp add: item_frame_def)
qed

lemma run_param_records:
  assumes "run_items (param_record names declared) param_init items = Inr st" and "distinct (map fst items)"
  shows "param_inv declared (map (item_frame names) items) st \<and> ps_source st = length items"
proof (rule run_items_prefix [OF assms(1), of "\<lambda>ys st. param_inv declared (map (item_frame names) ys) st \<and> ps_source st = length ys"])
  show "param_inv declared (map (item_frame names) []) param_init \<and> ps_source param_init = length []"
    by (simp add: param_inv_def param_init_def runs_held_def run_of_def reads_kept_def identities_kept_def identity_of_def
        entry_rows_def of_kind_def)
next
  fix s ys x zs s'
  assume split: "items = ys @ x # zs" and I: "param_inv declared (map (item_frame names) ys) s \<and> ps_source s = length ys"
    and step: "param_record names declared s x = Inr s'"
  let ?s = "s\<lparr>ps_previous := Some (record_time names (snd x))\<rparr>"
  have "param_inv declared (map (item_frame names) ys) ?s"
    using I by (simp add: param_inv_def runs_held_def reads_kept_def identities_kept_def)
  moreover have "fst (item_frame names x) \<notin> fst ` set (map (item_frame names) ys)"
    using assms(2) by (auto simp: split item_frame_def rev_image_eqI)
  ultimately show "param_inv declared (map (item_frame names) (ys @ [x])) s' \<and> ps_source s' = length (ys @ [x])"
    using param_frame_keeps [of declared _ ?s "item_frame names x" s'] param_record_Inr [OF step] I by simp
qed

text \<open>C29. The rows of a converted capture are those its history shows: one per entry frame that leaves no chunk, with the
  joined chunks of that origin's run, the identity the origin reported last, and a start that counts as observed
  exactly when the last event between the two addresses before the run is a chunk-zero read for that parameter.
  The runs still held are those the history leaves open, and every record is counted once.\<close>

theorem params_follow_history:
  assumes "convert_params csv declared = Inr st"
  shows "\<exists>names records. dict_fieldnames (csv_reader True csv) = Inr (Some names) \<and>
    dict_records (csv_reader True csv) = (records, None) \<and>
    (let fs = map (item_frame names) (zip [2..<2 + length records] records) in
     ps_out st = entry_rows declared fs \<and> runs_held fs st \<and> ps_source st = length fs \<and>
     ps_entries st + ps_unqualified st = length (ps_out st) \<and>
     length fs = ps_devices st + length (ps_requested st) + length (ps_unsupported st) + length (of_kind PARAMETER_ENTRY fs))"
proof -
  obtain records e where r: "dict_records (csv_reader True csv) = (records, e)" by fastforce
  from assms obtain fieldnames names where f: "dict_fieldnames (csv_reader True csv) = Inr fieldnames"
    and n: "capture_names fieldnames = Inr names"
    and run: "run_gen (param_record names declared) param_init (param_items (csv_reader True csv)) = Inr st"
    unfolding convert_params_def by (elim if_failE rbind_InrE)
  from n have names: "fieldnames = Some names" by (auto simp: capture_names_def split: option.splits if_splits)
  from run have e: "e = None" and items: "run_items (param_record names declared) param_init (zip [2..<2 + length records] records) = Inr st"
    by (auto simp: param_items_def r run_gen_Inr_iff Let_def)
  have "distinct (map fst (zip [2..<2 + length records] records))" by (simp add: map_fst_zip)
  from run_param_records [OF items this] have "param_inv declared (map (item_frame names) (zip [2..<2 + length records] records)) st"
      "ps_source st = length (zip [2..<2 + length records] records)" by blast+
  then show ?thesis
    using f names r e unfolding param_inv_def Let_def by (intro exI [of _ names] exI [of _ records]) simp
qed

definition params_sample_rows :: "string list list" where
  "params_sample_rows = [[''time_us'', ''frame_hex''], [''5'', ''c8062ceeea030090''], [''6'', ''ea0a2beaee0300000b410084'']]"

definition params_sample :: string where
  "params_sample = concat (map csv_line params_sample_rows)"

lemma params_sample_read: "csv_reader True params_sample = (params_sample_rows, None)"
  unfolding params_sample_def
  by (rule csv_reader_plain) (simp add: params_sample_rows_def plain_row_eval)

definition sample_read :: bytes where "sample_read = [0xC8, 6, 0x2C, 0xEE, 0xEA, 3, 0, 0x90]"
definition sample_entry :: bytes where "sample_entry = [0xEA, 10, 0x2B, 0xEA, 0xEE, 3, 0, 0, 11, 0x41, 0, 0x84]"

lemma sample_frames: "param_bytes ''c8062ceeea030090'' = Inr sample_read"
  "param_bytes ''ea0a2beaee0300000b410084'' = Inr sample_entry"
proof -
  have "from_hex ''c8062ceeea030090'' = sample_read" "hex_text 4 64 ''c8062ceeea030090''"
      "from_hex ''ea0a2beaee0300000b410084'' = sample_entry" "hex_text 4 64 ''ea0a2beaee0300000b410084''"
    by (simp_all add: hex_value_def is_digit_def hex_text_def sample_read_def sample_entry_def)
  moreover have "crc8 (bslice sample_read 2 (length sample_read - 1)) = last sample_read"
      "crc8 (bslice sample_entry 2 (length sample_entry - 1)) = last sample_entry"
    by (simp_all add: sample_read_def sample_entry_def bslice_def crc8_eval)
  ultimately show "param_bytes ''c8062ceeea030090'' = Inr sample_read"
    "param_bytes ''ea0a2beaee0300000b410084'' = Inr sample_entry"
    by (simp_all add: param_bytes_def bval_def Let_def) (simp_all add: sample_read_def sample_entry_def)
qed

definition sample_held :: held_run where
  "sample_held = \<lparr>hr_number = 3, hr_remaining = 0, hr_data = [0, 11, 0x41, 0], hr_chunks = 1, hr_time = 6, hr_first = 0,
     hr_destination = 0xEA, hr_observed = True\<rparr>"

lemma sample_base_fits: "fits PARAM_FIELDS 300 (entry_base False [] 0xEE sample_held)"
proof -
  have start: "start_basis False sample_held = START_OBSERVED" by (simp add: start_basis_def sample_held_def)
  have "length (role 0xEE) \<le> 300" by (simp add: role_def DEVICE_ROLES_def)
  moreover have "length (int_text 6) \<le> 300" "length (int_text 238) \<le> 300" "length (int_text 234) \<le> 300" "length (int_text 3) \<le> 300"
      "length (int_text 1) \<le> 300"
    by (simp_all add: int_text_def nat_digits.simps)
  moreover have "length START_OBSERVED \<le> 300" "length SINGLE_FRAME \<le> 300" "length CONFIGURATION_BASIS \<le> 300" "length IDENTITY_ABSENT \<le> 300"
    by (simp_all add: START_OBSERVED_def SINGLE_FRAME_def CONFIGURATION_BASIS_def IDENTITY_ABSENT_def)
  ultimately show ?thesis
    unfolding entry_base_def start fits_update
    by (simp only: fits_empty_cells simp_thms)
      (simp only: fits_eval PARAM_FIELDS_def, simp add: sample_held_def byte_cell_def bval_def)
qed

lemma sample_entry_row: "\<exists>row. entry_row False [] 0xEE sample_held = Inr row \<and> fits PARAM_FIELDS 300 row"
proof -
  let ?base = "entry_base False [] 0xEE sample_held" and ?p = "[0, 11, 0x41, 0] :: bytes"
  have start: "start_basis False sample_held = START_OBSERVED" by (simp add: start_basis_def sample_held_def)
  have differ: "START_OBSERVED \<noteq> START_ABSENT" by (simp add: START_OBSERVED_def START_ABSENT_def)
  have parsed: "parameter_entry ?p ?base =
      Inr (account ?p 4 (row_update (row_update (row_update (row_update ?base (entry_header ?p))
        [(''crsf_parameter_name_hex'', hex_cell [0x41])]) [(''crsf_value_disposition'', CStr NOT_A_SETTING)]) []))"
    by (simp add: parameter_entry_def HIDDEN_BIT_def DATA_TYPES_def OUT_OF_RANGE_def FLOAT_TYPE_def read_string_def
      find_byte_rec bslice_def typed_cells_def SELECTION_TYPE_def STRING_TYPE_def INFO_TYPE_def unit_cells_def Let_def)
  have data: "hr_data sample_held = ?p" by (simp add: sample_held_def)
  have kind: "kind_name 11 = ''FOLDER''" by (simp add: kind_name_def DATA_TYPES_def)
  have header: "entry_header ?p = [(''crsf_parameter_parent_folder'', CInt 0), (''crsf_parameter_type_code'', CInt 11),
      (''crsf_parameter_type_name'', CStr ''FOLDER''), (''crsf_parameter_hidden_reported'', CInt 0)]"
    by (simp add: entry_header_def byte_cell_def HIDDEN_BIT_def bval_def kind)
  have "length (int_text 0) \<le> 300" "length (int_text 11) \<le> 300" "length (int_text 4) \<le> 300" "length NOT_A_SETTING \<le> 300"
    by (simp_all add: int_text_def nat_digits.simps NOT_A_SETTING_def)
  then have cells: "fits PARAM_FIELDS 300 (account ?p 4 (row_update (row_update (row_update (row_update ?base (entry_header ?p))
        [(''crsf_parameter_name_hex'', hex_cell [0x41])]) [(''crsf_value_disposition'', CStr NOT_A_SETTING)]) []))"
    unfolding account_def Let_def fits_update header hex_cell_def
    by (simp only: sample_base_fits simp_thms) (simp only: fits_eval PARAM_FIELDS_def, simp)
  have "entry_row False [] 0xEE sample_held = parameter_entry ?p ?base"
    unfolding entry_row_def Let_def start data using differ by simp
  then show ?thesis using parsed cells by simp
qed

lemma params_sample_converts: "\<exists>st. convert_params params_sample False = Inr st \<and> ps_entries st = 1"
proof -
  let ?n = "[''time_us'', ''frame_hex'']"
  obtain row where row: "entry_row False [] 0xEE sample_held = Inr row" "fits PARAM_FIELDS 300 row"
    using sample_entry_row by blast
  have cols: "length PARAM_FIELDS = 35" "sum_list (map (\<lambda>k. 2 * length k + 3) PARAM_FIELDS) \<le> 10000"
    by (simp_all add: PARAM_FIELDS_def)
  from fits_written [OF row(2), of "[]"] have w: "write_row PARAM_FIELDS row [] = Inr [row]" by simp
  from fits_written [OF row(2), of "[]"] cols have size: "length (csv_text PARAM_FIELDS [row]) \<le> PARAM_OUTPUT_LIMIT"
    by (simp add: PARAM_OUTPUT_LIMIT_def)
  let ?st1 = "param_init\<lparr>ps_previous := Some 5, ps_source := 1, ps_requested := [(2, PARAMETER_READ, REQUESTED_READ)],
    ps_reads := [((0xEE, 0xEA), 3)], ps_observed := 1\<rparr>"
  have one: "param_record ?n False param_init (2, [''5'', ''c8062ceeea030090'']) = Inr ?st1"
    by (simp add: param_record_def text_row_def text_get_def capture_time_def digits_text_def is_digit_def decimal_value_def
      sample_frames param_frame_def param_request_def note_read_def param_init_def Let_def)
     (simp add: sample_read_def param_kinds)
  have start: "start_basis False sample_held \<noteq> START_ABSENT"
    by (simp add: start_basis_def sample_held_def START_OBSERVED_def START_ABSENT_def)
  have chunk: "bslice sample_entry 5 11 = [3, 0, 0, 11, 0x41, 0]" by (simp add: sample_entry_def bslice_def)
  have bytes: "sample_entry ! 2 = PARAMETER_ENTRY" "sample_entry ! 3 = 0xEA" "sample_entry ! 4 = 0xEE" "length sample_entry = 12"
    by (simp_all add: sample_entry_def param_kinds)
  have "\<exists>st. param_record ?n False ?st1 (3, [''6'', ''ea0a2beaee0300000b410084'']) = Inr st \<and> ps_entries st = 1"
    using row start w size
    by (simp add: param_record_def text_row_def text_get_def capture_time_def digits_text_def is_digit_def decimal_value_def
      sample_frames param_frame_def param_chunk_def chunk bytes param_kinds hold_run_def param_init_def Let_def
      MAX_CHUNKS_def MAX_ENTRY_BYTES_def complete_entry_def identity_of_def sample_held_def)
  then obtain st where two: "param_record ?n False ?st1 (3, [''6'', ''ea0a2beaee0300000b410084'']) = Inr st" "ps_entries st = 1" by blast
  have len: "length params_sample \<le> PARAM_LIMIT"
    by (simp add: params_sample_def params_sample_rows_def csv_eval PARAM_LIMIT_def)
  have names: "dict_fieldnames (params_sample_rows, None) = Inr (Some ?n)" "capture_names (Some ?n) = Inr ?n"
    by (simp_all add: dict_fieldnames_def params_sample_rows_def capture_names_def order_le_less_trans [OF str_len_le])
  have items: "param_items (params_sample_rows, None) =
      ([(2, [''5'', ''c8062ceeea030090'']), (3, [''6'', ''ea0a2beaee0300000b410084''])], None)"
    by (simp add: param_items_def dict_records_def params_sample_rows_def upt_rec)
  have "convert_params params_sample False = Inr st"
    unfolding convert_params_def params_sample_read names rbind_simps items run_gen_def fst_conv snd_conv
    using len by (simp add: names one two del: One_nat_def)
  with two(2) show ?thesis by blast
qed

theorem params_follow_history_witness:
  "\<exists>st. convert_params params_sample False = Inr st \<and> ps_entries st = 1 \<and> ps_entries st + ps_unqualified st = length (ps_out st)"
proof -
  obtain st where st: "convert_params params_sample False = Inr st" "ps_entries st = 1" using params_sample_converts by blast
  from params_follow_history [OF st(1)] st show ?thesis unfolding Let_def by blast
qed

end
