(* ===== verification/Smart_Audio.thy ===== *)
theory Smart_Audio
  imports Crsf_Link
begin

unbundle bit_operations_syntax

text \<open>
  Saved SmartAudio responses, \<^verbatim>\<open>scripts/convert_smartaudio_recorded.py\<close>: the frame checks, the
  settings of a V2.1 response and the rows and counts of \<^verbatim>\<open>convert\<close>.
\<close>

section \<open>Responses\<close>

definition SMART_BASIS :: string where "SMART_BASIS = ''bf452-024f8e13-smartaudio21''"
definition SMART_LIMIT :: nat where "SMART_LIMIT = 16 * 1024 * 1024"

definition SMART_FIELDS :: "string list" where
  "SMART_FIELDS = [''record_time_us'', ''source_record_hex'', ''source_capture_sha256'', ''source_record_index'',
     ''source_frame_hex'', ''vtx_response_code'', ''vtx_disposition'', ''vtx_frequency_field_hz'',
     ''vtx_current_power_reported_dbm'', ''vtx_channel_raw'', ''vtx_legacy_power_raw'',
     ''vtx_mode_raw'', ''vtx_mode_unknown_bits'', ''vtx_frequency_mode'', ''vtx_pit_mode_reported'',
     ''vtx_in_range_pit_flag'', ''vtx_out_range_pit_flag'', ''vtx_unlocked_flag'',
     ''vtx_deferred_frequency_flag'', ''vtx_supported_power_bytes_hex'', ''vtx_value_basis'']"

definition MODE_FLAGS :: "(string \<times> byte) list" where
  "MODE_FLAGS = [(''vtx_pit_mode_reported'', 2), (''vtx_in_range_pit_flag'', 4), (''vtx_out_range_pit_flag'', 8),
     (''vtx_unlocked_flag'', 16), (''vtx_deferred_frequency_flag'', 32)]"

definition smart_names :: "string list option \<Rightarrow> string list result" where
  "smart_names fieldnames =
     (case fieldnames of
        None \<Rightarrow> fail ''expected unique time_us,frame_hex and optional retained columns''
      | Some names \<Rightarrow>
          if names = [] \<or> take 2 names \<noteq> [''time_us'', ''frame_hex''] \<or> \<not> distinct names \<or> length names > 64 \<or>
             (\<exists>name \<in> set names. name = [] \<or> str_len name > 128)
          then fail ''expected unique time_us,frame_hex and optional retained columns''
          else Inr names)"

definition recorder_time :: "int option \<Rightarrow> string \<Rightarrow> int result" where
  "recorder_time previous s =
     (if \<not> digits_text 1 19 s then fail ''invalid recorder microseconds''
      else let time = decimal_value s in
        if time \<ge> 2 ^ 63 \<or> (case previous of None \<Rightarrow> False | Some p \<Rightarrow> time < p)
        then fail ''recorder timestamp overflow/decrease'' else Inr time)"

definition smart_frame :: "string \<Rightarrow> bytes result" where
  "smart_frame s =
     (if \<not> hex_text 5 24 s then fail ''complete bounded response hex required''
      else let frame = from_hex s in
        if take 2 frame \<noteq> [0xAA, 0x55] \<or> length frame \<noteq> 5 + unat (frame ! 3) \<or> unat (frame ! 3) > 19
        then fail ''invalid response preamble/length''
        else if crc8 (bslice frame 2 (length frame - 1)) \<noteq> last frame then fail ''response CRC mismatch''
        else Inr frame)"

definition flag_cells :: "byte \<Rightarrow> row" where
  "flag_cells mode = map (\<lambda>(name, b). (name, CStr (if mode AND b \<noteq> 0 then ''TRUE'' else ''FALSE''))) MODE_FLAGS"

definition settings_cells :: "bytes \<Rightarrow> row result" where
  "settings_cells payload =
     (if length payload < 8 \<or> length payload \<noteq> 8 + unat (payload ! 6)
      then fail ''incomplete selected V2.1 supported-power layout''
      else let mode = payload ! 2 in
        Inr ([(''vtx_disposition'', CStr ''REPORTED_SETTINGS_NOT_PHYSICAL_MEASUREMENT''),
          (''vtx_frequency_field_hz'', CInt (be_int (bslice payload 3 5) * 1000000)),
          (''vtx_current_power_reported_dbm'', CInt (bval (payload ! 5))), (''vtx_channel_raw'', CInt (bval (payload ! 0))),
          (''vtx_legacy_power_raw'', CInt (bval (payload ! 1))), (''vtx_mode_raw'', CInt (bval mode)),
          (''vtx_mode_unknown_bits'', CInt (bval (mode AND 0xC0))),
          (''vtx_frequency_mode'', CStr (if mode AND 1 \<noteq> 0 then ''REPORTED_FREQUENCY_FIELD'' else ''CHANNEL_TABLE_NOT_RESOLVED'')),
          (''vtx_supported_power_bytes_hex'', CStr (''hex:'' @ hex_of (drop 7 payload))),
          (''vtx_value_basis'', CStr ''CALLER_SELECTED_BF452_RESPONSE_FIELD_NOT_ACTUAL_RF_NO_AUTHENTICATED_ID'')]
          @ flag_cells mode))"

section \<open>The conversion\<close>

record smart_state =
  sa_source :: nat
  sa_decoded :: nat
  sa_unsupported :: nat
  sa_previous :: "int option"
  sa_out :: "row list"

definition smart_init :: smart_state where
  "smart_init = \<lparr>sa_source = 0, sa_decoded = 0, sa_unsupported = 0, sa_previous = None, sa_out = []\<rparr>"

definition smart_base :: "string \<Rightarrow> nat \<Rightarrow> int \<Rightarrow> text_row \<Rightarrow> bytes \<Rightarrow> row" where
  "smart_base sha index time record frame =
     row_update (map (\<lambda>k. (k, CStr '''')) SMART_FIELDS)
       [(''record_time_us'', CInt time), (''source_record_hex'', CStr (''hex:'' @ hex_of (utf8 (dumps_texts '', '' '': '' record)))),
        (''source_capture_sha256'', CStr sha), (''source_record_index'', CInt (int index)),
        (''source_frame_hex'', CStr (''hex:'' @ hex_of frame)), (''vtx_response_code'', CInt (bval (frame ! 2)))]"

definition smart_response :: "bytes \<Rightarrow> (bool \<times> row) result" where
  "smart_response frame =
     (if frame ! 2 \<noteq> 0x11 then Inr (False, [(''vtx_disposition'', CStr ''UNSUPPORTED_RESPONSE'')])
      else rbind (settings_cells (bslice frame 4 (length frame - 1))) (\<lambda>cells. Inr (True, cells)))"

definition smart_record :: "string list \<Rightarrow> string \<Rightarrow> smart_state \<Rightarrow> nat \<times> string list \<Rightarrow> smart_state result" where
  "smart_record names sha st item =
     (let record = text_row names (snd item) in
      if length (snd item) \<noteq> length names then fail ''capture row width mismatch''
      else rbind (recorder_time (sa_previous st) (text_get record ''time_us'')) (\<lambda>time.
        rbind (smart_frame (text_get record ''frame_hex'')) (\<lambda>frame.
        rbind (smart_response frame) (\<lambda>(decoded, cells).
        rbind (write_row SMART_FIELDS (row_update (smart_base sha (fst item) time record frame) cells) (sa_out st)) (\<lambda>out.
          if length (csv_text SMART_FIELDS out) > 128 * 1024 * 1024 then fail ''converted output exceeds 128 MiB''
          else Inr (st\<lparr>sa_previous := Some time, sa_source := sa_source st + 1,
            sa_decoded := sa_decoded st + (if decoded then 1 else 0),
            sa_unsupported := sa_unsupported st + (if decoded then 0 else 1), sa_out := out\<rparr>))))))"

definition smart_items :: "string list gen \<Rightarrow> (nat \<times> string list) gen" where
  "smart_items g = (enumerate 0 (fst (dict_records g)), snd (dict_records g))"

definition convert_smart :: "string \<Rightarrow> string \<Rightarrow> smart_state result" where
  "convert_smart csv source_basis =
     (if source_basis \<noteq> SMART_BASIS then fail ''fixed caller-selected SmartAudio consumer basis required''
      else if length csv > SMART_LIMIT then fail ''capture exceeds 16 MiB; split at complete record boundaries''
      else rbind (dict_fieldnames (csv_reader True csv)) (\<lambda>fieldnames.
        rbind (smart_names fieldnames) (\<lambda>names.
        rbind (run_gen (smart_record names (sha256_ref (utf8 csv))) smart_init (smart_items (csv_reader True csv))) (\<lambda>st.
          if sa_source st = 0 then fail ''empty saved capture'' else Inr st))))"

definition smart_report :: "string \<Rightarrow> string \<Rightarrow> smart_state \<Rightarrow> json" where
  "smart_report csv source_basis st =
     JObj [(''source_records'', JInt (int (sa_source st))), (''decoded_records'', JInt (int (sa_decoded st))),
       (''unsupported_records'', JInt (int (sa_unsupported st))), (''clock'', JStr ''Unknown''),
       (''source_capture_sha256'', JStr (sha256_ref (utf8 csv))), (''source_basis'', JStr source_basis)]"

section \<open>Settings of a transmitter\<close>

text \<open>A V2.1 settings response as a transmitter sends it.\<close>

record vtx_settings =
  vs_channel :: byte
  vs_legacy_power :: byte
  vs_mode :: byte
  vs_frequency :: int
  vs_power :: byte
  vs_levels :: bytes

definition settings_payload :: "vtx_settings \<Rightarrow> bytes" where
  "settings_payload s = [vs_channel s, vs_legacy_power s, vs_mode s] @ pack_u16be (vs_frequency s)
     @ [vs_power s, word_of_nat (length (vs_levels s) - 1)] @ vs_levels s"

definition settings_frame :: "vtx_settings \<Rightarrow> bytes" where
  "settings_frame s = (let body = [0x11, word_of_nat (length (settings_payload s))] @ settings_payload s in
     [0xAA, 0x55] @ body @ [crc8 body])"

definition settings_ok :: "vtx_settings \<Rightarrow> bool" where
  "settings_ok s \<longleftrightarrow> 0 \<le> vs_frequency s \<and> vs_frequency s < 65536 \<and> vs_levels s \<noteq> [] \<and> length (vs_levels s) \<le> 12"

definition flag_text :: "bool \<Rightarrow> cell" where
  "flag_text b = CStr (if b then ''TRUE'' else ''FALSE'')"

lemma mode_bits:
  "(m :: byte) AND 1 \<noteq> 0 \<longleftrightarrow> bit m 0" "m AND 2 \<noteq> 0 \<longleftrightarrow> bit m 1" "m AND 4 \<noteq> 0 \<longleftrightarrow> bit m 2" "m AND 8 \<noteq> 0 \<longleftrightarrow> bit m 3"
  "m AND 16 \<noteq> 0 \<longleftrightarrow> bit m 4" "m AND 32 \<noteq> 0 \<longleftrightarrow> bit m 5"
  using and_exp_eq_0_iff_not_bit [of m 0] and_exp_eq_0_iff_not_bit [of m 1] and_exp_eq_0_iff_not_bit [of m 2]
    and_exp_eq_0_iff_not_bit [of m 3] and_exp_eq_0_iff_not_bit [of m 4] and_exp_eq_0_iff_not_bit [of m 5]
  by simp_all

lemma unknown_bits: "bval ((m :: byte) AND 0xC0) = (if bit m 6 then 64 else 0) + (if bit m 7 then 128 else 0)"
proof -
  have "m AND 0xC0 = (if bit m 6 then 0x40 else 0) OR (if bit m 7 then 0x80 else 0)"
  proof (rule bit_word_eqI)
    fix n assume "n < LENGTH(8)"
    then have "n = 0 \<or> n = 1 \<or> n = 2 \<or> n = 3 \<or> n = 4 \<or> n = 5 \<or> n = 6 \<or> n = 7" by (simp; linarith)
    then show "bit (m AND 0xC0) n = bit ((if bit m 6 then 0x40 else 0) OR (if bit m 7 then 0x80 else 0 :: byte)) n"
      by (elim disjE) (simp_all add: bit_and_iff bit_or_iff)
  qed
  then show ?thesis by (simp add: bval_def)
qed

lemma settings_payload_bytes:
  assumes "settings_ok s"
  shows "length (settings_payload s) = 7 + length (vs_levels s)" and "settings_payload s ! 0 = vs_channel s"
    and "settings_payload s ! 1 = vs_legacy_power s" and "settings_payload s ! 2 = vs_mode s"
    and "be_int (bslice (settings_payload s) 3 5) = vs_frequency s" and "settings_payload s ! 5 = vs_power s"
    and "unat (settings_payload s ! 6) = length (vs_levels s) - 1" and "drop 7 (settings_payload s) = vs_levels s"
proof -
  have "(length (vs_levels s) - Suc 0) mod 256 = length (vs_levels s) - Suc 0"
    using assms by (intro mod_less) (auto simp: settings_ok_def)
  then show "length (settings_payload s) = 7 + length (vs_levels s)" "settings_payload s ! 0 = vs_channel s"
      "settings_payload s ! 1 = vs_legacy_power s" "settings_payload s ! 2 = vs_mode s"
      "be_int (bslice (settings_payload s) 3 5) = vs_frequency s" "settings_payload s ! 5 = vs_power s"
      "unat (settings_payload s ! 6) = length (vs_levels s) - 1" "drop 7 (settings_payload s) = vs_levels s"
    using assms be_int_pack_u16be [of "vs_frequency s"]
    by (simp_all add: settings_payload_def settings_ok_def pack_u16be_def bslice_def unat_of_nat)
qed

definition settings_values :: "vtx_settings \<Rightarrow> row" where
  "settings_values s =
     [(''vtx_disposition'', CStr ''REPORTED_SETTINGS_NOT_PHYSICAL_MEASUREMENT''),
      (''vtx_frequency_field_hz'', CInt (vs_frequency s * 1000000)), (''vtx_current_power_reported_dbm'', CInt (bval (vs_power s))),
      (''vtx_channel_raw'', CInt (bval (vs_channel s))), (''vtx_legacy_power_raw'', CInt (bval (vs_legacy_power s))),
      (''vtx_mode_raw'', CInt (bval (vs_mode s))),
      (''vtx_mode_unknown_bits'', CInt ((if bit (vs_mode s) 6 then 64 else 0) + (if bit (vs_mode s) 7 then 128 else 0))),
      (''vtx_frequency_mode'', CStr (if bit (vs_mode s) 0 then ''REPORTED_FREQUENCY_FIELD'' else ''CHANNEL_TABLE_NOT_RESOLVED'')),
      (''vtx_supported_power_bytes_hex'', CStr (''hex:'' @ hex_of (vs_levels s))),
      (''vtx_value_basis'', CStr ''CALLER_SELECTED_BF452_RESPONSE_FIELD_NOT_ACTUAL_RF_NO_AUTHENTICATED_ID'')]
     @ [(''vtx_pit_mode_reported'', flag_text (bit (vs_mode s) 1)), (''vtx_in_range_pit_flag'', flag_text (bit (vs_mode s) 2)),
      (''vtx_out_range_pit_flag'', flag_text (bit (vs_mode s) 3)), (''vtx_unlocked_flag'', flag_text (bit (vs_mode s) 4)),
      (''vtx_deferred_frequency_flag'', flag_text (bit (vs_mode s) 5))]"

lemma flag_cells_bits: "flag_cells m =
  [(''vtx_pit_mode_reported'', flag_text (bit m 1)), (''vtx_in_range_pit_flag'', flag_text (bit m 2)),
   (''vtx_out_range_pit_flag'', flag_text (bit m 3)), (''vtx_unlocked_flag'', flag_text (bit m 4)),
   (''vtx_deferred_frequency_flag'', flag_text (bit m 5))]"
  unfolding flag_cells_def MODE_FLAGS_def list.map prod.case mode_bits flag_text_def ..

text \<open>C31. A settings response is read back: the frame a transmitter sends for its settings passes the checks, and its row
  has the frequency, the power, the raw fields, one TRUE or FALSE per mode bit, the unknown bits and the power levels
  of these settings.\<close>

theorem smart_settings_read_back:
  assumes "settings_ok s"
  shows "smart_frame (hex_of (settings_frame s)) = Inr (settings_frame s) \<and>
    smart_response (settings_frame s) = Inr (True, settings_values s)"
proof -
  let ?p = "settings_payload s" and ?f = "settings_frame s"
  note p = settings_payload_bytes [OF assms]
  have n: "length ?p \<le> 19" "8 \<le> length ?p" using assms p(1) by (auto simp: settings_ok_def) (cases "vs_levels s"; simp)
  have f: "take 2 ?f = [0xAA, 0x55]" "length ?f = 5 + length ?p" "?f ! 2 = 0x11" "unat (?f ! 3) = length ?p"
      "bslice ?f 4 (length ?f - 1) = ?p" "crc8 (bslice ?f 2 (length ?f - 1)) = last ?f"
    using n by (simp_all add: settings_frame_def Let_def bslice_def unat_of_nat)
  have "smart_frame (hex_of ?f) = Inr ?f"
    using n f by (simp add: smart_frame_def hex_text_hex_of from_hex_hex_of)
  moreover have "\<not> (length ?p < 8 \<or> length ?p \<noteq> 8 + unat (?p ! 6))" using n p by auto
  then have cells: "settings_cells ?p = Inr (settings_values s)"
    unfolding settings_cells_def Let_def p mode_bits unknown_bits flag_cells_bits settings_values_def by (simp only: if_False)
  moreover from cells f have "smart_response ?f = Inr (True, settings_values s)" by (simp add: smart_response_def)
  ultimately show ?thesis by blast
qed


definition sample_settings :: vtx_settings where
  "sample_settings = \<lparr>vs_channel = 0, vs_legacy_power = 14, vs_mode = 0x1B, vs_frequency = 5658, vs_power = 14,
     vs_levels = [0, 14, 20, 26]\<rparr>"

theorem smart_settings_read_back_witness:
  "smart_frame (hex_of (settings_frame sample_settings)) = Inr (settings_frame sample_settings) \<and>
    smart_response (settings_frame sample_settings) = Inr (True, settings_values sample_settings) \<and>
    map_of (settings_values sample_settings) ''vtx_frequency_field_hz'' = Some (CInt 5658000000)"
proof -
  have "settings_ok sample_settings" by (simp add: settings_ok_def sample_settings_def)
  from smart_settings_read_back [OF this] show ?thesis by (simp add: settings_values_def) (simp add: sample_settings_def)
qed

end
