(* ===== verification/Line_Window.thy ===== *)
theory Line_Window
  imports Crsf_Native
begin

text \<open>
  The bounded selector of physical lines of a saved file, \<^verbatim>\<open>read_jsonl_window\<close> of
  \<^verbatim>\<open>scripts/convert_vda_load_report.py\<close>, and the frame-table window
  \<^verbatim>\<open>convert_csv_window\<close> of \<^verbatim>\<open>scripts/convert_crsf_link.py\<close> on top of it.
\<close>

section \<open>Code points\<close>

text \<open>\<^verbatim>\<open>bytes.decode("utf-8")\<close> in the strict mode.\<close>

definition continues :: "byte \<Rightarrow> bool" where
  "continues b \<longleftrightarrow> 0x80 \<le> b \<and> b \<le> 0xBF"

definition low6 :: "byte \<Rightarrow> nat" where
  "low6 b = unat b - 0x80"

fun decode_utf8 :: "bytes \<Rightarrow> nat list option" where
  "decode_utf8 [] = Some []"
| "decode_utf8 (a # s) =
     (if a < 0x80 then map_option ((#) (unat a)) (decode_utf8 s)
      else if 0xC2 \<le> a \<and> a \<le> 0xDF then
        (case s of
           b # r \<Rightarrow> if continues b
             then map_option ((#) (64 * (unat a - 0xC0) + low6 b)) (decode_utf8 r) else None
         | _ \<Rightarrow> None)
      else if 0xE0 \<le> a \<and> a \<le> 0xEF then
        (case s of
           b # c # r \<Rightarrow> if continues b \<and> continues c \<and> (a = 0xE0 \<longrightarrow> 0xA0 \<le> b) \<and> (a = 0xED \<longrightarrow> b \<le> 0x9F)
             then map_option ((#) (4096 * (unat a - 0xE0) + 64 * low6 b + low6 c)) (decode_utf8 r) else None
         | _ \<Rightarrow> None)
      else if 0xF0 \<le> a \<and> a \<le> 0xF4 then
        (case s of
           b # c # d # r \<Rightarrow> if continues b \<and> continues c \<and> continues d \<and> (a = 0xF0 \<longrightarrow> 0x90 \<le> b) \<and> (a = 0xF4 \<longrightarrow> b \<le> 0x8F)
             then map_option ((#) (262144 * (unat a - 0xF0) + 4096 * low6 b + 64 * low6 c + low6 d)) (decode_utf8 r) else None
         | _ \<Rightarrow> None)
      else None)"

definition is_space :: "nat \<Rightarrow> bool" where
  "is_space n \<longleftrightarrow> 9 \<le> n \<and> n \<le> 13 \<or> 28 \<le> n \<and> n \<le> 32 \<or> 0x2000 \<le> n \<and> n \<le> 0x200A \<or>
     n \<in> {0x85, 0xA0, 0x1680, 0x2028, 0x2029, 0x202F, 0x205F, 0x3000}"

definition line_break :: "nat \<Rightarrow> bool" where
  "line_break n \<longleftrightarrow> n \<in> {0x0D, 0x0A, 0x0B, 0x0C, 0x1C, 0x1D, 0x1E, 0x85, 0x2028, 0x2029}"

section \<open>Physical lines\<close>

definition MAX_INPUT_BYTES :: nat where "MAX_INPUT_BYTES = 2 * 1024 ^ 3"
definition MAX_RECORDS :: nat where "MAX_RECORDS = 5000000"
definition MAX_RECORD_BYTES :: nat where "MAX_RECORD_BYTES = 512 * 1024"
definition MAX_SELECTED_BYTES :: nat where "MAX_SELECTED_BYTES = 16 * 1024 * 1024"

text \<open>\<^verbatim>\<open>stream.readline(limit)\<close>\<close>

definition read_line :: "nat \<Rightarrow> bytes \<Rightarrow> bytes" where
  "read_line limit data = take limit (takeWhile (\<lambda>b. b \<noteq> 0x0A) data @ take 1 (dropWhile (\<lambda>b. b \<noteq> 0x0A) data))"

lemma take_glued: "xs @ take k ys = take (length (xs @ take k ys)) (xs @ ys)"
  by (cases "k \<le> length ys") simp_all

lemma prefix_length: "xs = take m data \<Longrightarrow> xs = take (length xs) data"
  by (simp add: min_def)

lemma read_line_prefix: "read_line limit data = take (length (read_line limit data)) data"
proof -
  obtain k where "takeWhile (\<lambda>b. b \<noteq> 0x0A) data @ take 1 (dropWhile (\<lambda>b. b \<noteq> 0x0A) data) = take k data"
    using take_glued [of "takeWhile (\<lambda>b. b \<noteq> 0x0A) data" 1 "dropWhile (\<lambda>b. b \<noteq> 0x0A) data"] by (simp only: takeWhile_dropWhile_id)
  then have "read_line limit data = take (min limit k) data" unfolding read_line_def by (simp only: take_take)
  then show ?thesis by (rule prefix_length)
qed

lemma read_line_nonempty: "0 < limit \<Longrightarrow> data \<noteq> [] \<Longrightarrow> read_line limit data \<noteq> []"
  by (cases data) (auto simp: read_line_def)

function read_lines :: "nat \<Rightarrow> bytes \<Rightarrow> bytes list" where
  "read_lines limit data =
     (if limit = 0 \<or> data = [] then []
      else read_line limit data # read_lines limit (drop (length (read_line limit data)) data))"
  by pat_completeness auto
termination
  by (relation "measure (\<lambda>(limit, data). length data)") (auto simp: read_line_nonempty)

declare read_lines.simps [simp del]

definition strip_line :: "bytes \<Rightarrow> bytes" where
  "strip_line raw =
     (if raw \<noteq> [] \<and> last raw = 0x0A
      then let body = butlast raw in if body \<noteq> [] \<and> last body = 0x0D then butlast body else body
      else raw)"

section \<open>The selector\<close>

text \<open>What the file system says of the file: its kind and place, its size, the bytes read, and the signatures.\<close>

record line_file =
  lf_regular :: bool
  lf_size :: nat
  lf_opened_same :: bool
  lf_bytes :: bytes
  lf_unchanged :: bool

record line_window =
  lw_selected :: "string list"
  lw_offsets :: "nat list"
  lw_count :: nat
  lw_total :: nat
  lw_bytes :: nat

definition line_init :: line_window where
  "line_init = \<lparr>lw_selected = [], lw_offsets = [], lw_count = 0, lw_total = 0, lw_bytes = 0\<rparr>"

definition expected_snapshot :: "int option \<Rightarrow> string option \<Rightarrow> (int \<times> string) option result" where
  "expected_snapshot expected_size expected_sha256 =
     (if expected_size = None \<and> expected_sha256 = None then Inr None
      else case (expected_size, expected_sha256) of
        (Some n, Some s) \<Rightarrow>
          if 0 \<le> n \<and> n \<le> int MAX_INPUT_BYTES \<and> length s = 64 \<and> list_all (\<lambda>c. c \<in> set ''0123456789abcdef'') s
          then Inr (Some (n, s)) else fail ''expected size and lowercase SHA256 must be a valid pair''
      | _ \<Rightarrow> fail ''expected size and lowercase SHA256 must be a valid pair'')"

definition line_framed :: "bool \<Rightarrow> nat list \<Rightarrow> bool" where
  "line_framed allow_blank line \<longleftrightarrow>
     \<not> (list_all is_space line \<and> \<not> allow_blank) \<and> 0 \<notin> set line \<and> \<not> list_ex line_break line"

definition retained_line :: "bytes \<Rightarrow> string" where
  "retained_line raw = chars_of (strip_line raw) @ [CHR 0x0A]"

definition window_line :: "nat \<Rightarrow> nat \<Rightarrow> bool \<Rightarrow> line_window \<Rightarrow> bytes \<Rightarrow> line_window result" where
  "window_line start_record stop_record allow_blank w raw =
     (let native = strip_line raw; offset = lw_total w; new_total = offset + length raw in
      if length native > MAX_RECORD_BYTES then fail ''native individual record byte bound exceeded''
      else if new_total > MAX_INPUT_BYTES \<or> lw_count w \<ge> MAX_RECORDS
      then fail ''native input byte or record count bound exceeded''
      else case decode_utf8 native of
          None \<Rightarrow> fail ''UnicodeDecodeError''
        | Some line \<Rightarrow>
            if \<not> line_framed allow_blank line then fail ''unsupported native JSONL record framing''
            else if start_record \<le> lw_count w \<and> lw_count w < stop_record
            then if lw_bytes w + length native + 1 > MAX_SELECTED_BYTES
              then fail ''native selected source byte bound exceeded''
              else Inr (w\<lparr>lw_selected := lw_selected w @ [retained_line raw], lw_offsets := lw_offsets w @ [offset],
                lw_count := lw_count w + 1, lw_total := new_total, lw_bytes := lw_bytes w + length native + 1\<rparr>)
            else Inr (w\<lparr>lw_count := lw_count w + 1, lw_total := new_total\<rparr>))"

definition read_jsonl_window ::
  "line_file \<Rightarrow> int \<Rightarrow> int \<Rightarrow> int option \<Rightarrow> string option \<Rightarrow> bool \<Rightarrow> line_window result" where
  "read_jsonl_window file start_record stop_record expected_size expected_sha256 allow_blank =
     (if \<not> (0 \<le> start_record \<and> start_record < stop_record \<and> stop_record \<le> int MAX_RECORDS)
      then fail ''invalid native record interval''
      else rbind (expected_snapshot expected_size expected_sha256) (\<lambda>expectation.
        if \<not> lf_regular file then fail ''saved regular input required''
        else if lf_size file > MAX_INPUT_BYTES then fail ''native input byte bound exceeded''
        else if \<not> lf_opened_same file then fail ''source changed before read''
        else rbind (run_items (window_line (nat start_record) (nat stop_record) allow_blank) line_init
            (read_lines (MAX_RECORD_BYTES + 3) (lf_bytes file))) (\<lambda>w.
          if \<not> lf_unchanged file \<or> lw_total w \<noteq> lf_size file then fail ''source changed during read''
          else if (case expectation of None \<Rightarrow> False
              | Some (n, sha) \<Rightarrow> int (lw_total w) \<noteq> n \<or> sha256_hex (lf_bytes file) \<noteq> sha)
          then fail ''read snapshot differs from expected size or SHA256''
          else if stop_record > int (lw_count w) then fail ''native record interval exceeds source records''
          else Inr w)))"

section \<open>Where the selected lines stand\<close>

definition line_offset :: "bytes list \<Rightarrow> nat \<Rightarrow> nat" where
  "line_offset ls i = length (concat (take i ls))"

lemma read_lines_concat: "0 < limit \<Longrightarrow> concat (read_lines limit data) = data"
proof (induction limit data rule: read_lines.induct)
  case (1 limit data)
  show ?case
  proof (cases "data = []")
    case True
    then show ?thesis by (simp add: read_lines.simps)
  next
    case False
    let ?l = "read_line limit data"
    have "concat (read_lines limit data) = ?l @ drop (length ?l) data"
      using "1.IH" "1.prems" False by (subst read_lines.simps) simp
    then show ?thesis using read_line_prefix [of limit data] by (metis append_take_drop_id)
  qed
qed

lemma line_at: "i < length ls \<Longrightarrow> bslice (concat ls) (line_offset ls i) (line_offset ls i + length (ls ! i)) = ls ! i"
proof -
  assume i: "i < length ls"
  then have "concat ls = concat (take i ls) @ ls ! i @ concat (drop (Suc i) ls)"
    by (metis concat.simps(2) concat_append id_take_nth_drop)
  then show ?thesis by (simp add: bslice_def line_offset_def)
qed

definition selected_between :: "nat \<Rightarrow> nat \<Rightarrow> bytes list \<Rightarrow> line_window \<Rightarrow> bool" where
  "selected_between a b ls w \<longleftrightarrow>
     lw_count w = length ls \<and> lw_total w = length (concat ls) \<and>
     lw_selected w = map retained_line (drop a (take b ls)) \<and>
     lw_offsets w = map (line_offset ls) [a..<min b (length ls)] \<and>
     lw_bytes w = sum_list (map length (lw_selected w))"

lemma line_offset_snoc: "i \<le> length ls \<Longrightarrow> line_offset (ls @ [l]) i = line_offset ls i"
  by (simp add: line_offset_def)

lemma window_line_Inr:
  assumes "window_line a b blank w raw = Inr w'"
  shows "lw_count w' = lw_count w + 1 \<and> lw_total w' = lw_total w + length raw \<and>
    (if a \<le> lw_count w \<and> lw_count w < b
     then lw_selected w' = lw_selected w @ [retained_line raw] \<and> lw_offsets w' = lw_offsets w @ [lw_total w] \<and>
       lw_bytes w' = lw_bytes w + length (retained_line raw)
     else lw_selected w' = lw_selected w \<and> lw_offsets w' = lw_offsets w \<and> lw_bytes w' = lw_bytes w)"
  using assms by (auto simp: window_line_def Let_def retained_line_def chars_of_def split: if_splits option.splits)

lemma window_line_keeps:
  assumes "selected_between a b ls w" "window_line a b blank w raw = Inr w'"
  shows "selected_between a b (ls @ [raw]) w'"
proof -
  note s = window_line_Inr [OF assms(2)]
  have w: "lw_count w = length ls" "lw_total w = length (concat ls)" using assms(1) by (simp_all add: selected_between_def)
  have offs: "map (line_offset (ls @ [raw])) [a..<min b (length ls)] = map (line_offset ls) [a..<min b (length ls)]"
    by (simp add: line_offset_snoc)
  show ?thesis
  proof (cases "a \<le> length ls \<and> length ls < b")
    case True
    then have "[a..<min b (Suc (length ls))] = [a..<min b (length ls)] @ [length ls]" by (auto simp: min_def le_Suc_eq)
    moreover have "line_offset (ls @ [raw]) (length ls) = length (concat ls)" by (simp add: line_offset_def)
    moreover have "take (b - length ls) [raw] = [raw]" using True by (cases "b - length ls") auto
    ultimately show ?thesis
      using assms(1) s w offs True by (simp add: selected_between_def)
  next
    case False
    then have "[a..<min b (Suc (length ls))] = [a..<min b (length ls)]" and "drop a (take b (ls @ [raw])) = drop a (take b ls)"
      by (auto simp: min_def not_le not_less)
    then show ?thesis using assms(1) s w offs False by (auto simp: selected_between_def)
  qed
qed


lemma run_window_lines:
  assumes "run_items (window_line a b blank) line_init ls = Inr w"
  shows "selected_between a b ls w"
proof (rule run_items_prefix [OF assms, of "selected_between a b"])
  show "selected_between a b [] line_init" by (simp add: selected_between_def line_init_def)
qed (rule window_line_keeps)

section \<open>The lines as the file has them\<close>

text \<open>A split of a file into physical lines: every line but the last ends in its only line feed, and the last one has
  none before its end. The split is determined by the bytes.\<close>

definition physical_lines :: "bytes list \<Rightarrow> bool" where
  "physical_lines ls \<longleftrightarrow> list_all (\<lambda>l. l \<noteq> [] \<and> 0x0A \<notin> set (butlast l)) ls \<and> list_all (\<lambda>l. last l = 0x0A) (butlast ls)"

text \<open>The text a line stands for: without its line end, with a plain line feed behind it.\<close>

definition line_text :: "bytes \<Rightarrow> string \<Rightarrow> bool" where
  "line_text raw s \<longleftrightarrow> (\<exists>body eol. raw = body @ eol \<and> eol \<in> {[], [0x0A], [0x0D, 0x0A]} \<and>
     0x0A \<notin> set body \<and> 0x0D \<notin> set body \<and> s = chars_of body @ [CHR 0x0A])"

lemma physical_lines_unique:
  assumes "physical_lines ls" "physical_lines ks" "concat ls = concat ks"
  shows "ls = ks"
  using assms
proof (induction ls arbitrary: ks)
  case Nil
  then show ?case by (cases ks) (auto simp: physical_lines_def)
next
  case (Cons l ls)
  then obtain k ks' where ks: "ks = k # ks'" by (cases ks) (auto simp: physical_lines_def)
  have tail: "physical_lines (x # xs) \<Longrightarrow> physical_lines xs" for x xs by (auto simp: physical_lines_def split: if_splits)
  have whole: "x = takeWhile (\<lambda>b. b \<noteq> 0x0A) (concat (x # xs)) @ take 1 (dropWhile (\<lambda>b. b \<noteq> 0x0A) (concat (x # xs)))"
    if p: "physical_lines (x # xs)" for x xs
  proof -
    obtain i c where x: "x = i @ [c]" "0x0A \<notin> set i" using p by (cases x rule: rev_cases) (auto simp: physical_lines_def)
    have i: "takeWhile (\<lambda>b. b \<noteq> 0x0A) (i @ r) = i @ takeWhile (\<lambda>b. b \<noteq> 0x0A) r"
      "dropWhile (\<lambda>b. b \<noteq> 0x0A) (i @ r) = dropWhile (\<lambda>b. b \<noteq> 0x0A) r" for r
      using x(2) by (auto intro!: takeWhile_append2 dropWhile_append2)
    show ?thesis
    proof (cases "c = 0x0A")
      case False
      then have "xs = []" using p x by (auto simp: physical_lines_def split: if_splits)
      with False show ?thesis by (simp add: x i)
    qed (simp add: x i)
  qed
  have "l = k" using whole [OF Cons.prems(1)] whole [of k ks'] Cons.prems(2,3) ks by metis
  moreover have "ls = ks'" using Cons.IH [of ks'] tail [OF Cons.prems(1)] tail [of k ks'] Cons.prems(2,3) ks \<open>l = k\<close> by simp
  ultimately show ?case by (simp add: ks)
qed

lemma read_line_framed:
  assumes "data \<noteq> []" "0 < limit"
  shows "0x0A \<notin> set (butlast (read_line limit data)) \<and>
    (drop (length (read_line limit data)) data = [] \<or> last (read_line limit data) = 0x0A \<or>
      length (read_line limit data) = limit)"
proof -
  let ?P = "\<lambda>b. b \<noteq> (0x0A :: byte)"
  define i where "i = takeWhile ?P data"
  have ni: "0x0A \<notin> set i" by (auto simp: i_def dest: set_takeWhileD)
  show ?thesis
  proof (cases "dropWhile ?P data")
    case Nil
    then have d: "i = data" using takeWhile_dropWhile_id [of ?P data] by (simp add: i_def)
    then have "read_line limit data = take limit data" using Nil by (simp add: read_line_def i_def [symmetric])
    then show ?thesis using ni d by (auto dest!: in_set_butlastD in_set_takeD)
  next
    case (Cons c r)
    then have c: "c = 0x0A" using hd_dropWhile [of ?P data] by simp
    have d: "data = i @ c # r" using takeWhile_dropWhile_id [of ?P data] Cons by (simp add: i_def)
    have l: "read_line limit data = take limit (i @ [c])" using Cons by (simp add: read_line_def i_def)
    show ?thesis
    proof (cases "limit \<le> length i")
      case True
      then show ?thesis using ni unfolding l by (auto dest!: in_set_butlastD in_set_takeD)
    next
      case False
      then show ?thesis using ni unfolding l by (simp add: c)
    qed
  qed
qed

lemma read_lines_physical:
  assumes "0 < limit" "list_all (\<lambda>l. length l < limit) (read_lines limit data)"
  shows "physical_lines (read_lines limit data)"
  using assms
proof (induction limit data rule: read_lines.induct)
  case (1 limit data)
  show ?case
  proof (cases "data = []")
    case True
    then show ?thesis by (simp add: read_lines.simps physical_lines_def)
  next
    case False
    let ?l = "read_line limit data" and ?r = "drop (length (read_line limit data)) data"
    have e: "read_lines limit data = ?l # read_lines limit ?r"
      using False 1(2) by (subst read_lines.simps) simp
    have ih: "physical_lines (read_lines limit ?r)" using 1(1) False 1(2,3) e by simp
    have f: "0x0A \<notin> set (butlast ?l)" "?r = [] \<or> last ?l = 0x0A"
      using read_line_framed [OF False 1(2)] 1(3) e by auto
    have "?r = [] \<Longrightarrow> read_lines limit ?r = []" by (simp add: read_lines.simps)
    with f ih read_line_nonempty [OF 1(2) False] show ?thesis by (auto simp: e physical_lines_def)
  qed
qed

lemma continues_high: "continues c \<Longrightarrow> b < 0x80 \<Longrightarrow> b \<noteq> c"
  by (auto simp: continues_def)

text \<open>The forms of the first code point, by its first byte.\<close>

lemma decode_utf8_cases:
  assumes "decode_utf8 (a # s) = Some cs"
  obtains (one) t where "a < 0x80" "decode_utf8 s = Some t" "cs = unat a # t"
  | (more) pre r t n where "0x80 \<le> a" "s = pre @ r" "\<forall>b \<in> set pre. 0x80 \<le> b" "decode_utf8 r = Some t" "cs = n # t"
proof (cases "a < 0x80")
  case True
  with assms one show thesis by auto
next
  case na: False
  then have a: "0x80 \<le> a" by simp
  have c: "0x80 \<le> b" if "continues b" for b using that by (simp add: continues_def)
  show thesis
  proof (cases "0xC2 \<le> a \<and> a \<le> 0xDF")
    case True
    have e: "decode_utf8 (a # s) = (case s of b # r \<Rightarrow> if continues b
             then map_option ((#) (64 * (unat a - 0xC0) + low6 b)) (decode_utf8 r) else None | _ \<Rightarrow> None)"
      unfolding decode_utf8.simps by (simp only: na True if_False if_True simp_thms)
    from trans [OF e [symmetric] assms] show thesis
      by (auto split: list.splits if_splits intro!: more [OF a, of "[_]"] c)
  next
    case n2: False
    show thesis
    proof (cases "0xE0 \<le> a \<and> a \<le> 0xEF")
      case True
      have e: "decode_utf8 (a # s) = (case s of
           b # c # r \<Rightarrow> if continues b \<and> continues c \<and> (a = 0xE0 \<longrightarrow> 0xA0 \<le> b) \<and> (a = 0xED \<longrightarrow> b \<le> 0x9F)
             then map_option ((#) (4096 * (unat a - 0xE0) + 64 * low6 b + low6 c)) (decode_utf8 r) else None
         | _ \<Rightarrow> None)"
        unfolding decode_utf8.simps by (simp only: na n2 True if_False if_True simp_thms)
      from trans [OF e [symmetric] assms] obtain b c' r t n where "s = b # c' # r" "continues b" "continues c'" "decode_utf8 r = Some t" "cs = n # t"
        by (cases s; cases "tl s") (auto split: if_splits)
      then show thesis by (intro more [OF a, of "[b, c']"]) (auto intro: c)
    next
      case n3: False
      have e: "decode_utf8 (a # s) = (if 0xF0 \<le> a \<and> a \<le> 0xF4 then (case s of
           b # c # d # r \<Rightarrow> if continues b \<and> continues c \<and> continues d \<and> (a = 0xF0 \<longrightarrow> 0x90 \<le> b) \<and> (a = 0xF4 \<longrightarrow> b \<le> 0x8F)
             then map_option ((#) (262144 * (unat a - 0xF0) + 4096 * low6 b + 64 * low6 c + low6 d)) (decode_utf8 r) else None
         | _ \<Rightarrow> None) else None)"
        unfolding decode_utf8.simps by (simp only: na n2 n3 if_False if_True)
      from trans [OF e [symmetric] assms] obtain b c' d r t n where "s = b # c' # d # r" "continues b" "continues c'" "continues d"
        "decode_utf8 r = Some t" "cs = n # t"
        by (cases s; cases "tl s"; cases "tl (tl s)") (auto split: if_splits)
      then show thesis by (intro more [OF a, of "[b, c', d]"]) (auto intro: c)
    qed
  qed
qed

lemma decode_utf8_ascii:
  assumes "decode_utf8 s = Some cs" "b \<in> set s" "b < 0x80"
  shows "unat b \<in> set cs"
  using assms
proof (induction "length s" arbitrary: s cs rule: less_induct)
  case less
  then obtain a s' where s: "s = a # s'" by (cases s) auto
  show ?case
  proof (rule decode_utf8_cases [OF less(2) [unfolded s]])
    fix t assume t: "decode_utf8 s' = Some t" "cs = unat a # t"
    show ?thesis using less(1) [OF _ t(1) _ less(4)] less(3) s t(2) by auto
  next
    fix pre r t n assume m: "0x80 \<le> a" "s' = pre @ r" "\<forall>b \<in> set pre. 0x80 \<le> b" "decode_utf8 r = Some t" "cs = n # t"
    then have "b \<in> set r" using less(3,4) s by (auto simp: not_less [symmetric])
    then show ?thesis using less(1) [OF _ m(4) _ less(4)] s m(2,5) by auto
  qed
qed

text \<open>What every line of an accepted file satisfies.\<close>

definition accepted_line :: "bool \<Rightarrow> bytes \<Rightarrow> bool" where
  "accepted_line blank raw \<longleftrightarrow> length (strip_line raw) \<le> MAX_RECORD_BYTES \<and>
     (case decode_utf8 (strip_line raw) of None \<Rightarrow> False | Some line \<Rightarrow> line_framed blank line)"

lemma window_line_accepted: "window_line a b blank w raw = Inr w' \<Longrightarrow> accepted_line blank raw"
  by (auto simp: window_line_def Let_def accepted_line_def split: if_splits option.splits)

lemma length_strip_line: "length raw \<le> length (strip_line raw) + 2"
  by (auto simp: strip_line_def Let_def)

lemma retained_text:
  assumes "accepted_line blank raw"
  shows "line_text raw (retained_line raw)"
proof -
  obtain line where d: "decode_utf8 (strip_line raw) = Some line" and f: "line_framed blank line"
    using assms by (auto simp: accepted_line_def split: option.splits)
  have nb: "10 \<notin> set line \<and> 13 \<notin> set line" using f by (auto simp: line_framed_def list_ex_iff line_break_def)
  have plain: "0x0A \<notin> set (strip_line raw)" "0x0D \<notin> set (strip_line raw)"
    using decode_utf8_ascii [OF d, of 10] decode_utf8_ascii [OF d, of 13] nb by auto
  obtain eol where "raw = strip_line raw @ eol" "eol \<in> {[], [0x0A], [0x0D, 0x0A]}"
  proof (cases "raw \<noteq> [] \<and> last raw = 0x0A")
    case True
    then have r: "raw = butlast raw @ [0x0A]" by (metis append_butlast_last_id)
    show thesis
    proof (cases "butlast raw \<noteq> [] \<and> last (butlast raw) = 0x0D")
      case b: True
      then have "butlast raw = butlast (butlast raw) @ [0x0D]" by (metis append_butlast_last_id)
      with r have "raw = butlast (butlast raw) @ [0x0D, 0x0A]" by (metis append.assoc append_Cons append_Nil)
      then show thesis using that [of "[0x0D, 0x0A]"] True b by (simp add: strip_line_def Let_def)
    next
      case False
      then show thesis using that [of "[0x0A]"] True r by (auto simp: strip_line_def Let_def)
    qed
  next
    case False
    then show thesis using that [of "[]"] by (auto simp: strip_line_def)
  qed
  then show ?thesis using plain unfolding line_text_def retained_line_def by blast
qed

lemma run_window_accepted:
  assumes "run_items (window_line a b blank) w0 ls = Inr w"
  shows "list_all (accepted_line blank) ls"
  by (rule run_items_prefix [OF assms, of "\<lambda>ys _. list_all (accepted_line blank) ys"])
    (auto dest: window_line_accepted)

lemma accepted_length: "accepted_line blank raw \<Longrightarrow> length raw < MAX_RECORD_BYTES + 3"
  using length_strip_line [of raw] by (simp add: accepted_line_def)

text \<open>C32. A window of a saved file is the selected part of its physical lines: the lines end at the line feeds of the file
  and nowhere else and make up the file; all of them are counted and are valid text within the bounds; the selected ones
  are those of the interval, each as its own text with a plain line end in place of LF or CRLF, and every recorded offset
  is where the bytes of its line stand in the file.\<close>

theorem window_selects_lines:
  assumes "read_jsonl_window file start_record stop_record expected_size expected_sha256 blank = Inr w"
  shows "\<exists>ls. physical_lines ls \<and> concat ls = lf_bytes file \<and> lf_size file = length (lf_bytes file) \<and>
    lw_count w = length ls \<and> list_all (accepted_line blank) ls \<and>
    lw_selected w = map retained_line (drop (nat start_record) (take (nat stop_record) ls)) \<and>
    list_all2 line_text (drop (nat start_record) (take (nat stop_record) ls)) (lw_selected w) \<and>
    length (lw_selected w) = nat (stop_record - start_record) \<and> length (lw_offsets w) = length (lw_selected w) \<and>
    list_all (\<lambda>(i, off). bslice (lf_bytes file) off (off + length (ls ! i)) = ls ! i)
      (zip [nat start_record..<nat stop_record] (lw_offsets w))"
proof -
  let ?ls = "read_lines (MAX_RECORD_BYTES + 3) (lf_bytes file)" and ?a = "nat start_record" and ?b = "nat stop_record"
  from assms have ab: "0 \<le> start_record" "start_record < stop_record"
    and run: "run_items (window_line ?a ?b blank) line_init ?ls = Inr w"
    and size: "lw_total w = lf_size file" and stop: "stop_record \<le> int (lw_count w)"
    unfolding read_jsonl_window_def by (elim if_failE rbind_InrE; simp)+
  note sel = run_window_lines [OF run] and acc = run_window_accepted [OF run]
  have phys: "physical_lines ?ls" by (rule read_lines_physical) (use accepted_length acc in \<open>auto simp: list_all_iff\<close>)
  have texts: "list_all2 line_text (drop ?a (take ?b ?ls)) (map retained_line (drop ?a (take ?b ?ls)))"
    using acc by (auto simp: list_all2_map2 list_all_iff intro!: list_all2_same [THEN iffD2] retained_text
      dest!: in_set_dropD in_set_takeD)
  have whole: "concat ?ls = lf_bytes file" by (rule read_lines_concat) simp
  have b: "?b \<le> length ?ls" using sel stop by (simp add: selected_between_def)
  then have offs: "lw_offsets w = map (line_offset ?ls) [?a..<?b]" using sel by (simp add: selected_between_def min_def)
  have "list_all (\<lambda>(i, off). bslice (lf_bytes file) off (off + length (?ls ! i)) = ?ls ! i) (zip [?a..<?b] (lw_offsets w))"
    using b line_at [of _ ?ls] unfolding offs whole by (auto simp: list_all_iff set_zip)
  moreover have "lw_count w = length ?ls" "lw_selected w = map retained_line (drop ?a (take ?b ?ls))" "lw_total w = length (concat ?ls)"
    using sel by (simp_all add: selected_between_def)
  moreover have "length (drop ?a (take ?b ?ls)) = nat (stop_record - start_record)" using b ab by (simp add: nat_diff_distrib)
  ultimately show ?thesis
    using whole size offs ab phys acc texts by (intro exI [of _ ?ls]) (simp add: nat_diff_distrib)
qed


definition sample_lines :: line_file where
  "sample_lines = \<lparr>lf_regular = True, lf_size = 8, lf_opened_same = True,
     lf_bytes = [0x61, 0x0A, 0xC3, 0xA9, 0x0D, 0x0A, 0x62, 0x0A], lf_unchanged = True\<rparr>"

lemma sample_lines_read: "read_jsonl_window sample_lines 1 2 None None False =
  Inr \<lparr>lw_selected = [chars_of [0xC3, 0xA9, 0x0A]], lw_offsets = [2], lw_count = 3, lw_total = 8, lw_bytes = 3\<rparr>"
proof -
  have ls: "read_lines (MAX_RECORD_BYTES + 3) (lf_bytes sample_lines) = [[0x61, 0x0A], [0xC3, 0xA9, 0x0D, 0x0A], [0x62, 0x0A]]"
    by (simp add: read_lines.simps read_line_def sample_lines_def MAX_RECORD_BYTES_def)
  have "chars_of [0xC3, 0xA9] @ [CHR 0x0A] = chars_of [0xC3, 0xA9, 0x0A]" by (simp add: chars_of_def char_of_def bit_0)
  then show ?thesis
    unfolding read_jsonl_window_def ls
    by (simp add: expected_snapshot_def sample_lines_def MAX_RECORDS_def MAX_INPUT_BYTES_def line_init_def window_line_def strip_line_def
      Let_def MAX_RECORD_BYTES_def continues_def low6_def line_framed_def is_space_def line_break_def retained_line_def
      MAX_SELECTED_BYTES_def)
qed

theorem window_selects_lines_witness:
  "\<exists>w. read_jsonl_window sample_lines 1 2 None None False = Inr w \<and> length (lw_selected w) = 1 \<and> lw_offsets w = [2] \<and>
    line_text [0xC3, 0xA9, 0x0D, 0x0A] (hd (lw_selected w))"
proof -
  have p: "physical_lines [[0x61, 0x0A], [0xC3, 0xA9, 0x0D, 0x0A], [0x62, 0x0A]]" by (simp add: physical_lines_def)
  from window_selects_lines [OF sample_lines_read] obtain ls where ls: "physical_lines ls" "concat ls = lf_bytes sample_lines"
    and t: "list_all2 line_text (drop 1 (take 2 ls)) [chars_of [0xC3, 0xA9, 0x0A]]" by auto
  have "ls = [[0x61, 0x0A], [0xC3, 0xA9, 0x0D, 0x0A], [0x62, 0x0A]]"
    by (rule physical_lines_unique [OF ls(1) p]) (simp add: ls(2) sample_lines_def)
  with t show ?thesis by (simp add: sample_lines_read)
qed

section \<open>A window of a frame table\<close>

definition CSV_WINDOW_KINDS :: "string list" where
  "CSV_WINDOW_KINDS = [''link'', ''link-rx'', ''link-tx'', ''attitude'', CHANNEL_KIND] @
     filter (\<lambda>kind. take 8 kind = ''battery-'') KINDS"

definition WINDOW_FIELDS :: "string list" where
  "WINDOW_FIELDS = [''source_input_sha256'', ''source_original_line'', ''source_original_byte_offset'']"

text \<open>The table that is converted: the header with a plain line end, and the selected lines.\<close>

definition window_text :: "bytes \<Rightarrow> string list \<Rightarrow> string" where
  "window_text header selected = chars_of (strip_line header) @ [CHR 0x0A] @ concat selected"

definition window_decoded :: "nat \<Rightarrow> crsf_state \<Rightarrow> nat list" where
  "window_decoded lines st = filter (\<lambda>local. local + 2 \<notin> fst ` set (cs_unsupported st)) [0..<lines]"

definition window_row :: "string \<Rightarrow> nat \<Rightarrow> nat list \<Rightarrow> string list \<Rightarrow> string list \<times> nat \<Rightarrow> row" where
  "window_row digest start_line offsets names item =
     (case item of (fs, local) \<Rightarrow>
       row_update (map (\<lambda>kv. (fst kv, CStr (snd kv))) (text_row names fs))
         [(''source_input_sha256'', CStr (''sha256:'' @ digest)), (''source_original_line'', CInt (int (start_line + local + 1))),
          (''source_original_byte_offset'', CInt (int (offsets ! local)))])"

definition window_unsupported :: "nat \<Rightarrow> nat list \<Rightarrow> nat \<times> string \<times> string \<Rightarrow> json" where
  "window_unsupported start_line offsets r =
     (let local = fst r - 2 in
      JObj [(''line'', JInt (int (fst r))), (''frame_hex'', JStr (fst (snd r))), (''source_record_hex'', JStr (snd (snd r))),
        (''original_line'', JInt (int (start_line + local + 1))), (''original_byte_offset'', JInt (int (offsets ! local)))])"

definition expectation_json :: "(int \<times> string) option \<Rightarrow> json" where
  "expectation_json e =
     (case e of
        None \<Rightarrow> JNull
      | Some (n, sha) \<Rightarrow> JObj [(''expected_size_bytes'', JInt n), (''expected_sha256'', JStr sha),
          (''scope'', JStr ''READ_BYTES_MATCH_CALLER_EXPECTATION_NOT_AUTHENTICITY_OR_LATER_PATH_IMMUTABILITY'')])"

definition csv_window_report ::
  "string \<Rightarrow> nat \<Rightarrow> nat \<Rightarrow> (int \<times> string) option \<Rightarrow> line_window \<Rightarrow> crsf_state \<Rightarrow> json" where
  "csv_window_report digest start_line stop_line expectation w st =
     JObj [(''source_records'', JInt (cs_source st)), (''decoded_records'', JInt (cs_decoded st)),
       (''unsupported_records'', JArr (map (window_unsupported start_line (lw_offsets w)) (cs_unsupported st))),
       (''clock'', JStr ''Unknown''),
       (''source_window'', JObj [(''source_sha256'', JStr (''sha256:'' @ digest)), (''start_line'', JInt (int start_line)),
          (''stop_line'', JInt (int stop_line)), (''total_physical_lines'', JInt (int (lw_count w))),
          (''selected_physical_lines'', JInt (int (length (lw_selected w)))),
          (''excluded_physical_lines'', JInt (int (lw_count w) - int (length (lw_selected w)) - 1)),
          (''selected_bytes'', JInt (int (lw_bytes w))),
          (''outside_semantics'', JStr ''NOT_DECODED_LINE_FRAMING_AND_UTF8_CHECKED_ONLY''),
          (''line_basis'', JStr ''ZERO_BASED_HALF_OPEN_PHYSICAL_LINES_HEADER_IS_ZERO_ORIGINAL_LINE_IS_ONE_BASED''),
          (''time_order_scope'', JStr ''NONDECREASING_WITHIN_WINDOW_ONLY_NOT_ACROSS_WINDOWS''),
          (''source_retention'', JStr ''original supplied file required; full hash is not authentication''),
          (''input_expectation'', expectation_json expectation)])]"

definition convert_csv_window ::
  "line_file \<Rightarrow> bool \<Rightarrow> string \<Rightarrow> int \<Rightarrow> int \<Rightarrow> int option \<Rightarrow> string option \<Rightarrow> bool \<Rightarrow> bool \<Rightarrow>
    ((string list \<times> row list) \<times> json) result" where
  "convert_csv_window file same kind start_line stop_line expected_size expected_sha256 compare codes =
     (if kind \<notin> set CSV_WINDOW_KINDS then fail ''CSV line window requires a saved CRSF frame selector''
      else if start_line < 1 then fail ''data line window starts at one; line zero is the header''
      else let header = read_line (MAX_RECORD_BYTES + 3) (lf_bytes file) in
        if header = [] \<or> last header \<noteq> 0x0A then fail ''expected a terminated time_us,frame_hex header line''
        else rbind (read_jsonl_window file start_line stop_line expected_size expected_sha256 False) (\<lambda>w.
          if \<not> same then fail ''source changed between header and window read''
          else rbind (convert_crsf (window_text header (lw_selected w)) kind False compare codes) (\<lambda>(cols, st).
          rbind (reread (crsf_output (cols, st))) (\<lambda>(names, records).
            let decoded = window_decoded (length (lw_selected w)) st; digest = sha256_hex (lf_bytes file) in
            if length records \<noteq> length decoded then fail ''window accounting changed''
            else rbind (expected_snapshot expected_size expected_sha256) (\<lambda>expectation.
              let rows = map (window_row digest (nat start_line) (lw_offsets w) names) (zip records decoded);
                  report = csv_window_report digest (nat start_line) (nat stop_line) expectation w st in
              if length (csv_text (names @ WINDOW_FIELDS) rows) > CRSF_LIMIT \<or> length (dumps report) > CRSF_LIMIT
              then fail ''expanded window output or report exceeds bound''
              else Inr ((names @ WINDOW_FIELDS, rows), report))))))"

end
