(* ===== verification/Pcapng.thy ===== *)
theory Pcapng
  imports Datagrams
begin

text \<open>
  The PCAPNG qualifier of \<^verbatim>\<open>scripts/convert_pcapng_udp.py\<close>: the option framing, the section,
  interface and packet blocks of the one accepted layout, and the stream reader \<^verbatim>\<open>qualify_stream\<close>
  that derives a classic capture from the packets of an interval. The block classes of the
  third-party package dpkt are a parameter.
\<close>

definition NG_REPORT_LIMIT :: nat where "NG_REPORT_LIMIT = 32 * 1024 * 1024"
definition SOURCE_LIMIT :: nat where "SOURCE_LIMIT = 2 * 1024 ^ 3"
definition PACKET_LIMIT :: nat where "PACKET_LIMIT = 1000000"

section \<open>The block classes as a parameter\<close>

text \<open>
  The block type codes of the package, and the attributes the code reads of \<^verbatim>\<open>SectionHeaderBlock(raw)\<close>, \<^verbatim>\<open>InterfaceDescriptionBlock(raw)\<close> and
  \<^verbatim>\<open>EnhancedPacketBlock(raw)\<close>, or of their little-endian variants; the options are pairs of a code and data.
\<close>

type_synonym ng_options = "(int \<times> bytes) list"

record ng_section =
  sb_v_major :: int
  sb_v_minor :: int
  sb_sec_len :: int
  sb_opts :: ng_options

record ng_interface =
  ib_linktype :: int
  ib_reserved :: int
  ib_snaplen :: int
  ib_opts :: ng_options

record ng_packet =
  eb_iface_id :: int
  eb_ts_high :: int
  eb_ts_low :: int
  eb_caplen :: nat
  eb_pkt_len :: nat
  eb_pkt_data :: bytes
  eb_opts :: ng_options

record dpkt_ng =
  ng_bt_shb :: int
  ng_bt_idb :: int
  ng_bt_epb :: int
  ng_section_block :: "byte_order \<Rightarrow> bytes \<Rightarrow> ng_section result"
  ng_interface_block :: "byte_order \<Rightarrow> bytes \<Rightarrow> ng_interface result"
  ng_packet_block :: "byte_order \<Rightarrow> bytes \<Rightarrow> ng_packet result"

section \<open>Options\<close>

text \<open>\<^verbatim>\<open>(n + 3) & ~3\<close>.\<close>

definition padded4 :: "nat \<Rightarrow> nat" where
  "padded4 n = (n + 3) div 4 * 4"

definition option_step ::
  "byte_order \<Rightarrow> int list \<Rightarrow> bytes \<Rightarrow> nat \<Rightarrow> nat \<Rightarrow> int list \<Rightarrow> (nat \<times> int list) option result" where
  "option_step endian allowed raw stop offset seen =
     (if offset + 4 > stop then fail ''truncated option header''
      else let code = u16 endian raw offset; len = nat (u16 endian raw (offset + 2)); at = offset + 4 in
        if code = 0
        then if len \<noteq> 0 \<or> at \<noteq> stop then fail ''invalid option terminator'' else Inr None
        else if code \<notin> set allowed \<or> code \<in> set seen then fail ''unsupported or duplicate option''
        else if at + padded4 len > stop \<or> list_ex (\<lambda>b. b \<noteq> 0) (bslice raw (at + len) (at + padded4 len))
        then fail ''truncated option or nonzero padding''
        else Inr (Some (at + padded4 len, code # seen)))"

lemma option_step_progress:
  "option_step endian allowed raw stop offset seen = Inr (Some (off, s)) \<Longrightarrow> offset < off \<and> off \<le> stop"
  by (auto simp: option_step_def Let_def split: if_splits)

function option_loop :: "byte_order \<Rightarrow> int list \<Rightarrow> bytes \<Rightarrow> nat \<Rightarrow> nat \<Rightarrow> int list \<Rightarrow> unit result" where
  "option_loop endian allowed raw stop offset seen =
     (if offset < stop
      then case option_step endian allowed raw stop offset seen of
          Inl e \<Rightarrow> Inl e
        | Inr None \<Rightarrow> Inr ()
        | Inr (Some (offset', seen')) \<Rightarrow> option_loop endian allowed raw stop offset' seen'
      else Inr ())"
  by pat_completeness auto
termination
  by (relation "measure (\<lambda>(endian, allowed, raw, stop, offset, seen). stop - offset)")
    (auto dest!: option_step_progress)

declare option_loop.simps [simp del]

text \<open>\<^verbatim>\<open>options(block, raw, offset, allowed, endian)\<close>: a later option of a code replaces an earlier one.\<close>

definition options ::
  "ng_options \<Rightarrow> bytes \<Rightarrow> nat \<Rightarrow> int list \<Rightarrow> byte_order \<Rightarrow> (int \<Rightarrow> bytes option) result" where
  "options opts raw offset allowed endian =
     rbind (option_loop endian allowed raw (length raw - 4) offset [])
       (\<lambda>_. Inr (map_of (rev (filter (\<lambda>cd. fst cd \<noteq> 0) opts))))"

section \<open>Blocks\<close>

record ng_saved =
  ns_packet_index :: nat
  ns_block_ordinal :: nat
  ns_block_byte_offset :: nat
  ns_timestamp_ticks :: int
  ns_capture_time_us :: int
  ns_captured_length :: nat
  ns_original_length :: nat

text \<open>The variables of the loop of \<^verbatim>\<open>qualify_stream\<close>.\<close>

record ng_state =
  q_ordinal :: nat
  q_divisor :: int
  q_time_offset :: int
  q_packets :: "ng_saved list"
  q_derived :: bytes
  q_snaplen :: "int option"
  q_original_packets :: nat
  q_previous :: "int option"
  q_selected_bytes :: nat

definition ng_start :: ng_state where
  "ng_start = \<lparr>q_ordinal = 0, q_divisor = 1000000, q_time_offset = 0, q_packets = [], q_derived = [],
     q_snaplen = None, q_original_packets = 0, q_previous = None, q_selected_bytes = 0\<rparr>"

definition section_block :: "dpkt_ng \<Rightarrow> byte_order \<Rightarrow> bytes \<Rightarrow> ng_state \<Rightarrow> ng_state result" where
  "section_block ng endian raw st =
     rbind (ng_section_block ng endian raw) (\<lambda>block.
       if (sb_v_major block, sb_v_minor block, sb_sec_len block) \<noteq> (1, 0, - 1)
       then fail ''section 1.0 with unspecified length required''
       else rbind (options (sb_opts block) raw 24 [1] endian) (\<lambda>_. Inr st))"

text \<open>\<^verbatim>\<open>struct.pack("<I", n)\<close>, \<^verbatim>\<open>struct.pack("<H", n)\<close> and \<^verbatim>\<open>struct.unpack(endian + "q", raw)\<close>.\<close>

definition pack_u32le :: "int \<Rightarrow> bytes" where
  "pack_u32le n = [word_of_int n, word_of_int (n div 256), word_of_int (n div 65536), word_of_int (n div 16777216)]"

definition pack_half :: "int \<Rightarrow> bytes" where
  "pack_half n = [word_of_int n, word_of_int (n div 256)]"

definition order_sint :: "byte_order \<Rightarrow> bytes \<Rightarrow> int" where
  "order_sint endian bs =
     (case endian of BigEndian \<Rightarrow> be_sint bs | LittleEndian \<Rightarrow> be_sint (rev bs))"

text \<open>The classic header: \<^verbatim>\<open>pack("<IHHIIII", 0xa1b2c3d4, 2, 4, 0, 0, snaplen or 0xffffffff, 1)\<close>.\<close>

definition classic_header :: "int \<Rightarrow> bytes" where
  "classic_header snaplen =
     pack_u32le 0xa1b2c3d4 @ pack_half 2 @ pack_half 4 @ pack_u32le 0 @ pack_u32le 0
       @ pack_u32le (if snaplen = 0 then 0xffffffff else snaplen) @ pack_u32le 1"

definition interface_block :: "dpkt_ng \<Rightarrow> byte_order \<Rightarrow> bytes \<Rightarrow> ng_state \<Rightarrow> ng_state result" where
  "interface_block ng endian raw st =
     rbind (ng_interface_block ng endian raw) (\<lambda>block.
     rbind (options (ib_opts block) raw 16 [1, 2, 3, 9, 14] endian) (\<lambda>opts.
       if ib_linktype block \<noteq> 1 \<or> ib_reserved block \<noteq> 0 \<or> \<not> (0 \<le> ib_snaplen block \<and> ib_snaplen block \<le> 0xffffffff)
       then fail ''Ethernet interface required''
       else rbind (case opts 9 of
           None \<Rightarrow> Inr (q_divisor st)
         | Some resol \<Rightarrow>
             if length resol \<noteq> 1 then fail ''invalid timestamp resolution''
             else let res = bval (resol ! 0)
               in Inr ((if res AND 128 \<noteq> 0 then 2 else 10) ^ nat (res AND 127))) (\<lambda>divisor.
       rbind (case opts 14 of
           None \<Rightarrow> Inr (q_time_offset st)
         | Some off \<Rightarrow>
             if length off \<noteq> 8 then fail ''invalid timestamp offset'' else Inr (order_sint endian off)) (\<lambda>time_offset.
       Inr (st\<lparr>q_divisor := divisor, q_time_offset := time_offset, q_snaplen := Some (ib_snaplen block),
         q_derived := q_derived st @ classic_header (ib_snaplen block)\<rparr>)))))"

text \<open>The capture time of a packet, when it is exact.\<close>

definition ticks_of :: "ng_packet \<Rightarrow> int" where
  "ticks_of block = (push_bit 32 (eb_ts_high block)) OR eb_ts_low block"

definition micros_of :: "ng_state \<Rightarrow> ng_packet \<Rightarrow> int result" where
  "micros_of st block =
     (let micros = ticks_of block * 1000000 div q_divisor st + q_time_offset st * 1000000;
          remainder = ticks_of block * 1000000 mod q_divisor st
      in if remainder \<noteq> 0 \<or> \<not> (0 \<le> micros \<and> micros < 2 ^ 32 * 1000000)
         then fail ''timestamp not exactly representable in classic microseconds'' else Inr micros)"

text \<open>The record of a selected packet in the classic capture.\<close>

definition classic_record :: "int \<Rightarrow> ng_packet \<Rightarrow> bytes" where
  "classic_record micros block =
     pack_u32le (micros div 1000000) @ pack_u32le (micros mod 1000000) @ pack_u32le (int (eb_caplen block))
       @ pack_u32le (int (eb_pkt_len block)) @ eb_pkt_data block"

definition in_interval :: "(int \<times> int) option \<Rightarrow> int \<Rightarrow> bool" where
  "in_interval window micros = (case window of None \<Rightarrow> True | Some (a, b) \<Rightarrow> a \<le> micros \<and> micros < b)"

text \<open>The checks on a packet block, which do not depend on the interval.\<close>

definition packet_qualified :: "dpkt_ng \<Rightarrow> byte_order \<Rightarrow> bytes \<Rightarrow> ng_state \<Rightarrow> (ng_packet \<times> int) result" where
  "packet_qualified ng endian raw st =
     rbind (ng_packet_block ng endian raw) (\<lambda>block.
       if eb_iface_id block \<noteq> 0 \<or> eb_caplen block \<noteq> eb_pkt_len block
          \<or> eb_caplen block \<noteq> length (eb_pkt_data block)
          \<or> (case q_snaplen st of None \<Rightarrow> False | Some s \<Rightarrow> s \<noteq> 0 \<and> int (eb_caplen block) > s)
       then fail ''wrong interface or incomplete packet''
       else let payload_end = 28 + padded4 (eb_caplen block) in
         if payload_end > length raw - 4 \<or> list_ex (\<lambda>b. b \<noteq> 0) (bslice raw (28 + eb_caplen block) payload_end)
         then fail ''invalid packet extent or padding''
         else rbind (options (eb_opts block) raw payload_end [1] endian) (\<lambda>_.
              rbind (micros_of st block) (\<lambda>micros. Inr (block, micros))))"

definition packet_block ::
  "dpkt_ng \<Rightarrow> byte_order \<Rightarrow> (int \<times> int) option \<Rightarrow> bytes \<Rightarrow> nat \<Rightarrow> ng_state \<Rightarrow> ng_state result" where
  "packet_block ng endian window raw offset st =
     rbind (packet_qualified ng endian raw st) (\<lambda>(block, micros).
       if window \<noteq> None \<and> (case q_previous st of None \<Rightarrow> False | Some p \<Rightarrow> micros < p)
       then fail ''original capture time decreases''
       else if q_original_packets st \<ge> PACKET_LIMIT then fail ''original packet count exceeds bound''
       else let st' = st\<lparr>q_previous := Some micros, q_original_packets := q_original_packets st + 1\<rparr> in
         if in_interval window micros
         then if q_selected_bytes st + length raw > LIMIT
                 \<or> length (q_derived st) + 16 + eb_caplen block > LIMIT
              then fail ''selected capture exceeds bound''
              else Inr (st'\<lparr>q_selected_bytes := q_selected_bytes st + length raw,
                q_derived := q_derived st @ classic_record micros block,
                q_packets := q_packets st @ [\<lparr>ns_packet_index = q_original_packets st,
                  ns_block_ordinal = q_ordinal st, ns_block_byte_offset = offset,
                  ns_timestamp_ticks = ticks_of block, ns_capture_time_us = micros,
                  ns_captured_length = eb_caplen block, ns_original_length = eb_pkt_len block\<rparr>]\<rparr>)
         else Inr st')"

section \<open>The stream\<close>

text \<open>\<^verbatim>\<open>read(size)\<close> at a position: what the source delivers there, within the bound on all that was read.\<close>

definition ng_read :: "bytes \<Rightarrow> nat \<Rightarrow> nat \<Rightarrow> bytes result" where
  "ng_read source pos n =
     (let chunk = bslice source pos (pos + n)
      in if pos + length chunk > SOURCE_LIMIT then fail ''original capture exceeds bound'' else Inr chunk)"

definition expected_kind :: "dpkt_ng \<Rightarrow> nat \<Rightarrow> int" where
  "expected_kind ng ordinal =
     (if ordinal = 0 then ng_bt_shb ng else if ordinal = 1 then ng_bt_idb ng else ng_bt_epb ng)"

text \<open>One turn of the loop: the block whose first twelve bytes are \<open>prefix\<close>.\<close>

definition ng_block ::
  "dpkt_ng \<Rightarrow> byte_order \<Rightarrow> (int \<times> int) option \<Rightarrow> bytes \<Rightarrow> bytes \<Rightarrow> nat \<Rightarrow> ng_state \<Rightarrow> (ng_state \<times> nat) result" where
  "ng_block ng endian window source prefix offset st =
     (if length prefix \<noteq> 12 then fail ''truncated block''
      else let kind = u32 endian prefix 0; len = nat (u32 endian prefix 4) in
        if len < 12 \<or> len > LIMIT \<or> len mod 4 \<noteq> 0 then fail ''invalid block length''
        else rbind (ng_read source (offset + 12) (len - 12)) (\<lambda>rest.
          let raw = prefix @ rest in
          if length raw \<noteq> len then fail ''truncated block''
          else if kind \<noteq> expected_kind ng (q_ordinal st)
          then fail ''only one section/interface and enhanced packets are qualified''
          else rbind (if q_ordinal st = 0 then section_block ng endian raw st
                      else if q_ordinal st = 1 then interface_block ng endian raw st
                      else packet_block ng endian window raw offset st) (\<lambda>st'.
            Inr (st'\<lparr>q_ordinal := q_ordinal st + 1\<rparr>, offset + len))))"

lemma ng_block_progress: "ng_block ng endian window source prefix offset st = Inr (st', off') \<Longrightarrow> offset + 12 \<le> off'"
  by (auto simp: ng_block_def Let_def result_simps split: if_splits)

lemma ng_read_nonempty: "ng_read source pos n = Inr chunk \<Longrightarrow> chunk \<noteq> [] \<Longrightarrow> pos < length source"
  by (rule ccontr) (auto simp: ng_read_def Let_def bslice_def split: if_splits)

function ng_loop ::
  "dpkt_ng \<Rightarrow> byte_order \<Rightarrow> (int \<times> int) option \<Rightarrow> bytes \<Rightarrow> nat \<Rightarrow> bytes \<Rightarrow> ng_state \<Rightarrow> (ng_state \<times> nat) result" where
  "ng_loop ng endian window source offset prefix st =
     (if prefix = [] then Inr (st, offset)
      else case ng_block ng endian window source prefix offset st of
          Inl e \<Rightarrow> Inl e
        | Inr (st', offset') \<Rightarrow>
            (case ng_read source offset' 12 of
               Inl e \<Rightarrow> Inl e
             | Inr prefix' \<Rightarrow> ng_loop ng endian window source offset' prefix' st'))"
  by pat_completeness auto
termination
proof (relation "measure (\<lambda>(ng, endian, window, source, offset, prefix, st).
    if prefix = [] then 0 else Suc (length source - offset))", goal_cases)
  case (2 ng endian window source offset prefix st x st' off' prefix')
  then have "offset + 12 \<le> off'" by (auto dest: ng_block_progress)
  moreover have "prefix' \<noteq> [] \<Longrightarrow> off' < length source" using 2 by (auto dest: ng_read_nonempty)
  ultimately show ?case using 2 by auto
qed simp

declare ng_loop.simps [simp del]

record ng_window =
  nw_start_us :: int
  nw_stop_us :: int
  nw_original_packets :: nat
  nw_selected_packets :: nat
  nw_excluded_packets :: nat
  nw_original_bytes :: nat
  nw_original_sha256 :: string

record ng_provenance =
  np_byte_order :: byte_order
  np_snaplen :: "int option"
  np_divisor :: int
  np_time_offset :: int
  np_packets :: "ng_saved list"
  np_window :: "ng_window option"

definition ng_endian :: "bytes \<Rightarrow> byte_order option" where
  "ng_endian mark = map_of [([0x4d, 0x3c, 0x2b, 0x1a], LittleEndian), ([0x1a, 0x2b, 0x3c, 0x4d], BigEndian)] mark"

text \<open>Both ends of an interval are given or none is.\<close>

definition window_of :: "int option \<Rightarrow> int option \<Rightarrow> (int \<times> int) option result" where
  "window_of start_us stop_us =
     (case (start_us, stop_us) of
        (None, None) \<Rightarrow> Inr None
      | (Some a, Some b) \<Rightarrow>
          if 0 \<le> a \<and> a < b then Inr (Some (a, b))
          else fail ''explicit increasing nonnegative microsecond interval required''
      | _ \<Rightarrow> fail ''explicit increasing nonnegative microsecond interval required'')"

definition qualify_stream ::
  "dpkt_ng \<Rightarrow> bytes \<Rightarrow> int option \<Rightarrow> int option \<Rightarrow> (bytes \<times> ng_provenance) result" where
  "qualify_stream ng source start_us stop_us =
     rbind (window_of start_us stop_us) (\<lambda>window.
     rbind (ng_read source 0 12) (\<lambda>first.
       if length first \<noteq> 12 \<or> bslice first 0 4 \<noteq> [0x0a, 0x0d, 0x0d, 0x0a] then fail ''PCAPNG section required''
       else case ng_endian (bslice first 8 12) of
           None \<Rightarrow> fail ''invalid section byte order''
         | Some endian \<Rightarrow>
             rbind (ng_loop ng endian window source 0 first ng_start) (\<lambda>(st, offset).
               if q_packets st = [] \<or> length (q_derived st) > LIMIT
               then fail ''no packets or derived capture exceeds bound''
               else Inr (q_derived st,
                 \<lparr>np_byte_order = endian, np_snaplen = q_snaplen st, np_divisor = q_divisor st,
                  np_time_offset = q_time_offset st, np_packets = q_packets st,
                  np_window = map_option (\<lambda>(a, b). \<lparr>nw_start_us = a, nw_stop_us = b,
                    nw_original_packets = q_original_packets st, nw_selected_packets = length (q_packets st),
                    nw_excluded_packets = q_original_packets st - length (q_packets st),
                    nw_original_bytes = offset, nw_original_sha256 = sha256_ref (bslice source 0 offset)\<rparr>) window\<rparr>))))"

definition qualify :: "dpkt_ng \<Rightarrow> bytes \<Rightarrow> (bytes \<times> ng_provenance) result" where
  "qualify ng data =
     (if data = [] \<or> length data > LIMIT then fail ''bounded PCAPNG section required''
      else qualify_stream ng data None None)"

section \<open>What a packet block is checked for\<close>

text \<open>
  The checks of a block, read off the layout of the format: a chunk is a code, a length, as many bytes of data and zero
  padding to a multiple of four; options are such chunks of distinct allowed codes, with or without the end mark; a
  packet block is the fixed fields with the packet, zero padding, the options and the trailing length.
\<close>

definition option_chunk :: "byte_order \<Rightarrow> int \<Rightarrow> bytes \<Rightarrow> bool" where
  "option_chunk endian code c \<longleftrightarrow> (\<exists>data pad. drop 4 c = data @ replicate pad 0 \<and> 4 \<le> length c \<and> pad < 4 \<and>
     length c mod 4 = 0 \<and> u16 endian c 0 = code \<and> u16 endian c 2 = int (length data))"

definition options_framed :: "byte_order \<Rightarrow> int set \<Rightarrow> bytes \<Rightarrow> bool" where
  "options_framed endian codes bs \<longleftrightarrow> (\<exists>cs chunks mark. bs = concat chunks @ mark \<and> list_all2 (option_chunk endian) cs chunks \<and>
     distinct cs \<and> set cs \<subseteq> codes \<and> mark \<in> {[], [0, 0, 0, 0]})"

definition block_framed :: "int \<Rightarrow> byte_order \<Rightarrow> bytes \<Rightarrow> bool" where
  "block_framed kind endian raw \<longleftrightarrow>
     u32 endian raw 0 = kind \<and> u32 endian raw 4 = int (length raw) \<and> length raw mod 4 = 0"

definition packet_extent :: "byte_order \<Rightarrow> bytes \<Rightarrow> nat \<Rightarrow> bool" where
  "packet_extent endian raw n \<longleftrightarrow> (\<exists>front pad opts trailer. raw = front @ replicate pad 0 @ opts @ trailer \<and>
     length front = 28 + n \<and> pad < 4 \<and> (n + pad) mod 4 = 0 \<and> options_framed endian {1} opts \<and> length trailer = 4)"

definition packet_checked :: "dpkt_ng \<Rightarrow> byte_order \<Rightarrow> int \<Rightarrow> bytes \<Rightarrow> ng_packet \<Rightarrow> bool" where
  "packet_checked ng endian snaplen raw block \<longleftrightarrow> block_framed (ng_bt_epb ng) endian raw \<and> ng_packet_block ng endian raw = Inr block \<and>
     eb_iface_id block = 0 \<and> eb_caplen block = length (eb_pkt_data block) \<and> eb_pkt_len block = eb_caplen block \<and>
     (snaplen = 0 \<or> int (eb_caplen block) \<le> snaplen) \<and> packet_extent endian raw (eb_caplen block)"

definition section_checked :: "dpkt_ng \<Rightarrow> byte_order \<Rightarrow> bytes \<Rightarrow> bool" where
  "section_checked ng endian raw \<longleftrightarrow> (\<exists>b. block_framed (ng_bt_shb ng) endian raw \<and> ng_section_block ng endian raw = Inr b \<and>
     sb_v_major b = 1 \<and> sb_v_minor b = 0 \<and> sb_sec_len b = - 1 \<and>
     options_framed endian {1} (bslice raw 24 (length raw - 4)))"

text \<open>The ticks of a second: a power of ten, or of two when the top bit of the resolution byte is set.\<close>

definition resolution_units :: "bytes \<Rightarrow> int" where
  "resolution_units r = (let n = bval (hd r) in if 128 \<le> n then 2 ^ nat (n - 128) else 10 ^ nat n)"

definition interface_checked :: "dpkt_ng \<Rightarrow> byte_order \<Rightarrow> int \<Rightarrow> int \<Rightarrow> int \<Rightarrow> bytes \<Rightarrow> bool" where
  "interface_checked ng endian snaplen divisor time_offset raw \<longleftrightarrow> (\<exists>b. block_framed (ng_bt_idb ng) endian raw \<and>
     ng_interface_block ng endian raw = Inr b \<and> ib_linktype b = 1 \<and> ib_reserved b = 0 \<and> ib_snaplen b = snaplen \<and>
     0 \<le> snaplen \<and> snaplen \<le> 0xffffffff \<and> options_framed endian {1, 2, 3, 9, 14} (bslice raw 16 (length raw - 4)) \<and>
     (case map_of (rev (ib_opts b)) 9 of None \<Rightarrow> divisor = 1000000
        | Some r \<Rightarrow> length r = 1 \<and> divisor = resolution_units r) \<and>
     (case map_of (rev (ib_opts b)) 14 of None \<Rightarrow> time_offset = 0
        | Some r \<Rightarrow> length r = 8 \<and> time_offset = order_sint endian r))"

lemma u16_at: "i + 2 \<le> m \<Longrightarrow> u16 endian (bslice raw a (a + m)) i = u16 endian raw (a + i)"
  by (cases endian) (simp_all add: u16le_def u16be_def bslice_bslice add.assoc)

lemma u16_nonneg: "0 \<le> u16 endian raw i"
  by (cases endian) (simp_all add: u16le_def u16be_def)

lemma padded4_bounds: "n \<le> padded4 n" "padded4 n - n < 4" "padded4 n mod 4 = 0"
  by (simp_all add: padded4_def)

lemma zero_bytes: "\<not> list_ex (\<lambda>b. b \<noteq> 0) bs \<Longrightarrow> bs = replicate (length bs) (0 :: byte)"
  by (induction bs) auto

text \<open>An end mark is four zero bytes.\<close>

lemma u16_zero:
  assumes "u16 endian raw i = 0" "i + 2 \<le> length raw"
  shows "bslice raw i (i + 2) = [0, 0]"
proof -
  let ?a = "raw ! i" and ?b = "raw ! (i + 1)"
  have nn: "0 \<le> uint ?a" "0 \<le> uint ?b" by simp_all
  have two: "le_int [?a, ?b] = 0 \<or> be_int [?a, ?b] = 0"
    using assms(1) by (cases endian) (simp_all only: u16.simps u16le_def u16be_def bslice_2 [OF assms(2)] simp_thms)
  have "uint ?a + 256 * uint ?b = 0 \<or> uint ?a * 256 + uint ?b = 0"
    using two by (auto simp: be_int_def bval_def)
  with nn have "uint ?a = 0" "uint ?b = 0" by linarith+
  then have "?a = 0" "?b = 0" by (metis uint_0_iff)+
  then show ?thesis unfolding bslice_2 [OF assms(2)] by simp
qed

lemma option_step_chunk:
  assumes "option_step endian allowed raw stop offset seen = Inr (Some (off, seen'))" "stop \<le> length raw"
  obtains code where "seen' = code # seen" "code \<in> set allowed" "code \<notin> set seen" "offset \<le> off" "off \<le> stop"
    "option_chunk endian code (bslice raw offset off)"
proof -
  define code where "code = u16 endian raw offset"
  define n where "n = nat (u16 endian raw (offset + 2))"
  from assms(1) have s: "code \<in> set allowed" "code \<notin> set seen" "offset + 4 + padded4 n \<le> stop"
    "\<not> list_ex (\<lambda>b. b \<noteq> 0) (bslice raw (offset + 4 + n) (offset + 4 + padded4 n))" "off = offset + (4 + padded4 n)"
    "seen' = code # seen"
    by (auto simp: option_step_def Let_def code_def n_def split: if_splits)
  note pn = padded4_bounds [of n]
  let ?c = "bslice raw offset off" and ?data = "bslice raw (offset + 4) (offset + 4 + n)"
  have len: "length ?c = 4 + padded4 n" "length ?data = n" using s(3,5) assms(2) pn(1) by simp_all
  have "drop 4 ?c = bslice raw (offset + 4) (offset + 4 + padded4 n)" by (simp add: s(5) bslice_def drop_take add.commute)
  also have "\<dots> = ?data @ bslice raw (offset + 4 + n) (offset + 4 + padded4 n)"
    by (rule bslice_append_bslice [symmetric]) (use pn in simp_all)
  also have "bslice raw (offset + 4 + n) (offset + 4 + padded4 n) = replicate (padded4 n - n) 0"
    using zero_bytes [OF s(4)] s(3) assms(2) by simp
  finally have d: "drop 4 ?c = ?data @ replicate (padded4 n - n) 0" .
  have "u16 endian ?c 0 = code" "u16 endian ?c 2 = int n"
    using u16_at [of 0 "4 + padded4 n" endian raw offset] u16_at [of 2 "4 + padded4 n" endian raw offset] u16_nonneg
    by (simp_all add: s(5) code_def n_def)
  then have "option_chunk endian code ?c" unfolding option_chunk_def
    using d len pn by (intro exI [of _ ?data] exI [of _ "padded4 n - n"]) (simp add: mod_add_eq [symmetric])
  then show thesis using s by (intro that [of code]) simp_all
qed

lemma option_loop_framed:
  assumes "option_loop endian allowed raw stop offset seen = Inr ()" "stop \<le> length raw" "offset \<le> stop"
  shows "options_framed endian (set allowed - set seen) (bslice raw offset stop)"
  using assms
proof (induction endian allowed raw stop offset seen rule: option_loop.induct)
  case (1 endian allowed raw stop offset seen)
  show ?case
  proof (cases "offset < stop")
    case False
    then show ?thesis using 1(4)
      by (auto simp: options_framed_def bslice_def intro: exI [of _ "[]"])
  next
    case True
    from 1(2) True consider (last) "option_step endian allowed raw stop offset seen = Inr None"
      | (more) off seen' where "option_step endian allowed raw stop offset seen = Inr (Some (off, seen'))"
        "option_loop endian allowed raw stop off seen' = Inr ()"
      by (subst (asm) option_loop.simps) (auto split: sum.splits option.splits)
    then show ?thesis
    proof cases
      case last
      then have z: "u16 endian raw offset = 0" "nat (u16 endian raw (offset + 2)) = 0" "stop = offset + 4"
        by (auto simp: option_step_def Let_def split: if_splits)
      have "u16 endian raw (offset + 2) = 0" using z(2) u16_nonneg [of endian raw "offset + 2"] by linarith
      then have "bslice raw offset (offset + 2) @ bslice raw (offset + 2) (offset + 2 + 2) = [0, 0] @ [0, 0]"
        using u16_zero [OF z(1)] u16_zero [of endian raw "offset + 2"] z(3) 1(3) by simp
      moreover have "offset + 2 + 2 = stop" using z(3) by simp
      ultimately have "bslice raw offset (offset + 2) @ bslice raw (offset + 2) stop = [0, 0, 0, 0]" by (simp only: append.simps)
      then have "bslice raw offset stop = [0, 0, 0, 0]"
        using bslice_append_bslice [of offset "offset + 2" stop raw] z(3) by (simp only: le_add1 add_le_cancel_left)
      then show ?thesis unfolding options_framed_def
        by (intro exI [of _ "[] :: int list"] exI [of _ "[] :: bytes list"] exI [of _ "[0, 0, 0, 0] :: bytes"]) simp
    next
      case more
      obtain code where c: "seen' = code # seen" "code \<in> set allowed" "code \<notin> set seen" "offset \<le> off" "off \<le> stop"
        "option_chunk endian code (bslice raw offset off)" by (rule option_step_chunk [OF more(1) 1(3)])
      from 1(1) [OF True more(1) refl refl more(2) 1(3) c(5)] obtain cs chunks mark where
        ih: "bslice raw off stop = concat chunks @ mark" "list_all2 (option_chunk endian) cs chunks"
          "distinct cs" "set cs \<subseteq> set allowed - set seen'" "mark \<in> {[], [0, 0, 0, 0]}"
        unfolding options_framed_def by (elim exE conjE)
      have "bslice raw offset stop = concat (bslice raw offset off # chunks) @ mark"
        using bslice_append_bslice [OF c(4,5), of raw] ih(1) by simp
      then show ?thesis unfolding options_framed_def using ih c
        by (intro exI [of _ "code # cs"] exI [of _ "bslice raw offset off # chunks"] exI [of _ mark] conjI) auto
    qed
  qed
qed

lemma options_Inr:
  assumes "options opts raw offset allowed endian = Inr m"
  shows "options_framed endian (set allowed) (bslice raw offset (length raw - 4)) \<and> (\<forall>k. k \<noteq> 0 \<longrightarrow> m k = map_of (rev opts) k)"
proof
  from assms have l: "option_loop endian allowed raw (length raw - 4) offset [] = Inr ()"
    and m: "m = map_of (rev (filter (\<lambda>cd. fst cd \<noteq> 0) opts))" by (auto simp: options_def result_simps)
  show "options_framed endian (set allowed) (bslice raw offset (length raw - 4))"
  proof (cases "offset \<le> length raw - 4")
    case True
    then show ?thesis using option_loop_framed [OF l] by simp
  next
    case False
    then show ?thesis by (auto simp: options_framed_def bslice_def intro: exI [of _ "[]"])
  qed
  have "map_of (filter (\<lambda>cd. fst cd \<noteq> 0) xs) k = map_of xs k" if "k \<noteq> 0" for k and xs :: ng_options
    using that by (induction xs) auto
  then show "\<forall>k. k \<noteq> 0 \<longrightarrow> m k = map_of (rev opts) k" by (simp add: m rev_filter)
qed

lemma resolution_bits:
  assumes "0 \<le> n" "n < 256"
  shows "(if n AND 128 \<noteq> 0 then 2 else 10) ^ nat (n AND 127) = (if 128 \<le> n then 2 ^ nat (n - 128) else 10 ^ nat n :: int)"
proof -
  have low: "n AND 127 = n mod 128" using take_bit_eq_mask [of 7 n] by (simp add: take_bit_eq_mod mask_eq_exp_minus_1)
  have "n AND 128 \<noteq> 0 \<longleftrightarrow> bit n 7" using and_exp_eq_0_iff_not_bit [of n 7] by simp
  moreover have "bit n 7 \<longleftrightarrow> 128 \<le> n"
  proof -
    have "n div 128 = (if 128 \<le> n then 1 else 0)"
      using assms by (auto simp: div_pos_pos_trivial int_div_pos_eq [of n 128 1 "n - 128"])
    then show ?thesis by (simp add: bit_iff_odd)
  qed
  moreover have "n mod 128 = (if 128 \<le> n then n - 128 else n)"
    using assms int_mod_pos_eq [of n 128 1 "n - 128"] by auto
  ultimately show ?thesis by (simp add: low)
qed

lemma section_block_checked:
  assumes "section_block ng endian raw st = Inr st'" "block_framed (ng_bt_shb ng) endian raw"
  shows "section_checked ng endian raw"
  using assms options_Inr [of _ raw 24 "[1]" endian]
  by (auto simp: section_block_def section_checked_def result_simps split: if_splits)

lemma interface_block_checked:
  assumes "interface_block ng endian raw st = Inr st'" "block_framed (ng_bt_idb ng) endian raw"
    and "q_divisor st = 1000000" "q_time_offset st = 0"
  obtains snaplen where "q_snaplen st' = Some snaplen"
    "interface_checked ng endian snaplen (q_divisor st') (q_time_offset st') raw"
proof -
  from assms(1) show thesis
    unfolding interface_block_def
  proof (elim if_failE rbind_InrE)
    fix block opts divisor off
    assume b: "ng_interface_block ng endian raw = Inr block"
      and o: "options (ib_opts block) raw 16 [1, 2, 3, 9, 14] endian = Inr opts"
      and ok: "\<not> (ib_linktype block \<noteq> 1 \<or> ib_reserved block \<noteq> 0 \<or> \<not> (0 \<le> ib_snaplen block \<and> ib_snaplen block \<le> 0xffffffff))"
      and d: "(case opts 9 of None \<Rightarrow> Inr (q_divisor st)
         | Some resol \<Rightarrow> if length resol \<noteq> 1 then fail ''invalid timestamp resolution''
             else let res = bval (resol ! 0) in Inr ((if res AND 128 \<noteq> 0 then 2 else 10) ^ nat (res AND 127))) = Inr divisor"
      and t: "(case opts 14 of None \<Rightarrow> Inr (q_time_offset st)
         | Some off \<Rightarrow> if length off \<noteq> 8 then fail ''invalid timestamp offset'' else Inr (order_sint endian off)) = Inr off"
      and st': "Inr (st\<lparr>q_divisor := divisor, q_time_offset := off, q_snaplen := Some (ib_snaplen block),
        q_derived := q_derived st @ classic_header (ib_snaplen block)\<rparr>) = Inr st'"
    have opts: "opts 9 = map_of (rev (ib_opts block)) 9" "opts 14 = map_of (rev (ib_opts block)) 14"
      using options_Inr [OF o] by simp_all
    have "case map_of (rev (ib_opts block)) 9 of None \<Rightarrow> divisor = 1000000
        | Some r \<Rightarrow> length r = 1 \<and> divisor = resolution_units r"
    proof (cases "opts 9")
      case (Some r)
      with d have r: "length r = 1" "divisor = (if bval (r ! 0) AND 128 \<noteq> 0 then 2 else 10) ^ nat (bval (r ! 0) AND 127)"
        by (auto simp: Let_def split: if_splits)
      have "hd r = r ! 0" using r(1) by (cases r) simp_all
      then show ?thesis using Some r resolution_bits [of "bval (r ! 0)"] bval_bounds
        by (simp add: opts(1) [symmetric] resolution_units_def Let_def)
    qed (use d assms(3) in \<open>simp add: opts(1) [symmetric]\<close>)
    moreover have "case map_of (rev (ib_opts block)) 14 of None \<Rightarrow> off = 0
        | Some r \<Rightarrow> length r = 8 \<and> off = order_sint endian r"
      unfolding opts(2) [symmetric] using t assms(4) by (auto split: option.splits if_splits)
    ultimately have "interface_checked ng endian (ib_snaplen block) divisor off raw"
      unfolding interface_checked_def using b ok options_Inr [OF o] assms(2)
      by (intro exI [of _ block] conjI) simp_all
    then show thesis using st' by (intro that [of "ib_snaplen block"]) auto
  qed
qed

section \<open>What the reader selects\<close>

text \<open>
  The abstract content of a capture: its packet blocks in order, each with the bytes of the block, the
  fields read from it and its exact capture time. The saved row and the classic record of a block
  are functions of these; the interval only filters.
\<close>

record ng_seen =
  sn_offset :: nat
  sn_raw :: bytes
  sn_block :: ng_packet
  sn_micros :: int

definition saved_row :: "nat \<Rightarrow> ng_seen \<Rightarrow> ng_saved" where
  "saved_row i s = \<lparr>ns_packet_index = i, ns_block_ordinal = i + 2, ns_block_byte_offset = sn_offset s,
     ns_timestamp_ticks = ticks_of (sn_block s), ns_capture_time_us = sn_micros s,
     ns_captured_length = eb_caplen (sn_block s), ns_original_length = eb_pkt_len (sn_block s)\<rparr>"

definition seen_record :: "ng_seen \<Rightarrow> bytes" where
  "seen_record s = classic_record (sn_micros s) (sn_block s)"

definition seen_in :: "(int \<times> int) option \<Rightarrow> ng_seen \<Rightarrow> bool" where
  "seen_in window s = (case window of None \<Rightarrow> True | Some (a, b) \<Rightarrow> a \<le> sn_micros s \<and> sn_micros s < b)"

lemma seen_in_interval: "seen_in window s = in_interval window (sn_micros s)"
  by (simp add: seen_in_def in_interval_def)

definition saved_rows :: "(int \<times> int) option \<Rightarrow> nat \<Rightarrow> ng_seen list \<Rightarrow> ng_saved list" where
  "saved_rows window i seen =
     map (\<lambda>(i, s). saved_row i s) (filter (\<lambda>(i, s). seen_in window s) (enumerate i seen))"

lemma saved_rows_simps [simp]:
  "saved_rows window i [] = []"
  "saved_rows window i (s # seen) =
     (if seen_in window s then [saved_row i s] else []) @ saved_rows window (Suc i) seen"
  by (simp_all add: saved_rows_def)

lemma saved_rows_times: "map ns_capture_time_us (saved_rows window i seen) = map sn_micros (filter (seen_in window) seen)"
  by (induction seen arbitrary: i) (simp_all add: saved_row_def)

lemma length_saved_rows: "length (saved_rows window i seen) = length (filter (seen_in window) seen)"
  by (induction seen arbitrary: i) simp_all

text \<open>The blocks follow each other without a gap.\<close>

fun blocks_at :: "nat \<Rightarrow> ng_seen list \<Rightarrow> bool" where
  "blocks_at offset [] = True"
| "blocks_at offset (s # seen) = (sn_offset s = offset \<and> blocks_at (offset + length (sn_raw s)) seen)"

text \<open>What the checks of a packet block read of the state.\<close>

definition same_clock :: "ng_state \<Rightarrow> ng_state \<Rightarrow> bool" where
  "same_clock st st' \<longleftrightarrow> q_snaplen st' = q_snaplen st \<and> q_divisor st' = q_divisor st \<and>
     q_time_offset st' = q_time_offset st"

lemma same_clock_qualified:
  assumes "same_clock st st'"
  shows "packet_qualified ng endian raw st' = packet_qualified ng endian raw st"
proof -
  have "micros_of st' = micros_of st" using assms by (intro ext) (simp add: micros_of_def same_clock_def)
  then show ?thesis using assms by (simp add: packet_qualified_def same_clock_def cong: if_cong)
qed

lemma same_clock_trans: "same_clock a b \<Longrightarrow> same_clock b c \<Longrightarrow> same_clock a c"
  by (simp add: same_clock_def)

lemma ng_block_extent:
  assumes "ng_block ng endian window source (bslice source offset (offset + 12)) offset st = Inr (st', off')"
  obtains raw st2 where "raw = bslice source offset off'" "off' = offset + length raw" "off' \<le> length source"
    "12 \<le> length raw" "st' = st2\<lparr>q_ordinal := q_ordinal st + 1\<rparr>"
    "(if q_ordinal st = 0 then section_block ng endian raw st
      else if q_ordinal st = 1 then interface_block ng endian raw st
      else packet_block ng endian window raw offset st) = Inr st2"
    "u32 endian raw 0 = expected_kind ng (q_ordinal st)" "u32 endian raw 4 = int (length raw)" "length raw mod 4 = 0"
proof -
  let ?prefix = "bslice source offset (offset + 12)"
  from assms obtain len rest st2 where p: "length ?prefix = 12" and len: "12 \<le> len"
    and kind: "u32 endian ?prefix 0 = expected_kind ng (q_ordinal st)" "len = nat (u32 endian ?prefix 4)" "len mod 4 = 0"
    and rest: "ng_read source (offset + 12) (len - 12) = Inr rest" "length (?prefix @ rest) = len"
    and st2: "(if q_ordinal st = 0 then section_block ng endian (?prefix @ rest) st
      else if q_ordinal st = 1 then interface_block ng endian (?prefix @ rest) st
      else packet_block ng endian window (?prefix @ rest) offset st) = Inr st2"
    "st' = st2\<lparr>q_ordinal := q_ordinal st + 1\<rparr>" "off' = offset + len"
    unfolding ng_block_def Let_def by (elim if_failE rbind_InrE) auto
  have r: "rest = bslice source (offset + 12) (offset + len)"
    using rest(1) len by (auto simp: ng_read_def Let_def split: if_splits)
  then have raw: "?prefix @ rest = bslice source offset off'"
    using bslice_append_bslice [of offset "offset + 12" "offset + len" source] len st2(3) by simp
  have "length rest = len - 12" using rest(2) p by simp
  then have "min (offset + len - (offset + 12)) (length source - (offset + 12)) = len - 12" using r length_bslice by metis
  then have "off' \<le> length source" using p st2(3) len unfolding length_bslice by linarith
  have u: "u32 endian (?prefix @ rest) i = u32 endian ?prefix i" if "i + 4 \<le> 12" for i
    using that p by (cases endian) (simp_all add: u32le_def u32be_def bslice_append_left)
  have "u32 endian ?prefix 4 = int len" using kind(2) len by simp
  then show thesis
    using that [OF raw _ _ _ st2(2,1)] u [of 0] u [of 4] kind(1,3) rest(2) st2(3) len \<open>off' \<le> length source\<close> by simp
qed

lemma packet_block_Inr:
  assumes "packet_block ng endian window raw offset st = Inr st'"
  obtains block micros where "packet_qualified ng endian raw st = Inr (block, micros)"
    "same_clock st st'" "q_original_packets st' = q_original_packets st + 1" "q_previous st' = Some micros"
    "window \<noteq> None \<longrightarrow> (\<forall>p. q_previous st = Some p \<longrightarrow> p \<le> micros)"
    "q_packets st' = q_packets st @ (if in_interval window micros then [\<lparr>ns_packet_index = q_original_packets st,
       ns_block_ordinal = q_ordinal st, ns_block_byte_offset = offset, ns_timestamp_ticks = ticks_of block,
       ns_capture_time_us = micros, ns_captured_length = eb_caplen block, ns_original_length = eb_pkt_len block\<rparr>] else [])"
    "q_derived st' = q_derived st @ (if in_interval window micros then classic_record micros block else [])"
proof -
  from assms obtain block micros where q: "packet_qualified ng endian raw st = Inr (block, micros)"
    unfolding packet_block_def by (auto simp: result_simps)
  with assms show thesis
    by (intro that [of block micros])
      (auto simp: packet_block_def Let_def same_clock_def split: if_splits option.splits)
qed

lemma qualified_micros:
  assumes "packet_qualified ng endian raw st = Inr (block, micros)"
  shows "0 \<le> micros \<and> micros < 2 ^ 32 * 1000000 \<and>
    (micros - q_time_offset st * 1000000) * q_divisor st = ticks_of block * 1000000 \<and>
    eb_caplen block = length (eb_pkt_data block) \<and> eb_pkt_len block = eb_caplen block \<and>
    (\<forall>s. q_snaplen st = Some s \<longrightarrow> s \<noteq> 0 \<longrightarrow> int (eb_caplen block) \<le> s)"
  using assms by (auto simp: packet_qualified_def micros_of_def Let_def result_simps split: if_splits option.splits)

lemma qualified_block:
  "packet_qualified ng endian raw st = Inr (block, micros) \<Longrightarrow> ng_packet_block ng endian raw = Inr block"
  by (auto simp: packet_qualified_def Let_def result_simps split: if_splits)

lemma qualified_checked:
  assumes "packet_qualified ng endian raw st = Inr (block, micros)" "block_framed (ng_bt_epb ng) endian raw" "q_snaplen st = Some snaplen"
  shows "packet_checked ng endian snaplen raw block"
proof -
  let ?n = "eb_caplen block" and ?e = "28 + padded4 (eb_caplen block)"
  from assms(1) have q: "eb_iface_id block = 0" "?e \<le> length raw - 4"
    "\<not> list_ex (\<lambda>b. b \<noteq> 0) (bslice raw (28 + ?n) ?e)" "option_loop endian [1] raw (length raw - 4) ?e [] = Inr ()"
    unfolding packet_qualified_def Let_def options_def by (elim rbind_InrE if_failE; auto)+
  note pn = padded4_bounds [of ?n]
  have zeros: "bslice raw (28 + ?n) ?e = replicate (padded4 ?n - ?n) 0" using zero_bytes [OF q(3)] q(2) by simp
  have opts: "options_framed endian {1} (bslice raw ?e (length raw - 4))"
    using option_loop_framed [OF q(4)] q(2) by simp
  have le: "28 + ?n \<le> ?e" "?e \<le> length raw - 4" using pn(1) q(2) by simp_all
  have "raw = bslice raw 0 (28 + ?n) @ drop (28 + ?n) raw" using bslice_append_drop [of 0 "28 + ?n" raw] by simp
  also have "drop (28 + ?n) raw = bslice raw (28 + ?n) ?e @ drop ?e raw" using bslice_append_drop [OF le(1), of raw] by (rule sym)
  also have "drop ?e raw = bslice raw ?e (length raw - 4) @ drop (length raw - 4) raw"
    using bslice_append_drop [OF le(2), of raw] by (rule sym)
  finally have raw: "raw = bslice raw 0 (28 + ?n) @ replicate (padded4 ?n - ?n) 0 @ bslice raw ?e (length raw - 4) @ drop (length raw - 4) raw"
    unfolding zeros .
  have "length (bslice raw 0 (28 + ?n)) = 28 + ?n" "length (drop (length raw - 4) raw) = 4" using le by simp_all
  with raw opts pn have "packet_extent endian raw ?n" unfolding packet_extent_def
    by (intro exI [of _ "bslice raw 0 (28 + ?n)"] exI [of _ "padded4 ?n - ?n"] exI [of _ "bslice raw ?e (length raw - 4)"]
      exI [of _ "drop (length raw - 4) raw"] conjI) simp_all
  with assms q(1) qualified_micros [OF assms(1)] qualified_block [OF assms(1)] show ?thesis
    by (auto simp: packet_checked_def)
qed

lemma ng_loop_packets:
  assumes "ng_loop ng endian window source offset prefix st = Inr (st', off')"
    and "prefix = bslice source offset (offset + 12)" "offset \<le> length source"
    and "q_ordinal st = q_original_packets st + 2"
  shows "\<exists>seen. off' = length source \<and> drop offset source = concat (map sn_raw seen) \<and> blocks_at offset seen \<and>
    same_clock st st' \<and>
    (\<forall>s \<in> set seen. packet_qualified ng endian (sn_raw s) st = Inr (sn_block s, sn_micros s)) \<and>
    (\<forall>s \<in> set seen. block_framed (ng_bt_epb ng) endian (sn_raw s)) \<and>
    q_original_packets st' = q_original_packets st + length seen \<and>
    q_packets st' = q_packets st @ saved_rows window (q_original_packets st) seen \<and>
    q_derived st' = q_derived st @ concat (map seen_record (filter (seen_in window) seen)) \<and>
    (window \<noteq> None \<longrightarrow> sorted (map sn_micros seen) \<and>
      (case q_previous st of None \<Rightarrow> True | Some p \<Rightarrow> \<forall>s \<in> set seen. p \<le> sn_micros s))"
  using assms
proof (induction ng endian window source offset prefix st rule: ng_loop.induct)
  case (1 ng endian window source offset prefix st)
  show ?case
  proof (cases "prefix = []")
    case True
    with 1(2-4) have "offset = length source" by (auto simp: ng_loop.simps bslice_def)
    with True 1(2) show ?thesis
      by (intro exI [of _ "[]"]) (auto simp: ng_loop.simps same_clock_def split: option.split)
  next
    case False
    from 1(2) False obtain st1 off1 prefix1 where b: "ng_block ng endian window source prefix offset st = Inr (st1, off1)"
      and r: "ng_read source off1 12 = Inr prefix1" and l: "ng_loop ng endian window source off1 prefix1 st1 = Inr (st', off')"
      by (subst (asm) ng_loop.simps) (auto split: sum.splits prod.splits)
    from b 1(3) have b': "ng_block ng endian window source (bslice source offset (offset + 12)) offset st = Inr (st1, off1)" by simp
    have branch: "(if q_ordinal st = 0 then A else if q_ordinal st = 1 then B else C) = C" for A B C :: "ng_state result"
      using 1(5) by simp
    obtain raw st2 where raw: "raw = bslice source offset off1"
      "off1 = offset + length raw" "off1 \<le> length source" "st1 = st2\<lparr>q_ordinal := q_ordinal st + 1\<rparr>"
      and pb: "packet_block ng endian window raw offset st = Inr st2"
      and kind: "u32 endian raw 0 = expected_kind ng (q_ordinal st)" "u32 endian raw 4 = int (length raw)" "length raw mod 4 = 0"
      by (rule ng_block_extent [OF b', unfolded branch], rule that)
    obtain block micros where p: "packet_qualified ng endian raw st = Inr (block, micros)"
      "same_clock st st2" "q_original_packets st2 = q_original_packets st + 1" "q_previous st2 = Some micros"
      "window \<noteq> None \<longrightarrow> (\<forall>p. q_previous st = Some p \<longrightarrow> p \<le> micros)"
      "q_packets st2 = q_packets st @ (if in_interval window micros then [\<lparr>ns_packet_index = q_original_packets st,
       ns_block_ordinal = q_ordinal st, ns_block_byte_offset = offset, ns_timestamp_ticks = ticks_of block,
       ns_capture_time_us = micros, ns_captured_length = eb_caplen block, ns_original_length = eb_pkt_len block\<rparr>] else [])"
      "q_derived st2 = q_derived st @ (if in_interval window micros then classic_record micros block else [])"
      by (rule packet_block_Inr [OF pb])
    have le: "offset \<le> off1" by (simp add: raw(2))
    define s where "s = \<lparr>sn_offset = offset, sn_raw = raw, sn_block = block, sn_micros = micros\<rparr>"
    have sc: "same_clock st st1" using p(2) raw(4) by (simp add: same_clock_def)
    have pre: "prefix1 = bslice source off1 (off1 + 12)" using r by (auto simp: ng_read_def Let_def split: if_splits)
    have "q_ordinal st1 = q_original_packets st1 + 2" using raw(4) p(3) 1(5) by simp
    from 1(1) [OF False b refl r l pre raw(3) this] obtain seen where
      ih: "off' = length source" "drop off1 source = concat (map sn_raw seen)" "blocks_at off1 seen" "same_clock st1 st'"
      "\<forall>s \<in> set seen. packet_qualified ng endian (sn_raw s) st1 = Inr (sn_block s, sn_micros s)"
      "\<forall>s \<in> set seen. block_framed (ng_bt_epb ng) endian (sn_raw s)"
      "q_original_packets st' = q_original_packets st1 + length seen"
      "q_packets st' = q_packets st1 @ saved_rows window (q_original_packets st1) seen"
      "q_derived st' = q_derived st1 @ concat (map seen_record (filter (seen_in window) seen))"
      "window \<noteq> None \<longrightarrow> sorted (map sn_micros seen) \<and>
        (case q_previous st1 of None \<Rightarrow> True | Some p \<Rightarrow> \<forall>s \<in> set seen. p \<le> sn_micros s)" by blast
    have "drop offset source = concat (map sn_raw (s # seen))"
      using ih(2) raw(1) [symmetric] le bslice_append_drop [of offset off1 source] by (simp add: s_def)
    moreover have "blocks_at offset (s # seen)" using ih(3) raw(2) by (simp add: s_def)
    moreover have "\<forall>x \<in> set (s # seen). packet_qualified ng endian (sn_raw x) st = Inr (sn_block x, sn_micros x)"
      using ih(5) p(1) by (simp add: same_clock_qualified [OF sc] s_def)
    moreover have "\<forall>x \<in> set (s # seen). block_framed (ng_bt_epb ng) endian (sn_raw x)"
      using ih(6) kind 1(5) by (simp add: block_framed_def expected_kind_def s_def)
    moreover have "q_packets st' = q_packets st @ saved_rows window (q_original_packets st) (s # seen)"
      using ih(8) p(3,6) raw(4) 1(5) by (simp add: s_def saved_row_def seen_in_interval)
    moreover have "q_derived st' = q_derived st @ concat (map seen_record (filter (seen_in window) (s # seen)))"
      using ih(9) p(7) raw(4) by (simp add: s_def seen_record_def seen_in_interval)
    moreover have "window \<noteq> None \<longrightarrow> sorted (map sn_micros (s # seen)) \<and>
        (case q_previous st of None \<Rightarrow> True | Some p \<Rightarrow> \<forall>x \<in> set (s # seen). p \<le> sn_micros x)"
      using ih(10) p(4,5) raw(4) by (auto simp: s_def split: option.splits intro: order_trans)
    moreover have "q_original_packets st' = q_original_packets st + length (s # seen)" using ih(7) p(3) raw(4) by simp
    ultimately show ?thesis using ih(1) same_clock_trans [OF sc ih(4)] by (intro exI [of _ "s # seen"] conjI)
  qed
qed

lemma section_block_Inr: "section_block ng endian raw st = Inr st' \<Longrightarrow> st' = st"
  by (auto simp: section_block_def result_simps split: if_splits)

lemma interface_block_Inr:
  assumes "interface_block ng endian raw st = Inr st'"
  obtains snaplen where "q_snaplen st' = Some snaplen" "0 \<le> snaplen" "snaplen \<le> 0xffffffff"
    "q_derived st' = q_derived st @ classic_header snaplen" "q_packets st' = q_packets st"
    "q_original_packets st' = q_original_packets st" "q_previous st' = q_previous st" "q_ordinal st' = q_ordinal st"
proof -
  from assms show thesis
    unfolding interface_block_def
  proof (elim if_failE rbind_InrE)
    fix block opts divisor off
    assume "\<not> (ib_linktype block \<noteq> 1 \<or> ib_reserved block \<noteq> 0 \<or>
        \<not> (0 \<le> ib_snaplen block \<and> ib_snaplen block \<le> 0xffffffff))"
      and "Inr (st\<lparr>q_divisor := divisor, q_time_offset := off, q_snaplen := Some (ib_snaplen block),
        q_derived := q_derived st @ classic_header (ib_snaplen block)\<rparr>) = Inr st'"
    then show thesis by (intro that [of "ib_snaplen block"]) auto
  qed
qed

lemma ng_loop_step:
  assumes "ng_loop ng endian window source offset (bslice source offset (offset + 12)) st = Inr (st', off')"
    and "bslice source offset (offset + 12) \<noteq> []"
  obtains st1 off1 where
    "ng_block ng endian window source (bslice source offset (offset + 12)) offset st = Inr (st1, off1)"
    "ng_loop ng endian window source off1 (bslice source off1 (off1 + 12)) st1 = Inr (st', off')"
proof -
  from assms obtain st1 off1 prefix1 where b:
    "ng_block ng endian window source (bslice source offset (offset + 12)) offset st = Inr (st1, off1)"
    "ng_read source off1 12 = Inr prefix1" "ng_loop ng endian window source off1 prefix1 st1 = Inr (st', off')"
    by (subst (asm) ng_loop.simps) (auto split: sum.splits prod.splits)
  moreover from b(2) have "prefix1 = bslice source off1 (off1 + 12)"
    by (auto simp: ng_read_def Let_def split: if_splits)
  ultimately show thesis by (intro that) auto
qed

text \<open>An accepted stream, as its interface and the list of its packet blocks.\<close>

lemma qualify_stream_Inr:
  assumes "qualify_stream ng source start_us stop_us = Inr (derived, prov)"
    and "window_of start_us stop_us = Inr window"
  obtains snaplen start seen st where "0 \<le> snaplen" "snaplen \<le> 0xffffffff"
    "q_snaplen st = Some snaplen" "np_snaplen prov = Some snaplen"
    "np_divisor prov = q_divisor st" "np_time_offset prov = q_time_offset st"
    "start \<le> length source" "drop start source = concat (map sn_raw seen)" "blocks_at start seen"
    "\<forall>s \<in> set seen. packet_qualified ng (np_byte_order prov) (sn_raw s) st = Inr (sn_block s, sn_micros s)"
    "np_packets prov = saved_rows window 0 seen"
    "derived = classic_header snaplen @ concat (map seen_record (filter (seen_in window) seen))"
    "length derived \<le> LIMIT"
    "window \<noteq> None \<longrightarrow> sorted (map sn_micros seen)"
    "np_window prov = map_option (\<lambda>(a, b). \<lparr>nw_start_us = a, nw_stop_us = b,
       nw_original_packets = length seen, nw_selected_packets = length (filter (seen_in window) seen),
       nw_excluded_packets = length seen - length (filter (seen_in window) seen),
       nw_original_bytes = length source, nw_original_sha256 = sha256_ref source\<rparr>) window"
    "\<forall>s \<in> set seen. packet_checked ng (np_byte_order prov) snaplen (sn_raw s) (sn_block s)"
    "ng_endian (bslice source 8 12) = Some (np_byte_order prov)"
    "\<exists>sec ifc. take start source = sec @ ifc \<and> section_checked ng (np_byte_order prov) sec \<and>
      interface_checked ng (np_byte_order prov) snaplen (np_divisor prov) (np_time_offset prov) ifc"
proof -
  from assms obtain first endian st off where first: "ng_read source 0 12 = Inr first" "length first = 12"
    and en: "ng_endian (bslice first 8 12) = Some endian"
    and l: "ng_loop ng endian window source 0 first ng_start = Inr (st, off)"
    and ne: "q_packets st \<noteq> []" "length (q_derived st) \<le> LIMIT" "derived = q_derived st"
    and prov: "prov = \<lparr>np_byte_order = endian, np_snaplen = q_snaplen st, np_divisor = q_divisor st,
                  np_time_offset = q_time_offset st, np_packets = q_packets st,
                  np_window = map_option (\<lambda>(a, b). \<lparr>nw_start_us = a, nw_stop_us = b,
                    nw_original_packets = q_original_packets st, nw_selected_packets = length (q_packets st),
                    nw_excluded_packets = q_original_packets st - length (q_packets st),
                    nw_original_bytes = off, nw_original_sha256 = sha256_ref (bslice source 0 off)\<rparr>) window\<rparr>"
    by (auto simp: qualify_stream_def result_simps split: if_splits option.splits)
  have f: "first = bslice source 0 (0 + 12)" using first(1) by (auto simp: ng_read_def Let_def split: if_splits)
  obtain st1 off1 where b1: "ng_block ng endian window source (bslice source 0 (0 + 12)) 0 ng_start = Inr (st1, off1)"
    and l1: "ng_loop ng endian window source off1 (bslice source off1 (off1 + 12)) st1 = Inr (st, off)"
    by (rule ng_loop_step [OF l [unfolded f]]) (use first f in \<open>auto simp del: bslice_empty\<close>)
  have o0: "(if q_ordinal ng_start = 0 then A else B) = A" for A B :: "ng_state result" by (simp add: ng_start_def)
  obtain raw1 s1 where s1: "off1 \<le> length source" "st1 = s1\<lparr>q_ordinal := q_ordinal ng_start + 1\<rparr>"
    "section_block ng endian raw1 ng_start = Inr s1"
    and raw1: "raw1 = bslice source 0 off1" "u32 endian raw1 0 = expected_kind ng (q_ordinal ng_start)"
      "u32 endian raw1 4 = int (length raw1)" "length raw1 mod 4 = 0"
    by (rule ng_block_extent [OF b1, unfolded o0], rule that)
  have st1: "st1 = ng_start\<lparr>q_ordinal := 1\<rparr>" using section_block_Inr [OF s1(3)] s1(2) by (simp add: ng_start_def)
  have "bslice source off1 (off1 + 12) \<noteq> []"
  proof
    assume "bslice source off1 (off1 + 12) = []"
    with l1 st1 ne(1) show False by (subst (asm) ng_loop.simps) (auto simp: ng_start_def)
  qed
  from ng_loop_step [OF l1 this] obtain st2 off2 where
    b2: "ng_block ng endian window source (bslice source off1 (off1 + 12)) off1 st1 = Inr (st2, off2)"
    and l2: "ng_loop ng endian window source off2 (bslice source off2 (off2 + 12)) st2 = Inr (st, off)" by blast
  have o1: "(if q_ordinal st1 = 0 then A else if q_ordinal st1 = 1 then B else C) = B" for A B C :: "ng_state result"
    by (simp add: st1)
  obtain raw2 s2 where s2: "off2 \<le> length source" "st2 = s2\<lparr>q_ordinal := q_ordinal st1 + 1\<rparr>"
    "interface_block ng endian raw2 st1 = Inr s2"
    and raw2: "raw2 = bslice source off1 off2" "u32 endian raw2 0 = expected_kind ng (q_ordinal st1)"
      "u32 endian raw2 4 = int (length raw2)" "length raw2 mod 4 = 0" "off2 = off1 + length raw2"
    by (rule ng_block_extent [OF b2, unfolded o1], rule that)
  from interface_block_Inr [OF s2(3)] obtain snaplen where sn: "q_snaplen st2 = Some snaplen" "0 \<le> snaplen" "snaplen \<le> 0xffffffff"
    "q_derived st2 = classic_header snaplen" "q_packets st2 = []" "q_original_packets st2 = 0" "q_ordinal st2 = 2"
    using s2(2) st1 by (auto simp: ng_start_def)
  from ng_loop_packets [OF l2 refl s2(1)] sn(6,7) obtain seen where
    seen: "off = length source" "drop off2 source = concat (map sn_raw seen)" "blocks_at off2 seen" "same_clock st2 st"
    "\<forall>s \<in> set seen. packet_qualified ng endian (sn_raw s) st2 = Inr (sn_block s, sn_micros s)"
    "\<forall>s \<in> set seen. block_framed (ng_bt_epb ng) endian (sn_raw s)"
    "q_original_packets st = length seen" "q_packets st = saved_rows window 0 seen"
    "q_derived st = classic_header snaplen @ concat (map seen_record (filter (seen_in window) seen))"
    "window \<noteq> None \<longrightarrow> sorted (map sn_micros seen)" using sn by auto
  have checked: "\<forall>s \<in> set seen. packet_checked ng endian snaplen (sn_raw s) (sn_block s)"
    using seen(5,6) qualified_checked [OF _ _ sn(1)] by blast
  have e: "ng_endian (bslice source 8 12) = Some endian" using en by (simp add: f bslice_bslice)
  have sec: "section_checked ng endian raw1"
    using section_block_checked [OF s1(3)] raw1 by (simp add: block_framed_def expected_kind_def ng_start_def)
  have "block_framed (ng_bt_idb ng) endian raw2" using raw2 by (simp add: block_framed_def expected_kind_def st1)
  from interface_block_checked [OF s2(3) this] obtain sn2 where
    "q_snaplen s2 = Some sn2" "interface_checked ng endian sn2 (q_divisor s2) (q_time_offset s2) raw2"
    using st1 by (auto simp: ng_start_def)
  then have ifc: "interface_checked ng endian snaplen (q_divisor st) (q_time_offset st) raw2"
    using sn(1) s2(2) seen(4) by (simp add: same_clock_def)
  have "off1 \<le> off2" using raw2(5) by linarith
  then have "take off2 source = raw1 @ raw2"
    unfolding raw1(1) raw2(1) by (subst bslice_append_bslice) (simp_all add: bslice_def)
  with sec ifc have head: "\<exists>sec ifc. take off2 source = sec @ ifc \<and> section_checked ng endian sec \<and>
      interface_checked ng endian snaplen (q_divisor st) (q_time_offset st) ifc" by blast
  have pr: "np_byte_order prov = endian" "np_divisor prov = q_divisor st" "np_time_offset prov = q_time_offset st"
    by (simp_all add: prov)
  show thesis
    by (rule that [of snaplen st off2 seen, OF _ _ _ _ _ _ _ _ _ _ _ _ _ _ _ checked [folded pr] e [folded pr] head [folded pr]])
      (use seen sn s2(1) ne prov same_clock_qualified [OF seen(4)] length_saved_rows in \<open>auto simp: same_clock_def\<close>)
qed

section \<open>The derived capture\<close>

lemma le_int_pack_u32le: "0 \<le> n \<Longrightarrow> n < 2 ^ 32 \<Longrightarrow> le_int (pack_u32le n) = n"
proof -
  assume n: "0 \<le> n" "n < 2 ^ 32"
  have "n div 65536 = n div 256 div 256" "n div 16777216 = n div 256 div 256 div 256"
    by (simp_all add: zdiv_zmult2_eq [symmetric])
  moreover have "n div 256 div 256 div 256 mod 256 = n div 256 div 256 div 256"
    using n by (intro mod_pos_pos_trivial) (auto simp: zdiv_zmult2_eq [symmetric])
  ultimately show "le_int (pack_u32le n) = n"
    by (simp add: pack_u32le_def bval_word_of_int)
qed

lemma length_pack_u32le [simp]: "length (pack_u32le n) = 4"
  by (simp add: pack_u32le_def)

lemma length_classic_header [simp]: "length (classic_header s) = 24"
  by (simp add: classic_header_def pack_half_def)

lemma u32le_at: "length pre = i \<Longrightarrow> length x = 4 \<Longrightarrow> u32le (pre @ x @ post) i = le_int x"
  by (auto simp: u32le_def bslice_def)

text \<open>The header is the one of a little-endian microsecond capture; its record length must be in bounds.\<close>

abbreviation classic_format :: "int \<Rightarrow> pcap_format" where
  "classic_format s \<equiv> \<lparr>pf_order = LittleEndian, pf_divisor = 1, pf_snaplen = s, pf_linktype = 1\<rparr>"

lemma classic_header_read:
  assumes "0 \<le> s" "s \<le> 0xffffffff"
  shows "pcap_header (classic_header s) =
    (if 0 < s \<and> s \<le> int LIMIT then Inr (classic_format s)
     else fail ''PCAP2.4 Ethernet or plain IEEE802.11 layout required'')"
proof -
  let ?s = "if s = 0 then 0xffffffff else s"
  let ?front = "pack_u32le 0xa1b2c3d4 @ pack_half 2 @ pack_half 4 @ pack_u32le 0 @ pack_u32le 0"
  have f: "length ?front = 16" by (simp add: pack_half_def)
  have h: "classic_header s = ?front @ pack_u32le ?s @ pack_u32le 1" by (simp add: classic_header_def)
  have sn: "u32le (classic_header s) 16 = ?s"
    using u32le_at [OF f, of "pack_u32le ?s"] le_int_pack_u32le [of ?s] assms by (simp add: h)
  have lt: "u32le (classic_header s) 20 = 1"
    using u32le_at [of "?front @ pack_u32le ?s" 20 "pack_u32le 1" "[]"] le_int_pack_u32le [of 1] f by (simp add: h)
  have "bslice (classic_header s) 0 4 = [0xd4, 0xc3, 0xb2, 0xa1]"
    by (simp add: classic_header_def bslice_def pack_u32le_def)
  moreover have "u16le (classic_header s) 4 = 2" "u16le (classic_header s) 6 = 4"
    by (simp_all add: classic_header_def u16le_def bslice_def pack_u32le_def pack_half_def bval_def)
  ultimately show ?thesis
    using sn lt by (simp add: pcap_header_def pcap_magic_def LIMIT_def)
qed

definition record_ok :: "int \<Rightarrow> ng_seen \<Rightarrow> bool" where
  "record_ok snaplen s \<longleftrightarrow> 0 \<le> sn_micros s \<and> sn_micros s < 2 ^ 32 * 1000000 \<and>
     eb_caplen (sn_block s) = length (eb_pkt_data (sn_block s)) \<and>
     eb_pkt_len (sn_block s) = eb_caplen (sn_block s) \<and> int (eb_caplen (sn_block s)) \<le> snaplen"

lemma seen_record_header:
  assumes "record_ok snaplen s" "snaplen < 2 ^ 32" "length (eb_pkt_data (sn_block s)) + 16 \<le> available"
  shows "pcap_record_header (bslice (seen_record s) 0 16) (classic_format snaplen) (int available - 16)
    = Inr (sn_micros s * 1000, eb_caplen (sn_block s))"
proof -
  let ?t = "sn_micros s" and ?b = "sn_block s"
  define h where "h = pack_u32le (?t div 1000000) @ pack_u32le (?t mod 1000000) @ pack_u32le (int (eb_caplen ?b)) @ pack_u32le (int (eb_pkt_len ?b))"
  have h: "bslice (seen_record s) 0 16 = h" by (simp add: h_def seen_record_def classic_record_def bslice_def)
  have b: "0 \<le> ?t div 1000000" "?t div 1000000 < 2 ^ 32" "0 \<le> ?t mod 1000000" "?t mod 1000000 < 1000000"
    "int (eb_caplen ?b) < 2 ^ 32" "int (eb_pkt_len ?b) = int (eb_caplen ?b)" using assms by (auto simp: record_ok_def)
  have "u32le h 0 = ?t div 1000000"
    using u32le_at [of "[]" 0 "pack_u32le (?t div 1000000)"] le_int_pack_u32le [OF b(1,2)] by (simp add: h_def)
  moreover have "u32le h 4 = ?t mod 1000000"
    using u32le_at [of "pack_u32le (?t div 1000000)" 4 "pack_u32le (?t mod 1000000)"] le_int_pack_u32le [of "?t mod 1000000"] b
    by (simp add: h_def)
  moreover have "u32le h 8 = int (eb_caplen ?b)"
    using u32le_at [of "pack_u32le (?t div 1000000) @ pack_u32le (?t mod 1000000)" 8 "pack_u32le (int (eb_caplen ?b))"]
      le_int_pack_u32le [of "int (eb_caplen ?b)"] b by (simp add: h_def)
  moreover have "u32le h 12 = int (eb_pkt_len ?b)"
    using u32le_at [of "pack_u32le (?t div 1000000) @ pack_u32le (?t mod 1000000) @ pack_u32le (int (eb_caplen ?b))" 12
        "pack_u32le (int (eb_pkt_len ?b))" "[]"] le_int_pack_u32le [of "int (eb_pkt_len ?b)"] b by (simp add: h_def)
  moreover have "?t div 1000000 * 1000000000 + ?t mod 1000000 * 1000 = ?t * 1000"
    using div_mult_mod_eq [of ?t 1000000] by linarith
  moreover have "length h = 16" by (simp add: h_def)
  moreover have "int (eb_caplen ?b) \<le> snaplen" "int (eb_caplen ?b) \<le> int available - 16"
    using assms(1,3) by (auto simp: record_ok_def)
  ultimately show ?thesis
    using b(4,6) unfolding h by (simp add: pcap_record_header_def Let_def)
qed

fun classic_entries :: "nat \<Rightarrow> ng_seen list \<Rightarrow> pcap_entry list" where
  "classic_entries off [] = []"
| "classic_entries off (s # seen) =
     (let stop = off + (16 + eb_caplen (sn_block s))
      in \<lparr>entry_start = off, entry_stop = stop, entry_ns = sn_micros s * 1000\<rparr> # classic_entries stop seen)"

lemma classic_entries_ns: "map (\<lambda>e. entry_ns e div 1000) (classic_entries off seen) = map sn_micros seen"
  by (induction seen arbitrary: off) (simp_all add: Let_def)

lemma classic_walk:
  assumes "\<forall>s \<in> set seen. record_ok snaplen s" "snaplen < 2 ^ 32"
  shows "pcap_walk (classic_format snaplen) (pre @ concat (map seen_record seen)) (length pre)
      = (classic_entries (length pre) seen, None) \<and>
    map (\<lambda>e. bslice (pre @ concat (map seen_record seen)) (entry_start e + 16) (entry_stop e)) (classic_entries (length pre) seen)
      = map (\<lambda>s. eb_pkt_data (sn_block s)) seen"
  using assms
proof (induction seen arbitrary: pre)
  case Nil
  then show ?case by (simp add: pcap_walk.simps)
next
  case (Cons s seen)
  let ?data = "pre @ concat (map seen_record (s # seen))" and ?b = "sn_block s"
  have len: "length (seen_record s) = 16 + eb_caplen ?b" using Cons.prems(1)
    by (simp add: seen_record_def classic_record_def record_ok_def)
  have body: "drop 16 (seen_record s) = eb_pkt_data ?b" by (simp add: seen_record_def classic_record_def)
  have "bslice ?data (length pre) (length pre + 16) = bslice (seen_record s) 0 16"
    using len by (simp add: bslice_def)
  then have step: "pcap_step (classic_format snaplen) ?data (length pre) () = Inr \<lparr>entry_start = length pre,
      entry_stop = length pre + (16 + eb_caplen ?b), entry_ns = sn_micros s * 1000\<rparr>"
    using seen_record_header [of snaplen s "length ?data - length pre"] Cons.prems len
    by (simp add: pcap_step_def record_ok_def del: of_nat_add) (simp add: algebra_simps)
  have more: "?data = (pre @ seen_record s) @ concat (map seen_record seen)"
    and off: "length (pre @ seen_record s) = length pre + (16 + eb_caplen ?b)" using len by simp_all
  note ih = Cons.IH [of "pre @ seen_record s", unfolded off]
  have "length pre < length ?data" using len by simp
  then have "pcap_walk (classic_format snaplen) ?data (length pre) = (classic_entries (length pre) (s # seen), None)"
    using ih Cons.prems step by (subst pcap_walk.simps) (simp add: yield_then_def Let_def)
  moreover have "bslice ?data (length pre + 16) (length pre + (16 + eb_caplen ?b)) = eb_pkt_data ?b"
    using body len Cons.prems(1) by (simp add: bslice_def add.commute record_ok_def)
  ultimately show ?case using ih Cons.prems by (simp add: Let_def)
qed

section \<open>Properties\<close>

text \<open>C33. Qualification selects exactly the packets of the interval. The source is a section block of version 1.0 in the
  byte order its mark declares, and one Ethernet interface block, which give the snapshot length, the ticks of a second and
  the time offset, followed by packet blocks without a gap. Every packet block, selected or not, passed all checks: it has
  the packet block type and its own length, a multiple of four, it belongs to interface 0, its packet is whole and
  within the snapshot length, the padding behind the packet is zero and the options behind it are well framed; and it has
  the exact capture time its ticks stand for, one the classic format can hold. The rows are those of the blocks inside the
  interval, in order, with their ordinals and offsets in the whole source, and the counts of the window add up.\<close>

theorem pcapng_selects_interval:
  assumes "qualify_stream ng source start_us stop_us = Inr (derived, prov)"
    and "window_of start_us stop_us = Inr window"
  shows "\<exists>snaplen start seen. np_snaplen prov = Some snaplen \<and> ng_endian (bslice source 8 12) = Some (np_byte_order prov) \<and>
    (\<exists>sec ifc. take start source = sec @ ifc \<and> section_checked ng (np_byte_order prov) sec \<and>
      interface_checked ng (np_byte_order prov) snaplen (np_divisor prov) (np_time_offset prov) ifc) \<and>
    start \<le> length source \<and> drop start source = concat (map sn_raw seen) \<and> blocks_at start seen \<and>
    list_all (\<lambda>s. (sn_micros s - np_time_offset prov * 1000000) * np_divisor prov = ticks_of (sn_block s) * 1000000 \<and>
      0 \<le> sn_micros s \<and> sn_micros s < 2 ^ 32 * 1000000 \<and>
      ng_packet_block ng (np_byte_order prov) (sn_raw s) = Inr (sn_block s) \<and>
      packet_checked ng (np_byte_order prov) snaplen (sn_raw s) (sn_block s)) seen \<and>
    np_packets prov = saved_rows window 0 seen \<and>
    derived = classic_header snaplen @ concat (map seen_record (filter (seen_in window) seen)) \<and>
    (window \<noteq> None \<longrightarrow> sorted (map sn_micros seen)) \<and>
    (\<forall>w. np_window prov = Some w \<longrightarrow> nw_selected_packets w = length (np_packets prov) \<and>
      nw_selected_packets w + nw_excluded_packets w = length seen \<and> nw_original_packets w = length seen \<and>
      nw_original_bytes w = length source \<and> nw_original_sha256 w = sha256_ref source)"
proof (rule qualify_stream_Inr [OF assms])
  fix snaplen start seen st
  assume r: "np_snaplen prov = Some snaplen" "np_divisor prov = q_divisor st" "np_time_offset prov = q_time_offset st"
    "start \<le> length source" "drop start source = concat (map sn_raw seen)" "blocks_at start seen"
    "np_packets prov = saved_rows window 0 seen"
    "derived = classic_header snaplen @ concat (map seen_record (filter (seen_in window) seen))"
    "window \<noteq> None \<longrightarrow> sorted (map sn_micros seen)"
    and q: "\<forall>s \<in> set seen. packet_qualified ng (np_byte_order prov) (sn_raw s) st = Inr (sn_block s, sn_micros s)"
    and w: "np_window prov = map_option (\<lambda>(a, b). \<lparr>nw_start_us = a, nw_stop_us = b,
       nw_original_packets = length seen, nw_selected_packets = length (filter (seen_in window) seen),
       nw_excluded_packets = length seen - length (filter (seen_in window) seen),
       nw_original_bytes = length source, nw_original_sha256 = sha256_ref source\<rparr>) window"
    and c: "\<forall>s \<in> set seen. packet_checked ng (np_byte_order prov) snaplen (sn_raw s) (sn_block s)"
    and head: "ng_endian (bslice source 8 12) = Some (np_byte_order prov)"
      "\<exists>sec ifc. take start source = sec @ ifc \<and> section_checked ng (np_byte_order prov) sec \<and>
        interface_checked ng (np_byte_order prov) snaplen (np_divisor prov) (np_time_offset prov) ifc"
  have "list_all (\<lambda>s. (sn_micros s - np_time_offset prov * 1000000) * np_divisor prov = ticks_of (sn_block s) * 1000000 \<and>
      0 \<le> sn_micros s \<and> sn_micros s < 2 ^ 32 * 1000000 \<and>
      ng_packet_block ng (np_byte_order prov) (sn_raw s) = Inr (sn_block s) \<and>
      packet_checked ng (np_byte_order prov) snaplen (sn_raw s) (sn_block s)) seen"
    unfolding list_all_iff r(2,3) using q c qualified_micros qualified_block by blast
  moreover have "\<forall>v. np_window prov = Some v \<longrightarrow> nw_selected_packets v = length (np_packets prov) \<and>
      nw_selected_packets v + nw_excluded_packets v = length seen \<and> nw_original_packets v = length seen \<and>
      nw_original_bytes v = length source \<and> nw_original_sha256 v = sha256_ref source"
    unfolding w r(7) by (auto simp: length_saved_rows)
  ultimately show ?thesis using r(1,4-9) head by blast
qed

text \<open>
  The documented layout of an enhanced packet block: the packet data start at byte 28.
\<close>

definition packet_layout :: "dpkt_ng \<Rightarrow> bool" where
  "packet_layout ng \<longleftrightarrow> (\<forall>endian raw block. ng_packet_block ng endian raw = Inr block \<longrightarrow>
     eb_pkt_data block = bslice raw 28 (28 + eb_caplen block))"

lemma blocks_at_slices:
  assumes "blocks_at start seen" "drop start source = concat (map sn_raw seen)" "s \<in> set seen"
  shows "sn_raw s = bslice source (sn_offset s) (sn_offset s + length (sn_raw s))"
  using assms
proof (induction seen arbitrary: start)
  case (Cons x seen)
  have "drop (start + length (sn_raw x)) source = drop (length (sn_raw x)) (drop start source)" by (simp add: add.commute)
  also have "\<dots> = concat (map sn_raw seen)" using Cons.prems(2) by simp
  finally have rest: "drop (start + length (sn_raw x)) source = concat (map sn_raw seen)" .
  show ?case
  proof (cases "s = x")
    case True
    then show ?thesis using Cons.prems(1,2) by (simp add: bslice_def)
  next
    case False
    then show ?thesis using Cons.IH [OF _ rest] Cons.prems(1,3) by simp
  qed
qed simp

lemma saved_rows_bodies:
  assumes "\<And>s. s \<in> set seen \<Longrightarrow> f (sn_offset s) (eb_caplen (sn_block s)) = eb_pkt_data (sn_block s)"
  shows "map (\<lambda>p. f (ns_block_byte_offset p) (ns_captured_length p)) (saved_rows window i seen)
    = map (\<lambda>s. eb_pkt_data (sn_block s)) (filter (seen_in window) seen)"
  using assms by (induction seen arbitrary: i) (auto simp: saved_row_def)

lemma derived_read:
  assumes "qualify_stream ng source start_us stop_us = Inr (derived, prov)"
    and "np_snaplen prov = Some snaplen" "0 < snaplen" "snaplen \<le> int LIMIT"
  shows "read_pcap_records derived = Inr (1, map ns_capture_time_us (np_packets prov)) \<and>
    (packet_layout ng \<longrightarrow> packet_bodies derived = (map (\<lambda>p. bslice source (ns_block_byte_offset p + 28)
      (ns_block_byte_offset p + 28 + ns_captured_length p)) (np_packets prov), None))"
proof -
  from assms(1) obtain window where win: "window_of start_us stop_us = Inr window"
    by (auto simp: qualify_stream_def result_simps)
  show ?thesis
  proof (rule qualify_stream_Inr [OF assms(1) win])
    fix s' start seen st
    assume r: "np_snaplen prov = Some s'" "q_snaplen st = Some s'" "start \<le> length source"
      "drop start source = concat (map sn_raw seen)" "blocks_at start seen" "np_packets prov = saved_rows window 0 seen"
      "derived = classic_header s' @ concat (map seen_record (filter (seen_in window) seen))" "length derived \<le> LIMIT"
      and q: "\<forall>s \<in> set seen. packet_qualified ng (np_byte_order prov) (sn_raw s) st = Inr (sn_block s, sn_micros s)"
    have s': "s' = snaplen" "snaplen < 2 ^ 32" using r(1) assms(2,4) by (simp_all add: LIMIT_def)
    let ?chosen = "filter (seen_in window) seen"
    have "\<forall>s \<in> set ?chosen. record_ok snaplen s"
      using q qualified_micros assms(3) r(2) by (fastforce simp: record_ok_def s'(1))
    from classic_walk [OF this s'(2), of "classic_header snaplen"]
    have walk: "pcap_walk (classic_format snaplen) derived 24 = (classic_entries 24 ?chosen, None)"
      "map (\<lambda>e. bslice derived (entry_start e + 16) (entry_stop e)) (classic_entries 24 ?chosen)
        = map (\<lambda>s. eb_pkt_data (sn_block s)) ?chosen" by (simp_all add: r(7) s'(1))
    have hd: "bslice derived 0 24 = classic_header snaplen" by (simp add: r(7) s'(1) bslice_def)
    have hdr: "pcap_header (bslice derived 0 24) = Inr (classic_format snaplen)"
      using classic_header_read [of snaplen] assms(3,4) s'(2) by (simp add: hd)
    have "read_pcap_records derived = Inr (1, map (\<lambda>e. entry_ns e div 1000) (classic_entries 24 ?chosen))"
      using walk(1) hdr r(7,8) by (simp add: read_pcap_records_def gen_list_def)
    moreover have "packet_bodies derived = (map (\<lambda>s. eb_pkt_data (sn_block s)) ?chosen, None)"
      using walk hdr by (simp add: packet_bodies_def)
    moreover have "map (\<lambda>p. bslice source (ns_block_byte_offset p + 28)
        (ns_block_byte_offset p + 28 + ns_captured_length p)) (np_packets prov) = map (\<lambda>s. eb_pkt_data (sn_block s)) ?chosen"
      if layout: "packet_layout ng"
    proof (unfold r(6), rule saved_rows_bodies)
      fix s assume s: "s \<in> set seen"
      let ?b = "sn_block s" and ?o = "sn_offset s"
      have b: "eb_pkt_data ?b = bslice (sn_raw s) 28 (28 + eb_caplen ?b)"
        using q s qualified_block layout unfolding packet_layout_def by blast
      have "eb_caplen ?b = length (eb_pkt_data ?b)" using q s qualified_micros by blast
      with b have "eb_caplen ?b = length (bslice (sn_raw s) 28 (28 + eb_caplen ?b))" by (simp only:)
      then have "eb_caplen ?b = 0 \<or> 28 + eb_caplen ?b \<le> length (sn_raw s)"
        unfolding length_bslice by linarith
      then show "bslice source (?o + 28) (?o + 28 + eb_caplen ?b) = eb_pkt_data ?b"
        using b blocks_at_slices [OF r(5,4) s] bslice_bslice [of "28 + eb_caplen ?b" "?o + length (sn_raw s)" ?o source 28]
        by (auto simp: add.assoc)
    qed
    ultimately show ?thesis by (simp add: classic_entries_ns r(6) saved_rows_times)
  qed
qed

text \<open>C34. When the interface declares a snapshot length the classic reader allows, the derived bytes are a capture
  that reader accepts: an Ethernet capture whose clock readings are exactly the capture times of the saved rows, and
  whose packet bodies are the bytes of the source that each row points at.\<close>

theorem pcapng_derived_reads:
  assumes "qualify_stream ng source start_us stop_us = Inr (derived, prov)"
    and "np_snaplen prov = Some snaplen" "0 < snaplen" "snaplen \<le> int LIMIT" and "packet_layout ng"
  shows "read_pcap_records derived = Inr (1, map ns_capture_time_us (np_packets prov)) \<and>
    packet_bodies derived = (map (\<lambda>p. bslice source (ns_block_byte_offset p + 28)
      (ns_block_byte_offset p + 28 + ns_captured_length p)) (np_packets prov), None)"
  using derived_read [OF assms(1-4)] assms(5) by blast

section \<open>A capture with two packets\<close>

text \<open>The block layouts of the format, as an instance of the parameter.\<close>

definition standard_ng :: dpkt_ng where
  "standard_ng = \<lparr>ng_bt_shb = 0x0A0D0D0A, ng_bt_idb = 1, ng_bt_epb = 6,
     ng_section_block = (\<lambda>endian raw. Inr \<lparr>sb_v_major = u16 endian raw 12, sb_v_minor = u16 endian raw 14,
       sb_sec_len = order_sint endian (bslice raw 16 24), sb_opts = []\<rparr>),
     ng_interface_block = (\<lambda>endian raw. Inr \<lparr>ib_linktype = u16 endian raw 8, ib_reserved = u16 endian raw 10,
       ib_snaplen = u32 endian raw 12, ib_opts = []\<rparr>),
     ng_packet_block = (\<lambda>endian raw. let n = nat (u32 endian raw 20) in
       Inr \<lparr>eb_iface_id = u32 endian raw 8, eb_ts_high = u32 endian raw 12, eb_ts_low = u32 endian raw 16,
         eb_caplen = n, eb_pkt_len = nat (u32 endian raw 24), eb_pkt_data = bslice raw 28 (28 + n), eb_opts = []\<rparr>)\<rparr>"

definition sample_ng_head :: "byte \<Rightarrow> bytes" where
  "sample_ng_head snap =
    [0x0a, 0x0d, 0x0d, 0x0a, 28, 0, 0, 0, 0x4d, 0x3c, 0x2b, 0x1a, 1, 0, 0, 0,
     0xff, 0xff, 0xff, 0xff, 0xff, 0xff, 0xff, 0xff, 28, 0, 0, 0,
     1, 0, 0, 0, 20, 0, 0, 0, 1, 0, 0, 0, snap, 0, 0, 0, 20, 0, 0, 0]"

definition sample_ng :: bytes where
  "sample_ng = sample_ng_head 64 @
    [6, 0, 0, 0, 36, 0, 0, 0, 0, 0, 0, 0, 0, 0, 0, 0, 5, 0, 0, 0, 1, 0, 0, 0, 1, 0, 0, 0, 0xAA, 0, 0, 0, 36, 0, 0, 0,
     6, 0, 0, 0, 36, 0, 0, 0, 0, 0, 0, 0, 0, 0, 0, 0, 9, 0, 0, 0, 2, 0, 0, 0, 2, 0, 0, 0, 0xBB, 0xCC, 0, 0, 36, 0, 0, 0]"

lemmas ng_eval = qualify_stream_def window_of_def ng_read_def ng_endian_def ng_loop.simps ng_block_def expected_kind_def
  section_block_def interface_block_def packet_block_def packet_qualified_def micros_of_def ticks_of_def in_interval_def
  options_def option_loop.simps padded4_def order_sint_def be_sint_def be_int_def u16le_def u32le_def bslice_def bval_def
  ng_start_def standard_ng_def classic_record_def LIMIT_def SOURCE_LIMIT_def PACKET_LIMIT_def Let_def

lemma sample_ng_qualified:
  "\<exists>derived prov. qualify_stream standard_ng sample_ng (Some 9) (Some 10) = Inr (derived, prov) \<and>
    np_snaplen prov = Some 64 \<and> map ns_capture_time_us (np_packets prov) = [9] \<and>
    map ns_packet_index (np_packets prov) = [1]"
  unfolding sample_ng_def sample_ng_head_def by (simp add: ng_eval)

lemma standard_ng_layout: "packet_layout standard_ng"
  by (simp add: packet_layout_def standard_ng_def Let_def)

theorem pcapng_selects_interval_witness:
  "\<exists>derived prov start seen. qualify_stream standard_ng sample_ng (Some 9) (Some 10) = Inr (derived, prov) \<and>
    map ns_packet_index (np_packets prov) = [1] \<and> drop start sample_ng = concat (map sn_raw seen) \<and>
    np_packets prov = saved_rows (Some (9, 10)) 0 seen \<and> sorted (map sn_micros seen)"
proof -
  obtain derived prov where q: "qualify_stream standard_ng sample_ng (Some 9) (Some 10) = Inr (derived, prov)"
    "map ns_packet_index (np_packets prov) = [1]" by (rule exE [OF sample_ng_qualified]) auto
  have "window_of (Some 9) (Some 10) = Inr (Some (9, 10))" by (simp add: window_of_def)
  from pcapng_selects_interval [OF q(1) this] obtain start :: nat and seen where
    "drop start sample_ng = concat (map sn_raw seen)" "np_packets prov = saved_rows (Some (9, 10)) 0 seen"
    "Some (9 :: int, 10 :: int) \<noteq> None \<longrightarrow> sorted (map sn_micros seen)" by (elim exE conjE) (rule that)
  with q show ?thesis by (intro exI conjI) auto
qed

theorem pcapng_derived_reads_witness:
  "\<exists>derived prov. qualify_stream standard_ng sample_ng (Some 9) (Some 10) = Inr (derived, prov) \<and>
    read_pcap_records derived = Inr (1, [9])"
proof -
  obtain derived prov where q: "qualify_stream standard_ng sample_ng (Some 9) (Some 10) = Inr (derived, prov)"
    "np_snaplen prov = Some 64" "map ns_capture_time_us (np_packets prov) = [9]" by (rule exE [OF sample_ng_qualified]) auto
  from pcapng_derived_reads [OF q(1,2) _ _ standard_ng_layout] q show ?thesis by (simp add: LIMIT_def)
qed

end
