(* ===== verification/Double_Values.thy ===== *)
theory Double_Values
  imports Complex_Main Py_Double
begin

text \<open>
  What the float operations of \<^verbatim>\<open>Py_Double\<close> mean as real numbers: the comparison is the one of the
  values, rounding is exact on the numbers of the format and never off by more than half of the
  last bit otherwise.
\<close>

fun val_of :: "pyfloat \<Rightarrow> real" where
  "val_of (Fin s m e) = (if s then - 1 else 1) * real m * 2 powi e"
| "val_of x = 0"

section \<open>Scaling\<close>

lemma scale2_value:
  assumes "scale2 n d e = (a, b)" "0 < d"
  shows "0 < b" "real a / real b = real n / real d * 2 powi e"
  using assms by (auto simp: scale2_def power_int_def field_simps split: if_splits)

lemma bit_len_bounds: "n < 2 ^ bit_len n \<and> (0 < n \<longrightarrow> 2 ^ bit_len n \<le> 2 * n)"
proof (induction n rule: less_induct)
  case (less n)
  show ?case
  proof (cases "n = 0")
    case False
    with less [of "n div 2"] have "n div 2 < 2 ^ bit_len (n div 2)"
      "0 < n div 2 \<longrightarrow> 2 ^ bit_len (n div 2) \<le> 2 * (n div 2)" by auto
    moreover have "bit_len n = Suc (bit_len (n div 2))" using False by (subst bit_len.simps) simp
    moreover have "n = 1 \<Longrightarrow> bit_len (n div 2) = 0" by (simp add: bit_len.simps)
    ultimately show ?thesis using False by (cases "n = 1") auto
  qed (simp add: bit_len.simps)
qed

lemma bit_len_quotient:
  assumes "0 < n" "0 < d"
  shows "2 powi (int (bit_len n) - int (bit_len d) - 1) < real n / real d"
    "real n / real d < 2 powi (int (bit_len n) - int (bit_len d) + 1)"
proof -
  have n: "real n < 2 ^ bit_len n" "2 ^ bit_len n \<le> 2 * real n"
    and d: "real d < 2 ^ bit_len d" "2 ^ bit_len d \<le> 2 * real d"
    using bit_len_bounds [of n] bit_len_bounds [of d] assms
    by (simp_all flip: of_nat_less_iff of_nat_le_iff [where 'a = real])
  have p: "2 powi (int (bit_len n) - int (bit_len d)) = (2 ^ bit_len n / 2 ^ bit_len d :: real)"
    by (simp add: power_int_diff)
  have "real n / real d \<ge> (2 ^ bit_len n / 2) / real d" using n assms by (intro divide_right_mono) auto
  moreover have "(2 ^ bit_len n / 2) / real d > (2 ^ bit_len n / 2) / 2 ^ bit_len d"
    using d assms by (intro divide_strict_left_mono) auto
  ultimately show "2 powi (int (bit_len n) - int (bit_len d) - 1) < real n / real d"
    unfolding power_int_diff [of 2, simplified] using p by (simp add: power_int_diff)
  have "real n / real d < 2 ^ bit_len n / real d" using n assms by (intro divide_strict_right_mono) auto
  also have "\<dots> \<le> 2 ^ bit_len n / (2 ^ bit_len d / 2)" using d assms by (intro divide_left_mono) auto
  finally show "real n / real d < 2 powi (int (bit_len n) - int (bit_len d) + 1)"
    using p by (simp add: power_int_add)
qed

section \<open>Rounding\<close>

lemma last_bit_lower:
  assumes "0 < n" "0 < d" "last_bit fmt n d \<noteq> ff_low fmt" "0 < ff_bits fmt"
  shows "2 ^ (ff_bits fmt - 1) * 2 powi (last_bit fmt n d) \<le> real n / real d"
proof -
  let ?b = "2 ^ (ff_bits fmt - 1) :: real"
  define s0 where "s0 = int (ff_bits fmt) - 1 - (int (bit_len n) - int (bit_len d))"
  obtain n0 d0 where sc: "scale2 n d s0 = (n0, d0)" by fastforce
  note v = scale2_value [OF sc assms(2)]
  have b: "?b = 2 powi (int (ff_bits fmt) - 1)" using assms(4) by (simp add: power_int_def nat_diff_distrib)
  have lb: "last_bit fmt n d = - (if n0 < d0 * 2 ^ (ff_bits fmt - 1) then s0 + 1 else s0)"
    using assms(3) by (auto simp: last_bit_def s0_def [symmetric] sc Let_def max_def split: if_splits)
  show ?thesis
  proof (cases "n0 < d0 * 2 ^ (ff_bits fmt - 1)")
    case True
    then have "?b * 2 powi (last_bit fmt n d) = 2 powi (int (bit_len n) - int (bit_len d) - 1)"
      unfolding b lb by (simp flip: power_int_add) (simp add: s0_def)
    then show ?thesis using bit_len_quotient(1) [OF assms(1,2)] by simp
  next
    case False
    then have "real (d0 * 2 ^ (ff_bits fmt - 1)) \<le> real n0" by (simp del: of_nat_mult of_nat_power)
    then have "?b \<le> real n0 / real d0" using v(1) by (simp add: field_simps)
    then have "?b \<le> real n / real d * 2 powi s0" using v(2) by simp
    moreover have "last_bit fmt n d = - s0" using False lb by simp
    ultimately show ?thesis by (simp add: power_int_minus field_simps)
  qed
qed

lemma last_bit_upper:
  assumes "0 < n" "0 < d" "0 < ff_bits fmt"
  shows "real n / real d < 2 ^ ff_bits fmt * 2 powi (last_bit fmt n d)"
proof -
  define s0 where "s0 = int (ff_bits fmt) - 1 - (int (bit_len n) - int (bit_len d))"
  obtain n0 d0 where sc: "scale2 n d s0 = (n0, d0)" by fastforce
  note v = scale2_value [OF sc assms(2)]
  let ?s = "if n0 < d0 * 2 ^ (ff_bits fmt - 1) then s0 + 1 else s0"
  have "real n / real d < 2 ^ ff_bits fmt * 2 powi (- ?s)"
  proof (cases "n0 < d0 * 2 ^ (ff_bits fmt - 1)")
    case True
    then have "real n0 < real (d0 * 2 ^ (ff_bits fmt - 1))" by (simp only: of_nat_less_iff)
    then have "real n0 / real d0 < 2 ^ (ff_bits fmt - 1)" using v(1) by (simp add: field_simps)
    then have "real n / real d * 2 powi s0 < 2 ^ (ff_bits fmt - 1)" using v(2) by simp
    moreover have "(2 :: real) powi s0 * (2 * 2 powi (- (s0 + 1))) = 1"
      unfolding power_int_minus by (simp add: power_int_add)
    moreover have "x < B * (2 * Q)" if "x * P < B" "P * (2 * Q) = 1" "0 < Q" for x P B Q :: real
    proof -
      have "x = x * P * (2 * Q)" using that(2) by (simp add: mult.assoc)
      also have "\<dots> < B * (2 * Q)" using that by (intro mult_strict_right_mono) auto
      finally show ?thesis .
    qed
    ultimately have "real n / real d < 2 ^ (ff_bits fmt - 1) * (2 * 2 powi (- (s0 + 1)))" by simp
    moreover have "(2 :: real) ^ ff_bits fmt = 2 ^ (ff_bits fmt - 1) * 2" using assms(3) by (cases "ff_bits fmt") auto
    ultimately show ?thesis using True by (simp only: mult.assoc if_True)
  next
    case False
    have "(2 :: real) ^ ff_bits fmt * 2 powi (- s0) = 2 powi (int (ff_bits fmt) - s0)"
      by (simp add: power_int_diff power_int_minus field_simps)
    with False show ?thesis using bit_len_quotient(2) [OF assms(1,2)] by (simp add: s0_def algebra_simps)
  qed
  also have "\<dots> \<le> 2 ^ ff_bits fmt * 2 powi (last_bit fmt n d)"
    by (intro mult_left_mono power_int_increasing) (auto simp: last_bit_def s0_def [symmetric] sc Let_def)
  finally show ?thesis .
qed

lemma round_half_even_near:
  assumes "0 < d"
  shows "\<bar>real (round_half_even n d) - real n / real d\<bar> \<le> 1 / 2"
    "n mod d = 0 \<Longrightarrow> round_half_even n d = n div d"
proof -
  have n: "real n = real (n div d) * real d + real (n mod d)"
    by (metis div_mult_mod_eq of_nat_add of_nat_mult)
  have "2 * real (n mod d) \<le> real d" if "\<not> d < 2 * (n mod d)" using that by linarith
  moreover have "real d \<le> 2 * real (n mod d)" if "\<not> 2 * (n mod d) < d" using that by linarith
  moreover have "real (n mod d) < real d" using assms by simp
  ultimately show "\<bar>real (round_half_even n d) - real n / real d\<bar> \<le> 1 / 2"
    using assms by (subst n) (auto simp: round_half_even_def Let_def abs_le_iff field_simps)
  show "n mod d = 0 \<Longrightarrow> round_half_even n d = n div d"
    using assms by (simp add: round_half_even_def)
qed

lemma round_to_near:
  assumes "0 < n" "0 < d" "0 < ff_bits fmt"
  shows "\<exists>q. \<bar>real q * 2 powi (last_bit fmt n d) - real n / real d\<bar> \<le> 2 powi (last_bit fmt n d) / 2 \<and>
    (round_to fmt s n d = Infinite s \<or>
      val_of (round_to fmt s n d) = (if s then - 1 else 1) * (real q * 2 powi (last_bit fmt n d))) \<and>
    (\<forall>k. real n / real d = real k * 2 powi (last_bit fmt n d) \<longrightarrow> q = k) \<and>
    round_to fmt s n d =
      (if ff_high fmt < (if q = 2 ^ ff_bits fmt then last_bit fmt n d + 1 else last_bit fmt n d) then Infinite s
       else if q = 2 ^ ff_bits fmt then Fin s (2 ^ (ff_bits fmt - 1)) (last_bit fmt n d + 1)
       else Fin s q (last_bit fmt n d))"
proof -
  let ?e = "last_bit fmt n d"
  obtain n1 d1 where sc: "scale2 n d (- ?e) = (n1, d1)" by fastforce
  note v = scale2_value [OF sc assms(2)]
  let ?q = "round_half_even n1 d1"
  have "\<bar>real ?q - real n / real d * 2 powi - ?e\<bar> \<le> 1 / 2" using round_half_even_near(1) [OF v(1)] v(2) by metis
  then have "\<bar>real ?q - real n / real d * 2 powi - ?e\<bar> * 2 powi ?e \<le> 1 / 2 * 2 powi ?e"
    by (intro mult_right_mono) auto
  also have "\<bar>real ?q - real n / real d * 2 powi - ?e\<bar> * 2 powi ?e = \<bar>(real ?q - real n / real d * 2 powi - ?e) * 2 powi ?e\<bar>"
    by (simp add: abs_mult)
  also have "(real ?q - real n / real d * 2 powi - ?e) * 2 powi ?e = real ?q * 2 powi ?e - real n / real d"
    by (simp add: power_int_minus field_simps)
  finally have near: "\<bar>real ?q * 2 powi ?e - real n / real d\<bar> \<le> 2 powi ?e / 2" by simp
  have r: "round_to fmt s n d = (if ff_high fmt < (if ?q = 2 ^ ff_bits fmt then ?e + 1 else ?e) then Infinite s
       else if ?q = 2 ^ ff_bits fmt then Fin s (2 ^ (ff_bits fmt - 1)) (?e + 1) else Fin s ?q ?e)"
    using assms(1) by (simp add: round_to_def sc Let_def)
  have pw: "(2 :: real) ^ (ff_bits fmt - 1) * 2 powi (?e + 1) = 2 ^ ff_bits fmt * 2 powi ?e"
    using assms(3) by (cases "ff_bits fmt") (simp_all add: power_int_add)
  have val: "round_to fmt s n d = Infinite s \<or> val_of (round_to fmt s n d) = (if s then - 1 else 1) * (real ?q * 2 powi ?e)"
    unfolding r using pw by (auto simp: mult.assoc)
  have "?q = k" if "real n / real d = real k * 2 powi ?e" for k
  proof -
    have "real n1 / real d1 = real k" using v(2) that by (simp add: power_int_minus field_simps)
    then have "real n1 = real (k * d1)" using v(1) by (simp add: field_simps)
    then have "n1 = k * d1" by (simp only: of_nat_eq_iff)
    then show ?thesis using v(1) round_half_even_near(2) [OF v(1), of n1] by simp
  qed
  with near val r show ?thesis by blast
qed

text \<open>A number of the format is its own rounding.\<close>

lemma round_to_exact:
  assumes "0 < d" "0 < ff_bits fmt" "real n / real d = real m * 2 powi e"
    and "m < 2 ^ ff_bits fmt" "ff_low fmt \<le> e" "e \<le> ff_high fmt"
  shows "val_of (round_to fmt s n d) = (if s then - 1 else 1) * (real m * 2 powi e) \<and> is_finite (round_to fmt s n d)"
proof (cases "n = 0")
  case True
  with assms(1,3) have "m = 0" by simp
  with True show ?thesis by (simp add: round_to_def)
next
  case False
  then have n: "0 < n" by simp
  have m: "0 < m" using assms(1,3) n by (cases m) auto
  let ?e = "last_bit fmt n d"
  have le: "?e \<le> e"
  proof (rule ccontr)
    assume "\<not> ?e \<le> e"
    then have gt: "e + 1 \<le> ?e" by simp
    with assms(5) have "2 ^ (ff_bits fmt - 1) * 2 powi ?e \<le> real m * 2 powi e"
      using last_bit_lower [OF n assms(1) _ assms(2)] assms(3) by simp
    moreover have "(2 :: real) powi (e + 1) \<le> 2 powi ?e" using gt by (intro power_int_increasing) auto
    ultimately have "2 ^ (ff_bits fmt - 1) * 2 powi (e + 1) \<le> real m * 2 powi e"
      by (smt (verit) mult_left_mono zero_le_power)
    then have "2 ^ (ff_bits fmt - 1) * 2 \<le> real m" by (simp add: power_int_add)
    then have "2 ^ ff_bits fmt \<le> real m" using assms(2) by (cases "ff_bits fmt") auto
    moreover have "real m < real (2 ^ ff_bits fmt)" using assms(4) by (simp only: of_nat_less_iff)
    ultimately show False by simp
  qed
  let ?k = "m * 2 ^ nat (e - ?e)"
  have k: "real n / real d = real ?k * 2 powi ?e"
  proof -
    have "(2 :: real) powi (e - ?e) = 2 ^ nat (e - ?e)" using le by (simp add: power_int_def)
    moreover have "(2 :: real) powi e = 2 powi (e - ?e) * 2 powi ?e" by (simp flip: power_int_add)
    ultimately show ?thesis using assms(3) by simp
  qed
  obtain q where "real n / real d = real ?k * 2 powi ?e \<longrightarrow> q = ?k"
    and q: "round_to fmt s n d = Infinite s \<or> val_of (round_to fmt s n d) = (if s then - 1 else 1) * (real q * 2 powi ?e)"
    "round_to fmt s n d = (if ff_high fmt < (if q = 2 ^ ff_bits fmt then ?e + 1 else ?e) then Infinite s
       else if q = 2 ^ ff_bits fmt then Fin s (2 ^ (ff_bits fmt - 1)) (?e + 1) else Fin s q ?e)"
    using round_to_near [OF n assms(1,2), of s] by blast
  with k have qk: "q = ?k" by blast
  have "?e + 1 \<le> e" if "q = 2 ^ ff_bits fmt"
    using that qk assms(4) le by (cases "?e = e") auto
  then have "\<not> ff_high fmt < (if q = 2 ^ ff_bits fmt then ?e + 1 else ?e)" using le assms(6) by auto
  with q(2) have fin: "is_finite (round_to fmt s n d)" by simp
  with q(1) have "val_of (round_to fmt s n d) = (if s then - 1 else 1) * (real q * 2 powi ?e)" by auto
  moreover have "real q * 2 powi ?e = real m * 2 powi e" using k qk assms(3) by (simp only:)
  ultimately show ?thesis using fin by (simp only: simp_thms)
qed

section \<open>Operations\<close>

lemma units_value: "b \<le> e \<Longrightarrow> real_of_int (fl_units b s m e) * 2 powi b = val_of (Fin s m e)"
proof -
  assume b: "b \<le> e"
  then have "(2 :: real) ^ nat (e - b) = 2 powi (e - b)" by (simp add: power_int_def)
  moreover have "(2 :: real) powi (e - b) * 2 powi b = 2 powi e" by (simp flip: power_int_add)
  ultimately have "(2 :: real) ^ nat (e - b) * 2 powi b = 2 powi e" by simp
  then show ?thesis by (simp add: fl_units_def mult.assoc)
qed

lemma fl_less_value: "is_finite x \<Longrightarrow> is_finite y \<Longrightarrow> fl_less x y \<longleftrightarrow> val_of x < val_of y"
proof (induction x y rule: fl_less.induct)
  case (1 s m e t n f)
  let ?b = "min e f"
  have "val_of (Fin s m e) < val_of (Fin t n f) \<longleftrightarrow>
      real_of_int (fl_units ?b s m e) * 2 powi ?b < real_of_int (fl_units ?b t n f) * 2 powi ?b"
    by (simp only: units_value min.cobounded1 min.cobounded2)
  also have "\<dots> \<longleftrightarrow> fl_units ?b s m e < fl_units ?b t n f"
    by (subst mult_less_cancel_right_pos) simp_all
  finally show ?case by (simp add: Let_def)
qed auto

text \<open>The numbers of the binary64 format.\<close>

fun in_binary64 :: "pyfloat \<Rightarrow> bool" where
  "in_binary64 (Fin s m e) \<longleftrightarrow> m < 2 ^ 53 \<and> - 1074 \<le> e \<and> e \<le> 971"
| "in_binary64 x = True"

lemma float_of_bits_range:
  assumes "- 1074 \<le> low" "low + 2 ^ ebits - 3 \<le> 971" "mbits < 53" "1 < ebits"
  shows "in_binary64 (float_of_bits ebits mbits low n)"
proof -
  define ex where "ex = n div 2 ^ mbits mod 2 ^ ebits"
  have ex: "0 \<le> ex" "ex < 2 ^ ebits" by (simp_all add: ex_def)
  have "nat (n mod 2 ^ mbits) < 2 ^ mbits" by (simp add: nat_less_iff)
  moreover have "(2 :: nat) ^ mbits \<le> 2 ^ 52" using assms(3) by (intro power_increasing) auto
  ultimately have "2 ^ mbits + nat (n mod 2 ^ mbits) < 2 ^ 52 + 2 ^ 52" "nat (n mod 2 ^ mbits) < 2 ^ 52"
    by linarith+
  then have "2 ^ mbits + nat (n mod 2 ^ mbits) < 2 ^ 53" "nat (n mod 2 ^ mbits) < 2 ^ 53" by simp_all
  moreover have "low \<le> 971" using assms(2,4) power_increasing [of 2 ebits "2 :: int"] by simp
  ultimately show ?thesis using assms(1,2) ex by (auto simp: float_of_bits_def ex_def [symmetric] Let_def)
qed

lemma f64_range: "in_binary64 (f64 order data i)"
  unfolding f64_def by (rule float_of_bits_range) simp_all

lemma f32_range: "in_binary64 (f32 order data i)"
  unfolding f32_def by (rule float_of_bits_range) simp_all

lemma round_to_range: "0 < d \<Longrightarrow> in_binary64 (fl_round s n d)"
proof (cases "n = 0")
  case False
  assume d: "0 < d"
  let ?e = "last_bit binary64 n d"
  have up: "real n / real d < 2 ^ 53 * 2 powi ?e"
    using last_bit_upper [of n d binary64] False d by (simp add: binary64_def)
  obtain q where q: "\<bar>real q * 2 powi ?e - real n / real d\<bar> \<le> 2 powi ?e / 2"
    and r: "fl_round s n d = (if ff_high binary64 < (if q = 2 ^ ff_bits binary64 then ?e + 1 else ?e) then Infinite s
       else if q = 2 ^ ff_bits binary64 then Fin s (2 ^ (ff_bits binary64 - 1)) (?e + 1) else Fin s q ?e)"
    using round_to_near [of n d binary64 s] False d by (auto simp: binary64_def)
  have "real q * 2 powi ?e < (2 ^ 53 + 1 / 2) * 2 powi ?e"
    using q up unfolding distrib_right abs_le_iff by linarith
  then have "real q < 2 ^ 53 + 1 / 2" by (subst (asm) mult_less_cancel_right_pos) simp_all
  then have "real q < real (2 ^ 53 + 1)" by simp
  then have "q \<le> 2 ^ 53" unfolding of_nat_less_iff by simp
  moreover have "- 1074 \<le> ?e" by (simp add: last_bit_def binary64_def Let_def split: prod.split)
  ultimately show ?thesis using r by (auto simp: binary64_def)
qed (simp add: round_to_def binary64_def)

text \<open>A product with one and a sum with zero leave the value as it is.\<close>

lemma fl_mul_one:
  assumes "in_binary64 (Fin s m e)"
  shows "val_of (fl_mul (Fin s m e) (fl_int 1)) = val_of (Fin s m e) \<and> is_finite (fl_mul (Fin s m e) (fl_int 1))
    \<and> in_binary64 (fl_mul (Fin s m e) (fl_int 1))"
proof -
  obtain a b where ab: "scale2 m 1 e = (a, b)" by fastforce
  have b: "0 < b" "real a / real b = real m * 2 powi e" using scale2_value [OF ab] by simp_all
  have "fl_mul (Fin s m e) (fl_int 1) = fl_round s a b" by (simp add: fl_int_def ab [simplified])
  with round_to_exact [of b binary64 a m e s] round_to_range [of b s a] assms b show ?thesis
    by (simp add: binary64_def)
qed

lemma fl_add_zero:
  assumes "in_binary64 (Fin s m e)"
  shows "val_of (fl_add (Fin s m e) (fl_int 0)) = val_of (Fin s m e) \<and> is_finite (fl_add (Fin s m e) (fl_int 0))"
proof (cases "m = 0")
  case True
  then show ?thesis by (simp add: fl_int_def fl_units_def)
next
  case False
  let ?b = "min e 0"
  have u: "fl_units ?b s m e \<noteq> 0" "fl_units ?b s m e < 0 \<longleftrightarrow> s" using False by (auto simp: fl_units_def mult_less_0_iff)
  have i: "nat \<bar>fl_units ?b s m e\<bar> = m * 2 ^ nat (e - ?b)" by (simp add: fl_units_def abs_mult nat_mult_distrib nat_power_eq)
  obtain a d where ad: "scale2 (nat \<bar>fl_units ?b s m e\<bar>) 1 ?b = (a, d)" by fastforce
  have "0 < d" "real a / real d = real (m * 2 ^ nat (e - ?b)) * 2 powi ?b" using scale2_value [OF ad] i by simp_all
  moreover have "real (m * 2 ^ nat (e - ?b)) * 2 powi ?b = real m * 2 powi e"
    using units_value [of ?b e False m] by (simp add: fl_units_def)
  ultimately show ?thesis
    using round_to_exact [of d binary64 a m e s] assms u ad by (simp add: fl_int_def binary64_def fl_units_def [of _ _ 0])
qed

section \<open>The text\<close>

text \<open>The text of a number has few characters, none of which needs quotes.\<close>

definition float_chars :: "char set" where
  "float_chars = set ''0123456789.e+-infa''"

lemma nat_digits_chars: "set (nat_digits n) \<subseteq> float_chars"
proof (induction n rule: nat_digits.induct)
  case (1 n)
  have "char_of (48 + k) \<in> float_chars" if "k < 10" for k :: nat
  proof -
    have "list_all (\<lambda>k. char_of (48 + k :: nat) \<in> float_chars) [0..<10]" unfolding float_chars_def by code_simp
    then show ?thesis using that by (simp only: list_all_iff set_upt) simp
  qed
  then show ?case using 1 by (subst nat_digits.simps) auto
qed

lemma nat_digits_count: "n < 2 ^ k \<Longrightarrow> length (nat_digits n) \<le> k + 1"
proof (induction n arbitrary: k rule: nat_digits.induct)
  case (1 n)
  show ?case
  proof (cases "n < 10")
    case False
    then obtain j where k: "k = Suc j" using 1(2) by (cases k) auto
    have "n div 10 < 2 ^ j" using 1(2) k by auto
    with 1(1) [OF False, of j] False k show ?thesis by (subst nat_digits.simps) simp
  qed (simp add: nat_digits.simps)
qed

lemma exponent_text_bounds:
  "set (exponent_text e) \<subseteq> float_chars \<and> length (exponent_text e) \<le> nat \<bar>e\<bar> + 4"
proof -
  have "nat \<bar>e\<bar> < 2 ^ nat \<bar>e\<bar>" by (rule less_exp)
  from nat_digits_count [OF this] nat_digits_chars [of "nat \<bar>e\<bar>"] show ?thesis
    by (auto simp: exponent_text_def Let_def float_chars_def)
qed

lemma format_repr_bounds:
  assumes "set ds \<subseteq> float_chars"
  shows "set (format_repr ds p) \<subseteq> float_chars" "length (format_repr ds p) \<le> length ds + 2 * nat \<bar>p\<bar> + 10"
proof -
  have c: "CHR ''0'' \<in> float_chars" "CHR ''.'' \<in> float_chars" "CHR ''e'' \<in> float_chars" by (simp_all add: float_chars_def)
  have part: "set (take k ds) \<subseteq> float_chars" "set (drop k ds) \<subseteq> float_chars" for k
    using assms by (meson order_trans set_take_subset set_drop_subset)+
  have "set (replicate k CHR ''0'') \<subseteq> float_chars" for k using c by (auto simp: set_replicate_conv_if)
  with c part assms exponent_text_bounds [of "p - 1"] show "set (format_repr ds p) \<subseteq> float_chars"
    unfolding format_repr_def Let_def
    by (simp only: set_append list.set Un_subset_iff insert_subset empty_subsetI simp_thms split: if_split)
  have e: "length (exponent_text (p - 1)) \<le> nat \<bar>p\<bar> + 5" using exponent_text_bounds [of "p - 1"] by linarith
  show "length (format_repr ds p) \<le> length ds + 2 * nat \<bar>p\<bar> + 10"
  proof (cases "- 4 < p \<and> p \<le> 16")
    case True
    then show ?thesis by (cases "p \<le> 0"; cases "int (length ds) \<le> p") (simp_all add: format_repr_def)
  next
    case False
    have "length (take 1 ds) + length (drop 1 ds) = length ds" by simp
    with False e show ?thesis unfolding format_repr_def Let_def if_not_P [OF False]
      by (cases "int (length ds) = 1") (simp_all del: length_take length_drop)
  qed
qed

lemma first_some_Some: "first_some f xs = Some (x, y) \<Longrightarrow> x \<in> set xs \<and> f x = Some y"
  by (induction xs) (auto split: option.splits)

lemma strip_zeros_bounds: "set (strip_zeros s) \<subseteq> set s \<and> length (strip_zeros s) \<le> length s"
  using set_dropWhileD [of _ "\<lambda>c. c = CHR ''0''" "rev s"] length_dropWhile_le [of "\<lambda>c. c = CHR ''0''" "rev s"]
  by (auto simp: strip_zeros_def)

lemma power_step: "c \<le> 2 ^ (1024 + k) + 1 \<Longrightarrow> c < (2 :: nat) ^ Suc (1024 + k)"
proof -
  have "(2 :: nat) ^ 1 \<le> 2 ^ (1024 + k)" by (rule power_increasing) simp_all
  then show "c \<le> 2 ^ (1024 + k) + 1 \<Longrightarrow> c < (2 :: nat) ^ Suc (1024 + k)" unfolding power_Suc power_one_right by linarith
qed

lemma positive_repr_bounds:
  assumes "m < 2 ^ 53" "- 1074 \<le> e" "e \<le> 971"
  shows "set (positive_repr m e) \<subseteq> float_chars \<and> length (positive_repr m e) \<le> 19000"
proof -
  obtain n d where nd: "scale2 m 1 e = (n, d)" by fastforce
  have "m * 2 ^ nat e < 2 ^ 53 * 2 ^ 971"
    using assms by (intro mult_less_le_imp_less power_increasing) auto
  then have n: "n < 2 ^ 1024" using nd assms(1)
    by (auto simp: scale2_def power_add [symmetric] split: if_splits intro: order_less_le_trans)
  have "(2 :: nat) ^ nat (- e) \<le> 2 ^ 1074" using assms(2) by (intro power_increasing) auto
  then have d: "d \<le> 2 ^ 1074" using nd by (auto simp: scale2_def split: if_splits)
  define p where "p = decimal_point n d"
  have p: "\<bar>p\<bar> \<le> 1075"
  proof (cases "d \<le> n")
    case True
    have "n div d < 2 ^ 1024" using n by (meson div_le_dividend le_less_trans)
    from nat_digits_count [OF this] True show ?thesis by (simp add: p_def decimal_point_def)
  next
    case False
    then have "(d - 1) div n < 2 ^ 1074" using d div_le_dividend [of "d - 1" n] by linarith
    from nat_digits_count [OF this] False show ?thesis by (simp add: p_def decimal_point_def)
  qed
  have eq: "positive_repr m e = (case first_some (repr_at (fl_round False n d) n d p) [1..<18] of None \<Rightarrow> []
      | Some (k, c) \<Rightarrow> format_repr (strip_zeros (nat_digits c)) (p + int (length (nat_digits c)) - int k))"
    by (simp only: positive_repr_def nd Let_def prod.case p_def)
  show ?thesis
  proof (cases "first_some (repr_at (fl_round False n d) n d p) [1..<18]")
    case (Some kc)
    obtain k c where kc: "kc = (k, c)" by fastforce
    from first_some_Some [of _ "[1..<18]" k c] Some kc have k: "k < 18" "repr_at (fl_round False n d) n d p k = Some c" by auto
    obtain n1 d1 where s: "scale10 n d (int k - p) = (n1, d1)" by fastforce
    have c: "c \<le> n1 div d1 + 1" using k(2) s by (auto simp: repr_at_def Let_def split: if_splits)
    have "n1 div d1 \<le> n1" by simp
    also have "n1 \<le> n * 10 ^ 1092"
    proof -
      have "(10 :: nat) ^ nat (int k - p) \<le> 10 ^ 1092" using p k(1) by (intro power_increasing) auto
      then have "n * 10 ^ nat (int k - p) \<le> n * 10 ^ 1092" by (rule mult_le_mono2)
      moreover have "n1 \<le> n * 10 ^ nat (int k - p)" using s by (auto simp: scale10_def split: if_splits)
      ultimately show ?thesis by (rule order_trans [rotated])
    qed
    also have "n * 10 ^ 1092 \<le> 2 ^ 1024 * (2 ^ 4) ^ 1092"
      by (rule mult_le_mono [OF less_imp_le [OF n] power_mono]) simp_all
    also have "\<dots> = (2 :: nat) ^ (1024 + 4 * 1092)" by (simp only: power_mult power_add)
    finally have "n1 div d1 + 1 \<le> 2 ^ (1024 + 4 * 1092) + 1" by (rule add_right_mono)
    with c have "c \<le> 2 ^ (1024 + 4 * 1092) + 1" by (rule order_trans)
    then have "c < 2 ^ Suc (1024 + 4 * 1092)" by (rule power_step)
    from nat_digits_count [OF this] have len: "length (nat_digits c) \<le> 5394" by simp
    define ds where "ds = strip_zeros (nat_digits c)"
    have ds: "set ds \<subseteq> float_chars" "length ds \<le> 5394"
      using strip_zeros_bounds [of "nat_digits c"] nat_digits_chars [of c] len by (auto simp: ds_def)
    let ?p = "p + int (length (nat_digits c)) - int k"
    have "nat \<bar>?p\<bar> \<le> 6490" using p len k(1) by linarith
    with format_repr_bounds [OF ds(1), of ?p] ds(2)
    have "set (format_repr ds ?p) \<subseteq> float_chars \<and> length (format_repr ds ?p) \<le> 19000" by linarith
    then show ?thesis unfolding eq Some kc by (simp add: ds_def)
  qed (simp add: eq)
qed

lemma float_repr_bounds: "in_binary64 x \<Longrightarrow> set (float_repr x) \<subseteq> float_chars \<and> length (float_repr x) \<le> 20000"
proof (cases x)
  case (Fin s m e)
  assume "in_binary64 x"
  with Fin positive_repr_bounds [of m e] show ?thesis by (auto simp: float_chars_def)
qed (auto simp: float_chars_def)

end
