(* ===== verification/Imc_Frames.thy ===== *)
theory Imc_Frames
  imports Datagrams Py_Csv Double_Values
begin

text \<open>
  The IMC decoder of \<^verbatim>\<open>scripts/convert_imc_sensors.py\<close>: the frame header, the CRC-16, the walk over a
  stream of frames, the quantities of the selected messages (scalar sensors, vectors, velocities and
  estimated states) and \<^verbatim>\<open>convert\<close>, which writes one row per selected frame and retains every other one.
\<close>

section \<open>The selected messages\<close>

text \<open>A scalar sensor: its \<^verbatim>\<open>struct\<close> code is \<^verbatim>\<open>d\<close> or \<^verbatim>\<open>f\<close>; its value is scaled and shifted.\<close>

record sensor =
  sr_double :: bool
  sr_field :: string
  sr_scale :: int
  sr_bias :: pyfloat

abbreviation f_sensor :: "string \<Rightarrow> sensor" where
  "f_sensor field \<equiv> \<lparr>sr_double = False, sr_field = field, sr_scale = 1, sr_bias = fl_int 0\<rparr>"

definition SENSORS :: "(int \<times> sensor) list" where
  "SENSORS =
    [(263, \<lparr>sr_double = False, sr_field = ''temperature_k'', sr_scale = 1, sr_bias = fl_round False 27315 100\<rparr>),
     (264, \<lparr>sr_double = True, sr_field = ''external_pressure_pa'', sr_scale = 100, sr_bias = fl_int 0\<rparr>),
     (265, f_sensor ''depth_m''), (267, f_sensor ''sound_speed_m_s''), (268, f_sensor ''water_density_kg_m3''),
     (270, f_sensor ''salinity_psu''), (251, f_sensor ''electrical_voltage_v''),
     (252, f_sensor ''electrical_current_a''), (364, f_sensor ''electrical_power_w'')]"

definition VECTORS :: "(int \<times> string list) list" where
  "VECTORS =
    [(256, map (\<lambda>a. ''reported_angular_velocity_'' @ a @ ''_rad_s'') [''x'', ''y'', ''z'']),
     (257, map (\<lambda>a. ''reported_acceleration_'' @ a @ ''_m_s2'') [''x'', ''y'', ''z''])]"

definition VELOCITY_BITS :: "(string \<times> int) list" where
  "VELOCITY_BITS = [(''x'', 1), (''y'', 2), (''z'', 4)]"

text \<open>A velocity message: the prefixes of its value and disposition columns, and its reference.\<close>

type_synonym velocity_names = "string \<times> string \<times> string"

definition VELOCITIES :: "(int \<times> velocity_names) list" where
  "VELOCITIES = [(259, (''reported_ground_velocity_'', ''ground_velocity_'',
     ''REPORTED_RELATIVE_TO_GROUND_AXIS_FRAME_UNSPECIFIED_BY_MESSAGE_SCHEMA''))]"

definition WATER_VELOCITY :: velocity_names where
  "WATER_VELOCITY = (''reported_water_velocity_'', ''water_velocity_'',
     ''REPORTED_RELATIVE_TO_WATER_AXIS_FRAME_UNSPECIFIED_BY_MESSAGE_SCHEMA'')"

definition VELOCITY_BASIS :: "string list" where
  "VELOCITY_BASIS = [''velocity_validity_mask_reported'', ''velocity_unknown_validity_bits'', ''velocity_reference_basis'']"

definition value_column :: "velocity_names \<Rightarrow> string \<Rightarrow> string" where
  "value_column v axis = fst v @ axis @ ''_m_s''"

definition disposition_column :: "velocity_names \<Rightarrow> string \<Rightarrow> string" where
  "disposition_column v axis = fst (snd v) @ axis @ ''_disposition''"

definition velocity_columns :: "velocity_names \<Rightarrow> string list" where
  "velocity_columns v =
     map (\<lambda>(axis, _). value_column v axis) VELOCITY_BITS @ map (\<lambda>(axis, _). disposition_column v axis) VELOCITY_BITS"

definition NEPTUS_SCHEMA :: string where "NEPTUS_SCHEMA = ''neptus-2019.10.1-sensors''"

definition NEPTUS_SENSORS :: "int list" where
  "NEPTUS_SENSORS = [251, 252, 256, 257, 259, 263, 264, 265, 267, 268]"

definition ESTIMATED_FIELDS :: "string list" where
  "ESTIMATED_FIELDS =
    [''estimated_origin_latitude_rad'', ''estimated_origin_longitude_rad'',
     ''estimated_origin_height_ellipsoid_m'',
     ''estimated_offset_north_m'', ''estimated_offset_east_m'', ''estimated_offset_down_m'',
     ''estimated_phi_rad'', ''estimated_theta_rad'', ''estimated_psi_rad'',
     ''estimated_body_u_m_s'', ''estimated_body_v_m_s'', ''estimated_body_w_m_s'',
     ''estimated_ground_north_m_s'', ''estimated_ground_east_m_s'', ''estimated_ground_down_m_s'',
     ''estimated_body_p_rad_s'', ''estimated_body_q_rad_s'', ''estimated_body_r_rad_s'',
     ''estimated_depth_m'', ''estimated_altitude_m'']"

definition ESTIMATED_EXTRA :: "string list" where
  "ESTIMATED_EXTRA =
    [''estimated_depth_raw_m'', ''estimated_altitude_raw_m'',
     ''estimated_depth_disposition'', ''estimated_altitude_disposition'', ''estimated_state_basis'']"

text \<open>The options of a conversion; \<^verbatim>\<open>schema\<close> is \<^verbatim>\<open>None\<close> or a text.\<close>

record imc_options =
  io_allow_no_selected :: bool
  io_schema :: "string option"
  io_water_velocity :: bool
  io_estimated_state :: bool

definition estimated_selection :: "bool \<Rightarrow> string option \<Rightarrow> unit result" where
  "estimated_selection enabled schema =
     (if schema \<notin> {None, Some NEPTUS_SCHEMA}
      then fail ''estimated state requires boolean selection and qualified IMC schema'' else Inr ())"

section \<open>Frames\<close>

text \<open>The loop of \<^verbatim>\<open>crc16\<close> keeps its value within 16 bits.\<close>

definition crc16_bit :: "16 word \<Rightarrow> 16 word" where
  "crc16_bit v = (drop_bit 1 v) XOR (if odd v then 0xA001 else 0)"

definition crc16_byte :: "16 word \<Rightarrow> byte \<Rightarrow> 16 word" where
  "crc16_byte v b = (crc16_bit ^^ 8) (v XOR ucast b)"

definition crc16 :: "bytes \<Rightarrow> 16 word" where
  "crc16 data = foldl crc16_byte 0 data"

record imc_head =
  ih_order :: byte_order
  ih_message :: int
  ih_size :: nat
  ih_timestamp :: pyfloat
  ih_source :: int
  ih_entity :: int

text \<open>\<^verbatim>\<open>x <= y\<close>: false when one of them is not a number.\<close>

definition fl_le :: "pyfloat \<Rightarrow> pyfloat \<Rightarrow> bool" where
  "fl_le x y \<longleftrightarrow> x \<noteq> NotANumber \<and> y \<noteq> NotANumber \<and> \<not> fl_less y x"

definition record_micros :: "pyfloat \<Rightarrow> pyfloat" where
  "record_micros timestamp = fl_mul timestamp (fl_int (10 ^ 6))"

definition imc_order :: "bytes \<Rightarrow> byte_order option" where
  "imc_order prefix =
     (if prefix = [0x54, 0xfe] then Some LittleEndian else if prefix = [0xfe, 0x54] then Some BigEndian else None)"

definition imc_header :: "bytes \<Rightarrow> imc_head result" where
  "imc_header header =
     (if length header \<noteq> 20 then fail ''truncated IMC header/footer''
      else case imc_order (bslice header 0 2) of
          None \<Rightarrow> fail ''unsupported IMC synchronization/version''
        | Some order \<Rightarrow>
            let timestamp = f64 order header 6 in
            if \<not> is_finite timestamp \<or> \<not> (fl_le (fl_int 0) (record_micros timestamp)
                 \<and> fl_less (record_micros timestamp) (fl_int (2 ^ 63)))
            then fail ''invalid dispatcher timestamp''
            else Inr \<lparr>ih_order = order, ih_message = u16 order header 2, ih_size = nat (u16 order header 4),
              ih_timestamp = timestamp, ih_source = u16 order header 14, ih_entity = bval (header ! 16)\<rparr>)"

record imc_frame =
  if_start :: nat
  if_stop :: nat
  if_head :: imc_head
  if_bytes :: bytes

definition frame_payload :: "imc_frame \<Rightarrow> bytes" where
  "frame_payload f = bslice (if_bytes f) 20 (length (if_bytes f) - 2)"

text \<open>One frame at an offset, after a frame of the given time.\<close>

definition imc_step :: "bytes \<Rightarrow> nat \<Rightarrow> pyfloat option \<Rightarrow> imc_frame result" where
  "imc_step data offset previous =
     (if length data - offset < 22 then fail ''truncated IMC header/footer''
      else rbind (imc_header (bslice data offset (offset + 20))) (\<lambda>h.
        let stop = offset + 20 + ih_size h + 2 in
        if stop > length data then fail ''truncated IMC payload''
        else let frame = bslice data offset stop in
          if uint (crc16 (take (length frame - 2) frame)) \<noteq> u16 (ih_order h) frame (length frame - 2)
          then fail ''invalid IMC CRC''
          else if (case previous of None \<Rightarrow> False | Some p \<Rightarrow> fl_less (ih_timestamp h) p)
          then fail ''decreasing dispatcher timestamp; split source streams explicitly''
          else Inr \<lparr>if_start = offset, if_stop = stop, if_head = h, if_bytes = frame\<rparr>))"

lemma imc_step_Inr:
  assumes "imc_step data offset previous = Inr f"
  shows "if_start f = offset" "if_stop f = offset + ih_size (if_head f) + 22" "if_stop f \<le> length data"
    "if_bytes f = bslice data offset (if_stop f)" "imc_header (bslice data offset (offset + 20)) = Inr (if_head f)"
    "uint (crc16 (take (length (if_bytes f) - 2) (if_bytes f)))
      = u16 (ih_order (if_head f)) (if_bytes f) (length (if_bytes f) - 2)"
    "\<forall>p. previous = Some p \<longrightarrow> \<not> fl_less (ih_timestamp (if_head f)) p"
  using assms by (auto simp: imc_step_def Let_def result_simps split: if_splits option.splits)

function imc_walk :: "bytes \<Rightarrow> nat \<Rightarrow> pyfloat option \<Rightarrow> imc_frame gen" where
  "imc_walk data offset previous =
     (if offset < length data
      then case imc_step data offset previous of
          Inl e \<Rightarrow> ([], Some e)
        | Inr f \<Rightarrow> yield_then f (imc_walk data (if_stop f) (Some (ih_timestamp (if_head f))))
      else ([], None))"
  by pat_completeness auto
termination
  by (relation "measure (\<lambda>(data, offset, previous). length data - offset)") (auto dest: imc_step_Inr(2))

declare imc_walk.simps [simp del]

interpretation imc_frames: contiguous_frames imc_step "\<lambda>s f. Some (ih_timestamp (if_head f))" if_start if_stop imc_walk
proof
  show "if_start f = off \<and> off < if_stop f \<and> if_stop f \<le> length raw"
    if "off < length raw" "imc_step raw off s = Inr f" for raw off s f
    using imc_step_Inr [OF that(2)] by simp
  show "imc_walk raw off s = yield_then f (imc_walk raw (if_stop f) (Some (ih_timestamp (if_head f))))"
    if "off < length raw" "imc_step raw off s = Inr f" for raw off s f
    using that by (subst imc_walk.simps) simp
qed (simp_all add: imc_walk.simps)

section \<open>Quantities\<close>

text \<open>\<^verbatim>\<open>math.pi\<close> and \<^verbatim>\<open>math.pi / 2\<close>, and the angle limits by the index of the value.\<close>

definition PI :: pyfloat where "PI = Fin False 7074237752028440 (- 51)"
definition HALF_PI :: pyfloat where "HALF_PI = Fin False 7074237752028440 (- 52)"

text \<open>\<^verbatim>\<open>struct.unpack("<f", struct.pack("<f", limit))\<close>.\<close>

fun to_single :: "pyfloat \<Rightarrow> pyfloat" where
  "to_single (Fin s m e) = (case scale2 m 1 e of (n, d) \<Rightarrow> round_to binary32 s n d)"
| "to_single x = x"

definition angle_limits :: "(nat \<times> pyfloat) list" where
  "angle_limits = [(0, HALF_PI), (1, PI), (6, PI), (7, HALF_PI), (8, PI), (15, PI), (16, PI), (17, PI)]"

definition angle_limit :: "nat \<Rightarrow> pyfloat \<Rightarrow> pyfloat" where
  "angle_limit index limit = (if index \<ge> 2 then to_single limit else limit)"

definition estimated_values :: "byte_order \<Rightarrow> bytes \<Rightarrow> pyfloat list" where
  "estimated_values order payload =
     map (\<lambda>i. f64 order payload (8 * i)) [0..<2] @ map (\<lambda>i. f32 order payload (16 + 4 * i)) [0..<18]"

text \<open>The columns of the depth or the altitude: the raw value, its disposition, and no value when negative.\<close>

definition estimate_disposition :: "string \<Rightarrow> pyfloat \<Rightarrow> row" where
  "estimate_disposition field value =
     (if fl_less value (fl_int 0) then [(''estimated_'' @ field @ ''_m'', CNone)] else [])
       @ [(''estimated_'' @ field @ ''_raw_m'', CFloat value),
          (''estimated_'' @ field @ ''_disposition'',
           CStr (if fl_less value (fl_int 0) then ''WITHHELD_NEGATIVE_INVALID_ESTIMATE'' else ''REPORTED_ESTIMATE''))]"

definition ESTIMATED_BASIS :: string where
  "ESTIMATED_BASIS = ''IMC350_WGS84_ELLIPSOID_ORIGIN_SEPARATE_LOCAL_NED_OFFSETS_BODY_AND_GROUND_VELOCITIES_REPORTED_ESTIMATE_NOT_SURFACE_ANCHOR_OR_PLATFORM_IDENTITY''"

definition estimated_quantities :: "bytes \<Rightarrow> byte_order \<Rightarrow> row result" where
  "estimated_quantities payload order =
     (if length payload \<noteq> 88 then fail ''selected IMC estimated state size mismatch''
      else let values = estimated_values order payload in
        if \<not> list_all is_finite values then fail ''nonfinite IMC estimated state value''
        else if list_ex (\<lambda>(index, limit). fl_less (angle_limit index limit) (fl_abs (values ! index))) angle_limits
        then fail ''IMC estimated state angle exceeds schema bound''
        else Inr (row_update (row_update (row_update (zip ESTIMATED_FIELDS (map CFloat values))
               (estimate_disposition ''depth'' (values ! 18))) (estimate_disposition ''altitude'' (values ! 19)))
               [(''estimated_state_basis'', CStr ESTIMATED_BASIS)]))"

text \<open>What a selected frame contributes to its row, besides the columns of every row.\<close>

record imc_reading =
  ir_quantities :: row
  ir_status :: string

text \<open>One component of a velocity: its bit decides whether the value is reported or withheld.\<close>

definition velocity_component :: "velocity_names \<Rightarrow> int \<Rightarrow> (string \<times> int) \<times> pyfloat \<Rightarrow> row result" where
  "velocity_component v validity c = (case c of ((axis, flag), value) \<Rightarrow>
     let valid = (validity AND flag \<noteq> 0) in
     if valid \<and> \<not> is_finite value then fail ''nonfinite IMC velocity component reported valid''
     else Inr [(value_column v axis, if valid then CFloat value else CNone),
               (disposition_column v axis,
                CStr (if valid then ''REPORTED_VALID'' else ''WITHHELD_COMPONENT_NOT_REPORTED_VALID''))])"

definition velocity_reading :: "velocity_names \<Rightarrow> imc_frame \<Rightarrow> imc_reading result" where
  "velocity_reading v f =
     (if ih_size (if_head f) \<noteq> 25 then fail ''selected IMC velocity size mismatch''
      else let payload = frame_payload f; validity = bval (payload ! 0);
               axes = map (\<lambda>i. f64 (ih_order (if_head f)) payload (1 + 8 * i)) [0..<3] in
        rbind (run_items (\<lambda>q c. rbind (velocity_component v validity c) (\<lambda>r. Inr (row_update q r)))
            [(''velocity_validity_mask_reported'', CInt validity),
             (''velocity_unknown_validity_bits'', CInt (validity AND NOT 7)),
             (''velocity_reference_basis'', CStr (snd (snd v)))] (zip VELOCITY_BITS axes)) (\<lambda>q.
        Inr \<lparr>ir_quantities = q,
          ir_status = (if validity AND 7 \<noteq> 0 then ''REPORTED'' else ''ONLY_WITHHELD_COMPONENTS'')\<rparr>))"

definition vector_reading :: "string list \<Rightarrow> imc_frame \<Rightarrow> imc_reading result" where
  "vector_reading columns f =
     (if ih_size (if_head f) \<noteq> 32 then fail ''selected IMC vector size mismatch''
      else let values = map (\<lambda>i. f64 (ih_order (if_head f)) (frame_payload f) (8 * i)) [0..<4] in
        if \<not> list_all is_finite values then fail ''nonfinite IMC vector value''
        else Inr \<lparr>ir_quantities = row_update (zip columns (map CFloat (tl values)))
            [(''device_time_s'', CStr (float_repr (values ! 0))), (''device_clock_basis'', CStr ''UNSPECIFIED''),
             (''axis_frame_basis'', CStr ''UNSPECIFIED_BY_MESSAGE_SCHEMA'')], ir_status = ''REPORTED''\<rparr>)"

definition sensor_value :: "sensor \<Rightarrow> imc_frame \<Rightarrow> pyfloat" where
  "sensor_value s f =
     (if sr_double s then f64 (ih_order (if_head f)) (frame_payload f) 0 else f32 (ih_order (if_head f)) (frame_payload f) 0)"

definition normalized_value :: "sensor \<Rightarrow> pyfloat \<Rightarrow> pyfloat" where
  "normalized_value s value = fl_add (fl_mul value (fl_int (sr_scale s))) (sr_bias s)"

definition sensor_reading :: "sensor \<Rightarrow> imc_frame \<Rightarrow> imc_reading result" where
  "sensor_reading s f =
     (if ih_size (if_head f) \<noteq> (if sr_double s then 8 else 4) then fail ''selected IMC payload size mismatch''
      else let value = sensor_value s f; message = ih_message (if_head f) in
        if \<not> is_finite value then fail ''nonfinite IMC sensor value''
        else let missing = (message = 267 \<and> fl_less value (fl_int 0)); normalized = normalized_value s value in
          if \<not> missing \<and> (\<not> is_finite normalized \<or> message = 263 \<and> fl_less normalized (fl_int 0))
          then fail ''invalid normalized sensor quantity''
          else Inr \<lparr>ir_quantities = [(sr_field s, if missing then CNone else CFloat normalized)],
            ir_status = (if missing then ''UNAVAILABLE_SOURCE_SENTINEL'' else ''REPORTED'')\<rparr>)"

definition imc_velocities :: "imc_options \<Rightarrow> (int \<times> velocity_names) list" where
  "imc_velocities opts = VELOCITIES @ (if io_water_velocity opts then [(260, WATER_VELOCITY)] else [])"

definition imc_selected :: "imc_options \<Rightarrow> int \<Rightarrow> bool" where
  "imc_selected opts message \<longleftrightarrow>
     \<not> (message \<notin> fst ` set SENSORS \<and> message \<notin> fst ` set VECTORS \<and> message \<notin> fst ` set (imc_velocities opts)
          \<and> \<not> (io_estimated_state opts \<and> message = 350)
        \<or> io_schema opts = Some NEPTUS_SCHEMA \<and> message \<notin> set NEPTUS_SENSORS
          \<and> \<not> (io_water_velocity opts \<and> message = 260) \<and> \<not> (io_estimated_state opts \<and> message = 350))"

definition imc_reading_of :: "imc_options \<Rightarrow> imc_frame \<Rightarrow> imc_reading result" where
  "imc_reading_of opts f =
     (let message = ih_message (if_head f) in
      if message = 350
      then rbind (estimated_quantities (frame_payload f) (ih_order (if_head f))) (\<lambda>q.
             Inr \<lparr>ir_quantities = q, ir_status = ''REPORTED_ESTIMATE_WITH_PER_FIELD_DISPOSITIONS''\<rparr>)
      else case map_of (imc_velocities opts) message of
          Some v \<Rightarrow> velocity_reading v f
        | None \<Rightarrow> (case map_of VECTORS message of
            Some columns \<Rightarrow> vector_reading columns f
          | None \<Rightarrow> (case map_of SENSORS message of
              Some s \<Rightarrow> sensor_reading s f
            | None \<Rightarrow> Inl KeyError)))"

section \<open>The conversion\<close>

definition imc_columns :: "imc_options \<Rightarrow> string list" where
  "imc_columns opts =
     [''record_time_us'', ''source_timestamp_s'', ''source_id'', ''source_entity'', ''message_id'', ''source_frame_hex'',
      ''measurement_status'', ''device_time_s'', ''device_clock_basis'', ''axis_frame_basis'']
     @ map (\<lambda>(_, s). sr_field s) SENSORS @ concat (map snd VECTORS)
     @ concat (map (\<lambda>(_, v). velocity_columns v) (imc_velocities opts)) @ VELOCITY_BASIS
     @ (if io_estimated_state opts then ESTIMATED_FIELDS @ ESTIMATED_EXTRA else [])"

definition imc_row :: "imc_frame \<Rightarrow> imc_reading \<Rightarrow> row" where
  "imc_row f r = (let h = if_head f in
     row_update
       [(''record_time_us'', CInt (fl_trunc (record_micros (ih_timestamp h)))),
        (''source_timestamp_s'', CStr (float_repr (ih_timestamp h))),
        (''source_id'', CInt (ih_source h)), (''source_entity'', CInt (ih_entity h)),
        (''message_id'', CInt (ih_message h)), (''source_frame_hex'', CStr (''hex:'' @ hex_of (if_bytes f))),
        (''measurement_status'', CStr (ir_status r))] (ir_quantities r))"

text \<open>A frame that is not selected is retained in the report.\<close>

record imc_retained =
  rt_offset :: nat
  rt_message_id :: int
  rt_frame :: bytes

definition retained_json :: "imc_retained \<Rightarrow> json" where
  "retained_json x = JObj [(''offset'', JInt (int (rt_offset x))), (''message_id'', JInt (rt_message_id x)),
     (''frame_hex'', JStr (hex_of (rt_frame x)))]"

definition retained_of :: "imc_frame \<Rightarrow> imc_retained" where
  "retained_of f = \<lparr>rt_offset = if_start f, rt_message_id = ih_message (if_head f), rt_frame = if_bytes f\<rparr>"

text \<open>The report; the fixed text of its clock is left out.\<close>

record imc_report =
  rp_source_frames :: nat
  rp_decoded_frames :: nat
  rp_unsupported_frames :: "imc_retained list"

record imc_state =
  is_rows :: "row list"
  is_report :: imc_report
  is_report_size :: nat

definition imc_start :: imc_state where
  "imc_start = \<lparr>is_rows = [], is_report = \<lparr>rp_source_frames = 0, rp_decoded_frames = 0, rp_unsupported_frames = []\<rparr>,
     is_report_size = 0\<rparr>"

definition imc_retain :: "imc_state \<Rightarrow> imc_frame \<Rightarrow> imc_state result" where
  "imc_retain st f =
     (let kept = retained_of f; n = is_report_size st + length (dumps (retained_json kept)); rep = is_report st in
      if n > LIMIT then fail ''unsupported report exceeds bound''
      else Inr (st\<lparr>is_report := rep\<lparr>rp_source_frames := rp_source_frames rep + 1,
        rp_unsupported_frames := rp_unsupported_frames rep @ [kept]\<rparr>, is_report_size := n\<rparr>))"

definition imc_write :: "imc_options \<Rightarrow> imc_state \<Rightarrow> imc_frame \<Rightarrow> imc_state result" where
  "imc_write opts st f =
     rbind (imc_reading_of opts f) (\<lambda>r.
     rbind (write_row (imc_columns opts) (imc_row f r) (is_rows st)) (\<lambda>rows. let rep = is_report st in
       if length (csv_text (imc_columns opts) rows) > OUTPUT_LIMIT then fail ''converted CSV exceeds bound''
       else Inr (st\<lparr>is_rows := rows, is_report := rep\<lparr>rp_source_frames := rp_source_frames rep + 1,
         rp_decoded_frames := rp_decoded_frames rep + 1\<rparr>\<rparr>)))"

definition imc_take :: "imc_options \<Rightarrow> imc_state \<Rightarrow> imc_frame \<Rightarrow> imc_state result" where
  "imc_take opts st f = (if imc_selected opts (ih_message (if_head f)) then imc_write opts st f else imc_retain st f)"

definition convert_rows :: "imc_options \<Rightarrow> bytes \<Rightarrow> imc_state result" where
  "convert_rows opts data =
     (if io_schema opts \<notin> {None, Some NEPTUS_SCHEMA} then fail ''unqualified IMC schema''
      else rbind (estimated_selection (io_estimated_state opts) (io_schema opts)) (\<lambda>_.
        if data = [] \<or> length data > LIMIT then fail ''empty or oversized IMC stream''
        else rbind (run_gen (imc_take opts) imc_start (imc_walk data 0 None)) (\<lambda>st.
          if rp_decoded_frames (is_report st) = 0 \<and> \<not> io_allow_no_selected opts
          then fail ''no selected IMC sensor reports'' else Inr st)))"

definition convert_imc :: "imc_options \<Rightarrow> bytes \<Rightarrow> (string \<times> imc_report) result" where
  "convert_imc opts data =
     rbind (convert_rows opts data) (\<lambda>st. Inr (csv_text (imc_columns opts) (is_rows st), is_report st))"

section \<open>Every frame is accounted for\<close>

lemma imc_header_Inr:
  assumes "imc_header h = Inr x"
  shows "length h = 20" "imc_order (bslice h 0 2) = Some (ih_order x)" "is_finite (ih_timestamp x)"
    "ih_message x = u16 (ih_order x) h 2" "ih_size x = nat (u16 (ih_order x) h 4)" "ih_timestamp x = f64 (ih_order x) h 6"
    "ih_source x = u16 (ih_order x) h 14" "ih_entity x = bval (h ! 16)"
    "fl_le (fl_int 0) (record_micros (ih_timestamp x))" "fl_less (record_micros (ih_timestamp x)) (fl_int (2 ^ 63))"
  using assms by (auto simp: imc_header_def Let_def split: if_splits option.splits)

text \<open>The times of the frames of a walk never decrease, as numbers.\<close>

lemma imc_walk_ordered:
  "snd (imc_walk data off previous) = None \<Longrightarrow>
    sorted (map (\<lambda>f. val_of (ih_timestamp (if_head f))) (fst (imc_walk data off previous))) \<and>
    (\<forall>p f. previous = Some p \<longrightarrow> is_finite p \<longrightarrow> f \<in> set (fst (imc_walk data off previous)) \<longrightarrow>
      val_of p \<le> val_of (ih_timestamp (if_head f)))"
proof (induction off previous rule: imc_frames.walk_induct [where raw = data])
  case (Step off previous f)
  let ?t = "\<lambda>f. val_of (ih_timestamp (if_head f))"
  have fin: "is_finite (ih_timestamp (if_head f))" using imc_step_Inr(5) [OF Step(2)] by (rule imc_header_Inr(3))
  have "val_of p \<le> ?t f" if "previous = Some p" "is_finite p" for p
    using imc_step_Inr(7) [OF Step(2)] that fl_less_value [OF fin that(2)] by auto
  with Step fin show ?case by (auto simp: imc_frames.walk_step intro: order_trans)
qed (auto simp: imc_frames.walk_end imc_frames.walk_error)

lemma imc_walk_bytes: "f \<in> set (fst (imc_walk data off previous)) \<Longrightarrow> if_bytes f = bslice data (if_start f) (if_stop f)"
  by (drule imc_frames.walk_read) (auto dest: imc_step_Inr(1,4))

definition frame_checked :: "imc_frame \<Rightarrow> bool" where
  "frame_checked f \<longleftrightarrow> imc_header (take 20 (if_bytes f)) = Inr (if_head f) \<and>
     length (if_bytes f) = ih_size (if_head f) + 22 \<and>
     uint (crc16 (take (20 + ih_size (if_head f)) (if_bytes f))) = u16 (ih_order (if_head f)) (if_bytes f) (20 + ih_size (if_head f))"

lemma imc_walk_checked: "f \<in> set (fst (imc_walk data off previous)) \<Longrightarrow> frame_checked f"
proof (drule imc_frames.walk_read, elim exE)
  fix s assume st: "imc_step data (if_start f) s = Inr f"
  note i = imc_step_Inr [OF st]
  have len: "length (if_bytes f) = ih_size (if_head f) + 22" using i(2,3) by (simp add: i(4))
  have "take 20 (if_bytes f) = bslice data (if_start f) (if_start f + 20)"
    using i(2) by (simp add: i(4) bslice_def min_def)
  with i(5,6) len show "frame_checked f" by (simp add: frame_checked_def)
qed

text \<open>What the loop has done with the frames taken so far.\<close>

definition row_of_frame :: "imc_options \<Rightarrow> imc_frame \<Rightarrow> row \<Rightarrow> bool" where
  "row_of_frame opts f r \<longleftrightarrow> (\<exists>q. imc_reading_of opts f = Inr q \<and> r = imc_row f q)"

definition selected_frame :: "imc_options \<Rightarrow> imc_frame \<Rightarrow> bool" where
  "selected_frame opts f = imc_selected opts (ih_message (if_head f))"

definition frames_accounted :: "imc_options \<Rightarrow> imc_frame list \<Rightarrow> imc_state \<Rightarrow> bool" where
  "frames_accounted opts fs st \<longleftrightarrow>
     list_all2 (row_of_frame opts) (filter (selected_frame opts) fs) (is_rows st) \<and>
     rp_unsupported_frames (is_report st) = map retained_of (filter (\<lambda>f. \<not> selected_frame opts f) fs) \<and>
     rp_source_frames (is_report st) = length fs \<and> rp_decoded_frames (is_report st) = length (is_rows st) \<and>
     (\<forall>r \<in> set (is_rows st). row_keys r \<subseteq> set (imc_columns opts))"

lemma imc_take_accounted:
  assumes "frames_accounted opts fs st" "imc_take opts st f = Inr st'"
  shows "frames_accounted opts (fs @ [f]) st'"
proof (cases "selected_frame opts f")
  case True
  with assms(2) have "imc_write opts st f = Inr st'" by (simp add: imc_take_def selected_frame_def)
  then obtain q where "imc_reading_of opts f = Inr q" "row_keys (imc_row f q) \<subseteq> set (imc_columns opts)"
    "is_rows st' = is_rows st @ [imc_row f q]" "rp_source_frames (is_report st') = rp_source_frames (is_report st) + 1"
    "rp_decoded_frames (is_report st') = rp_decoded_frames (is_report st) + 1"
    "rp_unsupported_frames (is_report st') = rp_unsupported_frames (is_report st)"
    by (auto simp: imc_write_def Let_def result_simps)
  with assms(1) True show ?thesis
    by (auto simp: frames_accounted_def row_of_frame_def list_all2_appendI)
next
  case False
  with assms show ?thesis
    by (auto simp: imc_take_def selected_frame_def frames_accounted_def imc_retain_def Let_def split: if_splits)
qed

lemma convert_rows_Inr:
  assumes "convert_rows opts data = Inr st"
  obtains fs where "imc_walk data 0 None = (fs, None)" "frames_accounted opts fs st" "0 < length data" "length data \<le> LIMIT"
    "rp_decoded_frames (is_report st) = 0 \<longrightarrow> io_allow_no_selected opts"
proof -
  from assms obtain fs where fs: "imc_walk data 0 None = (fs, None)" "run_items (imc_take opts) imc_start fs = Inr st"
    and l: "data \<noteq> []" "length data \<le> LIMIT" "rp_decoded_frames (is_report st) = 0 \<longrightarrow> io_allow_no_selected opts"
    by (cases "imc_walk data 0 None") (auto simp: convert_rows_def result_simps split: if_splits)
  have "frames_accounted opts fs st"
  proof (rule run_items_prefix [where I = "frames_accounted opts", OF fs(2)])
    show "frames_accounted opts [] imc_start" by (simp add: frames_accounted_def imc_start_def)
  qed (rule imc_take_accounted)
  with that fs(1) l show thesis by simp
qed

text \<open>C35. A converted IMC stream is a sequence of whole frames that tile its bytes, each with a valid header and CRC,
  with times that never decrease; every selected frame is one row, in order, and every other frame is retained whole
  in the report, so that the counts add up.\<close>

theorem imc_frames_accounted:
  assumes "convert_rows opts data = Inr st"
  shows "\<exists>fs. concat (map if_bytes fs) = data \<and> list_all frame_checked fs \<and>
    sorted (map (\<lambda>f. val_of (ih_timestamp (if_head f))) fs) \<and>
    list_all2 (row_of_frame opts) (filter (selected_frame opts) fs) (is_rows st) \<and>
    rp_unsupported_frames (is_report st) = map retained_of (filter (\<lambda>f. \<not> selected_frame opts f) fs) \<and>
    rp_source_frames (is_report st) = length fs \<and>
    rp_decoded_frames (is_report st) + length (rp_unsupported_frames (is_report st)) = length fs"
proof (rule convert_rows_Inr [OF assms])
  fix fs assume fs: "imc_walk data 0 None = (fs, None)" and acc: "frames_accounted opts fs st"
  have "map if_bytes fs = map (\<lambda>f. bslice data (if_start f) (if_stop f)) fs"
    using imc_walk_bytes [of _ data 0 None] by (simp add: fs)
  then have "concat (map if_bytes fs) = data" using imc_frames.walk_tiles [of data 0 None] by (simp only: fs) simp
  moreover have "list_all frame_checked fs" using imc_walk_checked [of _ data 0 None] by (simp add: fs list_all_iff)
  moreover have "sorted (map (\<lambda>f. val_of (ih_timestamp (if_head f))) fs)" using imc_walk_ordered [of data 0 None] by (simp add: fs)
  moreover have "length (is_rows st) + length (filter (\<lambda>f. \<not> selected_frame opts f) fs) = length fs"
    using acc sum_length_filter_compl [of "selected_frame opts" fs]
    by (auto simp: frames_accounted_def dest: list_all2_lengthD)
  ultimately show ?thesis using acc unfolding frames_accounted_def
    by (intro exI [of _ fs]) auto
qed

end
