(* ===== verification/Imc_Codec.thy ===== *)
theory Imc_Codec
  imports Imc_Frames
begin

text \<open>
  The wire format of IMC frames: an encoder of the fields of a frame, which the walk inverts exactly, and
  what the CRC catches.
\<close>

section \<open>Encoding\<close>

text \<open>The fields of a frame; the time and the destination as the bytes on the wire.\<close>

record imc_fields =
  mf_order :: byte_order
  mf_message :: int
  mf_time :: bytes
  mf_source :: int
  mf_entity :: byte
  mf_destination :: bytes
  mf_payload :: bytes

fun pack16 :: "byte_order \<Rightarrow> int \<Rightarrow> bytes" where
  "pack16 LittleEndian n = [word_of_int n, word_of_int (n div 256)]"
| "pack16 BigEndian n = [word_of_int (n div 256), word_of_int n]"

definition imc_sync :: "byte_order \<Rightarrow> bytes" where
  "imc_sync order = (case order of LittleEndian \<Rightarrow> [0x54, 0xfe] | BigEndian \<Rightarrow> [0xfe, 0x54])"

definition imc_head_bytes :: "imc_fields \<Rightarrow> bytes" where
  "imc_head_bytes m = imc_sync (mf_order m) @ pack16 (mf_order m) (mf_message m)
     @ pack16 (mf_order m) (int (length (mf_payload m))) @ mf_time m @ pack16 (mf_order m) (mf_source m)
     @ [mf_entity m] @ mf_destination m"

definition imc_encode :: "imc_fields \<Rightarrow> bytes" where
  "imc_encode m = (let body = imc_head_bytes m @ mf_payload m in body @ pack16 (mf_order m) (uint (crc16 body)))"

definition fields_time :: "imc_fields \<Rightarrow> pyfloat" where
  "fields_time m = f64 (mf_order m) (mf_time m) 0"

definition imc_well_formed :: "imc_fields \<Rightarrow> bool" where
  "imc_well_formed m \<longleftrightarrow> 0 \<le> mf_message m \<and> mf_message m < 65536 \<and> 0 \<le> mf_source m \<and> mf_source m < 65536 \<and>
     length (mf_time m) = 8 \<and> length (mf_destination m) = 3 \<and> length (mf_payload m) < 65536 \<and>
     is_finite (fields_time m) \<and> fl_le (fl_int 0) (record_micros (fields_time m)) \<and>
     fl_less (record_micros (fields_time m)) (fl_int (2 ^ 63))"

definition fields_head :: "imc_fields \<Rightarrow> imc_head" where
  "fields_head m = \<lparr>ih_order = mf_order m, ih_message = mf_message m, ih_size = length (mf_payload m),
     ih_timestamp = fields_time m, ih_source = mf_source m, ih_entity = bval (mf_entity m)\<rparr>"

definition fields_of :: "imc_frame \<Rightarrow> imc_fields" where
  "fields_of f = (let bs = if_bytes f; h = if_head f in
     \<lparr>mf_order = ih_order h, mf_message = ih_message h, mf_time = bslice bs 6 14, mf_source = ih_source h,
      mf_entity = bs ! 16, mf_destination = bslice bs 17 20, mf_payload = frame_payload f\<rparr>)"

fun times_ordered :: "pyfloat option \<Rightarrow> imc_fields list \<Rightarrow> bool" where
  "times_ordered previous [] = True"
| "times_ordered previous (m # ms) =
     ((case previous of None \<Rightarrow> True | Some p \<Rightarrow> \<not> fl_less (fields_time m) p) \<and> times_ordered (Some (fields_time m)) ms)"

lemma length_pack16 [simp]: "length (pack16 order n) = 2"
  by (cases order) simp_all

lemma length_imc_sync [simp]: "length (imc_sync order) = 2"
  by (cases order) (simp_all add: imc_sync_def)

lemma imc_order_sync [simp]: "imc_order (imc_sync order) = Some order"
  by (cases order) (simp_all add: imc_order_def imc_sync_def)

lemma imc_order_Some: "imc_order x = Some order \<longleftrightarrow> x = imc_sync order"
  by (cases order) (auto simp: imc_order_def imc_sync_def)

lemma u16_pack16:
  assumes "length pre = i" "0 \<le> n" "n < 65536" shows "u16 order (pre @ pack16 order n @ post) i = n"
proof -
  have "n div 256 mod 256 = n div 256" using assms by (intro mod_pos_pos_trivial) auto
  then show ?thesis using assms(1)
    by (cases order) (auto simp: u16le_def u16be_def be_int_def bslice_def bval_word_of_int)
qed

lemma pack16_u16: "i + 2 \<le> length d \<Longrightarrow> pack16 order (u16 order d i) = bslice d i (i + 2)"
proof -
  assume i: "i + 2 \<le> length d"
  let ?a = "d ! i" and ?b = "d ! (i + 1)"
  have "u16le d i = bval ?b * 256 + bval ?a" "u16be d i = bval ?a * 256 + bval ?b"
    unfolding u16le_def u16be_def bslice_2 [OF i] by (simp_all add: be_int_def)
  then show ?thesis
    unfolding bslice_2 [OF i] by (cases order) (simp_all only: u16.simps pack16.simps step_div word_of_step word_of_bval)
qed

section \<open>Reading back what was encoded\<close>

lemma length_imc_head_bytes: "imc_well_formed m \<Longrightarrow> length (imc_head_bytes m) = 20"
  by (simp add: imc_head_bytes_def imc_well_formed_def)

lemma length_imc_encode: "imc_well_formed m \<Longrightarrow> length (imc_encode m) = length (mf_payload m) + 22"
  by (simp add: imc_encode_def Let_def length_imc_head_bytes)

lemma f64_slice: "bslice d i (i + 8) = bslice e j (j + 8) \<Longrightarrow> f64 order d i = f64 order e j"
  by (simp add: f64_def)

lemma imc_head_read:
  assumes "imc_well_formed m"
  shows "imc_header (imc_head_bytes m) = Inr (fields_head m)"
proof -
  let ?h = "imc_head_bytes m" and ?o = "mf_order m"
  note wf = assms [unfolded imc_well_formed_def]
  have sync: "bslice ?h 0 2 = imc_sync ?o" by (simp add: imc_head_bytes_def bslice_def)
  have msg: "u16 ?o ?h 2 = mf_message m"
    using u16_pack16 [of "imc_sync ?o" 2 "mf_message m"] wf by (simp add: imc_head_bytes_def)
  have len: "u16 ?o ?h 4 = int (length (mf_payload m))"
    using u16_pack16 [of "imc_sync ?o @ pack16 ?o (mf_message m)" 4 "int (length (mf_payload m))"] wf
    by (simp add: imc_head_bytes_def)
  have "bslice ?h 6 14 = mf_time m" using wf by (simp add: imc_head_bytes_def bslice_def)
  moreover have "bslice (mf_time m) 0 8 = mf_time m" using wf by (simp add: bslice_def)
  ultimately have time: "f64 ?o ?h 6 = fields_time m" unfolding fields_time_def by (intro f64_slice) simp
  have src: "u16 ?o ?h 14 = mf_source m"
    using u16_pack16 [of "imc_sync ?o @ pack16 ?o (mf_message m) @ pack16 ?o (int (length (mf_payload m))) @ mf_time m" 14
        "mf_source m"] wf by (simp add: imc_head_bytes_def)
  have "?h ! 16 = mf_entity m" using wf by (simp add: imc_head_bytes_def nth_append)
  with sync msg len time src wf show ?thesis
    by (simp add: imc_header_def length_imc_head_bytes [OF assms] fields_head_def Let_def)
qed

lemma imc_encode_read:
  assumes "imc_well_formed m" "\<forall>p. previous = Some p \<longrightarrow> \<not> fl_less (fields_time m) p"
  shows "imc_step (pre @ imc_encode m @ post) (length pre) previous = Inr \<lparr>if_start = length pre,
    if_stop = length pre + length (imc_encode m), if_head = fields_head m, if_bytes = imc_encode m\<rparr>"
proof -
  let ?data = "pre @ imc_encode m @ post" and ?body = "imc_head_bytes m @ mf_payload m"
  note len = length_imc_encode [OF assms(1)]
  have enc: "imc_encode m = ?body @ pack16 (mf_order m) (uint (crc16 ?body))" by (simp add: imc_encode_def Let_def)
  have body: "length ?body = length (imc_encode m) - 2" using len length_imc_head_bytes [OF assms(1)] by simp
  have "bslice ?data (length pre) (length pre + 20) = imc_head_bytes m"
    using length_imc_head_bytes [OF assms(1)] by (simp add: enc bslice_def)
  then have h: "imc_header (bslice ?data (length pre) (length pre + 20)) = Inr (fields_head m)"
    using imc_head_read [OF assms(1)] by simp
  have fr: "bslice ?data (length pre) (length pre + length (imc_encode m)) = imc_encode m" by (simp add: bslice_def)
  have "uint (crc16 ?body) < 65536" using uint_lt2p [of "crc16 ?body"] by simp
  then have crc: "u16 (mf_order m) (imc_encode m) (length (imc_encode m) - 2) = uint (crc16 ?body)"
    using u16_pack16 [of ?body "length (imc_encode m) - 2" "uint (crc16 ?body)" "mf_order m" "[]"] body by (simp add: enc)
  have tk: "take (length (imc_encode m) - 2) (imc_encode m) = ?body" using body by (simp add: enc)
  have stop: "length pre + 20 + ih_size (fields_head m) + 2 = length pre + length (imc_encode m)"
    using len by (simp add: fields_head_def)
  have "\<not> (case previous of None \<Rightarrow> False | Some p \<Rightarrow> fl_less (ih_timestamp (fields_head m)) p)"
    using assms(2) by (auto simp: fields_head_def split: option.split)
  then show ?thesis
    unfolding imc_step_def h rbind_simps stop Let_def fr tk
    using len crc by (simp add: fields_head_def)
qed

text \<open>A checked frame is the encoding of its fields.\<close>

lemma frame_checked_fields:
  assumes "frame_checked f"
  shows "imc_encode (fields_of f) = if_bytes f \<and> imc_well_formed (fields_of f) \<and> fields_head (fields_of f) = if_head f"
proof -
  let ?b = "if_bytes f" and ?m = "fields_of f" and ?n = "ih_size (if_head f)"
  from assms have h: "imc_header (take 20 ?b) = Inr (if_head f)" and len: "length ?b = ?n + 22"
    and crc: "uint (crc16 (take (20 + ?n) ?b)) = u16 (ih_order (if_head f)) ?b (20 + ?n)" by (auto simp: frame_checked_def)
  note i = imc_header_Inr [OF h]
  have sl: "bslice (take 20 ?b) a b = bslice ?b a b" if "b \<le> 20" for a b using that by (simp add: bslice_def drop_take min_def)
  have u: "u16 order (take 20 ?b) a = u16 order ?b a" if "a + 2 \<le> 20" for a order
    using sl [OF that, of a] by (cases order) (simp_all add: u16le_def u16be_def)
  have time: "fields_time ?m = ih_timestamp (if_head f)"
  proof -
    have "bslice (bslice ?b 6 14) 0 (0 + 8) = bslice (take 20 ?b) 6 (6 + 8)"
      using bslice_bslice [of 8 14 6 ?b 0] sl [of 14 6] by simp
    then show ?thesis unfolding fields_time_def i(6) fields_of_def Let_def imc_fields.simps by (rule f64_slice)
  qed
  have pl: "length (mf_payload ?m) = ?n" using len by (simp add: fields_of_def frame_payload_def Let_def)
  have "?n < 65536" using i(5) u16_bounds [of "ih_order (if_head f)" "take 20 ?b" 4] by linarith
  moreover have "length (mf_time ?m) = 8" "length (mf_destination ?m) = 3" using len by (simp_all add: fields_of_def Let_def)
  moreover have "mf_message ?m = u16 (ih_order (if_head f)) (take 20 ?b) 2" "mf_source ?m = u16 (ih_order (if_head f)) (take 20 ?b) 14"
    by (simp_all only: fields_of_def Let_def imc_fields.simps i(4,7))
  ultimately have wf: "imc_well_formed ?m"
    using i(3,9,10) unfolding imc_well_formed_def time pl by (simp only: u16_bounds simp_thms)
  have "imc_sync (mf_order ?m) = bslice ?b 0 2" using i(2) sl [of 2 0] by (simp add: imc_order_Some fields_of_def Let_def)
  moreover have "pack16 (mf_order ?m) (mf_message ?m) = bslice ?b 2 4"
    using pack16_u16 [of 2 ?b] u [of 2] i(4) len by (simp add: fields_of_def Let_def)
  moreover have "pack16 (mf_order ?m) (int (length (mf_payload ?m))) = bslice ?b 4 6"
  proof -
    have "int (length (mf_payload ?m)) = u16 (ih_order (if_head f)) ?b 4"
      unfolding pl i(5) nat_0_le [OF u16_bounds(1)] by (rule u) simp
    then show ?thesis using pack16_u16 [of 4 ?b] len by (simp add: fields_of_def Let_def)
  qed
  moreover have "mf_time ?m = bslice ?b 6 14" "mf_destination ?m = bslice ?b 17 20" by (simp_all add: fields_of_def Let_def)
  moreover have "pack16 (mf_order ?m) (mf_source ?m) = bslice ?b 14 16"
    using pack16_u16 [of 14 ?b] u [of 14] i(7) len by (simp add: fields_of_def Let_def)
  moreover have "[mf_entity ?m] = bslice ?b 16 17"
    using len by (simp add: fields_of_def Let_def bslice_def take_Suc_conv_app_nth nth_drop)
  ultimately have "imc_head_bytes ?m = bslice ?b 0 20"
    by (simp add: imc_head_bytes_def bslice_append_bslice)
  moreover have "mf_payload ?m = bslice ?b 20 (20 + ?n)" using len by (simp add: fields_of_def frame_payload_def Let_def)
  ultimately have body: "imc_head_bytes ?m @ mf_payload ?m = bslice ?b 0 (20 + ?n)" by (simp add: bslice_append_bslice)
  moreover have "pack16 (mf_order ?m) (uint (crc16 (bslice ?b 0 (20 + ?n)))) = bslice ?b (20 + ?n) (20 + ?n + 2)"
    using pack16_u16 [of "20 + ?n" ?b] crc len by (simp add: fields_of_def Let_def bslice_def [of _ 0])
  ultimately have "imc_encode ?m = bslice ?b 0 (20 + ?n + 2)"
    unfolding imc_encode_def Let_def body by (simp add: bslice_append_bslice)
  also have "\<dots> = ?b" using len bslice_all [of ?b] by (simp add: add.commute)
  finally have "imc_encode ?m = ?b" .
  moreover have "fields_head ?m = if_head f"
    using pl time i(8) len by (simp add: fields_head_def) (simp add: fields_of_def Let_def)
  ultimately show ?thesis using wf by blast
qed

lemma fields_of_encode:
  assumes "imc_well_formed m"
  shows "fields_of \<lparr>if_start = a, if_stop = b, if_head = fields_head m, if_bytes = imc_encode m\<rparr> = m"
proof -
  let ?e = "imc_encode m"
  note wf = assms [unfolded imc_well_formed_def]
  have e: "?e = (imc_sync (mf_order m) @ pack16 (mf_order m) (mf_message m) @ pack16 (mf_order m) (int (length (mf_payload m))))
      @ mf_time m @ (pack16 (mf_order m) (mf_source m) @ [mf_entity m]) @ mf_destination m @ mf_payload m
      @ pack16 (mf_order m) (uint (crc16 (imc_head_bytes m @ mf_payload m)))"
    by (simp add: imc_encode_def imc_head_bytes_def Let_def)
  have "bslice ?e 6 14 = mf_time m" "?e ! 16 = mf_entity m" "bslice ?e 17 20 = mf_destination m"
    "bslice ?e 20 (length ?e - 2) = mf_payload m"
    unfolding e using wf by (simp_all add: bslice_def nth_append)
  then show ?thesis by (simp add: fields_of_def fields_head_def frame_payload_def Let_def)
qed

lemma imc_walk_encoded:
  "list_all imc_well_formed ms \<Longrightarrow> times_ordered previous ms \<Longrightarrow>
    \<exists>fs. imc_walk (pre @ concat (map imc_encode ms)) (length pre) previous = (fs, None) \<and> map fields_of fs = ms"
proof (induction ms arbitrary: pre previous)
  case Nil
  then show ?case by (simp add: imc_walk.simps)
next
  case (Cons m ms)
  let ?data = "pre @ concat (map imc_encode (m # ms))"
  have wf: "imc_well_formed m" and pv: "\<forall>p. previous = Some p \<longrightarrow> \<not> fl_less (fields_time m) p"
    using Cons.prems by (auto split: option.splits)
  note step = imc_encode_read [OF wf pv, of pre "concat (map imc_encode ms)"]
  obtain fs where fs: "imc_walk ((pre @ imc_encode m) @ concat (map imc_encode ms)) (length (pre @ imc_encode m))
      (Some (fields_time m)) = (fs, None)" "map fields_of fs = ms"
    using Cons.IH [of "Some (fields_time m)" "pre @ imc_encode m"] Cons.prems by auto
  have "length pre < length ?data" using length_imc_encode [OF wf] by simp
  then show ?case
    using step fs fields_of_encode [OF wf] by (subst imc_walk.simps) (simp add: yield_then_def fields_head_def)
qed

lemma imc_walk_fields:
  "snd (imc_walk data off previous) = None \<Longrightarrow> times_ordered previous (map fields_of (fst (imc_walk data off previous)))"
proof (induction off previous rule: imc_frames.walk_induct [where raw = data])
  case (Step off previous f)
  have "fields_time (fields_of f) = ih_timestamp (if_head f)"
    using frame_checked_fields [of f] imc_walk_checked [of f data off previous] Step(1,2)
    by (simp add: imc_frames.walk_step fields_head_def) (metis imc_head.select_convs(4))
  with Step imc_step_Inr(7) [OF Step(2)] show ?case by (simp add: imc_frames.walk_step split: option.split)
qed (auto simp: imc_frames.walk_end imc_frames.walk_error)

text \<open>C36. The walk over an IMC stream ends without an error exactly on the concatenations of well-formed frames with
  times that never decrease, and it yields the fields that were encoded: a header with its synchronization, sizes and
  identifiers, the payload, and the CRC over both, in either byte order.\<close>

theorem imc_stream_iff:
  "(\<exists>fs. imc_walk data 0 None = (fs, None) \<and> map fields_of fs = ms) \<longleftrightarrow>
    data = concat (map imc_encode ms) \<and> list_all imc_well_formed ms \<and> times_ordered None ms"
proof
  assume "\<exists>fs. imc_walk data 0 None = (fs, None) \<and> map fields_of fs = ms"
  then obtain fs where w: "imc_walk data 0 None = (fs, None)" and ms: "ms = map fields_of fs" by blast
  have "frame_checked f" "if_bytes f = bslice data (if_start f) (if_stop f)" if "f \<in> set fs" for f
    using that imc_walk_checked [of f data 0 None] imc_walk_bytes [of f data 0 None] by (simp_all add: w)
  then have f: "imc_encode (fields_of f) = bslice data (if_start f) (if_stop f)" "imc_well_formed (fields_of f)"
    if "f \<in> set fs" for f using that frame_checked_fields by fastforce+
  then have "map imc_encode ms = map (\<lambda>f. bslice data (if_start f) (if_stop f)) fs" by (simp add: ms)
  moreover have "concat (map (\<lambda>f. bslice data (if_start f) (if_stop f)) fs) = data"
    using imc_frames.walk_tiles [of data 0 None] by (simp add: w)
  ultimately have "data = concat (map imc_encode ms)" by simp
  moreover have "times_ordered None ms" using imc_walk_fields [of data 0 None] by (simp add: w ms)
  ultimately show "data = concat (map imc_encode ms) \<and> list_all imc_well_formed ms \<and> times_ordered None ms"
    using f(2) by (simp add: ms list_all_iff)
next
  assume "data = concat (map imc_encode ms) \<and> list_all imc_well_formed ms \<and> times_ordered None ms"
  with imc_walk_encoded [of ms None "[]"] show "\<exists>fs. imc_walk data 0 None = (fs, None) \<and> map fields_of fs = ms" by simp
qed

section \<open>A changed byte\<close>

lemma xor_cancel16: "x XOR z = y XOR z \<Longrightarrow> x = (y :: 16 word)"
  by (metis xor.assoc xor.right_neutral xor_self_eq)

text \<open>The step of the CRC loses nothing: its top bit tells whether the polynomial was applied.\<close>

lemma crc16_bit_inject: "crc16_bit u = crc16_bit v \<Longrightarrow> u = v"
proof -
  assume eq: "crc16_bit u = crc16_bit v"
  have top: "bit (crc16_bit w) 15 = odd w" for w
    using bit_imp_le_length [of w 16] by (auto simp: crc16_bit_def bit_xor_iff bit_drop_bit_eq)
  have o: "odd u = odd v" using top [of u] top [of v] eq by simp
  then have "drop_bit 1 u = drop_bit 1 v" using eq xor_cancel16 [of "drop_bit 1 u" "0xA001" "drop_bit 1 v"]
    by (cases "odd u") (simp_all add: crc16_bit_def)
  then have "bit u (Suc n) = bit v (Suc n)" for n by (metis bit_drop_bit_eq plus_1_eq_Suc comp_apply)
  moreover have "bit u 0 = bit v 0" using o by (simp add: bit_0)
  ultimately show "u = v" by (intro bit_eqI) (metis not0_implies_Suc)
qed

lemma crc16_byte_inject:
  "crc16_byte u b = crc16_byte v b \<Longrightarrow> u = v" "crc16_byte u b = crc16_byte u c \<Longrightarrow> b = c"
proof -
  have inj: "(crc16_bit ^^ n) x = (crc16_bit ^^ n) y \<Longrightarrow> x = y" for n x y
    by (induction n) (auto dest: crc16_bit_inject)
  show "crc16_byte u b = crc16_byte v b \<Longrightarrow> u = v"
    unfolding crc16_byte_def by (drule inj) (rule xor_cancel16)
  assume "crc16_byte u b = crc16_byte u c"
  then have "ucast b XOR u = (ucast c XOR u :: 16 word)" unfolding crc16_byte_def by (simp only: xor.commute [of u]) (rule inj)
  then have "(ucast b :: 16 word) = ucast c" by (rule xor_cancel16)
  then have "uint (ucast b :: 16 word) = uint (ucast c :: 16 word)" by simp
  then show "b = c" by (simp add: uint_up_ucast is_up word_uint_eq_iff)
qed

lemma crc16_changed:
  assumes "i < length xs" "b \<noteq> xs ! i" shows "crc16 (xs[i := b]) \<noteq> crc16 xs"
proof
  assume eq: "crc16 (xs[i := b]) = crc16 xs"
  have rest: "foldl crc16_byte u ys = foldl crc16_byte v ys \<Longrightarrow> u = v" for u v ys
    by (induction ys arbitrary: u v) (auto dest: crc16_byte_inject(1))
  have "crc16 (take i xs @ b # drop (Suc i) xs) = crc16 (take i xs @ xs ! i # drop (Suc i) xs)"
    using eq assms(1) by (simp add: upd_conv_take_nth_drop id_take_nth_drop [symmetric])
  then have "crc16_byte (foldl crc16_byte 0 (take i xs)) b = crc16_byte (foldl crc16_byte 0 (take i xs)) (xs ! i)"
    unfolding crc16_def by (simp add: rest)
  then show False using crc16_byte_inject(2) assms(2) by blast
qed

lemma bslice_update: "i < a \<or> b \<le> i \<Longrightarrow> bslice (xs[i := v]) a b = bslice xs a b"
proof (cases "a \<le> i")
  case True
  moreover assume "i < a \<or> b \<le> i"
  ultimately have "i - a \<ge> b - a" by auto
  with True show ?thesis by (simp add: bslice_def drop_update_swap take_update_cancel)
qed (simp add: bslice_def drop_update_cancel)

lemma u16_slice: "bslice d i (i + 2) = bslice e j (j + 2) \<Longrightarrow> u16 order d i = u16 order e j"
  by (cases order) (simp_all add: u16le_def u16be_def)

text \<open>A frame with one byte changed, outside its size field, is not a frame.\<close>

lemma changed_frame_fails:
  assumes wf: "imc_well_formed m" and i: "i < length (imc_encode m)" "i \<notin> {4, 5}" and b: "b \<noteq> imc_encode m ! i"
  shows "\<exists>e. imc_step (pre @ (imc_encode m)[i := b] @ post) (length pre) previous = Inl e"
proof (rule ccontr)
  let ?e = "imc_encode m" and ?o = "mf_order m" and ?body = "imc_head_bytes m @ mf_payload m"
  let ?x = "?e[i := b]" and ?n = "length (mf_payload m) + 20"
  let ?data = "pre @ ?x @ post"
  assume "\<not> ?thesis"
  then obtain f where f: "imc_step ?data (length pre) previous = Inr f" by (cases "imc_step ?data (length pre) previous") auto
  note s = imc_step_Inr [OF f]
  have len: "length ?e = ?n + 2" using length_imc_encode [OF wf] by simp
  have enc: "?e = ?body @ pack16 ?o (uint (crc16 ?body))" by (simp add: imc_encode_def Let_def)
  have body: "length ?body = ?n" using length_imc_head_bytes [OF wf] by simp
  have hd: "take 20 ?e = imc_head_bytes m" using length_imc_head_bytes [OF wf] by (simp add: enc)
  have h: "bslice ?data (length pre) (length pre + 20) = take 20 ?x" using len by (simp add: bslice_def)
  note r = imc_header_Inr [OF s(5) [unfolded h]] and good = imc_header_Inr [OF imc_head_read [OF wf]]
  have sl: "bslice (take 20 ?x) a c = bslice ?x a c" "bslice (imc_head_bytes m) a c = bslice ?e a c" if "c \<le> 20" for a c
    using that by (simp_all add: bslice_def drop_take min_def flip: hd)
  have "2 \<le> i"
  proof (rule ccontr)
    assume "\<not> 2 \<le> i"
    then have i2: "i = 0 \<or> i = 1" by auto
    have e: "bslice ?e 0 2 = imc_sync ?o" by (simp add: enc imc_head_bytes_def bslice_def)
    have "bslice ?x 0 2 = (imc_sync ?o)[i := b]" using i2 len e by (auto simp: bslice_def take_update_swap)
    then have "imc_sync (ih_order (if_head f)) = (imc_sync ?o)[i := b]" using r(2) sl(1) [of 2 0] by (simp add: imc_order_Some)
    moreover have "b \<noteq> imc_sync ?o ! i" using b i2 e by (auto simp: enc imc_head_bytes_def nth_append imc_sync_def split: byte_order.splits)
    ultimately show False using i2 by (cases "ih_order (if_head f)"; cases ?o) (auto simp: imc_sync_def)
  qed
  then have "bslice ?x 0 2 = bslice ?e 0 2" by (simp add: bslice_update)
  then have o: "ih_order (if_head f) = ?o" using r(2) good(2) sl [of 2 0] by (simp add: fields_head_def)
  have "bslice ?x 4 6 = bslice ?e 4 6" using i(2) by (intro bslice_update) auto
  then have "u16 ?o (take 20 ?x) 4 = u16 ?o (imc_head_bytes m) 4" using sl [of 6 4] by (intro u16_slice) simp
  then have size: "ih_size (if_head f) = length (mf_payload m)" using r(5) good(5) o by (simp add: fields_head_def)
  have fx: "if_bytes f = ?x" using s(2,4) size len by (simp add: bslice_def)
  have crc: "uint (crc16 (take ?n ?x)) = u16 ?o ?x ?n" using s(6) fx o len by (simp add: add.commute)
  show False
  proof (cases "i < ?n")
    case True
    have "take ?n ?x = ?body[i := b]" using True body by (simp add: enc take_update_swap)
    moreover have "?e ! i = ?body ! i" unfolding enc by (rule nth_append_left) (simp only: body True)
    ultimately have "crc16 (take ?n ?x) \<noteq> crc16 ?body" using crc16_changed [of i ?body b] True body b by simp
    moreover have "u16 ?o ?x ?n = u16 ?o ?e ?n" using True by (intro u16_slice bslice_update) simp
    moreover have "u16 ?o ?e ?n = uint (crc16 ?body)"
      using u16_pack16 [of ?body ?n "uint (crc16 ?body)" ?o "[]"] body uint_lt2p [of "crc16 ?body"] by (simp add: enc)
    ultimately show False using crc by (simp add: word_uint_eq_iff)
  next
    case False
    then have "take ?n ?x = ?body" using body by (simp add: enc take_update_cancel)
    with crc have "pack16 ?o (uint (crc16 ?body)) = bslice ?x ?n (?n + 2)"
      using pack16_u16 [of ?n ?x ?o] len by simp
    moreover have "bslice ?e ?n (?n + 2) = pack16 ?o (uint (crc16 ?body))" using body by (simp add: enc bslice_def)
    ultimately have "bslice ?x ?n (?n + 2) ! (i - ?n) = bslice ?e ?n (?n + 2) ! (i - ?n)" by simp
    moreover have "i - ?n < ?n + 2 - ?n" using False i(1) len by simp
    ultimately show False using b i(1) len False by (simp add: nth_bslice)
  qed
qed

lemma imc_walk_skip:
  "list_all imc_well_formed ms \<Longrightarrow> snd (imc_walk (pre @ concat (map imc_encode ms) @ tail) (length pre) previous) = None \<Longrightarrow>
    \<exists>p. snd (imc_walk (pre @ concat (map imc_encode ms) @ tail) (length (pre @ concat (map imc_encode ms))) p) = None"
proof (induction ms arbitrary: pre previous)
  case (Cons m ms)
  let ?data = "pre @ concat (map imc_encode (m # ms)) @ tail"
  have wf: "imc_well_formed m" using Cons.prems by simp
  have lt: "length pre < length ?data" using length_imc_encode [OF wf] by simp
  show ?case
  proof (cases "\<forall>p. previous = Some p \<longrightarrow> \<not> fl_less (fields_time m) p")
    case True
    from imc_encode_read [OF wf True, of pre "concat (map imc_encode ms) @ tail"] lt Cons.prems(2)
    have "snd (imc_walk ((pre @ imc_encode m) @ concat (map imc_encode ms) @ tail) (length (pre @ imc_encode m))
        (Some (fields_time m))) = None"
      by (subst (asm) imc_walk.simps) (simp add: fields_head_def)
    from Cons.IH [OF _ this] Cons.prems show ?thesis by simp
  next
    case False
    then obtain p where p: "previous = Some p" "fl_less (fields_time m) p" by auto
    from lt Cons.prems(2) obtain f where f: "imc_step ?data (length pre) previous = Inr f"
      by (subst (asm) imc_walk.simps) (auto split: sum.splits)
    from imc_encode_read [OF wf, of None pre "concat (map imc_encode ms) @ tail"]
    have "imc_header (bslice ?data (length pre) (length pre + 20)) = Inr (fields_head m)"
      by (auto dest: imc_step_Inr(5))
    with imc_step_Inr(5,7) [OF f] p show ?thesis by (simp add: fields_head_def)
  qed
qed auto

text \<open>C37. One changed byte in one frame of a stream, anywhere but in its size field, makes the conversion of the whole
  stream fail, whatever the frames before it are and whatever follows.\<close>

theorem imc_changed_byte_refused:
  assumes "list_all imc_well_formed ms" "imc_well_formed m"
    and "i < length (imc_encode m)" "i \<notin> {4, 5}" "b \<noteq> imc_encode m ! i"
  shows "\<exists>e. convert_rows opts (concat (map imc_encode ms) @ (imc_encode m)[i := b] @ rest) = Inl e"
proof (rule ccontr)
  let ?data = "concat (map imc_encode ms) @ (imc_encode m)[i := b] @ rest"
  let ?off = "length (concat (map imc_encode ms))"
  assume "\<not> ?thesis"
  then obtain st where "convert_rows opts ?data = Inr st" by (cases "convert_rows opts ?data") auto
  then have "snd (imc_walk ?data 0 None) = None" by (auto elim!: convert_rows_Inr)
  with imc_walk_skip [OF assms(1), of "[]" "(imc_encode m)[i := b] @ rest" None] obtain p
    where "snd (imc_walk ?data ?off p) = None" by auto
  moreover obtain e where "imc_step ?data ?off p = Inl e"
    using changed_frame_fails [OF assms(2-5), of "concat (map imc_encode ms)" rest p] by blast
  moreover have "?off < length ?data" using length_imc_encode [OF assms(2)] by simp
  ultimately show False by (subst (asm) imc_walk.simps) simp
qed

end
