(* ===== verification/Imc_Rows.thy ===== *)
theory Imc_Rows
  imports Imc_Codec
begin

text \<open>
  What the rows of an IMC conversion hold: the type of the cells of every column, the values of scalar
  sensors, the withheld components of velocities and estimates, and the table read back from its text.
\<close>

section \<open>Cell types\<close>

datatype column_kind = Int_Column | Text_Column | Float_Column

definition INT_COLUMNS :: "string list" where
  "INT_COLUMNS = [''record_time_us'', ''source_id'', ''source_entity'', ''message_id'',
     ''velocity_validity_mask_reported'', ''velocity_unknown_validity_bits'']"

definition TEXT_COLUMNS :: "string list" where
  "TEXT_COLUMNS = [''source_timestamp_s'', ''source_frame_hex'', ''measurement_status'', ''device_time_s'',
     ''device_clock_basis'', ''axis_frame_basis'', ''velocity_reference_basis'',
     ''ground_velocity_x_disposition'', ''ground_velocity_y_disposition'', ''ground_velocity_z_disposition'',
     ''water_velocity_x_disposition'', ''water_velocity_y_disposition'', ''water_velocity_z_disposition'',
     ''estimated_depth_disposition'', ''estimated_altitude_disposition'', ''estimated_state_basis'']"

definition column_kind :: "string \<Rightarrow> column_kind" where
  "column_kind k = (if k \<in> set INT_COLUMNS then Int_Column else if k \<in> set TEXT_COLUMNS then Text_Column else Float_Column)"

definition plain_text :: "string \<Rightarrow> bool" where
  "plain_text s \<longleftrightarrow> (\<forall>c \<in> set s. \<not> csv_special c) \<and> length s \<le> 20000"

text \<open>
  An integer column holds a number below \<open>2 ^ 63\<close>, a text column a text without special characters, and a
  measurement column a finite float of the format or nothing.
\<close>

fun well_typed :: "string \<times> cell \<Rightarrow> bool" where
  "well_typed (k, CInt i) \<longleftrightarrow> column_kind k = Int_Column \<and> 0 \<le> i \<and> i < 2 ^ 63"
| "well_typed (k, CStr s) \<longleftrightarrow> column_kind k = Text_Column \<and> plain_text s"
| "well_typed (k, CFloat x) \<longleftrightarrow> column_kind k = Float_Column \<and> is_finite x \<and> in_binary64 x"
| "well_typed (k, CNone) \<longleftrightarrow> column_kind k = Float_Column"
| "well_typed (k, _) \<longleftrightarrow> False"

definition typed_row :: "row \<Rightarrow> bool" where
  "typed_row r \<longleftrightarrow> list_all well_typed r"

lemma typed_row_update [simp]: "typed_row (row_update a b) \<longleftrightarrow> typed_row a \<and> typed_row b"
  by (auto simp: typed_row_def row_update_def list_all_iff)

lemma typed_row_simps [simp]: "typed_row []" "typed_row (x # r) \<longleftrightarrow> well_typed x \<and> typed_row r"
  by (simp_all add: typed_row_def)

lemma plain_texts:
  "plain_text (float_repr x) \<longleftrightarrow> True" if "in_binary64 x" for x
  using float_repr_bounds [OF that] by (auto simp: plain_text_def float_chars_def csv_special_def)

lemma plain_hex: "length bs \<le> 9000 \<Longrightarrow> plain_text (''hex:'' @ hex_of bs)"
  using hex_of_chars [of bs] by (auto simp: plain_text_def csv_special_def)

lemma fl_trunc_range:
  assumes "fl_le (fl_int 0) x" "fl_less x (fl_int (2 ^ 63))"
  shows "0 \<le> fl_trunc x \<and> fl_trunc x < 2 ^ 63"
proof (cases x)
  case (Fin s m e)
  have v: "0 \<le> val_of x" "val_of x < 2 ^ 63"
    using assms fl_less_value [of x "fl_int 0"] fl_less_value [of x "fl_int (2 ^ 63)"] Fin
    by (auto simp: fl_le_def fl_int_def)
  show ?thesis
  proof (cases "m = 0")
    case False
    have "\<not> (2 :: real) powi e \<le> 0" by (simp add: not_le)
    with False have s: "\<not> s" using v(1) Fin by (auto simp: zero_le_mult_iff mult_le_0_iff)
    show ?thesis
    proof (cases "0 \<le> e")
      case True
      then have "real m * 2 ^ nat e < 2 ^ 63" using v(2) s Fin by (simp add: power_int_def)
      then have "real (m * 2 ^ nat e) < real (2 ^ 63)" by simp
      then have "m * 2 ^ nat e < 2 ^ 63" by (simp only: of_nat_less_iff)
      then show ?thesis using True s Fin by (simp flip: of_nat_less_iff [where 'a = int])
    next
      case False
      then have "real m < 2 ^ 63 * 2 ^ nat (- e)" using v(2) s Fin by (simp add: power_int_def field_simps)
      then have "real m < real (2 ^ 63 * 2 ^ nat (- e))" by simp
      then have "m < 2 ^ 63 * 2 ^ nat (- e)" by (simp only: of_nat_less_iff)
      then have "m div 2 ^ nat (- e) < 2 ^ 63" by (simp add: less_mult_imp_div_less)
      then have "int (m div 2 ^ nat (- e)) < 2 ^ 63" by simp
      then show ?thesis using False s Fin by (simp add: zdiv_int pos_imp_zdiv_nonneg_iff)
    qed
  qed (use Fin in simp)
qed (use assms in \<open>auto simp: fl_le_def fl_int_def\<close>)

text \<open>A typed cell needs no quotes.\<close>

lemma int_text_plain: "0 \<le> i \<Longrightarrow> i < 2 ^ 63 \<Longrightarrow> plain_text (int_text i)"
proof -
  assume i: "0 \<le> i" "i < 2 ^ 63"
  then have "nat i < 2 ^ 63" by (simp add: nat_less_iff)
  from nat_digits_count [OF this] nat_digits_chars [of "nat i"] i show ?thesis
    by (auto simp: plain_text_def int_text_def float_chars_def csv_special_def)
qed

lemma well_typed_plain: "well_typed (k, c) \<Longrightarrow> plain_text (cell_text c)"
  by (cases c) (auto simp: int_text_plain plain_texts, simp add: plain_text_def)

section \<open>The quantities are typed\<close>

lemma column_kinds:
  "list_all (\<lambda>k. column_kind k = Float_Column) (map (\<lambda>(_, s). sr_field s) SENSORS)"
  "list_all (\<lambda>k. column_kind k = Float_Column) (concat (map snd VECTORS))"
  "list_all (\<lambda>k. column_kind k = Float_Column) ESTIMATED_FIELDS"
  by (simp_all add: SENSORS_def VECTORS_def ESTIMATED_FIELDS_def column_kind_def INT_COLUMNS_def TEXT_COLUMNS_def)

lemma typed_zip:
  assumes "list_all (\<lambda>k. column_kind k = Float_Column) ks" "list_all (\<lambda>x. is_finite x \<and> in_binary64 x) xs"
  shows "typed_row (zip ks (map CFloat xs))"
  using assms by (induction ks arbitrary: xs) (auto simp: typed_row_def zip_Cons1 split: list.split)

lemma column_kind_eval:
  "column_kind (''estimated_depth_m'') = Float_Column" "column_kind (''estimated_altitude_m'') = Float_Column"
  "column_kind (''estimated_depth_raw_m'') = Float_Column" "column_kind (''estimated_altitude_raw_m'') = Float_Column"
  "column_kind (''estimated_depth_disposition'') = Text_Column" "column_kind (''estimated_altitude_disposition'') = Text_Column"
  "column_kind (''estimated_state_basis'') = Text_Column"
  by (simp_all add: column_kind_def INT_COLUMNS_def TEXT_COLUMNS_def)

lemmas plain_eval = plain_text_def csv_special_def

lemma estimated_typed:
  assumes "estimated_quantities payload order = Inr q" shows "typed_row q"
proof -
  let ?v = "estimated_values order payload"
  have fin: "list_all is_finite ?v" and q: "q = row_update (row_update (row_update (zip ESTIMATED_FIELDS (map CFloat ?v))
      (estimate_disposition ''depth'' (?v ! 18))) (estimate_disposition ''altitude'' (?v ! 19)))
      [(''estimated_state_basis'', CStr ESTIMATED_BASIS)]"
    using assms by (auto simp: estimated_quantities_def Let_def split: if_splits)
  have rng: "list_all (\<lambda>x. is_finite x \<and> in_binary64 x) ?v"
    using fin f64_range f32_range by (auto simp: estimated_values_def list_all_iff)
  then have nth: "is_finite (?v ! i) \<and> in_binary64 (?v ! i)" if "i < 20" for i
    using that by (simp add: list_all_length estimated_values_def)
  have "plain_text ESTIMATED_BASIS" by (simp add: ESTIMATED_BASIS_def plain_eval)
  then show ?thesis unfolding q
    using typed_zip [OF column_kinds(3) rng] nth [of 18] nth [of 19]
    by (simp add: estimate_disposition_def column_kind_eval plain_eval)
qed

lemma float_column: "k \<in> set ks \<Longrightarrow> list_all (\<lambda>k. column_kind k = Float_Column) ks \<Longrightarrow> column_kind k = Float_Column"
  by (auto simp: list_all_iff)

lemma vector_typed:
  assumes "vector_reading columns f = Inr r" "(message, columns) \<in> set VECTORS"
  shows "typed_row (ir_quantities r) \<and> plain_text (ir_status r)"
proof -
  let ?v = "map (\<lambda>i. f64 (ih_order (if_head f)) (frame_payload f) (8 * i)) [0..<4]"
  have "list_all is_finite ?v" and r: "r = \<lparr>ir_quantities = row_update (zip columns (map CFloat (tl ?v)))
      [(''device_time_s'', CStr (float_repr (?v ! 0))), (''device_clock_basis'', CStr ''UNSPECIFIED''),
       (''axis_frame_basis'', CStr ''UNSPECIFIED_BY_MESSAGE_SCHEMA'')], ir_status = ''REPORTED''\<rparr>"
    using assms(1) unfolding vector_reading_def Let_def by (auto split: if_splits)
  then have "list_all (\<lambda>x. is_finite x \<and> in_binary64 x) (tl ?v)"
    using f64_range by (auto simp: list_all_iff dest!: list.set_sel(2) [rotated])
  moreover have "list_all (\<lambda>k. column_kind k = Float_Column) columns"
    using column_kinds(2) assms(2) by (auto simp: list_all_iff)
  moreover have "in_binary64 (?v ! 0)" using f64_range by simp
  moreover have "column_kind ''device_time_s'' = Text_Column" "column_kind ''device_clock_basis'' = Text_Column"
    "column_kind ''axis_frame_basis'' = Text_Column" by (simp_all add: column_kind_def INT_COLUMNS_def TEXT_COLUMNS_def)
  ultimately show ?thesis unfolding r
    by (simp add: typed_zip plain_texts del: upt_Suc) (simp add: plain_eval)
qed

lemma fl_mul_range: "in_binary64 (fl_mul x y)"
proof -
  have "0 < b" if "scale2 n 1 e = (a, b)" for n e a b using scale2_value(1) [OF that] by simp
  then show ?thesis by (induction x y rule: fl_mul.induct) (auto split: prod.split intro: round_to_range)
qed

lemma fl_add_range: "in_binary64 x \<Longrightarrow> in_binary64 y \<Longrightarrow> in_binary64 (fl_add x y)"
proof -
  have "0 < b" if "scale2 n 1 e = (a, b)" for n e a b using scale2_value(1) [OF that] by simp
  then show "in_binary64 x \<Longrightarrow> in_binary64 y \<Longrightarrow> in_binary64 (fl_add x y)"
    by (induction x y rule: fl_add.induct) (auto simp: Let_def binary64_def split: prod.split intro: round_to_range [unfolded binary64_def])
qed

lemma sensor_bias_range: "(message, s) \<in> set SENSORS \<Longrightarrow> in_binary64 (sr_bias s)"
  using round_to_range [of 100 False 27315] by (auto simp: SENSORS_def fl_int_def)

lemma sensor_typed:
  assumes "sensor_reading s f = Inr r" "(message, s) \<in> set SENSORS"
  shows "typed_row (ir_quantities r) \<and> plain_text (ir_status r)"
proof -
  have "column_kind (sr_field s) = Float_Column"
    using column_kinds(1) assms(2) by (auto simp: list_all_iff)
  moreover have "in_binary64 (normalized_value s (sensor_value s f))"
    unfolding normalized_value_def by (intro fl_add_range fl_mul_range sensor_bias_range [OF assms(2)])
  ultimately show ?thesis using assms(1)
    by (auto simp: sensor_reading_def Let_def plain_eval split: if_splits)
qed

section \<open>Velocities\<close>

text \<open>The three components one after the other.\<close>

definition component_value :: "imc_frame \<Rightarrow> nat \<Rightarrow> pyfloat" where
  "component_value f k = f64 (ih_order (if_head f)) (frame_payload f) (1 + 8 * k)"

definition velocity_validity :: "imc_frame \<Rightarrow> int" where
  "velocity_validity f = bval (frame_payload f ! 0)"

lemma velocity_names_cases:
  assumes "map_of (imc_velocities opts) message = Some v"
  obtains "v = snd (hd VELOCITIES)" | "v = WATER_VELOCITY"
  using assms by (auto simp: imc_velocities_def VELOCITIES_def split: if_splits)

lemma velocity_reading_Inr:
  assumes "velocity_reading v f = Inr q"
  obtains x y z where "velocity_component v (velocity_validity f) ((''x'', 1), component_value f 0) = Inr x"
    "velocity_component v (velocity_validity f) ((''y'', 2), component_value f 1) = Inr y"
    "velocity_component v (velocity_validity f) ((''z'', 4), component_value f 2) = Inr z"
    "ir_quantities q = row_update (row_update (row_update
      [(''velocity_validity_mask_reported'', CInt (velocity_validity f)),
       (''velocity_unknown_validity_bits'', CInt (velocity_validity f AND NOT 7)),
       (''velocity_reference_basis'', CStr (snd (snd v)))] x) y) z"
    "ir_status q = (if velocity_validity f AND 7 \<noteq> 0 then ''REPORTED'' else ''ONLY_WITHHELD_COMPONENTS'')"
proof -
  have axes: "map (\<lambda>i. f64 (ih_order (if_head f)) (frame_payload f) (1 + 8 * i)) [0..<3]
      = [component_value f 0, component_value f 1, component_value f 2]"
    by (simp add: component_value_def upt_conv_Cons)
  from assms that show thesis
    unfolding velocity_reading_def Let_def axes
    by (auto simp: VELOCITY_BITS_def result_simps velocity_validity_def split: if_splits)
qed

lemma velocity_component_Inr:
  assumes "velocity_component v validity ((axis, flag), value) = Inr r"
  shows "r = [(value_column v axis, if validity AND flag \<noteq> 0 then CFloat value else CNone),
    (disposition_column v axis, CStr (if validity AND flag \<noteq> 0 then ''REPORTED_VALID'' else ''WITHHELD_COMPONENT_NOT_REPORTED_VALID''))]"
    "validity AND flag \<noteq> 0 \<longrightarrow> is_finite value"
  using assms by (auto simp: velocity_component_def Let_def split: if_splits)

lemma velocity_column_kinds:
  assumes "v = snd (hd VELOCITIES) \<or> v = WATER_VELOCITY" "axis \<in> {''x'', ''y'', ''z''}"
  shows "column_kind (value_column v axis) = Float_Column" "column_kind (disposition_column v axis) = Text_Column"
  using assms by (auto simp: VELOCITIES_def WATER_VELOCITY_def value_column_def disposition_column_def
      column_kind_def INT_COLUMNS_def TEXT_COLUMNS_def)

lemma velocity_typed:
  assumes "velocity_reading v f = Inr q" "map_of (imc_velocities opts) message = Some v"
  shows "typed_row (ir_quantities q) \<and> plain_text (ir_status q)"
proof (rule velocity_reading_Inr [OF assms(1)])
  fix x y z
  assume c: "velocity_component v (velocity_validity f) ((''x'', 1), component_value f 0) = Inr x"
    "velocity_component v (velocity_validity f) ((''y'', 2), component_value f 1) = Inr y"
    "velocity_component v (velocity_validity f) ((''z'', 4), component_value f 2) = Inr z"
    and q: "ir_quantities q = row_update (row_update (row_update
      [(''velocity_validity_mask_reported'', CInt (velocity_validity f)),
       (''velocity_unknown_validity_bits'', CInt (velocity_validity f AND NOT 7)),
       (''velocity_reference_basis'', CStr (snd (snd v)))] x) y) z"
    "ir_status q = (if velocity_validity f AND 7 \<noteq> 0 then ''REPORTED'' else ''ONLY_WITHHELD_COMPONENTS'')"
  have v: "v = snd (hd VELOCITIES) \<or> v = WATER_VELOCITY" by (rule velocity_names_cases [OF assms(2)]) auto
  have comp: "typed_row r" if "velocity_component v validity ((axis, flag), component_value f k) = Inr r" "axis \<in> {''x'', ''y'', ''z''}"
    for r axis flag k validity
    using velocity_component_Inr [OF that(1)] velocity_column_kinds [OF v that(2)] f64_range
    by (simp add: component_value_def plain_eval)
  have "typed_row x" "typed_row y" "typed_row z" using comp [OF c(1)] comp [OF c(2)] comp [OF c(3)] by simp_all
  moreover have b: "0 \<le> velocity_validity f" "velocity_validity f < 256" by (simp_all add: velocity_validity_def)
  moreover have "0 \<le> velocity_validity f AND NOT 7" "velocity_validity f AND NOT 7 < 2 ^ 63"
    using b AND_upper1 [of "velocity_validity f" "NOT 7"] by auto
  moreover have "plain_text (snd (snd v))"
    using v by (auto simp: VELOCITIES_def WATER_VELOCITY_def plain_eval)
  ultimately show ?thesis unfolding q
    by (simp add: column_kind_def INT_COLUMNS_def TEXT_COLUMNS_def plain_eval)
qed

text \<open>C38. A velocity component is in the row exactly when its validity bit is set, with the very number of the payload,
  which is then finite; a component whose bit is clear has no value and is named withheld, so that it is never
  filled with a zero; the other validity bits are kept as reported and make no component valid.\<close>

theorem velocity_components_withheld:
  assumes "imc_reading_of opts f = Inr q" "map_of (imc_velocities opts) (ih_message (if_head f)) = Some v" "k < 3"
  shows "let (axis, flag) = VELOCITY_BITS ! k; row = imc_row f q; reported = (velocity_validity f AND flag \<noteq> 0) in
    row_get row (value_column v axis) = (if reported then CFloat (component_value f k) else CNone) \<and>
    (reported \<longrightarrow> is_finite (component_value f k)) \<and>
    row_get row (disposition_column v axis)
      = CStr (if reported then ''REPORTED_VALID'' else ''WITHHELD_COMPONENT_NOT_REPORTED_VALID'') \<and>
    row_get row ''velocity_validity_mask_reported'' = CInt (velocity_validity f) \<and>
    row_get row ''measurement_status''
      = CStr (if velocity_validity f AND 7 \<noteq> 0 then ''REPORTED'' else ''ONLY_WITHHELD_COMPONENTS'')"
proof -
  have v: "v = snd (hd VELOCITIES) \<or> v = WATER_VELOCITY" by (rule velocity_names_cases [OF assms(2)]) auto
  have "ih_message (if_head f) \<noteq> 350" using assms(2) by (auto simp: imc_velocities_def VELOCITIES_def split: if_splits)
  then have "velocity_reading v f = Inr q" using assms(1,2) by (simp add: imc_reading_of_def)
  then obtain x y z where c: "velocity_component v (velocity_validity f) ((''x'', 1), component_value f 0) = Inr x"
    "velocity_component v (velocity_validity f) ((''y'', 2), component_value f 1) = Inr y"
    "velocity_component v (velocity_validity f) ((''z'', 4), component_value f 2) = Inr z"
    and q: "ir_quantities q = row_update (row_update (row_update
      [(''velocity_validity_mask_reported'', CInt (velocity_validity f)),
       (''velocity_unknown_validity_bits'', CInt (velocity_validity f AND NOT 7)),
       (''velocity_reference_basis'', CStr (snd (snd v)))] x) y) z"
    "ir_status q = (if velocity_validity f AND 7 \<noteq> 0 then ''REPORTED'' else ''ONLY_WITHHELD_COMPONENTS'')"
    by (rule velocity_reading_Inr)
  note c = velocity_component_Inr [OF c(1)] velocity_component_Inr [OF c(2)] velocity_component_Inr [OF c(3)]
  from assms(3) have "k = 0 \<or> k = 1 \<or> k = 2" by auto
  with v c show ?thesis
    by (elim disjE) (simp_all add: VELOCITY_BITS_def imc_row_def Let_def q VELOCITIES_def WATER_VELOCITY_def
        value_column_def disposition_column_def row_get_def row_update_def)
qed

section \<open>Typed rows\<close>

lemma frame_payload_length: "frame_checked f \<Longrightarrow> length (frame_payload f) = ih_size (if_head f)"
  by (simp add: frame_checked_def frame_payload_def)

lemma imc_reading_cases:
  assumes "imc_reading_of opts f = Inr q"
  obtains "ih_message (if_head f) = 350" "estimated_quantities (frame_payload f) (ih_order (if_head f)) = Inr (ir_quantities q)"
      "ir_status q = ''REPORTED_ESTIMATE_WITH_PER_FIELD_DISPOSITIONS''"
    | v where "map_of (imc_velocities opts) (ih_message (if_head f)) = Some v" "velocity_reading v f = Inr q"
    | columns where "map_of VECTORS (ih_message (if_head f)) = Some columns" "vector_reading columns f = Inr q"
    | s where "map_of SENSORS (ih_message (if_head f)) = Some s" "sensor_reading s f = Inr q"
  using assms by (auto simp: imc_reading_of_def Let_def result_simps split: if_splits option.splits)

lemma imc_reading_typed:
  assumes "imc_reading_of opts f = Inr q"
  shows "typed_row (ir_quantities q) \<and> plain_text (ir_status q)"
  using assms
proof (cases rule: imc_reading_cases)
  case 1
  then show ?thesis using estimated_typed by (simp add: plain_eval)
next
  case (2 v)
  then show ?thesis by (blast dest: velocity_typed)
next
  case (3 columns)
  then show ?thesis by (blast dest: vector_typed map_of_SomeD)
next
  case (4 s)
  then show ?thesis by (blast dest: sensor_typed map_of_SomeD)
qed

lemma imc_reading_size:
  assumes "imc_reading_of opts f = Inr q" "frame_checked f"
  shows "ih_size (if_head f) \<le> 88"
  using assms(1)
  by (cases rule: imc_reading_cases)
    (use frame_payload_length [OF assms(2)] in \<open>auto simp: estimated_quantities_def velocity_reading_def vector_reading_def
      sensor_reading_def split: if_splits\<close>)

lemma imc_row_typed:
  assumes "imc_reading_of opts f = Inr q" "frame_checked f"
  shows "typed_row (imc_row f q)"
proof -
  let ?h = "if_head f"
  have h: "imc_header (take 20 (if_bytes f)) = Inr ?h" using assms(2) by (simp add: frame_checked_def)
  note i = imc_header_Inr [OF h]
  have k: "column_kind ''record_time_us'' = Int_Column" "column_kind ''source_timestamp_s'' = Text_Column"
    "column_kind ''source_id'' = Int_Column" "column_kind ''source_entity'' = Int_Column"
    "column_kind ''message_id'' = Int_Column" "column_kind ''source_frame_hex'' = Text_Column"
    "column_kind ''measurement_status'' = Text_Column"
    by (simp_all add: column_kind_def INT_COLUMNS_def TEXT_COLUMNS_def)
  have "plain_text (float_repr (ih_timestamp ?h))" using i(6) f64_range by (simp add: plain_texts)
  moreover have "plain_text (''hex:'' @ hex_of (if_bytes f))"
    using imc_reading_size [OF assms] assms(2) by (intro plain_hex) (simp add: frame_checked_def)
  moreover have "0 \<le> ih_source ?h" "ih_source ?h < 65536" "0 \<le> ih_message ?h" "ih_message ?h < 65536"
    "0 \<le> ih_entity ?h" "ih_entity ?h < 256" by (simp_all add: i(4,7,8))
  ultimately show ?thesis
    using imc_reading_typed [OF assms(1)] fl_trunc_range [OF i(9,10)] k by (simp add: imc_row_def Let_def)
qed

lemma convert_typed:
  assumes "convert_rows opts data = Inr st" shows "list_all typed_row (is_rows st)"
proof (rule convert_rows_Inr [OF assms])
  fix fs assume w: "imc_walk data 0 None = (fs, None)" and acc: "frames_accounted opts fs st"
  have "typed_row r" if "row_of_frame opts f r" "f \<in> set fs" for f r
    using that imc_row_typed imc_walk_checked [of f data 0 None] by (auto simp: row_of_frame_def w)
  then show ?thesis
    using acc by (auto simp: frames_accounted_def list_all2_conv_all_nth list_all_length) (metis nth_mem filter_is_subset subsetD)
qed

text \<open>C39. Every row of a conversion fits the declared table: its columns are those of the header, and each cell
  has the type of its column, an integer below \<open>2 ^ 63\<close>, a text that needs no quotes, or a finite binary64 number
  or nothing for a measurement.\<close>

theorem imc_rows_typed:
  assumes "convert_rows opts data = Inr st"
  shows "list_all (\<lambda>r. typed_row r \<and> row_keys r \<subseteq> set (imc_columns opts)) (is_rows st)"
proof (rule convert_rows_Inr [OF assms])
  fix fs assume "frames_accounted opts fs st"
  then show ?thesis using convert_typed [OF assms] by (simp add: frames_accounted_def list_all_iff)
qed

section \<open>The table read back\<close>

definition row_texts :: "string list \<Rightarrow> row \<Rightarrow> string list" where
  "row_texts cols r = map (\<lambda>k. cell_text (row_get r k)) cols"

definition plain_cells :: "row \<Rightarrow> bool" where
  "plain_cells r \<longleftrightarrow> list_all (\<lambda>kv. plain_text (cell_text (snd kv))) r"

lemma typed_plain: "typed_row r \<Longrightarrow> plain_cells r"
  using well_typed_plain by (fastforce simp: typed_row_def plain_cells_def list_all_iff)

lemma plain_text_field: "plain_text s \<Longrightarrow> plain_field s"
  by (intro plain_field_small) (auto simp: plain_text_def list_all_iff FIELD_SIZE_LIMIT_def)

text \<open>A table of at least two plain columns and plain texts reads back as its header and its rows.\<close>

lemma plain_texts_table:
  assumes "2 \<le> length cols" "list_all plain_text cols" "list_all (\<lambda>r. list_all plain_text (row_texts cols r)) rows"
  shows "csv_reader strict (csv_text cols rows) = (cols # map (row_texts cols) rows, None)"
proof -
  have row: "plain_row fs" if "length fs = length cols" "list_all plain_text fs" for fs
  proof -
    have "list_all plain_field fs" using that(2) by (simp add: list_all_iff plain_text_field)
    moreover have "fs \<noteq> [] \<and> fs \<noteq> [[]]" using that(1) assms(1) by auto
    ultimately show ?thesis by (simp add: plain_row_def)
  qed
  have "plain_row (row_texts cols r)" if "list_all plain_text (row_texts cols r)" for r
    using that by (intro row) (simp_all add: row_texts_def)
  moreover have "plain_row cols" using assms(2) by (intro row) simp_all
  ultimately have "list_all plain_row (cols # map (row_texts cols) rows)" using assms(3) by (simp add: list_all_iff)
  moreover have "csv_text cols rows = concat (map csv_line (cols # map (row_texts cols) rows))"
    by (simp add: csv_text_def row_line_def [abs_def] row_texts_def comp_def)
  ultimately show ?thesis using csv_reader_plain by metis
qed

lemma plain_table:
  assumes "2 \<le> length cols" "list_all plain_text cols" "list_all plain_cells rows"
  shows "csv_reader strict (csv_text cols rows) = (cols # map (row_texts cols) rows, None)"
proof (rule plain_texts_table [OF assms(1,2)])
  have "plain_text (cell_text (row_get r k))" if "plain_cells r" for r k
  proof (cases "map_of r k")
    case None
    then show ?thesis by (simp add: row_get_def plain_text_def)
  next
    case (Some c)
    then have "(k, c) \<in> set r" by (rule map_of_SomeD)
    with that Some show ?thesis by (auto simp: plain_cells_def row_get_def list_all_iff)
  qed
  then show "list_all (\<lambda>r. list_all plain_text (row_texts cols r)) rows"
    using assms(3) by (auto simp: list_all_iff row_texts_def)
qed

definition plain_name :: "string \<Rightarrow> bool" where
  "plain_name k \<longleftrightarrow> list_all (\<lambda>c. \<not> csv_special c) k \<and> length k \<le> 60"

lemma plain_name_text: "plain_name k \<Longrightarrow> plain_text k"
  by (auto simp: plain_name_def plain_text_def list_all_iff)

lemma sensor_fields:
  "map (\<lambda>(_, s). sr_field s) SENSORS = [''temperature_k'', ''external_pressure_pa'', ''depth_m'', ''sound_speed_m_s'',
     ''water_density_kg_m3'', ''salinity_psu'', ''electrical_voltage_v'', ''electrical_current_a'', ''electrical_power_w'']"
  by (simp add: SENSORS_def)

lemma sensor_messages: "map fst SENSORS = [263, 264, 265, 267, 268, 270, 251, 252, 364]"
  by (simp add: SENSORS_def)

lemma imc_names_plain:
  "list_all plain_name [''record_time_us'', ''source_timestamp_s'', ''source_id'', ''source_entity'', ''message_id'', ''source_frame_hex'',
      ''measurement_status'', ''device_time_s'', ''device_clock_basis'', ''axis_frame_basis'']"
  "list_all plain_name (map (\<lambda>(_, s). sr_field s) SENSORS)" "list_all plain_name (concat (map snd VECTORS))"
  "list_all plain_name (concat (map (\<lambda>(_, v). velocity_columns v) VELOCITIES))" "list_all plain_name (velocity_columns WATER_VELOCITY)"
  "list_all plain_name VELOCITY_BASIS" "list_all plain_name ESTIMATED_FIELDS" "list_all plain_name ESTIMATED_EXTRA"
  unfolding sensor_fields by code_simp+

lemma imc_columns_plain: "list_all plain_text (imc_columns opts)" "2 \<le> length (imc_columns opts)"
proof -
  have "list_all plain_name (imc_columns opts)"
    unfolding imc_columns_def imc_velocities_def using imc_names_plain by simp
  then show "list_all plain_text (imc_columns opts)" by (auto simp: list_all_iff plain_name_text)
qed (simp add: imc_columns_def)

lemma imc_table_read_back:
  assumes "convert_rows opts data = Inr st"
  shows "csv_reader strict (csv_text (imc_columns opts) (is_rows st))
    = (imc_columns opts # map (row_texts (imc_columns opts)) (is_rows st), None)"
proof (rule plain_table [OF imc_columns_plain(2,1)])
  show "list_all plain_cells (is_rows st)" using convert_typed [OF assms] typed_plain by (auto simp: list_all_iff)
qed

section \<open>Scalar sensors\<close>

text \<open>A scalar sensor without scale and bias is reported with exactly the number of its payload; a negative sound
  speed, the sentinel of that message, is reported as unavailable and without a value.\<close>

theorem imc_scalar_exact:
  assumes "imc_reading_of opts f = Inr q" "(ih_message (if_head f), s) \<in> set SENSORS"
    and "sr_scale s = 1" "sr_bias s = fl_int 0"
  shows "if ih_message (if_head f) = 267 \<and> val_of (sensor_value s f) < 0
    then row_get (imc_row f q) (sr_field s) = CNone \<and>
      row_get (imc_row f q) ''measurement_status'' = CStr ''UNAVAILABLE_SOURCE_SENTINEL''
    else (\<exists>x. row_get (imc_row f q) (sr_field s) = CFloat x \<and> val_of x = val_of (sensor_value s f)) \<and>
      row_get (imc_row f q) ''measurement_status'' = CStr ''REPORTED''"
proof -
  have m: "map_of SENSORS (ih_message (if_head f)) = Some s"
    by (rule map_of_is_SomeI [OF _ assms(2)]) (simp add: sensor_messages)
  have "ih_message (if_head f) \<in> set (map fst SENSORS)" using assms(2) by force
  then have none: "ih_message (if_head f) \<noteq> 350" "map_of (imc_velocities opts) (ih_message (if_head f)) = None"
    "map_of VECTORS (ih_message (if_head f)) = None"
    unfolding sensor_messages by (auto simp: imc_velocities_def VELOCITIES_def VECTORS_def)
  from assms(1) have r: "sensor_reading s f = Inr q" using none m by (simp add: imc_reading_of_def)
  let ?v = "sensor_value s f"
  have fin: "is_finite ?v" using r by (auto simp: sensor_reading_def Let_def split: if_splits)
  then obtain sg mt ex where v: "?v = Fin sg mt ex" by (cases ?v) auto
  have rng: "in_binary64 ?v" using f64_range f32_range by (simp add: sensor_value_def)
  have neg: "fl_less ?v (fl_int 0) \<longleftrightarrow> val_of ?v < 0"
    using fl_less_value [OF fin, of "fl_int 0"] by (simp add: fl_int_def)
  have n: "val_of (normalized_value s ?v) = val_of ?v"
  proof -
    from fl_mul_one [of sg mt ex] rng v have 1: "val_of (fl_mul ?v (fl_int 1)) = val_of ?v" "is_finite (fl_mul ?v (fl_int 1))"
      "in_binary64 (fl_mul ?v (fl_int 1))" by simp_all
    then obtain sg' mt' ex' where w: "fl_mul ?v (fl_int 1) = Fin sg' mt' ex'" by (cases "fl_mul ?v (fl_int 1)") auto
    from fl_add_zero [of sg' mt' ex'] 1 show ?thesis by (simp add: normalized_value_def assms(3,4) w)
  qed
  have "sr_field s \<in> set (map (\<lambda>(_, s). sr_field s) SENSORS)" using assms(2) by force
  then have "sr_field s \<noteq> ''measurement_status''" unfolding sensor_fields by auto
  then have st: "row_get (imc_row f q) ''measurement_status'' = CStr (ir_status q)"
    and base: "row_get (imc_row f q) (sr_field s) = c" if "ir_quantities q = [(sr_field s, c)]" for c
    using that by (simp_all add: imc_row_def Let_def row_get_update) (simp_all add: row_get_def)
  show ?thesis
  proof (cases "ih_message (if_head f) = 267 \<and> val_of ?v < 0")
    case True
    then have "q = \<lparr>ir_quantities = [(sr_field s, CNone)], ir_status = ''UNAVAILABLE_SOURCE_SENTINEL''\<rparr>"
      using r neg by (auto simp: sensor_reading_def Let_def split: if_splits)
    with True base st show ?thesis by (simp add: row_get_def)
  next
    case False
    then have "q = \<lparr>ir_quantities = [(sr_field s, CFloat (normalized_value s ?v))], ir_status = ''REPORTED''\<rparr>"
      using r neg by (auto simp: sensor_reading_def Let_def split: if_splits)
    with False base st n show ?thesis by (simp add: row_get_def)
  qed
qed

end
