(* ===== verification/Imc_Converts.thy ===== *)
theory Imc_Converts
  imports Imc_Rows
begin

text \<open>
  An IMC stream of well-formed frames is converted: the bounds under which no check of \<^verbatim>\<open>convert\<close> can
  fail, and the concrete streams the properties of the decoder are applied to.
\<close>

section \<open>Every row fits the table\<close>

lemma row_keys_zip: "row_keys (zip ks cs) \<subseteq> set ks"
  by (auto simp: row_keys_def dest: set_zip_leftD)

lemma row_keys_append [simp]: "row_keys (a @ b) = row_keys a \<union> row_keys b"
  by (auto simp: row_keys_def)

lemma estimated_keys:
  assumes "estimated_quantities payload order = Inr q"
  shows "row_keys q \<subseteq> set (ESTIMATED_FIELDS @ ESTIMATED_EXTRA)"
proof -
  from assms obtain vs v1 v2 where q: "q = row_update (row_update (row_update (zip ESTIMATED_FIELDS vs)
      (estimate_disposition ''depth'' v1)) (estimate_disposition ''altitude'' v2)) [(''estimated_state_basis'', CStr ESTIMATED_BASIS)]"
    by (auto simp: estimated_quantities_def Let_def split: if_splits)
  have "row_keys (estimate_disposition ''depth'' v) \<subseteq> {''estimated_depth_m'', ''estimated_depth_raw_m'', ''estimated_depth_disposition''}"
    "row_keys (estimate_disposition ''altitude'' v) \<subseteq> {''estimated_altitude_m'', ''estimated_altitude_raw_m'', ''estimated_altitude_disposition''}" for v
    by (simp_all add: estimate_disposition_def)
  moreover have "{''estimated_depth_m'', ''estimated_depth_raw_m'', ''estimated_depth_disposition'', ''estimated_altitude_m'',
      ''estimated_altitude_raw_m'', ''estimated_altitude_disposition'', ''estimated_state_basis''}
    \<subseteq> set (ESTIMATED_FIELDS @ ESTIMATED_EXTRA)"
    by (simp add: ESTIMATED_FIELDS_def ESTIMATED_EXTRA_def)
  moreover have "row_keys (zip ESTIMATED_FIELDS vs) \<subseteq> set (ESTIMATED_FIELDS @ ESTIMATED_EXTRA)"
    using row_keys_zip by fastforce
  ultimately show ?thesis unfolding q row_keys_update row_keys_Cons row_keys_Nil by blast
qed

lemma velocity_keys:
  assumes "velocity_reading v f = Inr q"
  shows "row_keys (ir_quantities q) \<subseteq> set (velocity_columns v @ VELOCITY_BASIS)"
proof (rule velocity_reading_Inr [OF assms])
  fix x y z
  assume c: "velocity_component v (velocity_validity f) ((''x'', 1), component_value f 0) = Inr x"
    "velocity_component v (velocity_validity f) ((''y'', 2), component_value f 1) = Inr y"
    "velocity_component v (velocity_validity f) ((''z'', 4), component_value f 2) = Inr z"
    and q: "ir_quantities q = row_update (row_update (row_update
      [(''velocity_validity_mask_reported'', CInt (velocity_validity f)),
       (''velocity_unknown_validity_bits'', CInt (velocity_validity f AND NOT 7)),
       (''velocity_reference_basis'', CStr (snd (snd v)))] x) y) z"
  show ?thesis
    unfolding q velocity_component_Inr(1) [OF c(1)] velocity_component_Inr(1) [OF c(2)] velocity_component_Inr(1) [OF c(3)]
    by (simp add: velocity_columns_def VELOCITY_BITS_def VELOCITY_BASIS_def)
qed

lemma imc_columns_parts:
  "set (map (\<lambda>(_, s). sr_field s) SENSORS) \<subseteq> set (imc_columns opts)"
  "set (concat (map snd VECTORS)) \<subseteq> set (imc_columns opts)"
  "set (concat (map (\<lambda>(_, v). velocity_columns v) (imc_velocities opts))) \<union> set VELOCITY_BASIS \<subseteq> set (imc_columns opts)"
  "io_estimated_state opts \<Longrightarrow> set (ESTIMATED_FIELDS @ ESTIMATED_EXTRA) \<subseteq> set (imc_columns opts)"
  unfolding imc_columns_def set_append by ((simp only: if_True set_append)?, blast)+

lemma imc_row_keys:
  assumes "imc_reading_of opts f = Inr q" "imc_selected opts (ih_message (if_head f))"
  shows "row_keys (imc_row f q) \<subseteq> set (imc_columns opts)"
proof -
  have base: "row_keys (imc_row f q) \<subseteq> {''record_time_us'', ''source_timestamp_s'', ''source_id'', ''source_entity'', ''message_id'',
      ''source_frame_hex'', ''measurement_status''} \<union> row_keys (ir_quantities q)"
    by (auto simp: imc_row_def Let_def)
  have "row_keys (ir_quantities q) \<subseteq> set (imc_columns opts)"
    using assms(1)
  proof (cases rule: imc_reading_cases)
    case 1
    have "(350 :: int) \<notin> set (map fst SENSORS)" unfolding sensor_messages by simp
    moreover have "(350 :: int) \<notin> fst ` set VECTORS" by (simp add: VECTORS_def)
    moreover have "(350 :: int) \<notin> fst ` set (imc_velocities opts)" by (auto simp: imc_velocities_def VELOCITIES_def)
    ultimately have "io_estimated_state opts" using assms(2) 1(1) by (auto simp: imc_selected_def)
    from order_trans [OF estimated_keys [OF 1(2)] imc_columns_parts(4) [OF this]] show ?thesis .
  next
    case (2 v)
    have "(ih_message (if_head f), v) \<in> set (imc_velocities opts)" using 2(1) by (rule map_of_SomeD)
    from imageI [OF this, of "\<lambda>(_, v). velocity_columns v"]
    have "velocity_columns v \<in> set (map (\<lambda>(_, v). velocity_columns v) (imc_velocities opts))" by simp
    then have "set (velocity_columns v) \<subseteq> set (concat (map (\<lambda>(_, v). velocity_columns v) (imc_velocities opts)))"
      unfolding set_concat by blast
    with velocity_keys [OF 2(2)] show ?thesis using imc_columns_parts(3) [of opts] by (simp only: set_append) blast
  next
    case (3 columns)
    have "(ih_message (if_head f), columns) \<in> set VECTORS" using 3(1) by (rule map_of_SomeD)
    then have "set columns \<subseteq> set (concat (map snd VECTORS))" by force
    moreover have "row_keys (ir_quantities q) \<subseteq> set columns \<union> {''device_time_s'', ''device_clock_basis'', ''axis_frame_basis''}"
      using 3(2) row_keys_zip [of columns] by (fastforce simp: vector_reading_def Let_def split: if_splits)
    moreover have "{''device_time_s'', ''device_clock_basis'', ''axis_frame_basis''} \<subseteq> set (imc_columns opts)"
      by (simp add: imc_columns_def)
    ultimately show ?thesis using imc_columns_parts(2) [of opts] by blast
  next
    case (4 s)
    have "(ih_message (if_head f), s) \<in> set SENSORS" using 4(1) by (rule map_of_SomeD)
    then have "sr_field s \<in> set (map (\<lambda>(_, s). sr_field s) SENSORS)" by force
    moreover have "row_keys (ir_quantities q) = {sr_field s}"
      using 4(2) unfolding sensor_reading_def Let_def by (elim if_failE) (auto dest!: sym [of _ q])
    ultimately have "row_keys (ir_quantities q) \<subseteq> set (map (\<lambda>(_, s). sr_field s) SENSORS)" by simp
    from order_trans [OF this imc_columns_parts(1)] show ?thesis .
  qed
  moreover have "{''record_time_us'', ''source_timestamp_s'', ''source_id'', ''source_entity'', ''message_id'',
      ''source_frame_hex'', ''measurement_status''} \<subseteq> set (imc_columns opts)" by (simp add: imc_columns_def)
  ultimately show ?thesis by (intro order_trans [OF base] Un_least)
qed

section \<open>The bounds\<close>

text \<open>The text of a table of typed rows, and of the retained frames.\<close>

lemma typed_text_bound:
  assumes "list_all plain_name cols" "\<forall>r \<in> set rows. plain_cells r"
  shows "length (csv_text cols rows) \<le> length cols * 123 + 2 + length rows * (length cols * 40003 + 2)"
proof -
  have "sum_list (map (\<lambda>k. 2 * length k + 3) cols) \<le> sum_list (map (\<lambda>k. 123) cols)"
    using assms(1) by (intro sum_list_mono) (auto simp: list_all_iff plain_name_def)
  moreover have "\<forall>r \<in> set rows. \<forall>kv \<in> set r. length (cell_text (snd kv)) \<le> 20000"
    using assms(2) by (auto simp: plain_cells_def list_all_iff plain_text_def)
  from csv_text_cap [OF this, of cols] have "length (csv_text cols rows) \<le> sum_list (map (\<lambda>k. 2 * length k + 3) cols) + 2
      + length rows * (length cols * 40003 + 2)" by simp
  ultimately show ?thesis by (simp add: sum_list_triv)
qed

lemma imc_columns_names: "list_all plain_name (imc_columns opts)" "length (imc_columns opts) \<le> 65"
  unfolding imc_columns_def imc_velocities_def using imc_names_plain
  by (simp_all add: VECTORS_def SENSORS_def VELOCITIES_def velocity_columns_def VELOCITY_BITS_def VELOCITY_BASIS_def
      ESTIMATED_FIELDS_def ESTIMATED_EXTRA_def)

lemma retained_size: "0 \<le> rt_message_id x \<Longrightarrow> rt_message_id x < 65536 \<Longrightarrow> rt_offset x \<le> LIMIT \<Longrightarrow>
  length (dumps (retained_json x)) \<le> 24 * length (rt_frame x) + 400"
proof -
  assume m: "0 \<le> rt_message_id x" "rt_message_id x < 65536" "rt_offset x \<le> LIMIT"
  have "nat (rt_message_id x) < 2 ^ 16" "rt_offset x < 2 ^ 25" using m by (simp_all add: nat_less_iff LIMIT_def)
  from this [THEN nat_digits_count] m show ?thesis
    using dumps_size [of "retained_json x"] by (simp add: retained_json_def int_text_def)
qed

lemma run_items_total:
  assumes "I [] s"
    and "\<And>ys x zs s. xs = ys @ x # zs \<Longrightarrow> I ys s \<Longrightarrow> \<exists>s'. f s x = Inr s' \<and> I (ys @ [x]) s'"
  shows "\<exists>t. run_items f s xs = Inr t \<and> I xs t"
proof -
  have "\<exists>t. run_items f u zs = Inr t \<and> I (ys @ zs) t" if "xs = ys @ zs" "I ys u" for ys zs u
    using that
  proof (induction zs arbitrary: ys u)
    case (Cons z zs)
    then obtain v where v: "f u z = Inr v" "I (ys @ [z]) v" using assms(2) by blast
    with Cons.IH [of "ys @ [z]" v] Cons.prems show ?case by simp
  qed simp
  from this [of "[]" xs s] assms(1) show ?thesis by simp
qed

text \<open>The frame of some fields, and whether the message it carries can be read.\<close>

definition frame_of :: "imc_fields \<Rightarrow> imc_frame" where
  "frame_of m = \<lparr>if_start = 0, if_stop = length (imc_encode m), if_head = fields_head m, if_bytes = imc_encode m\<rparr>"

definition readable :: "imc_options \<Rightarrow> imc_fields \<Rightarrow> bool" where
  "readable opts m \<longleftrightarrow> (imc_selected opts (mf_message m) \<longrightarrow> (\<exists>q. imc_reading_of opts (frame_of m) = Inr q))"

lemma same_frame_reading:
  assumes "if_head f = if_head g" "if_bytes f = if_bytes g"
  shows "imc_reading_of opts f = imc_reading_of opts g"
proof -
  have p: "frame_payload f = frame_payload g" by (simp only: frame_payload_def assms)
  have "velocity_reading v f = velocity_reading v g" for v by (simp only: velocity_reading_def assms p)
  moreover have "vector_reading cs f = vector_reading cs g" for cs by (simp only: vector_reading_def assms p)
  moreover have "sensor_value s f = sensor_value s g" for s by (simp only: sensor_value_def assms p)
  then have "sensor_reading s f = sensor_reading s g" for s by (simp only: sensor_reading_def assms)
  ultimately show ?thesis by (simp only: imc_reading_of_def assms p)
qed

lemma imc_step_total:
  assumes acc: "frames_accounted opts ys st" "length ys < 50" "list_all frame_checked (ys @ [f])"
    and sel: "selected_frame opts f \<Longrightarrow> \<exists>q. imc_reading_of opts f = Inr q"
    and size: "is_report_size st + 24 * length (if_bytes f) + 400 \<le> LIMIT" and off: "if_start f \<le> LIMIT"
  shows "\<exists>st'. imc_take opts st f = Inr st' \<and> is_report_size st' \<le> is_report_size st + 24 * length (if_bytes f) + 400"
proof (cases "selected_frame opts f")
  case True
  then obtain q where q: "imc_reading_of opts f = Inr q" using sel by blast
  let ?cols = "imc_columns opts" and ?rows = "is_rows st @ [imc_row f q]"
  have keys: "row_keys (imc_row f q) \<subseteq> set ?cols" using imc_row_keys [OF q] True by (simp add: selected_frame_def)
  have plain: "\<forall>r \<in> set ?rows. plain_cells r"
  proof -
    have "typed_row r" if "row_of_frame opts g r" "g \<in> set (ys @ [f])" for g r
      using that imc_row_typed acc(3) by (auto simp: row_of_frame_def list_all_iff)
    moreover have "row_of_frame opts f (imc_row f q)" using q by (auto simp: row_of_frame_def)
    ultimately have "list_all2 (\<lambda>g r. typed_row r) (filter (selected_frame opts) ys) (is_rows st)" "typed_row (imc_row f q)"
      using acc(1) by (auto simp: frames_accounted_def elim!: list.rel_mono_strong)
    then show ?thesis using typed_plain by (auto simp: list_all2_conv_all_nth in_set_conv_nth)
  qed
  have "length (is_rows st) = length (filter (selected_frame opts) ys)"
    using acc(1) unfolding frames_accounted_def by (metis list_all2_lengthD)
  also have "\<dots> \<le> length ys" by (rule length_filter_le)
  finally have n: "length ?rows \<le> 50" using acc(2) by simp
  have c: "length ?cols \<le> 65" by (rule imc_columns_names(2))
  then have "length ?cols * 40003 + 2 \<le> 65 * 40003 + 2" by simp
  from mult_le_mono [OF n this] have rb: "length ?rows * (length ?cols * 40003 + 2) \<le> 50 * (65 * 40003 + 2)" .
  have "length (csv_text ?cols ?rows) \<le> length ?cols * 123 + 2 + length ?rows * (length ?cols * 40003 + 2)"
    by (rule typed_text_bound [OF imc_columns_names(1) plain])
  also have "\<dots> \<le> OUTPUT_LIMIT" using rb c by (simp add: OUTPUT_LIMIT_def)
  finally have "length (csv_text ?cols ?rows) \<le> OUTPUT_LIMIT" .
  with q keys True show ?thesis
    by (auto simp: imc_take_def selected_frame_def imc_write_def write_row_def row_keys_def Let_def)
next
  case False
  have h: "imc_header (take 20 (if_bytes f)) = Inr (if_head f)" using acc(3) by (simp add: frame_checked_def)
  have "length (dumps (retained_json (retained_of f))) \<le> 24 * length (if_bytes f) + 400"
    using retained_size [of "retained_of f"] off by (simp add: retained_of_def imc_header_Inr(4) [OF h])
  with False size show ?thesis by (simp add: imc_take_def selected_frame_def imc_retain_def Let_def)
qed

section \<open>A stream of readable frames is converted\<close>

definition message_selected :: "imc_options \<Rightarrow> imc_fields \<Rightarrow> bool" where
  "message_selected opts m = imc_selected opts (mf_message m)"

definition retained_bound :: "imc_frame list \<Rightarrow> nat" where
  "retained_bound fs = sum_list (map (\<lambda>f. 24 * length (if_bytes f) + 400) fs)"

lemma retained_bound_append [simp]: "retained_bound (a @ b) = retained_bound a + retained_bound b"
  by (simp add: retained_bound_def)

lemma retained_bound_eq: "retained_bound fs = 24 * length (concat (map if_bytes fs)) + 400 * length fs"
  by (induction fs) (simp_all add: retained_bound_def)

lemma encoded_frames:
  assumes "list_all imc_well_formed ms" "times_ordered None ms"
  obtains fs where "imc_walk (concat (map imc_encode ms)) 0 None = (fs, None)" "map fields_of fs = ms"
    "list_all frame_checked fs" "concat (map if_bytes fs) = concat (map imc_encode ms)"
    "\<forall>f \<in> set fs. if_start f \<le> length (concat (map imc_encode ms))"
proof -
  let ?data = "concat (map imc_encode ms)"
  from imc_walk_encoded [OF assms, of "[]"] obtain fs where
    w: "imc_walk ?data 0 None = (fs, None)" and f: "map fields_of fs = ms" by auto
  have chk: "list_all frame_checked fs" using imc_walk_checked [of _ ?data 0 None] by (simp add: w list_all_iff)
  moreover have "if_start f \<le> length ?data" if "f \<in> set fs" for f
  proof -
    have "f \<in> set (fst (imc_walk ?data 0 None))" using that by (simp only: w fst_conv)
    then obtain s where st: "imc_step ?data (if_start f) s = Inr f" using imc_frames.walk_read by blast
    have "if_start f \<le> if_stop f" using imc_step_Inr(2) [OF st] by simp
    also have "\<dots> \<le> length ?data" by (rule imc_step_Inr(3) [OF st])
    finally show ?thesis .
  qed
  moreover have "map if_bytes fs = map imc_encode ms"
    unfolding f [symmetric] using chk by (simp add: list_all_iff frame_checked_fields)
  ultimately show thesis using that w f by simp
qed

lemma frame_reading:
  assumes "frame_checked f" "readable opts (fields_of f)" "selected_frame opts f"
  shows "\<exists>q. imc_reading_of opts f = Inr q"
proof -
  note c = frame_checked_fields [OF assms(1)]
  have "imc_reading_of opts (frame_of (fields_of f)) = imc_reading_of opts f"
    by (rule same_frame_reading) (simp_all add: frame_of_def c)
  moreover have "imc_selected opts (mf_message (fields_of f))"
    using assms(3) by (simp add: selected_frame_def fields_of_def Let_def)
  ultimately show ?thesis using assms(2) by (simp add: readable_def)
qed

lemma encoded_converts:
  assumes wf: "list_all imc_well_formed ms" "times_ordered None ms" and read: "list_all (readable opts) ms"
    and bounds: "ms \<noteq> []" "length ms \<le> 50" "length (concat (map imc_encode ms)) \<le> 600000"
    and opts: "io_schema opts \<in> {None, Some NEPTUS_SCHEMA}"
    and some: "io_allow_no_selected opts \<or> list_ex (message_selected opts) ms"
  shows "\<exists>st. convert_rows opts (concat (map imc_encode ms)) = Inr st \<and>
    length (is_rows st) = length (filter (message_selected opts) ms)"
proof (rule encoded_frames [OF wf])
  let ?data = "concat (map imc_encode ms)"
  fix fs
  assume w: "imc_walk ?data 0 None = (fs, None)" and ms: "map fields_of fs = ms" and chk: "list_all frame_checked fs"
    and bytes: "concat (map if_bytes fs) = ?data" and start: "\<forall>f \<in> set fs. if_start f \<le> length ?data"
  have len: "length fs \<le> 50" using bounds(2) ms by auto
  have total_bound: "retained_bound fs \<le> LIMIT"
    unfolding retained_bound_eq bytes using len bounds(3) by (simp add: LIMIT_def)
  let ?I = "\<lambda>ys st. frames_accounted opts ys st \<and> is_report_size st \<le> retained_bound ys"
  have "\<exists>st. run_items (imc_take opts) imc_start fs = Inr st \<and> ?I fs st"
  proof (rule run_items_total [where I = ?I])
    show "?I [] imc_start" by (simp add: frames_accounted_def imc_start_def)
    fix ys x zs st
    assume fs: "fs = ys @ x # zs" and I: "?I ys st"
    have "list_all frame_checked (ys @ [x])" "length ys < 50" using chk len by (simp_all add: fs)
    moreover have "readable opts (fields_of x)" using read ms by (auto simp: fs)
    then have "\<exists>q. imc_reading_of opts x = Inr q" if "selected_frame opts x" using frame_reading chk that by (simp add: fs)
    moreover have "is_report_size st + 24 * length (if_bytes x) + 400 \<le> LIMIT"
      using I total_bound by (simp add: fs retained_bound_def)
    moreover have "if_start x \<le> LIMIT" using start bounds(3) by (auto simp: fs LIMIT_def)
    ultimately obtain st' where st': "imc_take opts st x = Inr st'"
      "is_report_size st' \<le> is_report_size st + 24 * length (if_bytes x) + 400"
      using imc_step_total [of opts ys st x] I by blast
    moreover have "frames_accounted opts (ys @ [x]) st'" using imc_take_accounted I st'(1) by blast
    moreover have "is_report_size st' \<le> retained_bound (ys @ [x])" using st'(2) I by (simp add: retained_bound_def)
    ultimately show "\<exists>st'. imc_take opts st x = Inr st' \<and> ?I (ys @ [x]) st'" by blast
  qed
  then obtain st where st: "run_items (imc_take opts) imc_start fs = Inr st" "frames_accounted opts fs st" by blast
  have "message_selected opts \<circ> fields_of = selected_frame opts"
    by (rule ext) (simp add: message_selected_def selected_frame_def fields_of_def Let_def)
  then have "length (filter (message_selected opts) ms) = length (filter (selected_frame opts) fs)"
    by (simp add: ms [symmetric] filter_map)
  then have rows: "length (is_rows st) = length (filter (message_selected opts) ms)" "rp_decoded_frames (is_report st) = length (is_rows st)"
    using st(2) unfolding frames_accounted_def by (metis list_all2_lengthD)+
  have "imc_encode m \<noteq> []" if "imc_well_formed m" for m using length_imc_encode [OF that] by auto
  then have "?data \<noteq> []" using bounds(1) wf(1) by (cases ms) auto
  moreover have "length ?data \<le> LIMIT" using bounds(3) by (simp add: LIMIT_def)
  moreover have "is_rows st \<noteq> [] \<or> io_allow_no_selected opts" using some rows(1) by (auto simp: list_ex_iff filter_empty_conv)
  ultimately have "convert_rows opts ?data = Inr st"
    using w st(1) opts rows(2) by (simp add: convert_rows_def estimated_selection_def run_gen_def)
  with rows(1) show ?thesis by blast
qed

text \<open>C40. A stream of well-formed frames whose times do not decrease and whose selected messages are readable is converted,
  within fifty frames and 600000 bytes: no bound of the conversion and no check of the table can fail, and the table
  has one row per selected frame. Without a selected frame the option that allows it is needed.\<close>

theorem imc_stream_converts:
  assumes "list_all imc_well_formed ms" "times_ordered None ms" "list_all (readable opts) ms"
    and "ms \<noteq> []" "length ms \<le> 50" "length (concat (map imc_encode ms)) \<le> 600000"
    and "io_schema opts \<in> {None, Some NEPTUS_SCHEMA}"
    and "io_allow_no_selected opts \<or> list_ex (message_selected opts) ms"
  shows "\<exists>st. convert_rows opts (concat (map imc_encode ms)) = Inr st \<and>
    length (is_rows st) = length (filter (message_selected opts) ms)"
  by (rule encoded_converts [OF assms])

section \<open>A concrete stream\<close>

text \<open>A ground velocity with its second component withheld, the sentinel of a sound speed, and a frame without a
  payload in the other byte order that no option selects.\<close>

definition sample_velocity :: imc_fields where
  "sample_velocity = \<lparr>mf_order = LittleEndian, mf_message = 259, mf_time = [0, 0, 0, 0, 0, 0, 0xf0, 0x3f], mf_source = 22,
     mf_entity = 3, mf_destination = [0xff, 0xff, 0xff],
     mf_payload = [13, 0, 0, 0, 0, 0, 0, 0xf8, 0x3f, 0, 0, 0, 0, 0, 0, 0xf8, 0x7f, 0, 0, 0, 0, 0, 0, 0, 0xc0]\<rparr>"

definition sample_sound :: imc_fields where
  "sample_sound = \<lparr>mf_order = LittleEndian, mf_message = 267, mf_time = [0, 0, 0, 0, 0, 0, 0xf0, 0x3f], mf_source = 22,
     mf_entity = 3, mf_destination = [0xff, 0xff, 0xff], mf_payload = [0, 0, 0x80, 0xbf]\<rparr>"

definition sample_other :: imc_fields where
  "sample_other = \<lparr>mf_order = BigEndian, mf_message = 150, mf_time = [0x3f, 0xf0, 0, 0, 0, 0, 0, 0], mf_source = 22,
     mf_entity = 3, mf_destination = [0xff, 0xff, 0xff], mf_payload = []\<rparr>"

definition sample_options :: imc_options where
  "sample_options = \<lparr>io_allow_no_selected = False, io_schema = None, io_water_velocity = False, io_estimated_state = False\<rparr>"

lemmas sample_defs = sample_velocity_def sample_sound_def sample_other_def

lemma sample_times: "fields_time sample_velocity = Fin False 4503599627370496 (- 52)"
  "fields_time sample_sound = Fin False 4503599627370496 (- 52)" "fields_time sample_other = Fin False 4503599627370496 (- 52)"
  by (simp_all add: fields_time_def sample_defs f64_def bslice_def order_int_def bval_def be_int_def float_of_bits_def Let_def)

lemma sample_micros: "record_micros (Fin False 4503599627370496 (- 52)) = Fin False 8589934592000000 (- 33)"
proof -
  have "bit_len 4503599627370496000000 = 72" "bit_len 4503599627370496 = 53" by (simp_all add: bit_len.simps)
  then show ?thesis
    by (simp add: record_micros_def fl_int_def scale2_def round_to_def Let_def binary64_def last_bit_def round_half_even_def)
qed

lemma sample_well_formed: "list_all imc_well_formed [sample_velocity, sample_sound, sample_other]"
  by (simp add: imc_well_formed_def sample_times sample_micros fl_le_def fl_int_def fl_units_def)
    (simp add: sample_defs)

lemma sample_ordered: "times_ordered None [sample_velocity, sample_sound, sample_other]"
  by (simp add: sample_times)

text \<open>The payload of an encoded frame.\<close>

lemma frame_of_fields: "imc_well_formed m \<Longrightarrow> frame_payload (frame_of m) = mf_payload m \<and> if_head (frame_of m) = fields_head m"
proof -
  assume "imc_well_formed m"
  from fields_of_encode [OF this, of 0 "length (imc_encode m)"] have "mf_payload (fields_of (frame_of m)) = mf_payload m"
    by (simp add: frame_of_def)
  then show ?thesis by (simp add: fields_of_def Let_def) (simp add: frame_of_def)
qed

lemmas sample_frames = sample_well_formed [simplified, THEN conjunct1, THEN frame_of_fields]
  sample_well_formed [simplified, THEN conjunct2, THEN conjunct1, THEN frame_of_fields]

lemma sample_reading:
  "imc_reading_of sample_options (frame_of sample_velocity) = Inr \<lparr>ir_quantities =
    [(''reported_ground_velocity_z_m_s'', CFloat (Fin True 4503599627370496 (- 51))),
     (''ground_velocity_z_disposition'', CStr ''REPORTED_VALID''),
     (''reported_ground_velocity_y_m_s'', CNone),
     (''ground_velocity_y_disposition'', CStr ''WITHHELD_COMPONENT_NOT_REPORTED_VALID''),
     (''reported_ground_velocity_x_m_s'', CFloat (Fin False 6755399441055744 (- 52))),
     (''ground_velocity_x_disposition'', CStr ''REPORTED_VALID''),
     (''velocity_validity_mask_reported'', CInt 13), (''velocity_unknown_validity_bits'', CInt 8),
     (''velocity_reference_basis'', CStr (snd (snd (snd (hd VELOCITIES)))))], ir_status = ''REPORTED''\<rparr>"
proof -
  have v: "f64 LittleEndian (mf_payload sample_velocity) 1 = Fin False 6755399441055744 (- 52)"
    "f64 LittleEndian (mf_payload sample_velocity) 9 = NotANumber"
    "f64 LittleEndian (mf_payload sample_velocity) 17 = Fin True 4503599627370496 (- 51)"
    by (simp_all add: sample_defs f64_def bslice_def order_int_def bval_def float_of_bits_def Let_def)
  have h: "mf_message sample_velocity = 259" "mf_order sample_velocity = LittleEndian" "length (mf_payload sample_velocity) = 25"
    "bval (mf_payload sample_velocity ! 0) = 13" by (simp_all add: sample_defs bval_def)
  show ?thesis
    by (simp add: imc_reading_of_def velocity_reading_def sample_frames fields_head_def v h sample_options_def
        imc_velocities_def VELOCITIES_def VELOCITY_BITS_def velocity_component_def Let_def upt_conv_Cons row_update_def v(1) [simplified]
        value_column_def disposition_column_def)
qed

lemma sample_sound_reading:
  "imc_reading_of sample_options (frame_of sample_sound)
    = Inr \<lparr>ir_quantities = [(''sound_speed_m_s'', CNone)], ir_status = ''UNAVAILABLE_SOURCE_SENTINEL''\<rparr>"
proof -
  have v: "f32 LittleEndian (mf_payload sample_sound) 0 = Fin True 8388608 (- 23)"
    by (simp add: sample_defs f32_def bslice_def order_int_def bval_def float_of_bits_def Let_def)
  have h: "mf_message sample_sound = 267" "mf_order sample_sound = LittleEndian" "length (mf_payload sample_sound) = 4"
    by (simp_all add: sample_defs)
  have "map_of SENSORS 267 = Some (f_sensor ''sound_speed_m_s'')" by (simp add: SENSORS_def)
  moreover have "map_of (imc_velocities sample_options) 267 = None" "map_of VECTORS 267 = None"
    by (simp_all add: imc_velocities_def sample_options_def VELOCITIES_def VECTORS_def)
  ultimately have r: "imc_reading_of sample_options (frame_of sample_sound) = sensor_reading (f_sensor ''sound_speed_m_s'') (frame_of sample_sound)"
    by (simp add: imc_reading_of_def sample_frames fields_head_def h)
  have "sensor_value (f_sensor ''sound_speed_m_s'') (frame_of sample_sound) = Fin True 8388608 (- 23)"
    by (simp add: sensor_value_def sample_frames fields_head_def v h)
  moreover have "fl_less (Fin True 8388608 (- 23)) (fl_int 0)" by (simp add: fl_int_def fl_units_def)
  ultimately show ?thesis
    by (simp add: r sensor_reading_def sample_frames fields_head_def h Let_def del: fl_less.simps)
qed

lemma sample_selected: "message_selected sample_options sample_velocity" "message_selected sample_options sample_sound"
  "\<not> message_selected sample_options sample_other"
proof -
  have s: "m \<in> fst ` set SENSORS \<longleftrightarrow> m \<in> {263, 264, 265, 267, 268, 270, 251, 252, 364}" for m
  proof -
    have "fst ` set SENSORS = set (map fst SENSORS)" by (simp only: set_map)
    then show ?thesis by (simp only: sensor_messages) simp
  qed
  show "message_selected sample_options sample_velocity" "message_selected sample_options sample_sound"
    "\<not> message_selected sample_options sample_other"
    by (simp_all add: message_selected_def imc_selected_def s sample_defs sample_options_def VECTORS_def imc_velocities_def VELOCITIES_def)
qed

lemma sample_readable: "list_all (readable sample_options) [sample_velocity, sample_sound, sample_other]"
  using sample_selected by (simp add: readable_def message_selected_def sample_reading sample_sound_reading)

definition sample_stream :: bytes where
  "sample_stream = concat (map imc_encode [sample_velocity, sample_sound, sample_other])"

lemma sample_size: "length (concat (map imc_encode [sample_velocity, sample_sound, sample_other])) \<le> 600000"
  using sample_well_formed by (simp add: length_imc_encode) (simp add: sample_defs)

lemma sample_choice: "io_schema sample_options \<in> {None, Some NEPTUS_SCHEMA}"
  "io_allow_no_selected sample_options \<or> list_ex (message_selected sample_options) [sample_velocity, sample_sound, sample_other]"
  by (simp_all add: sample_selected) (simp add: sample_options_def)

theorem imc_stream_converts_witness:
  "\<exists>st. convert_rows sample_options sample_stream = Inr st \<and> length (is_rows st) = 2"
  using imc_stream_converts [OF sample_well_formed sample_ordered sample_readable _ _ sample_size sample_choice]
  by (simp add: sample_selected sample_stream_def numeral_2_eq_2)

lemma sample_converts: obtains st where "convert_rows sample_options sample_stream = Inr st" "length (is_rows st) = 2"
  using encoded_converts [OF sample_well_formed sample_ordered sample_readable _ _ sample_size sample_choice]
  by (auto simp: sample_selected sample_stream_def numeral_2_eq_2)

theorem imc_frames_accounted_witness:
  "\<exists>st fs. convert_rows sample_options sample_stream = Inr st \<and> length (is_rows st) = 2 \<and>
    concat (map if_bytes fs) = sample_stream \<and> list_all frame_checked fs \<and>
    rp_decoded_frames (is_report st) + length (rp_unsupported_frames (is_report st)) = length fs"
proof (rule sample_converts)
  fix st assume st: "convert_rows sample_options sample_stream = Inr st" "length (is_rows st) = 2"
  from imc_frames_accounted [OF st(1)] st show ?thesis by blast
qed

theorem imc_rows_typed_witness:
  "\<exists>st. convert_rows sample_options sample_stream = Inr st \<and> length (is_rows st) = 2 \<and>
    list_all (\<lambda>r. typed_row r \<and> row_keys r \<subseteq> set (imc_columns sample_options)) (is_rows st)"
proof (rule sample_converts)
  fix st assume st: "convert_rows sample_options sample_stream = Inr st" "length (is_rows st) = 2"
  from imc_rows_typed [OF st(1)] st show ?thesis by blast
qed

theorem imc_changed_byte_refused_witness:
  "\<exists>e. convert_rows sample_options (imc_encode sample_velocity
    @ (imc_encode sample_sound)[20 := imc_encode sample_sound ! 20 + 1] @ imc_encode sample_other) = Inl e"
proof -
  have "imc_well_formed sample_velocity" "imc_well_formed sample_sound" using sample_well_formed by simp_all
  moreover from this(2) have "20 < length (imc_encode sample_sound)" by (simp add: length_imc_encode)
  ultimately show ?thesis
    using imc_changed_byte_refused [of "[sample_velocity]" sample_sound 20 "imc_encode sample_sound ! 20 + 1" sample_options
        "imc_encode sample_other"] by simp
qed

theorem velocity_components_withheld_witness:
  "\<exists>q. imc_reading_of sample_options (frame_of sample_velocity) = Inr q \<and>
    row_get (imc_row (frame_of sample_velocity) q) ''reported_ground_velocity_y_m_s'' = CNone \<and>
    row_get (imc_row (frame_of sample_velocity) q) ''ground_velocity_y_disposition'' = CStr ''WITHHELD_COMPONENT_NOT_REPORTED_VALID''"
proof -
  obtain q where q: "imc_reading_of sample_options (frame_of sample_velocity) = Inr q" using sample_reading by blast
  have "mf_message sample_velocity = 259" "mf_payload sample_velocity ! 0 = 13" by (simp_all add: sample_defs)
  then have h: "ih_message (if_head (frame_of sample_velocity)) = 259" "velocity_validity (frame_of sample_velocity) = 13"
    by (simp_all add: sample_frames fields_head_def velocity_validity_def bval_def)
  have "map_of (imc_velocities sample_options) 259 = Some (snd (hd VELOCITIES))"
    by (simp add: imc_velocities_def sample_options_def VELOCITIES_def)
  from velocity_components_withheld [OF q, unfolded h, OF this, of 1] show ?thesis
    by (intro exI [of _ q]) (simp add: q h VELOCITY_BITS_def VELOCITIES_def value_column_def disposition_column_def Let_def)
qed

theorem imc_scalar_exact_witness:
  "\<exists>q. imc_reading_of sample_options (frame_of sample_sound) = Inr q \<and> val_of (sensor_value (f_sensor ''sound_speed_m_s'') (frame_of sample_sound)) < 0 \<and>
    row_get (imc_row (frame_of sample_sound) q) ''sound_speed_m_s'' = CNone"
proof -
  obtain q where q: "imc_reading_of sample_options (frame_of sample_sound) = Inr q" using sample_sound_reading by blast
  have h: "ih_message (if_head (frame_of sample_sound)) = 267" by (simp add: sample_frames fields_head_def) (simp add: sample_defs)
  have m: "(267, f_sensor ''sound_speed_m_s'') \<in> set SENSORS" by (simp add: SENSORS_def)
  have "f32 LittleEndian (mf_payload sample_sound) 0 = Fin True 8388608 (- 23)" "mf_order sample_sound = LittleEndian"
    by (simp_all add: sample_defs f32_def bslice_def order_int_def bval_def float_of_bits_def Let_def)
  then have "val_of (sensor_value (f_sensor ''sound_speed_m_s'') (frame_of sample_sound)) < 0"
    by (simp add: sensor_value_def sample_frames fields_head_def)
  with imc_scalar_exact [OF q, unfolded h, OF m] show ?thesis using q by simp
qed

end
