(* ===== verification/Imc_Packets.thy ===== *)
theory Imc_Packets
  imports Imc_Converts "HOL-Library.AList"
begin

text \<open>
  IMC over UDP: \<^verbatim>\<open>convert_pcap\<close> of \<^verbatim>\<open>scripts/convert_imc_sensors.py\<close> with the IMC payload and without a writer
  declaration. It walks the saved datagrams of a capture, converts every selected payload on its own, reads
  the table of each conversion again and writes its rows with the capture time, the packet and, on request, the flow and
  the VLAN tag.
\<close>

section \<open>The report\<close>

record packet_options =
  po_single_vlan :: bool
  po_water_velocity :: bool
  po_retain_flow :: bool
  po_estimated_state :: bool

definition packet_imc :: "packet_options \<Rightarrow> imc_options" where
  "packet_imc opts = \<lparr>io_allow_no_selected = True, io_schema = None, io_water_velocity = po_water_velocity opts,
     io_estimated_state = po_estimated_state opts\<rparr>"

type_synonym vlan_tag = "int \<times> int"

definition tag_json :: "vlan_tag option \<Rightarrow> (string \<times> json) list" where
  "tag_json tag = (case tag of None \<Rightarrow> []
     | Some (tci, inner) \<Rightarrow> [(''vlan_tci'', JInt tci), (''vlan_inner_ethertype'', JInt inner)])"

definition imc_report_json :: "imc_report \<Rightarrow> json" where
  "imc_report_json rep = JObj [(''source_frames'', JInt (int (rp_source_frames rep))),
     (''decoded_frames'', JInt (int (rp_decoded_frames rep))),
     (''unsupported_frames'', JArr (map retained_json (rp_unsupported_frames rep))), (''clock'', JStr ''Unknown'')]"

text \<open>A selected packet, and a packet with a tag that was not selected.\<close>

record packet_source =
  pq_index :: nat
  pq_frame :: bytes
  pq_capture :: int
  pq_checksum :: string
  pq_tag :: "vlan_tag option"
  pq_imc :: imc_report

definition packet_source_json :: "packet_source \<Rightarrow> json" where
  "packet_source_json x = JObj ([(''packet_index'', JInt (int (pq_index x))), (''packet_hex'', JStr (hex_of (pq_frame x))),
     (''capture_time_us'', JInt (pq_capture x)), (''udp_checksum'', JStr (pq_checksum x))]
     @ tag_json (pq_tag x) @ [(''imc'', imc_report_json (pq_imc x))])"

definition unselected_json :: "nat \<times> vlan_tag \<Rightarrow> json" where
  "unselected_json x = JObj ((''packet_index'', JInt (int (fst x))) # tag_json (Some (snd x))
     @ [(''status'', JStr ''NOT_SELECTED_OR_VALIDATED'')])"

definition PACKET_REPORT_LIMIT :: nat where "PACKET_REPORT_LIMIT = 32 * 1024 * 1024"

text \<open>The columns of the writer are those of the first row; there is no writer before it.\<close>

record packets_state =
  pk_columns :: "string list option"
  pk_rows :: "row list"
  pk_selected :: nat
  pk_unselected :: nat
  pk_decoded :: nat
  pk_sources :: "packet_source list"
  pk_vlan_unselected :: "(nat \<times> vlan_tag) list"
  pk_report_size :: nat

definition packets_start :: packets_state where
  "packets_start = \<lparr>pk_columns = None, pk_rows = [], pk_selected = 0, pk_unselected = 0, pk_decoded = 0, pk_sources = [],
     pk_vlan_unselected = [], pk_report_size = 0\<rparr>"

section \<open>The rows\<close>

text \<open>\<^verbatim>\<open>row.update(...)\<close> on a dictionary in insertion order.\<close>

definition assign_all :: "row \<Rightarrow> row \<Rightarrow> row" where
  "assign_all r cells = foldl (\<lambda>r kc. AList.update (fst kc) (snd kc) r) r cells"

definition packet_cells :: "string \<Rightarrow> saved_datagram \<Rightarrow> row" where
  "packet_cells sha d = [(''record_time_us'', CInt (sd_capture d)), (''pcap_packet_index'', CInt (int (sd_index d))),
     (''pcap_source_sha256'', CStr sha), (''pcap_clock_basis'', CStr ''CAPTURE_REPORTED_NOT_AUTHENTICATED'')]"

definition flow_cells :: "udp_fields \<Rightarrow> row" where
  "flow_cells u = [(''udp_source_address'', CStr (uf_source_address u)), (''udp_source_port'', CInt (uf_source_port u)),
     (''udp_destination_address'', CStr (uf_destination_address u)), (''udp_destination_port'', CInt (uf_destination_port u))]"

definition vlan_cells :: "vlan_tag option \<Rightarrow> row" where
  "vlan_cells tag = [(''vlan_tci'', case tag of None \<Rightarrow> CStr [] | Some t \<Rightarrow> CInt (fst t)),
     (''vlan_inner_ethertype'', case tag of None \<Rightarrow> CStr [] | Some t \<Rightarrow> CInt (snd t))]"

definition datagram_row ::
  "packet_options \<Rightarrow> string \<Rightarrow> saved_datagram \<Rightarrow> udp_fields \<Rightarrow> vlan_tag option \<Rightarrow> text_row \<Rightarrow> row" where
  "datagram_row opts sha d u tag texts =
     (let row = map (\<lambda>(k, s). (k, CStr s)) texts;
          row = AList.update ''imc_payload_time_us'' (CStr (text_get texts ''record_time_us'')) row;
          row = assign_all row (packet_cells sha d);
          row = (if po_retain_flow opts then assign_all row (flow_cells u) else row)
      in if po_single_vlan opts then assign_all row (vlan_cells tag) else row)"

definition write_packet_row ::
  "packet_options \<Rightarrow> string \<Rightarrow> saved_datagram \<Rightarrow> udp_fields \<Rightarrow> vlan_tag option \<Rightarrow> packets_state \<Rightarrow> text_row \<Rightarrow> packets_state result" where
  "write_packet_row opts sha d u tag st texts =
     (let row = datagram_row opts sha d u tag texts;
          cols = (case pk_columns st of None \<Rightarrow> map fst row | Some cols \<Rightarrow> cols) in
      rbind (write_bounded cols (pk_rows st) row) (\<lambda>rows.
        Inr (st\<lparr>pk_columns := Some cols, pk_rows := rows, pk_decoded := pk_decoded st + 1\<rparr>)))"

text \<open>The rows of the table of one payload, read again.\<close>

definition write_payload_rows ::
  "packet_options \<Rightarrow> string \<Rightarrow> saved_datagram \<Rightarrow> udp_fields \<Rightarrow> vlan_tag option \<Rightarrow> string \<Rightarrow> packets_state \<Rightarrow> packets_state result" where
  "write_payload_rows opts sha d u tag normalized st =
     rbind (dict_fieldnames (csv_reader False normalized)) (\<lambda>fieldnames.
       run_gen (\<lambda>st fs. write_packet_row opts sha d u tag st (text_row (case fieldnames of None \<Rightarrow> [] | Some names \<Rightarrow> names) fs))
         st (dict_records (csv_reader False normalized)))"

definition skip_packet :: "packets_state \<Rightarrow> saved_datagram \<Rightarrow> vlan_tag option \<Rightarrow> packets_state result" where
  "skip_packet st d tag =
     (let st = st\<lparr>pk_unselected := pk_unselected st + 1\<rparr> in
      case tag of
        None \<Rightarrow> Inr st
      | Some t \<Rightarrow>
          let kept = (sd_index d, t); n = pk_report_size st + length (dumps (unselected_json kept)) in
          if n > PACKET_REPORT_LIMIT then fail ''packet report exceeds bound''
          else Inr (st\<lparr>pk_vlan_unselected := pk_vlan_unselected st @ [kept], pk_report_size := n\<rparr>))"

definition decode_packet ::
  "packet_options \<Rightarrow> string \<Rightarrow> packets_state \<Rightarrow> saved_datagram \<Rightarrow> udp_fields \<Rightarrow> vlan_tag option \<Rightarrow> packets_state result" where
  "decode_packet opts sha st d u tag =
     rbind (convert_imc (packet_imc opts) (uf_payload u)) (\<lambda>(normalized, payload_report).
       let saved = \<lparr>pq_index = sd_index d, pq_frame = sd_frame d, pq_capture = sd_capture d, pq_checksum = uf_checksum u,
             pq_tag = tag, pq_imc = payload_report\<rparr>;
           n = pk_report_size st + length (dumps (packet_source_json saved)) in
       if n > PACKET_REPORT_LIMIT then fail ''packet report exceeds bound''
       else write_payload_rows opts sha d u tag normalized
         (st\<lparr>pk_sources := pk_sources st @ [saved], pk_selected := pk_selected st + 1, pk_report_size := n\<rparr>))"

definition envelope_of :: "packet_options \<Rightarrow> saved_datagram \<Rightarrow> vlan_tag option result" where
  "envelope_of opts d = (if po_single_vlan opts then single_vlan_envelope (sd_frame d) else Inr None)"

definition take_packet_of :: "packet_options \<Rightarrow> string \<Rightarrow> packets_state \<Rightarrow> saved_datagram \<Rightarrow> packets_state result" where
  "take_packet_of opts sha st d =
     rbind (envelope_of opts d) (\<lambda>tag.
       case sd_udp d of
         None \<Rightarrow> skip_packet st d tag
       | Some u \<Rightarrow> decode_packet opts sha st d u tag)"

record packets_report =
  pr_source_sha256 :: string
  pr_packets :: nat
  pr_linktype :: int
  pr_state :: packets_state

definition convert_pcap :: "dpkt \<Rightarrow> packet_options \<Rightarrow> bytes \<Rightarrow> int \<Rightarrow> (string \<times> packets_report) result" where
  "convert_pcap dk opts data destination_port =
     rbind (read_pcap_records data) (\<lambda>records.
     rbind (run_gen (take_packet_of opts (sha256_ref data)) packets_start
       (iter_udp_datagrams dk data destination_port (Some records) (po_single_vlan opts))) (\<lambda>st.
       case pk_columns st of
         None \<Rightarrow> fail ''no selected packet observations''
       | Some cols \<Rightarrow>
           if pk_decoded st = 0 then fail ''no selected packet observations''
           else Inr (csv_text cols (pk_rows st), \<lparr>pr_source_sha256 = sha256_ref data, pr_packets = length (snd records),
             pr_linktype = fst records, pr_state = st\<rparr>)))"

section \<open>The columns\<close>

definition packet_columns :: "packet_options \<Rightarrow> string list" where
  "packet_columns opts = imc_columns (packet_imc opts)
     @ [''imc_payload_time_us'', ''pcap_packet_index'', ''pcap_source_sha256'', ''pcap_clock_basis'']
     @ (if po_retain_flow opts then [''udp_source_address'', ''udp_source_port'', ''udp_destination_address'', ''udp_destination_port''] else [])
     @ (if po_single_vlan opts then [''vlan_tci'', ''vlan_inner_ethertype''] else [])"

definition NEW_COLUMNS :: "string list" where
  "NEW_COLUMNS = [''imc_payload_time_us'', ''pcap_packet_index'', ''pcap_source_sha256'', ''pcap_clock_basis'',
     ''udp_source_address'', ''udp_source_port'', ''udp_destination_address'', ''udp_destination_port'', ''vlan_tci'', ''vlan_inner_ethertype'']"

lemma old_columns:
  "list_all (\<lambda>k. k \<notin> set NEW_COLUMNS) [''record_time_us'', ''source_timestamp_s'', ''source_id'', ''source_entity'', ''message_id'', ''source_frame_hex'',
      ''measurement_status'', ''device_time_s'', ''device_clock_basis'', ''axis_frame_basis'']"
  "list_all (\<lambda>k. k \<notin> set NEW_COLUMNS) (map (\<lambda>(_, s). sr_field s) SENSORS)" "list_all (\<lambda>k. k \<notin> set NEW_COLUMNS) (concat (map snd VECTORS))"
  "list_all (\<lambda>k. k \<notin> set NEW_COLUMNS) (concat (map (\<lambda>(_, v). velocity_columns v) VELOCITIES))"
  "list_all (\<lambda>k. k \<notin> set NEW_COLUMNS) (velocity_columns WATER_VELOCITY)"
  "list_all (\<lambda>k. k \<notin> set NEW_COLUMNS) VELOCITY_BASIS" "list_all (\<lambda>k. k \<notin> set NEW_COLUMNS) ESTIMATED_FIELDS"
  "list_all (\<lambda>k. k \<notin> set NEW_COLUMNS) ESTIMATED_EXTRA"
  unfolding sensor_fields by code_simp+

lemma new_columns: "k \<in> set (imc_columns opts) \<Longrightarrow> k \<notin> set NEW_COLUMNS"
proof -
  have "list_all (\<lambda>k. k \<notin> set NEW_COLUMNS) (imc_columns opts)"
    unfolding imc_columns_def imc_velocities_def using old_columns by simp
  then show "k \<in> set (imc_columns opts) \<Longrightarrow> k \<notin> set NEW_COLUMNS" by (simp add: list_all_iff)
qed

lemma new_columns_apart:
  "list_all (\<lambda>k. k \<notin> set (imc_columns opts)) NEW_COLUMNS"
  using new_columns by (auto simp: list_all_iff)

lemma record_time_column: "''record_time_us'' \<in> set (imc_columns opts)"
  by (simp add: imc_columns_def)

lemma row_texts_get:
  assumes "k \<in> set cols"
  shows "map_of (map (\<lambda>(k, s). (k, CStr s)) (text_row cols (row_texts cols r))) k = Some (CStr (cell_text (row_get r k)))"
    "text_get (text_row cols (row_texts cols r)) k = cell_text (row_get r k)"
  using assms by (induction cols) (auto simp: text_row_def row_texts_def text_get_def)

lemma map_of_assign: "map_of (assign_all r cells) = map_of (rev cells @ r)"
  unfolding assign_all_def by (induction cells arbitrary: r) (auto simp: update_conv' map_add_def fun_eq_iff split: option.split)

lemma keys_assign:
  assumes "distinct (map fst cells)" "set (map fst cells) \<inter> set (map fst r) = {}"
  shows "map fst (assign_all r cells) = map fst r @ map fst cells"
  using assms unfolding assign_all_def
proof (induction cells arbitrary: r)
  case (Cons c cells)
  have "map fst (AList.update (fst c) (snd c) r) = map fst r @ [fst c]" using Cons.prems by (auto simp: update_keys)
  then show ?case using Cons.IH [of "AList.update (fst c) (snd c) r"] Cons.prems by auto
qed simp

lemma packet_row_keys:
  assumes "map fst texts = imc_columns (packet_imc opts)"
  shows "map fst (datagram_row opts sha d u tag texts) = packet_columns opts"
proof -
  let ?cols = "imc_columns (packet_imc opts)" and ?new = "(''imc_payload_time_us'', CStr (text_get texts ''record_time_us''))"
  let ?base = "map (\<lambda>(k, s). (k, CStr s)) texts"
  have n: "set NEW_COLUMNS \<inter> set ?cols = {}" using new_columns by blast
  have b: "map fst ?base = ?cols" unfolding assms [symmetric] by (auto simp: comp_def split_def)
  define r1 where "r1 = AList.update ''imc_payload_time_us'' (CStr (text_get texts ''record_time_us'')) ?base"
  have "''imc_payload_time_us'' \<notin> set ?cols" using new_columns [of "''imc_payload_time_us''"] by (auto simp: NEW_COLUMNS_def)
  then have k1: "map fst r1 = ?cols @ [''imc_payload_time_us'']" unfolding r1_def update_keys b by simp
  define r2 where "r2 = AList.update ''record_time_us'' (CInt (sd_capture d)) r1"
  have k2: "map fst r2 = ?cols @ [''imc_payload_time_us'']"
    unfolding r2_def update_keys k1 using record_time_column [of "packet_imc opts"] by simp
  define r3 where "r3 = assign_all r2 (tl (packet_cells sha d))"
  have r3: "assign_all r1 (packet_cells sha d) = r3" by (simp add: r3_def r2_def assign_all_def packet_cells_def)
  have k3: "map fst r3 = ?cols @ [''imc_payload_time_us'', ''pcap_packet_index'', ''pcap_source_sha256'', ''pcap_clock_basis'']"
    unfolding r3_def using n by (subst keys_assign) (auto simp: k2 packet_cells_def NEW_COLUMNS_def)
  show ?thesis
    unfolding datagram_row_def Let_def r1_def [symmetric] r3 packet_columns_def
    using n k3 by (auto simp: keys_assign flow_cells_def vlan_cells_def NEW_COLUMNS_def)
qed

definition added_cells :: "packet_options \<Rightarrow> string \<Rightarrow> saved_datagram \<Rightarrow> udp_fields \<Rightarrow> vlan_tag option \<Rightarrow> row" where
  "added_cells opts sha d u tag = packet_cells sha d @ (if po_retain_flow opts then flow_cells u else [])
     @ (if po_single_vlan opts then vlan_cells tag else [])"

lemma packet_row_cells:
  "datagram_row opts sha d u tag texts = assign_all (AList.update ''imc_payload_time_us'' (CStr (text_get texts ''record_time_us''))
    (map (\<lambda>(k, s). (k, CStr s)) texts)) (added_cells opts sha d u tag)"
  by (simp add: datagram_row_def added_cells_def Let_def assign_all_def)

lemma added_cells_keys:
  "set (map fst (added_cells opts sha d u tag)) \<subseteq> insert ''record_time_us'' (set NEW_COLUMNS - {''imc_payload_time_us''})"
  "distinct (map fst (added_cells opts sha d u tag))"
  by (cases "po_retain_flow opts"; cases "po_single_vlan opts";
    simp add: added_cells_def packet_cells_def flow_cells_def vlan_cells_def NEW_COLUMNS_def)+

lemma row_get_packet:
  "(k, c) \<in> set (added_cells opts sha d u tag) \<Longrightarrow> row_get (datagram_row opts sha d u tag texts) k = c"
  "k \<notin> set (map fst (added_cells opts sha d u tag)) \<Longrightarrow> row_get (datagram_row opts sha d u tag texts) k =
    (if k = ''imc_payload_time_us'' then CStr (text_get texts ''record_time_us'') else row_get (map (\<lambda>(k, s). (k, CStr s)) texts) k)"
proof -
  let ?cells = "added_cells opts sha d u tag"
  assume "(k, c) \<in> set ?cells"
  then have "map_of (rev ?cells) k = Some c" using added_cells_keys(2) by (intro map_of_is_SomeI) (simp_all add: rev_map [symmetric])
  then show "row_get (datagram_row opts sha d u tag texts) k = c" by (simp add: packet_row_cells row_get_def map_of_assign map_add_def)
next
  let ?cells = "added_cells opts sha d u tag"
  assume "k \<notin> set (map fst ?cells)"
  then have "map_of (rev ?cells) k = None" by (simp add: map_of_eq_None_iff)
  then show "row_get (datagram_row opts sha d u tag texts) k =
    (if k = ''imc_payload_time_us'' then CStr (text_get texts ''record_time_us'') else row_get (map (\<lambda>(k, s). (k, CStr s)) texts) k)"
    by (simp add: packet_row_cells row_get_def map_of_assign map_add_def update_conv')
qed

text \<open>A row of a payload and the row written for it: the quantities as they were, the capture time in the place of the
  time of the payload, which has a column of its own, and the packet.\<close>

definition row_of_packet ::
  "packet_options \<Rightarrow> string \<Rightarrow> saved_datagram \<Rightarrow> udp_fields \<Rightarrow> vlan_tag option \<Rightarrow> row \<Rightarrow> row \<Rightarrow> bool" where
  "row_of_packet opts sha d u tag r final \<longleftrightarrow>
     map fst final = packet_columns opts \<and>
     list_all (\<lambda>k. k = ''record_time_us'' \<or> row_get final k = CStr (cell_text (row_get r k))) (imc_columns (packet_imc opts)) \<and>
     row_get final ''imc_payload_time_us'' = CStr (cell_text (row_get r ''record_time_us'')) \<and>
     list_all (\<lambda>(k, c). row_get final k = c) (added_cells opts sha d u tag)"

lemma packet_row_read:
  "row_of_packet opts sha d u tag r
    (datagram_row opts sha d u tag (text_row (imc_columns (packet_imc opts)) (row_texts (imc_columns (packet_imc opts)) r)))"
proof -
  let ?cols = "imc_columns (packet_imc opts)"
  let ?texts = "text_row ?cols (row_texts ?cols r)"
  have "map fst ?texts = ?cols" by (simp add: text_row_def row_texts_def)
  then have k: "map fst (datagram_row opts sha d u tag ?texts) = packet_columns opts" by (rule packet_row_keys)
  have q: "row_get (datagram_row opts sha d u tag ?texts) k = CStr (cell_text (row_get r k))"
    if "k \<in> set ?cols" "k \<noteq> ''record_time_us''" for k
  proof -
    have "k \<notin> set NEW_COLUMNS" using that(1) by (rule new_columns)
    then have "k \<notin> set (map fst (added_cells opts sha d u tag))" "k \<noteq> ''imc_payload_time_us''"
      using added_cells_keys(1) [of opts sha d u tag] that(2) by (auto simp: NEW_COLUMNS_def)
    from row_get_packet(2) [OF this(1)] this(2) show ?thesis by (simp add: row_get_def row_texts_get(1) [OF that(1)])
  qed
  have "''imc_payload_time_us'' \<notin> set (map fst (added_cells opts sha d u tag))"
    using added_cells_keys(1) [of opts sha d u tag] by auto
  from row_get_packet(2) [OF this, of ?texts]
  have "row_get (datagram_row opts sha d u tag ?texts) ''imc_payload_time_us'' = CStr (cell_text (row_get r ''record_time_us''))"
    by (simp add: row_texts_get(2) [OF record_time_column])
  then show ?thesis
    unfolding row_of_packet_def using k q by (auto simp: list_all_iff intro: row_get_packet(1))
qed

section \<open>Every datagram is accounted for\<close>

definition chosen :: "saved_datagram \<Rightarrow> bool" where
  "chosen d \<longleftrightarrow> sd_udp d \<noteq> None"

text \<open>The rows of the conversion of the payload of a datagram, each with the datagram.\<close>

definition payload_rows :: "packet_options \<Rightarrow> saved_datagram \<Rightarrow> (saved_datagram \<times> row) list" where
  "payload_rows opts d = (case sd_udp d of None \<Rightarrow> [] | Some u \<Rightarrow>
     (case convert_rows (packet_imc opts) (uf_payload u) of Inl e \<Rightarrow> [] | Inr i \<Rightarrow> map (Pair d) (is_rows i)))"

definition source_of_packet :: "packet_options \<Rightarrow> saved_datagram \<Rightarrow> packet_source \<Rightarrow> bool" where
  "source_of_packet opts d x \<longleftrightarrow> (\<exists>u i. sd_udp d = Some u \<and> convert_rows (packet_imc opts) (uf_payload u) = Inr i \<and>
     pq_imc x = is_report i \<and> pq_index x = sd_index d \<and> pq_frame x = sd_frame d \<and> pq_capture x = sd_capture d \<and>
     pq_checksum x = uf_checksum u \<and> envelope_of opts d = Inr (pq_tag x))"

definition final_row :: "packet_options \<Rightarrow> string \<Rightarrow> saved_datagram \<times> row \<Rightarrow> row \<Rightarrow> bool" where
  "final_row opts sha dr f \<longleftrightarrow> (\<exists>u tag. sd_udp (fst dr) = Some u \<and> envelope_of opts (fst dr) = Inr tag \<and>
     row_of_packet opts sha (fst dr) u tag (snd dr) f)"

definition packets_accounted :: "packet_options \<Rightarrow> string \<Rightarrow> saved_datagram list \<Rightarrow> packets_state \<Rightarrow> bool" where
  "packets_accounted opts sha ds st \<longleftrightarrow>
     pk_selected st = length (filter chosen ds) \<and> pk_unselected st = length (filter (\<lambda>d. \<not> chosen d) ds) \<and>
     list_all2 (source_of_packet opts) (filter chosen ds) (pk_sources st) \<and>
     list_all2 (final_row opts sha) (concat (map (payload_rows opts) ds)) (pk_rows st) \<and>
     pk_decoded st = length (pk_rows st) \<and>
     pk_columns st = (if pk_rows st = [] then None else Some (packet_columns opts))"

lemma run_packet_rows:
  assumes "run_items (\<lambda>st fs. write_packet_row opts sha d u tag st (text_row cols fs)) st (map (row_texts cols) rows) = Inr st'"
    and "cols = imc_columns (packet_imc opts)" "pk_columns st = (if pk_rows st = [] then None else Some (packet_columns opts))"
  shows "\<exists>fs. list_all2 (row_of_packet opts sha d u tag) rows fs \<and>
    st' = st\<lparr>pk_rows := pk_rows st @ fs, pk_decoded := pk_decoded st + length fs,
      pk_columns := (if pk_rows st @ fs = [] then None else Some (packet_columns opts))\<rparr>"
  using assms(1,3)
proof (induction rows arbitrary: st)
  case (Cons r rows)
  let ?f = "datagram_row opts sha d u tag (text_row cols (row_texts cols r))"
  let ?st = "st\<lparr>pk_columns := Some (packet_columns opts), pk_rows := pk_rows st @ [?f], pk_decoded := pk_decoded st + 1\<rparr>"
  have f: "row_of_packet opts sha d u tag r ?f" unfolding assms(2) by (rule packet_row_read)
  then have k: "map fst ?f = packet_columns opts" by (simp add: row_of_packet_def)
  from Cons.prems have "run_items (\<lambda>st fs. write_packet_row opts sha d u tag st (text_row cols fs)) ?st (map (row_texts cols) rows) = Inr st'"
    using k by (auto simp: write_packet_row_def write_bounded_def Let_def result_simps split: if_splits)
  from Cons.IH [OF this] obtain fs where "list_all2 (row_of_packet opts sha d u tag) rows fs"
    "st' = ?st\<lparr>pk_rows := pk_rows ?st @ fs, pk_decoded := pk_decoded ?st + length fs, pk_columns := Some (packet_columns opts)\<rparr>" by auto
  with f show ?case by (intro exI [of _ "?f # fs"]) simp
qed (cases st, auto)

lemma write_payload_Inr:
  assumes "write_payload_rows opts sha d u tag (csv_text cols (is_rows i)) st = Inr st'"
    and "convert_rows (packet_imc opts) payload = Inr i" "cols = imc_columns (packet_imc opts)"
    and "pk_columns st = (if pk_rows st = [] then None else Some (packet_columns opts))"
  shows "\<exists>fs. list_all2 (row_of_packet opts sha d u tag) (is_rows i) fs \<and>
    st' = st\<lparr>pk_rows := pk_rows st @ fs, pk_decoded := pk_decoded st + length fs,
      pk_columns := (if pk_rows st @ fs = [] then None else Some (packet_columns opts))\<rparr>"
proof -
  have table: "csv_reader False (csv_text cols (is_rows i)) = (cols # map (row_texts cols) (is_rows i), None)"
    unfolding assms(3) by (rule imc_table_read_back [OF assms(2)])
  have "row_texts cols r \<noteq> []" for r using record_time_column [of "packet_imc opts"] by (auto simp: row_texts_def assms(3))
  then have "dict_records (csv_reader False (csv_text cols (is_rows i))) = (map (row_texts cols) (is_rows i), None)"
    by (simp add: dict_records_def table)
  then have "run_items (\<lambda>st fs. write_packet_row opts sha d u tag st (text_row cols fs)) st (map (row_texts cols) (is_rows i)) = Inr st'"
    using assms(1) by (simp add: write_payload_rows_def table dict_fieldnames_def run_gen_def rbind_def split: sum.splits)
  from run_packet_rows [OF this assms(3,4)] show ?thesis .
qed

lemma take_packet_accounted:
  assumes "packets_accounted opts sha ds st" "take_packet_of opts sha st d = Inr st'"
  shows "packets_accounted opts sha (ds @ [d]) st'"
proof -
  from assms(2) obtain tag where tag: "envelope_of opts d = Inr tag"
    and t: "(case sd_udp d of None \<Rightarrow> skip_packet st d tag | Some u \<Rightarrow> decode_packet opts sha st d u tag) = Inr st'"
    by (auto simp: take_packet_of_def result_simps)
  show ?thesis
  proof (cases "sd_udp d")
    case None
    with t have "skip_packet st d tag = Inr st'" by simp
    then have "pk_selected st' = pk_selected st \<and> pk_unselected st' = pk_unselected st + 1 \<and> pk_sources st' = pk_sources st \<and>
        pk_rows st' = pk_rows st \<and> pk_decoded st' = pk_decoded st \<and> pk_columns st' = pk_columns st"
      by (auto simp: skip_packet_def Let_def split: option.splits if_splits)
    with assms(1) None show ?thesis by (simp add: packets_accounted_def chosen_def payload_rows_def)
  next
    case (Some u)
    with t have "decode_packet opts sha st d u tag = Inr st'" by simp
    then obtain i where i: "convert_rows (packet_imc opts) (uf_payload u) = Inr i"
      and w: "write_payload_rows opts sha d u tag (csv_text (imc_columns (packet_imc opts)) (is_rows i))
        (st\<lparr>pk_sources := pk_sources st @ [\<lparr>pq_index = sd_index d, pq_frame = sd_frame d, pq_capture = sd_capture d,
             pq_checksum = uf_checksum u, pq_tag = tag, pq_imc = is_report i\<rparr>], pk_selected := pk_selected st + 1,
           pk_report_size := pk_report_size st + length (dumps (packet_source_json \<lparr>pq_index = sd_index d, pq_frame = sd_frame d,
             pq_capture = sd_capture d, pq_checksum = uf_checksum u, pq_tag = tag, pq_imc = is_report i\<rparr>))\<rparr>) = Inr st'"
      by (auto simp: decode_packet_def convert_imc_def Let_def result_simps split: if_splits)
    obtain fs where fs: "list_all2 (row_of_packet opts sha d u tag) (is_rows i) fs" and
      st': "pk_rows st' = pk_rows st @ fs" "pk_decoded st' = pk_decoded st + length fs"
      "pk_columns st' = (if pk_rows st @ fs = [] then None else Some (packet_columns opts))"
      "pk_selected st' = pk_selected st + 1" "pk_unselected st' = pk_unselected st"
      "pk_sources st' = pk_sources st @ [\<lparr>pq_index = sd_index d, pq_frame = sd_frame d, pq_capture = sd_capture d,
             pq_checksum = uf_checksum u, pq_tag = tag, pq_imc = is_report i\<rparr>]"
      using write_payload_Inr [OF w i refl] assms(1) by (auto simp: packets_accounted_def)
    have "list_all2 (final_row opts sha) (payload_rows opts d) fs"
      using fs Some tag by (auto simp: payload_rows_def i list_all2_map1 final_row_def elim!: list.rel_mono_strong)
    moreover have "source_of_packet opts d \<lparr>pq_index = sd_index d, pq_frame = sd_frame d, pq_capture = sd_capture d,
             pq_checksum = uf_checksum u, pq_tag = tag, pq_imc = is_report i\<rparr>"
      using Some tag i by (simp add: source_of_packet_def)
    ultimately show ?thesis
      using assms(1) Some by (auto simp: packets_accounted_def chosen_def st' intro!: list_all2_appendI)
  qed
qed

lemma convert_pcap_Inr:
  assumes "convert_pcap dk opts data port = Inr (out, rep)"
  obtains linktype entries ds where "read_pcap_records data = Inr (linktype, entries)"
    "iter_udp_datagrams dk data port (Some (linktype, entries)) (po_single_vlan opts) = (ds, None)"
    "packets_accounted opts (sha256_ref data) ds (pr_state rep)" "pk_rows (pr_state rep) \<noteq> []"
    "out = csv_text (packet_columns opts) (pk_rows (pr_state rep))" "pr_packets rep = length entries"
    "pr_linktype rep = linktype" "pr_source_sha256 rep = sha256_ref data"
proof -
  from assms obtain linktype entries st cols where r: "read_pcap_records data = Inr (linktype, entries)"
    and g: "run_gen (take_packet_of opts (sha256_ref data)) packets_start
      (iter_udp_datagrams dk data port (Some (linktype, entries)) (po_single_vlan opts)) = Inr st"
    and c: "pk_columns st = Some cols" and o: "out = csv_text cols (pk_rows st)"
    and rep: "rep = \<lparr>pr_source_sha256 = sha256_ref data, pr_packets = length entries, pr_linktype = linktype, pr_state = st\<rparr>"
    by (auto simp: convert_pcap_def result_simps split: option.splits if_splits)
  from g obtain ds where ds: "iter_udp_datagrams dk data port (Some (linktype, entries)) (po_single_vlan opts) = (ds, None)"
    "run_items (take_packet_of opts (sha256_ref data)) packets_start ds = Inr st" by (rule run_gen_InrE)
  have acc: "packets_accounted opts (sha256_ref data) ds st"
  proof (rule run_items_prefix [where I = "packets_accounted opts (sha256_ref data)", OF ds(2)])
    show "packets_accounted opts (sha256_ref data) [] packets_start" by (simp add: packets_accounted_def packets_start_def)
  qed (rule take_packet_accounted)
  then have "pk_rows st \<noteq> []" "cols = packet_columns opts" using c by (auto simp: packets_accounted_def split: if_splits)
  with that r ds(1) acc o rep show thesis by simp
qed

lemma iter_udp_items:
  assumes "iter_udp_datagrams dk data port (Some (linktype, entries)) vlan = (ds, None)"
  shows "map sd_frame ds = fst (dk_reader dk data)" "map sd_index ds = [0..<length ds]"
    "list_all (\<lambda>d. sd_index d < length entries \<and> sd_capture d = entries ! sd_index d \<and>
      udp_datagram dk linktype vlan port (sd_frame d) = Inr (sd_udp d)) ds"
proof -
  let ?decode = "save_datagram dk linktype vlan port" and ?packets = "fst (dk_reader dk data)"
  have w: "packet_walk ?decode entries (snd (dk_reader dk data)) None 0 ?packets = (ds, None)"
    using assms by (auto simp: iter_udp_datagrams_def split: if_splits)
  have dec: "sd_index x = i \<and> sd_capture x = c \<and> sd_frame x = p \<and> udp_datagram dk linktype vlan port p = Inr (sd_udp x)"
    if "?decode i c p = Inr x" for i c p x using that by (auto simp: save_datagram_def result_simps)
  show idx: "map sd_index ds = [0..<length ds]"
    using packet_walk_indexes [of ?decode sd_index entries "snd (dk_reader dk data)" None 0 ?packets] dec by (simp add: w)
  have len: "length ds = length ?packets" using packet_walk_complete [OF w] by simp
  have y: "list_all2 (\<lambda>(i, p) saved. i < length entries \<and> ?decode i (entries ! i) p = Inr saved) (enumerate 0 ?packets) ds"
    using packet_walk_yields [of ?decode entries "snd (dk_reader dk data)" None 0 ?packets ds] len by (simp add: w)
  then have z: "j < length entries \<and> ?decode j (entries ! j) (?packets ! j) = Inr (ds ! j)" if "j < length ds" for j
    using that by (auto simp: list_all2_conv_all_nth nth_enumerate_eq)
  have "sd_frame (ds ! j) = ?packets ! j" if "j < length ds" for j using dec z [OF that] by blast
  then show "map sd_frame ds = ?packets" by (simp add: list_eq_iff_nth_eq len)
  show "list_all (\<lambda>d. sd_index d < length entries \<and> sd_capture d = entries ! sd_index d \<and>
      udp_datagram dk linktype vlan port (sd_frame d) = Inr (sd_udp d)) ds"
    unfolding list_all_length using z dec by metis
qed

text \<open>The conversion of the IMC datagrams of a capture loses no packet and no row: every packet of the capture is walked
  under its index and the capture time of its record, it is selected or counted as unselected, each selected payload
  was converted on its own and is kept whole with its report, and the table has one row for every row of these conversions,
  in order. A row keeps every quantity of its payload, the time of the payload moves to a column of its own, and the
  capture time, the packet, the flow and the tag asked for are those of its datagram.\<close>

theorem imc_packets_accounted:
  assumes "convert_pcap dk opts data port = Inr (out, rep)"
  shows "\<exists>linktype entries ds. read_pcap_records data = Inr (linktype, entries) \<and>
    map sd_frame ds = fst (dk_reader dk data) \<and> map sd_index ds = [0..<length ds] \<and>
    list_all (\<lambda>d. sd_index d < length entries \<and> sd_capture d = entries ! sd_index d \<and>
      udp_datagram dk linktype (po_single_vlan opts) port (sd_frame d) = Inr (sd_udp d)) ds \<and>
    pk_selected (pr_state rep) + pk_unselected (pr_state rep) = length ds \<and>
    list_all2 (source_of_packet opts) (filter chosen ds) (pk_sources (pr_state rep)) \<and>
    list_all2 (final_row opts (sha256_ref data)) (concat (map (payload_rows opts) ds)) (pk_rows (pr_state rep)) \<and>
    pk_decoded (pr_state rep) = length (pk_rows (pr_state rep)) \<and>
    out = csv_text (packet_columns opts) (pk_rows (pr_state rep))"
proof (rule convert_pcap_Inr [OF assms])
  fix linktype entries ds
  assume r: "read_pcap_records data = Inr (linktype, entries)"
    "iter_udp_datagrams dk data port (Some (linktype, entries)) (po_single_vlan opts) = (ds, None)"
    and acc: "packets_accounted opts (sha256_ref data) ds (pr_state rep)"
    and o: "out = csv_text (packet_columns opts) (pk_rows (pr_state rep))"
  have "pk_selected (pr_state rep) + pk_unselected (pr_state rep) = length ds"
    using acc sum_length_filter_compl [of chosen ds] by (simp add: packets_accounted_def)
  then show ?thesis using r(1) iter_udp_items [OF r(2)] acc o unfolding packets_accounted_def by blast
qed

section \<open>A concrete capture\<close>

text \<open>One Ethernet packet whose datagram to port 6002 carries the sound speed frame.\<close>

definition imc_capture :: bytes where
  "imc_capture =
    [212, 195, 178, 161, 2, 0, 4, 0, 0, 0, 0, 0, 0, 0, 0, 0, 0, 0, 1, 0, 1, 0, 0, 0, 1, 0, 0, 0, 5,
     0, 0, 0, 68, 0, 0, 0, 68, 0, 0, 0, 2, 0, 0, 0, 0, 1, 2, 0, 0, 0, 0, 2, 8, 0, 69, 0, 0, 54, 0,
     0, 0, 0, 64, 17, 102, 181, 10, 0, 0, 1, 10, 0, 0, 2, 23, 113, 23, 114, 0, 34, 0, 0, 84, 254,
     11, 1, 4, 0, 0, 0, 0, 0, 0, 0, 240, 63, 22, 0, 3, 255, 255, 255, 0, 0, 128, 191, 83, 243]"

definition sample_packets :: packet_options where
  "sample_packets = \<lparr>po_single_vlan = False, po_water_velocity = False, po_retain_flow = True, po_estimated_state = False\<rparr>"

lemma eight_bits: "(crc16_bit ^^ 8) v
    = crc16_bit (crc16_bit (crc16_bit (crc16_bit (crc16_bit (crc16_bit (crc16_bit (crc16_bit v)))))))"
  by (simp add: numeral_eq_Suc)

lemma sample_sound_bytes: "imc_encode sample_sound =
    [84, 254, 11, 1, 4, 0, 0, 0, 0, 0, 0, 0, 240, 63, 22, 0, 3, 255, 255, 255, 0, 0, 128, 191, 83, 243]"
proof -
  have "crc16 [84, 254, 11, 1, 4, 0, 0, 0, 0, 0, 0, 0, 240, 63, 22, 0, 3, 255, 255, 255, 0, 0, 128, 191] = 0xf353"
    by (simp add: crc16_def crc16_byte_def eight_bits crc16_bit_def)
  moreover have "imc_head_bytes sample_sound @ mf_payload sample_sound =
      [84, 254, 11, 1, 4, 0, 0, 0, 0, 0, 0, 0, 240, 63, 22, 0, 3, 255, 255, 255, 0, 0, 128, 191]"
    by (simp add: imc_head_bytes_def sample_sound_def imc_sync_def)
  moreover have "mf_order sample_sound = LittleEndian" by (simp add: sample_sound_def)
  ultimately show ?thesis by (simp add: imc_encode_def Let_def)
qed

lemma imc_capture_records: "read_pcap_records imc_capture = Inr (1, [1000005])"
  unfolding imc_capture_def by (simp add: pcap_eval)

abbreviation sample_udp :: udp_fields where
  "sample_udp \<equiv> \<lparr>uf_payload = imc_encode sample_sound, uf_checksum = ''NOT_PROVIDED'', uf_source_address = ''10.0.0.1'',
     uf_source_port = 6001, uf_destination_address = ''10.0.0.2'', uf_destination_port = 6002\<rparr>"

abbreviation sample_datagram :: saved_datagram where
  "sample_datagram \<equiv> \<lparr>sd_index = 0, sd_capture = 1000005, sd_frame = drop 40 imc_capture, sd_udp = Some sample_udp\<rparr>"

lemma imc_capture_items:
  "iter_udp_datagrams standard_decoder imc_capture 6002 (Some (1, [1000005])) False = ([sample_datagram], None)"
  unfolding sample_sound_bytes imc_capture_def
  by (simp add: iter_udp_datagrams_def save_datagram_def udp_datagram_def dotted_def packet_eval pcap_eval
      int_text_def nat_digits.simps char_of_def bit_0)

lemma sample_packet_selected: "message_selected (packet_imc sample_packets) sample_sound"
proof -
  have "267 \<in> fst ` set SENSORS" by (simp add: SENSORS_def)
  then show ?thesis by (simp add: message_selected_def imc_selected_def sample_sound_def packet_imc_def)
qed

lemma sample_packet_readable: "readable (packet_imc sample_packets) sample_sound"
proof -
  have "imc_velocities (packet_imc sample_packets) = imc_velocities sample_options"
    by (simp add: imc_velocities_def packet_imc_def sample_packets_def sample_options_def)
  then have "imc_reading_of (packet_imc sample_packets) f = imc_reading_of sample_options f" for f
    by (simp only: imc_reading_of_def)
  then show ?thesis using sample_sound_reading by (simp add: readable_def)
qed

lemma sample_packet_converts:
  obtains i where "convert_rows (packet_imc sample_packets) (imc_encode sample_sound) = Inr i" "length (is_rows i) = 1"
    "rp_source_frames (is_report i) = 1" "rp_decoded_frames (is_report i) = 1" "rp_unsupported_frames (is_report i) = []"
proof -
  let ?opts = "packet_imc sample_packets"
  have wf: "list_all imc_well_formed [sample_sound]" and ord: "times_ordered None [sample_sound]"
    using sample_well_formed by simp_all
  have "io_schema ?opts \<in> {None, Some NEPTUS_SCHEMA}" "io_allow_no_selected ?opts \<or> list_ex (message_selected ?opts) [sample_sound]"
    by (simp_all add: packet_imc_def)
  from encoded_converts [OF wf ord _ _ _ _ this] obtain i where
    i: "convert_rows ?opts (imc_encode sample_sound) = Inr i" "length (is_rows i) = 1"
    using sample_packet_readable sample_packet_selected by (auto simp: sample_sound_bytes)
  obtain fs where fs: "imc_walk (imc_encode sample_sound) 0 None = (fs, None)" "map fields_of fs = [sample_sound]"
    using imc_walk_encoded [OF wf ord, of "[]"] by auto
  have acc: "frames_accounted ?opts fs i" by (rule convert_rows_Inr [OF i(1)]) (simp add: fs(1))
  from fs(2) obtain f where f: "fs = [f]" "fields_of f = sample_sound" by auto
  have "selected_frame ?opts f"
    using sample_packet_selected by (simp add: message_selected_def selected_frame_def flip: f(2)) (simp add: fields_of_def Let_def)
  with acc i(2) have "rp_source_frames (is_report i) = 1" "rp_decoded_frames (is_report i) = 1" "rp_unsupported_frames (is_report i) = []"
    by (simp_all add: frames_accounted_def f(1))
  with that i show thesis by blast
qed

lemma set_assign: "set (assign_all r cells) \<subseteq> set r \<union> set cells"
proof -
  have u: "set (AList.update k v al) \<subseteq> insert (k, v) (set al)" for k :: string and v :: cell and al by (induction al) auto
  show ?thesis unfolding assign_all_def
  proof (induction cells arbitrary: r)
    case (Cons c cells)
    from Cons.IH [of "AList.update (fst c) (snd c) r"] u [of "fst c" "snd c" r] show ?case by auto
  qed simp
qed

lemma sample_row_cells:
  assumes "typed_row r"
  shows "\<forall>kv \<in> set (datagram_row sample_packets (sha256_ref imc_capture) sample_datagram sample_udp None
    (text_row cols (row_texts cols r))). length (cell_text (snd kv)) \<le> 20000"
proof -
  have c: "length (cell_text (row_get r k)) \<le> 20000" for k
  proof (cases "map_of r k")
    case (Some c)
    with map_of_SomeD [OF Some] typed_plain [OF assms] show ?thesis
      by (auto simp: plain_cells_def list_all_iff plain_text_def row_get_def)
  qed (simp add: row_get_def)
  have base: "length (cell_text (snd kv)) \<le> 20000" if "kv \<in> set (map (\<lambda>(k, s). (k, CStr s)) (text_row cols (row_texts cols r)))" for kv
    using that c by (auto simp: text_row_def row_texts_def set_zip)
  have pay: "length (text_get (text_row cols (row_texts cols r)) k) \<le> 20000" for k
    using row_texts_get(2) [of k cols r] c [of k] by (cases "k \<in> set cols")
      (auto simp: text_get_def text_row_def row_texts_def map_of_zip_is_None split: option.splits dest: map_of_SomeD set_zip_leftD)
  have added: "length (cell_text (snd kv)) \<le> 20000"
    if "kv \<in> set (added_cells sample_packets (sha256_ref imc_capture) sample_datagram sample_udp None)" for kv
    using that by (auto simp: added_cells_def packet_cells_def flow_cells_def sample_packets_def int_text_def nat_digits.simps)
  have "set (datagram_row sample_packets (sha256_ref imc_capture) sample_datagram sample_udp None (text_row cols (row_texts cols r)))
    \<subseteq> set (assign_all (map (\<lambda>(k, s). (k, CStr s)) (text_row cols (row_texts cols r)))
      [(''imc_payload_time_us'', CStr (text_get (text_row cols (row_texts cols r)) ''record_time_us''))])
      \<union> set (added_cells sample_packets (sha256_ref imc_capture) sample_datagram sample_udp None)"
    unfolding packet_row_cells using set_assign by (simp add: assign_all_def)
  also have "\<dots> \<subseteq> set (map (\<lambda>(k, s). (k, CStr s)) (text_row cols (row_texts cols r)))
      \<union> {(''imc_payload_time_us'', CStr (text_get (text_row cols (row_texts cols r)) ''record_time_us''))}
      \<union> set (added_cells sample_packets (sha256_ref imc_capture) sample_datagram sample_udp None)"
    using set_assign [of "map (\<lambda>(k, s). (k, CStr s)) (text_row cols (row_texts cols r))"
        "[(''imc_payload_time_us'', CStr (text_get (text_row cols (row_texts cols r)) ''record_time_us''))]"] by auto
  finally show ?thesis using base pay added by fastforce
qed

lemma packet_columns_names: "list_all plain_name (packet_columns opts)" "length (packet_columns opts) \<le> 75"
proof -
  have "list_all plain_name [''imc_payload_time_us'', ''pcap_packet_index'', ''pcap_source_sha256'', ''pcap_clock_basis'']"
    "list_all plain_name [''udp_source_address'', ''udp_source_port'', ''udp_destination_address'', ''udp_destination_port'']"
    "list_all plain_name [''vlan_tci'', ''vlan_inner_ethertype'']" by code_simp+
  then show "list_all plain_name (packet_columns opts)" unfolding packet_columns_def using imc_columns_names(1) by simp
  show "length (packet_columns opts) \<le> 75" using imc_columns_names(2) [of "packet_imc opts"] by (simp add: packet_columns_def)
qed

lemma packet_table_bound:
  assumes "\<forall>kv \<in> set row. length (cell_text (snd kv)) \<le> 20000"
  shows "length (csv_text (packet_columns opts) [row]) \<le> OUTPUT_LIMIT"
proof -
  have "sum_list (map (\<lambda>k. 2 * length k + 3) (packet_columns opts)) \<le> sum_list (map (\<lambda>k. 123) (packet_columns opts))"
    using packet_columns_names(1) [of opts] by (intro sum_list_mono) (auto simp: list_all_iff plain_name_def)
  moreover have "\<forall>r \<in> set [row]. \<forall>kv \<in> set r. length (cell_text (snd kv)) \<le> 20000" using assms by simp
  note csv_text_cap [OF this, of "packet_columns opts"]
  ultimately show ?thesis using packet_columns_names(2) [of opts] by (simp add: sum_list_triv OUTPUT_LIMIT_def)
qed

lemma sample_packet_taken:
  obtains st where "take_packet_of sample_packets (sha256_ref imc_capture) packets_start sample_datagram = Inr st" "length (pk_rows st) = 1"
    "pk_columns st = Some (packet_columns sample_packets)" "pk_decoded st = 1"
proof (rule sample_packet_converts)
  let ?cols = "imc_columns (packet_imc sample_packets)" and ?sha = "sha256_ref imc_capture"
  fix i
  assume i: "convert_rows (packet_imc sample_packets) (imc_encode sample_sound) = Inr i" "length (is_rows i) = 1"
    "rp_source_frames (is_report i) = 1" "rp_decoded_frames (is_report i) = 1" "rp_unsupported_frames (is_report i) = []"
  from i(2) obtain r where r: "is_rows i = [r]" by (auto simp: length_Suc_conv)
  have typed: "typed_row r" using convert_typed [OF i(1)] by (simp add: r)
  define row where "row = datagram_row sample_packets ?sha sample_datagram sample_udp None (text_row ?cols (row_texts ?cols r))"
  define saved where "saved = \<lparr>pq_index = 0, pq_frame = drop 40 imc_capture, pq_capture = 1000005, pq_checksum = ''NOT_PROVIDED'',
    pq_tag = None, pq_imc = is_report i\<rparr>"
  have "length (drop 40 imc_capture) = 68" unfolding imc_capture_def by simp
  then have "length (dumps (packet_source_json saved)) \<le> PACKET_REPORT_LIMIT"
    using dumps_size [of "packet_source_json saved"] i(3-5)
    by (simp add: packet_source_json_def saved_def tag_json_def imc_report_json_def int_text_def nat_digits.simps PACKET_REPORT_LIMIT_def)
  then have fits: "\<not> pk_report_size packets_start + length (dumps (packet_source_json saved)) > PACKET_REPORT_LIMIT" by (simp add: packets_start_def)
  have keys: "map fst row = packet_columns sample_packets" unfolding row_def by (rule packet_row_keys) (simp add: text_row_def row_texts_def)
  have "length (csv_text (packet_columns sample_packets) [row]) \<le> OUTPUT_LIMIT"
    unfolding row_def by (intro packet_table_bound sample_row_cells typed)
  moreover have "row_keys row \<subseteq> set (packet_columns sample_packets)" by (simp add: row_keys_def flip: keys)
  ultimately have w: "write_bounded (packet_columns sample_packets) [] row = Inr [row]"
    by (simp add: write_bounded_def write_row_def row_keys_def image_subset_iff)
  let ?st = "packets_start\<lparr>pk_sources := pk_sources packets_start @ [saved], pk_selected := pk_selected packets_start + 1,
    pk_report_size := pk_report_size packets_start + length (dumps (packet_source_json saved))\<rparr>"
  have table: "csv_reader False (csv_text ?cols (is_rows i)) = ([?cols, row_texts ?cols r], None)"
    using imc_table_read_back [OF i(1), of False] by (simp add: r)
  have "row_texts ?cols r \<noteq> []" using record_time_column [of "packet_imc sample_packets"] by (auto simp: row_texts_def)
  then have "write_payload_rows sample_packets ?sha sample_datagram sample_udp None (csv_text ?cols (is_rows i)) ?st
      = Inr (?st\<lparr>pk_columns := Some (packet_columns sample_packets), pk_rows := [row], pk_decoded := 1\<rparr>)"
    by (simp add: write_payload_rows_def table dict_fieldnames_def dict_records_def run_gen_def write_packet_row_def Let_def
        row_def [symmetric] keys w packets_start_def)
  then have "take_packet_of sample_packets ?sha packets_start sample_datagram
      = Inr (?st\<lparr>pk_columns := Some (packet_columns sample_packets), pk_rows := [row], pk_decoded := 1\<rparr>)"
    using fits by (simp add: take_packet_of_def envelope_of_def sample_packets_def [THEN arg_cong, of po_single_vlan] decode_packet_def
        convert_imc_def i(1) Let_def saved_def [symmetric])
  from that [OF this] show thesis by simp
qed

theorem imc_packets_accounted_witness:
  "\<exists>out rep ds. convert_pcap standard_decoder sample_packets imc_capture 6002 = Inr (out, rep) \<and>
    length (pk_rows (pr_state rep)) = 1 \<and> list_all2 (source_of_packet sample_packets) (filter chosen ds) (pk_sources (pr_state rep)) \<and>
    list_all2 (final_row sample_packets (sha256_ref imc_capture)) (concat (map (payload_rows sample_packets) ds)) (pk_rows (pr_state rep))"
proof (rule sample_packet_taken)
  fix st
  assume st: "take_packet_of sample_packets (sha256_ref imc_capture) packets_start sample_datagram = Inr st" "length (pk_rows st) = 1"
    "pk_columns st = Some (packet_columns sample_packets)" "pk_decoded st = 1"
  have "po_single_vlan sample_packets = False" by (simp add: sample_packets_def)
  then obtain out rep where c: "convert_pcap standard_decoder sample_packets imc_capture 6002 = Inr (out, rep)" and s: "pr_state rep = st"
    using st by (simp add: convert_pcap_def imc_capture_records imc_capture_items run_gen_def)
  from imc_packets_accounted [OF c] c s st(2) show ?thesis by blast
qed

end
