(* ===== verification/Pcapng_Packets.thy ===== *)
theory Pcapng_Packets
  imports Pcapng Imc_Packets
begin

text \<open>
  \<^verbatim>\<open>convert\<close>, \<^verbatim>\<open>convert_path\<close> and \<^verbatim>\<open>compose\<close> of \<^verbatim>\<open>scripts/convert_pcapng_udp.py\<close> with the IMC payload: the derived
  capture is converted as a classic one, and its table and its report are rewritten to point at the packets of the
  original source.
\<close>

section \<open>The composition\<close>

text \<open>\<^verbatim>\<open>convert_pcap(derived, port)\<close> without further options.\<close>

definition plain_packets :: packet_options where
  "plain_packets = \<lparr>po_single_vlan = False, po_water_velocity = False, po_retain_flow = False, po_estimated_state = False\<rparr>"

text \<open>A selected source: under a window its index is the one of the original, and its own is kept beside it.\<close>

definition original_source :: "ng_provenance \<Rightarrow> packet_source \<Rightarrow> (packet_source \<times> nat option) result" where
  "original_source prov x =
     (if np_window prov = None then Inr (x, None)
      else rbind (item_at (np_packets prov) (pq_index x)) (\<lambda>p.
        Inr (x\<lparr>pq_index := ns_packet_index p\<rparr>, Some (pq_index x))))"

text \<open>One row of the table read again.\<close>

definition original_row :: "ng_provenance \<Rightarrow> string \<Rightarrow> string list \<Rightarrow> row list \<Rightarrow> string list \<Rightarrow> row list result" where
  "original_row prov original_sha names out fs =
     (let texts = text_row names fs;
          row = AList.update ''pcap_source_sha256'' (CStr original_sha) (map (\<lambda>(k, s). (k, CStr s)) texts) in
      rbind (item_at (np_packets prov) (nat (decimal_value (text_get texts ''pcap_packet_index'')))) (\<lambda>p.
        write_row names (AList.update ''pcap_packet_index'' (CInt (int (ns_packet_index p))) row) out))"

record ng_report =
  nr_original_sha :: string
  nr_provenance :: ng_provenance
  nr_packets :: packets_report
  nr_sources :: "(packet_source \<times> nat option) list"

text \<open>\<^verbatim>\<open>encoded\<close> sorts the keys, which does not change the length of the text.\<close>

definition saved_json :: "ng_saved \<Rightarrow> json" where
  "saved_json p = JObj [(''packet_index'', JInt (int (ns_packet_index p))), (''block_ordinal'', JInt (int (ns_block_ordinal p))),
     (''block_byte_offset'', JInt (int (ns_block_byte_offset p))), (''timestamp_ticks'', JInt (ns_timestamp_ticks p)),
     (''capture_time_us'', JInt (ns_capture_time_us p)), (''captured_length'', JInt (int (ns_captured_length p))),
     (''original_length'', JInt (int (ns_original_length p))), (''interface_id'', JInt 0)]"

definition window_json :: "ng_window \<Rightarrow> json" where
  "window_json w = JObj [(''start_us'', JInt (nw_start_us w)), (''stop_us'', JInt (nw_stop_us w)),
     (''original_packets'', JInt (int (nw_original_packets w))), (''selected_packets'', JInt (int (nw_selected_packets w))),
     (''excluded_packets'', JInt (int (nw_excluded_packets w))), (''original_bytes'', JInt (int (nw_original_bytes w))),
     (''original_sha256'', JStr (nw_original_sha256 w)),
     (''excluded_payload_status'', JStr ''NOT_DECODED_OR_CHECKSUM_VALIDATED'')]"

definition provenance_json :: "ng_provenance \<Rightarrow> json" where
  "provenance_json prov = JObj ([(''section_version'', JStr ''1.0''),
     (''byte_order'', JStr (case np_byte_order prov of LittleEndian \<Rightarrow> ''<'' | BigEndian \<Rightarrow> ''>'')),
     (''snaplen'', case np_snaplen prov of None \<Rightarrow> JNull | Some s \<Rightarrow> JInt s),
     (''timestamp_units_per_second'', JInt (np_divisor prov)), (''timestamp_offset_seconds'', JInt (np_time_offset prov)),
     (''packets'', JArr (map saved_json (np_packets prov)))]
     @ (case np_window prov of None \<Rightarrow> [] | Some w \<Rightarrow> [(''window'', window_json w)]))"

definition original_source_json :: "packet_source \<times> nat option \<Rightarrow> json" where
  "original_source_json x = (case packet_source_json (fst x) of
     JObj kvs \<Rightarrow> JObj (kvs @ (case snd x of None \<Rightarrow> [] | Some i \<Rightarrow> [(''window_packet_index'', JInt (int i))]))
   | j \<Rightarrow> j)"

definition ng_report_json :: "ng_report \<Rightarrow> json" where
  "ng_report_json rep = (let st = pr_state (nr_packets rep) in
     JObj ([(''source_sha256'', JStr (nr_original_sha rep)), (''packets'', JInt (int (pr_packets (nr_packets rep)))),
       (''selected_packets'', JInt (int (pk_selected st))), (''unselected_packets'', JInt (int (pk_unselected st))),
       (''decoded_records'', JInt (int (pk_decoded st))), (''selected_sources'', JArr (map original_source_json (nr_sources rep))),
       (''clock'', JStr ''Unknown''), (''linktype'', JInt (pr_linktype (nr_packets rep))),
       (''unselected_status'', JStr ''NOT_DECODED_OR_VALIDATED''), (''source_format'', JStr ''qualified PCAPNG 1.0''),
       (''derived_capture_sha256'', JStr (pr_source_sha256 (nr_packets rep))), (''pcapng'', provenance_json (nr_provenance rep)),
       (''original_required'', JStr ''Exact PCAPNG retained; hashes are not producer authentication'')]
       @ (if np_window (nr_provenance rep) = None then [] else [(''packet_count_scope'', JStr ''SELECTED_INTERVAL_ONLY'')])))"

definition compose_pcapng ::
  "dpkt \<Rightarrow> bytes \<Rightarrow> ng_provenance \<Rightarrow> string \<Rightarrow> int \<Rightarrow> ((string list \<times> row list) \<times> ng_report) result" where
  "compose_pcapng dk derived prov original_sha port =
     rbind (convert_pcap dk plain_packets derived port) (\<lambda>(table, packets).
     rbind (run_items (\<lambda>out x. rbind (original_source prov x) (\<lambda>y. Inr (out @ [y]))) [] (pk_sources (pr_state packets))) (\<lambda>sources.
     rbind (dict_fieldnames (csv_reader False table)) (\<lambda>fieldnames.
       let names = (case fieldnames of None \<Rightarrow> [] | Some names \<Rightarrow> names) in
       rbind (run_gen (original_row prov original_sha names) [] (dict_records (csv_reader False table))) (\<lambda>rows.
         let rep = \<lparr>nr_original_sha = original_sha, nr_provenance = prov, nr_packets = packets, nr_sources = sources\<rparr> in
         if length (csv_text names rows) > OUTPUT_LIMIT \<or> length (dumps (ng_report_json rep)) > NG_REPORT_LIMIT
         then fail ''output bound exceeded'' else Inr ((names, rows), rep)))))"

text \<open>The exceptions of the block decoder are one refusal.\<close>

definition structure_checked :: "'a result \<Rightarrow> 'a result" where
  "structure_checked r = (case r of
     Inl e \<Rightarrow> if e \<in> {UnpackError, StructError, IndexError, UnicodeError} then fail ''invalid PCAPNG structure'' else Inl e
   | Inr x \<Rightarrow> Inr x)"

definition convert_pcapng :: "dpkt_ng \<Rightarrow> dpkt \<Rightarrow> bytes \<Rightarrow> int \<Rightarrow> ((string list \<times> row list) \<times> ng_report) result" where
  "convert_pcapng ng dk data port =
     rbind (structure_checked (qualify ng data)) (\<lambda>(derived, prov). compose_pcapng dk derived prov (sha256_ref data) port)"

definition convert_pcapng_path ::
  "dpkt_ng \<Rightarrow> dpkt \<Rightarrow> bytes \<Rightarrow> int \<Rightarrow> int option \<Rightarrow> int option \<Rightarrow> ((string list \<times> row list) \<times> ng_report) result" where
  "convert_pcapng_path ng dk source port start_us stop_us =
     rbind (structure_checked (qualify_stream ng source start_us stop_us)) (\<lambda>(derived, prov).
       case np_window prov of
         None \<Rightarrow> Inl KeyError
       | Some w \<Rightarrow> compose_pcapng dk derived prov (nw_original_sha256 w) port)"

section \<open>Interfaces without a limit\<close>

text \<open>A capture whose interface declares no snapshot length, or one above the bound of the classic reader, qualifies
  but is never converted: the classic header derived for it carries a length that reader refuses.\<close>

theorem pcapng_unlimited_refused:
  assumes "qualify ng data = Inr (derived, prov)" "np_snaplen prov = Some s" "s = 0 \<or> int LIMIT < s"
  shows "convert_pcapng ng dk data port = Inl (ValueError ''PCAP2.4 Ethernet or plain IEEE802.11 layout required'')"
proof -
  from assms(1) have q: "qualify_stream ng data None None = Inr (derived, prov)" by (auto simp: qualify_def split: if_splits)
  have "window_of None None = Inr None" by (simp add: window_of_def)
  from qualify_stream_Inr [OF q this] obtain seen where d: "0 \<le> s" "s \<le> 0xffffffff" "length derived \<le> LIMIT"
    "derived = classic_header s @ concat (map seen_record seen)"
    using assms(2) by (metis (no_types, lifting) option.inject)
  have "bslice derived 0 24 = classic_header s" by (simp add: d(4) bslice_def)
  moreover have "pcap_header (classic_header s) = fail ''PCAP2.4 Ethernet or plain IEEE802.11 layout required''"
    using classic_header_read [OF d(1,2)] assms(3) by auto
  moreover have "24 \<le> length derived" by (simp add: d(4))
  ultimately have "read_pcap_records derived = fail ''PCAP2.4 Ethernet or plain IEEE802.11 layout required''"
    using d(3) by (simp add: read_pcap_records_def)
  then show ?thesis
    by (simp add: convert_pcapng_def structure_checked_def assms(1) compose_pcapng_def convert_pcap_def)
qed

section \<open>The packet table read again\<close>

lemma walk_times:
  "e \<in> set (fst (pcap_walk fmt data off)) \<Longrightarrow> pf_divisor fmt \<in> {1, 1000} \<Longrightarrow> 0 \<le> entry_ns e div 1000 \<and> entry_ns e div 1000 < 2 ^ 63"
proof -
  assume e: "e \<in> set (fst (pcap_walk fmt data off))" and d: "pf_divisor fmt \<in> {1, 1000}"
  have "pcap_step fmt data (entry_start e) () = Inr e" using e pcap_frames.walk_read [of e fmt data off] by simp
  then obtain h av n where h: "pcap_record_header h fmt av = Inr (entry_ns e, n)"
    by (cases e) (auto simp: pcap_step_def result_simps)
  then have ns: "entry_ns e = u32 (pf_order fmt) h 0 * 1000000000 + u32 (pf_order fmt) h 4 * (1000 div pf_divisor fmt)"
    and f: "u32 (pf_order fmt) h 4 < 1000000 * pf_divisor fmt" by (auto simp: pcap_record_header_def Let_def split: if_splits)
  show ?thesis using d f u32_bounds [of "pf_order fmt" h 0] u32_bounds(1) [of "pf_order fmt" h 4] by (auto simp: ns simp del: u32_bounds)
qed

lemma record_walk_count: "length (fst (pcap_walk fmt data off)) \<le> length data - off"
  by (induction off "()" rule: pcap_frames.walk_induct [where raw = data and fmt = fmt])
    (auto simp: pcap_frames.walk_end pcap_frames.walk_error pcap_frames.walk_step)

lemma record_times:
  assumes "read_pcap_records data = Inr (linktype, entries)"
  shows "length entries < 2 ^ 63" "\<forall>c \<in> set entries. 0 \<le> c \<and> c < 2 ^ 63"
proof -
  from assms obtain fmt es where h: "pcap_header (bslice data 0 24) = Inr fmt" and w: "pcap_walk fmt data 24 = (es, None)"
    and e: "entries = map (\<lambda>e. entry_ns e div 1000) es" and l: "length data \<le> LIMIT"
    by (auto simp: read_pcap_records_def result_simps split: if_splits)
  from h obtain m where "map_of pcap_magic m = Some (pf_order fmt, pf_divisor fmt)"
    by (auto simp: pcap_header_def Let_def split: option.splits if_splits)
  then have "pf_divisor fmt \<in> {1, 1000}" by (auto simp: pcap_magic_def split: if_splits)
  then show "\<forall>c \<in> set entries. 0 \<le> c \<and> c < 2 ^ 63" using walk_times [of _ fmt data 24] by (auto simp: e w)
  have "length entries \<le> length data" using record_walk_count [of fmt data 24] by (simp add: e w)
  then show "length entries < 2 ^ 63" using l by (simp add: LIMIT_def)
qed

lemma decimal_nat_digits: "decimal_value (nat_digits n) = int n"
proof (induction n rule: nat_digits.induct)
  case (1 n)
  have app: "decimal_value (xs @ [c]) = decimal_value xs * 10 + (int (of_char c) - 48)" for xs c
    by (simp add: decimal_value_def)
  show ?case
  proof (cases "n < 10")
    case True
    then show ?thesis by (simp add: nat_digits.simps [of n] decimal_value_def of_char_of)
  next
    case False
    have "n mod 10 < 10" by simp
    then have "int (of_char (char_of (48 + n mod 10))) - 48 = int (n mod 10)" by (simp add: of_char_of)
    with 1 [OF False] False show ?thesis
      by (simp add: nat_digits.simps [of n] app) (simp add: zdiv_int zmod_int flip: mult.commute [of 10])
  qed
qed

text \<open>What a row of the packet table holds, and that its texts need no quotes.\<close>

lemma plain_sha: "plain_text (sha256_ref m)"
  using hex_of_chars [of "sha256 m"] by (auto simp: plain_text_def sha256_ref_def sha256_hex_def csv_special_def)

lemma plain_row_texts:
  assumes "row_of_packet plain_packets (sha256_ref data) d u tag r f" "typed_row r"
    and "0 \<le> sd_capture d" "sd_capture d < 2 ^ 63" "sd_index d < 2 ^ 63"
  shows "list_all plain_text (row_texts (packet_columns plain_packets) f)"
    "row_get f ''pcap_packet_index'' = CInt (int (sd_index d))" "row_get f ''record_time_us'' = CInt (sd_capture d)"
proof -
  let ?cols = "imc_columns (packet_imc plain_packets)"
  have cells: "list_all (\<lambda>(k, c). row_get f k = c) (packet_cells (sha256_ref data) d)"
    and q: "k \<in> set ?cols \<Longrightarrow> k = ''record_time_us'' \<or> row_get f k = CStr (cell_text (row_get r k))"
    and pay: "row_get f ''imc_payload_time_us'' = CStr (cell_text (row_get r ''record_time_us''))" for k
    using assms(1) by (auto simp: row_of_packet_def added_cells_def plain_packets_def list_all_iff)
  show idx: "row_get f ''pcap_packet_index'' = CInt (int (sd_index d))" and time: "row_get f ''record_time_us'' = CInt (sd_capture d)"
    using cells by (simp_all add: packet_cells_def)
  have rest: "row_get f ''pcap_source_sha256'' = CStr (sha256_ref data)"
    "row_get f ''pcap_clock_basis'' = CStr ''CAPTURE_REPORTED_NOT_AUTHENTICATED''" using cells by (simp_all add: packet_cells_def)
  have pr: "plain_text (cell_text (row_get r k))" for k
  proof (cases "map_of r k")
    case (Some c)
    with map_of_SomeD [OF Some] typed_plain [OF assms(2)] show ?thesis by (auto simp: plain_cells_def list_all_iff row_get_def)
  qed (simp add: row_get_def plain_text_def)
  have "plain_text (cell_text (row_get f k))" if "k \<in> set ?cols" for k
    using q [OF that] pr int_text_plain [OF assms(3,4)] by (auto simp: time)
  moreover have "plain_text (cell_text (row_get f ''imc_payload_time_us''))" "plain_text (cell_text (row_get f ''pcap_packet_index''))"
    "plain_text (cell_text (row_get f ''pcap_source_sha256''))" "plain_text (cell_text (row_get f ''pcap_clock_basis''))"
    using pr int_text_plain [of "int (sd_index d)"] assms(5) by (simp_all add: pay idx rest plain_sha) (simp_all add: plain_eval)
  ultimately show "list_all plain_text (row_texts (packet_columns plain_packets) f)"
    by (simp add: row_texts_def packet_columns_def list_all_iff) (simp add: plain_packets_def)
qed

lemma payload_rows_member: "(d', r) \<in> set (payload_rows opts d) \<longleftrightarrow>
    d' = d \<and> (\<exists>u i. sd_udp d = Some u \<and> convert_rows (packet_imc opts) (uf_payload u) = Inr i \<and> r \<in> set (is_rows i))"
proof (cases "sd_udp d")
  case (Some u)
  then show ?thesis by (cases "convert_rows (packet_imc opts) (uf_payload u)") (auto simp: payload_rows_def)
qed (simp add: payload_rows_def)

lemma packet_rows_read:
  assumes "convert_pcap dk plain_packets data port = Inr (out, rep)"
  obtains entries where "read_pcap_records data = Inr (pr_linktype rep, entries)"
    "\<forall>f \<in> set (pk_rows (pr_state rep)). \<exists>i < length entries. row_get f ''pcap_packet_index'' = CInt (int i) \<and>
      row_get f ''record_time_us'' = CInt (entries ! i)"
    "csv_reader False out = (packet_columns plain_packets # map (row_texts (packet_columns plain_packets)) (pk_rows (pr_state rep)), None)"
proof (rule convert_pcap_Inr [OF assms])
  fix linktype entries ds
  assume r: "read_pcap_records data = Inr (linktype, entries)"
    "iter_udp_datagrams dk data port (Some (linktype, entries)) (po_single_vlan plain_packets) = (ds, None)"
    and acc: "packets_accounted plain_packets (sha256_ref data) ds (pr_state rep)"
    and o: "out = csv_text (packet_columns plain_packets) (pk_rows (pr_state rep))" "pr_linktype rep = linktype"
  have f: "list_all plain_text (row_texts (packet_columns plain_packets) f) \<and>
      (\<exists>i < length entries. row_get f ''pcap_packet_index'' = CInt (int i) \<and> row_get f ''record_time_us'' = CInt (entries ! i))"
    if "f \<in> set (pk_rows (pr_state rep))" for f
  proof -
    from acc that obtain dr where dr: "dr \<in> set (concat (map (payload_rows plain_packets) ds))" "final_row plain_packets (sha256_ref data) dr f"
      unfolding packets_accounted_def by (metis list_all2_conv_all_nth in_set_conv_nth)
    then obtain d where d: "d \<in> set ds" "dr \<in> set (payload_rows plain_packets d)" by auto
    then have "(fst dr, snd dr) \<in> set (payload_rows plain_packets d)" by simp
    then obtain u :: udp_fields and i where i: "convert_rows (packet_imc plain_packets) (uf_payload u) = Inr i" "snd dr \<in> set (is_rows i)" "fst dr = d"
      unfolding payload_rows_member by blast
    have t: "typed_row (snd dr)" using convert_typed [OF i(1)] i(2) by (simp add: list_all_iff)
    have e: "sd_index d < length entries" "sd_capture d = entries ! sd_index d"
      using iter_udp_items(3) [OF r(2)] d(1) by (auto simp: list_all_iff)
    then have b: "0 \<le> sd_capture d" "sd_capture d < 2 ^ 63" "sd_index d < 2 ^ 63"
      using record_times [OF r(1)] by simp_all
    obtain v tag where "row_of_packet plain_packets (sha256_ref data) d v tag (snd dr) f"
      using dr(2) unfolding final_row_def i(3) by blast
    from plain_row_texts [OF this t b] e show ?thesis by auto
  qed
  have "list_all plain_text (packet_columns plain_packets)"
    using packet_columns_names(1) [of plain_packets] by (auto simp: list_all_iff plain_name_text)
  moreover have "2 \<le> length (packet_columns plain_packets)" by (simp add: packet_columns_def)
  ultimately have "csv_reader False out = (packet_columns plain_packets # map (row_texts (packet_columns plain_packets)) (pk_rows (pr_state rep)), None)"
    unfolding o(1) using f by (intro plain_texts_table) (simp_all add: list_all_iff)
  with that [of entries] r(1) o(2) f show thesis by blast
qed

section \<open>The rows point at the original\<close>

text \<open>A row of the packet table and the row written for it: its packet index is an index into the saved packets, and is
  replaced by the one the saved packet has in the original.\<close>

definition row_of_original :: "ng_provenance \<Rightarrow> string \<Rightarrow> row \<Rightarrow> row \<Rightarrow> bool" where
  "row_of_original prov original_sha f g \<longleftrightarrow> (\<exists>i < length (np_packets prov). row_get f ''pcap_packet_index'' = CInt (int i) \<and>
     map fst g = packet_columns plain_packets \<and>
     list_all (\<lambda>k. k = ''pcap_source_sha256'' \<or> k = ''pcap_packet_index'' \<or> row_get g k = CStr (cell_text (row_get f k)))
       (packet_columns plain_packets) \<and>
     row_get g ''pcap_source_sha256'' = CStr original_sha \<and>
     row_get g ''pcap_packet_index'' = CInt (int (ns_packet_index (np_packets prov ! i))))"

lemma original_row_Inr:
  assumes "original_row prov sha names out (row_texts names f) = Inr out'" "names = packet_columns plain_packets"
    and "row_get f ''pcap_packet_index'' = CInt (int i)"
  shows "\<exists>g. out' = out @ [g] \<and> row_of_original prov sha f g"
proof -
  let ?texts = "text_row names (row_texts names f)" and ?base = "map (\<lambda>(k, s). (k, CStr s)) (text_row names (row_texts names f))"
  have cols: "''pcap_packet_index'' \<in> set names" "''pcap_source_sha256'' \<in> set names" by (simp_all add: assms(2) packet_columns_def)
  have "text_get ?texts ''pcap_packet_index'' = int_text (int i)" by (simp add: row_texts_get(2) [OF cols(1)] assms(3))
  then have idx: "nat (decimal_value (text_get ?texts ''pcap_packet_index'')) = i" by (simp add: int_text_def decimal_nat_digits)
  define g where "g = AList.update ''pcap_packet_index'' (CInt (int (ns_packet_index (np_packets prov ! i))))
    (AList.update ''pcap_source_sha256'' (CStr sha) ?base)"
  from assms(1) have out: "i < length (np_packets prov)" "out' = out @ [g]"
    by (auto simp: original_row_def Let_def idx result_simps g_def)
  have keys: "map fst ?base = names" by (auto simp: text_row_def row_texts_def comp_def split_def)
  have "map fst g = names" unfolding g_def update_keys keys using cols by simp
  moreover have "map_of g = (map_of ?base)(''pcap_source_sha256'' \<mapsto> CStr sha,
      ''pcap_packet_index'' \<mapsto> CInt (int (ns_packet_index (np_packets prov ! i))))" by (simp add: g_def update_conv')
  then have "row_get g k = (if k = ''pcap_packet_index'' then CInt (int (ns_packet_index (np_packets prov ! i)))
      else if k = ''pcap_source_sha256'' then CStr sha else CStr (cell_text (row_get f k)))" if "k \<in> set names" for k
    using row_texts_get(1) [OF that, of f] by (simp add: row_get_def)
  ultimately have "row_of_original prov sha f g"
    unfolding row_of_original_def using out(1) assms(2,3) cols by (intro exI [of _ i]) (simp add: list_all_iff)
  with out(2) show ?thesis by blast
qed

lemma run_original_rows:
  assumes "run_items (original_row prov sha names) out (map (row_texts names) fs) = Inr rows" "names = packet_columns plain_packets"
    and "\<forall>f \<in> set fs. \<exists>i :: nat. row_get f ''pcap_packet_index'' = CInt (int i)"
  shows "\<exists>gs. rows = out @ gs \<and> list_all2 (row_of_original prov sha) fs gs"
  using assms(1,3)
proof (induction fs arbitrary: out)
  case (Cons f fs)
  then obtain i :: nat and out1 where i: "row_get f ''pcap_packet_index'' = CInt (int i)"
    and o: "original_row prov sha names out (row_texts names f) = Inr out1"
      "run_items (original_row prov sha names) out1 (map (row_texts names) fs) = Inr rows" by (auto simp: result_simps)
  from original_row_Inr [OF o(1) assms(2) i] obtain g where g: "out1 = out @ [g]" "row_of_original prov sha f g" by blast
  from Cons.IH [OF o(2)] Cons.prems(2) obtain gs where "rows = out1 @ gs" "list_all2 (row_of_original prov sha) fs gs" by auto
  with g show ?case by (intro exI [of _ "g # gs"]) simp
qed simp

lemma compose_Inr:
  assumes "compose_pcapng dk derived prov sha port = Inr ((names, rows), rep)"
  obtains table where "convert_pcap dk plain_packets derived port = Inr (table, nr_packets rep)" "names = packet_columns plain_packets"
    "list_all2 (row_of_original prov sha) (pk_rows (pr_state (nr_packets rep))) rows" "nr_provenance rep = prov"
    "nr_original_sha rep = sha"
proof -
  from assms obtain table packets fieldnames where c: "convert_pcap dk plain_packets derived port = Inr (table, packets)"
    and h: "dict_fieldnames (csv_reader False table) = Inr fieldnames" "names = (case fieldnames of None \<Rightarrow> [] | Some names \<Rightarrow> names)"
    and g: "run_gen (original_row prov sha names) [] (dict_records (csv_reader False table)) = Inr rows"
    and rep: "nr_packets rep = packets" "nr_provenance rep = prov" "nr_original_sha rep = sha"
    unfolding compose_pcapng_def Let_def by (auto simp: result_simps split: if_splits)
  from packet_rows_read [OF c] obtain entries where
    i: "\<forall>f \<in> set (pk_rows (pr_state packets)). \<exists>i < length entries. row_get f ''pcap_packet_index'' = CInt (int i) \<and>
      row_get f ''record_time_us'' = CInt (entries ! i)"
    and t: "csv_reader False table = (packet_columns plain_packets # map (row_texts (packet_columns plain_packets)) (pk_rows (pr_state packets)), None)"
    by blast
  have n: "names = packet_columns plain_packets" using h by (auto simp: t dict_fieldnames_def)
  have "row_texts (packet_columns plain_packets) r \<noteq> []" for r by (simp add: row_texts_def packet_columns_def)
  then have "dict_records (csv_reader False table) = (map (row_texts names) (pk_rows (pr_state packets)), None)"
    by (simp add: t n dict_records_def)
  with g have "run_items (original_row prov sha names) [] (map (row_texts names) (pk_rows (pr_state packets))) = Inr rows"
    by (simp add: run_gen_def rbind_def split: sum.splits)
  from run_original_rows [OF this n] i have "list_all2 (row_of_original prov sha) (pk_rows (pr_state packets)) rows" by auto
  with that c n rep show thesis by blast
qed

end
