(* ===== verification/Spec2Isabelle.thy ===== *)
theory Spec2Isabelle
  imports Icmp H264_Join Sender_Clock Tramp Ping Crsf_Native Params_History Smart_Audio Line_Window Pcapng_Packets
begin

text \<open>
  A model of the packet and serial-link core of Musubi's recorded-input converters, the scripts under
  \<^verbatim>\<open>src/scripts\<close> that read a saved capture and write an observation table with a report. Each converter
  is a pure function of the bytes or the text it is given; what it refuses and what it counts is its contract:
  nothing is dropped silently, nothing is ordered that was not observed, and every refusal is an error.

  Parts and theories, in import order.

  \<^item> Python itself. \<^verbatim>\<open>Py_Base\<close>: errors as the left summand of a result, generators as the items
    yielded before the exception, byte slices, integers in byte strings, hex text. \<^verbatim>\<open>Py_Float\<close>: the repr of
    a quotient of two integers. \<^verbatim>\<open>Py_Sha256\<close>: SHA-256. \<^verbatim>\<open>Py_Text\<close>: \<^verbatim>\<open>csv.DictWriter\<close>
    and \<^verbatim>\<open>json.dumps\<close>. \<^verbatim>\<open>Py_Csv\<close>: the CSV reader with and without the strict mode.
    \<^verbatim>\<open>Py_Decimal\<close>: the decimal arithmetic of the RTCP times. \<^verbatim>\<open>Py_Double\<close>: binary64 and binary32
    numbers with their rounding and their shortest text; \<^verbatim>\<open>Double_Values\<close> relates them to real numbers.
  \<^item> Packets. \<^verbatim>\<open>Framing\<close> states the contract of a length-delimited walk as a locale. \<^verbatim>\<open>Pcap\<close>
    models the classic PCAP reader and the interval extractor, \<^verbatim>\<open>Datagrams\<close> the link envelopes and the UDP
    and ICMP walkers, \<^verbatim>\<open>Icmp\<close> the pairing of echo requests and replies (all of
    \<^verbatim>\<open>convert_imc_sensors.py\<close>). \<^verbatim>\<open>Rtp_Source\<close> models the class \<^verbatim>\<open>_Source\<close>, \<^verbatim>\<open>Rtp_Records\<close>
    the parser and the conversion of \<^verbatim>\<open>convert_rtp_records.py\<close>; \<^verbatim>\<open>H264_Packets\<close>, \<^verbatim>\<open>H264_Stream\<close>
    and \<^verbatim>\<open>H264_Join\<close> model \<^verbatim>\<open>convert_rtp_h264_stream.py\<close>; \<^verbatim>\<open>Rtcp_Packets\<close> and \<^verbatim>\<open>Rtcp\<close>
    model \<^verbatim>\<open>convert_rtcp_sender_reports.py\<close>; \<^verbatim>\<open>Sender_Clock\<close> models \<^verbatim>\<open>convert_rtp_sender_clock.py\<close>,
    which joins the two. \<^verbatim>\<open>Tracking\<close> holds the bounded per-source tables they share. \<^verbatim>\<open>Pcapng\<close> models
    the qualifier of \<^verbatim>\<open>convert_pcapng_udp.py\<close>, which derives a classic capture for the reader of \<^verbatim>\<open>Pcap\<close>, and
    \<^verbatim>\<open>Pcapng_Packets\<close> its conversions, which point the rows of that capture back at the original.
  \<^item> Sensor messages. \<^verbatim>\<open>Imc_Frames\<close> models the header, the CRC, the frames, the selected quantities and
    \<^verbatim>\<open>convert\<close> of \<^verbatim>\<open>convert_imc_sensors.py\<close>; \<^verbatim>\<open>Imc_Codec\<close> holds the encoder it inverts, \<^verbatim>\<open>Imc_Rows\<close>
    the types of its rows, \<^verbatim>\<open>Imc_Converts\<close> the streams on which no check can fail, \<^verbatim>\<open>Imc_Packets\<close> the
    conversion of the datagrams of a capture (\<^verbatim>\<open>convert_pcap\<close>).
  \<^item> Serial links. \<^verbatim>\<open>Tramp\<close> (\<^verbatim>\<open>convert_vtx_tramp_replies.py\<close>), \<^verbatim>\<open>Ping\<close> (\<^verbatim>\<open>convert_ping_frames.py\<close>),
    \<^verbatim>\<open>Smart_Audio\<close> (\<^verbatim>\<open>convert_smartaudio_recorded.py\<close>); \<^verbatim>\<open>Crsf_Frames\<close> and \<^verbatim>\<open>Crsf_Link\<close> the frames and
    the frame tables of \<^verbatim>\<open>convert_crsf_link.py\<close>, \<^verbatim>\<open>Crsf_Native\<close> its S.Port and MSP captures, \<^verbatim>\<open>Canvas\<close> the
    DisplayPort address state of \<^verbatim>\<open>convert_displayport_canvas.py\<close> it drives, \<^verbatim>\<open>Crsf_Params\<close> and
    \<^verbatim>\<open>Params_History\<close> the parameter replies of \<^verbatim>\<open>convert_crsf_parameters.py\<close>, \<^verbatim>\<open>Line_Window\<close> the
    line selector of \<^verbatim>\<open>convert_vda_load_report.py\<close> and the frame-table window on top of it.

  How code becomes definitions. A function, a handler or the body of a loop is one definition with its guards in the
  order of the code; an exception is \<open>Inl\<close> of its kind (a \<^verbatim>\<open>ValueError\<close> with its text), and no other result
  is partial. The local variables of a loop are a record; a dictionary is an association list in insertion order where
  its order or size shows, else a map; a row is the list of its keys and cells. A text is the list of its UTF-8 bytes
  as characters, so that \<^verbatim>\<open>len(text.encode())\<close> is a length; the floats of the serial links are kept as the quotients
  of integers they are before rounding, those of the IMC messages are the binary64 numbers themselves. The output buffer is the list of rows written, and \<^verbatim>\<open>output.tell()\<close> the length of their text.
  The packet and block decoders of dpkt and what the file system answers (kinds, sizes, unchanged signatures) are arguments.

  Loops. A loop over items is \<open>run_items\<close>; a loop over a cursor is a function with a measure, the bytes left, so that
  every conversion returns on every input and no fuel is needed; \<open>msp_loop_turns\<close> says how many turns suffice.

  What the lemmas show. Exactness: what a reader accepts is exactly a well-formed encoding, and it reads back what was
  encoded (PCAP windows, RTP headers, STAP-A units, FU-A chains, compound RTCP, Ping frames, S.Port stuffing, channel
  ticks, stored parameters, transmitter settings, IMC frames, PCAPNG intervals). Accounting: every packet, byte or record of the input is in exactly
  one row, range or count. Refinement: the wrap-around arithmetic of RTP sequence numbers and ticks against unbounded
  integers, the Tramp walk against a byte-at-a-time receiver, the canvas against an abstract screen, the parameter runs
  against the history of the frames. Safety: a pair, a restart, a repeat, a join or a parameter value is reported only
  with its evidence, a withheld component never as a number. Types: the cells of an IMC row have the type of their
  column. Liveness: an IMC stream within the bounds is converted. Interfaces are locales with interpretations on the model's own functions, in the theories that
  provide them.

  Not modelled. The \<^verbatim>\<open>main\<close> functions (argument parsing and file writing), fixed texts of some reports,
  \<^verbatim>\<open>_description_sets\<close> of the H.264 converter (an SDP reader of another script, represented by the value it
  returns), and the load conversion of \<^verbatim>\<open>convert_vda_load_report.py\<close>. Of \<^verbatim>\<open>convert_imc_sensors.py\<close> the window
  of a saved file, the gzip members, the wind payload and the writer qualification are left out. The other message decoders, the autopilot, middleware, agricultural, media and
  host-report converters, and the Rust crates are outside this development.
\<close>

end
